(* ===== verification/Prelude.thy ===== *)
theory Prelude
  imports Main "HOL-Library.Word"
begin

text \<open>
  What every component of the model shares: the C integer types as words, byte order, the
  list operations that C's "walk the list, unlink the first match, stop" loops amount to, and
  these interfaces stated as locales:
  \<^item> \<open>op_system\<close>: a component whose operations never get stuck and keep an invariant, so that
    every run from the initial state is defined and keeps it;
  \<^item> \<open>guarded_system\<close>: the same for a component that calls code which need not return;
  \<^item> \<open>logged_store\<close>: a system of operations that returns only what was stored last;
  \<^item> \<open>lossy_store\<close>: a keyed store that may forget but never invents: a hit returns what the
    last store of that key put there; \<open>keyed_store\<close> extends it by "other keys are kept";
  \<^item> \<open>sync_cipher\<close>: a stateful cipher whose two ends move in step, so that a whole sequence of
    messages decrypts to what was sent.
\<close>

unbundle bit_operations_syntax

named_theorems byte_order \<open>byte order conversions and their inverses\<close>
named_theorems first_match \<open>the list loops that act on the first match\<close>

subsection \<open>C types\<close>

type_synonym u8 = "8 word"
type_synonym u16 = "16 word"
type_synonym u32 = "32 word"
type_synonym u64 = "64 word"

text \<open>\<open>time_t\<close>: seconds; the code only adds small constants to it and compares.\<close>

type_synonym time_t = int

lemma u8_wraps: "(256 :: u8) = 0"
  by code_simp

subsection \<open>Big-endian integers\<close>

definition be16 :: "u16 \<Rightarrow> u8 list" where
  "be16 w = [ucast (drop_bit 8 w), ucast w]"

definition of_be16 :: "u8 \<Rightarrow> u8 \<Rightarrow> u16" where
  "of_be16 a b = push_bit 8 (ucast a) OR ucast b"

definition be32 :: "u32 \<Rightarrow> u8 list" where
  "be32 w = [ucast (drop_bit 24 w), ucast (drop_bit 16 w), ucast (drop_bit 8 w), ucast w]"

definition of_be32 :: "u8 \<Rightarrow> u8 \<Rightarrow> u8 \<Rightarrow> u8 \<Rightarrow> u32" where
  "of_be32 a b c d = push_bit 24 (ucast a) OR push_bit 16 (ucast b) OR push_bit 8 (ucast c) OR ucast d"

definition be64 :: "u64 \<Rightarrow> u8 list" where
  "be64 w = map (\<lambda>i. ucast (drop_bit (56 - 8 * i) w)) [0..<8]"

lemma length_be [simp]: "length (be16 x) = 2" "length (be32 y) = 4" "length (be64 z) = 8"
  by (simp_all add: be16_def be32_def be64_def)

lemma of_be16_be16 [byte_order, simp]:
  "of_be16 (ucast (drop_bit 8 w)) (ucast (w :: u16)) = w"
proof (rule bit_word_eqI)
  fix n assume "n < LENGTH(16)"
  then show "bit (of_be16 (ucast (drop_bit 8 w)) (ucast w)) n = bit w n"
    by (cases "n < 8") (auto simp: of_be16_def bit_simps not_less)
qed

lemma of_be32_be32 [byte_order, simp]:
  "of_be32 (ucast (drop_bit 24 w)) (ucast (drop_bit 16 w)) (ucast (drop_bit 8 w)) (ucast (w :: u32)) = w"
proof (rule bit_word_eqI)
  fix n assume n: "n < LENGTH(32)"
  consider "n < 8" | "8 \<le> n" "n < 16" | "16 \<le> n" "n < 24" | "24 \<le> n"
    by linarith
  then show "bit (of_be32 (ucast (drop_bit 24 w)) (ucast (drop_bit 16 w)) (ucast (drop_bit 8 w)) (ucast w)) n = bit w n"
    using n by cases (auto simp: of_be32_def bit_simps)
qed

lemma be32_inject [byte_order, simp]: "be32 v = be32 w \<longleftrightarrow> v = w"
proof
  assume "be32 v = be32 w"
  then have "of_be32 (be32 v ! 0) (be32 v ! 1) (be32 v ! 2) (be32 v ! 3)
    = of_be32 (be32 w ! 0) (be32 w ! 1) (be32 w ! 2) (be32 w ! 3)"
    by simp
  then show "v = w"
    by (simp add: be32_def)
qed simp

lemma be64_inject [byte_order, simp]: "be64 v = be64 w \<longleftrightarrow> v = w"
proof
  assume eq: "be64 v = be64 w"
  show "v = w"
  proof (rule bit_word_eqI)
    fix n assume n: "n < LENGTH(64)"
    define i where "i = 7 - n div 8"
    have i: "i < 8" "56 - 8 * i = 8 * (n div 8)"
      using n by (auto simp: i_def)
    from eq i(1) have "ucast (drop_bit (56 - 8 * i) v) = (ucast (drop_bit (56 - 8 * i) w) :: u8)"
      unfolding be64_def by (metis (no_types, lifting) add_0 diff_zero length_upt nth_map nth_upt)
    then have "bit (ucast (drop_bit (8 * (n div 8)) v) :: u8) (n mod 8)
      = bit (ucast (drop_bit (8 * (n div 8)) w) :: u8) (n mod 8)"
      by (simp add: i(2))
    then show "bit v n = bit w n"
      by (simp add: bit_simps)
  qed
qed simp

subsection \<open>C strings\<close>

text \<open>
  A C string is a HOL string without its terminating NUL. \<open>to_bytes\<close> is its memory, and \<open>c_string\<close>
  reads a string from memory up to the first NUL.
\<close>

definition to_bytes :: "string \<Rightarrow> u8 list" where
  "to_bytes s = map of_char s"

definition of_bytes :: "u8 list \<Rightarrow> string" where
  "of_bytes bs = map (\<lambda>b. char_of (unat b)) bs"

definition c_string :: "u8 list \<Rightarrow> string" where
  "c_string bs = of_bytes (takeWhile (\<lambda>b. b \<noteq> 0) bs)"

definition no_nul :: "string \<Rightarrow> bool" where
  "no_nul s \<longleftrightarrow> (\<forall>c \<in> set s. c \<noteq> CHR 0x00)"

text \<open>\<open>strncpy(dst, src, n - 1)\<close> into a cleared buffer of \<open>n\<close> bytes, or \<open>snprintf(dst, n, "%s", src)\<close>.\<close>

definition c_strncpy :: "nat \<Rightarrow> string \<Rightarrow> string" where
  "c_strncpy n s = take (n - 1) s"

lemma length_to_bytes [simp]: "length (to_bytes s) = length s"
  by (simp add: to_bytes_def)

lemma to_bytes_append [simp]: "to_bytes (s @ t) = to_bytes s @ to_bytes t"
  by (simp add: to_bytes_def)

lemma unat_of_char [simp]: "unat (of_char c :: u8) = of_char c"
proof -
  have "unat (of_nat (of_char c) :: u8) = of_char c mod 256"
    by (simp add: unsigned_of_nat take_bit_eq_mod)
  then show ?thesis by (simp only: of_nat_of_char of_char_mod_256)
qed

lemma of_char_0_iff: "(of_char c :: u8) = 0 \<longleftrightarrow> c = CHR 0x00"
proof -
  have "(of_char c :: u8) = 0 \<longleftrightarrow> (of_char c :: nat) = of_char (CHR 0x00)"
    by (simp add: unat_eq_zero flip: unat_of_char)
  then show ?thesis by (simp only: of_char_eq_iff)
qed

lemma of_bytes_to_bytes [byte_order, simp]: "of_bytes (to_bytes s) = s"
  by (induction s) (simp_all add: of_bytes_def to_bytes_def)

lemma c_string_to_bytes [byte_order, simp]:
  "no_nul s \<Longrightarrow> c_string (to_bytes s @ 0 # rest) = s"
proof -
  assume "no_nul s"
  then have "takeWhile (\<lambda>b. b \<noteq> 0) (to_bytes s @ 0 # rest) = to_bytes s"
    by (induction s) (simp_all add: to_bytes_def no_nul_def of_char_0_iff)
  then show ?thesis by (simp add: c_string_def)
qed

subsection \<open>Loops over a linked list that act on the first match\<close>

fun find_idx :: "('a \<Rightarrow> bool) \<Rightarrow> 'a list \<Rightarrow> nat option" where
  "find_idx P [] = None"
| "find_idx P (x # xs) = (if P x then Some 0 else map_option Suc (find_idx P xs))"

fun remove_first :: "('a \<Rightarrow> bool) \<Rightarrow> 'a list \<Rightarrow> 'a list" where
  "remove_first P [] = []"
| "remove_first P (x # xs) = (if P x then xs else x # remove_first P xs)"

fun update_first :: "('a \<Rightarrow> bool) \<Rightarrow> ('a \<Rightarrow> 'a) \<Rightarrow> 'a list \<Rightarrow> 'a list" where
  "update_first P f [] = []"
| "update_first P f (x # xs) = (if P x then f x # xs else x # update_first P f xs)"

lemma find_idx_None [first_match]: "find_idx P xs = None \<longleftrightarrow> (\<forall>x \<in> set xs. \<not> P x)"
  by (induction xs) auto

lemma find_idx_Some [first_match]:
  "find_idx P xs = Some i \<longleftrightarrow> i < length xs \<and> P (xs ! i) \<and> (\<forall>j < i. \<not> P (xs ! j))"
proof (induction xs arbitrary: i)
  case (Cons x xs)
  then show ?case
    by (cases i) (auto simp: less_Suc_eq_0_disj)
qed simp

lemma find_idx_find: "find_idx P xs = Some i \<Longrightarrow> find P xs = Some (xs ! i)"
  by (induction xs arbitrary: i) (auto split: if_splits)

lemma find_idx_None_find: "find_idx P xs = None \<longleftrightarrow> find P xs = None"
  by (induction xs) auto

lemma length_update_first [simp]: "length (update_first P f xs) = length xs"
  by (induction xs) auto

lemma map_update_first: "(\<And>x. g (f x) = g x) \<Longrightarrow> map g (update_first P f xs) = map g xs"
  by (induction xs) auto

lemma length_remove_first [first_match]:
  "length (remove_first P xs) = length xs - (if \<exists>x \<in> set xs. P x then 1 else 0)"
  by (induction xs) (auto simp: Suc_diff_le neq_Nil_conv dest: length_pos_if_in_set)

lemma set_remove_first: "set (remove_first P xs) \<subseteq> set xs"
  by (induction xs) auto

lemma remove_first_none [first_match]: "\<forall>x \<in> set xs. \<not> P x \<Longrightarrow> remove_first P xs = xs"
  by (induction xs) auto

lemma distinct_map_remove_first: "distinct (map g xs) \<Longrightarrow> distinct (map g (remove_first P xs))"
  by (induction xs) (auto dest: set_remove_first [THEN subsetD])

lemma in_remove_first: "x \<in> set xs \<Longrightarrow> \<not> P x \<Longrightarrow> x \<in> set (remove_first P xs)"
  by (induction xs) auto

lemma remove_first_unique [first_match]:
  "distinct (map g xs) \<Longrightarrow> remove_first (\<lambda>x. g x = k) xs = filter (\<lambda>x. g x \<noteq> k) xs"
proof (induction xs)
  case (Cons x xs)
  have "filter (\<lambda>y. g y \<noteq> k) xs = xs" if "g x = k"
    unfolding filter_id_conv using that Cons.prems by (metis distinct.simps(2) image_eqI list.simps(9) set_map)
  with Cons show ?case by auto
qed simp

lemma find_append: "find P (xs @ ys) = (case find P xs of None \<Rightarrow> find P ys | Some x \<Rightarrow> Some x)"
  by (induction xs) auto

lemma find_filter_other: "(\<And>x. P x \<Longrightarrow> Q x) \<Longrightarrow> find P (filter Q xs) = find P xs"
  by (induction xs) auto

lemma find_remove_first_other [first_match]:
  "(\<And>x. P x \<Longrightarrow> \<not> Q x) \<Longrightarrow> find P (remove_first Q xs) = find P xs"
  by (induction xs) auto

lemma find_update_first_other [first_match]:
  "(\<And>x. P x \<Longrightarrow> \<not> Q x) \<Longrightarrow> (\<And>x. Q x \<Longrightarrow> \<not> P (f x)) \<Longrightarrow> find P (update_first Q f xs) = find P xs"
  by (induction xs) auto

lemma find_update_first_same [first_match]:
  "(\<And>x. P x \<Longrightarrow> P (f x)) \<Longrightarrow> find P (update_first P f xs) = map_option f (find P xs)"
  by (induction xs) auto

subsection \<open>Interface: operations that never get stuck\<close>

fun run_ops :: "('op \<Rightarrow> 's \<Rightarrow> 's option) \<Rightarrow> 'op list \<Rightarrow> 's \<Rightarrow> 's option" where
  "run_ops step [] s = Some s"
| "run_ops step (x # xs) s = (case step x s of None \<Rightarrow> None | Some t \<Rightarrow> run_ops step xs t)"

locale op_system =
  fixes init :: 's
    and step :: "'op \<Rightarrow> 's \<Rightarrow> 's option"
    and invar :: "'s \<Rightarrow> bool"
  assumes invar_init: "invar init"
    and progress: "invar s \<Longrightarrow> \<exists>t. step x s = Some t \<and> invar t"
begin

lemma run_progress: "invar s \<Longrightarrow> \<exists>t. run_ops step xs s = Some t \<and> invar t"
proof (induction xs arbitrary: s)
  case (Cons x xs)
  from progress [OF Cons.prems, of x] Cons.IH show ?case by fastforce
qed simp

lemma run_init: "\<exists>t. run_ops step xs init = Some t \<and> invar t"
  by (rule run_progress) (rule invar_init)

end

text \<open>An operation that always returns is a total step.\<close>

locale total_system =
  fixes init :: 's
    and exec :: "'op \<Rightarrow> 's \<Rightarrow> 's"
    and invar :: "'s \<Rightarrow> bool"
  assumes invar_start: "invar init"
    and invar_exec: "invar s \<Longrightarrow> invar (exec x s)"
begin

lemma invar_fold: "invar s \<Longrightarrow> invar (fold exec xs s)"
  by (induction xs arbitrary: s) (auto intro: invar_exec)

end

sublocale total_system \<subseteq> op: op_system init "\<lambda>x s. Some (exec x s)" invar
  by unfold_locales (auto intro: invar_start invar_exec)

text \<open>
  A system that calls code which need not return: a step may be undefined, but only where that code is \<open>stuck\<close>. A run is
  then either defined, and keeps the invariant, or it ends in front of an operation at which the code is stuck.
\<close>

locale guarded_system =
  fixes init :: 's
    and step :: "'op \<Rightarrow> 's \<Rightarrow> 's option"
    and stuck :: "'op \<Rightarrow> 's \<Rightarrow> bool"
    and invar :: "'s \<Rightarrow> bool"
  assumes invar_first: "invar init"
    and progress_or_stuck: "invar s \<Longrightarrow> (\<exists>t. step x s = Some t \<and> invar t) \<or> step x s = None \<and> stuck x s"
begin

lemma run_keeps: "run_ops step xs s = Some t \<Longrightarrow> invar s \<Longrightarrow> invar t"
proof (induction xs arbitrary: s)
  case (Cons x xs)
  with progress_or_stuck [OF Cons.prems(2), of x] show ?case by (auto split: option.splits)
qed simp

lemma run_or_stuck:
  "invar s \<Longrightarrow> (\<exists>t. run_ops step xs s = Some t \<and> invar t) \<or>
     run_ops step xs s = None \<and> (\<exists>pre x post t. xs = pre @ x # post \<and> run_ops step pre s = Some t \<and> invar t \<and>
       step x t = None \<and> stuck x t)"
proof (induction xs arbitrary: s)
  case (Cons x xs)
  show ?case
  proof (cases "step x s")
    case None
    with progress_or_stuck [OF Cons.prems, of x] have "stuck x s" by simp
    with None Cons.prems show ?thesis by (intro disjI2 conjI exI [of _ "[]"] exI [of _ x] exI [of _ xs] exI [of _ s]) simp_all
  next
    case (Some t)
    with progress_or_stuck [OF Cons.prems, of x] have "invar t" by simp
    from Cons.IH [OF this] show ?thesis
    proof
      assume "run_ops step xs t = None \<and> (\<exists>pre x post u. xs = pre @ x # post \<and> run_ops step pre t = Some u \<and> invar u \<and>
        step x u = None \<and> stuck x u)"
      then obtain pre y post u where "run_ops step xs t = None" "xs = pre @ y # post" "run_ops step pre t = Some u" "invar u"
        "step y u = None" "stuck y u" by blast
      with Some show ?thesis
        by (intro disjI2 conjI exI [of _ "x # pre"] exI [of _ y] exI [of _ post] exI [of _ u]) simp_all
    qed (simp add: Some)
  qed
qed simp

end

text \<open>An operation that never gets stuck is the special case.\<close>

sublocale op_system \<subseteq> free: guarded_system init step "\<lambda>_ _. False" invar
  by unfold_locales (auto intro: invar_init progress)

subsection \<open>Interface: stores that may forget\<close>

text \<open>
  A system of operations whose view of a key is what an operation stores, or what it was, or nothing. Over any run
  it then holds what was stored last for the key, or nothing. \<open>stored x s k\<close> is what \<open>x\<close> stores in the state \<open>s\<close>.
\<close>

fun last_stored :: "('op \<Rightarrow> 's \<Rightarrow> 's option) \<Rightarrow> ('op \<Rightarrow> 's \<Rightarrow> 'k \<Rightarrow> 'v option) \<Rightarrow> 'op list \<Rightarrow> 's \<Rightarrow> 'k \<Rightarrow> 'v option" where
  "last_stored step stored [] s k = None"
| "last_stored step stored (x # xs) s k =
     (case step x s of
        None \<Rightarrow> None
      | Some t \<Rightarrow> (case last_stored step stored xs t k of None \<Rightarrow> stored x s k | Some v \<Rightarrow> Some v))"

locale logged_store =
  fixes step :: "'op \<Rightarrow> 's \<Rightarrow> 's option"
    and stored :: "'op \<Rightarrow> 's \<Rightarrow> 'k \<Rightarrow> 'v option"
    and invar :: "'s \<Rightarrow> bool"
    and view :: "'s \<Rightarrow> 'k \<Rightarrow> 'v option"
  assumes step_keeps: "invar s \<Longrightarrow> step x s = Some t \<Longrightarrow> invar t"
    and step_view: "invar s \<Longrightarrow> step x s = Some t \<Longrightarrow>
      view t k \<in> {None, case stored x s k of None \<Rightarrow> view s k | Some v \<Rightarrow> Some v}"
begin

lemma holds_last:
  "run_ops step xs s = Some t \<Longrightarrow> invar s \<Longrightarrow> view t k = Some v \<Longrightarrow>
     last_stored step stored xs s k = Some v \<or> last_stored step stored xs s k = None \<and> view s k = Some v"
proof (induction xs arbitrary: s)
  case (Cons x xs)
  then obtain s' where s': "step x s = Some s'" "run_ops step xs s' = Some t" by (auto split: option.splits)
  from Cons.IH [OF s'(2) step_keeps [OF Cons.prems(2) s'(1)] Cons.prems(3)] step_view [OF Cons.prems(2) s'(1), of k] s'(1)
  show ?case by (auto split: option.splits)
qed simp

lemma holds_last_empty:
  "run_ops step xs s = Some t \<Longrightarrow> invar s \<Longrightarrow> view s k = None \<Longrightarrow> view t k = Some v \<Longrightarrow> last_stored step stored xs s k = Some v"
  using holds_last by fastforce

end

datatype ('k, 'v, 'o) store_op = Put 'k 'v | Shrink 'o

fun last_put :: "('k, 'v, 'o) store_op list \<Rightarrow> 'k \<Rightarrow> 'v option" where
  "last_put [] k = None"
| "last_put (Put k' v # xs) k = (case last_put xs k of None \<Rightarrow> if k' = k then Some v else None | Some w \<Rightarrow> Some w)"
| "last_put (Shrink _ # xs) k = last_put xs k"

fun exec_store :: "('k \<Rightarrow> 'v \<Rightarrow> 's \<Rightarrow> 's) \<Rightarrow> ('o \<Rightarrow> 's \<Rightarrow> 's) \<Rightarrow> ('k, 'v, 'o) store_op \<Rightarrow> 's \<Rightarrow> 's" where
  "exec_store put shrink (Put k v) s = put k v s"
| "exec_store put shrink (Shrink x) s = shrink x s"

fun op_ok :: "('k \<Rightarrow> 'v \<Rightarrow> bool) \<Rightarrow> ('k, 'v, 'o) store_op \<Rightarrow> bool" where
  "op_ok ok (Put k v) = ok k v"
| "op_ok ok (Shrink _) = True"

locale lossy_store =
  fixes invar :: "'s \<Rightarrow> bool"
    and ok :: "'k \<Rightarrow> 'v \<Rightarrow> bool"
    and view :: "'s \<Rightarrow> 'k \<Rightarrow> 'v option"
    and put :: "'k \<Rightarrow> 'v \<Rightarrow> 's \<Rightarrow> 's"
    and shrink :: "'o \<Rightarrow> 's \<Rightarrow> 's"
  assumes invar_put: "invar s \<Longrightarrow> ok k v \<Longrightarrow> invar (put k v s)"
    and view_put: "invar s \<Longrightarrow> ok k v \<Longrightarrow> view (put k v s) k = Some v"
    and view_put_other: "invar s \<Longrightarrow> ok k v \<Longrightarrow> k' \<noteq> k \<Longrightarrow> view (put k v s) k' \<in> {None, view s k'}"
    and invar_shrink: "invar s \<Longrightarrow> invar (shrink x s)"
    and view_shrink: "invar s \<Longrightarrow> view (shrink x s) k \<in> {None, view s k}"
begin

lemma exec_invar: "invar s \<Longrightarrow> op_ok ok x \<Longrightarrow> invar (exec_store put shrink x s)"
  by (cases x) (auto intro: invar_put invar_shrink)

lemma coherent:
  assumes "invar s" and "list_all (op_ok ok) xs"
    and "view (fold (exec_store put shrink) xs s) k = Some v"
  shows "last_put xs k = Some v \<or> (last_put xs k = None \<and> view s k = Some v)"
  using assms
proof (induction xs arbitrary: s)
  case (Cons x xs)
  let ?t = "exec_store put shrink x s"
  from Cons.prems have t: "invar ?t" and "list_all (op_ok ok) xs"
    by (auto intro: exec_invar)
  with Cons.IH [of ?t] Cons.prems(3)
  have IH: "last_put xs k = Some v \<or> (last_put xs k = None \<and> view ?t k = Some v)"
    by simp
  show ?case
  proof (cases x)
    case (Put k' w)
    with Cons.prems IH show ?thesis
      using view_put [of s k' w] view_put_other [of s k' w k] by (cases "k' = k") auto
  next
    case (Shrink y)
    with Cons.prems IH show ?thesis
      using view_shrink [of s y k] by auto
  qed
qed simp

lemma coherent_empty:
  assumes "invar s" and "\<And>k. view s k = None" and "list_all (op_ok ok) xs"
    and "view (fold (exec_store put shrink) xs s) k = Some v"
  shows "last_put xs k = Some v"
  using coherent [OF assms(1,3,4)] assms(2) by simp

end

locale keyed_store = lossy_store +
  assumes view_put_keep: "invar s \<Longrightarrow> ok k v \<Longrightarrow> k' \<noteq> k \<Longrightarrow> view (put k v s) k' = view s k'"
begin

text \<open>Without shrinking operations nothing is forgotten either.\<close>

lemma complete:
  assumes "invar s" and "list_all (\<lambda>(k, v). ok k v) kvs"
  shows "view (fold (\<lambda>(k, v). put k v) kvs s) k
    = (case map_of (rev kvs) k of None \<Rightarrow> view s k | Some v \<Rightarrow> Some v)"
  using assms
proof (induction kvs arbitrary: s)
  case (Cons p kvs)
  obtain k' v where p: "p = (k', v)" by fastforce
  with Cons.prems have "invar (put k' v s)" "ok k' v"
    by (auto intro: invar_put)
  with Cons p show ?case
    by (auto simp: map_add_def view_put view_put_keep split: option.splits)
qed simp

end

subsection \<open>Interface: bounded stores of keys\<close>

text \<open>
  A store with a limited number of places that keeps the image \<open>keep v\<close> of a value. Then after any puts that
  fit, a key has its last value.
\<close>

locale key_store =
  fixes put :: "'k \<Rightarrow> 'v \<Rightarrow> 's \<Rightarrow> 's"
    and get :: "'k \<Rightarrow> 's \<Rightarrow> 'v option"
    and keep :: "'v \<Rightarrow> 'v"
    and room :: "nat \<Rightarrow> 's \<Rightarrow> bool"
  assumes get_put_same: "room (Suc n) s \<Longrightarrow> get k (put k v s) = Some (keep v)"
    and get_put_other: "k \<noteq> k' \<Longrightarrow> get k' (put k v s) = get k' s"
    and room_put: "room (Suc n) s \<Longrightarrow> room n (put k v s)"
begin

lemma get_puts:
  "room (length kvs) s \<Longrightarrow> get k (fold (\<lambda>(k, v). put k v) kvs s)
     = (case map_of (rev kvs) k of None \<Rightarrow> get k s | Some v \<Rightarrow> Some (keep v))"
proof (induction kvs arbitrary: s)
  case (Cons kv kvs)
  obtain k1 v1 where kv: "kv = (k1, v1)" by fastforce
  have "room (length kvs) (put k1 v1 s)" using Cons.prems by (intro room_put) simp
  then have "get k (fold (\<lambda>(k, v). put k v) kvs (put k1 v1 s))
     = (case map_of (rev kvs) k of None \<Rightarrow> get k (put k1 v1 s) | Some v \<Rightarrow> Some (keep v))" by (rule Cons.IH)
  moreover have "get k (put k1 v1 s) = (if k = k1 then Some (keep v1) else get k s)"
    using Cons.prems get_put_same [of "length kvs" s k1 v1] get_put_other [of k1 k v1 s] by auto
  ultimately show ?case by (simp add: kv map_add_def split: option.split)
qed simp

end

subsection \<open>Interface: ciphers that move in step\<close>

fun map_stream :: "('st \<Rightarrow> 'm \<Rightarrow> ('st \<times> 'n) option) \<Rightarrow> 'st \<Rightarrow> 'm list \<Rightarrow> ('st \<times> 'n list) option" where
  "map_stream f s [] = Some (s, [])"
| "map_stream f s (m # ms) =
     (case f s m of None \<Rightarrow> None
      | Some (t, c) \<Rightarrow> (case map_stream f t ms of None \<Rightarrow> None | Some (u, cs) \<Rightarrow> Some (u, c # cs)))"

locale sync_cipher =
  fixes enc :: "'st \<Rightarrow> 'm \<Rightarrow> ('st \<times> 'n) option"
    and dec :: "'st \<Rightarrow> 'n \<Rightarrow> ('st \<times> 'm) option"
    and synced :: "'st \<Rightarrow> 'st \<Rightarrow> bool"
  assumes in_step: "synced s r \<Longrightarrow> enc s m = Some (s', c) \<Longrightarrow> \<exists>r'. dec r c = Some (r', m) \<and> synced s' r'"
begin

lemma session:
  "synced s r \<Longrightarrow> map_stream enc s ms = Some (s', cs)
   \<Longrightarrow> \<exists>r'. map_stream dec r cs = Some (r', ms) \<and> synced s' r'"
proof (induction ms arbitrary: s r cs)
  case (Cons m ms)
  from Cons.prems(2) obtain t c cs' where e: "enc s m = Some (t, c)"
    and rest: "map_stream enc t ms = Some (s', cs')" and cs: "cs = c # cs'"
    by (auto split: option.splits)
  from in_step [OF Cons.prems(1) e] obtain r1 where "dec r c = Some (r1, m)" and "synced t r1"
    by blast
  with Cons.IH [of t r1 cs'] rest cs show ?case by fastforce
qed simp

end

end
