(* ===== verification/Text.thy ===== *)
theory Text
  imports Prelude
begin

text \<open>
  What the configuration readers share: \<open>fgets\<close> with its fixed buffer, the character classes of the C
  locale, trimming, and \<open>atoi\<close>. A file is the string of its contents.
\<close>

subsection \<open>Character classes\<close>

definition char_code :: "char \<Rightarrow> nat" where
  "char_code c = of_char c"

definition c_isspace :: "char \<Rightarrow> bool" where
  "c_isspace c \<longleftrightarrow> char_code c = 32 \<or> 9 \<le> char_code c \<and> char_code c \<le> 13"

definition c_isdigit :: "char \<Rightarrow> bool" where
  "c_isdigit c \<longleftrightarrow> 48 \<le> char_code c \<and> char_code c \<le> 57"

definition c_isalnum :: "char \<Rightarrow> bool" where
  "c_isalnum c \<longleftrightarrow> c_isdigit c \<or> 65 \<le> char_code c \<and> char_code c \<le> 90 \<or> 97 \<le> char_code c \<and> char_code c \<le> 122"

abbreviation NL :: char where "NL \<equiv> CHR 0x0A"
abbreviation CR :: char where "CR \<equiv> CHR 0x0D"
abbreviation NUL :: char where "NUL \<equiv> CHR 0x00"

lemma isspace_NL [simp]: "c_isspace NL" and not_isspace_NUL [simp]: "\<not> c_isspace NUL"
  by (simp_all add: c_isspace_def char_code_def)

subsection \<open>\<open>fgets\<close>\<close>

text \<open>\<open>read_line n s\<close>: at most \<open>n\<close> characters, up to and including a newline, and what is left.\<close>

fun read_line :: "nat \<Rightarrow> string \<Rightarrow> string \<times> string" where
  "read_line 0 s = ([], s)"
| "read_line (Suc n) [] = ([], [])"
| "read_line (Suc n) (c # s) = (if c = NL then ([c], s) else let (l, r) = read_line n s in (c # l, r))"

lemma read_line_append: "fst (read_line n s) @ snd (read_line n s) = s"
  by (induction n s rule: read_line.induct) (auto simp: case_prod_beta)

lemma read_line_shorter: "s \<noteq> [] \<Longrightarrow> length (snd (read_line (Suc n) s)) < length s"
  using read_line_append [of "Suc n" s] by (cases s) (auto simp: case_prod_beta dest: arg_cong [where f = length])

text \<open>The lines that \<open>while (fgets(line, Suc (Suc n), fp))\<close> sees: chunks of at most \<open>Suc n\<close> characters.\<close>

function fgets_lines :: "nat \<Rightarrow> string \<Rightarrow> string list" where
  "fgets_lines n s = (if s = [] then [] else fst (read_line (Suc n) s) # fgets_lines n (snd (read_line (Suc n) s)))"
  by pat_completeness auto
termination
  by (relation "measure (\<lambda>(n, s). length s)") (auto intro: read_line_shorter simp del: read_line.simps)

declare fgets_lines.simps [simp del]

lemma fgets_lines_Nil [simp]: "fgets_lines n [] = []"
  by (simp add: fgets_lines.simps)

lemma read_line_NL:
  "NL \<in> set a \<or> n \<le> length a \<Longrightarrow> read_line n (a @ b) = (fst (read_line n a), snd (read_line n a) @ b)"
  by (induction n a rule: read_line.induct) (auto simp: case_prod_beta)

lemma read_line_short:
  "NL \<notin> set a \<Longrightarrow> length a < n \<Longrightarrow> read_line n (a @ NL # b) = (a @ [NL], b)"
proof (induction n arbitrary: a)
  case (Suc n)
  then show ?case by (cases a) auto
qed simp

lemma read_line_end: "NL \<notin> set a \<Longrightarrow> length a \<le> n \<Longrightarrow> read_line n a = (a, [])"
proof (induction n arbitrary: a)
  case (Suc n)
  then show ?case by (cases a) auto
qed simp

lemma NL_snd_read_line: "NL \<in> set (snd (read_line n a)) \<Longrightarrow> NL \<in> set a"
  by (metis UnCI read_line_append set_append)

text \<open>A newline separates the lines before it from those behind it, however long they are.\<close>

lemma fgets_lines_append:
  "fgets_lines n (a @ NL # b) = fgets_lines n (a @ [NL]) @ fgets_lines n b"
proof (induction a rule: length_induct)
  case (1 a)
  show ?case
  proof (cases "NL \<notin> set a \<and> length a < Suc n")
    case True
    then have "read_line (Suc n) (a @ NL # b) = (a @ [NL], b)" "read_line (Suc n) (a @ [NL]) = (a @ [NL], [])"
      using read_line_short [of a "Suc n" b] read_line_short [of a "Suc n" "[]"] by blast+
    then show ?thesis
      by (subst fgets_lines.simps, subst (2) fgets_lines.simps) simp
  next
    case False
    then have "a \<noteq> []" and rest: "\<And>c. read_line (Suc n) (a @ c) = (fst (read_line (Suc n) a), snd (read_line (Suc n) a) @ c)"
      using read_line_NL [of a "Suc n"] by (auto simp del: read_line.simps)
    from "1.IH" read_line_shorter [OF \<open>a \<noteq> []\<close>, of n]
    have "fgets_lines n (snd (read_line (Suc n) a) @ NL # b)
      = fgets_lines n (snd (read_line (Suc n) a) @ [NL]) @ fgets_lines n b" by blast
    with \<open>a \<noteq> []\<close> show ?thesis
      by (subst fgets_lines.simps, subst (2) fgets_lines.simps) (simp add: rest del: read_line.simps)
  qed
qed

lemma fgets_line:
  "NL \<notin> set a \<Longrightarrow> length a \<le> n \<Longrightarrow> fgets_lines n (a @ NL # b) = (a @ [NL]) # fgets_lines n b"
  by (subst fgets_lines.simps) (simp add: read_line_short [of a "Suc n" b] del: read_line.simps)

text \<open>
  Adding a newline at the end of a file changes at most the end of its last line, or adds an empty
  line.
\<close>

lemma fgets_lines_NL:
  "fgets_lines n (a @ [NL]) = fgets_lines n a @ [[NL]] \<or>
   (\<exists>ls l. fgets_lines n a = ls @ [l] \<and> fgets_lines n (a @ [NL]) = ls @ [l @ [NL]] \<and> NL \<notin> set l)"
proof (induction a rule: length_induct)
  case (1 a)
  show ?case
  proof (cases "NL \<notin> set a \<and> length a < Suc n")
    case True
    then have r: "read_line (Suc n) (a @ [NL]) = (a @ [NL], [])" "read_line (Suc n) a = (a, [])"
      using read_line_short [of a "Suc n" "[]"] read_line_end [of a "Suc n"] by auto
    show ?thesis
    proof (cases "a = []")
      case True
      then show ?thesis by (simp add: fgets_lines.simps)
    next
      case False
      with r have "fgets_lines n a = [] @ [a]" "fgets_lines n (a @ [NL]) = [] @ [a @ [NL]]"
        by (simp_all add: fgets_lines.simps [of n a] fgets_lines.simps [of n "a @ [NL]"] del: read_line.simps)
      with True show ?thesis by blast
    qed
  next
    case False
    then have "a \<noteq> []" and rest: "read_line (Suc n) (a @ [NL]) = (fst (read_line (Suc n) a), snd (read_line (Suc n) a) @ [NL])"
      using read_line_NL [of a "Suc n"] by (auto simp del: read_line.simps)
    then have e: "fgets_lines n a = fst (read_line (Suc n) a) # fgets_lines n (snd (read_line (Suc n) a))"
      "fgets_lines n (a @ [NL]) = fst (read_line (Suc n) a) # fgets_lines n (snd (read_line (Suc n) a) @ [NL])"
      by (simp_all add: fgets_lines.simps [of n a] fgets_lines.simps [of n "a @ [NL]"] del: read_line.simps)
    from "1.IH" read_line_shorter [OF \<open>a \<noteq> []\<close>, of n] show ?thesis
      unfolding e by (metis append_Cons)
  qed
qed

subsection \<open>Trimming and cutting\<close>

text \<open>What \<open>char *\<close> operations see of a line: everything before the first NUL.\<close>

definition c_line :: "string \<Rightarrow> string" where
  "c_line s = takeWhile (\<lambda>c. c \<noteq> NUL) s"

definition skip_space :: "string \<Rightarrow> string" where
  "skip_space s = dropWhile c_isspace s"

text \<open>\<open>char *x = strchr(p, c); if (x) *x = 0;\<close>\<close>

definition cut_at :: "char \<Rightarrow> string \<Rightarrow> string" where
  "cut_at c s = takeWhile (\<lambda>d. d \<noteq> c) s"

text \<open>What follows the first \<open>c\<close>, or \<open>None\<close> when \<open>strchr\<close> returns NULL.\<close>

fun after_char :: "char \<Rightarrow> string \<Rightarrow> string option" where
  "after_char c [] = None"
| "after_char c (d # s) = (if d = c then Some s else after_char c s)"

text \<open>
  \<open>end = s + strlen(s) - 1; while (end > s && isspace(*end)) { *end = 0; end--; }\<close>: the first character
  is never removed.
\<close>

fun trim_end :: "string \<Rightarrow> string" where
  "trim_end [] = []"
| "trim_end (c # s) = c # rev (dropWhile c_isspace (rev s))"

lemma after_char_None: "after_char c s = None \<longleftrightarrow> c \<notin> set s"
  by (induction s) auto

lemma after_char_append: "c \<notin> set a \<Longrightarrow> after_char c (a @ c # b) = Some b"
  by (induction a) auto

lemma cut_at_append: "c \<notin> set a \<Longrightarrow> cut_at c (a @ c # b) = a"
  unfolding cut_at_def by (induction a) auto

lemma cut_at_none: "c \<notin> set a \<Longrightarrow> cut_at c a = a"
  unfolding cut_at_def by (induction a) auto

lemma trim_end_trimmed: "s \<noteq> [] \<Longrightarrow> \<not> c_isspace (last s) \<Longrightarrow> trim_end s = s"
proof (cases s)
  case (Cons c t)
  assume "\<not> c_isspace (last s)"
  with Cons show ?thesis by (cases t rule: rev_cases) auto
qed simp

lemma skip_space_trimmed: "s \<noteq> [] \<Longrightarrow> \<not> c_isspace (hd s) \<Longrightarrow> skip_space s = s"
  by (cases s) (auto simp: skip_space_def)

subsection \<open>\<open>strtok\<close>\<close>

text \<open>The tokens that successive calls deliver, for the delimiters \<open>d\<close>.\<close>

function strtok_all :: "(char \<Rightarrow> bool) \<Rightarrow> string \<Rightarrow> string list" where
  "strtok_all d s =
     (let t = dropWhile d s in
      if t = [] then []
      else takeWhile (\<lambda>c. \<not> d c) t # strtok_all d (dropWhile (\<lambda>c. \<not> d c) t))"
  by pat_completeness auto
termination
proof (relation "measure (\<lambda>(d, s). length s)", simp)
  fix d :: "char \<Rightarrow> bool" and s t assume t: "t = dropWhile d s" and ne: "t \<noteq> []"
  then have "\<not> d (hd t)" using hd_dropWhile [of d s] by simp
  with ne have "length (dropWhile (\<lambda>c. \<not> d c) t) < length t"
    by (cases t) (auto intro: le_imp_less_Suc length_dropWhile_le)
  also have "\<dots> \<le> length s" unfolding t by (rule length_dropWhile_le)
  finally show "((d, dropWhile (\<lambda>c. \<not> d c) t), (d, s)) \<in> measure (\<lambda>(d, s). length s)" by simp
qed

declare strtok_all.simps [simp del]

lemma strtok_Nil [simp]: "strtok_all d [] = []"
  by (simp add: strtok_all.simps)

lemma strtok_step:
  assumes "t \<noteq> []" "\<And>c. c \<in> set t \<Longrightarrow> \<not> d c" "rest = [] \<or> d (hd rest)"
  shows "strtok_all d (t @ rest) = t # strtok_all d rest"
proof -
  have "dropWhile d (t @ rest) = t @ rest" using assms(1,2) by (cases t) auto
  moreover have "takeWhile (\<lambda>c. \<not> d c) (t @ rest) = t" "dropWhile (\<lambda>c. \<not> d c) (t @ rest) = rest"
    using assms(2,3) by (cases rest; simp add: takeWhile_append2 dropWhile_append2)+
  ultimately show ?thesis using assms(1) by (simp add: strtok_all.simps [of d "t @ rest"])
qed

lemma strtok_delim: "d c \<Longrightarrow> strtok_all d (c # s) = strtok_all d s"
  by (simp add: strtok_all.simps [of d "c # s"] strtok_all.simps [of d s])

subsection \<open>\<open>atoi\<close>\<close>

text \<open>\<open>strtol\<close> in base 10, saturating at the limits of a 64-bit \<open>long\<close>, then truncated to \<open>int\<close>.\<close>

definition LONG_MAX :: int where "LONG_MAX = 2 ^ 63 - 1"
definition LONG_MIN :: int where "LONG_MIN = - (2 ^ 63)"

definition digits_value :: "string \<Rightarrow> int" where
  "digits_value s = foldl (\<lambda>n c. 10 * n + (int (char_code c) - 48)) 0 (takeWhile c_isdigit s)"

definition c_strtol10 :: "string \<Rightarrow> int" where
  "c_strtol10 s =
     (let t = skip_space s;
          (neg, u) = (case t of [] \<Rightarrow> (False, [])
            | c # r \<Rightarrow> if c = CHR ''-'' then (True, r) else if c = CHR ''+'' then (False, r) else (False, t));
          v = digits_value u;
          n = (if neg then - v else v) in
      max LONG_MIN (min LONG_MAX n))"

definition c_atoi :: "string \<Rightarrow> int" where
  "c_atoi s = sint (word_of_int (c_strtol10 s) :: 32 word)"

text \<open>\<open>strtol(s, NULL, 16)\<close>: an optional sign and an optional \<open>0x\<close> before a hexadecimal digit.\<close>

definition hex_value :: "char \<Rightarrow> int option" where
  "hex_value c =
     (if c_isdigit c then Some (int (char_code c) - 48)
      else if 65 \<le> char_code c \<and> char_code c \<le> 70 then Some (int (char_code c) - 55)
      else if 97 \<le> char_code c \<and> char_code c \<le> 102 then Some (int (char_code c) - 87)
      else None)"

fun hex_digits_value :: "int \<Rightarrow> string \<Rightarrow> int" where
  "hex_digits_value n [] = n"
| "hex_digits_value n (c # s) = (case hex_value c of None \<Rightarrow> n | Some d \<Rightarrow> hex_digits_value (16 * n + d) s)"

fun skip_0x :: "string \<Rightarrow> string" where
  "skip_0x (a # b # c # s) =
     (if a = CHR ''0'' \<and> (b = CHR ''x'' \<or> b = CHR ''X'') \<and> hex_value c \<noteq> None then c # s else a # b # c # s)"
| "skip_0x s = s"

definition c_strtol16 :: "string \<Rightarrow> int" where
  "c_strtol16 s =
     (let t = skip_space s;
          (neg, u) = (case t of [] \<Rightarrow> (False, [])
            | c # r \<Rightarrow> if c = CHR ''-'' then (True, r) else if c = CHR ''+'' then (False, r) else (False, t));
          v = hex_digits_value 0 (skip_0x u);
          n = (if neg then - v else v) in
      max LONG_MIN (min LONG_MAX n))"

text \<open>\<open>strtoul(s, NULL, 16)\<close> with a 64-bit result: a negated value wraps, a value too large is the maximum.\<close>

definition c_strtoul16 :: "string \<Rightarrow> nat" where
  "c_strtoul16 s =
     (let t = skip_space s;
          (neg, u) = (case t of [] \<Rightarrow> (False, [])
            | c # r \<Rightarrow> if c = CHR ''-'' then (True, r) else if c = CHR ''+'' then (False, r) else (False, t));
          v = hex_digits_value 0 (skip_0x u) in
      if v \<ge> 2 ^ 64 then 2 ^ 64 - 1 else nat ((if neg then - v else v) mod 2 ^ 64))"

text \<open>\<open>sscanf(s, "%2x", &v)\<close>: white space, then at most two characters of sign, prefix and digits; \<open>None\<close> is no match.\<close>

definition c_scan_hex2 :: "string \<Rightarrow> u32 option" where
  "c_scan_hex2 s =
     (let t = take 2 (skip_space s);
          (neg, u) = (case t of [] \<Rightarrow> (False, [])
            | c # r \<Rightarrow> if c = CHR ''-'' then (True, r) else if c = CHR ''+'' then (False, r) else (False, t)) in
      case u of
        [] \<Rightarrow> None
      | c # r \<Rightarrow>
          if hex_value c = None \<or> c = CHR ''0'' \<and> (r = ''x'' \<or> r = ''X'') then None
          else let v = hex_digits_value 0 u in Some (word_of_int (if neg then - v else v)))"

end
