(* ===== verification/Cache.thy ===== *)
theory Cache
  imports Prelude
begin

text \<open>
  The control-word cache, \<open>src/CCshare/cccam3_cache.c\<close>. The doubly linked list
  \<open>g_cache_head .. g_cache_tail\<close> is a HOL list, head first; the other globals are the fields of
  \<open>cache\<close>. Unlinking an entry is dropping its position, so \<open>cache_move_to_head\<close> and
  \<open>cache_evict_lru\<close> act on positions as the C acts on node pointers. \<open>time(NULL)\<close> is the argument
  \<open>now\<close> and the outcome of \<open>malloc\<close> the argument \<open>mem\<close>. The eviction loop of
  \<open>cccam_cache_add\<close> is a \<open>partial_function\<close>: \<open>None\<close> is a loop that never ends, and
  \<open>cache_add_result\<close> shows that it does end in every state the operations can reach.
\<close>

subsection \<open>State\<close>

record cache_entry =
  ce_caid :: u16
  ce_provid :: u16
  ce_sid :: u16
  ce_cw :: "u8 list"
  ce_hop :: u8
  ce_timestamp :: time_t
  ce_expires_at :: time_t
  ce_valid :: bool

record cache =
  cache_list :: "cache_entry list"
  cache_entries :: int
  cache_max_entries :: int
  cache_timeout :: int
  cache_hits :: u32
  cache_misses :: u32
  cache_enabled :: bool

definition cache_initial :: cache where
  "cache_initial = \<lparr>cache_list = [], cache_entries = 0, cache_max_entries = 1024, cache_timeout = 10,
     cache_hits = 0, cache_misses = 0, cache_enabled = True\<rparr>"

subsection \<open>Internal operations\<close>

definition cache_match :: "cache_entry \<Rightarrow> u16 \<Rightarrow> u16 \<Rightarrow> u16 \<Rightarrow> bool" where
  "cache_match e caid provid sid \<longleftrightarrow>
     ce_valid e \<and> ce_caid e = caid \<and> ce_provid e = provid \<and> ce_sid e = sid"

definition cache_unlink :: "nat \<Rightarrow> cache_entry list \<Rightarrow> cache_entry list" where
  "cache_unlink i xs = take i xs @ drop (Suc i) xs"

definition cache_move_to_head :: "nat \<Rightarrow> cache_entry list \<Rightarrow> cache_entry list" where
  "cache_move_to_head i xs = (if i = 0 then xs else xs ! i # cache_unlink i xs)"

definition cache_evict_lru :: "cache \<Rightarrow> cache" where
  "cache_evict_lru st =
     (if cache_list st = [] then st
      else st\<lparr>cache_list := cache_unlink (length (cache_list st) - 1) (cache_list st),
              cache_entries := cache_entries st - 1\<rparr>)"

definition cache_free_entry :: "nat \<Rightarrow> cache \<Rightarrow> cache" where
  "cache_free_entry i st =
     st\<lparr>cache_list := cache_unlink i (cache_list st), cache_entries := cache_entries st - 1\<rparr>"

subsection \<open>API operations\<close>

definition cccam_cache_init :: "cache \<Rightarrow> cache" where
  "cccam_cache_init st = st\<lparr>cache_list := [], cache_entries := 0, cache_hits := 0,
     cache_misses := 0, cache_enabled := True\<rparr>"

definition cccam_cache_set_enabled :: "bool \<Rightarrow> cache \<Rightarrow> cache" where
  "cccam_cache_set_enabled b st = st\<lparr>cache_enabled := b\<rparr>"

definition cccam_cache_cleanup :: "cache \<Rightarrow> cache" where
  "cccam_cache_cleanup st = st\<lparr>cache_list := [], cache_entries := 0, cache_hits := 0, cache_misses := 0\<rparr>"

text \<open>\<open>while (g_cache_entries >= g_cache_max_entries) cache_evict_lru();\<close>\<close>

partial_function (option) cache_make_room :: "cache \<Rightarrow> cache option" where
  "cache_make_room st =
     (if cache_entries st \<ge> cache_max_entries st then cache_make_room (cache_evict_lru st) else Some st)"

declare cache_make_room.simps [code]

definition cache_expiry :: "time_t \<Rightarrow> time_t \<Rightarrow> cache \<Rightarrow> time_t" where
  "cache_expiry now expires_at st = (if expires_at > 0 then expires_at else now + cache_timeout st)"

definition cccam_cache_add ::
  "bool \<Rightarrow> time_t \<Rightarrow> u16 \<Rightarrow> u16 \<Rightarrow> u16 \<Rightarrow> u8 list option \<Rightarrow> u8 \<Rightarrow> time_t \<Rightarrow> cache \<Rightarrow> (int \<times> cache) option" where
  "cccam_cache_add mem now caid provid sid cw hop expires_at st =
    (case cw of None \<Rightarrow> Some (-1, st)
     | Some w \<Rightarrow>
       if \<not> cache_enabled st then Some (0, st)
       else (case find_idx (\<lambda>e. cache_match e caid provid sid) (cache_list st) of
         Some i \<Rightarrow>
           Some (0, st\<lparr>cache_list := cache_move_to_head i
             ((cache_list st)[i := (cache_list st ! i)\<lparr>ce_cw := take 16 w, ce_hop := hop,
                ce_timestamp := now, ce_expires_at := cache_expiry now expires_at st, ce_valid := True\<rparr>])\<rparr>)
       | None \<Rightarrow>
           (case cache_make_room st of None \<Rightarrow> None
            | Some st' \<Rightarrow>
              if \<not> mem then Some (-1, st')
              else Some (0, st'\<lparr>cache_list :=
                   \<lparr>ce_caid = caid, ce_provid = provid, ce_sid = sid, ce_cw = take 16 w, ce_hop = hop,
                    ce_timestamp = now, ce_expires_at = cache_expiry now expires_at st', ce_valid = True\<rparr>
                   # cache_list st',
                 cache_entries := cache_entries st' + 1\<rparr>))))"

text \<open>
  The result is the return code, what was written to \<open>*cw\<close> and \<open>*hop\<close> (nothing on a miss) and
  the state; \<open>out_ok\<close> says that neither out pointer is NULL.
\<close>

definition cccam_cache_find ::
  "bool \<Rightarrow> time_t \<Rightarrow> u16 \<Rightarrow> u16 \<Rightarrow> u16 \<Rightarrow> cache \<Rightarrow> int \<times> (u8 list \<times> u8) option \<times> cache" where
  "cccam_cache_find out_ok now caid provid sid st =
    (if \<not> out_ok then (-1, None, st)
     else if \<not> cache_enabled st then (0, None, st\<lparr>cache_misses := cache_misses st + 1\<rparr>)
     else (case find_idx (\<lambda>e. cache_match e caid provid sid) (cache_list st) of
        None \<Rightarrow> (0, None, st\<lparr>cache_misses := cache_misses st + 1\<rparr>)
      | Some i \<Rightarrow>
        let e = cache_list st ! i in
        if now > ce_expires_at e
        then (0, None, st\<lparr>cache_list := (cache_list st)[i := e\<lparr>ce_valid := False\<rparr>],
                          cache_misses := cache_misses st + 1\<rparr>)
        else (1, Some (ce_cw e, ce_hop e), st\<lparr>cache_hits := cache_hits st + 1\<rparr>)))"

definition cccam_cache_remove :: "u16 \<Rightarrow> u16 \<Rightarrow> u16 \<Rightarrow> cache \<Rightarrow> int \<times> cache" where
  "cccam_cache_remove caid provid sid st =
    (case find_idx (\<lambda>e. cache_match e caid provid sid) (cache_list st) of
       None \<Rightarrow> (0, st) | Some i \<Rightarrow> (1, cache_free_entry i st))"

fun cache_clean_loop :: "time_t \<Rightarrow> cache_entry list \<Rightarrow> cache_entry list \<times> int" where
  "cache_clean_loop now [] = ([], 0)"
| "cache_clean_loop now (e # es) =
     (let (kept, removed) = cache_clean_loop now es in
      if now > ce_expires_at e then (kept, removed + 1) else (e # kept, removed))"

definition cccam_cache_clean_expired :: "time_t \<Rightarrow> cache \<Rightarrow> int \<times> cache" where
  "cccam_cache_clean_expired now st =
     (let (kept, removed) = cache_clean_loop now (cache_list st) in
      (removed, st\<lparr>cache_list := kept, cache_entries := cache_entries st - removed\<rparr>))"

definition cccam_cache_get_stats :: "cache \<Rightarrow> int \<times> int \<times> int" where
  "cccam_cache_get_stats st = (cache_entries st, sint (cache_hits st), sint (cache_misses st))"

definition cccam_cache_set_timeout :: "int \<Rightarrow> cache \<Rightarrow> cache" where
  "cccam_cache_set_timeout t st = (if t > 0 then st\<lparr>cache_timeout := t\<rparr> else st)"

definition cccam_cache_get_timeout :: "cache \<Rightarrow> int" where
  "cccam_cache_get_timeout st = cache_timeout st"

subsection \<open>Invariant and abstract view\<close>

type_synonym channel = "u16 \<times> u16 \<times> u16"

definition ce_key :: "cache_entry \<Rightarrow> channel" where
  "ce_key e = (ce_caid e, ce_provid e, ce_sid e)"

definition live_for :: "channel \<Rightarrow> cache_entry \<Rightarrow> bool" where
  "live_for k e \<longleftrightarrow> ce_valid e \<and> ce_key e = k"

text \<open>What the cache stores for a channel: the control word, its hop and its expiry time.\<close>

definition cache_view :: "cache \<Rightarrow> channel \<Rightarrow> (u8 list \<times> u8 \<times> time_t) option" where
  "cache_view st k = map_option (\<lambda>e. (ce_cw e, ce_hop e, ce_expires_at e)) (find (live_for k) (cache_list st))"

definition cache_inv :: "cache \<Rightarrow> bool" where
  "cache_inv st \<longleftrightarrow>
     cache_entries st = int (length (cache_list st)) \<and>
     cache_entries st \<le> cache_max_entries st \<and> 0 < cache_max_entries st \<and> 0 < cache_timeout st \<and>
     distinct (map ce_key (filter ce_valid (cache_list st)))"

lemma cache_match_live: "(\<lambda>e. cache_match e caid provid sid) = live_for (caid, provid, sid)"
  by (auto simp: fun_eq_iff cache_match_def live_for_def ce_key_def)

lemma cache_inv_initial: "cache_inv cache_initial"
  by (simp add: cache_inv_def cache_initial_def)

lemma cache_clean_loop_filter:
  "cache_clean_loop now es = (filter (\<lambda>e. now \<le> ce_expires_at e) es,
     int (length (filter (\<lambda>e. ce_expires_at e < now) es)))"
  by (induction es) (auto simp: Let_def)

subsubsection \<open>List facts\<close>

lemma split_at: "i < length xs \<Longrightarrow> xs = take i xs @ xs ! i # drop (Suc i) xs"
  by (rule id_take_nth_drop)

lemma length_cache_unlink [simp]: "i < length xs \<Longrightarrow> length (cache_unlink i xs) = length xs - 1"
  by (simp add: cache_unlink_def)

lemma cache_unlink_last: "xs \<noteq> [] \<Longrightarrow> cache_unlink (length xs - Suc 0) xs = butlast xs"
  by (simp add: cache_unlink_def butlast_conv_take)

lemma distinct_cache_unlink:
  "i < length xs \<Longrightarrow> distinct (map g (filter P xs)) \<Longrightarrow> distinct (map g (filter P (cache_unlink i xs)))"
  unfolding cache_unlink_def by (subst (asm) (2) split_at [of i xs]) (auto split: if_splits)

lemma find_cache_unlink_other:
  "i < length xs \<Longrightarrow> \<not> P (xs ! i) \<Longrightarrow> find P (cache_unlink i xs) = find P xs"
  unfolding cache_unlink_def
  by (subst (3) split_at [of i xs]) (auto simp: find_append split: option.splits)

lemma find_butlast: "find P (butlast xs) \<in> {None, find P xs}"
proof (cases xs rule: rev_cases)
  case (snoc ys y)
  then show ?thesis by (cases "find P ys") (auto simp: find_append)
qed simp

lemma live_unique:
  assumes "distinct (map ce_key (filter ce_valid xs))" and "i < length xs" and "live_for k (xs ! i)"
  shows "find (live_for k) (cache_unlink i xs) = None"
proof -
  have "distinct (map ce_key (filter ce_valid (take i xs @ xs ! i # drop (Suc i) xs)))"
    using assms(1,2) by (simp flip: id_take_nth_drop)
  with assms(3) have "k \<notin> set (map ce_key (filter ce_valid (cache_unlink i xs)))"
    by (auto simp: cache_unlink_def live_for_def)
  then show ?thesis
    by (auto simp: live_for_def find_None_iff)
qed

lemma cache_inv_tl: "cache_inv st \<Longrightarrow> cache_list st \<noteq> [] \<Longrightarrow> cache_inv (cache_evict_lru st)"
  by (auto simp: cache_inv_def cache_evict_lru_def distinct_cache_unlink int_ops)

lemma view_evict: "cache_view (cache_evict_lru st) k \<in> {None, cache_view st k}"
  using find_butlast [of "live_for k" "cache_list st"]
  by (auto simp: cache_evict_lru_def cache_view_def cache_unlink_last)

subsection \<open>Every operation returns and keeps the invariant\<close>

lemma cache_make_room_inv:
  assumes "cache_inv st"
  shows "cache_make_room st
    = Some (if cache_entries st \<ge> cache_max_entries st then cache_evict_lru st else st)"
proof (cases "cache_entries st \<ge> cache_max_entries st")
  case True
  with assms have ne: "cache_list st \<noteq> []"
    by (auto simp: cache_inv_def)
  have "\<not> cache_entries (cache_evict_lru st) \<ge> cache_max_entries (cache_evict_lru st)"
    using assms ne by (simp add: cache_inv_def cache_evict_lru_def)
  with True show ?thesis
    by (simp add: cache_make_room.simps [of st] cache_make_room.simps [of "cache_evict_lru st"])
qed (simp add: cache_make_room.simps [of st])

lemma cache_make_room_room:
  assumes "cache_inv st" and "cache_make_room st = Some st'"
  shows "cache_inv st'" and "cache_entries st' < cache_max_entries st'"
    and "cache_view st' k \<in> {None, cache_view st k}" and "cache_enabled st' = cache_enabled st"
    and "cache_timeout st' = cache_timeout st"
proof -
  have st': "st' = (if cache_entries st \<ge> cache_max_entries st then cache_evict_lru st else st)"
    using assms cache_make_room_inv by simp
  have ne: "cache_entries st \<ge> cache_max_entries st \<Longrightarrow> cache_list st \<noteq> []"
    using assms(1) by (auto simp: cache_inv_def)
  from st' ne assms(1) show "cache_inv st'"
    by (auto intro: cache_inv_tl)
  from st' ne assms(1) show "cache_entries st' < cache_max_entries st'"
    by (auto simp: cache_evict_lru_def cache_inv_def)
  from st' show "cache_view st' k \<in> {None, cache_view st k}"
    using view_evict [of st k] by auto
  from st' show "cache_enabled st' = cache_enabled st" "cache_timeout st' = cache_timeout st"
    by (auto simp: cache_evict_lru_def)
qed

lemma view_none_live: "find_idx (live_for k) (cache_list st) = None \<Longrightarrow> cache_view st k = None"
  by (simp add: find_idx_None_find cache_view_def)

lemma live_none_distinct:
  assumes "cache_view st k = None" and "ce_valid e" and "ce_key e = k"
    and "distinct (map ce_key (filter ce_valid (cache_list st)))"
  shows "distinct (map ce_key (filter ce_valid (e # cache_list st)))"
  using assms by (force simp: cache_view_def find_None_iff live_for_def)

text \<open>The two cases of \<open>cccam_cache_add\<close>, once for all properties that need them.\<close>

lemma cache_refresh:
  assumes "cache_inv st" and i: "find_idx (live_for k) (cache_list st) = Some i"
    and "ce_valid e" and "ce_key e = k"
  shows "cache_inv (st\<lparr>cache_list := cache_move_to_head i ((cache_list st)[i := e])\<rparr>)"
    and "cache_view (st\<lparr>cache_list := cache_move_to_head i ((cache_list st)[i := e])\<rparr>) k
      = Some (ce_cw e, ce_hop e, ce_expires_at e)"
    and "k' \<noteq> k \<Longrightarrow> cache_view (st\<lparr>cache_list := cache_move_to_head i ((cache_list st)[i := e])\<rparr>) k' = cache_view st k'"
proof -
  let ?xs = "cache_list st"
  from i have len: "i < length ?xs" and live: "live_for k (?xs ! i)"
    by (auto simp: find_idx_Some)
  have un: "cache_unlink i (?xs[i := e]) = cache_unlink i ?xs"
    by (simp add: cache_unlink_def)
  have head: "cache_move_to_head i (?xs[i := e]) = e # cache_unlink i ?xs"
  proof (cases "i = 0")
    case True
    with len show ?thesis
      by (cases ?xs) (auto simp: cache_move_to_head_def cache_unlink_def)
  next
    case False
    with len un show ?thesis by (simp add: cache_move_to_head_def)
  qed
  have d: "distinct (map ce_key (filter ce_valid ?xs))"
    using assms(1) by (simp add: cache_inv_def)
  have no: "find (live_for k) (cache_unlink i ?xs) = None"
    using live_unique [OF d len live] .
  then have "ce_key e \<notin> set (map ce_key (filter ce_valid (cache_unlink i ?xs)))"
    using assms(4) by (force simp: find_None_iff live_for_def)
  then show "cache_inv (st\<lparr>cache_list := cache_move_to_head i (?xs[i := e])\<rparr>)"
    using assms(1,3) len distinct_cache_unlink [OF len d]
    by (auto simp: cache_inv_def head)
  show "cache_view (st\<lparr>cache_list := cache_move_to_head i (?xs[i := e])\<rparr>) k
      = Some (ce_cw e, ce_hop e, ce_expires_at e)"
    using assms(3,4) by (simp add: cache_view_def head live_for_def)
  assume "k' \<noteq> k"
  then show "cache_view (st\<lparr>cache_list := cache_move_to_head i (?xs[i := e])\<rparr>) k' = cache_view st k'"
    using live assms(3,4) find_cache_unlink_other [OF len, of "live_for k'"]
    by (simp add: cache_view_def head live_for_def)
qed

lemma cache_insert:
  assumes "cache_inv st" and "find_idx (live_for k) (cache_list st) = None"
    and "cache_make_room st = Some st'" and "ce_valid e" and "ce_key e = k"
  shows "cache_inv (st'\<lparr>cache_list := e # cache_list st', cache_entries := cache_entries st' + 1\<rparr>)"
    and "cache_view (st'\<lparr>cache_list := e # cache_list st', cache_entries := cache_entries st' + 1\<rparr>) k
      = Some (ce_cw e, ce_hop e, ce_expires_at e)"
    and "k' \<noteq> k \<Longrightarrow> cache_view (st'\<lparr>cache_list := e # cache_list st', cache_entries := cache_entries st' + 1\<rparr>) k'
      \<in> {None, cache_view st k'}"
proof -
  note room = cache_make_room_room [OF assms(1,3)]
  have "cache_view st' k = None"
    using room(3) [of k] view_none_live [OF assms(2)] by auto
  from live_none_distinct [OF this assms(4,5)] room(1,2)
  show "cache_inv (st'\<lparr>cache_list := e # cache_list st', cache_entries := cache_entries st' + 1\<rparr>)"
    by (simp add: cache_inv_def)
  show "cache_view (st'\<lparr>cache_list := e # cache_list st', cache_entries := cache_entries st' + 1\<rparr>) k
      = Some (ce_cw e, ce_hop e, ce_expires_at e)"
    using assms(4,5) by (simp add: cache_view_def live_for_def)
  assume "k' \<noteq> k"
  then show "cache_view (st'\<lparr>cache_list := e # cache_list st', cache_entries := cache_entries st' + 1\<rparr>) k'
      \<in> {None, cache_view st k'}"
    using room(3) [of k'] assms(5) by (auto simp: cache_view_def live_for_def)
qed

lemma filter_invalidate:
  "i < length xs \<Longrightarrow> \<not> ce_valid e \<Longrightarrow> filter ce_valid (xs[i := e]) = filter ce_valid (cache_unlink i xs)"
  by (simp add: upd_conv_take_nth_drop cache_unlink_def)

lemma find_invalidate:
  "i < length xs \<Longrightarrow> \<not> ce_valid e \<Longrightarrow> find (live_for k) (xs[i := e]) = find (live_for k) (cache_unlink i xs)"
  by (simp add: upd_conv_take_nth_drop cache_unlink_def find_append live_for_def split: option.splits)

lemma find_unlink_shrinks:
  assumes "distinct (map ce_key (filter ce_valid xs))" and "i < length xs" and "live_for k (xs ! i)"
  shows "find (live_for k') (cache_unlink i xs) \<in> {None, find (live_for k') xs}"
  using live_unique [OF assms] find_cache_unlink_other [OF assms(2), of "live_for k'"] assms(3)
  by (cases "k' = k") (auto simp: live_for_def)

text \<open>What a lookup returns is a function of the abstract view.\<close>

definition cache_lookup :: "time_t \<Rightarrow> (u8 list \<times> u8 \<times> time_t) option \<Rightarrow> (u8 list \<times> u8) option" where
  "cache_lookup now v = (case v of None \<Rightarrow> None | Some (w, h, x) \<Rightarrow> if now > x then None else Some (w, h))"

lemma cache_find_lookup:
  assumes "cache_enabled st"
  shows "fst (snd (cccam_cache_find True now caid provid sid st))
    = cache_lookup now (cache_view st (caid, provid, sid))"
    and "fst (cccam_cache_find True now caid provid sid st)
    = (if cache_lookup now (cache_view st (caid, provid, sid)) = None then 0 else 1)"
  using assms
  by (auto simp: cccam_cache_find_def cache_match_live cache_lookup_def cache_view_def Let_def
      find_idx_None_find split: option.splits dest: find_idx_find)

lemma cache_find_keeps:
  assumes "cache_inv st"
  shows "cache_inv (snd (snd (cccam_cache_find b now caid provid sid st)))"
    and "cache_view (snd (snd (cccam_cache_find b now caid provid sid st))) k \<in> {None, cache_view st k}"
    and "cache_enabled (snd (snd (cccam_cache_find b now caid provid sid st))) = cache_enabled st"
    and "cache_timeout (snd (snd (cccam_cache_find b now caid provid sid st))) = cache_timeout st"
proof -
  let ?r = "snd (snd (cccam_cache_find b now caid provid sid st))"
  have d: "distinct (map ce_key (filter ce_valid (cache_list st)))"
    using assms by (simp add: cache_inv_def)
  have "cache_list ?r = cache_list st
    \<or> (\<exists>i e. find_idx (live_for (caid, provid, sid)) (cache_list st) = Some i \<and> \<not> ce_valid e
        \<and> cache_list ?r = (cache_list st)[i := e])" (is "?same \<or> ?kill")
    by (cases "find_idx (live_for (caid, provid, sid)) (cache_list st)")
      (force simp: cccam_cache_find_def cache_match_live Let_def)+
  then consider (same) ?same
    | (kill) i e where "find_idx (live_for (caid, provid, sid)) (cache_list st) = Some i" "\<not> ce_valid e"
        "cache_list ?r = (cache_list st)[i := e]"
    by blast
  then have "distinct (map ce_key (filter ce_valid (cache_list ?r)))
    \<and> length (cache_list ?r) = length (cache_list st)
    \<and> find (live_for k) (cache_list ?r) \<in> {None, find (live_for k) (cache_list st)}"
  proof cases
    case kill
    then have i: "i < length (cache_list st)" "live_for (caid, provid, sid) (cache_list st ! i)"
      by (auto simp: find_idx_Some)
    with kill d show ?thesis
      using find_unlink_shrinks [OF d i, of k] distinct_cache_unlink [OF i(1) d]
      by (simp add: filter_invalidate find_invalidate)
  qed (use d in simp)
  moreover have "cache_entries ?r = cache_entries st \<and> cache_max_entries ?r = cache_max_entries st
      \<and> cache_timeout ?r = cache_timeout st \<and> cache_enabled ?r = cache_enabled st"
    by (auto simp: cccam_cache_find_def Let_def split: option.splits)
  ultimately show "cache_inv ?r" "cache_view ?r k \<in> {None, cache_view st k}"
    "cache_enabled ?r = cache_enabled st" "cache_timeout ?r = cache_timeout st"
    using assms by (auto simp: cache_inv_def cache_view_def)
qed

lemma cache_remove_keeps:
  assumes "cache_inv st"
  shows "cache_inv (snd (cccam_cache_remove caid provid sid st))"
    and "cache_view (snd (cccam_cache_remove caid provid sid st)) k
      = (if k = (caid, provid, sid) then None else cache_view st k)"
    and "cache_enabled (snd (cccam_cache_remove caid provid sid st)) = cache_enabled st"
proof -
  let ?r = "snd (cccam_cache_remove caid provid sid st)" and ?k = "(caid, provid, sid)"
  have d: "distinct (map ce_key (filter ce_valid (cache_list st)))"
    using assms by (simp add: cache_inv_def)
  show "cache_inv ?r"
    using assms distinct_cache_unlink [OF _ d]
    by (auto simp: cccam_cache_remove_def cache_match_live cache_free_entry_def cache_inv_def find_idx_Some
        int_ops split: option.splits)
  show "cache_enabled ?r = cache_enabled st"
    by (auto simp: cccam_cache_remove_def cache_free_entry_def split: option.splits)
  show "cache_view ?r k = (if k = ?k then None else cache_view st k)"
  proof (cases "find_idx (live_for ?k) (cache_list st)")
    case None
    with view_none_live [OF None] show ?thesis
      by (auto simp: cccam_cache_remove_def cache_match_live)
  next
    case (Some i)
    then have i: "i < length (cache_list st)" "live_for ?k (cache_list st ! i)"
      by (auto simp: find_idx_Some)
    have "find (live_for k) (cache_unlink i (cache_list st)) = find (live_for k) (cache_list st)" if "k \<noteq> ?k"
      using find_cache_unlink_other [OF i(1), of "live_for k"] i(2) that by (simp add: live_for_def)
    with Some live_unique [OF d i] show ?thesis
      by (auto simp: cccam_cache_remove_def cache_match_live cache_free_entry_def cache_view_def)
  qed
qed

lemma find_filter_unique:
  assumes "distinct (map ce_key (filter ce_valid xs))"
  shows "find (live_for k) (filter Q xs)
    = (case find (live_for k) xs of None \<Rightarrow> None | Some e \<Rightarrow> if Q e then Some e else None)"
  using assms
proof (induction xs)
  case (Cons e xs)
  have "find (live_for k) xs = None" if "live_for k e"
  proof -
    from that Cons.prems have "k \<notin> set (map ce_key (filter ce_valid xs))"
      by (auto simp: live_for_def)
    then show ?thesis by (auto simp: live_for_def find_None_iff)
  qed
  with Cons show ?case
    by (auto split: if_splits)
qed simp

lemma cache_clean_keeps:
  assumes "cache_inv st"
  shows "cache_inv (snd (cccam_cache_clean_expired now st))"
    and "cache_view (snd (cccam_cache_clean_expired now st)) k
      = (case cache_view st k of None \<Rightarrow> None | Some (w, h, x) \<Rightarrow> if now > x then None else Some (w, h, x))"
    and "cache_enabled (snd (cccam_cache_clean_expired now st)) = cache_enabled st"
proof -
  let ?r = "snd (cccam_cache_clean_expired now st)" and ?xs = "cache_list st"
  have d: "distinct (map ce_key (filter ce_valid ?xs))"
    using assms by (simp add: cache_inv_def)
  have r: "cache_list ?r = filter (\<lambda>e. now \<le> ce_expires_at e) ?xs"
    and n: "cache_entries ?r = cache_entries st - int (length (filter (\<lambda>e. ce_expires_at e < now) ?xs))"
    and same: "cache_max_entries ?r = cache_max_entries st" "cache_timeout ?r = cache_timeout st"
      "cache_enabled ?r = cache_enabled st"
    by (simp_all add: cccam_cache_clean_expired_def cache_clean_loop_filter)
  have "length (filter (\<lambda>e. now \<le> ce_expires_at e) ?xs) + length (filter (\<lambda>e. ce_expires_at e < now) ?xs) = length ?xs"
    using sum_length_filter_compl [of "\<lambda>e. now \<le> ce_expires_at e" ?xs] by (simp add: not_le)
  moreover have "distinct (map ce_key (filter ce_valid (filter (\<lambda>e. now \<le> ce_expires_at e) ?xs)))"
  proof -
    have "filter ce_valid (filter (\<lambda>e. now \<le> ce_expires_at e) ?xs) = filter (\<lambda>e. now \<le> ce_expires_at e) (filter ce_valid ?xs)"
      by (simp add: conj_commute)
    with distinct_map_filter [OF d] show ?thesis by simp
  qed
  ultimately show "cache_inv ?r"
    using assms by (simp add: cache_inv_def r n same)
  show "cache_view ?r k
      = (case cache_view st k of None \<Rightarrow> None | Some (w, h, x) \<Rightarrow> if now > x then None else Some (w, h, x))"
    using find_filter_unique [OF d, of k "\<lambda>e. now \<le> ce_expires_at e"]
    by (auto simp: cache_view_def r split: option.splits)
  show "cache_enabled ?r = cache_enabled st" by (rule same)
qed

lemma cache_add_result:
  assumes inv: "cache_inv st"
  obtains rc st' where "cccam_cache_add mem now caid provid sid cw hop x st = Some (rc, st')"
    and "cache_inv st'" and "cache_enabled st' = cache_enabled st" and "cache_timeout st' = cache_timeout st"
    and "cache_max_entries st' = cache_max_entries st"
    and "\<And>k. k \<noteq> (caid, provid, sid) \<Longrightarrow> cache_view st' k \<in> {None, cache_view st k}"
    and "\<And>w. cw = Some w \<Longrightarrow> cache_enabled st \<Longrightarrow> mem \<Longrightarrow>
      rc = 0 \<and> cache_view st' (caid, provid, sid) = Some (take 16 w, hop, cache_expiry now x st)"
proof (cases "cw = None \<or> \<not> cache_enabled st")
  case True
  then have "\<exists>rc. cccam_cache_add mem now caid provid sid cw hop x st = Some (rc, st)"
    by (auto simp: cccam_cache_add_def split: option.splits)
  with True inv that [of _ st] show ?thesis by fastforce
next
  case False
  then obtain w where w: "cw = Some w" and en: "cache_enabled st"
    by auto
  let ?k = "(caid, provid, sid)"
  show ?thesis
  proof (cases "find_idx (live_for ?k) (cache_list st)")
    case (Some i)
    let ?e = "(cache_list st ! i)\<lparr>ce_cw := take 16 w, ce_hop := hop, ce_timestamp := now,
      ce_expires_at := cache_expiry now x st, ce_valid := True\<rparr>"
    from Some have "live_for ?k (cache_list st ! i)"
      by (simp add: find_idx_Some)
    then have e: "ce_valid ?e" "ce_key ?e = ?k"
      by (simp_all add: live_for_def ce_key_def)
    from w en Some have "cccam_cache_add mem now caid provid sid cw hop x st
      = Some (0, st\<lparr>cache_list := cache_move_to_head i ((cache_list st)[i := ?e])\<rparr>)"
      by (simp add: cccam_cache_add_def cache_match_live)
    then show ?thesis
      by (rule that) (use cache_refresh [OF inv Some e] w in auto)
  next
    case None
    obtain st' where room: "cache_make_room st = Some st'"
      using cache_make_room_inv [OF inv] by blast
    note r = cache_make_room_room [OF inv room]
    have mx: "cache_max_entries st' = cache_max_entries st"
      using room cache_make_room_inv [OF inv] by (auto simp: cache_evict_lru_def split: if_splits)
    have ex: "cache_expiry now x st' = cache_expiry now x st"
      by (simp add: cache_expiry_def r)
    let ?e = "\<lparr>ce_caid = caid, ce_provid = provid, ce_sid = sid, ce_cw = take 16 w, ce_hop = hop,
      ce_timestamp = now, ce_expires_at = cache_expiry now x st, ce_valid = True\<rparr>"
    have e: "ce_valid ?e" "ce_key ?e = ?k"
      by (simp_all add: ce_key_def)
    show ?thesis
    proof (cases mem)
      case True
      from w en None room True ex have "cccam_cache_add mem now caid provid sid cw hop x st
        = Some (0, st'\<lparr>cache_list := ?e # cache_list st', cache_entries := cache_entries st' + 1\<rparr>)"
        by (simp add: cccam_cache_add_def cache_match_live)
      then show ?thesis
        by (rule that) (use cache_insert [OF inv None room e] r mx w in auto)
    next
      case False
      from w en None room False have "cccam_cache_add mem now caid provid sid cw hop x st = Some (-1, st')"
        by (simp add: cccam_cache_add_def cache_match_live)
      then show ?thesis
        by (rule that) (use r mx False in auto)
    qed
  qed
qed

subsection \<open>The cache as a system of operations and as a store\<close>

datatype cache_op =
    CAdd bool time_t u16 u16 u16 "u8 list option" u8 time_t
  | CFind bool time_t u16 u16 u16
  | CRemove u16 u16 u16
  | CClean time_t
  | CSetEnabled bool
  | CSetTimeout int
  | CCleanup
  | CInit

fun cache_step :: "cache_op \<Rightarrow> cache \<Rightarrow> cache option" where
  "cache_step (CAdd mem now c p s cw h x) st = map_option snd (cccam_cache_add mem now c p s cw h x st)"
| "cache_step (CFind b now c p s) st = Some (snd (snd (cccam_cache_find b now c p s st)))"
| "cache_step (CRemove c p s) st = Some (snd (cccam_cache_remove c p s st))"
| "cache_step (CClean now) st = Some (snd (cccam_cache_clean_expired now st))"
| "cache_step (CSetEnabled b) st = Some (cccam_cache_set_enabled b st)"
| "cache_step (CSetTimeout t) st = Some (cccam_cache_set_timeout t st)"
| "cache_step CCleanup st = Some (cccam_cache_cleanup st)"
| "cache_step CInit st = Some (cccam_cache_init st)"

lemma cache_max_frame:
  "cache_max_entries (snd (snd (cccam_cache_find b now c p s st))) = cache_max_entries st"
  "cache_max_entries (snd (cccam_cache_remove c p s st)) = cache_max_entries st"
  "cache_max_entries (snd (cccam_cache_clean_expired now st)) = cache_max_entries st"
  by (auto simp: cccam_cache_find_def cccam_cache_remove_def cccam_cache_clean_expired_def
      cache_free_entry_def Let_def split: option.splits prod.splits)

lemma cache_step_progress:
  assumes "cache_inv st"
  shows "\<exists>t. cache_step op st = Some t \<and> cache_inv t \<and> cache_max_entries t = cache_max_entries st"
proof (cases op)
  case (CAdd mem now c p s cw h x)
  obtain rc st' where "cccam_cache_add mem now c p s cw h x st = Some (rc, st')" "cache_inv st'"
    "cache_max_entries st' = cache_max_entries st"
    using cache_add_result [OF assms] by metis
  with CAdd show ?thesis by simp
next
  case (CSetEnabled b)
  with assms show ?thesis by (simp add: cccam_cache_set_enabled_def cache_inv_def)
next
  case (CSetTimeout t)
  with assms show ?thesis by (simp add: cccam_cache_set_timeout_def cache_inv_def)
next
  case CCleanup
  with assms show ?thesis by (simp add: cccam_cache_cleanup_def cache_inv_def)
next
  case CInit
  with assms show ?thesis by (simp add: cccam_cache_init_def cache_inv_def)
qed (use assms in \<open>simp_all add: cache_find_keeps cache_remove_keeps cache_clean_keeps cache_max_frame\<close>)

interpretation cache_sys: op_system cache_initial cache_step "\<lambda>st. cache_inv st \<and> cache_max_entries st = 1024"
proof
  show "cache_inv cache_initial \<and> cache_max_entries cache_initial = 1024"
    by (simp add: cache_inv_initial) (simp add: cache_initial_def)
next
  fix st op assume "cache_inv st \<and> cache_max_entries st = 1024"
  with cache_step_progress [of st op]
  show "\<exists>t. cache_step op st = Some t \<and> cache_inv t \<and> cache_max_entries t = 1024"
    by auto
qed

text \<open>
  The cache as a store: \<open>cache_stored\<close> is the word, hop and expiry time that an operation stores for a channel. A
  store into a cache that is switched off is none; a store without memory for a new entry forgets.
\<close>

fun cache_stored :: "cache_op \<Rightarrow> cache \<Rightarrow> channel \<Rightarrow> (u8 list \<times> u8 \<times> time_t) option" where
  "cache_stored (CAdd mem now c p s (Some w) h x) st k =
     (if cache_enabled st \<and> k = (c, p, s) then Some (take 16 w, h, cache_expiry now x st) else None)"
| "cache_stored _ st k = None"

lemma cache_add_own:
  assumes inv: "cache_inv st" and en: "cache_enabled st"
    and add: "cccam_cache_add mem now c p s (Some w) h x st = Some (rc, st')"
  shows "cache_view st' (c, p, s) \<in> {None, Some (take 16 w, h, cache_expiry now x st)}"
proof (cases "find_idx (live_for (c, p, s)) (cache_list st) = None \<and> \<not> mem")
  case True
  obtain st1 where room: "cache_make_room st = Some st1" using cache_make_room_inv [OF inv] by blast
  with add en True have "st' = st1" by (simp add: cccam_cache_add_def cache_match_live)
  moreover have "cache_view st (c, p, s) = None" using True by (intro view_none_live) simp
  ultimately show ?thesis using cache_make_room_room(3) [OF inv room, of "(c, p, s)"] by simp
next
  case False
  then have "cccam_cache_add True now c p s (Some w) h x st = Some (rc, st')"
    using add en by (cases mem) (auto simp: cccam_cache_add_def cache_match_live split: option.splits)
  then show ?thesis
    by - (rule cache_add_result [OF inv, of True now c p s "Some w" h x], use en in auto)
qed

lemma cache_step_view:
  assumes inv: "cache_inv st" and step: "cache_step op st = Some t"
  shows "cache_view t k \<in> {None, case cache_stored op st k of None \<Rightarrow> cache_view st k | Some v \<Rightarrow> Some v}"
proof (cases op)
  case (CAdd mem now c p s cw h x)
  from step obtain rc where add: "cccam_cache_add mem now c p s cw h x st = Some (rc, t)" by (auto simp: CAdd)
  show ?thesis
  proof (cases "cw = None \<or> \<not> cache_enabled st")
    case True
    with add have "t = st" by (auto simp: cccam_cache_add_def split: option.splits)
    moreover have "cache_stored op st k = None" using True by (cases cw) (auto simp: CAdd)
    ultimately show ?thesis by simp
  next
    case False
    then obtain w where w: "cw = Some w" "cache_enabled st" by auto
    have "cache_view t k \<in> {None, cache_view st k}" if "k \<noteq> (c, p, s)"
      by (rule cache_add_result [OF inv, of mem now c p s cw h x]) (use add that in auto)
    with cache_add_own [OF inv w(2) add [unfolded w(1)]] w show ?thesis by (auto simp: CAdd)
  qed
next
  case (CFind b now c p s)
  with step cache_find_keeps(2) [OF inv, of b now c p s k] show ?thesis by auto
next
  case (CRemove c p s)
  with step cache_remove_keeps [OF inv] show ?thesis by (cases k) auto
next
  case (CClean now)
  with step cache_clean_keeps(2) [OF inv, of now k] show ?thesis by (auto split: option.splits if_splits)
next
  case (CSetEnabled b)
  with step show ?thesis by (auto simp: cccam_cache_set_enabled_def cache_view_def)
next
  case (CSetTimeout n)
  with step show ?thesis by (cases "0 < n") (auto simp: cccam_cache_set_timeout_def cache_view_def)
qed (use step in \<open>auto simp: cccam_cache_cleanup_def cccam_cache_init_def cache_view_def\<close>)

interpretation cache_store: logged_store cache_step cache_stored cache_inv cache_view
proof
  fix s x t assume "cache_inv s" "cache_step x s = Some t"
  then show "cache_inv t" using cache_step_progress [of s x] by auto
qed (rule cache_step_view)

subsection \<open>Properties\<close>

text \<open>
  C36: from the initial state, any sequence of cache operations (lookups, stores with or without
  memory, removals, sweeps, switching the cache off and on) terminates, its eviction loop
  included, and leaves a list whose length is the entry counter, at most 1024 entries, and at
  most one valid entry per (caid, provid, sid).
\<close>

theorem cache_run_bounded:
  "\<exists>t. run_ops cache_step ops cache_initial = Some t \<and> cache_entries t = int (length (cache_list t)) \<and>
     cache_entries t \<le> 1024 \<and> distinct (map ce_key (filter ce_valid (cache_list t)))"
  using cache_sys.run_init [of ops] by (auto simp: cache_inv_def)

text \<open>
  C37: coherence. After any sequence of cache operations (stores with or without memory and with an own or the default expiry
  time, lookups, removals, sweeps, new timeouts, switching off and on), a lookup that hits returns the control word and hop
  of the last store for that very channel that found the cache switched on, and only while the expiry time that this store
  computed, its own or the time plus the timeout then in force, has not passed.
\<close>

theorem cache_hit_is_last_store:
  assumes "run_ops cache_step ops cache_initial = Some st"
    and "fst (snd (cccam_cache_find True now caid provid sid st)) = Some (w, h)"
  shows "\<exists>x. last_stored cache_step cache_stored ops cache_initial (caid, provid, sid) = Some (w, h, x) \<and> now \<le> x"
proof -
  have init: "cache_view cache_initial k = None" for k by (simp add: cache_initial_def cache_view_def)
  have "cache_enabled st" using assms(2) by (rule contrapos_pp) (simp add: cccam_cache_find_def)
  from cache_find_lookup(1) [OF this, of now caid provid sid] assms(2)
  obtain x where "cache_view st (caid, provid, sid) = Some (w, h, x)" and "now \<le> x"
    by (auto simp: cache_lookup_def split: option.splits if_splits)
  with cache_store.holds_last_empty [OF assms(1) cache_inv_initial init] show ?thesis by blast
qed

theorem cache_hit_is_last_store_witness:
  "\<exists>x. last_stored cache_step cache_stored [CAdd True 5 256 0 1 (Some (replicate 16 7)) 1 50, CSetTimeout 30,
      CAdd False 20 256 0 1 (Some (replicate 16 9)) 2 0] cache_initial (256, 0, 1) = Some (replicate 16 9, 2, x) \<and> 45 \<le> x"
proof -
  let ?ops = "[CAdd True 5 256 0 1 (Some (replicate 16 7)) 1 50, CSetTimeout 30, CAdd False 20 256 0 1 (Some (replicate 16 9)) 2 0]"
  have "(case run_ops cache_step ?ops cache_initial of None \<Rightarrow> False
      | Some st \<Rightarrow> fst (snd (cccam_cache_find True 45 256 0 1 st)) = Some (replicate 16 9, 2))" by code_simp
  then obtain st where "run_ops cache_step ?ops cache_initial = Some st"
    "fst (snd (cccam_cache_find True 45 256 0 1 st)) = Some (replicate 16 9, 2)" by (auto split: option.splits)
  then show ?thesis by (rule cache_hit_is_last_store)
qed

text \<open>
  Store then look up. In an enabled cache in a consistent state, \<open>cccam_cache_add\<close> with a
  16-byte word returns 0 and an immediate lookup up to the entry's expiry hits with the same
  word and hop, whether the channel was new, replaced or needed an eviction.
\<close>

theorem cache_add_then_find:
  assumes "cache_inv st" and "cache_enabled st" and "length w = 16"
    and "now' \<le> cache_expiry now x st"
  shows "\<exists>st'. cccam_cache_add True now caid provid sid (Some w) hop x st = Some (0, st') \<and>
    fst (cccam_cache_find True now' caid provid sid st') = 1 \<and>
    fst (snd (cccam_cache_find True now' caid provid sid st')) = Some (w, hop)"
proof -
  obtain st' where add: "cccam_cache_add True now caid provid sid (Some w) hop x st = Some (0, st')"
    and en: "cache_enabled st'"
    and view: "cache_view st' (caid, provid, sid) = Some (w, hop, cache_expiry now x st)"
    using cache_add_result [OF assms(1), of True now caid provid sid "Some w" hop x] assms(2,3)
    by (metis order_refl take_all)
  with cache_find_lookup [OF en, of now' caid provid sid] assms(4) show ?thesis
    by (simp add: cache_lookup_def)
qed

theorem cache_add_then_find_witness:
  "\<exists>st'. cccam_cache_add True 100 256 0 1 (Some (replicate 16 5)) 2 0 cache_initial = Some (0, st') \<and>
    fst (cccam_cache_find True 110 256 0 1 st') = 1 \<and>
    fst (snd (cccam_cache_find True 110 256 0 1 st')) = Some (replicate 16 5, 2)"
  by (rule cache_add_then_find) (simp_all add: cache_inv_initial, simp_all add: cache_initial_def cache_expiry_def)

text \<open>
  The sweep of expired entries removes exactly the entries whose expiry time has passed,
  valid or not, keeps the others in order, and returns how many it removed.
\<close>

theorem cache_clean_expired_exact:
  assumes "cccam_cache_clean_expired now st = (n, st')"
  shows "cache_list st' = filter (\<lambda>e. now \<le> ce_expires_at e) (cache_list st) \<and>
    n = int (length (filter (\<lambda>e. ce_expires_at e < now) (cache_list st))) \<and>
    cache_entries st' = cache_entries st - n"
  using assms by (auto simp: cccam_cache_clean_expired_def cache_clean_loop_filter)

theorem cache_clean_expired_exact_witness:
  "\<exists>n st'. cccam_cache_clean_expired 7 cache_initial = (n, st') \<and>
    cache_list st' = filter (\<lambda>e. 7 \<le> ce_expires_at e) (cache_list cache_initial) \<and>
    n = int (length (filter (\<lambda>e. ce_expires_at e < 7) (cache_list cache_initial))) \<and>
    cache_entries st' = cache_entries cache_initial - n"
  using cache_clean_expired_exact [of 7 cache_initial] by (metis surj_pair)

text \<open>
  Lookups do not count as use. A hit leaves the order of the list alone, so in a full cache
  the channel at the tail is evicted by the next new channel even right after it was hit: the
  eviction order is that of the last store, not of the last use.
\<close>

theorem cache_hit_does_not_protect:
  assumes "cache_inv st" and "cache_enabled st" and "cache_entries st = cache_max_entries st"
    and "live_for (caid, provid, sid) (last (cache_list st))"
    and "fst (cccam_cache_find True now caid provid sid st) = 1"
    and "cache_view st (caid', provid', sid') = None"
  shows "\<exists>st'. cccam_cache_add True now caid' provid' sid' (Some w) hop x
      (snd (snd (cccam_cache_find True now caid provid sid st))) = Some (0, st') \<and>
    fst (cccam_cache_find True now caid provid sid st') = 0"
proof -
  let ?k = "(caid, provid, sid)" and ?k' = "(caid', provid', sid')"
  let ?s = "snd (snd (cccam_cache_find True now caid provid sid st))"
  have s: "?s = st\<lparr>cache_hits := cache_hits st + 1\<rparr>"
    using assms(2,5) by (auto simp: cccam_cache_find_def Let_def split: option.splits if_splits)
  have inv: "cache_inv ?s" using assms(1) by (simp add: s cache_inv_def)
  have ne: "cache_list st \<noteq> []" using assms(1,3) by (auto simp: cache_inv_def)
  have idx: "find_idx (live_for ?k') (cache_list ?s) = None"
    using assms(6) by (simp add: s cache_view_def find_idx_None_find)
  have room: "cache_make_room ?s = Some (cache_evict_lru ?s)"
    using cache_make_room_inv [OF inv] assms(3) by (simp add: s)
  have last: "length (cache_list st) - 1 < length (cache_list st)" and
    live: "live_for ?k (cache_list st ! (length (cache_list st) - 1))"
    using ne assms(4) by (simp_all add: last_conv_nth)
  have "distinct (map ce_key (filter ce_valid (cache_list st)))"
    using assms(1) by (simp add: cache_inv_def)
  from live_unique [OF this last live]
  have gone: "cache_view (cache_evict_lru ?s) ?k = None"
    using ne by (simp add: s cache_evict_lru_def cache_view_def)
  have neq: "?k \<noteq> ?k'"
    using assms(6) live last by (auto simp: cache_view_def find_None_iff dest: nth_mem)
  obtain st' where add: "cccam_cache_add True now caid' provid' sid' (Some w) hop x ?s = Some (0, st')"
    and st': "cache_list st' = \<lparr>ce_caid = caid', ce_provid = provid', ce_sid = sid', ce_cw = take 16 w,
      ce_hop = hop, ce_timestamp = now, ce_expires_at = cache_expiry now x (cache_evict_lru ?s), ce_valid = True\<rparr>
      # cache_list (cache_evict_lru ?s)" and en: "cache_enabled st'"
    using idx room assms(2) ne by (auto simp: cccam_cache_add_def cache_match_live s cache_evict_lru_def)
  have "cache_view st' ?k = None"
    using gone neq by (auto simp: cache_view_def st' live_for_def ce_key_def)
  with cache_find_lookup(2) [OF en] add show ?thesis
    by (simp add: cache_lookup_def)
qed

text \<open>A cache of two entries, both live: the tail is hit and then evicted.\<close>

definition cache_full_of_two :: cache where
  "cache_full_of_two = cache_initial\<lparr>cache_max_entries := 2, cache_entries := 2, cache_list :=
     map (\<lambda>s. \<lparr>ce_caid = 256, ce_provid = 0, ce_sid = s, ce_cw = replicate 16 1, ce_hop = 1,
       ce_timestamp = 5, ce_expires_at = 50, ce_valid = True\<rparr>) [2, 1]\<rparr>"

theorem cache_hit_does_not_protect_witness:
  "\<exists>st'. cccam_cache_add True 20 256 0 3 (Some (replicate 16 9)) 1 0
      (snd (snd (cccam_cache_find True 20 256 0 1 cache_full_of_two))) = Some (0, st') \<and>
    fst (cccam_cache_find True 20 256 0 1 st') = 0"
  by (rule cache_hit_does_not_protect)
    (auto simp: cache_full_of_two_def cache_initial_def cache_inv_def live_for_def ce_key_def
      cccam_cache_find_def cache_match_def cache_view_def)

end
