(* ===== verification/Hop_Control.thy ===== *)
theory Hop_Control
  imports Prelude
begin

text \<open>
  Hop control, \<open>src/CCshare/cccam3_hop_control.c\<close>: the limit on the distance of a card, the
  table of recent requests per client and channel (a singly linked list, head first), and the
  counters of allowed and blocked requests. \<open>time(NULL)\<close> is the argument \<open>now\<close>, the outcome of
  \<open>malloc\<close> the argument \<open>mem\<close>.
\<close>

subsection \<open>State\<close>

record hop_entry =
  he_caid :: u16
  he_provid :: u16
  he_sid :: u16
  he_hop :: u8
  he_timestamp :: time_t
  he_client_id :: u32
  he_blocked :: u8

record hop_control =
  hc_max_hops :: u8
  hc_timeout :: int
  hc_entries :: "hop_entry list"
  hc_count :: int
  hc_total_checks :: int
  hc_blocked :: int
  hc_allowed :: int

definition hop_control_initial :: hop_control where
  "hop_control_initial = \<lparr>hc_max_hops = 3, hc_timeout = 60, hc_entries = [], hc_count = 0,
     hc_total_checks = 0, hc_blocked = 0, hc_allowed = 0\<rparr>"

subsection \<open>Operations\<close>

definition hop_match :: "hop_entry \<Rightarrow> u16 \<Rightarrow> u16 \<Rightarrow> u16 \<Rightarrow> u32 \<Rightarrow> bool" where
  "hop_match e caid provid sid client_id \<longleftrightarrow>
     he_caid e = caid \<and> he_provid e = provid \<and> he_sid e = sid \<and> he_client_id e = client_id"

definition cccam_hop_control_init :: "hop_control \<Rightarrow> hop_control" where
  "cccam_hop_control_init st = st\<lparr>hc_max_hops := 3, hc_entries := [], hc_count := 0,
     hc_total_checks := 0, hc_blocked := 0, hc_allowed := 0\<rparr>"

definition cccam_hop_control_cleanup :: "hop_control \<Rightarrow> hop_control" where
  "cccam_hop_control_cleanup st = st\<lparr>hc_entries := [], hc_count := 0\<rparr>"

fun hop_clean_loop :: "time_t \<Rightarrow> int \<Rightarrow> hop_entry list \<Rightarrow> hop_entry list \<times> int" where
  "hop_clean_loop now timeout [] = ([], 0)"
| "hop_clean_loop now timeout (e # es) =
     (let (kept, removed) = hop_clean_loop now timeout es in
      if now - he_timestamp e > timeout then (kept, removed + 1) else (e # kept, removed))"

definition cccam_hop_control_clean_expired :: "time_t \<Rightarrow> hop_control \<Rightarrow> int \<times> hop_control" where
  "cccam_hop_control_clean_expired now st =
     (let (kept, removed) = hop_clean_loop now (hc_timeout st) (hc_entries st) in
      (removed, st\<lparr>hc_entries := kept, hc_count := hc_count st - removed\<rparr>))"

definition cccam_hop_control_is_valid :: "hop_control \<Rightarrow> u8 \<Rightarrow> bool" where
  "cccam_hop_control_is_valid st hop \<longleftrightarrow> hop \<le> hc_max_hops st"

definition cccam_hop_control_check ::
  "time_t \<Rightarrow> u16 \<Rightarrow> u16 \<Rightarrow> u16 \<Rightarrow> u8 \<Rightarrow> u32 \<Rightarrow> hop_control \<Rightarrow> int \<times> hop_control" where
  "cccam_hop_control_check now caid provid sid hop client_id st =
     (let st1 = st\<lparr>hc_total_checks := hc_total_checks st + 1\<rparr>;
          st2 = snd (cccam_hop_control_clean_expired now st1) in
      if \<not> cccam_hop_control_is_valid st2 hop
      then (0, st2\<lparr>hc_blocked := hc_blocked st2 + 1\<rparr>)
      else (1, st2\<lparr>hc_allowed := hc_allowed st2 + 1\<rparr>))"

definition cccam_hop_control_register ::
  "bool \<Rightarrow> time_t \<Rightarrow> u16 \<Rightarrow> u16 \<Rightarrow> u16 \<Rightarrow> u8 \<Rightarrow> u32 \<Rightarrow> hop_control \<Rightarrow> int \<times> hop_control" where
  "cccam_hop_control_register mem now caid provid sid hop client_id st =
     (if \<not> cccam_hop_control_is_valid st hop then (-1, st)
      else
        let st1 = snd (cccam_hop_control_clean_expired now st);
            same = (\<lambda>e. hop_match e caid provid sid client_id);
            st2 = (if find_idx same (hc_entries st1) = None then st1
                   else st1\<lparr>hc_entries := remove_first same (hc_entries st1), hc_count := hc_count st1 - 1\<rparr>) in
        if \<not> mem then (-1, st2)
        else (0, st2\<lparr>hc_entries :=
                \<lparr>he_caid = caid, he_provid = provid, he_sid = sid, he_hop = hop, he_timestamp = now,
                 he_client_id = client_id, he_blocked = 0\<rparr> # hc_entries st2,
              hc_count := hc_count st2 + 1\<rparr>))"

text \<open>\<open>uint8_t new_hop = current_hop + 1\<close> wraps at 256.\<close>

definition cccam_hop_control_increment_hop :: "hop_control \<Rightarrow> u8 \<Rightarrow> u8" where
  "cccam_hop_control_increment_hop st current_hop =
     (let new_hop = current_hop + 1 in if new_hop > hc_max_hops st then hc_max_hops st else new_hop)"

definition cccam_hop_control_set_limit :: "u8 \<Rightarrow> hop_control \<Rightarrow> hop_control" where
  "cccam_hop_control_set_limit limit st =
     (if limit > 0 \<and> limit \<le> 20 then st\<lparr>hc_max_hops := limit\<rparr> else st)"

definition cccam_hop_control_set_timeout :: "int \<Rightarrow> hop_control \<Rightarrow> hop_control" where
  "cccam_hop_control_set_timeout t st = (if t > 0 then st\<lparr>hc_timeout := t\<rparr> else st)"

definition cccam_hop_control_get_limit :: "hop_control \<Rightarrow> u8" where
  "cccam_hop_control_get_limit st = hc_max_hops st"

subsection \<open>Invariant and abstract view\<close>

type_synonym hop_key = "u16 \<times> u16 \<times> u16 \<times> u32"

definition hop_key_of :: "hop_entry \<Rightarrow> hop_key" where
  "hop_key_of e = (he_caid e, he_provid e, he_sid e, he_client_id e)"

definition hop_view :: "hop_control \<Rightarrow> hop_key \<Rightarrow> u8 option" where
  "hop_view st k = map_option he_hop (find (\<lambda>e. hop_key_of e = k) (hc_entries st))"

text \<open>
  The counter is the length of the list, a client has one entry per channel, the limit is between
  1 and 20, every check was counted once, and no registered hop exceeds 20.
\<close>

definition hop_inv :: "hop_control \<Rightarrow> bool" where
  "hop_inv st \<longleftrightarrow> hc_count st = int (length (hc_entries st)) \<and> distinct (map hop_key_of (hc_entries st)) \<and>
     0 < hc_max_hops st \<and> hc_max_hops st \<le> 20 \<and> 0 < hc_timeout st \<and>
     hc_total_checks st = hc_allowed st + hc_blocked st \<and>
     (\<forall>e \<in> set (hc_entries st). he_hop e \<le> 20)"

lemma hop_match_key:
  "(\<lambda>e. hop_match e caid provid sid client_id) = (\<lambda>e. hop_key_of e = (caid, provid, sid, client_id))"
  by (auto simp: fun_eq_iff hop_match_def hop_key_of_def)

lemma hop_clean_loop_filter:
  "hop_clean_loop now t es = (filter (\<lambda>e. now - he_timestamp e \<le> t) es,
     int (length (filter (\<lambda>e. now - he_timestamp e > t) es)))"
  by (induction es) (auto simp: Let_def)

lemma hop_clean_eq:
  "cccam_hop_control_clean_expired now st =
    (int (length (hc_entries st)) - int (length (filter (\<lambda>e. now - he_timestamp e \<le> hc_timeout st) (hc_entries st))),
     st\<lparr>hc_entries := filter (\<lambda>e. now - he_timestamp e \<le> hc_timeout st) (hc_entries st),
        hc_count := hc_count st - (int (length (hc_entries st))
          - int (length (filter (\<lambda>e. now - he_timestamp e \<le> hc_timeout st) (hc_entries st))))\<rparr>)"
proof -
  have "int (length (filter (\<lambda>e. now - he_timestamp e > t) es))
    = int (length es) - int (length (filter (\<lambda>e. now - he_timestamp e \<le> t) es))" for t and es :: "hop_entry list"
    by (induction es) auto
  then show ?thesis
    by (simp add: cccam_hop_control_clean_expired_def hop_clean_loop_filter)
qed

lemma hop_clean_inv [first_match]: "hop_inv st \<Longrightarrow> hop_inv (snd (cccam_hop_control_clean_expired now st))"
  by (auto simp: hop_inv_def hop_clean_eq intro: distinct_map_filter)

lemma hop_clean_frame [simp]:
  "hc_max_hops (snd (cccam_hop_control_clean_expired now st)) = hc_max_hops st"
  "hc_timeout (snd (cccam_hop_control_clean_expired now st)) = hc_timeout st"
  "hc_total_checks (snd (cccam_hop_control_clean_expired now st)) = hc_total_checks st"
  "hc_allowed (snd (cccam_hop_control_clean_expired now st)) = hc_allowed st"
  "hc_blocked (snd (cccam_hop_control_clean_expired now st)) = hc_blocked st"
  by (simp_all add: hop_clean_eq)

lemma hop_clean_entries:
  "hc_entries (snd (cccam_hop_control_clean_expired now st))
    = filter (\<lambda>e. now - he_timestamp e \<le> hc_timeout st) (hc_entries st)"
  by (simp add: hop_clean_eq)

lemma hop_check_inv:
  assumes "hop_inv st"
  shows "hop_inv (snd (cccam_hop_control_check now caid provid sid hop client_id st))"
proof -
  let ?s = "snd (cccam_hop_control_clean_expired now (st\<lparr>hc_total_checks := hc_total_checks st + 1\<rparr>))"
  have "hop_inv (snd (cccam_hop_control_clean_expired now st))"
    using assms by (rule hop_clean_inv)
  then have "hc_count ?s = int (length (hc_entries ?s))" "distinct (map hop_key_of (hc_entries ?s))"
    "\<forall>e \<in> set (hc_entries ?s). he_hop e \<le> 20"
    by (auto simp: hop_inv_def hop_clean_eq)
  with assms show ?thesis
    by (auto simp: hop_inv_def cccam_hop_control_check_def Let_def)
qed

lemma hop_drop_inv:
  assumes "hop_inv st" and "P = (\<lambda>e. hop_key_of e = k)"
  shows "hop_inv (if find_idx P (hc_entries st) = None then st
    else st\<lparr>hc_entries := remove_first P (hc_entries st), hc_count := hc_count st - 1\<rparr>)"
    and "k \<notin> hop_key_of ` set (remove_first P (hc_entries st))"
proof -
  have d: "distinct (map hop_key_of (hc_entries st))" using assms(1) by (simp add: hop_inv_def)
  show "k \<notin> hop_key_of ` set (remove_first P (hc_entries st))"
    using remove_first_unique [OF d, of k] by (auto simp: assms(2))
  show "hop_inv (if find_idx P (hc_entries st) = None then st
    else st\<lparr>hc_entries := remove_first P (hc_entries st), hc_count := hc_count st - 1\<rparr>)"
    using assms(1) distinct_map_remove_first [OF d, of P] set_remove_first [of P "hc_entries st"]
      length_pos_if_in_set
    by (fastforce simp: hop_inv_def find_idx_None length_remove_first of_nat_diff Suc_leI)
qed

lemma hop_register_eq:
  assumes "hop_inv st" and "cccam_hop_control_is_valid st hop" and "k = (caid, provid, sid, client_id)"
  shows "cccam_hop_control_register mem now caid provid sid hop client_id st
    = (let st1 = snd (cccam_hop_control_clean_expired now st);
           rest = filter (\<lambda>e. hop_key_of e \<noteq> k) (hc_entries st1);
           st2 = st1\<lparr>hc_entries := rest, hc_count := int (length rest)\<rparr> in
       if \<not> mem then (-1, st2)
       else (0, st2\<lparr>hc_entries := \<lparr>he_caid = caid, he_provid = provid, he_sid = sid, he_hop = hop,
             he_timestamp = now, he_client_id = client_id, he_blocked = 0\<rparr> # rest,
           hc_count := int (length rest) + 1\<rparr>))"
proof -
  let ?s = "snd (cccam_hop_control_clean_expired now st)" and ?P = "\<lambda>e. hop_key_of e = k"
  have inv: "hop_inv ?s" using assms(1) by (rule hop_clean_inv)
  then have rest: "remove_first ?P (hc_entries ?s) = filter (\<lambda>e. hop_key_of e \<noteq> k) (hc_entries ?s)"
    by (auto simp: hop_inv_def intro: remove_first_unique)
  have drop: "(if find_idx ?P (hc_entries ?s) = None then ?s
      else ?s\<lparr>hc_entries := remove_first ?P (hc_entries ?s), hc_count := hc_count ?s - 1\<rparr>)
    = ?s\<lparr>hc_entries := filter (\<lambda>e. hop_key_of e \<noteq> k) (hc_entries ?s),
         hc_count := int (length (filter (\<lambda>e. hop_key_of e \<noteq> k) (hc_entries ?s)))\<rparr>"
    using hop_drop_inv(1) [OF inv refl, of k]
    by (auto simp: rest hop_inv_def find_idx_None filter_id_conv split: if_splits)
  show ?thesis
    unfolding cccam_hop_control_register_def hop_match_key Let_def drop [unfolded assms(3)] assms(3)
    using assms(2) by simp
qed

lemma hop_register_inv:
  assumes "hop_inv st"
  shows "hop_inv (snd (cccam_hop_control_register mem now caid provid sid hop client_id st))"
proof (cases "cccam_hop_control_is_valid st hop")
  case True
  with assms have "hop \<le> 20" by (auto simp: cccam_hop_control_is_valid_def hop_inv_def)
  moreover have "hop_inv (snd (cccam_hop_control_clean_expired now st))"
    using assms by (rule hop_clean_inv)
  ultimately show ?thesis
    unfolding hop_register_eq [OF assms True refl]
    by (auto simp: hop_inv_def Let_def hop_key_of_def intro: distinct_map_filter)
qed (use assms in \<open>simp add: cccam_hop_control_register_def\<close>)

lemma hop_check_blocks_result:
  "fst (cccam_hop_control_check now caid provid sid hop client_id st) = (if hc_max_hops st < hop then 0 else 1)"
  by (auto simp: cccam_hop_control_check_def cccam_hop_control_is_valid_def Let_def)

subsection \<open>Hop control as a system of operations\<close>

datatype hop_op =
    HCheck time_t u16 u16 u16 u8 u32
  | HRegister bool time_t u16 u16 u16 u8 u32
  | HClean time_t
  | HSetLimit u8
  | HSetTimeout int
  | HCleanup
  | HInit

fun hop_exec :: "hop_op \<Rightarrow> hop_control \<Rightarrow> hop_control" where
  "hop_exec (HCheck now c p s h i) st = snd (cccam_hop_control_check now c p s h i st)"
| "hop_exec (HRegister mem now c p s h i) st = snd (cccam_hop_control_register mem now c p s h i st)"
| "hop_exec (HClean now) st = snd (cccam_hop_control_clean_expired now st)"
| "hop_exec (HSetLimit l) st = cccam_hop_control_set_limit l st"
| "hop_exec (HSetTimeout t) st = cccam_hop_control_set_timeout t st"
| "hop_exec HCleanup st = cccam_hop_control_cleanup st"
| "hop_exec HInit st = cccam_hop_control_init st"

lemma hop_exec_inv:
  assumes "hop_inv st"
  shows "hop_inv (hop_exec op st)"
proof (cases op)
  case (HSetLimit l)
  with assms show ?thesis by (auto simp: hop_inv_def cccam_hop_control_set_limit_def)
next
  case (HSetTimeout t)
  with assms show ?thesis by (auto simp: hop_inv_def cccam_hop_control_set_timeout_def)
next
  case HCleanup
  with assms show ?thesis by (auto simp: hop_inv_def cccam_hop_control_cleanup_def)
next
  case HInit
  with assms show ?thesis by (auto simp: hop_inv_def cccam_hop_control_init_def)
qed (use assms in \<open>simp_all add: hop_check_inv hop_register_inv hop_clean_inv\<close>)

interpretation hop_sys: total_system hop_control_initial hop_exec hop_inv
proof
  show "hop_inv hop_control_initial"
    by (simp add: hop_inv_def hop_control_initial_def)
qed (rule hop_exec_inv)

text \<open>
  Within one timeout window around a fixed instant \<open>now\<close> and under a fixed limit \<open>lim\<close>, the table is
  a store that forgets nothing: \<open>hop_window\<close> is its invariant there.
\<close>

definition hop_window :: "time_t \<Rightarrow> u8 \<Rightarrow> hop_control \<Rightarrow> bool" where
  "hop_window now lim st \<longleftrightarrow> hop_inv st \<and> hc_max_hops st = lim \<and>
     (\<forall>e \<in> set (hc_entries st). now - he_timestamp e \<le> hc_timeout st)"

fun hop_put :: "time_t \<Rightarrow> hop_key \<Rightarrow> u8 \<Rightarrow> hop_control \<Rightarrow> hop_control" where
  "hop_put now (c, p, s, i) h st = snd (cccam_hop_control_register True now c p s h i st)"

lemma hop_put_window:
  assumes "hop_window now lim st" and "h \<le> lim"
  shows "hop_window now lim (hop_put now k h st)"
    and "hop_view (hop_put now k h st) k' = (if k' = k then Some h else hop_view st k')"
proof -
  obtain c p s i where k: "k = (c, p, s, i)" by (metis prod_cases4)
  have inv: "hop_inv st" and valid: "cccam_hop_control_is_valid st h"
    and same: "filter (\<lambda>e. now - he_timestamp e \<le> hc_timeout st) (hc_entries st) = hc_entries st"
    and "0 \<le> hc_timeout st"
    using assms by (auto simp: hop_window_def cccam_hop_control_is_valid_def filter_id_conv hop_inv_def)
  have put: "hop_put now k h st = snd (cccam_hop_control_register True now c p s h i st)"
    by (simp add: k)
  have "hop_inv (hop_put now k h st)" unfolding put by (rule hop_register_inv [OF inv])
  moreover have ent: "hc_entries (hop_put now k h st) = \<lparr>he_caid = c, he_provid = p, he_sid = s, he_hop = h,
      he_timestamp = now, he_client_id = i, he_blocked = 0\<rparr> # filter (\<lambda>e. hop_key_of e \<noteq> k) (hc_entries st)"
    and "hc_max_hops (hop_put now k h st) = hc_max_hops st" "hc_timeout (hop_put now k h st) = hc_timeout st"
    unfolding put hop_register_eq [OF inv valid k] by (simp_all add: Let_def hop_clean_entries same)
  ultimately show "hop_window now lim (hop_put now k h st)"
    using assms \<open>0 \<le> hc_timeout st\<close> by (auto simp: hop_window_def)
  have new: "hop_key_of \<lparr>he_caid = c, he_provid = p, he_sid = s, he_hop = h, he_timestamp = now,
      he_client_id = i, he_blocked = 0\<rparr> = k"
    by (simp add: hop_key_of_def k)
  show "hop_view (hop_put now k h st) k' = (if k' = k then Some h else hop_view st k')"
    unfolding hop_view_def ent
    using find_filter_other [of "\<lambda>e. hop_key_of e = k'" "\<lambda>e. hop_key_of e \<noteq> k"] by (auto simp: new)
qed

interpretation hop_store: keyed_store "hop_window now lim" "\<lambda>k h. h \<le> lim" hop_view "hop_put now"
  "\<lambda>(u :: unit). cccam_hop_control_cleanup" for now :: time_t and lim :: u8
proof unfold_locales
  fix st k k' h assume "hop_window now lim st" "h \<le> lim"
  then show "hop_window now lim (hop_put now k h st)" "hop_view (hop_put now k h st) k = Some h"
    by (simp_all add: hop_put_window)
  from \<open>hop_window now lim st\<close> \<open>h \<le> lim\<close>
  show "k' \<noteq> k \<Longrightarrow> hop_view (hop_put now k h st) k' = hop_view st k'"
    and "k' \<noteq> k \<Longrightarrow> hop_view (hop_put now k h st) k' \<in> {None, hop_view st k'}"
    by (simp_all add: hop_put_window)
next
  fix st x k assume "hop_window now lim st"
  then show "hop_window now lim (cccam_hop_control_cleanup st)"
    by (auto simp: hop_window_def hop_inv_def cccam_hop_control_cleanup_def)
  show "hop_view (cccam_hop_control_cleanup st) k \<in> {None, hop_view st k}"
    by (simp add: hop_view_def cccam_hop_control_cleanup_def)
qed

subsection \<open>Properties\<close>

text \<open>
  After any sequence of hop control operations, with any clock values, limits and failing
  allocations, the entry counter is the length of the table, no client has two entries for one
  channel, the limit stays between 1 and 20, no registered hop exceeds 20, and the counters of
  allowed and blocked requests add up to the number of checks.
\<close>

theorem hop_run_inv:
  "let st = fold hop_exec ops hop_control_initial in
    hc_count st = int (length (hc_entries st)) \<and> distinct (map hop_key_of (hc_entries st)) \<and>
    0 < hc_max_hops st \<and> hc_max_hops st \<le> 20 \<and> (\<forall>e \<in> set (hc_entries st). he_hop e \<le> 20) \<and>
    hc_total_checks st = hc_allowed st + hc_blocked st"
  using hop_sys.invar_fold [OF hop_sys.invar_start, of ops] by (simp add: hop_inv_def Let_def)

theorem hop_run_inv_witness:
  "hc_count (fold hop_exec [HRegister True 5 1 0 2 1 9, HCheck 80 1 0 2 7 9] hop_control_initial) = 0"
  using hop_run_inv [of "[HRegister True 5 1 0 2 1 9, HCheck 80 1 0 2 7 9]"] by code_simp

text \<open>
  The table is complete within a timeout window. Registering any list of requests with hops
  within the limit at an instant at which no older entry has expired leaves, for every client and
  channel, the hop of its last registration, and the previous hop where it was not registered.
\<close>

theorem hop_register_complete:
  assumes "hop_window now lim st" and "list_all (\<lambda>(k, h). h \<le> lim) kvs"
  shows "hop_view (fold (\<lambda>(k, h). hop_put now k h) kvs st) k
    = (case map_of (rev kvs) k of None \<Rightarrow> hop_view st k | Some h \<Rightarrow> Some h)"
  by (rule hop_store.complete [OF assms])

theorem hop_register_complete_witness:
  "hop_view (fold (\<lambda>(k, h). hop_put 30 k h)
      [((1, 0, 2, 9), 1), ((1, 0, 2, 8), 3), ((1, 0, 2, 9), 2)] hop_control_initial) (1, 0, 2, 9) = Some 2"
  by (subst hop_register_complete [where lim = 3])
    (simp_all add: hop_window_def hop_inv_def hop_control_initial_def)

text \<open>
  The check blocks a request exactly when its hop exceeds the limit, whatever the table
  holds; it counts the request once and drops exactly the expired entries.
\<close>

theorem hop_check_blocks_iff:
  "fst (cccam_hop_control_check now caid provid sid hop client_id st) = (if hc_max_hops st < hop then 0 else 1) \<and>
   hc_blocked (snd (cccam_hop_control_check now caid provid sid hop client_id st))
     = hc_blocked st + (if hc_max_hops st < hop then 1 else 0) \<and>
   hc_entries (snd (cccam_hop_control_check now caid provid sid hop client_id st))
     = filter (\<lambda>e. now - he_timestamp e \<le> hc_timeout st) (hc_entries st)"
  by (auto simp: cccam_hop_control_check_def cccam_hop_control_is_valid_def Let_def hop_clean_entries)

text \<open>
  A hop that went through \<open>cccam_hop_control_increment_hop\<close> always passes the check, because
  the increment clamps to the limit: the sequence increment-then-check that the ECM path runs can
  block no request, however far the card is. A hop of 255 even wraps around to 0.
\<close>

theorem hop_increment_never_blocked:
  "fst (cccam_hop_control_check now caid provid sid (cccam_hop_control_increment_hop st hop) client_id st) = 1 \<and>
   cccam_hop_control_increment_hop st 255 = 0"
proof
  show "fst (cccam_hop_control_check now caid provid sid (cccam_hop_control_increment_hop st hop) client_id st) = 1"
    by (auto simp: hop_check_blocks_result cccam_hop_control_increment_hop_def Let_def not_less)
  show "cccam_hop_control_increment_hop st 255 = 0"
    by (simp add: cccam_hop_control_increment_hop_def u8_wraps not_less)
qed

end
