(* ===== verification/Load_Balancer.thy ===== *)
theory Load_Balancer
  imports Prelude
begin

text \<open>
  \<open>src/core/cccam3_optimizer.c\<close>: the connection limit, the failover parameters, the timeout
  check and the two allocation counters (\<open>uint32_t\<close>, which wrap). Sleeping, logging and the JSON text
  of \<open>cccam_system_stats\<close> are left out. \<open>time(NULL)\<close> is the argument \<open>now\<close>; the outcome of the
  allocation is the argument \<open>mem\<close>.
\<close>

subsection \<open>State and operations\<close>

record optimizer =
  op_start_time :: time_t
  op_allocated :: u32
  op_freed :: u32
  op_connections :: int
  op_max_connections :: int
  op_failover_enabled :: int
  op_retry_count :: int
  op_retry_delay :: int

definition optimizer_initial :: optimizer where
  "optimizer_initial = \<lparr>op_start_time = 0, op_allocated = 0, op_freed = 0, op_connections = 0,
     op_max_connections = 100, op_failover_enabled = 1, op_retry_count = 3, op_retry_delay = 5\<rparr>"

text \<open>\<open>g_total += size\<close> with a \<open>size_t\<close> argument: the sum is truncated to 32 bits.\<close>

definition cccam_malloc :: "bool \<Rightarrow> u64 \<Rightarrow> optimizer \<Rightarrow> bool \<times> optimizer" where
  "cccam_malloc mem sz st = (mem, if mem then st\<lparr>op_allocated := op_allocated st + ucast sz\<rparr> else st)"

definition cccam_calloc :: "bool \<Rightarrow> u64 \<Rightarrow> u64 \<Rightarrow> optimizer \<Rightarrow> bool \<times> optimizer" where
  "cccam_calloc mem nmemb sz st =
     (mem, if mem then st\<lparr>op_allocated := op_allocated st + ucast (nmemb * sz)\<rparr> else st)"

definition cccam_free :: "bool \<Rightarrow> u64 \<Rightarrow> optimizer \<Rightarrow> optimizer" where
  "cccam_free ptr sz st = (if ptr then st\<lparr>op_freed := op_freed st + ucast sz\<rparr> else st)"

definition cccam_memory_stats :: "optimizer \<Rightarrow> u32 \<times> u32 \<times> u32" where
  "cccam_memory_stats st = (op_allocated st, op_freed st, op_allocated st - op_freed st)"

definition cccam_timeout_check :: "time_t \<Rightarrow> time_t \<Rightarrow> int \<Rightarrow> bool" where
  "cccam_timeout_check now start_time timeout_seconds \<longleftrightarrow> now - start_time > timeout_seconds"

definition cccam_load_balancer_allow_connection :: "optimizer \<Rightarrow> int \<times> optimizer" where
  "cccam_load_balancer_allow_connection st =
     (if op_connections st \<ge> op_max_connections st then (0, st)
      else (1, st\<lparr>op_connections := op_connections st + 1\<rparr>))"

definition cccam_load_balancer_release_connection :: "optimizer \<Rightarrow> optimizer" where
  "cccam_load_balancer_release_connection st =
     (if op_connections st > 0 then st\<lparr>op_connections := op_connections st - 1\<rparr> else st)"

definition cccam_load_balancer_get_connections :: "optimizer \<Rightarrow> int" where
  "cccam_load_balancer_get_connections st = op_connections st"

definition cccam_load_balancer_set_max_connections :: "int \<Rightarrow> optimizer \<Rightarrow> optimizer" where
  "cccam_load_balancer_set_max_connections limit st = (if limit > 0 then st\<lparr>op_max_connections := limit\<rparr> else st)"

definition cccam_failover_should_retry :: "optimizer \<Rightarrow> int \<Rightarrow> bool" where
  "cccam_failover_should_retry st attempt = (if op_failover_enabled st = 0 then False else attempt < op_retry_count st)"

definition cccam_failover_set_params :: "int \<Rightarrow> int \<Rightarrow> int \<Rightarrow> optimizer \<Rightarrow> optimizer" where
  "cccam_failover_set_params enabled retry_count retry_delay st =
     st\<lparr>op_failover_enabled := enabled,
        op_retry_count := (if retry_count > 0 then retry_count else op_retry_count st),
        op_retry_delay := (if retry_delay > 0 then retry_delay else op_retry_delay st)\<rparr>"

definition cccam_optimizer_init :: "time_t \<Rightarrow> optimizer \<Rightarrow> optimizer" where
  "cccam_optimizer_init now st = st\<lparr>op_start_time := now, op_allocated := 0, op_freed := 0, op_connections := 0\<rparr>"

subsection \<open>The optimizer as a system of operations\<close>

datatype balancer_op =
    BAllow | BRelease | BSetMax int | BFailover int int int
  | BMalloc bool u64 | BCalloc bool u64 u64 | BFree bool u64 | BInit time_t

fun balancer_exec :: "balancer_op \<Rightarrow> optimizer \<Rightarrow> optimizer" where
  "balancer_exec BAllow st = snd (cccam_load_balancer_allow_connection st)"
| "balancer_exec BRelease st = cccam_load_balancer_release_connection st"
| "balancer_exec (BSetMax m) st = cccam_load_balancer_set_max_connections m st"
| "balancer_exec (BFailover e c d) st = cccam_failover_set_params e c d st"
| "balancer_exec (BMalloc mem n) st = snd (cccam_malloc mem n st)"
| "balancer_exec (BCalloc mem m n) st = snd (cccam_calloc mem m n st)"
| "balancer_exec (BFree p n) st = cccam_free p n st"
| "balancer_exec (BInit now) st = cccam_optimizer_init now st"

lemmas balancer_defs =
  cccam_load_balancer_allow_connection_def cccam_load_balancer_release_connection_def
  cccam_load_balancer_set_max_connections_def cccam_failover_set_params_def cccam_malloc_def
  cccam_calloc_def cccam_free_def cccam_optimizer_init_def

text \<open>The largest limit in force since the start bounds the connections, not the current limit.\<close>

definition balancer_inv :: "int \<Rightarrow> optimizer \<Rightarrow> bool" where
  "balancer_inv cap st \<longleftrightarrow> 0 \<le> op_connections st \<and> op_connections st \<le> cap \<and> 0 < op_max_connections st \<and>
     op_max_connections st \<le> cap \<and> 0 < op_retry_count st \<and> 0 < op_retry_delay st"

fun limit_within :: "int \<Rightarrow> balancer_op \<Rightarrow> bool" where
  "limit_within cap (BSetMax m) \<longleftrightarrow> m \<le> cap"
| "limit_within cap _ \<longleftrightarrow> True"

definition balancer_guarded :: "int \<Rightarrow> balancer_op \<Rightarrow> optimizer \<Rightarrow> optimizer" where
  "balancer_guarded cap x st = (if limit_within cap x then balancer_exec x st else st)"

interpretation balancer_sys: total_system optimizer_initial "balancer_guarded (max 100 cap)"
  "balancer_inv (max 100 cap)" for cap :: int
proof
  show "balancer_inv (max 100 cap) optimizer_initial"
    by (simp add: balancer_inv_def optimizer_initial_def)
next
  fix st x assume "balancer_inv (max 100 cap) st"
  then show "balancer_inv (max 100 cap) (balancer_guarded (max 100 cap) x st)"
    by (cases x) (auto simp: balancer_guarded_def balancer_inv_def balancer_defs)
qed

lemma fold_guarded:
  "list_all (limit_within cap) ops \<Longrightarrow> fold (balancer_guarded cap) ops st = fold balancer_exec ops st"
  by (induction ops arbitrary: st) (auto simp: balancer_guarded_def)

subsection \<open>Memory accounting\<close>

text \<open>The bytes outstanding after a list of operations, in the integers.\<close>

fun outstanding :: "balancer_op list \<Rightarrow> int" where
  "outstanding [] = 0"
| "outstanding (BMalloc mem n # xs) = (if mem then uint n else 0) + outstanding xs"
| "outstanding (BCalloc mem m n # xs) = (if mem then uint (m * n) else 0) + outstanding xs"
| "outstanding (BFree p n # xs) = outstanding xs - (if p then uint n else 0)"
| "outstanding (_ # xs) = outstanding xs"

fun is_init :: "balancer_op \<Rightarrow> bool" where
  "is_init (BInit _) = True"
| "is_init _ = False"

lemma word_of_uint_ucast: "(word_of_int (uint (w :: u64)) :: u32) = ucast w"
  by transfer simp

lemma leak_outstanding:
  assumes "list_all (\<lambda>x. \<not> is_init x) ops"
  shows "op_allocated (fold balancer_exec ops st) - op_freed (fold balancer_exec ops st)
    = op_allocated st - op_freed st + word_of_int (outstanding ops)"
  using assms
proof (induction ops arbitrary: st rule: outstanding.induct)
  case (2 mem n xs)
  then show ?case by (simp add: balancer_defs word_of_uint_ucast)
next
  case (3 mem m n xs)
  then show ?case by (simp add: balancer_defs word_of_uint_ucast)
next
  case (4 p n xs)
  then show ?case by (simp add: balancer_defs word_of_uint_ucast)
qed (simp_all add: balancer_defs)

subsection \<open>Properties\<close>

text \<open>
  Whatever sequence of connections, releases and limit changes runs from the start, the number
  of connections is never negative and never above the largest limit that was ever in force (100 at
  the start), and a further connection is admitted exactly when the count is below the current limit.
\<close>

theorem balancer_bounded:
  assumes "list_all (limit_within (max 100 cap)) ops" and "st = fold balancer_exec ops optimizer_initial"
  shows "0 \<le> cccam_load_balancer_get_connections st \<and> cccam_load_balancer_get_connections st \<le> max 100 cap \<and>
    (fst (cccam_load_balancer_allow_connection st) = 1 \<longleftrightarrow> op_connections st < op_max_connections st)"
  using balancer_sys.invar_fold [OF balancer_sys.invar_start, of cap ops] assms(2) fold_guarded [OF assms(1)]
  by (auto simp: balancer_inv_def cccam_load_balancer_get_connections_def cccam_load_balancer_allow_connection_def)

theorem balancer_bounded_witness:
  "cccam_load_balancer_get_connections
     (fold balancer_exec [BSetMax 1, BAllow, BAllow, BRelease, BRelease, BAllow] optimizer_initial) \<le> 100"
  using balancer_bounded [of 7 "[BSetMax 1, BAllow, BAllow, BRelease, BRelease, BAllow]" "fold balancer_exec [BSetMax 1, BAllow, BAllow, BRelease, BRelease, BAllow] optimizer_initial"]
  by simp

text \<open>
  The leak that \<open>cccam_memory_stats\<close> reports is the number of bytes allocated and not freed,
  as long as that number fits 32 bits, even after both \<open>uint32_t\<close> totals have wrapped around.
\<close>

theorem memory_leak_exact:
  assumes "list_all (\<lambda>x. \<not> is_init x) ops" and "0 \<le> outstanding ops" and "outstanding ops < 2 ^ 32"
  shows "uint (snd (snd (cccam_memory_stats (fold balancer_exec ops optimizer_initial)))) = outstanding ops"
  using leak_outstanding [OF assms(1), of optimizer_initial] assms(2,3)
  by (simp add: cccam_memory_stats_def optimizer_initial_def uint_word_of_int)

theorem memory_leak_exact_witness:
  "uint (snd (snd (cccam_memory_stats (fold balancer_exec
     [BMalloc True 0xFFFFFFFF, BFree True 0xFFFFFFFF, BMalloc True 100, BCalloc True 2 8] optimizer_initial)))) = 116"
  by (subst memory_leak_exact) (simp_all)

end
