(* ===== verification/Crypto.thy ===== *)
theory Crypto
  imports Prelude
begin

text \<open>
  \<open>src/network/cccam3_crypto.c\<close> and the symmetric part of \<open>src/network/cccam3_crypto_advanced.c\<close>.
  RC4 is implemented in the repository and is modelled completely. OpenSSL is not: the record
  \<open>ossl\<close> has one function per EVP cipher, digest or derivation the code calls, with \<open>None\<close> for a call
  that fails, and the predicates \<open>cbc_inverse\<close>, \<open>gcm_inverse\<close> and \<open>digest_lengths\<close> state what its
  documentation promises. Theorems that need one of them name it as a hypothesis.
\<close>

subsection \<open>OpenSSL\<close>

record ossl =
  evp_aes_cbc :: "bool \<Rightarrow> u8 list \<Rightarrow> u8 list \<Rightarrow> u8 list \<Rightarrow> u8 list option"
  evp_3des_cbc :: "bool \<Rightarrow> u8 list \<Rightarrow> u8 list \<Rightarrow> u8 list \<Rightarrow> u8 list option"
  evp_gcm_seal :: "u8 list \<Rightarrow> u8 list \<Rightarrow> u8 list \<Rightarrow> u8 list \<Rightarrow> (u8 list \<times> u8 list) option"
  evp_gcm_open :: "u8 list \<Rightarrow> u8 list \<Rightarrow> u8 list \<Rightarrow> u8 list \<Rightarrow> u8 list \<Rightarrow> u8 list option"
  ossl_sha1 :: "u8 list \<Rightarrow> u8 list"
  ossl_sha256 :: "u8 list \<Rightarrow> u8 list"
  ossl_pbkdf2 :: "u8 list \<Rightarrow> u8 list \<Rightarrow> nat \<Rightarrow> nat \<Rightarrow> u8 list"

text \<open>Decryption undoes encryption under the same key and IV; CBC without padding keeps the length.\<close>

definition cbc_inverse :: "ossl \<Rightarrow> bool" where
  "cbc_inverse lib \<longleftrightarrow>
     (\<forall>k iv d c. evp_aes_cbc lib True k iv d = Some c \<longrightarrow> length c = length d \<and> evp_aes_cbc lib False k iv c = Some d) \<and>
     (\<forall>k iv d c. evp_3des_cbc lib True k iv d = Some c \<longrightarrow> length c = length d \<and> evp_3des_cbc lib False k iv c = Some d)"

text \<open>A sealed message opens under the same key, nonce and associated data; the tag has 16 bytes.\<close>

definition gcm_inverse :: "ossl \<Rightarrow> bool" where
  "gcm_inverse lib \<longleftrightarrow> (\<forall>k iv aad d c t. evp_gcm_seal lib k iv aad d = Some (c, t) \<longrightarrow>
     length c = length d \<and> length t = 16 \<and> evp_gcm_open lib k iv aad c t = Some d)"

definition digest_lengths :: "ossl \<Rightarrow> bool" where
  "digest_lengths lib \<longleftrightarrow> (\<forall>d. length (ossl_sha1 lib d) = 20) \<and> (\<forall>d. length (ossl_sha256 lib d) = 32) \<and>
     (\<forall>p s n l. length (ossl_pbkdf2 lib p s n l) = l)"

text \<open>A concrete library for the witnesses: every cipher adds a key dependent byte.\<close>

definition toy_mask :: "u8 list \<Rightarrow> u8 list \<Rightarrow> u8" where
  "toy_mask k iv = foldr (+) (k @ iv) 1"

definition toy_ossl :: ossl where
  "toy_ossl = \<lparr>
     evp_aes_cbc = (\<lambda>e k iv d. Some (map (\<lambda>b. if e then b + toy_mask k iv else b - toy_mask k iv) d)),
     evp_3des_cbc = (\<lambda>e k iv d. Some (map (\<lambda>b. if e then b + toy_mask k iv else b - toy_mask k iv) d)),
     evp_gcm_seal = (\<lambda>k iv aad d. Some (map ((+) (toy_mask k iv)) d, replicate 16 (toy_mask k aad))),
     evp_gcm_open = (\<lambda>k iv aad c t. if t = replicate 16 (toy_mask k aad) then Some (map (\<lambda>b. b - toy_mask k iv) c) else None),
     ossl_sha1 = (\<lambda>d. replicate 20 (foldr (+) d 0)),
     ossl_sha256 = (\<lambda>d. replicate 32 (foldr (+) d 0)),
     ossl_pbkdf2 = (\<lambda>p s n l. replicate l (foldr (+) (p @ s) (of_nat n)))\<rparr>"

lemma toy_ossl_ok: "cbc_inverse toy_ossl" "gcm_inverse toy_ossl" "digest_lengths toy_ossl"
  by (auto simp: cbc_inverse_def gcm_inverse_def digest_lengths_def toy_ossl_def o_def)

subsection \<open>RC4 with continuous state\<close>

record rc4_state =
  r_s :: "u8 list"
  r_i :: u8
  r_j :: u8
  r_ready :: bool

text \<open>\<open>memset(..., 0, ...)\<close> of the context.\<close>

definition rc4_zero :: rc4_state where
  "rc4_zero = \<lparr>r_s = replicate 256 0, r_i = 0, r_j = 0, r_ready = False\<rparr>"

definition swap_at :: "nat \<Rightarrow> nat \<Rightarrow> 'a list \<Rightarrow> 'a list" where
  "swap_at i j xs = xs[i := xs ! j, j := xs ! i]"

definition rc4_key_step :: "u8 list \<Rightarrow> nat \<Rightarrow> u8 list \<times> u8 \<Rightarrow> u8 list \<times> u8" where
  "rc4_key_step key i = (\<lambda>(s, j). let j' = j + s ! i + key ! (i mod length key) in (swap_at i (unat j') s, j'))"

definition rc4_schedule :: "u8 list \<Rightarrow> u8 list" where
  "rc4_schedule key = fst (fold (rc4_key_step key) [0..<256] (map of_nat [0..<256], 0))"

text \<open>\<open>key\<close> is the first \<open>key_len\<close> bytes of the buffer; \<open>None\<close> is a NULL key.\<close>

definition cccam_crypto_rc4_init :: "u8 list option \<Rightarrow> rc4_state \<Rightarrow> int \<times> rc4_state" where
  "cccam_crypto_rc4_init key st = (case key of
     None \<Rightarrow> (-1, st)
   | Some k \<Rightarrow> if length k = 0 \<or> length k > 256 then (-1, st)
       else (0, \<lparr>r_s = rc4_schedule k, r_i = 0, r_j = 0, r_ready = True\<rparr>))"

definition rc4_next :: "rc4_state \<Rightarrow> u8 \<times> rc4_state" where
  "rc4_next st =
     (let i = r_i st + 1;
          j = r_j st + r_s st ! unat i;
          s = swap_at (unat i) (unat j) (r_s st);
          k = s ! unat (s ! unat i + s ! unat j) in
      (k, st\<lparr>r_s := s, r_i := i, r_j := j\<rparr>))"

fun rc4_bytes :: "rc4_state \<Rightarrow> u8 list \<Rightarrow> u8 list \<times> rc4_state" where
  "rc4_bytes st [] = ([], st)"
| "rc4_bytes st (b # bs) =
     (let (k, st1) = rc4_next st; (out, st2) = rc4_bytes st1 bs in ((b XOR k) # out, st2))"

lemma rc4_bytes_Cons [simp]:
  "rc4_bytes st (b # bs) = ((b XOR fst (rc4_next st)) # fst (rc4_bytes (snd (rc4_next st)) bs),
     snd (rc4_bytes (snd (rc4_next st)) bs))"
  by (simp add: case_prod_beta Let_def)

declare rc4_bytes.simps(2) [simp del]

definition cccam_crypto_rc4_stream :: "rc4_state \<Rightarrow> u8 list \<Rightarrow> int \<times> u8 list \<times> rc4_state" where
  "cccam_crypto_rc4_stream st data =
     (if \<not> r_ready st then (-1, data, st) else let (out, st') = rc4_bytes st data in (0, out, st'))"

text \<open>The table stays a permutation of the 256 bytes: every index into it is in range.\<close>

definition rc4_perm :: "rc4_state \<Rightarrow> bool" where
  "rc4_perm st \<longleftrightarrow> length (r_s st) = 256 \<and> distinct (r_s st)"

lemma unat_u8_less [simp]: "unat (x :: u8) < 256"
  using unsigned_less [of x, where ?'a = nat] by simp

lemma length_swap_at [simp]: "length (swap_at i j xs) = length xs"
  by (simp add: swap_at_def)

lemma distinct_swap_at: "i < length xs \<Longrightarrow> j < length xs \<Longrightarrow> distinct (swap_at i j xs) = distinct xs"
  unfolding swap_at_def by (rule distinct_swap)

lemma rc4_schedule_perm: "length (rc4_schedule key) = 256 \<and> distinct (rc4_schedule key)"
proof -
  have step: "length (fst (fold (rc4_key_step key) is (s, j))) = 256 \<and> distinct (fst (fold (rc4_key_step key) is (s, j)))"
    if "length s = 256" "distinct s" "\<forall>i \<in> set is. i < 256" for "is" s j
    using that
    by (induction "is" arbitrary: s j) (auto simp: rc4_key_step_def Let_def distinct_swap_at split: prod.splits)
  have "inj_on (of_nat :: nat \<Rightarrow> u8) {0..<256}"
    by (auto simp: inj_on_def word_of_nat_eq_iff take_bit_eq_mod)
  then have "distinct (map (of_nat :: nat \<Rightarrow> u8) [0..<256])"
    by (simp add: distinct_map del: upt_rec_numeral)
  then show ?thesis
    unfolding rc4_schedule_def by (intro step) (simp_all del: upt_rec_numeral)
qed

lemma rc4_next_perm: "rc4_perm st \<Longrightarrow> rc4_perm (snd (rc4_next st))"
  by (simp add: rc4_perm_def rc4_next_def Let_def distinct_swap_at)

lemma rc4_bytes_perm: "rc4_perm st \<Longrightarrow> rc4_perm (snd (rc4_bytes st bs))"
  by (induction bs arbitrary: st) (auto dest: rc4_next_perm)

lemma length_rc4_bytes [simp]: "length (fst (rc4_bytes st bs)) = length bs"
  by (induction bs arbitrary: st) auto

lemma rc4_next_ready [simp]: "r_ready (snd (rc4_next st)) = r_ready st"
  by (simp add: rc4_next_def Let_def)

lemma rc4_bytes_ready [simp]: "r_ready (snd (rc4_bytes st bs)) = r_ready st"
  by (induction bs arbitrary: st) auto

text \<open>The state after a chunk depends on its length only, so both ends of a session stay in step.\<close>

lemma rc4_bytes_state: "length bs = length cs \<Longrightarrow> snd (rc4_bytes st bs) = snd (rc4_bytes st cs)"
  by (induction bs cs arbitrary: st rule: list_induct2) auto

lemma xor_cancel: "(b XOR k) XOR k = (b :: u8)"
  by (simp add: ac_simps)

lemma rc4_bytes_involution: "rc4_bytes st (fst (rc4_bytes st bs)) = (bs, snd (rc4_bytes st bs))"
  by (induction bs arbitrary: st) (auto simp: xor_cancel)

lemma rc4_bytes_append:
  "rc4_bytes st (a @ b) = (fst (rc4_bytes st a) @ fst (rc4_bytes (snd (rc4_bytes st a)) b),
     snd (rc4_bytes (snd (rc4_bytes st a)) b))"
  by (induction a arbitrary: st) auto

lemma rc4_stream_eq:
  "cccam_crypto_rc4_stream st data =
     (if r_ready st then (0, fst (rc4_bytes st data), snd (rc4_bytes st data)) else (-1, data, st))"
  by (simp add: cccam_crypto_rc4_stream_def case_prod_beta Let_def)

definition rc4_apply :: "rc4_state \<Rightarrow> u8 list \<Rightarrow> (rc4_state \<times> u8 list) option" where
  "rc4_apply st data =
     (case cccam_crypto_rc4_stream st data of (rc, out, st') \<Rightarrow> if rc = 0 then Some (st', out) else None)"

interpretation rc4: sync_cipher rc4_apply rc4_apply "(=)"
proof
  fix s r s' :: rc4_state and m c assume "s = r" "rc4_apply s m = Some (s', c)"
  then show "\<exists>r'. rc4_apply r c = Some (r', m) \<and> s' = r'"
    by (auto simp: rc4_apply_def rc4_stream_eq rc4_bytes_involution case_prod_beta split: if_splits)
qed

subsection \<open>CBC\<close>

definition evp_cbc ::
  "(bool \<Rightarrow> u8 list \<Rightarrow> u8 list \<Rightarrow> u8 list \<Rightarrow> u8 list option) \<Rightarrow> u8 list \<Rightarrow> u8 list \<Rightarrow> u8 list \<Rightarrow> nat \<Rightarrow> bool \<Rightarrow> u8 list option"
where
  "evp_cbc cipher data key iv iv_len encrypt =
     (if length data = 0 \<or> length data mod iv_len \<noteq> 0 then None else cipher encrypt key (take iv_len iv) data)"

definition cccam_crypto_aes_cbc :: "ossl \<Rightarrow> u8 list \<Rightarrow> u8 list \<Rightarrow> u8 list \<Rightarrow> bool \<Rightarrow> u8 list option" where
  "cccam_crypto_aes_cbc lib data key iv encrypt =
     (if length key = 16 \<or> length key = 24 \<or> length key = 32
      then evp_cbc (evp_aes_cbc lib) data key iv 16 encrypt else None)"

definition cccam_crypto_3des_cbc :: "ossl \<Rightarrow> u8 list \<Rightarrow> u8 list \<Rightarrow> u8 list \<Rightarrow> bool \<Rightarrow> u8 list option" where
  "cccam_crypto_3des_cbc lib data key iv encrypt = evp_cbc (evp_3des_cbc lib) data key iv 8 encrypt"

lemma cbc_decrypts:
  assumes "cbc_inverse lib"
  shows "cccam_crypto_aes_cbc lib d k iv True = Some c \<Longrightarrow> length c = length d \<and> cccam_crypto_aes_cbc lib c k iv False = Some d"
    and "cccam_crypto_3des_cbc lib d k iv True = Some c \<Longrightarrow> length c = length d \<and> cccam_crypto_3des_cbc lib c k iv False = Some d"
proof -
  have inv: "evp_aes_cbc lib True k v d = Some c \<Longrightarrow> length c = length d \<and> evp_aes_cbc lib False k v c = Some d"
    "evp_3des_cbc lib True k v d = Some c \<Longrightarrow> length c = length d \<and> evp_3des_cbc lib False k v c = Some d" for v
    using assms by (simp_all add: cbc_inverse_def)
  show "cccam_crypto_aes_cbc lib d k iv True = Some c \<Longrightarrow> length c = length d \<and> cccam_crypto_aes_cbc lib c k iv False = Some d"
    using inv(1) [of "take 16 iv"] by (auto simp: cccam_crypto_aes_cbc_def evp_cbc_def split: if_splits)
  show "cccam_crypto_3des_cbc lib d k iv True = Some c \<Longrightarrow> length c = length d \<and> cccam_crypto_3des_cbc lib c k iv False = Some d"
    using inv(2) [of "take 8 iv"] by (auto simp: cccam_crypto_3des_cbc_def evp_cbc_def split: if_splits)
qed

subsection \<open>GCM\<close>

text \<open>
  The four functions return the number of bytes written, or -1; here \<open>Some\<close> of what was written, or
  \<open>None\<close>. The functions without associated data run the same calls without the AAD update.
\<close>

definition gcm_key_ok :: "u8 list \<Rightarrow> bool" where
  "gcm_key_ok key \<longleftrightarrow> length key = 16 \<or> length key = 24 \<or> length key = 32"

definition cccam_crypto_aes_gcm_encrypt_aad ::
  "ossl \<Rightarrow> u8 list \<Rightarrow> u8 list \<Rightarrow> u8 list \<Rightarrow> u8 list \<Rightarrow> (u8 list \<times> u8 list) option" where
  "cccam_crypto_aes_gcm_encrypt_aad lib plaintext key iv aad =
     (if length iv \<noteq> 12 then None else if \<not> gcm_key_ok key then None
      else evp_gcm_seal lib key iv aad plaintext)"

definition cccam_crypto_aes_gcm_decrypt_aad ::
  "ossl \<Rightarrow> u8 list \<Rightarrow> u8 list \<Rightarrow> u8 list \<Rightarrow> u8 list \<Rightarrow> u8 list \<Rightarrow> u8 list option" where
  "cccam_crypto_aes_gcm_decrypt_aad lib ciphertext key iv aad tag =
     (if length iv \<noteq> 12 \<or> length tag \<noteq> 16 then None else if \<not> gcm_key_ok key then None
      else evp_gcm_open lib key iv aad ciphertext tag)"

definition cccam_crypto_aes_gcm_encrypt ::
  "ossl \<Rightarrow> u8 list \<Rightarrow> u8 list \<Rightarrow> u8 list \<Rightarrow> (u8 list \<times> u8 list) option" where
  "cccam_crypto_aes_gcm_encrypt lib plaintext key iv =
     (if length iv \<noteq> 12 then None else if \<not> gcm_key_ok key then None
      else evp_gcm_seal lib key iv [] plaintext)"

definition cccam_crypto_aes_gcm_decrypt ::
  "ossl \<Rightarrow> u8 list \<Rightarrow> u8 list \<Rightarrow> u8 list \<Rightarrow> u8 list \<Rightarrow> u8 list option" where
  "cccam_crypto_aes_gcm_decrypt lib ciphertext key iv tag =
     (if length iv \<noteq> 12 \<or> length tag \<noteq> 16 then None else if \<not> gcm_key_ok key then None
      else evp_gcm_open lib key iv [] ciphertext tag)"

definition cccam_crypto_derive_key :: "ossl \<Rightarrow> u8 list \<Rightarrow> u8 list \<Rightarrow> nat \<Rightarrow> nat \<Rightarrow> u8 list" where
  "cccam_crypto_derive_key lib password salt key_len iterations = ossl_pbkdf2 lib password salt iterations key_len"

lemma gcm_opens:
  assumes "gcm_inverse lib" and "cccam_crypto_aes_gcm_encrypt_aad lib d k iv aad = Some (c, t)"
  shows "length c = length d" and "length t = 16" and "cccam_crypto_aes_gcm_decrypt_aad lib c k iv aad t = Some d"
  using assms
  by (auto simp: cccam_crypto_aes_gcm_encrypt_aad_def cccam_crypto_aes_gcm_decrypt_aad_def gcm_inverse_def split: if_splits)

lemma gcm_opens_plain:
  assumes "gcm_inverse lib" and "cccam_crypto_aes_gcm_encrypt lib d k iv = Some (c, t)"
  shows "length c = length d" and "length t = 16" and "cccam_crypto_aes_gcm_decrypt lib c k iv t = Some d"
  using assms
  by (auto simp: cccam_crypto_aes_gcm_encrypt_def cccam_crypto_aes_gcm_decrypt_def gcm_inverse_def split: if_splits)

subsection \<open>Properties\<close>

text \<open>
  For every key of 1 to 256 bytes, the RC4 table is a permutation of the 256 byte values after
  the key schedule and after any amount of keystream, so every index the code computes from it is
  inside the table.
\<close>

theorem rc4_table_permutation:
  assumes "cccam_crypto_rc4_init (Some key) st0 = (0, st)"
    and "cccam_crypto_rc4_stream st data = (rc, out, st')"
  shows "length (r_s st') = 256 \<and> distinct (r_s st') \<and> set (r_s st') = UNIV \<and> length out = length data"
proof -
  have "rc4_perm st" "r_ready st"
    using assms(1) rc4_schedule_perm [of key]
    by (auto simp: cccam_crypto_rc4_init_def rc4_perm_def split: if_splits)
  moreover from this have "st' = snd (rc4_bytes st data)" "out = fst (rc4_bytes st data)"
    using assms(2) by (auto simp: rc4_stream_eq)
  ultimately have perm: "length (r_s st') = 256" "distinct (r_s st')" and out: "length out = length data"
    using rc4_bytes_perm [of st data] by (auto simp: rc4_perm_def)
  from perm have "card (set (r_s st')) = card (UNIV :: u8 set)"
    by (simp add: distinct_card card_word)
  then have "set (r_s st') = UNIV"
    by (intro card_subset_eq) auto
  with perm out show ?thesis by simp
qed

theorem rc4_table_permutation_witness:
  "\<exists>st out st'. cccam_crypto_rc4_init (Some [75, 101, 121]) rc4_zero = (0, st) \<and>
     cccam_crypto_rc4_stream st [1, 2] = (0, out, st') \<and> set (r_s st') = UNIV"
proof -
  obtain st where st: "cccam_crypto_rc4_init (Some [75, 101, 121]) rc4_zero = (0, st)" "r_ready st"
    by (auto simp: cccam_crypto_rc4_init_def)
  then obtain out st' where s: "cccam_crypto_rc4_stream st [1, 2] = (0, out, st')"
    by (auto simp: rc4_stream_eq)
  with rc4_table_permutation [OF st(1) s] st show ?thesis by blast
qed

text \<open>
  Two RC4 ends that start from the same key decrypt a whole session: any sequence of messages
  of any lengths, encrypted one after the other with the continuous keystream, decrypts message by
  message to what was sent, and the ends are in the same state afterwards.
\<close>

theorem rc4_session_decrypts:
  assumes "map_stream rc4_apply st ms = Some (st', cs)"
  shows "map_stream rc4_apply st cs = Some (st', ms)"
  using rc4.session [OF refl assms] by auto

theorem rc4_session_decrypts_witness:
  "\<exists>st st' cs. cccam_crypto_rc4_init (Some [1]) rc4_zero = (0, st) \<and>
     map_stream rc4_apply st [[1, 2], [], [3]] = Some (st', cs) \<and> map_stream rc4_apply st cs = Some (st', [[1, 2], [], [3]])"
proof -
  obtain st where st: "cccam_crypto_rc4_init (Some [1]) rc4_zero = (0, st)" "r_ready st"
    by (auto simp: cccam_crypto_rc4_init_def)
  have app: "\<exists>t c. rc4_apply s m = Some (t, c) \<and> r_ready t" if "r_ready s" for s m
    using that by (auto simp: rc4_apply_def rc4_stream_eq case_prod_beta)
  have "\<exists>st' cs. map_stream rc4_apply s ms = Some (st', cs)" if "r_ready s" for s ms
    using that
  proof (induction ms arbitrary: s)
    case (Cons m ms)
    from app [OF Cons.prems, of m] obtain t c where "rc4_apply s m = Some (t, c)" "r_ready t" by blast
    with Cons.IH [of t] show ?case by auto
  qed simp
  with st rc4_session_decrypts show ?thesis by blast
qed

text \<open>
  The keystream does not depend on how the data is cut into calls: encrypting \<open>a\<close> and then \<open>b\<close>
  gives the same bytes and the same final state as encrypting \<open>a @ b\<close> at once.
\<close>

theorem rc4_chunking:
  assumes "cccam_crypto_rc4_stream st a = (0, out_a, st1)" and "cccam_crypto_rc4_stream st1 b = (0, out_b, st2)"
  shows "cccam_crypto_rc4_stream st (a @ b) = (0, out_a @ out_b, st2)"
  using assms
  by (auto simp: rc4_stream_eq rc4_bytes_append split: if_splits)

theorem rc4_chunking_witness:
  "let st = snd (cccam_crypto_rc4_init (Some [7, 8]) rc4_zero);
       (rc1, o1, st1) = cccam_crypto_rc4_stream st [1]; (rc2, o2, st2) = cccam_crypto_rc4_stream st1 [2, 3] in
   cccam_crypto_rc4_stream st [1, 2, 3] = (0, o1 @ o2, st2)"
proof -
  let ?st = "snd (cccam_crypto_rc4_init (Some [7, 8]) rc4_zero)"
  have r: "r_ready ?st" by (simp add: cccam_crypto_rc4_init_def)
  obtain o1 st1 where s1: "cccam_crypto_rc4_stream ?st [1] = (0, o1, st1)" "r_ready st1"
    using r by (auto simp: rc4_stream_eq)
  then obtain o2 st2 where s2: "cccam_crypto_rc4_stream st1 [2, 3] = (0, o2, st2)"
    by (auto simp: rc4_stream_eq)
  with rc4_chunking [OF s1(1) s2] s1 show ?thesis by simp
qed

end
