(* ===== verification/Protocol.thy ===== *)
theory Protocol
  imports Crypto
begin

text \<open>
  The message layer, \<open>src/network/cccam3_protocol.c\<close>: the crypto context of a session, encryption and
  decryption of a payload, the parser and the five message builders. A context that the C passes by
  pointer is returned updated; a context pointer that may be NULL is an option. \<open>*len\<close> is the length
  of the list; the builders take the capacity of the caller's buffer and return \<open>None\<close> for -1.
\<close>

subsection \<open>Session contexts\<close>

definition MODE_NONE :: u8 where "MODE_NONE = 0x00"
definition MODE_RC4 :: u8 where "MODE_RC4 = 0x01"
definition MODE_AES :: u8 where "MODE_AES = 0x02"
definition MODE_3DES :: u8 where "MODE_3DES = 0x10"
definition MODE_AES_GCM :: u8 where "MODE_AES_GCM = 0x11"

lemmas mode_defs = MODE_NONE_def MODE_RC4_def MODE_AES_def MODE_3DES_def MODE_AES_GCM_def

lemma mode_distinct [simp]:
  "MODE_NONE \<noteq> MODE_RC4" "MODE_NONE \<noteq> MODE_AES" "MODE_NONE \<noteq> MODE_3DES" "MODE_NONE \<noteq> MODE_AES_GCM"
  "MODE_RC4 \<noteq> MODE_NONE" "MODE_RC4 \<noteq> MODE_AES" "MODE_RC4 \<noteq> MODE_3DES" "MODE_RC4 \<noteq> MODE_AES_GCM"
  "MODE_AES \<noteq> MODE_NONE" "MODE_AES \<noteq> MODE_RC4" "MODE_AES \<noteq> MODE_3DES" "MODE_AES \<noteq> MODE_AES_GCM"
  "MODE_3DES \<noteq> MODE_NONE" "MODE_3DES \<noteq> MODE_RC4" "MODE_3DES \<noteq> MODE_AES" "MODE_3DES \<noteq> MODE_AES_GCM"
  "MODE_AES_GCM \<noteq> MODE_NONE" "MODE_AES_GCM \<noteq> MODE_RC4" "MODE_AES_GCM \<noteq> MODE_AES" "MODE_AES_GCM \<noteq> MODE_3DES"
  by (simp_all add: mode_defs)

record crypto_ctx =
  cx_mode :: u8
  cx_key :: "u8 list"
  cx_key_len :: nat
  cx_tx :: u64
  cx_rx :: u64
  cx_rc4_tx :: rc4_state
  cx_rc4_rx :: rc4_state

text \<open>\<open>cccam_protocol_reset_crypto\<close>: \<open>memset\<close> to zero, then mode NONE.\<close>

definition cccam_protocol_reset_crypto :: crypto_ctx where
  "cccam_protocol_reset_crypto = \<lparr>cx_mode = MODE_NONE, cx_key = replicate 32 0, cx_key_len = 0, cx_tx = 0,
     cx_rx = 0, cx_rc4_tx = rc4_zero, cx_rc4_rx = rc4_zero\<rparr>"

text \<open>\<open>allowed\<close> is \<open>g_allowed_crypt_modes\<close>; 0 allows every mode.\<close>

definition crypt_mode_allowed :: "u32 \<Rightarrow> u8 \<Rightarrow> bool" where
  "crypt_mode_allowed allowed mode =
     (if allowed = 0 then True
      else if mode = MODE_NONE then True
      else if mode = MODE_RC4 then allowed AND 0x01 \<noteq> 0
      else if mode = MODE_AES then allowed AND 0x02 \<noteq> 0
      else if mode = MODE_3DES then allowed AND 0x04 \<noteq> 0
      else if mode = MODE_AES_GCM then allowed AND 0x10 \<noteq> 0
      else False)"

text \<open>\<open>key\<close> holds exactly \<open>key_len\<close> bytes; \<open>None\<close> is a NULL key.\<close>

definition cccam_protocol_set_crypto :: "u32 \<Rightarrow> u8 \<Rightarrow> u8 list option \<Rightarrow> crypto_ctx \<Rightarrow> int \<times> crypto_ctx" where
  "cccam_protocol_set_crypto allowed crypt_mode key cx =
     (if \<not> crypt_mode_allowed allowed crypt_mode then (-1, cx)
      else if crypt_mode = MODE_NONE then (0, cccam_protocol_reset_crypto)
      else
        let key_ok = (\<lambda>k. if crypt_mode = MODE_RC4 then length k \<noteq> 0 \<and> length k \<le> 32
              else if crypt_mode = MODE_AES \<or> crypt_mode = MODE_AES_GCM
              then length k = 16 \<or> length k = 24 \<or> length k = 32
              else if crypt_mode = MODE_3DES then length k = 24
              else False) in
        (case key of
           None \<Rightarrow> (-1, cx)
         | Some k \<Rightarrow> if \<not> key_ok k then (-1, cx)
             else (0, cccam_protocol_reset_crypto\<lparr>cx_mode := crypt_mode,
                        cx_key := k @ replicate (32 - length k) 0, cx_key_len := length k\<rparr>)))"

definition cx_key_bytes :: "crypto_ctx \<Rightarrow> u8 list" where
  "cx_key_bytes cx = take (cx_key_len cx) (cx_key cx)"

subsection \<open>Nonces and IVs\<close>

definition gcm_build_nonce :: "u32 \<Rightarrow> u64 \<Rightarrow> u8 list" where
  "gcm_build_nonce msg_id counter = be32 msg_id @ be64 counter"

definition gcm_build_aad :: "u32 \<Rightarrow> u8 list" where
  "gcm_build_aad msg_id = be32 msg_id"

definition cbc_build_iv :: "ossl \<Rightarrow> u32 \<Rightarrow> u64 \<Rightarrow> nat \<Rightarrow> u8 list" where
  "cbc_build_iv lib msg_id counter iv_len = take iv_len (ossl_sha256 lib (be32 msg_id @ be64 counter))"

lemma gcm_build_nonce_inject: "gcm_build_nonce m c = gcm_build_nonce m' c' \<longleftrightarrow> m = m' \<and> c = c'"
  unfolding gcm_build_nonce_def by (subst append_eq_append_conv) auto

subsection \<open>Encryption and decryption of a payload\<close>

text \<open>The lazy initialisation of a direction's RC4 state with the session key.\<close>

definition rc4_ready_or_init :: "crypto_ctx \<Rightarrow> rc4_state \<Rightarrow> rc4_state option" where
  "rc4_ready_or_init cx st =
     (if \<not> r_ready st
      then (case cccam_crypto_rc4_init (Some (cx_key_bytes cx)) st of (rc, st') \<Rightarrow> if rc \<noteq> 0 then None else Some st')
      else Some st)"

definition cccam_protocol_encrypt ::
  "ossl \<Rightarrow> nat \<Rightarrow> u32 \<Rightarrow> u8 list \<Rightarrow> crypto_ctx \<Rightarrow> (u8 list \<times> crypto_ctx) option" where
  "cccam_protocol_encrypt lib capacity msg_id data cx =
     (if length data = 0 then None
      else if cx_mode cx = MODE_NONE then Some (data, cx)
      else if cx_mode cx = MODE_RC4 then
        (case rc4_ready_or_init cx (cx_rc4_tx cx) of None \<Rightarrow> None
         | Some st \<Rightarrow> (case cccam_crypto_rc4_stream st data of (rc, out, st') \<Rightarrow>
             if rc \<noteq> 0 then None else Some (out, cx\<lparr>cx_rc4_tx := st'\<rparr>)))
      else if cx_mode cx = MODE_AES then
        (if length data mod 16 \<noteq> 0 then None
         else map_option (\<lambda>c. (c, cx\<lparr>cx_tx := cx_tx cx + 1\<rparr>))
           (cccam_crypto_aes_cbc lib data (cx_key_bytes cx) (cbc_build_iv lib msg_id (cx_tx cx) 16) True))
      else if cx_mode cx = MODE_3DES then
        (if length data mod 8 \<noteq> 0 then None
         else map_option (\<lambda>c. (c, cx\<lparr>cx_tx := cx_tx cx + 1\<rparr>))
           (cccam_crypto_3des_cbc lib data (take 24 (cx_key cx)) (cbc_build_iv lib msg_id (cx_tx cx) 8) True))
      else if cx_mode cx = MODE_AES_GCM then
        (if capacity < length data + 16 then None
         else map_option (\<lambda>(c, tag). (c @ tag, cx\<lparr>cx_tx := cx_tx cx + 1\<rparr>))
           (cccam_crypto_aes_gcm_encrypt_aad lib data (cx_key_bytes cx)
             (gcm_build_nonce msg_id (cx_tx cx)) (gcm_build_aad msg_id)))
      else None)"

definition cccam_protocol_decrypt ::
  "ossl \<Rightarrow> u32 \<Rightarrow> u8 list \<Rightarrow> crypto_ctx \<Rightarrow> (u8 list \<times> crypto_ctx) option" where
  "cccam_protocol_decrypt lib msg_id data cx =
     (if length data = 0 then None
      else if cx_mode cx = MODE_NONE then Some (data, cx)
      else if cx_mode cx = MODE_RC4 then
        (case rc4_ready_or_init cx (cx_rc4_rx cx) of None \<Rightarrow> None
         | Some st \<Rightarrow> (case cccam_crypto_rc4_stream st data of (rc, out, st') \<Rightarrow>
             if rc \<noteq> 0 then None else Some (out, cx\<lparr>cx_rc4_rx := st'\<rparr>)))
      else if cx_mode cx = MODE_AES then
        (if length data mod 16 \<noteq> 0 then None
         else map_option (\<lambda>d. (d, cx\<lparr>cx_rx := cx_rx cx + 1\<rparr>))
           (cccam_crypto_aes_cbc lib data (cx_key_bytes cx) (cbc_build_iv lib msg_id (cx_rx cx) 16) False))
      else if cx_mode cx = MODE_3DES then
        (if length data mod 8 \<noteq> 0 then None
         else map_option (\<lambda>d. (d, cx\<lparr>cx_rx := cx_rx cx + 1\<rparr>))
           (cccam_crypto_3des_cbc lib data (take 24 (cx_key cx)) (cbc_build_iv lib msg_id (cx_rx cx) 8) False))
      else if cx_mode cx = MODE_AES_GCM then
        (if length data < 16 then None
         else map_option (\<lambda>d. (d, cx\<lparr>cx_rx := cx_rx cx + 1\<rparr>))
           (cccam_crypto_aes_gcm_decrypt_aad lib (take (length data - 16) data) (cx_key_bytes cx)
             (gcm_build_nonce msg_id (cx_rx cx)) (gcm_build_aad msg_id) (drop (length data - 16) data)))
      else None)"

text \<open>
  Two ends are in step when the sender's direction state is the receiver's: same mode and key, equal
  counters, equal RC4 states. The library hypotheses are part of it.
\<close>

definition ctx_synced :: "ossl \<Rightarrow> crypto_ctx \<Rightarrow> crypto_ctx \<Rightarrow> bool" where
  "ctx_synced lib s r \<longleftrightarrow> cbc_inverse lib \<and> gcm_inverse lib \<and> cx_mode s = cx_mode r \<and> cx_key s = cx_key r \<and>
     cx_key_len s = cx_key_len r \<and> cx_tx s = cx_rx r \<and> cx_rc4_tx s = cx_rc4_rx r"

lemma rc4_ready_or_init_ready: "rc4_ready_or_init cx st = Some st' \<Longrightarrow> r_ready st'"
  by (auto simp: rc4_ready_or_init_def cccam_crypto_rc4_init_def split: if_splits prod.splits option.splits)

text \<open>What each mode amounts to.\<close>

lemma encrypt_mode:
  "cx_mode cx = MODE_NONE \<Longrightarrow> d \<noteq> [] \<Longrightarrow> cccam_protocol_encrypt lib cap m d cx = Some (d, cx)"
  "cx_mode cx = MODE_RC4 \<Longrightarrow> d \<noteq> [] \<Longrightarrow> cccam_protocol_encrypt lib cap m d cx =
     map_option (\<lambda>st. (fst (rc4_bytes st d), cx\<lparr>cx_rc4_tx := snd (rc4_bytes st d)\<rparr>)) (rc4_ready_or_init cx (cx_rc4_tx cx))"
  "cx_mode cx = MODE_AES \<Longrightarrow> d \<noteq> [] \<Longrightarrow> cccam_protocol_encrypt lib cap m d cx =
     (if length d mod 16 \<noteq> 0 then None
      else map_option (\<lambda>c. (c, cx\<lparr>cx_tx := cx_tx cx + 1\<rparr>))
        (cccam_crypto_aes_cbc lib d (cx_key_bytes cx) (cbc_build_iv lib m (cx_tx cx) 16) True))"
  "cx_mode cx = MODE_3DES \<Longrightarrow> d \<noteq> [] \<Longrightarrow> cccam_protocol_encrypt lib cap m d cx =
     (if length d mod 8 \<noteq> 0 then None
      else map_option (\<lambda>c. (c, cx\<lparr>cx_tx := cx_tx cx + 1\<rparr>))
        (cccam_crypto_3des_cbc lib d (take 24 (cx_key cx)) (cbc_build_iv lib m (cx_tx cx) 8) True))"
  "cx_mode cx = MODE_AES_GCM \<Longrightarrow> d \<noteq> [] \<Longrightarrow> cccam_protocol_encrypt lib cap m d cx =
     (if cap < length d + 16 then None
      else map_option (\<lambda>(c, tag). (c @ tag, cx\<lparr>cx_tx := cx_tx cx + 1\<rparr>))
        (cccam_crypto_aes_gcm_encrypt_aad lib d (cx_key_bytes cx) (gcm_build_nonce m (cx_tx cx)) (gcm_build_aad m)))"
  by (auto simp: cccam_protocol_encrypt_def rc4_stream_eq case_prod_beta split: option.splits dest: rc4_ready_or_init_ready)

lemma decrypt_mode:
  "cx_mode cx = MODE_NONE \<Longrightarrow> d \<noteq> [] \<Longrightarrow> cccam_protocol_decrypt lib m d cx = Some (d, cx)"
  "cx_mode cx = MODE_RC4 \<Longrightarrow> d \<noteq> [] \<Longrightarrow> cccam_protocol_decrypt lib m d cx =
     map_option (\<lambda>st. (fst (rc4_bytes st d), cx\<lparr>cx_rc4_rx := snd (rc4_bytes st d)\<rparr>)) (rc4_ready_or_init cx (cx_rc4_rx cx))"
  "cx_mode cx = MODE_AES \<Longrightarrow> d \<noteq> [] \<Longrightarrow> cccam_protocol_decrypt lib m d cx =
     (if length d mod 16 \<noteq> 0 then None
      else map_option (\<lambda>c. (c, cx\<lparr>cx_rx := cx_rx cx + 1\<rparr>))
        (cccam_crypto_aes_cbc lib d (cx_key_bytes cx) (cbc_build_iv lib m (cx_rx cx) 16) False))"
  "cx_mode cx = MODE_3DES \<Longrightarrow> d \<noteq> [] \<Longrightarrow> cccam_protocol_decrypt lib m d cx =
     (if length d mod 8 \<noteq> 0 then None
      else map_option (\<lambda>c. (c, cx\<lparr>cx_rx := cx_rx cx + 1\<rparr>))
        (cccam_crypto_3des_cbc lib d (take 24 (cx_key cx)) (cbc_build_iv lib m (cx_rx cx) 8) False))"
  "cx_mode cx = MODE_AES_GCM \<Longrightarrow> d \<noteq> [] \<Longrightarrow> cccam_protocol_decrypt lib m d cx =
     (if length d < 16 then None
      else map_option (\<lambda>p. (p, cx\<lparr>cx_rx := cx_rx cx + 1\<rparr>))
        (cccam_crypto_aes_gcm_decrypt_aad lib (take (length d - 16) d) (cx_key_bytes cx)
          (gcm_build_nonce m (cx_rx cx)) (gcm_build_aad m) (drop (length d - 16) d)))"
  by (auto simp: cccam_protocol_decrypt_def rc4_stream_eq case_prod_beta split: option.splits dest: rc4_ready_or_init_ready)

lemma encrypt_mode_cases:
  assumes "cccam_protocol_encrypt lib cap m d cx = Some res"
  obtains "d \<noteq> []" "cx_mode cx = MODE_NONE" | "d \<noteq> []" "cx_mode cx = MODE_RC4" | "d \<noteq> []" "cx_mode cx = MODE_AES"
    | "d \<noteq> []" "cx_mode cx = MODE_3DES" | "d \<noteq> []" "cx_mode cx = MODE_AES_GCM"
proof -
  have "d = [] \<Longrightarrow> cccam_protocol_encrypt lib cap m d cx = None"
    by (simp add: cccam_protocol_encrypt_def)
  moreover have "cx_mode cx \<notin> {MODE_NONE, MODE_RC4, MODE_AES, MODE_3DES, MODE_AES_GCM} \<Longrightarrow>
    cccam_protocol_encrypt lib cap m d cx = None"
    by (simp add: cccam_protocol_encrypt_def)
  ultimately show ?thesis using assms that by fastforce
qed

lemma protocol_decrypts:
  assumes sync: "ctx_synced lib s r" and enc: "cccam_protocol_encrypt lib cap m d s = Some (c, s')"
  shows "\<exists>r'. cccam_protocol_decrypt lib m c r = Some (d, r') \<and> ctx_synced lib s' r'"
proof -
  have key: "cx_key_bytes s = cx_key_bytes r" and mode: "cx_mode r = cx_mode s"
    and cbc: "cbc_inverse lib" and gcm: "gcm_inverse lib"
    using sync by (simp_all add: ctx_synced_def cx_key_bytes_def)
  from enc show ?thesis
  proof (cases rule: encrypt_mode_cases)
    case 1
    with sync enc mode show ?thesis by (simp add: encrypt_mode decrypt_mode)
  next
    case 2
    with enc obtain st where st: "rc4_ready_or_init s (cx_rc4_tx s) = Some st"
      and c: "c = fst (rc4_bytes st d)" and s': "s' = s\<lparr>cx_rc4_tx := snd (rc4_bytes st d)\<rparr>"
      by (auto simp: encrypt_mode)
    from c 2 have "c \<noteq> []" by (metis length_0_conv length_rc4_bytes)
    moreover have "rc4_ready_or_init r (cx_rc4_rx r) = rc4_ready_or_init s (cx_rc4_tx s)"
      using sync unfolding rc4_ready_or_init_def key by (simp add: ctx_synced_def)
    ultimately show ?thesis
      using 2 mode sync st by (simp add: decrypt_mode c s' rc4_bytes_involution ctx_synced_def)
  next
    case 3
    with enc have c: "cccam_crypto_aes_cbc lib d (cx_key_bytes s) (cbc_build_iv lib m (cx_tx s) 16) True = Some c"
      and s': "s' = s\<lparr>cx_tx := cx_tx s + 1\<rparr>" and "length d mod 16 = 0"
      by (auto simp: encrypt_mode split: if_splits)
    with cbc_decrypts(1) [OF cbc c] 3 have "c \<noteq> []" "length c mod 16 = 0"
      "cccam_crypto_aes_cbc lib c (cx_key_bytes r) (cbc_build_iv lib m (cx_rx r) 16) False = Some d"
      using sync by (auto simp: key ctx_synced_def)
    with 3 mode sync show ?thesis by (simp add: decrypt_mode s' ctx_synced_def)
  next
    case 4
    with enc have c: "cccam_crypto_3des_cbc lib d (take 24 (cx_key s)) (cbc_build_iv lib m (cx_tx s) 8) True = Some c"
      and s': "s' = s\<lparr>cx_tx := cx_tx s + 1\<rparr>" and "length d mod 8 = 0"
      by (auto simp: encrypt_mode split: if_splits)
    with cbc_decrypts(2) [OF cbc c] 4 have "c \<noteq> []" "length c mod 8 = 0"
      "cccam_crypto_3des_cbc lib c (take 24 (cx_key r)) (cbc_build_iv lib m (cx_rx r) 8) False = Some d"
      using sync by (auto simp: ctx_synced_def)
    with 4 mode sync show ?thesis by (simp add: decrypt_mode s' ctx_synced_def)
  next
    case 5
    with enc obtain c0 t where c: "cccam_crypto_aes_gcm_encrypt_aad lib d (cx_key_bytes s)
        (gcm_build_nonce m (cx_tx s)) (gcm_build_aad m) = Some (c0, t)"
      and s': "s' = s\<lparr>cx_tx := cx_tx s + 1\<rparr>" "c = c0 @ t"
      by (auto simp: encrypt_mode split: if_splits)
    from gcm_opens [OF gcm c] s' 5 have "c \<noteq> []" "length c - 16 = length c0" "\<not> length c < 16"
      "cccam_crypto_aes_gcm_decrypt_aad lib c0 (cx_key_bytes r) (gcm_build_nonce m (cx_rx r)) (gcm_build_aad m) t = Some d"
      using sync by (auto simp: key ctx_synced_def)
    with 5 mode sync show ?thesis by (simp add: decrypt_mode s' ctx_synced_def)
  qed
qed

text \<open>A payload travels with its message id, which is in the clear header.\<close>

definition payload_send :: "ossl \<Rightarrow> crypto_ctx \<Rightarrow> u32 \<times> u8 list \<Rightarrow> (crypto_ctx \<times> (u32 \<times> u8 list)) option" where
  "payload_send lib cx = (\<lambda>(m, d). map_option (\<lambda>(c, cx'). (cx', (m, c))) (cccam_protocol_encrypt lib (length d + 16) m d cx))"

definition payload_receive :: "ossl \<Rightarrow> crypto_ctx \<Rightarrow> u32 \<times> u8 list \<Rightarrow> (crypto_ctx \<times> (u32 \<times> u8 list)) option" where
  "payload_receive lib cx = (\<lambda>(m, c). map_option (\<lambda>(d, cx'). (cx', (m, d))) (cccam_protocol_decrypt lib m c cx))"

interpretation payload: sync_cipher "payload_send lib" "payload_receive lib" "ctx_synced lib" for lib :: ossl
proof
  fix s r s' m c assume sync: "ctx_synced lib s r" and send: "payload_send lib s m = Some (s', c)"
  from send obtain e where "cccam_protocol_encrypt lib (length (snd m) + 16) (fst m) (snd m) s = Some (e, s')"
    and "c = (fst m, e)"
    by (auto simp: payload_send_def case_prod_beta)
  with protocol_decrypts [OF sync this(1)]
  show "\<exists>r'. payload_receive lib r c = Some (r', m) \<and> ctx_synced lib s' r'"
    by (auto simp: payload_receive_def)
qed

subsection \<open>Parsing\<close>

record msg_header =
  mh_msg_id :: u32
  mh_msg_len :: u32
  mh_flags :: u8
  mh_crypt_mode :: u8
  mh_reserved :: u16

definition HEADER_SIZE :: nat where "HEADER_SIZE = 12"
definition BUFFER_SIZE :: nat where "BUFFER_SIZE = 4096"

definition read_be16 :: "u8 list \<Rightarrow> nat \<Rightarrow> u16" where
  "read_be16 buf i = of_be16 (buf ! i) (buf ! (i + 1))"

definition read_be32 :: "u8 list \<Rightarrow> nat \<Rightarrow> u32" where
  "read_be32 buf i = of_be32 (buf ! i) (buf ! (i + 1)) (buf ! (i + 2)) (buf ! (i + 3))"

definition read_header :: "u8 list \<Rightarrow> msg_header" where
  "read_header buf = \<lparr>mh_msg_id = read_be32 buf 0, mh_msg_len = read_be32 buf 4, mh_flags = buf ! 8,
     mh_crypt_mode = buf ! 9, mh_reserved = read_be16 buf 10\<rparr>"

text \<open>
  \<open>Some (header, payload, ctx)\<close> is return code 0; the payload is \<open>None\<close> where the code stores NULL.
  \<open>mem\<close> is the outcome of the \<open>malloc\<close> of the payload. The code ignores the header's crypt mode and
  decrypts by the session's mode.
\<close>

definition cccam_protocol_parse ::
  "ossl \<Rightarrow> bool \<Rightarrow> u8 list \<Rightarrow> crypto_ctx option \<Rightarrow> (msg_header \<times> u8 list option \<times> crypto_ctx option) option" where
  "cccam_protocol_parse lib mem buf cx =
     (if length buf < HEADER_SIZE then None
      else
        let h = read_header buf; msg_len = unat (mh_msg_len h) in
        if msg_len < HEADER_SIZE then None
        else if msg_len > BUFFER_SIZE \<or> msg_len > length buf then None
        else if msg_len - HEADER_SIZE > 0 then
          (if \<not> mem then None
           else
             let payload = take (msg_len - HEADER_SIZE) (drop HEADER_SIZE buf) in
             (case cx of
                None \<Rightarrow> Some (h, Some payload, None)
              | Some c \<Rightarrow>
                  if cx_mode c \<noteq> MODE_NONE
                  then (case cccam_protocol_decrypt lib (mh_msg_id h) payload c of
                          None \<Rightarrow> None
                        | Some (d, c') \<Rightarrow> Some (h, Some d, Some c'))
                  else Some (h, Some payload, cx)))
        else Some (h, None, cx))"

subsection \<open>Message builders\<close>

definition MSG_LOGIN :: u32 where "MSG_LOGIN = 0x01"
definition MSG_LOGIN_ACK :: u32 where "MSG_LOGIN_ACK = 0x02"
definition MSG_ECM :: u32 where "MSG_ECM = 0x03"
definition MSG_CW :: u32 where "MSG_CW = 0x04"
definition MSG_EMM :: u32 where "MSG_EMM = 0x05"
definition MSG_KEEPALIVE :: u32 where "MSG_KEEPALIVE = 0x06"

text \<open>The header that every builder writes: id, total length, flags 0, mode, reserved 0.\<close>

definition write_header :: "u32 \<Rightarrow> nat \<Rightarrow> u8 \<Rightarrow> u8 list" where
  "write_header msg_id total_len mode = be32 msg_id @ be32 (of_nat total_len) @ [0, mode] @ be16 0"

definition cccam_protocol_build_login ::
  "nat \<Rightarrow> string \<Rightarrow> string \<Rightarrow> u32 \<Rightarrow> u8 list \<Rightarrow> u8 list option" where
  "cccam_protocol_build_login buf_len username password version handshake =
     (let user_len = length username; pass_len = length password in
      if user_len = 0 \<or> pass_len = 0 \<or> user_len > 63 \<or> pass_len > 63 then None
      else
        let total_len = HEADER_SIZE + 16 + user_len + 1 + pass_len + 1 + 4 in
        if buf_len < total_len \<or> total_len > BUFFER_SIZE then None
        else Some (write_header MSG_LOGIN total_len MODE_NONE @ take 16 handshake @
               to_bytes username @ [0] @ to_bytes password @ [0] @ be32 version))"

definition cccam_protocol_build_login_ack :: "nat \<Rightarrow> u8 list \<Rightarrow> u8 list option" where
  "cccam_protocol_build_login_ack buf_len handshake =
     (if length handshake = 0 then None
      else
        let total_len = HEADER_SIZE + length handshake in
        if buf_len < total_len \<or> total_len > BUFFER_SIZE then None
        else Some (write_header MSG_LOGIN_ACK total_len MODE_NONE @ handshake))"

text \<open>
  The common shape of the three encrypted builders: \<open>total_len\<close> already includes the GCM tag, and the
  encryption gets \<open>total_len - HEADER_SIZE\<close> both as the length of the payload and as the capacity. In
  GCM mode the 16 bytes after the body are whatever the caller's buffer holds; \<open>junk\<close> stands for them.
\<close>

definition seal_message ::
  "ossl \<Rightarrow> nat \<Rightarrow> u8 list \<Rightarrow> u32 \<Rightarrow> u8 list \<Rightarrow> crypto_ctx option \<Rightarrow> (u8 list \<times> crypto_ctx option) option" where
  "seal_message lib buf_len junk msg_id body cx =
     (let crypt_mode = (case cx of None \<Rightarrow> MODE_NONE | Some c \<Rightarrow> cx_mode c);
          total_len = HEADER_SIZE + length body + (if crypt_mode = MODE_AES_GCM then 16 else 0) in
      if buf_len < total_len \<or> total_len > BUFFER_SIZE then None
      else
        let header = write_header msg_id total_len crypt_mode;
            payload = body @ (if crypt_mode = MODE_AES_GCM then take 16 (junk @ replicate 16 0) else []) in
        (case cx of
           None \<Rightarrow> Some (header @ payload, None)
         | Some c \<Rightarrow>
             if crypt_mode \<noteq> MODE_NONE
             then (case cccam_protocol_encrypt lib (total_len - HEADER_SIZE) msg_id payload c of
                     None \<Rightarrow> None
                   | Some (out, c') \<Rightarrow> Some (take total_len (header @ out), Some c'))
             else Some (header @ payload, cx)))"

definition cccam_protocol_build_ecm ::
  "ossl \<Rightarrow> nat \<Rightarrow> u8 list \<Rightarrow> u16 \<Rightarrow> u16 \<Rightarrow> u16 \<Rightarrow> u8 list \<Rightarrow> crypto_ctx option \<Rightarrow> (u8 list \<times> crypto_ctx option) option"
where
  "cccam_protocol_build_ecm lib buf_len junk caid provid sid ecm_data cx =
     seal_message lib buf_len junk MSG_ECM (be16 caid @ be16 provid @ be16 sid @ ecm_data) cx"

definition cccam_protocol_build_emm ::
  "ossl \<Rightarrow> nat \<Rightarrow> u8 list \<Rightarrow> u16 \<Rightarrow> u16 \<Rightarrow> u8 list \<Rightarrow> crypto_ctx option \<Rightarrow> (u8 list \<times> crypto_ctx option) option"
where
  "cccam_protocol_build_emm lib buf_len junk caid provid emm_data cx =
     seal_message lib buf_len junk MSG_EMM (be16 caid @ be16 provid @ emm_data) cx"

record cw_msg =
  cw_ecm_time :: u32
  cw_cw :: "u8 list"
  cw_hop :: u8
  cw_caid :: u16
  cw_provid :: u16
  cw_sid :: u16

definition cw_body :: "cw_msg \<Rightarrow> u8 list" where
  "cw_body m = be32 (cw_ecm_time m) @ take 16 (cw_cw m) @ [cw_hop m] @ be16 (cw_caid m) @ be16 (cw_provid m) @ be16 (cw_sid m)"

definition cccam_protocol_build_cw ::
  "ossl \<Rightarrow> nat \<Rightarrow> u8 list \<Rightarrow> cw_msg \<Rightarrow> crypto_ctx option \<Rightarrow> (u8 list \<times> crypto_ctx option) option" where
  "cccam_protocol_build_cw lib buf_len junk m cx = seal_message lib buf_len junk MSG_CW (cw_body m) cx"

subsection \<open>Building then parsing\<close>

lemma length_write_header [simp]: "length (write_header i n m) = 12"
  by (simp add: write_header_def)

lemma read_write_header:
  "read_header (write_header i n m @ rest)
    = \<lparr>mh_msg_id = i, mh_msg_len = of_nat n, mh_flags = 0, mh_crypt_mode = m, mh_reserved = 0\<rparr>"
proof -
  have b: "write_header i n m @ rest = [ucast (drop_bit 24 i), ucast (drop_bit 16 i), ucast (drop_bit 8 i), ucast i,
      ucast (drop_bit 24 (of_nat n :: u32)), ucast (drop_bit 16 (of_nat n :: u32)),
      ucast (drop_bit 8 (of_nat n :: u32)), ucast (of_nat n :: u32), 0, m,
      ucast (drop_bit 8 (0 :: u16)), ucast (0 :: u16)] @ rest"
    by (simp add: write_header_def be32_def be16_def)
  show ?thesis
    unfolding b by (simp add: read_header_def read_be32_def read_be16_def nth_Cons_numeral
        of_be16_be16 [of 0, simplified])
qed

lemma unat_small [simp]: "n \<le> BUFFER_SIZE \<Longrightarrow> unat (of_nat n :: u32) = n"
  by (simp add: BUFFER_SIZE_def unsigned_of_nat take_bit_nat_eq_self)

lemma unat_small_sum [simp]: "12 + n \<le> BUFFER_SIZE \<Longrightarrow> unat (12 + of_nat n :: u32) = 12 + n"
  using unat_small [of "12 + n"] by simp

lemma parse_written:
  assumes "n = 12 + length p" and "n \<le> BUFFER_SIZE" and "p \<noteq> []"
  shows "cccam_protocol_parse lib True (write_header i n m @ p @ rest) (Some cx) =
    (let h = \<lparr>mh_msg_id = i, mh_msg_len = of_nat n, mh_flags = 0, mh_crypt_mode = m, mh_reserved = 0\<rparr> in
     if cx_mode cx \<noteq> MODE_NONE
     then (case cccam_protocol_decrypt lib i p cx of None \<Rightarrow> None | Some (d, c') \<Rightarrow> Some (h, Some d, Some c'))
     else Some (h, Some p, Some cx))"
  using assms by (simp add: cccam_protocol_parse_def HEADER_SIZE_def read_write_header Let_def split: option.splits)

lemma length_encrypt:
  assumes "ctx_synced lib s r" "cccam_protocol_encrypt lib cap m d s = Some (c, s')" and "cx_mode s \<noteq> MODE_AES_GCM"
  shows "length c = length d"
proof -
  have cbc: "cbc_inverse lib" using assms(1) by (simp add: ctx_synced_def)
  from assms(2) show ?thesis
    by (cases rule: encrypt_mode_cases)
      (use assms(2,3) in \<open>auto simp: encrypt_mode cbc_decrypts [OF cbc] split: if_splits\<close>)
qed

lemma seal_then_parse:
  assumes sync: "ctx_synced lib s r" and "body \<noteq> []"
    and seal: "seal_message lib cap junk i body (Some s) = Some (msg, cx')" and mode: "cx_mode s \<noteq> MODE_AES_GCM"
  shows "\<exists>s' h r'. cx' = Some s' \<and> cccam_protocol_parse lib True (msg @ rest) (Some r) = Some (h, Some body, Some r') \<and>
    mh_msg_id h = i \<and> unat (mh_msg_len h) = length msg \<and> ctx_synced lib s' r'"
proof (cases "cx_mode s = MODE_NONE")
  case True
  with sync have "cx_mode r = MODE_NONE" by (simp add: ctx_synced_def)
  with True seal sync \<open>body \<noteq> []\<close> show ?thesis
    by (auto simp: seal_message_def HEADER_SIZE_def Let_def parse_written split: if_splits)
next
  case False
  with sync have r: "cx_mode r \<noteq> MODE_NONE" by (simp add: ctx_synced_def)
  from seal mode False obtain out s' where n: "12 + length body \<le> BUFFER_SIZE"
    and enc: "cccam_protocol_encrypt lib (length body) i body s = Some (out, s')" and cx': "cx' = Some s'"
    and msg: "msg = take (12 + length body) (write_header i (12 + length body) (cx_mode s) @ out)"
    by (auto simp: seal_message_def HEADER_SIZE_def Let_def split: if_splits option.splits)
  have len: "length out = length body" by (rule length_encrypt [OF sync enc mode])
  with msg have msg: "msg = write_header i (12 + length body) (cx_mode s) @ out" by simp
  from protocol_decrypts [OF sync enc] obtain r' where
    "cccam_protocol_decrypt lib i out r = Some (body, r')" "ctx_synced lib s' r'" by blast
  moreover have "out \<noteq> []" using len \<open>body \<noteq> []\<close> by auto
  ultimately show ?thesis
    using parse_written [of "12 + length body" out lib i "cx_mode s" rest r] n len r
    by (simp add: msg cx' Let_def)
qed

lemma seal_gcm_fails:
  assumes "cx_mode c = MODE_AES_GCM" and "length body > 0"
  shows "seal_message lib cap junk i body (Some c) = None"
proof -
  let ?p = "body @ take 16 (junk @ replicate 16 0)"
  have "cccam_protocol_encrypt lib (12 + length body + 16 - 12) i ?p c = None"
    using assms by (subst encrypt_mode(5)) auto
  with assms(1) show ?thesis
    unfolding seal_message_def HEADER_SIZE_def Let_def by (simp only: option.case if_True) simp
qed

lemma length_cw_body [simp]: "length (cw_body m) = 11 + min 16 (length (cw_cw m))"
  by (simp add: cw_body_def)

subsection \<open>Both directions of a session\<close>

text \<open>
  A run of messages between two ends, each step in one direction; what the receiving end got is
  \<open>Some\<close> message, or \<open>None\<close> where it rejected it. The run is \<open>None\<close> when a send fails.
\<close>

fun duplex_run ::
  "ossl \<Rightarrow> (bool \<times> u32 \<times> u8 list) list \<Rightarrow> crypto_ctx \<Rightarrow> crypto_ctx \<Rightarrow> (u32 \<times> u8 list) option list option" where
  "duplex_run lib [] a b = Some []"
| "duplex_run lib ((d, m) # ms) a b =
     (case payload_send lib (if d then a else b) m of
        None \<Rightarrow> None
      | Some (snd', c) \<Rightarrow>
          (case payload_receive lib (if d then b else a) c of
             None \<Rightarrow> map_option ((#) None) (duplex_run lib ms (if d then snd' else a) (if d then b else snd'))
           | Some (rcv', m') \<Rightarrow>
               map_option ((#) (Some m')) (duplex_run lib ms (if d then snd' else rcv') (if d then rcv' else snd'))))"

lemma encrypt_frame:
  assumes "cccam_protocol_encrypt lib cap m d s = Some (c, s')"
  shows "cx_mode s' = cx_mode s" "cx_key s' = cx_key s" "cx_key_len s' = cx_key_len s" "cx_rx s' = cx_rx s"
    "cx_rc4_rx s' = cx_rc4_rx s"
  using assms
  by (auto simp: cccam_protocol_encrypt_def split: if_splits option.splits prod.splits)

lemma decrypt_frame:
  assumes "cccam_protocol_decrypt lib m c r = Some (d, r')"
  shows "cx_mode r' = cx_mode r" "cx_key r' = cx_key r" "cx_key_len r' = cx_key_len r" "cx_tx r' = cx_tx r"
    "cx_rc4_tx r' = cx_rc4_tx r"
  using assms
  by (auto simp: cccam_protocol_decrypt_def split: if_splits option.splits prod.splits)

lemma duplex_step:
  assumes "ctx_synced lib a b" and "ctx_synced lib b a" and "payload_send lib a m = Some (a', c)"
  shows "\<exists>b'. payload_receive lib b c = Some (b', m) \<and> ctx_synced lib a' b' \<and> ctx_synced lib b' a'"
proof -
  from payload.in_step [OF assms(1,3)] obtain b' where b': "payload_receive lib b c = Some (b', m)" "ctx_synced lib a' b'"
    by blast
  have "cx_mode a' = cx_mode a \<and> cx_key a' = cx_key a \<and> cx_key_len a' = cx_key_len a \<and> cx_rx a' = cx_rx a \<and> cx_rc4_rx a' = cx_rc4_rx a"
    using assms(3) by (auto simp: payload_send_def case_prod_beta encrypt_frame dest: encrypt_frame)
  moreover have "cx_mode b' = cx_mode b \<and> cx_key b' = cx_key b \<and> cx_key_len b' = cx_key_len b \<and> cx_tx b' = cx_tx b \<and> cx_rc4_tx b' = cx_rc4_tx b"
    using b'(1) by (auto simp: payload_receive_def case_prod_beta dest: decrypt_frame)
  ultimately have "ctx_synced lib b' a'"
    using assms(2) b'(2) by (simp add: ctx_synced_def)
  with b' show ?thesis by blast
qed

lemma duplex_received:
  assumes "ctx_synced lib a b" and "ctx_synced lib b a" and "duplex_run lib ms a b = Some got"
  shows "got = map (Some \<circ> snd) ms"
  using assms
proof (induction ms arbitrary: a b got)
  case (Cons x ms)
  obtain d m where x: "x = (d, m)" by (metis surj_pair)
  from Cons.prems(3) x obtain t c where send: "payload_send lib (if d then a else b) m = Some (t, c)"
    by (auto split: option.splits)
  have "ctx_synced lib (if d then a else b) (if d then b else a)" "ctx_synced lib (if d then b else a) (if d then a else b)"
    using Cons.prems by auto
  from duplex_step [OF this send] obtain u where
    "payload_receive lib (if d then b else a) c = Some (u, m)" "ctx_synced lib t u" "ctx_synced lib u t" by blast
  with Cons.prems(3) Cons.IH x send show ?case by (cases d) auto
qed simp

lemma set_crypto_synced:
  assumes "cbc_inverse lib" "gcm_inverse lib"
    and "cccam_protocol_set_crypto al mode key cx = (0, a)" and "cccam_protocol_set_crypto al' mode key cx' = (0, b)"
  shows "ctx_synced lib a b"
proof (cases key)
  case None
  with assms show ?thesis
    by (auto simp: cccam_protocol_set_crypto_def ctx_synced_def cccam_protocol_reset_crypto_def Let_def split: if_splits)
next
  case (Some k)
  with assms show ?thesis
    by (auto simp: cccam_protocol_set_crypto_def ctx_synced_def cccam_protocol_reset_crypto_def Let_def split: if_splits)
qed

subsection \<open>Nonces of a session\<close>

text \<open>The nonces that the successful GCM encryptions of one end use.\<close>

fun nonce_trace :: "ossl \<Rightarrow> crypto_ctx \<Rightarrow> (u32 \<times> u8 list) list \<Rightarrow> u8 list list" where
  "nonce_trace lib cx [] = []"
| "nonce_trace lib cx ((m, d) # ms) =
     (case cccam_protocol_encrypt lib (length d + 16) m d cx of
        None \<Rightarrow> nonce_trace lib cx ms
      | Some (c, cx') \<Rightarrow> gcm_build_nonce m (cx_tx cx) # nonce_trace lib cx' ms)"

lemma nonce_trace_ids:
  assumes "cx_mode cx = MODE_AES_GCM"
  shows "\<exists>ids. nonce_trace lib cx ms = map (\<lambda>k. gcm_build_nonce (ids ! k) (cx_tx cx + of_nat k)) [0..<length ids] \<and>
    length ids \<le> length ms \<and> set ids \<subseteq> fst ` set ms"
  using assms
proof (induction ms arbitrary: cx)
  case Nil
  show ?case by (rule exI [of _ "[]"]) simp
next
  case (Cons x ms)
  obtain m d where x: "x = (m, d)" by fastforce
  show ?case
  proof (cases "cccam_protocol_encrypt lib (length d + 16) m d cx")
    case None
    from Cons.IH [OF Cons.prems] obtain ids where
      "nonce_trace lib cx ms = map (\<lambda>k. gcm_build_nonce (ids ! k) (cx_tx cx + of_nat k)) [0..<length ids]"
      "length ids \<le> length ms" "set ids \<subseteq> fst ` set ms" by blast
    with None x show ?thesis by (intro exI [of _ ids]) auto
  next
    case (Some p)
    then obtain c cx' where p: "p = (c, cx')" by fastforce
    from Some p Cons.prems have cx': "cx_mode cx' = MODE_AES_GCM" "cx_tx cx' = cx_tx cx + 1"
      by (auto simp: cccam_protocol_encrypt_def split: if_splits)
    from Cons.IH [OF cx'(1)] obtain ids where
      ids: "nonce_trace lib cx' ms = map (\<lambda>k. gcm_build_nonce (ids ! k) (cx_tx cx' + of_nat k)) [0..<length ids]"
      "length ids \<le> length ms" "set ids \<subseteq> fst ` set ms" by blast
    have "[0..<Suc (length ids)] = 0 # map Suc [0..<length ids]"
      by (simp add: upt_conv_Cons map_Suc_upt del: upt_Suc)
    with Some p x ids show ?thesis
      by (intro exI [of _ "m # ids"]) (auto simp: cx'(2) add.assoc)
  qed
qed

lemma distinct_nonce_trace:
  assumes "cx_mode cx = MODE_AES_GCM" and "length ms \<le> 2 ^ 64"
  shows "distinct (nonce_trace lib cx ms)"
proof -
  from nonce_trace_ids [OF assms(1)] obtain ids where
    ids: "nonce_trace lib cx ms = map (\<lambda>k. gcm_build_nonce (ids ! k) (cx_tx cx + of_nat k)) [0..<length ids]"
    "length ids \<le> length ms" by blast
  have "i = j" if "i < length ids" "j < length ids" "(of_nat i :: u64) = of_nat j" for i j
    using that ids(2) assms(2) by (auto simp: word_of_nat_eq_iff take_bit_nat_eq_self)
  then show ?thesis
    by (auto simp: ids(1) distinct_map inj_on_def gcm_build_nonce_inject)
qed

lemma nonce_trace_msg_id:
  assumes "cx_mode cx = MODE_AES_GCM" and "n \<in> set (nonce_trace lib cx ms)"
  shows "\<exists>m \<in> fst ` set ms. \<exists>k. n = gcm_build_nonce m k"
proof -
  from nonce_trace_ids [OF assms(1), of lib ms] assms(2) obtain ids k where
    "n = gcm_build_nonce (ids ! k) (cx_tx cx + of_nat k)" "k < length ids" "set ids \<subseteq> fst ` set ms"
    by auto
  then show ?thesis by (blast dest: nth_mem)
qed

subsection \<open>Properties\<close>

text \<open>
  C31: full-duplex sessions. Two ends that set up a session with the same mode and the same key, under
  any allowed-mode masks, receive exactly what the other one sent, message by message, for every
  interleaving of the two directions, every message id and every payload that can be sent, in all
  five modes, RC4's lazily initialised continuous keystream and the per-message counters included.
\<close>

theorem protocol_duplex:
  assumes "cbc_inverse lib" "gcm_inverse lib"
    and "cccam_protocol_set_crypto al mode key cx = (0, a)" and "cccam_protocol_set_crypto al' mode key cx' = (0, b)"
    and "duplex_run lib ms a b = Some got"
  shows "got = map (Some \<circ> snd) ms"
  using duplex_received [OF set_crypto_synced [OF assms(1-4)] set_crypto_synced [OF assms(1,2,4,3)] assms(5)] .

definition aes_session :: crypto_ctx where
  "aes_session = snd (cccam_protocol_set_crypto 0 MODE_AES (Some (replicate 16 7)) cccam_protocol_reset_crypto)"

lemma aes_session_set: "cccam_protocol_set_crypto 0 MODE_AES (Some (replicate 16 7)) cccam_protocol_reset_crypto = (0, aes_session)"
  by (simp add: aes_session_def cccam_protocol_set_crypto_def crypt_mode_allowed_def)

theorem protocol_duplex_witness:
  "duplex_run toy_ossl [(True, 3, replicate 16 5), (False, 4, replicate 32 6), (True, 5, replicate 16 1)] aes_session aes_session
    = Some [Some (3, replicate 16 5), Some (4, replicate 32 6), Some (5, replicate 16 1)]"
proof -
  have "duplex_run toy_ossl [(True, 3, replicate 16 5), (False, 4, replicate 32 6), (True, 5, replicate 16 1)] aes_session aes_session \<noteq> None"
    by code_simp
  then obtain got where
    got: "duplex_run toy_ossl [(True, 3, replicate 16 5), (False, 4, replicate 32 6), (True, 5, replicate 16 1)] aes_session aes_session = Some got"
    by blast
  from protocol_duplex [OF toy_ossl_ok(1,2) aes_session_set aes_session_set got]
  have "got = [Some (3, replicate 16 5), Some (4, replicate 32 6), Some (5, replicate 16 1)]"
    by (simp only: list.map o_apply snd_conv)
  with got show ?thesis by (simp only:)
qed

text \<open>
  Round trip of the three encrypted messages. In every mode but AES-GCM, an ECM, EMM or CW message
  that a builder returns is accepted by the parser of an end in step, even with further bytes behind
  it in the buffer; the parser returns the message id, the length of the message and the body that
  was built (identifiers big-endian, then the data), and the two ends stay in step.
\<close>

theorem message_build_parse:
  assumes "ctx_synced lib s r" and "cx_mode s \<noteq> MODE_AES_GCM"
    and "cccam_protocol_build_ecm lib cap junk caid provid sid data (Some s) = Some (msg, cx') \<and>
           i = MSG_ECM \<and> body = be16 caid @ be16 provid @ be16 sid @ data \<or>
         cccam_protocol_build_emm lib cap junk caid provid data (Some s) = Some (msg, cx') \<and>
           i = MSG_EMM \<and> body = be16 caid @ be16 provid @ data \<or>
         cccam_protocol_build_cw lib cap junk cw (Some s) = Some (msg, cx') \<and> i = MSG_CW \<and> body = cw_body cw"
  shows "\<exists>s' h r'. cx' = Some s' \<and> cccam_protocol_parse lib True (msg @ rest) (Some r) = Some (h, Some body, Some r') \<and>
    mh_msg_id h = i \<and> unat (mh_msg_len h) = length msg \<and> ctx_synced lib s' r'"
proof -
  have "body \<noteq> []" "seal_message lib cap junk i body (Some s) = Some (msg, cx')"
    using assms(3)
    by (auto simp: be16_def cw_body_def cccam_protocol_build_ecm_def cccam_protocol_build_emm_def cccam_protocol_build_cw_def)
  from seal_then_parse [OF assms(1) this assms(2)] show ?thesis .
qed

theorem message_build_parse_witness:
  "\<exists>msg s' h r'. cccam_protocol_build_ecm toy_ossl 100 [] 0x0500 0 7 (replicate 10 9) (Some aes_session) = Some (msg, Some s') \<and>
    cccam_protocol_parse toy_ossl True (msg @ [1, 2]) (Some aes_session)
      = Some (h, Some (be16 0x0500 @ be16 0 @ be16 7 @ replicate 10 9), Some r') \<and> mh_msg_id h = MSG_ECM"
proof -
  let ?build = "cccam_protocol_build_ecm toy_ossl 100 [] 0x0500 0 7 (replicate 10 9) (Some aes_session)"
  have "?build \<noteq> None" by code_simp
  then obtain msg cx' where b: "?build = Some (msg, cx')" by auto
  have sync: "ctx_synced toy_ossl aes_session aes_session"
    by (rule set_crypto_synced [OF toy_ossl_ok(1,2) aes_session_set aes_session_set])
  have mode: "cx_mode aes_session \<noteq> MODE_AES_GCM" by code_simp
  from message_build_parse [OF sync mode, where cap = 100 and junk = "[]" and caid = "0x0500" and provid = 0
      and sid = 7 and data = "replicate 10 9" and msg = msg and cx' = cx' and i = MSG_ECM and rest = "[1, 2]"
      and body = "be16 0x0500 @ be16 0 @ be16 7 @ replicate 10 9"] b
  show ?thesis by auto
qed

text \<open>
  In AES-GCM mode no ECM, EMM or CW message can ever be built, whatever the key, the content and
  the capacity of the buffer: the builders pass the payload length with the tag already added and the
  same number as capacity, so the capacity test of \<open>cccam_protocol_encrypt\<close> always fails.
\<close>

theorem gcm_builders_fail:
  assumes "cx_mode c = MODE_AES_GCM"
  shows "cccam_protocol_build_ecm lib cap junk caid provid sid data (Some c) = None \<and>
    cccam_protocol_build_emm lib cap junk caid provid data (Some c) = None \<and>
    cccam_protocol_build_cw lib cap junk m (Some c) = None"
  using assms
  by (simp add: cccam_protocol_build_ecm_def cccam_protocol_build_emm_def cccam_protocol_build_cw_def seal_gcm_fails)

definition gcm_session :: crypto_ctx where
  "gcm_session = snd (cccam_protocol_set_crypto 0 MODE_AES_GCM (Some (replicate 16 7)) cccam_protocol_reset_crypto)"

lemma gcm_session_mode: "cx_mode gcm_session = MODE_AES_GCM"
  by (simp add: gcm_session_def cccam_protocol_set_crypto_def crypt_mode_allowed_def)

theorem gcm_builders_fail_witness:
  "cccam_protocol_build_ecm toy_ossl 4096 [] 0x0500 0 7 [1, 2, 3] (Some gcm_session) = None"
  using gcm_builders_fail [OF gcm_session_mode] by blast

text \<open>
  A control word can only be sent in the clear or under RC4. Its payload is 27 bytes, a multiple
  of neither cipher's block, and there is no padding: under AES, 3DES and AES-GCM every
  \<open>cccam_protocol_build_cw\<close> fails, under NONE and under RC4 with a key it succeeds.
\<close>

theorem build_cw_modes:
  assumes "length (cw_cw m) = 16" and "39 \<le> cap" and "cx_key_len c \<le> 32" and "length (cx_key c) = 32"
  shows "cccam_protocol_build_cw lib cap junk m (Some c) \<noteq> None \<longleftrightarrow>
    cx_mode c = MODE_NONE \<or> cx_mode c = MODE_RC4 \<and> (r_ready (cx_rc4_tx c) \<or> 0 < cx_key_len c)"
proof -
  have ne: "cw_body m \<noteq> []" by (simp add: cw_body_def)
  have rc4: "rc4_ready_or_init c (cx_rc4_tx c) \<noteq> None \<longleftrightarrow> r_ready (cx_rc4_tx c) \<or> 0 < cx_key_len c"
    using assms(3,4) by (auto simp: rc4_ready_or_init_def cccam_crypto_rc4_init_def cx_key_bytes_def)
  have other: "cccam_protocol_encrypt lib 27 MSG_CW (cw_body m) c = None"
    if "cx_mode c \<notin> {MODE_NONE, MODE_RC4, MODE_AES_GCM}"
    using that assms(1) by (simp add: cccam_protocol_encrypt_def)
  consider "cx_mode c = MODE_NONE" | "cx_mode c = MODE_RC4" | "cx_mode c = MODE_AES_GCM"
    | "cx_mode c \<notin> {MODE_NONE, MODE_RC4, MODE_AES_GCM}" by auto
  then show ?thesis
  proof cases
    case 1
    with assms(1,2) show ?thesis
      by (simp add: cccam_protocol_build_cw_def seal_message_def HEADER_SIZE_def BUFFER_SIZE_def Let_def)
  next
    case 2
    with assms(1,2) rc4 show ?thesis
      by (auto simp: cccam_protocol_build_cw_def seal_message_def HEADER_SIZE_def BUFFER_SIZE_def Let_def
          encrypt_mode(2) ne split: option.splits)
  next
    case 3
    then show ?thesis by (simp add: cccam_protocol_build_cw_def seal_gcm_fails)
  next
    case 4
    with other assms(1,2) show ?thesis
      by (simp add: cccam_protocol_build_cw_def seal_message_def HEADER_SIZE_def BUFFER_SIZE_def Let_def)
  qed
qed

theorem build_cw_modes_witness:
  "cccam_protocol_build_cw toy_ossl 1024 [] \<lparr>cw_ecm_time = 1, cw_cw = replicate 16 3, cw_hop = 1, cw_caid = 5,
     cw_provid = 0, cw_sid = 9\<rparr> (Some aes_session) = None"
proof -
  have "cx_mode aes_session = MODE_AES" "cx_key_len aes_session = 16" "length (cx_key aes_session) = 32"
    by code_simp+
  with build_cw_modes [of "\<lparr>cw_ecm_time = 1, cw_cw = replicate 16 3, cw_hop = 1, cw_caid = 5, cw_provid = 0, cw_sid = 9\<rparr>"
      1024 aes_session toy_ossl "[]"]
  show ?thesis by (simp del: not_None_eq)
qed

text \<open>
  The parser accepts a clear message exactly when the buffer holds a header whose length field is
  at least 12, at most 4096 and at most the bytes received; the payload is then the bytes between the
  header and that length, never bytes beyond the message, and NULL when there are none.
\<close>

theorem parse_accepts_iff:
  "cccam_protocol_parse lib True buf None =
    (if 12 \<le> length buf \<and> 12 \<le> unat (read_be32 buf 4) \<and> unat (read_be32 buf 4) \<le> min 4096 (length buf)
     then Some (read_header buf,
       (if unat (read_be32 buf 4) = 12 then None else Some (drop 12 (take (unat (read_be32 buf 4)) buf))), None)
     else None)"
  by (simp add: cccam_protocol_parse_def HEADER_SIZE_def BUFFER_SIZE_def Let_def read_header_def drop_take)

text \<open>
  The GCM nonces of a session are pairwise distinct. For up to 2^64 messages per direction, no
  nonce repeats within a direction, and none is shared by the two directions when they use disjoint
  message ids (the clients send ECM and EMM, the server CW).
\<close>

theorem gcm_nonces_unique:
  assumes "cx_mode a = MODE_AES_GCM" and "cx_mode b = MODE_AES_GCM"
    and "length ms \<le> 2 ^ 64" and "length ns \<le> 2 ^ 64" and "fst ` set ms \<inter> fst ` set ns = {}"
  shows "distinct (nonce_trace lib a ms @ nonce_trace lib b ns)"
proof -
  have "set (nonce_trace lib a ms) \<inter> set (nonce_trace lib b ns) = {}"
  proof (rule ccontr)
    assume "set (nonce_trace lib a ms) \<inter> set (nonce_trace lib b ns) \<noteq> {}"
    then obtain n where "n \<in> set (nonce_trace lib a ms)" "n \<in> set (nonce_trace lib b ns)" by blast
    with nonce_trace_msg_id assms(1,2) obtain i k j l where "i \<in> fst ` set ms" "n = gcm_build_nonce i k"
      "j \<in> fst ` set ns" "n = gcm_build_nonce j l" by metis
    with assms(5) show False by (auto simp: gcm_build_nonce_inject)
  qed
  with assms(1-4) show ?thesis
    by (simp add: distinct_nonce_trace)
qed

theorem gcm_nonces_unique_witness:
  "distinct (nonce_trace toy_ossl gcm_session [(3, [1]), (5, [2]), (3, [1])] @
     nonce_trace toy_ossl gcm_session [(4, [1]), (4, [1])])"
  by (rule gcm_nonces_unique [OF gcm_session_mode gcm_session_mode]) simp_all

end
