(* ===== verification/Handshake.thy ===== *)
theory Handshake
  imports Protocol
begin

text \<open>
  The session key exchange: \<open>src/network/cccam3_handshake.c\<close> (dispatch by client version and by the
  length of the server's answer) and \<open>src/network/cccam3_handshake_advanced.c\<close> (the PBKDF2 and AES-GCM
  handshake, the legacy SHA-1 handshake, negotiation, encryption with the session key). The global
  key and mode are the fields of \<open>handshake\<close>; random bytes are arguments; the RSA key pair, which only
  signs, is not modelled.
\<close>

subsection \<open>State and messages\<close>

definition HS_LEGACY :: u8 where "HS_LEGACY = 0x00"
definition HS_RC4 :: u8 where "HS_RC4 = 0x01"
definition HS_AES :: u8 where "HS_AES = 0x02"
definition HS_AES_GCM :: u8 where "HS_AES_GCM = 0x03"
definition HS_RSA_AES :: u8 where "HS_RSA_AES = 0x04"

lemmas hs_defs = HS_LEGACY_def HS_RC4_def HS_AES_def HS_AES_GCM_def HS_RSA_AES_def

record login_msg =
  lm_handshake :: "u8 list"
  lm_username :: string
  lm_password :: string
  lm_version :: u32

record handshake =
  hs_session_key :: "u8 list"
  hs_session_key_len :: nat
  hs_mode :: u8

definition handshake_initial :: handshake where
  "handshake_initial = \<lparr>hs_session_key = replicate 32 0, hs_session_key_len = 0, hs_mode = HS_LEGACY\<rparr>"

definition cccam_handshake_advanced_cleanup :: "handshake \<Rightarrow> handshake" where
  "cccam_handshake_advanced_cleanup st = st\<lparr>hs_session_key := replicate 32 0, hs_session_key_len := 0\<rparr>"

text \<open>\<open>memcpy(g_session_key, key, n)\<close> overwrites the first \<open>n\<close> of 32 bytes.\<close>

definition store_key :: "u8 list \<Rightarrow> handshake \<Rightarrow> handshake" where
  "store_key key st = st\<lparr>hs_session_key := key @ drop (length key) (hs_session_key st), hs_session_key_len := length key\<rparr>"

subsection \<open>The PBKDF2 and AES-GCM handshake\<close>

definition derive_session_key :: "ossl \<Rightarrow> string \<Rightarrow> u8 list \<Rightarrow> nat \<Rightarrow> u8 list" where
  "derive_session_key lib password salt key_len = cccam_crypto_derive_key lib (to_bytes password) salt key_len 10000"

text \<open>
  \<open>seed\<close> and \<open>iv\<close> are what the random generator delivered; \<open>junk\<close> is what the output buffer holds when
  the encryption fails, which the code does not check.
\<close>

definition cccam_handshake_rsa_server ::
  "ossl \<Rightarrow> u8 list \<Rightarrow> u8 list \<Rightarrow> u8 list \<Rightarrow> login_msg \<Rightarrow> nat \<Rightarrow> handshake \<Rightarrow> (u8 list \<times> handshake) option" where
  "cccam_handshake_rsa_server lib seed iv junk login response_size st =
     (if response_size < 16 + 12 + 16 + 16 then None
      else
        let server_seed = take 16 seed;
            salt = take 16 (lm_handshake login) @ server_seed;
            session_key = derive_session_key lib (lm_password login) salt 32;
            st' = (store_key session_key st)\<lparr>hs_mode := HS_RSA_AES\<rparr>;
            sealed = (case cccam_crypto_aes_gcm_encrypt lib server_seed session_key (take 12 iv) of
                        None \<Rightarrow> take 32 junk | Some (c, tag) \<Rightarrow> c @ take 16 tag) in
        Some (server_seed @ take 12 iv @ sealed, st'))"

definition cccam_handshake_rsa_client :: "ossl \<Rightarrow> login_msg \<Rightarrow> u8 list \<Rightarrow> handshake \<Rightarrow> int \<times> handshake" where
  "cccam_handshake_rsa_client lib login server_handshake st =
     (let server_seed = take 16 server_handshake;
          iv = take 12 (drop 16 server_handshake);
          tag = take 16 (drop 44 server_handshake);
          salt = take 16 (lm_handshake login) @ server_seed;
          session_key = derive_session_key lib (lm_password login) salt 32;
          st' = store_key session_key st in
      (case cccam_crypto_aes_gcm_decrypt lib (take 16 (drop 28 server_handshake)) session_key iv tag of
         None \<Rightarrow> (-1, st')
       | Some plaintext \<Rightarrow>
           if plaintext \<noteq> server_seed then (-1, st') else (0, st'\<lparr>hs_mode := HS_RSA_AES\<rparr>)))"

subsection \<open>The legacy handshake\<close>

definition legacy_key :: "ossl \<Rightarrow> login_msg \<Rightarrow> u8 list \<Rightarrow> u8 list" where
  "legacy_key lib login seed = ossl_sha1 lib (take 16 (lm_handshake login) @ take 16 seed @ to_bytes (lm_password login))"

definition cccam_handshake_legacy_server ::
  "ossl \<Rightarrow> u8 list \<Rightarrow> login_msg \<Rightarrow> nat \<Rightarrow> handshake \<Rightarrow> (u8 list \<times> handshake) option" where
  "cccam_handshake_legacy_server lib seed login response_size st =
     (if response_size < 16 then None
      else Some (take 16 seed, (store_key (legacy_key lib login seed) st)\<lparr>hs_mode := HS_LEGACY\<rparr>))"

definition cccam_handshake_legacy_client :: "ossl \<Rightarrow> login_msg \<Rightarrow> u8 list \<Rightarrow> handshake \<Rightarrow> int \<times> handshake" where
  "cccam_handshake_legacy_client lib login server_handshake st =
     (0, (store_key (legacy_key lib login server_handshake) st)\<lparr>hs_mode := HS_LEGACY\<rparr>)"

subsection \<open>Negotiation and dispatch\<close>

definition cccam_handshake_negotiate_mode :: "u8 \<Rightarrow> handshake \<Rightarrow> u8 \<times> handshake" where
  "cccam_handshake_negotiate_mode client_mode st =
     (let mode = (if client_mode AND HS_RSA_AES \<noteq> 0 then HS_RSA_AES
                  else if client_mode AND HS_AES_GCM \<noteq> 0 then HS_AES_GCM
                  else if client_mode AND HS_AES \<noteq> 0 then HS_AES
                  else if client_mode AND HS_RC4 \<noteq> 0 then HS_RC4
                  else HS_LEGACY) in
      (mode, st\<lparr>hs_mode := mode\<rparr>))"

definition cccam_handshake_get_mode :: "handshake \<Rightarrow> u8" where
  "cccam_handshake_get_mode st = hs_mode st"

definition cccam_handshake_get_response_len :: "handshake \<Rightarrow> nat" where
  "cccam_handshake_get_response_len st = (if hs_mode st \<ge> HS_RSA_AES then 16 + 12 + 16 + 16 else 16)"

text \<open>The key and its length; \<open>None\<close> is -1 (no key yet, or the caller's buffer is too small).\<close>

definition cccam_handshake_get_session_key :: "nat \<Rightarrow> handshake \<Rightarrow> u8 list option" where
  "cccam_handshake_get_session_key key_len st =
     (if hs_session_key_len st = 0 then None
      else if key_len < hs_session_key_len st then None
      else Some (take (hs_session_key_len st) (hs_session_key st)))"

definition cccam_protocol_handle_login ::
  "ossl \<Rightarrow> u8 list \<Rightarrow> u8 list \<Rightarrow> u8 list \<Rightarrow> login_msg \<Rightarrow> nat \<Rightarrow> handshake \<Rightarrow> (u8 list \<times> handshake) option" where
  "cccam_protocol_handle_login lib seed iv junk login response_size st =
     (if response_size = 0 then None
      else
        let client_mode = (if lm_version login \<ge> 300 then HS_RSA_AES else HS_LEGACY);
            (mode, st') = cccam_handshake_negotiate_mode client_mode st in
        if mode \<ge> HS_RSA_AES
        then cccam_handshake_rsa_server lib seed iv junk login response_size st'
        else cccam_handshake_legacy_server lib seed login response_size st')"

definition cccam_protocol_handle_login_response :: "ossl \<Rightarrow> login_msg \<Rightarrow> u8 list \<Rightarrow> handshake \<Rightarrow> int \<times> handshake" where
  "cccam_protocol_handle_login_response lib login server_handshake st =
     (if length server_handshake = 0 then (-1, st)
      else if length server_handshake \<ge> 60 then cccam_handshake_rsa_client lib login server_handshake st
      else if length server_handshake \<ge> 16 then cccam_handshake_legacy_client lib login server_handshake st
      else (-1, st))"

subsection \<open>Encryption with the session key\<close>

definition hs_key_bytes :: "handshake \<Rightarrow> u8 list" where
  "hs_key_bytes st = take (hs_session_key_len st) (hs_session_key st)"

definition cccam_handshake_encrypt :: "ossl \<Rightarrow> bool \<Rightarrow> u8 list \<Rightarrow> nat \<Rightarrow> u8 list \<Rightarrow> handshake \<Rightarrow> u8 list option" where
  "cccam_handshake_encrypt lib mem iv capacity data st =
     (if length data = 0 then None
      else if hs_mode st = HS_RSA_AES \<or> hs_mode st = HS_AES_GCM then
        (if capacity < length data + 12 + 16 then None
         else if \<not> mem then None
         else map_option (\<lambda>(c, tag). take 12 iv @ c @ tag)
           (cccam_crypto_aes_gcm_encrypt lib data (hs_key_bytes st) (take 12 iv)))
      else if hs_mode st = HS_AES \<or> hs_mode st = HS_RC4 then None
      else Some data)"

definition cccam_handshake_decrypt :: "ossl \<Rightarrow> bool \<Rightarrow> u8 list \<Rightarrow> handshake \<Rightarrow> u8 list option" where
  "cccam_handshake_decrypt lib mem data st =
     (if length data = 0 then None
      else if hs_mode st = HS_RSA_AES \<or> hs_mode st = HS_AES_GCM then
        (if length data < 12 + 16 then None
         else if \<not> mem then None
         else cccam_crypto_aes_gcm_decrypt lib (take (length data - 12 - 16) (drop 12 data)) (hs_key_bytes st)
                (take 12 data) (drop (length data - 16) data))
      else if hs_mode st = HS_AES \<or> hs_mode st = HS_RC4 then None
      else Some data)"

subsection \<open>Facts\<close>

lemma mode_bits:
  "m AND HS_RSA_AES \<noteq> 0 \<longleftrightarrow> bit m 2" "m AND HS_AES \<noteq> 0 \<longleftrightarrow> bit m 1" "m AND HS_RC4 \<noteq> 0 \<longleftrightarrow> bit m 0"
  "m AND HS_AES_GCM \<noteq> 0 \<longleftrightarrow> bit m 0 \<or> bit m 1"
proof -
  show b: "m AND HS_RSA_AES \<noteq> 0 \<longleftrightarrow> bit m 2" "m AND HS_AES \<noteq> 0 \<longleftrightarrow> bit m 1" "m AND HS_RC4 \<noteq> 0 \<longleftrightarrow> bit m 0"
    using and_exp_eq_0_iff_not_bit [of m 2] and_exp_eq_0_iff_not_bit [of m 1] and_exp_eq_0_iff_not_bit [of m 0]
    by (simp_all add: hs_defs)
  have "HS_AES_GCM = HS_RC4 OR HS_AES" by (simp add: hs_defs)
  then have "m AND HS_AES_GCM = 0 \<longleftrightarrow> m AND HS_RC4 = 0 \<and> m AND HS_AES = 0"
    by (metis bit.conj_disj_distrib or_eq_0_iff)
  with b show "m AND HS_AES_GCM \<noteq> 0 \<longleftrightarrow> bit m 0 \<or> bit m 1" by blast
qed

lemma length_store_key [simp]: "hs_session_key_len (store_key k st) = length k"
  "hs_mode (store_key k st) = hs_mode st"
  by (simp_all add: store_key_def)

lemma get_stored_key [simp]:
  "cccam_handshake_get_session_key n ((store_key k st)\<lparr>hs_mode := m\<rparr>) = (if k = [] \<or> n < length k then None else Some k)"
  by (simp add: cccam_handshake_get_session_key_def store_key_def)

text \<open>OpenSSL seals under every 32-byte key and 12-byte nonce.\<close>

definition gcm_available :: "ossl \<Rightarrow> bool" where
  "gcm_available lib \<longleftrightarrow> (\<forall>k iv d. length k = 32 \<longrightarrow> length iv = 12 \<longrightarrow> evp_gcm_seal lib k iv [] d \<noteq> None)"

lemma toy_available: "gcm_available toy_ossl"
  by (simp add: gcm_available_def toy_ossl_def)

lemma rsa_agree:
  assumes lib: "gcm_inverse lib" "digest_lengths lib" "gcm_available lib"
    and rnd: "length seed = 16" "length iv = 12"
    and same: "lm_handshake lc = lm_handshake ls" "lm_password lc = lm_password ls"
    and server: "cccam_handshake_rsa_server lib seed iv junk ls rsize st = Some (resp, st')"
  shows "length resp = 60 \<and> fst (cccam_handshake_rsa_client lib lc resp stc) = 0 \<and> hs_mode st' = HS_RSA_AES \<and>
    (\<exists>k. length k = 32 \<and> cccam_handshake_get_session_key 32 st' = Some k \<and>
       cccam_handshake_get_session_key 32 (snd (cccam_handshake_rsa_client lib lc resp stc)) = Some k) \<and>
    hs_mode (snd (cccam_handshake_rsa_client lib lc resp stc)) = HS_RSA_AES"
proof -
  define k where "k = derive_session_key lib (lm_password ls) (take 16 (lm_handshake ls) @ seed) 32"
  have k: "length k = 32" using lib(2) by (simp add: k_def derive_session_key_def cccam_crypto_derive_key_def digest_lengths_def)
  then have "cccam_crypto_aes_gcm_encrypt lib seed k iv \<noteq> None"
    using lib(3) rnd by (simp add: cccam_crypto_aes_gcm_encrypt_def gcm_key_ok_def gcm_available_def)
  then obtain c t where enc: "cccam_crypto_aes_gcm_encrypt lib seed k iv = Some (c, t)" by auto
  note dec = gcm_opens_plain [OF lib(1) enc]
  have resp: "resp = seed @ iv @ c @ t" and st': "st' = (store_key k st)\<lparr>hs_mode := HS_RSA_AES\<rparr>"
    using server rnd dec enc
    by (auto simp: cccam_handshake_rsa_server_def Let_def k_def [symmetric] split: if_splits)
  have client: "cccam_handshake_rsa_client lib lc resp stc = (0, (store_key k stc)\<lparr>hs_mode := HS_RSA_AES\<rparr>)"
    using rnd dec same by (simp add: cccam_handshake_rsa_client_def Let_def resp k_def [symmetric])
  from k show ?thesis
    using rnd dec by (auto simp: client [unfolded resp] st' resp)
qed

subsection \<open>Properties\<close>

text \<open>
  C32: key agreement. Whatever the version the client announced, when the server handles its login
  the client that holds the same password and handshake bytes accepts the server's answer (cut to
  the announced response length), both ends are in the same mode and hold the same session key: 32
  bytes from version 300 on, 20 bytes before.
\<close>

theorem handshake_agreement:
  assumes "gcm_inverse lib" "digest_lengths lib" "gcm_available lib" "length seed = 16" "length iv = 12"
    and "lm_handshake lc = lm_handshake ls" "lm_password lc = lm_password ls"
    and server: "cccam_protocol_handle_login lib seed iv junk ls rsize st = Some (resp, st')"
  shows "\<exists>stc' k. cccam_protocol_handle_login_response lib lc (take (cccam_handshake_get_response_len st') resp) stc = (0, stc') \<and>
    cccam_handshake_get_session_key 32 st' = Some k \<and> cccam_handshake_get_session_key 32 stc' = Some k \<and>
    length k = (if lm_version ls \<ge> 300 then 32 else 20) \<and> hs_mode stc' = hs_mode st'"
proof (cases "lm_version ls \<ge> 300")
  case True
  then have "cccam_handshake_negotiate_mode HS_RSA_AES st = (HS_RSA_AES, st\<lparr>hs_mode := HS_RSA_AES\<rparr>)"
    by (simp add: cccam_handshake_negotiate_mode_def Let_def hs_defs)
  with server True have "cccam_handshake_rsa_server lib seed iv junk ls rsize (st\<lparr>hs_mode := HS_RSA_AES\<rparr>) = Some (resp, st')"
    by (simp add: cccam_protocol_handle_login_def split: if_splits)
  from rsa_agree [OF assms(1-7) this, of stc] obtain k where
    "length resp = 60" "fst (cccam_handshake_rsa_client lib lc resp stc) = 0" "hs_mode st' = HS_RSA_AES" "length k = 32"
    "cccam_handshake_get_session_key 32 st' = Some k" "hs_mode (snd (cccam_handshake_rsa_client lib lc resp stc)) = HS_RSA_AES"
    "cccam_handshake_get_session_key 32 (snd (cccam_handshake_rsa_client lib lc resp stc)) = Some k" by blast
  with True show ?thesis
    by (intro exI [of _ "snd (cccam_handshake_rsa_client lib lc resp stc)"] exI [of _ k])
      (simp add: cccam_protocol_handle_login_response_def cccam_handshake_get_response_len_def prod_eq_iff)
next
  case False
  have "cccam_handshake_negotiate_mode HS_LEGACY st = (HS_LEGACY, st\<lparr>hs_mode := HS_LEGACY\<rparr>)" "\<not> HS_LEGACY \<ge> HS_RSA_AES"
    by (simp_all add: cccam_handshake_negotiate_mode_def Let_def hs_defs)
  with server False assms(4) have resp: "resp = seed"
    and st': "st' = (store_key (legacy_key lib ls seed) (st\<lparr>hs_mode := HS_LEGACY\<rparr>))\<lparr>hs_mode := HS_LEGACY\<rparr>"
    by (auto simp: cccam_protocol_handle_login_def cccam_handshake_legacy_server_def split: if_splits)
  have key: "legacy_key lib lc seed = legacy_key lib ls seed" "length (legacy_key lib ls seed) = 20"
    using assms(2,6,7) by (simp_all add: legacy_key_def digest_lengths_def)
  moreover from key(2) have "legacy_key lib ls seed \<noteq> []" by auto
  moreover have "cccam_handshake_get_response_len st' = 16"
    by (simp add: st' cccam_handshake_get_response_len_def hs_defs)
  ultimately show ?thesis
    using False assms(4)
    by (simp add: resp cccam_protocol_handle_login_response_def cccam_handshake_legacy_client_def) (simp add: st')
qed

theorem handshake_agreement_witness:
  "\<exists>resp st' stc' k. cccam_protocol_handle_login toy_ossl (replicate 16 3) (replicate 12 4) []
      \<lparr>lm_handshake = replicate 16 9, lm_username = ''joe'', lm_password = ''secret'', lm_version = 301\<rparr> 60 handshake_initial = Some (resp, st') \<and>
    cccam_protocol_handle_login_response toy_ossl
      \<lparr>lm_handshake = replicate 16 9, lm_username = ''joe'', lm_password = ''secret'', lm_version = 301\<rparr>
      (take (cccam_handshake_get_response_len st') resp) handshake_initial = (0, stc') \<and>
    cccam_handshake_get_session_key 32 st' = Some k \<and> cccam_handshake_get_session_key 32 stc' = Some k"
proof -
  let ?l = "\<lparr>lm_handshake = replicate 16 9, lm_username = ''joe'', lm_password = ''secret'', lm_version = 301\<rparr>"
  have neg: "cccam_handshake_negotiate_mode HS_RSA_AES handshake_initial = (HS_RSA_AES, handshake_initial\<lparr>hs_mode := HS_RSA_AES\<rparr>)"
    by (simp add: cccam_handshake_negotiate_mode_def Let_def hs_defs)
  obtain resp st' where s: "cccam_protocol_handle_login toy_ossl (replicate 16 3) (replicate 12 4) [] ?l 60 handshake_initial = Some (resp, st')"
    by (simp add: cccam_protocol_handle_login_def neg cccam_handshake_rsa_server_def Let_def)
  from handshake_agreement [OF toy_ossl_ok(2,3) toy_available _ _ refl refl s, of handshake_initial] s
  show ?thesis by auto
qed

text \<open>
  The negotiated mode is a function of bits 0 to 2 of the client's mode alone, and neither AES nor
  RC4 is ever selected: \<open>HANDSHAKE_MODE_AES_GCM\<close> is 3, so its test by bitwise AND takes the modes 1
  and 2 as well.
\<close>

theorem negotiate_mode_result:
  "fst (cccam_handshake_negotiate_mode m st) =
     (if bit m 2 then HS_RSA_AES else if bit m 0 \<or> bit m 1 then HS_AES_GCM else HS_LEGACY) \<and>
   fst (cccam_handshake_negotiate_mode m st) \<notin> {HS_AES, HS_RC4} \<and>
   hs_mode (snd (cccam_handshake_negotiate_mode m st)) = fst (cccam_handshake_negotiate_mode m st)"
  by (simp add: cccam_handshake_negotiate_mode_def Let_def mode_bits) (simp add: hs_defs)

text \<open>
  What \<open>cccam_handshake_encrypt\<close> produces, \<open>cccam_handshake_decrypt\<close> takes back with the same
  session key, in every mode in which encryption succeeds; the GCM modes add exactly 28 bytes.
\<close>

theorem handshake_encrypt_roundtrip:
  assumes "gcm_inverse lib" and "length iv = 12"
    and "cccam_handshake_encrypt lib True iv cap data st = Some c"
  shows "cccam_handshake_decrypt lib True c st = Some data \<and>
    length c = length data + (if hs_mode st \<in> {HS_RSA_AES, HS_AES_GCM} then 28 else 0)"
proof (cases "hs_mode st \<in> {HS_RSA_AES, HS_AES_GCM}")
  case True
  with assms(2,3) obtain e t where enc: "cccam_crypto_aes_gcm_encrypt lib data (hs_key_bytes st) iv = Some (e, t)"
    and c: "c = iv @ e @ t" and "data \<noteq> []"
    by (auto simp: cccam_handshake_encrypt_def split: if_splits)
  note dec = gcm_opens_plain [OF assms(1) enc]
  with True assms(2) \<open>data \<noteq> []\<close> show ?thesis
    by (auto simp: cccam_handshake_decrypt_def c)
next
  case False
  with assms(3) show ?thesis
    by (auto simp: cccam_handshake_encrypt_def cccam_handshake_decrypt_def split: if_splits)
qed

theorem handshake_encrypt_roundtrip_witness:
  "\<exists>c. cccam_handshake_encrypt toy_ossl True (replicate 12 4) 100 [1, 2, 3]
      ((store_key (replicate 32 5) handshake_initial)\<lparr>hs_mode := HS_RSA_AES\<rparr>) = Some c \<and>
    cccam_handshake_decrypt toy_ossl True c ((store_key (replicate 32 5) handshake_initial)\<lparr>hs_mode := HS_RSA_AES\<rparr>) = Some [1, 2, 3]"
proof -
  let ?st = "(store_key (replicate 32 5) handshake_initial)\<lparr>hs_mode := HS_RSA_AES\<rparr>"
  have "cccam_handshake_encrypt toy_ossl True (replicate 12 4) 100 [1, 2, 3] ?st \<noteq> None" by code_simp
  then obtain c where "cccam_handshake_encrypt toy_ossl True (replicate 12 4) 100 [1, 2, 3] ?st = Some c" by blast
  with handshake_encrypt_roundtrip [OF toy_ossl_ok(2) _ this] show ?thesis by simp
qed

end
