(* ===== verification/User_Manager.thy ===== *)
theory User_Manager
  imports Text Crypto
begin

text \<open>
  The user accounts, \<open>src/CCshare/cccam3_user_manager.c\<close>: a singly linked list (head first), its
  counter, the next id and the two settings are the fields of \<open>users\<close>. SHA-256 is a function of
  \<open>ossl\<close>. The file system is a map from paths to contents. \<open>time(NULL)\<close> is \<open>now\<close>; \<open>mem\<close> is the outcome
  of \<open>calloc\<close>, per user name where a call allocates several records.
\<close>

subsection \<open>State\<close>

record user =
  us_id :: u32
  us_username :: string
  us_password_hash :: string
  us_password :: string
  us_level :: int
  us_max_hops :: u8
  us_enabled :: u8
  us_created_at :: time_t
  us_last_login :: time_t
  us_login_count :: u32
  us_ecm_requests :: u32
  us_ecm_success :: u32

record users =
  um_users :: "user list"
  um_count :: int
  um_next_id :: u32
  um_initialized :: bool
  um_users_file :: string
  um_auto_register :: bool

definition users_initial :: users where
  "users_initial = \<lparr>um_users = [], um_count = 0, um_next_id = 1, um_initialized = False,
     um_users_file = ''conf/cccam3.users'', um_auto_register = False\<rparr>"

type_synonym file_system = "string \<Rightarrow> string option"

definition LEVEL_DISABLED :: int where "LEVEL_DISABLED = 0"
definition LEVEL_USER :: int where "LEVEL_USER = 1"
definition LEVEL_ROOT :: int where "LEVEL_ROOT = 3"

subsection \<open>Helpers\<close>

definition hex_digit :: "nat \<Rightarrow> char" where
  "hex_digit n = ''0123456789abcdef'' ! n"

definition hex_byte :: "u8 \<Rightarrow> string" where
  "hex_byte b = [hex_digit (unat b div 16), hex_digit (unat b mod 16)]"

text \<open>The first 32 digest bytes in hexadecimal, into a buffer of 65 bytes.\<close>

definition password_hash :: "ossl \<Rightarrow> string \<Rightarrow> string" where
  "password_hash lib password = concat (map hex_byte (take 32 (ossl_sha256 lib (to_bytes password))))"

definition find_user :: "string \<Rightarrow> users \<Rightarrow> user option" where
  "find_user username st = find (\<lambda>u. us_username u = username) (um_users st)"

text \<open>\<open>find_user_locked\<close>, then writes to the record it found.\<close>

definition update_user :: "string \<Rightarrow> (user \<Rightarrow> user) \<Rightarrow> users \<Rightarrow> users" where
  "update_user username f st = st\<lparr>um_users := update_first (\<lambda>u. us_username u = username) f (um_users st)\<rparr>"

definition add_user :: "ossl \<Rightarrow> bool \<Rightarrow> time_t \<Rightarrow> string \<Rightarrow> string \<Rightarrow> int \<Rightarrow> u8 \<Rightarrow> users \<Rightarrow> int \<times> users" where
  "add_user lib mem now username password level max_hops st =
     (if length username = 0 \<or> length password = 0 then (-1, st)
      else if find_user username st \<noteq> None then (-1, st)
      else if um_count st \<ge> 256 then (-1, st)
      else if \<not> mem then (-1, st)
      else
        (0, st\<lparr>um_users :=
               \<lparr>us_id = um_next_id st, us_username = c_strncpy 64 username,
                us_password_hash = password_hash lib password, us_password = c_strncpy 128 password,
                us_level = level, us_max_hops = max_hops, us_enabled = 1, us_created_at = now,
                us_last_login = 0, us_login_count = 0, us_ecm_requests = 0, us_ecm_success = 0\<rparr> # um_users st,
              um_next_id := um_next_id st + 1, um_count := um_count st + 1\<rparr>))"

definition cccam_user_manager_remove_user :: "string \<Rightarrow> users \<Rightarrow> int \<times> users" where
  "cccam_user_manager_remove_user username st =
     (if find_user username st = None then (-1, st)
      else (0, st\<lparr>um_users := remove_first (\<lambda>u. us_username u = username) (um_users st), um_count := um_count st - 1\<rparr>))"

text \<open>\<open>Some u\<close> in the second component is what \<open>*user_out\<close> points to.\<close>

definition cccam_user_manager_authenticate ::
  "ossl \<Rightarrow> time_t \<Rightarrow> string \<Rightarrow> string \<Rightarrow> users \<Rightarrow> int \<times> users" where
  "cccam_user_manager_authenticate lib now username password st =
     (case find_user username st of
        None \<Rightarrow> (-1, st)
      | Some u \<Rightarrow>
          if us_enabled u = 0 then (-2, st)
          else if us_password_hash u = password_hash lib password
          then (0, update_user username (\<lambda>u. u\<lparr>us_last_login := now, us_login_count := us_login_count u + 1\<rparr>) st)
          else (-3, st))"

definition cccam_user_manager_get_max_hops :: "string \<Rightarrow> users \<Rightarrow> u8 option" where
  "cccam_user_manager_get_max_hops username st = map_option us_max_hops (find_user username st)"

definition cccam_user_manager_get_level :: "string \<Rightarrow> users \<Rightarrow> int option" where
  "cccam_user_manager_get_level username st = map_option us_level (find_user username st)"

definition cccam_user_manager_copy_password :: "string \<Rightarrow> nat \<Rightarrow> users \<Rightarrow> string option" where
  "cccam_user_manager_copy_password username out_size st =
     (if out_size = 0 then None else map_option (\<lambda>u. c_strncpy out_size (us_password u)) (find_user username st))"

definition cccam_user_manager_get_user_by_id :: "u32 \<Rightarrow> users \<Rightarrow> user option" where
  "cccam_user_manager_get_user_by_id i st = find (\<lambda>u. us_id u = i) (um_users st)"

definition cccam_user_manager_get_by_index :: "int \<Rightarrow> users \<Rightarrow> user option" where
  "cccam_user_manager_get_by_index index st =
     (let i = nat index in if i < length (um_users st) then Some (um_users st ! i) else None)"

definition cccam_user_manager_set_level :: "string \<Rightarrow> int \<Rightarrow> users \<Rightarrow> int \<times> users" where
  "cccam_user_manager_set_level username level st =
     (if find_user username st = None then (-1, st)
      else (0, update_user username (\<lambda>u. u\<lparr>us_level := level\<rparr>) st))"

definition cccam_user_manager_set_max_hops :: "string \<Rightarrow> u8 \<Rightarrow> users \<Rightarrow> int \<times> users" where
  "cccam_user_manager_set_max_hops username max_hops st =
     (if find_user username st = None then (-1, st)
      else (0, update_user username (\<lambda>u. u\<lparr>us_max_hops := max_hops\<rparr>) st))"

definition cccam_user_manager_set_enabled :: "string \<Rightarrow> u8 \<Rightarrow> users \<Rightarrow> int \<times> users" where
  "cccam_user_manager_set_enabled username enabled st =
     (if find_user username st = None then (-1, st)
      else (0, update_user username (\<lambda>u. u\<lparr>us_enabled := enabled\<rparr>) st))"

definition cccam_user_manager_register_ecm :: "string \<Rightarrow> bool \<Rightarrow> users \<Rightarrow> users" where
  "cccam_user_manager_register_ecm username success st =
     (if find_user username st = None then st
      else update_user username (\<lambda>u. u\<lparr>us_ecm_requests := us_ecm_requests u + 1,
             us_ecm_success := us_ecm_success u + (if success then 1 else 0)\<rparr>) st)"

definition cccam_user_manager_set_config_file :: "string option \<Rightarrow> users \<Rightarrow> users" where
  "cccam_user_manager_set_config_file path st =
     (case path of None \<Rightarrow> st | Some p \<Rightarrow> if p = [] then st else st\<lparr>um_users_file := c_strncpy 256 p\<rparr>)"

definition cccam_user_manager_set_auto_register :: "bool \<Rightarrow> users \<Rightarrow> users" where
  "cccam_user_manager_set_auto_register enabled st = st\<lparr>um_auto_register := enabled\<rparr>"

subsection \<open>Reading the users file\<close>

text \<open>The local variables of the loop, and the list it fills.\<close>

record user_loader =
  ul_username :: string
  ul_password :: string
  ul_level :: int
  ul_max_hops :: int
  ul_users :: users

definition loader_add :: "ossl \<Rightarrow> (string \<Rightarrow> bool) \<Rightarrow> time_t \<Rightarrow> user_loader \<Rightarrow> user_loader" where
  "loader_add lib mem now ld = ld\<lparr>ul_users := snd (add_user lib (mem (ul_username ld)) now
     (ul_username ld) (ul_password ld) (ul_level ld) (word_of_int (ul_max_hops ld)) (ul_users ld))\<rparr>"

definition loader_line :: "ossl \<Rightarrow> (string \<Rightarrow> bool) \<Rightarrow> time_t \<Rightarrow> string \<Rightarrow> user_loader \<Rightarrow> user_loader" where
  "loader_line lib mem now line ld =
     (let p0 = skip_space (c_line line) in
      if p0 = [] \<or> hd p0 = CHR ''#'' \<or> hd p0 = CHR '';'' then ld
      else
        let p = cut_at NL p0 in
        if p \<noteq> [] \<and> hd p = CHR ''['' then
          (let ld1 = (if ul_username ld \<noteq> []
                      then (loader_add lib mem now ld)\<lparr>ul_username := [], ul_password := [], ul_level := 1, ul_max_hops := 2\<rparr>
                      else ld) in
           case after_char (CHR '']'') p of
             None \<Rightarrow> ld1
           | Some _ \<Rightarrow> ld1\<lparr>ul_username := c_strncpy 64 (tl (cut_at (CHR '']'') p))\<rparr>)
        else if ul_username ld = [] then ld
        else (case after_char (CHR ''='') p of
            None \<Rightarrow> ld
          | Some v \<Rightarrow>
              let key = trim_end (skip_space (cut_at (CHR ''='') p)); value = trim_end (skip_space v) in
              if key = ''password'' then ld\<lparr>ul_password := c_strncpy 64 value\<rparr>
              else if key = ''level'' then ld\<lparr>ul_level := c_atoi value\<rparr>
              else if key = ''max_hops'' then ld\<lparr>ul_max_hops := c_atoi value\<rparr>
              else ld))"

definition loader_run :: "ossl \<Rightarrow> (string \<Rightarrow> bool) \<Rightarrow> time_t \<Rightarrow> string \<Rightarrow> user_loader \<Rightarrow> user_loader" where
  "loader_run lib mem now content ld = fold (loader_line lib mem now) (fgets_lines 254 content) ld"

definition loader_start :: "users \<Rightarrow> user_loader" where
  "loader_start st = \<lparr>ul_username = [], ul_password = [], ul_level = 1, ul_max_hops = 2, ul_users = st\<rparr>"

definition loader_finish :: "ossl \<Rightarrow> (string \<Rightarrow> bool) \<Rightarrow> time_t \<Rightarrow> user_loader \<Rightarrow> users" where
  "loader_finish lib mem now ld =
     (if ul_username ld \<noteq> [] \<and> ul_password ld \<noteq> [] then ul_users (loader_add lib mem now ld) else ul_users ld)"

definition cccam_user_manager_load_from_config ::
  "ossl \<Rightarrow> (string \<Rightarrow> bool) \<Rightarrow> time_t \<Rightarrow> file_system \<Rightarrow> string \<Rightarrow> users \<Rightarrow> users" where
  "cccam_user_manager_load_from_config lib mem now fs config_file st =
     (case fs config_file of
        None \<Rightarrow> st
      | Some content \<Rightarrow> loader_finish lib mem now (loader_run lib mem now content (loader_start st)))"

definition default_admin :: "ossl \<Rightarrow> (string \<Rightarrow> bool) \<Rightarrow> time_t \<Rightarrow> users \<Rightarrow> users" where
  "default_admin lib mem now st =
     (if um_count st = 0 then snd (add_user lib (mem ''admin'') now ''admin'' ''admin123'' LEVEL_ROOT 0 st) else st)"

definition cccam_user_manager_init ::
  "ossl \<Rightarrow> (string \<Rightarrow> bool) \<Rightarrow> time_t \<Rightarrow> file_system \<Rightarrow> users \<Rightarrow> users" where
  "cccam_user_manager_init lib mem now fs st =
     (if um_initialized st then st
      else default_admin lib mem now
        (cccam_user_manager_load_from_config lib mem now fs (um_users_file st)
          (st\<lparr>um_count := 0, um_next_id := 1, um_initialized := True\<rparr>)))"

definition cccam_user_manager_cleanup :: "users \<Rightarrow> users" where
  "cccam_user_manager_cleanup st = st\<lparr>um_users := [], um_count := 0, um_initialized := False\<rparr>"

definition cccam_user_manager_reload ::
  "ossl \<Rightarrow> (string \<Rightarrow> bool) \<Rightarrow> time_t \<Rightarrow> file_system \<Rightarrow> users \<Rightarrow> users" where
  "cccam_user_manager_reload lib mem now fs st =
     default_admin lib mem now
       (cccam_user_manager_load_from_config lib mem now fs (um_users_file st)
         (st\<lparr>um_users := [], um_count := 0, um_next_id := 1\<rparr>))"

subsection \<open>Automatic registration\<close>

definition valid_username :: "string \<Rightarrow> bool" where
  "valid_username username \<longleftrightarrow> username \<noteq> [] \<and>
     list_all (\<lambda>c. c_isalnum c \<or> c = CHR ''.'' \<or> c = CHR ''_'' \<or> c = CHR ''-'') username"

definition valid_password :: "string \<Rightarrow> bool" where
  "valid_password password \<longleftrightarrow> password \<noteq> [] \<and> list_all (\<lambda>c. c \<noteq> NL \<and> c \<noteq> CR) password"

text \<open>The text that \<open>fprintf\<close> appends.\<close>

definition user_section :: "string \<Rightarrow> string \<Rightarrow> string" where
  "user_section username password =
     [NL] @ ''['' @ username @ '']'' @ [NL] @ ''password = '' @ password @ [NL] @ ''level = 1'' @ [NL] @ ''max_hops = 2'' @ [NL]"

text \<open>\<open>writable\<close>: whether \<open>fopen(g_users_file, "a")\<close> succeeds; it creates a missing file.\<close>

definition cccam_user_manager_auto_register ::
  "ossl \<Rightarrow> bool \<Rightarrow> time_t \<Rightarrow> bool \<Rightarrow> string \<Rightarrow> string \<Rightarrow> users \<Rightarrow> file_system \<Rightarrow> int \<times> users \<times> file_system" where
  "cccam_user_manager_auto_register lib mem now writable username password st fs =
     (if \<not> valid_username username \<or> \<not> valid_password password then (-1, st, fs)
      else if length username \<ge> 64 \<or> length password \<ge> 128 then (-1, st, fs)
      else if find_user username st \<noteq> None then (-2, st, fs)
      else (case add_user lib mem now username password LEVEL_USER 2 st of (rc, st') \<Rightarrow>
        if rc \<noteq> 0 then (-1, st', fs)
        else (0, st',
          (if writable
           then fs(um_users_file st \<mapsto> (case fs (um_users_file st) of None \<Rightarrow> [] | Some c \<Rightarrow> c) @ user_section username password)
           else fs))))"

subsection \<open>Invariant\<close>

text \<open>
  The counter is the length of the list and at most 256, no two accounts share a name, names have 1
  to 63 characters and clear passwords 1 to 127, and the stored hash is that of a password whose
  first 127 characters are the stored clear password.
\<close>

definition user_ok :: "ossl \<Rightarrow> user \<Rightarrow> bool" where
  "user_ok lib u \<longleftrightarrow> us_username u \<noteq> [] \<and> length (us_username u) \<le> 63 \<and> us_password u \<noteq> [] \<and>
     (\<exists>p. us_password u = c_strncpy 128 p \<and> us_password_hash u = password_hash lib p)"

definition users_inv :: "ossl \<Rightarrow> users \<Rightarrow> bool" where
  "users_inv lib st \<longleftrightarrow> um_count st = int (length (um_users st)) \<and> um_count st \<le> 256 \<and>
     distinct (map us_username (um_users st)) \<and> (\<forall>u \<in> set (um_users st). user_ok lib u)"

lemma c_strncpy_id [simp]: "length s < n \<Longrightarrow> c_strncpy n s = s"
  by (simp add: c_strncpy_def)

lemma c_strncpy_length: "length (c_strncpy (Suc n) s) \<le> n"
  by (simp add: c_strncpy_def)

lemma c_strncpy_64_length [simp]: "length (c_strncpy 64 s) \<le> 63"
  by (simp add: c_strncpy_def)

lemma c_strncpy_Nil: "1 < n \<Longrightarrow> c_strncpy n s = [] \<longleftrightarrow> s = []"
  by (auto simp: c_strncpy_def)

lemma find_user_None: "find_user n st = None \<longleftrightarrow> n \<notin> us_username ` set (um_users st)"
  by (auto simp: find_user_def find_None_iff)

lemma find_user_Some: "find_user n st = Some u \<Longrightarrow> u \<in> set (um_users st) \<and> us_username u = n"
  by (auto simp: find_user_def find_Some_iff)

lemma add_user_inv:
  assumes "users_inv lib st" and "length username \<le> 63"
  shows "users_inv lib (snd (add_user lib mem now username password level max_hops st))"
  using assms by (auto simp: add_user_def users_inv_def find_user_None user_ok_def c_strncpy_Nil)

lemma update_user_inv:
  assumes "users_inv lib st" and "\<And>u. us_username (f u) = us_username u" "\<And>u. us_password (f u) = us_password u"
    "\<And>u. us_password_hash (f u) = us_password_hash u"
  shows "users_inv lib (update_user n f st)"
proof -
  have "u \<in> set (update_first P f us) \<Longrightarrow> u \<in> set us \<or> (\<exists>v \<in> set us. u = f v)" for u P us
    by (induction us) (auto split: if_splits)
  moreover have "user_ok lib (f u)" if "user_ok lib u" for u
    using that assms(2-4) by (simp add: user_ok_def)
  ultimately have "\<forall>u \<in> set (update_first P f (um_users st)). user_ok lib u" for P
    using assms(1) unfolding users_inv_def by blast
  with assms(1,2) show ?thesis
    by (simp add: users_inv_def update_user_def map_update_first)
qed

lemma remove_user_inv: "users_inv lib st \<Longrightarrow> users_inv lib (snd (cccam_user_manager_remove_user n st))"
  using set_remove_first [of "\<lambda>u. us_username u = n" "um_users st"]
  by (auto simp: users_inv_def cccam_user_manager_remove_user_def distinct_map_remove_first length_remove_first
      find_user_None of_nat_diff Suc_leI dest: length_pos_if_in_set)

lemma loader_line_inv:
  assumes "users_inv lib (ul_users ld)" and "length (ul_username ld) \<le> 63"
  shows "users_inv lib (ul_users (loader_line lib mem now line ld)) \<and> length (ul_username (loader_line lib mem now line ld)) \<le> 63"
  using assms add_user_inv [OF assms]
  by (auto simp: loader_line_def loader_add_def Let_def split: option.splits)

lemma loader_run_inv:
  assumes "users_inv lib (ul_users ld)" and "length (ul_username ld) \<le> 63"
  shows "users_inv lib (ul_users (loader_run lib mem now c ld)) \<and> length (ul_username (loader_run lib mem now c ld)) \<le> 63"
proof -
  have "users_inv lib (ul_users (fold (loader_line lib mem now) ls ld)) \<and>
    length (ul_username (fold (loader_line lib mem now) ls ld)) \<le> 63" for ls
    using assms by (induction ls arbitrary: ld) (auto dest: loader_line_inv)
  then show ?thesis by (simp add: loader_run_def)
qed

lemma load_inv:
  "users_inv lib st \<Longrightarrow> users_inv lib (cccam_user_manager_load_from_config lib mem now fs f st)"
  using loader_run_inv [of lib "loader_start st" mem now]
  by (auto simp: cccam_user_manager_load_from_config_def loader_finish_def loader_add_def loader_start_def
      intro: add_user_inv split: option.splits)

lemma default_admin_inv: "users_inv lib st \<Longrightarrow> users_inv lib (default_admin lib mem now st)"
  by (simp add: default_admin_def add_user_inv)

lemma reload_inv: "users_inv lib (cccam_user_manager_reload lib mem now fs st)"
  unfolding cccam_user_manager_reload_def
  by (intro default_admin_inv load_inv) (simp add: users_inv_def)

lemma init_inv: "um_users st = [] \<Longrightarrow> \<not> um_initialized st \<Longrightarrow> users_inv lib (cccam_user_manager_init lib mem now fs st)"
  unfolding cccam_user_manager_init_def
  by (simp, intro default_admin_inv load_inv) (simp add: users_inv_def)

subsection \<open>The accounts as a system of operations\<close>

datatype user_op =
    UAdd bool time_t string string int u8
  | URemove string
  | UAuthenticate time_t string string
  | USetLevel string int
  | USetMaxHops string u8
  | USetEnabled string u8
  | URegisterEcm string bool
  | UAutoRegister bool time_t bool string string file_system
  | UReload "string \<Rightarrow> bool" time_t file_system
  | URestart "string \<Rightarrow> bool" time_t file_system
  | USetConfigFile "string option"

fun user_exec :: "ossl \<Rightarrow> user_op \<Rightarrow> users \<Rightarrow> users" where
  "user_exec lib (UAdd mem now n p l h) st = snd (add_user lib mem now n p l h st)"
| "user_exec lib (URemove n) st = snd (cccam_user_manager_remove_user n st)"
| "user_exec lib (UAuthenticate now n p) st = snd (cccam_user_manager_authenticate lib now n p st)"
| "user_exec lib (USetLevel n l) st = snd (cccam_user_manager_set_level n l st)"
| "user_exec lib (USetMaxHops n h) st = snd (cccam_user_manager_set_max_hops n h st)"
| "user_exec lib (USetEnabled n e) st = snd (cccam_user_manager_set_enabled n e st)"
| "user_exec lib (URegisterEcm n s) st = cccam_user_manager_register_ecm n s st"
| "user_exec lib (UAutoRegister mem now w n p fs) st = fst (snd (cccam_user_manager_auto_register lib mem now w n p st fs))"
| "user_exec lib (UReload mem now fs) st = cccam_user_manager_reload lib mem now fs st"
| "user_exec lib (URestart mem now fs) st = cccam_user_manager_init lib mem now fs (cccam_user_manager_cleanup st)"
| "user_exec lib (USetConfigFile p) st = cccam_user_manager_set_config_file p st"

text \<open>Only \<open>cccam_user_manager_add_user\<close> takes names it does not bound by 63 characters.\<close>

fun short_name :: "user_op \<Rightarrow> bool" where
  "short_name (UAdd mem now n p l h) \<longleftrightarrow> length n \<le> 63"
| "short_name _ \<longleftrightarrow> True"

definition user_guarded :: "ossl \<Rightarrow> user_op \<Rightarrow> users \<Rightarrow> users" where
  "user_guarded lib x st = (if short_name x then user_exec lib x st else st)"

lemma user_exec_inv:
  assumes "users_inv lib st" and "short_name x"
  shows "users_inv lib (user_exec lib x st)"
proof (cases x)
  case (UAuthenticate now n p)
  with assms(1) show ?thesis
    by (auto simp: cccam_user_manager_authenticate_def intro: update_user_inv split: option.splits)
next
  case (UAutoRegister mem now w n p fs)
  with add_user_inv [OF assms(1), of n mem now p LEVEL_USER 2] assms(1) show ?thesis
    by (auto simp: cccam_user_manager_auto_register_def split: prod.splits)
next
  case (URestart mem now fs)
  then show ?thesis by (simp add: init_inv cccam_user_manager_cleanup_def)
next
  case (USetConfigFile p)
  with assms show ?thesis by (auto simp: cccam_user_manager_set_config_file_def users_inv_def split: option.splits)
qed (use assms in \<open>auto intro: add_user_inv remove_user_inv update_user_inv reload_inv
    simp: cccam_user_manager_set_level_def cccam_user_manager_set_max_hops_def
      cccam_user_manager_set_enabled_def cccam_user_manager_register_ecm_def\<close>)

interpretation user_sys: total_system "cccam_user_manager_init lib mem now fs users_initial" "user_guarded lib" "users_inv lib"
  for lib mem now fs
proof
  show "users_inv lib (cccam_user_manager_init lib mem now fs users_initial)"
    by (rule init_inv) (simp_all add: users_initial_def)
next
  fix st x assume "users_inv lib st"
  then show "users_inv lib (user_guarded lib x st)"
    by (simp add: user_guarded_def user_exec_inv)
qed

lemma fold_user_guarded: "list_all short_name ops \<Longrightarrow> fold (user_guarded lib) ops st = fold (user_exec lib) ops st"
  by (induction ops arbitrary: st) (auto simp: user_guarded_def)

subsection \<open>Appending a section to the users file\<close>

lemma loader_line_NL: "NL \<notin> set l \<Longrightarrow> loader_line lib mem now (l @ [NL]) ld = loader_line lib mem now l ld"
proof -
  assume nl: "NL \<notin> set l"
  show ?thesis
  proof (cases "NUL \<in> set l")
    case True
    then have "c_line (l @ [NL]) = c_line l"
      by (simp add: c_line_def takeWhile_append1)
    then show ?thesis by (simp add: loader_line_def)
  next
    case False
    then have line: "c_line (l @ [NL]) = l @ [NL]" "c_line l = l"
      by (auto simp: c_line_def takeWhile_eq_all_conv)
    show ?thesis
    proof (cases "skip_space l = []")
      case True
      then have "skip_space (l @ [NL]) = []" by (simp add: skip_space_def dropWhile_eq_Nil_conv)
      with True show ?thesis by (simp add: loader_line_def line)
    next
      case False
      then have s: "skip_space (l @ [NL]) = skip_space l @ [NL]"
        by (auto simp: skip_space_def dropWhile_append)
      have "NL \<notin> set (skip_space l)"
        using nl set_dropWhileD by (fastforce simp: skip_space_def)
      then have "cut_at NL (skip_space l @ [NL]) = cut_at NL (skip_space l)"
        using cut_at_append [of NL "skip_space l" "[]"] by (simp add: cut_at_none)
      with False show ?thesis by (simp add: loader_line_def line s)
    qed
  qed
qed

lemma loader_blank: "loader_line lib mem now [NL] ld = ld"
  by (simp add: loader_line_def c_line_def skip_space_def)

lemma loader_run_NL: "loader_run lib mem now (c @ [NL]) ld = loader_run lib mem now c ld"
  using fgets_lines_NL [of 254 c] by (auto simp: loader_run_def loader_blank loader_line_NL)

lemma loader_run_append_NL: "loader_run lib mem now (c @ NL # b) ld = loader_run lib mem now b (loader_run lib mem now c ld)"
  using loader_run_NL [of lib mem now c ld] unfolding loader_run_def fgets_lines_append [of 254 c b] by simp

lemma loader_run_line:
  "NL \<notin> set a \<Longrightarrow> length a \<le> 254 \<Longrightarrow>
   loader_run lib mem now (a @ NL # b) ld = loader_run lib mem now b (loader_line lib mem now a ld)"
  by (simp add: loader_run_def fgets_line loader_line_NL)

text \<open>Without a section open, the section variables have their defaults.\<close>

definition loader_wf :: "user_loader \<Rightarrow> bool" where
  "loader_wf ld \<longleftrightarrow> (ul_username ld = [] \<longrightarrow> ul_password ld = [] \<and> ul_level ld = 1 \<and> ul_max_hops ld = 2)"

lemma loader_line_wf: "loader_wf ld \<Longrightarrow> loader_wf (loader_line lib mem now l ld)"
  by (auto simp: loader_line_def loader_add_def loader_wf_def Let_def split: option.splits)

lemma loader_run_wf: "loader_wf (loader_run lib mem now c (loader_start st))"
proof -
  have "loader_wf ld \<Longrightarrow> loader_wf (fold (loader_line lib mem now) ls ld)" for ls ld
    by (induction ls arbitrary: ld) (auto intro: loader_line_wf)
  moreover have "loader_wf (loader_start st)" by (simp add: loader_wf_def loader_start_def)
  ultimately show ?thesis by (simp add: loader_run_def)
qed

lemma c_line_id: "NUL \<notin> set s \<Longrightarrow> c_line s = s"
  unfolding c_line_def by (induction s) auto

lemma loader_header:
  assumes "loader_wf ld" and u: "valid_username u" "length u \<le> 63"
  shows "loader_line lib mem now (''['' @ u @ '']'') ld
    = \<lparr>ul_username = u, ul_password = [], ul_level = 1, ul_max_hops = 2, ul_users = loader_finish lib mem now ld\<rparr>"
proof -
  have chars: "\<forall>c \<in> set u. c_isalnum c \<or> c = CHR ''.'' \<or> c = CHR ''_'' \<or> c = CHR ''-''"
    using u(1) by (simp add: valid_username_def list_all_iff)
  then have no: "NUL \<notin> set u" "NL \<notin> set u" "CHR '']'' \<notin> set u"
    by (auto simp: c_isalnum_def c_isdigit_def char_code_def)
  have p: "skip_space (c_line (CHR ''['' # u @ '']'')) = CHR ''['' # u @ '']''"
    using no(1) by (simp add: c_line_id skip_space_def c_isspace_def char_code_def)
  have cut: "cut_at NL (CHR ''['' # u @ '']'') = CHR ''['' # u @ '']''"
    using no(2) by (intro cut_at_none) auto
  have after: "after_char (CHR '']'') (CHR ''['' # u @ '']'') = Some []" "cut_at (CHR '']'') (CHR ''['' # u @ '']'') = CHR ''['' # u"
    using no(3) after_char_append [of "CHR '']''" "''['' @ u" "[]"] cut_at_append [of "CHR '']''" "''['' @ u" "[]"] by simp_all
  have flush: "ul_password ld = [] \<Longrightarrow> ul_users (loader_add lib mem now ld) = ul_users ld"
    by (simp add: loader_add_def add_user_def)
  have "loader_line lib mem now (CHR ''['' # u @ '']'') ld
    = (if ul_username ld \<noteq> [] then (loader_add lib mem now ld)\<lparr>ul_username := [], ul_password := [], ul_level := 1, ul_max_hops := 2\<rparr>
       else ld)\<lparr>ul_username := u\<rparr>"
    using u(2) unfolding loader_line_def Let_def p cut after by simp
  then show ?thesis
    using assms(1) flush by (simp add: loader_wf_def loader_finish_def)
qed

lemma loader_password:
  assumes "ul_username ld \<noteq> []" and p: "p \<noteq> []" "NUL \<notin> set p" "NL \<notin> set p" "\<not> c_isspace (hd p)" "\<not> c_isspace (last p)"
  shows "loader_line lib mem now (''password = '' @ p) ld = ld\<lparr>ul_password := c_strncpy 64 p\<rparr>"
proof -
  have l: "skip_space (c_line (''password = '' @ p)) = ''password = '' @ p"
    using p(2) by (simp add: c_line_id skip_space_def c_isspace_def char_code_def)
  have cut: "cut_at NL (''password = '' @ p) = ''password = '' @ p"
    using p(3) by (intro cut_at_none) auto
  have after: "after_char (CHR ''='') (''password = '' @ p) = Some ('' '' @ p)"
    and key: "cut_at (CHR ''='') (''password = '' @ p) = ''password ''"
    by (simp_all add: cut_at_def)
  have "trim_end (skip_space ''password '') = ''password''" by code_simp
  moreover have "skip_space ('' '' @ p) = skip_space p"
    by (simp add: skip_space_def c_isspace_def char_code_def)
  then have "trim_end (skip_space ('' '' @ p)) = p"
    using p by (simp add: skip_space_trimmed trim_end_trimmed)
  ultimately show ?thesis
    using assms(1) by (simp add: loader_line_def l cut after key Let_def del: append_Cons append_Nil)
qed

lemma loader_level_hops:
  assumes "ul_username ld \<noteq> []"
  shows "loader_line lib mem now ''level = 1'' ld = ld\<lparr>ul_level := 1\<rparr>"
    and "loader_line lib mem now ''max_hops = 2'' ld = ld\<lparr>ul_max_hops := 2\<rparr>"
proof -
  have "c_atoi ''1'' = 1" "c_atoi ''2'' = 2" by code_simp+
  moreover have "skip_space (c_line ''level = 1'') = ''level = 1''" "cut_at NL ''level = 1'' = ''level = 1''"
    "after_char (CHR ''='') ''level = 1'' = Some '' 1''" "trim_end (skip_space (cut_at (CHR ''='') ''level = 1'')) = ''level''"
    "trim_end (skip_space '' 1'') = ''1''" by code_simp+
  moreover have "skip_space (c_line ''max_hops = 2'') = ''max_hops = 2''" "cut_at NL ''max_hops = 2'' = ''max_hops = 2''"
    "after_char (CHR ''='') ''max_hops = 2'' = Some '' 2''" "trim_end (skip_space (cut_at (CHR ''='') ''max_hops = 2'')) = ''max_hops''"
    "trim_end (skip_space '' 2'') = ''2''" by code_simp+
  ultimately show "loader_line lib mem now ''level = 1'' ld = ld\<lparr>ul_level := 1\<rparr>"
    "loader_line lib mem now ''max_hops = 2'' ld = ld\<lparr>ul_max_hops := 2\<rparr>"
    using assms by (simp_all add: loader_line_def Let_def)
qed

text \<open>
  Loading a file with a section appended is loading the file and then adding that user, with the
  password cut to the 63 characters of the reader's buffer.
\<close>

lemma load_append_section:
  assumes u: "valid_username u" "length u \<le> 63"
    and p: "valid_password p" "length p \<le> 127" "no_nul p" "\<not> c_isspace (hd p)" "\<not> c_isspace (last p)"
  shows "loader_finish lib mem now (loader_run lib mem now (c @ user_section u p) (loader_start st))
    = snd (add_user lib (mem u) now u (c_strncpy 64 p) 1 2 (loader_finish lib mem now (loader_run lib mem now c (loader_start st))))"
proof -
  let ?ld = "loader_run lib mem now c (loader_start st)"
  have "\<forall>c \<in> set u. c \<noteq> NL"
    using u(1) by (auto simp: valid_username_def list_all_iff c_isalnum_def c_isdigit_def char_code_def)
  then have nl: "NL \<notin> set (''['' @ u @ '']'')" by auto
  have pw: "p \<noteq> []" "NL \<notin> set p" "NUL \<notin> set p"
    using p by (auto simp: valid_password_def list_all_iff no_nul_def)
  have une: "u \<noteq> []" using u(1) by (simp add: valid_username_def)
  have split: "c @ user_section u p
    = c @ NL # ((''['' @ u @ '']'') @ NL # ((''password = '' @ p) @ NL # (''level = 1'' @ NL # (''max_hops = 2'' @ NL # []))))"
    by (simp add: user_section_def)
  have "loader_run lib mem now (c @ user_section u p) (loader_start st)
    = \<lparr>ul_username = u, ul_password = c_strncpy 64 p, ul_level = 1, ul_max_hops = 2, ul_users = loader_finish lib mem now ?ld\<rparr>"
  proof -
    have "loader_run lib mem now (c @ user_section u p) (loader_start st)
      = loader_run lib mem now ((''password = '' @ p) @ NL # (''level = 1'' @ NL # (''max_hops = 2'' @ NL # [])))
          \<lparr>ul_username = u, ul_password = [], ul_level = 1, ul_max_hops = 2, ul_users = loader_finish lib mem now ?ld\<rparr>"
      unfolding split
      by (subst loader_run_append_NL [of lib mem now c], subst loader_run_line [OF nl]) (use u loader_header [OF loader_run_wf u] in simp_all)
    also have "\<dots> = loader_run lib mem now (''level = 1'' @ NL # (''max_hops = 2'' @ NL # []))
        \<lparr>ul_username = u, ul_password = c_strncpy 64 p, ul_level = 1, ul_max_hops = 2, ul_users = loader_finish lib mem now ?ld\<rparr>"
      by (subst loader_run_line) (use pw p une in \<open>simp_all add: loader_password del: append_Cons\<close>)
    also have "\<dots> = loader_run lib mem now (''max_hops = 2'' @ NL # [])
        \<lparr>ul_username = u, ul_password = c_strncpy 64 p, ul_level = 1, ul_max_hops = 2, ul_users = loader_finish lib mem now ?ld\<rparr>"
      by (subst loader_run_line) (simp_all add: loader_level_hops une)
    also have "\<dots> = \<lparr>ul_username = u, ul_password = c_strncpy 64 p, ul_level = 1, ul_max_hops = 2,
        ul_users = loader_finish lib mem now ?ld\<rparr>"
      by (subst loader_run_line) (simp_all add: loader_level_hops une loader_run_def)
    finally show ?thesis .
  qed
  then show ?thesis
    using une pw(1) by (simp add: loader_finish_def loader_add_def c_strncpy_Nil)
qed

subsection \<open>Properties\<close>

text \<open>
  C38: from initialisation with any users file, every sequence of account operations (additions,
  removals, logins, changes, automatic registrations, reloads and restarts with any files, failing
  allocations included) keeps the counter equal to the length of the list and at most 256, the names
  pairwise different, and the stored hashes and clear passwords consistent, as long as names given to
  \<open>cccam_user_manager_add_user\<close> have at most 63 characters.
\<close>

theorem users_run_inv:
  assumes "list_all short_name ops"
  shows "let st = fold (user_exec lib) ops (cccam_user_manager_init lib mem now fs users_initial) in
    um_count st = int (length (um_users st)) \<and> um_count st \<le> 256 \<and> distinct (map us_username (um_users st)) \<and>
    (\<forall>u \<in> set (um_users st). \<exists>p. us_password u = c_strncpy 128 p \<and> us_password_hash u = password_hash lib p)"
  using user_sys.invar_fold [OF user_sys.invar_start [where lib = lib and mem = mem and now = now and fs = fs], of ops]
    fold_user_guarded [OF assms]
  by (auto simp: users_inv_def user_ok_def Let_def)

theorem users_run_inv_witness:
  "let st = fold (user_exec toy_ossl) [UAdd True 5 ''joe'' ''pw'' 1 2, UAdd True 6 ''joe'' ''px'' 1 2, URemove ''admin'']
     (cccam_user_manager_init toy_ossl (\<lambda>_. True) 1 (\<lambda>_. None) users_initial) in
   um_count st = int (length (um_users st)) \<and> um_count st \<le> 256"
  using users_run_inv [of "[UAdd True 5 ''joe'' ''pw'' 1 2, UAdd True 6 ''joe'' ''px'' 1 2, URemove ''admin'']" toy_ossl "\<lambda>_. True" 1 "\<lambda>_. None"]
  unfolding Let_def by simp

text \<open>
  Authentication. The result is 0 exactly for an existing, enabled account whose stored hash is
  that of the password; a missing account gives -1, a disabled one -2 whatever the password, a wrong
  password -3. A failure changes nothing; a success changes only that account's login time and count.
\<close>

theorem authenticate_result:
  "cccam_user_manager_authenticate lib now username password st =
    (case find_user username st of
       None \<Rightarrow> (-1, st)
     | Some u \<Rightarrow> if us_enabled u = 0 then (-2, st) else if us_password_hash u \<noteq> password_hash lib password then (-3, st)
         else (0, snd (cccam_user_manager_authenticate lib now username password st))) \<and>
   map_option (\<lambda>u. u\<lparr>us_last_login := 0, us_login_count := 0\<rparr>)
      (find_user name (snd (cccam_user_manager_authenticate lib now username password st)))
     = map_option (\<lambda>u. u\<lparr>us_last_login := 0, us_login_count := 0\<rparr>) (find_user name st) \<and>
   map_option us_login_count (find_user username (snd (cccam_user_manager_authenticate lib now username password st)))
     = map_option (\<lambda>u. us_login_count u + (if fst (cccam_user_manager_authenticate lib now username password st) = 0 then 1 else 0))
         (find_user username st)"
proof -
  have upd: "find_user name (update_user username f st)
    = (if name = username then map_option f (find_user name st) else find_user name st)"
    if "\<And>u. us_username (f u) = us_username u" for f name
    using that find_update_first_other [of "\<lambda>u. us_username u = name" "\<lambda>u. us_username u = username" f "um_users st"]
    by (auto simp: find_user_def update_user_def find_update_first_same)
  show ?thesis
    by (auto simp: cccam_user_manager_authenticate_def upd option.map_comp o_def split: option.splits)
qed

text \<open>
  A registered account survives a reload. After a successful automatic registration whose section
  could be appended to the users file, reloading the file (which may hold any text before) and
  logging in with the same name and password succeeds when the password has at most 63 characters; a
  longer one is cut to 63 by the reader's buffer, so its login then fails unless the hashes collide.
  The password must not begin or end with white space, which the reader trims.
\<close>

theorem auto_register_reload:
  assumes reg: "cccam_user_manager_auto_register lib mem now True u p st fs = (0, st', fs')"
    and p: "no_nul p" "\<not> c_isspace (hd p)" "\<not> c_isspace (last p)"
    and old: "old = cccam_user_manager_load_from_config lib mem' now' fs (um_users_file st)
                (st\<lparr>um_users := [], um_count := 0, um_next_id := 1\<rparr>)"
    and room: "find_user u old = None" "um_count old < 256" and "mem' u"
  shows "fst (cccam_user_manager_authenticate lib now'' u p (cccam_user_manager_reload lib mem' now' fs' st'))
    = (if length p \<le> 63 \<or> password_hash lib (take 63 p) = password_hash lib p then 0 else -3)"
proof -
  let ?f = "um_users_file st" and ?c = "case fs (um_users_file st) of None \<Rightarrow> [] | Some c \<Rightarrow> c"
  let ?base = "st\<lparr>um_users := [], um_count := 0, um_next_id := 1\<rparr>"
  from reg have u: "valid_username u" "length u \<le> 63" and pw: "valid_password p" "length p \<le> 127"
    and fs': "fs' = fs(?f \<mapsto> ?c @ user_section u p)"
    and st': "um_users_file st' = ?f" "st'\<lparr>um_users := [], um_count := 0, um_next_id := 1\<rparr> = ?base"
    by (auto simp: cccam_user_manager_auto_register_def add_user_def split: if_splits prod.splits)
  have old_eq: "old = loader_finish lib mem' now' (loader_run lib mem' now' ?c (loader_start ?base))"
    by (cases "fs ?f") (simp_all add: old cccam_user_manager_load_from_config_def loader_run_def
        loader_start_def loader_finish_def)
  have load: "cccam_user_manager_load_from_config lib mem' now' fs' (um_users_file st')
      (st'\<lparr>um_users := [], um_count := 0, um_next_id := 1\<rparr>)
    = snd (add_user lib (mem' u) now' u (c_strncpy 64 p) 1 2 old)"
    unfolding st' old_eq
    using load_append_section [OF u pw p, of lib mem' now' ?c ?base]
    by (simp add: cccam_user_manager_load_from_config_def fs')
  have "users_inv lib old" unfolding old by (rule load_inv) (simp add: users_inv_def)
  then have "0 \<le> um_count old" by (simp add: users_inv_def)
  moreover have ne: "u \<noteq> []" "c_strncpy 64 p \<noteq> []"
    using u pw by (auto simp: valid_username_def valid_password_def c_strncpy_Nil)
  ultimately have "cccam_user_manager_reload lib mem' now' fs' st' = snd (add_user lib True now' u (c_strncpy 64 p) 1 2 old)"
    using room \<open>mem' u\<close> by (simp add: cccam_user_manager_reload_def load default_admin_def add_user_def)
  then have "find_user u (cccam_user_manager_reload lib mem' now' fs' st') \<noteq> None"
    and "\<And>v. find_user u (cccam_user_manager_reload lib mem' now' fs' st') = Some v \<Longrightarrow>
      us_enabled v = 1 \<and> us_password_hash v = password_hash lib (c_strncpy 64 p)"
    using ne room u by (simp_all add: add_user_def) (auto simp: find_user_def)
  then show ?thesis
    by (auto simp: cccam_user_manager_authenticate_def c_strncpy_def split: option.splits)
qed

theorem auto_register_reload_witness:
  "\<exists>st' fs'. cccam_user_manager_auto_register toy_ossl True 5 True ''joe'' ''secret'' users_initial (\<lambda>_. None) = (0, st', fs') \<and>
    fst (cccam_user_manager_authenticate toy_ossl 9 ''joe'' ''secret''
      (cccam_user_manager_reload toy_ossl (\<lambda>_. True) 7 fs' st')) = 0"
proof -
  obtain st' fs' where reg: "cccam_user_manager_auto_register toy_ossl True 5 True ''joe'' ''secret'' users_initial (\<lambda>_. None) = (0, st', fs')"
    by (simp add: cccam_user_manager_auto_register_def valid_username_def valid_password_def c_isalnum_def
        c_isdigit_def char_code_def add_user_def find_user_def users_initial_def)
  have "fst (cccam_user_manager_authenticate toy_ossl 9 ''joe'' ''secret''
      (cccam_user_manager_reload toy_ossl (\<lambda>_. True) 7 fs' st'))
    = (if length ''secret'' \<le> 63 \<or> password_hash toy_ossl (take 63 ''secret'') = password_hash toy_ossl ''secret'' then 0 else -3)"
    by (rule auto_register_reload [OF reg _ _ _ refl])
      (simp_all add: no_nul_def c_isspace_def char_code_def cccam_user_manager_load_from_config_def find_user_def)
  with reg show ?thesis by simp
qed

text \<open>
  An account name of 64 or more characters can be added again and again: it is stored cut to 63
  characters but looked up uncut, so the second addition does not see the first one and both records
  carry the same name.
\<close>

theorem long_name_duplicates:
  assumes "64 \<le> length n" and "p \<noteq> []" and "um_count st < 255" and "find_user n st = None"
  shows "\<exists>st1 st2. add_user lib True now n p l h st = (0, st1) \<and> add_user lib True now n p l h st1 = (0, st2) \<and>
    map us_username (take 2 (um_users st2)) = [take 63 n, take 63 n] \<and> find_user n st2 = None"
proof -
  have "take 63 n \<noteq> n" using assms(1) by (auto dest: arg_cong [where f = length])
  with assms show ?thesis by (auto simp: add_user_def find_user_def c_strncpy_def)
qed

theorem long_name_duplicates_witness:
  "\<exists>st1 st2. add_user toy_ossl True 1 (replicate 70 CHR ''a'') ''pw'' 1 2 users_initial = (0, st1) \<and>
     add_user toy_ossl True 1 (replicate 70 CHR ''a'') ''pw'' 1 2 st1 = (0, st2) \<and>
     find_user (replicate 70 CHR ''a'') st2 = None"
  using long_name_duplicates [of "replicate 70 CHR ''a''" "''pw''" users_initial toy_ossl 1 1 2]
  by (auto simp: users_initial_def find_user_def)

end
