(* ===== verification/Client_Pool.thy ===== *)
theory Client_Pool
  imports Protocol "HOL-Library.Multiset"
begin

text \<open>
  The pool of connected clients, \<open>src/core/cccam3_client.c\<close>: 100 slots of pointers and records with
  reference counts. The store is explicit: an address is a number, \<open>pl_heap\<close> maps the allocated
  addresses to records, and an operation on an address that is not allocated is \<open>None\<close> (a use after
  free). Each operation runs under the pool mutex, so one operation is one step; \<open>pool_step\<close> adds the
  discipline of the callers in \<open>src/core/cccam3_server.c\<close> and \<open>cccam3_ecm.c\<close> as ghost state: which
  clients still have an owner that may destroy them, and which references are held.
\<close>

subsection \<open>State\<close>

record client =
  cl_socket_fd :: int
  cl_client_id :: u32
  cl_username :: string
  cl_version :: u32
  cl_crypt_mode :: u8
  cl_last_keepalive :: time_t
  cl_connected_at :: time_t
  cl_is_authenticated :: bool
  cl_hop_count :: int
  cl_is_newcamd :: bool
  cl_to_kick :: bool
  cl_refs :: int
  cl_zombie :: bool
  cl_ecm_window_start :: time_t
  cl_ecm_window_count :: int
  cl_ecm_total :: u32
  cl_ecm_ok :: u32
  cl_cur_caid :: u16
  cl_cur_sid :: u16
  cl_cur_channel_at :: time_t
  cl_addr :: u32
  cl_crypto :: crypto_ctx

record pool =
  pl_slots :: "nat option list"
  pl_count :: int
  pl_heap :: "nat \<Rightarrow> client option"

definition MAX_CLIENTS :: nat where "MAX_CLIENTS = 100"

definition pool_initial :: pool where
  "pool_initial = \<lparr>pl_slots = replicate MAX_CLIENTS None, pl_count = 0, pl_heap = (\<lambda>_. None)\<rparr>"

subsection \<open>Operations\<close>

text \<open>\<open>calloc\<close>, then the fields that \<open>cccam_client_create\<close> sets; \<open>a\<close> is the address \<open>calloc\<close> returned.\<close>

definition new_client :: "time_t \<Rightarrow> int \<Rightarrow> u32 \<Rightarrow> nat \<Rightarrow> client" where
  "new_client now fd addr a = \<lparr>cl_socket_fd = fd, cl_client_id = word_of_int now XOR of_nat a,
     cl_username = [], cl_version = 0, cl_crypt_mode = 0, cl_last_keepalive = now, cl_connected_at = now,
     cl_is_authenticated = False, cl_hop_count = 1, cl_is_newcamd = False, cl_to_kick = False, cl_refs = 1,
     cl_zombie = False, cl_ecm_window_start = 0, cl_ecm_window_count = 0, cl_ecm_total = 0, cl_ecm_ok = 0,
     cl_cur_caid = 0, cl_cur_sid = 0, cl_cur_channel_at = 0, cl_addr = addr, cl_crypto = cccam_protocol_reset_crypto\<rparr>"

definition cccam_client_create :: "bool \<Rightarrow> nat \<Rightarrow> time_t \<Rightarrow> int \<Rightarrow> u32 \<Rightarrow> pool \<Rightarrow> nat option \<times> pool" where
  "cccam_client_create mem a now fd addr st =
     (if pl_count st \<ge> int MAX_CLIENTS then (None, st)
      else if \<not> mem then (None, st)
      else (case find_idx (\<lambda>s. s = None) (pl_slots st) of
          None \<Rightarrow> (None, st)
        | Some i \<Rightarrow> (Some a, st\<lparr>pl_slots := (pl_slots st)[i := Some a], pl_count := pl_count st + 1,
            pl_heap := (pl_heap st)(a \<mapsto> new_client now fd addr a)\<rparr>)))"

definition cccam_client_destroy :: "nat \<Rightarrow> pool \<Rightarrow> pool option" where
  "cccam_client_destroy a st =
     (case pl_heap st a of
        None \<Rightarrow> None
      | Some c \<Rightarrow>
          let c' = c\<lparr>cl_zombie := True, cl_refs := cl_refs c - 1\<rparr>;
              st1 = (case find_idx (\<lambda>s. s = Some a) (pl_slots st) of
                       None \<Rightarrow> st
                     | Some i \<Rightarrow> st\<lparr>pl_slots := (pl_slots st)[i := None], pl_count := pl_count st - 1\<rparr>) in
          Some (st1\<lparr>pl_heap := (pl_heap st1)(a := (if cl_refs c' = 0 then None else Some c'))\<rparr>))"

text \<open>\<open>pool_acquire_locked\<close>: the result says whether a reference was taken.\<close>

definition pool_acquire_locked :: "nat \<Rightarrow> pool \<Rightarrow> (bool \<times> pool) option" where
  "pool_acquire_locked a st =
     (case pl_heap st a of
        None \<Rightarrow> None
      | Some c \<Rightarrow> if \<not> cl_zombie c
          then Some (True, st\<lparr>pl_heap := (pl_heap st)(a \<mapsto> c\<lparr>cl_refs := cl_refs c + 1\<rparr>)\<rparr>)
          else Some (False, st))"

definition cccam_client_ref :: "nat \<Rightarrow> pool \<Rightarrow> (bool \<times> pool) option" where
  "cccam_client_ref a st = pool_acquire_locked a st"

definition cccam_client_unref :: "nat \<Rightarrow> pool \<Rightarrow> pool option" where
  "cccam_client_unref a st =
     (case pl_heap st a of
        None \<Rightarrow> None
      | Some c \<Rightarrow>
          let c' = (if cl_refs c > 0 then c\<lparr>cl_refs := cl_refs c - 1\<rparr> else c) in
          Some (st\<lparr>pl_heap := (pl_heap st)(a := (if cl_refs c' = 0 \<and> cl_zombie c' then None else Some c'))\<rparr>))"

text \<open>The slot scans read each occupied slot's record: a dangling slot is \<open>None\<close>.\<close>

fun scan_slots :: "(client \<Rightarrow> bool) \<Rightarrow> (nat \<Rightarrow> client option) \<Rightarrow> nat option list \<Rightarrow> nat option option" where
  "scan_slots P heap [] = Some None"
| "scan_slots P heap (None # ss) = scan_slots P heap ss"
| "scan_slots P heap (Some a # ss) =
     (case heap a of None \<Rightarrow> None | Some c \<Rightarrow> if P c then Some (Some a) else scan_slots P heap ss)"

definition cccam_client_find_by_socket :: "int \<Rightarrow> pool \<Rightarrow> nat option option" where
  "cccam_client_find_by_socket fd st = scan_slots (\<lambda>c. cl_socket_fd c = fd) (pl_heap st) (pl_slots st)"

definition cccam_client_find_by_id :: "u32 \<Rightarrow> pool \<Rightarrow> (nat option \<times> pool) option" where
  "cccam_client_find_by_id i st =
     (case scan_slots (\<lambda>c. cl_client_id c = i) (pl_heap st) (pl_slots st) of
        None \<Rightarrow> None
      | Some None \<Rightarrow> Some (None, st)
      | Some (Some a) \<Rightarrow>
          (case pool_acquire_locked a st of None \<Rightarrow> None
           | Some (ok, st') \<Rightarrow> Some (if ok then Some a else None, st')))"

definition cccam_client_get_by_index :: "int \<Rightarrow> pool \<Rightarrow> nat option" where
  "cccam_client_get_by_index index st =
     (if index < 0 \<or> index \<ge> int MAX_CLIENTS then None else pl_slots st ! nat index)"

definition cccam_client_get_by_index_ref :: "int \<Rightarrow> pool \<Rightarrow> (nat option \<times> pool) option" where
  "cccam_client_get_by_index_ref index st =
     (if index < 0 \<or> index \<ge> int MAX_CLIENTS then Some (None, st)
      else (case pl_slots st ! nat index of
          None \<Rightarrow> Some (None, st)
        | Some a \<Rightarrow> (case pool_acquire_locked a st of None \<Rightarrow> None
            | Some (ok, st') \<Rightarrow> Some (if ok then Some a else None, st'))))"

definition cccam_client_get_count :: "pool \<Rightarrow> int" where
  "cccam_client_get_count st = pl_count st"

definition update_client :: "nat \<Rightarrow> (client \<Rightarrow> client) \<Rightarrow> pool \<Rightarrow> pool option" where
  "update_client a f st =
     (case pl_heap st a of None \<Rightarrow> None | Some c \<Rightarrow> Some (st\<lparr>pl_heap := (pl_heap st)(a \<mapsto> f c)\<rparr>))"

definition cccam_client_authenticate :: "nat \<Rightarrow> pool \<Rightarrow> pool option" where
  "cccam_client_authenticate a st = update_client a (\<lambda>c. c\<lparr>cl_is_authenticated := True\<rparr>) st"

definition cccam_client_set_hop :: "nat \<Rightarrow> u8 \<Rightarrow> pool \<Rightarrow> pool option" where
  "cccam_client_set_hop a hop st = update_client a (\<lambda>c. c\<lparr>cl_hop_count := uint hop\<rparr>) st"

definition cccam_client_update_keepalive :: "nat \<Rightarrow> time_t \<Rightarrow> pool \<Rightarrow> pool option" where
  "cccam_client_update_keepalive a now st = update_client a (\<lambda>c. c\<lparr>cl_last_keepalive := now\<rparr>) st"

definition cccam_client_is_timeout :: "nat \<Rightarrow> time_t \<Rightarrow> int \<Rightarrow> pool \<Rightarrow> bool option" where
  "cccam_client_is_timeout a now timeout_seconds st =
     map_option (\<lambda>c. now - cl_last_keepalive c > timeout_seconds) (pl_heap st a)"

text \<open>
  \<open>cccam_client_close_all\<close> marks every client, joins their threads (which meanwhile drop their
  references) and frees. The marking and the freeing are the two loops around the join.
\<close>

fun mark_slots :: "nat option list \<Rightarrow> (nat \<Rightarrow> client option) \<Rightarrow> (nat \<Rightarrow> client option) option" where
  "mark_slots [] heap = Some heap"
| "mark_slots (None # ss) heap = mark_slots ss heap"
| "mark_slots (Some a # ss) heap =
     (case heap a of None \<Rightarrow> None | Some c \<Rightarrow> mark_slots ss (heap(a \<mapsto> c\<lparr>cl_zombie := True\<rparr>)))"

fun free_slots :: "nat option list \<Rightarrow> (nat \<Rightarrow> client option) \<Rightarrow> (nat \<Rightarrow> client option) option" where
  "free_slots [] heap = Some heap"
| "free_slots (None # ss) heap = free_slots ss heap"
| "free_slots (Some a # ss) heap =
     (case heap a of None \<Rightarrow> None
      | Some c \<Rightarrow>
          let c' = (if cl_refs c > 0 then c\<lparr>cl_refs := cl_refs c - 1\<rparr> else c) in
          free_slots ss (heap(a := (if cl_refs c' = 0 then None else Some c'))))"

definition close_all_mark :: "pool \<Rightarrow> pool option" where
  "close_all_mark st = map_option (\<lambda>h. st\<lparr>pl_heap := h\<rparr>) (mark_slots (pl_slots st) (pl_heap st))"

definition close_all_free :: "pool \<Rightarrow> pool option" where
  "close_all_free st = map_option (\<lambda>h. \<lparr>pl_slots = map (\<lambda>_. None) (pl_slots st), pl_count = 0, pl_heap = h\<rparr>)
     (free_slots (pl_slots st) (pl_heap st))"

subsection \<open>The callers' discipline\<close>

record pool_world =
  pw_pool :: pool
  pw_owners :: "nat set"
  pw_held :: "nat multiset"

text \<open>
  The main loop creates a client; its thread (or the main loop when the thread cannot start) is its
  owner and destroys it once. \<open>cccam_client_ref\<close> is called by an owner or a holder. A lookup that
  returns a client gives a reference; every reference is dropped once. Field updates are made by an
  owner or a holder.
\<close>

inductive pool_step :: "pool_world \<Rightarrow> pool_world \<Rightarrow> bool" where
  Create: "cccam_client_create mem a now fd addr (pw_pool w) = (Some a, p) \<Longrightarrow> pl_heap (pw_pool w) a = None \<Longrightarrow>
     pool_step w (w\<lparr>pw_pool := p, pw_owners := insert a (pw_owners w)\<rparr>)"
| Ref: "a \<in> pw_owners w \<or> a \<in># pw_held w \<Longrightarrow> cccam_client_ref a (pw_pool w) = Some (True, p) \<Longrightarrow>
     pool_step w (w\<lparr>pw_pool := p, pw_held := add_mset a (pw_held w)\<rparr>)"
| Find: "cccam_client_find_by_id i (pw_pool w) = Some (Some a, p) \<Longrightarrow>
     pool_step w (w\<lparr>pw_pool := p, pw_held := add_mset a (pw_held w)\<rparr>)"
| Index: "cccam_client_get_by_index_ref n (pw_pool w) = Some (Some a, p) \<Longrightarrow>
     pool_step w (w\<lparr>pw_pool := p, pw_held := add_mset a (pw_held w)\<rparr>)"
| Unref: "a \<in># pw_held w \<Longrightarrow> cccam_client_unref a (pw_pool w) = Some p \<Longrightarrow>
     pool_step w (w\<lparr>pw_pool := p, pw_held := pw_held w - {#a#}\<rparr>)"
| Destroy: "a \<in> pw_owners w \<Longrightarrow> cccam_client_destroy a (pw_pool w) = Some p \<Longrightarrow>
     pool_step w (w\<lparr>pw_pool := p, pw_owners := pw_owners w - {a}\<rparr>)"
| Update: "a \<in> pw_owners w \<or> a \<in># pw_held w \<Longrightarrow> update_client a f (pw_pool w) = Some p \<Longrightarrow>
     (\<And>c. cl_refs (f c) = cl_refs c \<and> cl_zombie (f c) = cl_zombie c) \<Longrightarrow> pool_step w (w\<lparr>pw_pool := p\<rparr>)"

inductive pool_reachable :: "pool_world \<Rightarrow> bool" where
  Start: "pool_reachable \<lparr>pw_pool = pool_initial, pw_owners = {}, pw_held = {#}\<rparr>"
| Step: "pool_reachable w \<Longrightarrow> pool_step w w' \<Longrightarrow> pool_reachable w'"

text \<open>
  Every client is allocated exactly while it has an owner or a held reference; its count is the
  number of both; it is a zombie exactly without owner; the slots hold exactly the owned clients,
  each once, and the counter counts them.
\<close>

definition pool_inv :: "pool_world \<Rightarrow> bool" where
  "pool_inv w \<longleftrightarrow>
     (\<forall>a. case pl_heap (pw_pool w) a of
        None \<Rightarrow> a \<notin> pw_owners w \<and> a \<notin># pw_held w
      | Some c \<Rightarrow> cl_refs c = (if a \<in> pw_owners w then 1 else 0) + int (count (pw_held w) a) \<and>
          0 < cl_refs c \<and> (cl_zombie c \<longleftrightarrow> a \<notin> pw_owners w)) \<and>
     (\<forall>a. Some a \<in> set (pl_slots (pw_pool w)) \<longleftrightarrow> a \<in> pw_owners w) \<and>
     distinct (filter (\<lambda>s. s \<noteq> None) (pl_slots (pw_pool w))) \<and>
     length (pl_slots (pw_pool w)) = MAX_CLIENTS \<and>
     pl_count (pw_pool w) = int (length (filter (\<lambda>s. s \<noteq> None) (pl_slots (pw_pool w))))"

definition heap_ok :: "(nat \<Rightarrow> client option) \<Rightarrow> nat set \<Rightarrow> nat multiset \<Rightarrow> bool" where
  "heap_ok h own held \<longleftrightarrow> (\<forall>a. case h a of
        None \<Rightarrow> a \<notin> own \<and> a \<notin># held
      | Some c \<Rightarrow> cl_refs c = (if a \<in> own then 1 else 0) + int (count held a) \<and>
          0 < cl_refs c \<and> (cl_zombie c \<longleftrightarrow> a \<notin> own))"

definition slots_ok :: "nat option list \<Rightarrow> int \<Rightarrow> nat set \<Rightarrow> bool" where
  "slots_ok ss n own \<longleftrightarrow> (\<forall>a. Some a \<in> set ss \<longleftrightarrow> a \<in> own) \<and> distinct (filter (\<lambda>s. s \<noteq> None) ss) \<and>
     length ss = MAX_CLIENTS \<and> n = int (length (filter (\<lambda>s. s \<noteq> None) ss))"

lemma pool_inv_alt: "pool_inv w \<longleftrightarrow> heap_ok (pl_heap (pw_pool w)) (pw_owners w) (pw_held w) \<and>
    slots_ok (pl_slots (pw_pool w)) (pl_count (pw_pool w)) (pw_owners w)"
  by (simp add: pool_inv_def heap_ok_def slots_ok_def)

lemma heap_ok_alloc:
  "heap_ok h own held \<Longrightarrow> a \<in> own \<or> a \<in># held \<Longrightarrow> \<exists>c. h a = Some c"
  by (cases "h a") (auto simp: heap_ok_def split: option.splits dest!: spec [of _ a])

lemma heap_okD:
  "heap_ok h own held \<Longrightarrow> h a = Some c \<Longrightarrow>
   cl_refs c = (if a \<in> own then 1 else 0) + int (count held a) \<and> 0 < cl_refs c \<and> (cl_zombie c \<longleftrightarrow> a \<notin> own)"
  unfolding heap_ok_def by (drule spec [of _ a]) simp

lemma heap_ok_None: "heap_ok h own held \<Longrightarrow> h a = None \<Longrightarrow> a \<notin> own \<and> a \<notin># held"
  unfolding heap_ok_def by (drule spec [of _ a]) simp

lemma heap_ok_upd:
  assumes "heap_ok h own held" and "\<And>b. b \<noteq> a \<Longrightarrow> (b \<in> own' \<longleftrightarrow> b \<in> own) \<and> count held' b = count held b"
    and "case x of None \<Rightarrow> a \<notin> own' \<and> a \<notin># held'
      | Some c \<Rightarrow> cl_refs c = (if a \<in> own' then 1 else 0) + int (count held' a) \<and> 0 < cl_refs c \<and> (cl_zombie c \<longleftrightarrow> a \<notin> own')"
  shows "heap_ok (h(a := x)) own' held'"
  unfolding heap_ok_def
proof
  fix b
  have "b \<in># held' \<longleftrightarrow> b \<in># held" if "b \<noteq> a"
    using assms(2) [OF that] by (metis count_greater_zero_iff)
  with assms spec [OF assms(1) [unfolded heap_ok_def], of b]
  show "case (h(a := x)) b of
        None \<Rightarrow> b \<notin> own' \<and> b \<notin># held'
      | Some c \<Rightarrow> cl_refs c = (if b \<in> own' then 1 else 0) + int (count held' b) \<and> 0 < cl_refs c \<and> (cl_zombie c \<longleftrightarrow> b \<notin> own')"
    by (cases "b = a") (auto split: option.splits)
qed

lemma slots_split: "i < length ss \<Longrightarrow> ss = take i ss @ ss ! i # drop (Suc i) ss"
  by (rule id_take_nth_drop)

lemma slots_fill:
  assumes "slots_ok ss n own" and "a \<notin> own" and "find_idx (\<lambda>s. s = None) ss = Some i"
  shows "slots_ok (ss[i := Some a]) (n + 1) (insert a own)"
proof -
  have i: "i < length ss" "ss ! i = None" using assms(3) by (auto simp: find_idx_Some)
  define x y where "x = take i ss" and "y = drop (Suc i) ss"
  have ss: "ss = x @ None # y" and upd: "ss[i := Some a] = x @ Some a # y"
    using slots_split [OF i(1)] i by (simp_all add: x_def y_def upd_conv_take_nth_drop)
  show ?thesis
    using assms(1,2) unfolding upd slots_ok_def by (auto simp: ss)
qed

lemma slots_clear:
  assumes "slots_ok ss n own" and "a \<in> own"
  shows "\<exists>i. find_idx (\<lambda>s. s = Some a) ss = Some i \<and> slots_ok (ss[i := None]) (n - 1) (own - {a})"
proof -
  have "Some a \<in> set ss" using assms by (simp add: slots_ok_def)
  then obtain i where i: "find_idx (\<lambda>s. s = Some a) ss = Some i"
    using find_idx_None [of "\<lambda>s. s = Some a" ss] by (cases "find_idx (\<lambda>s. s = Some a) ss") auto
  then have len: "i < length ss" "ss ! i = Some a" by (auto simp: find_idx_Some)
  define x y where "x = take i ss" and "y = drop (Suc i) ss"
  have ss: "ss = x @ Some a # y" and upd: "ss[i := None] = x @ None # y"
    using slots_split [OF len(1)] len by (simp_all add: x_def y_def upd_conv_take_nth_drop)
  have "slots_ok (ss[i := None]) (n - 1) (own - {a})"
    using assms unfolding upd slots_ok_def by (auto simp: ss)
  with i show ?thesis by blast
qed

lemma slots_count:
  assumes "slots_ok ss n own"
  shows "length (filter (\<lambda>s. s \<noteq> None) ss) = card own"
proof -
  have "set (filter (\<lambda>s. s \<noteq> None) ss) = Some ` own"
  proof -
    have "x \<in> Some ` own" if "x \<in> set ss" "x \<noteq> None" for x
      using that assms by (cases x) (auto simp: slots_ok_def)
    with assms show ?thesis by (auto simp: slots_ok_def)
  qed
  with assms show ?thesis by (metis card_image distinct_card inj_Some slots_ok_def)
qed

lemma acquire_inv:
  assumes "pool_inv w" and "pool_acquire_locked a (pw_pool w) = Some (True, p)"
  shows "pool_inv (w\<lparr>pw_pool := p, pw_held := add_mset a (pw_held w)\<rparr>) \<and> a \<in> pw_owners w"
proof -
  from assms(2) obtain c where c: "pl_heap (pw_pool w) a = Some c" "\<not> cl_zombie c"
    and p: "p = (pw_pool w)\<lparr>pl_heap := (pl_heap (pw_pool w))(a \<mapsto> c\<lparr>cl_refs := cl_refs c + 1\<rparr>)\<rparr>"
    by (auto simp: pool_acquire_locked_def split: option.splits if_splits)
  from assms(1) have h: "heap_ok (pl_heap (pw_pool w)) (pw_owners w) (pw_held w)"
    and s: "slots_ok (pl_slots (pw_pool w)) (pl_count (pw_pool w)) (pw_owners w)"
    by (simp_all add: pool_inv_alt)
  from heap_okD [OF h c(1)] c(2) have ok: "cl_refs c = 1 + int (count (pw_held w) a)" "a \<in> pw_owners w" by auto
  have "heap_ok ((pl_heap (pw_pool w))(a \<mapsto> c\<lparr>cl_refs := cl_refs c + 1\<rparr>)) (pw_owners w) (add_mset a (pw_held w))"
    using h ok c(2) by (intro heap_ok_upd) auto
  with s ok show ?thesis by (simp add: pool_inv_alt p)
qed

lemma scan_slots_total:
  assumes "\<forall>a. Some a \<in> set ss \<longrightarrow> heap a \<noteq> None"
  shows "scan_slots P heap ss \<noteq> None"
  using assms by (induction P heap ss rule: scan_slots.induct) (auto split: option.splits)

lemma scan_slots_found:
  "scan_slots P heap ss = Some (Some a) \<Longrightarrow> Some a \<in> set ss \<and> (\<exists>c. heap a = Some c \<and> P c)"
  by (induction P heap ss rule: scan_slots.induct) (auto split: option.splits if_splits)

lemma find_by_id_acquire:
  "cccam_client_find_by_id i st = Some (Some a, p) \<Longrightarrow> pool_acquire_locked a st = Some (True, p)"
  by (auto simp: cccam_client_find_by_id_def split: option.splits prod.splits if_splits)

lemma get_by_index_acquire:
  "cccam_client_get_by_index_ref n st = Some (Some a, p) \<Longrightarrow> pool_acquire_locked a st = Some (True, p)"
  by (auto simp: cccam_client_get_by_index_ref_def split: option.splits prod.splits if_splits)

lemma pool_inv_start: "pool_inv \<lparr>pw_pool = pool_initial, pw_owners = {}, pw_held = {#}\<rparr>"
  by (simp add: pool_inv_def pool_initial_def)

lemma pool_step_inv:
  assumes "pool_step w w'" and "pool_inv w"
  shows "pool_inv w'"
  using assms(1)
proof cases
  case (Create mem a now fd addr p)
  from assms(2) have h: "heap_ok (pl_heap (pw_pool w)) (pw_owners w) (pw_held w)"
    and s: "slots_ok (pl_slots (pw_pool w)) (pl_count (pw_pool w)) (pw_owners w)"
    by (simp_all add: pool_inv_alt)
  from Create obtain i where i: "find_idx (\<lambda>s. s = None) (pl_slots (pw_pool w)) = Some i"
    and p: "p = (pw_pool w)\<lparr>pl_slots := (pl_slots (pw_pool w))[i := Some a], pl_count := pl_count (pw_pool w) + 1,
      pl_heap := (pl_heap (pw_pool w))(a \<mapsto> new_client now fd addr a)\<rparr>"
    by (auto simp: cccam_client_create_def split: if_splits option.splits)
  from heap_ok_None [OF h] Create have no: "a \<notin> pw_owners w" "a \<notin># pw_held w" by auto
  have "heap_ok ((pl_heap (pw_pool w))(a \<mapsto> new_client now fd addr a)) (insert a (pw_owners w)) (pw_held w)"
    using h no by (intro heap_ok_upd) (auto simp: new_client_def not_in_iff)
  with slots_fill [OF s no(1) i] Create show ?thesis by (simp add: pool_inv_alt p)
next
  case (Ref a p)
  with acquire_inv [OF assms(2)] show ?thesis by (simp add: cccam_client_ref_def)
next
  case (Find i a p)
  with acquire_inv [OF assms(2)] find_by_id_acquire show ?thesis by metis
next
  case (Index n a p)
  with acquire_inv [OF assms(2)] get_by_index_acquire show ?thesis by metis
next
  case (Unref a p)
  from assms(2) have h: "heap_ok (pl_heap (pw_pool w)) (pw_owners w) (pw_held w)"
    and s: "slots_ok (pl_slots (pw_pool w)) (pl_count (pw_pool w)) (pw_owners w)"
    by (simp_all add: pool_inv_alt)
  from heap_ok_alloc [OF h] Unref obtain c where c: "pl_heap (pw_pool w) a = Some c" by blast
  from heap_okD [OF h c] have ok: "cl_refs c = (if a \<in> pw_owners w then 1 else 0) + int (count (pw_held w) a)"
    "0 < cl_refs c" "cl_zombie c \<longleftrightarrow> a \<notin> pw_owners w" by auto
  have pos: "0 < count (pw_held w) a" using Unref(2) by simp
  let ?c = "c\<lparr>cl_refs := cl_refs c - 1\<rparr>"
  have p: "p = (pw_pool w)\<lparr>pl_heap := (pl_heap (pw_pool w))(a := (if cl_refs ?c = 0 \<and> cl_zombie ?c then None else Some ?c))\<rparr>"
    using Unref(3) ok(2) by (simp add: cccam_client_unref_def c Let_def)
  have "heap_ok ((pl_heap (pw_pool w))(a := (if cl_refs ?c = 0 \<and> cl_zombie ?c then None else Some ?c))) (pw_owners w) (pw_held w - {#a#})"
    using h ok pos by (intro heap_ok_upd) (auto simp: not_in_iff simp del: count_greater_zero_iff split: option.splits)
  with s Unref show ?thesis by (simp add: pool_inv_alt p)
next
  case (Destroy a p)
  from assms(2) have h: "heap_ok (pl_heap (pw_pool w)) (pw_owners w) (pw_held w)"
    and s: "slots_ok (pl_slots (pw_pool w)) (pl_count (pw_pool w)) (pw_owners w)"
    by (simp_all add: pool_inv_alt)
  from heap_ok_alloc [OF h] Destroy obtain c where c: "pl_heap (pw_pool w) a = Some c" by blast
  from heap_okD [OF h c] Destroy have ok: "cl_refs c = 1 + int (count (pw_held w) a)" by simp
  from slots_clear [OF s] Destroy obtain i where i: "find_idx (\<lambda>s. s = Some a) (pl_slots (pw_pool w)) = Some i"
    "slots_ok ((pl_slots (pw_pool w))[i := None]) (pl_count (pw_pool w) - 1) (pw_owners w - {a})" by blast
  let ?c = "c\<lparr>cl_zombie := True, cl_refs := cl_refs c - 1\<rparr>"
  have p: "p = (pw_pool w)\<lparr>pl_slots := (pl_slots (pw_pool w))[i := None], pl_count := pl_count (pw_pool w) - 1,
      pl_heap := (pl_heap (pw_pool w))(a := (if cl_refs ?c = 0 then None else Some ?c))\<rparr>"
    using Destroy(3) by (simp add: cccam_client_destroy_def c i Let_def)
  have "heap_ok ((pl_heap (pw_pool w))(a := (if cl_refs ?c = 0 then None else Some ?c))) (pw_owners w - {a}) (pw_held w)"
    using h ok by (intro heap_ok_upd) (auto simp: not_in_iff split: option.splits)
  with i Destroy show ?thesis by (simp add: pool_inv_alt p)
next
  case (Update a f p)
  from assms(2) have h: "heap_ok (pl_heap (pw_pool w)) (pw_owners w) (pw_held w)"
    and s: "slots_ok (pl_slots (pw_pool w)) (pl_count (pw_pool w)) (pw_owners w)"
    by (simp_all add: pool_inv_alt)
  from Update obtain c where c: "pl_heap (pw_pool w) a = Some c"
    and p: "p = (pw_pool w)\<lparr>pl_heap := (pl_heap (pw_pool w))(a \<mapsto> f c)\<rparr>"
    by (auto simp: update_client_def split: option.splits)
  have "heap_ok ((pl_heap (pw_pool w))(a \<mapsto> f c)) (pw_owners w) (pw_held w)"
    using h heap_okD [OF h c] Update(4) by (intro heap_ok_upd) auto
  with s Update show ?thesis by (simp add: pool_inv_alt p)
qed

lemma reachable_inv: "pool_reachable w \<Longrightarrow> pool_inv w"
  by (induction rule: pool_reachable.induct) (auto intro: pool_inv_start pool_step_inv)

text \<open>Lookups never read freed memory, and a client with a reference can be updated and released.\<close>

lemma pool_slots_alloc:
  assumes "pool_inv w"
  shows "\<forall>a. Some a \<in> set (pl_slots (pw_pool w)) \<longrightarrow> pl_heap (pw_pool w) a \<noteq> None"
  using assms heap_ok_alloc by (fastforce simp: pool_inv_alt slots_ok_def)

lemma acquire_total: "pl_heap p a \<noteq> None \<Longrightarrow> pool_acquire_locked a p \<noteq> None"
  by (auto simp: pool_acquire_locked_def)

lemma find_total:
  assumes "pool_inv w"
  shows "cccam_client_find_by_id i (pw_pool w) \<noteq> None" "cccam_client_find_by_socket fd (pw_pool w) \<noteq> None"
  using scan_slots_total [OF pool_slots_alloc [OF assms]] acquire_total scan_slots_found
  by (fastforce simp: cccam_client_find_by_id_def cccam_client_find_by_socket_def split: option.splits)+

text \<open>Look up a client, update its record, drop the reference; nothing when there is no such client.\<close>

definition with_client :: "u32 \<Rightarrow> (client \<Rightarrow> client) \<Rightarrow> pool \<Rightarrow> pool option" where
  "with_client i f p =
     (case cccam_client_find_by_id i p of
        None \<Rightarrow> None
      | Some (None, p1) \<Rightarrow> Some p1
      | Some (Some a, p1) \<Rightarrow>
          (case update_client a f p1 of None \<Rightarrow> None | Some p2 \<Rightarrow> cccam_client_unref a p2))"

lemma with_client_total:
  assumes r: "pool_reachable w" and f: "\<And>c. cl_refs (f c) = cl_refs c \<and> cl_zombie (f c) = cl_zombie c"
  shows "\<exists>p. with_client i f (pw_pool w) = Some p \<and> pool_reachable (w\<lparr>pw_pool := p\<rparr>)"
proof -
  obtain x p1 where find: "cccam_client_find_by_id i (pw_pool w) = Some (x, p1)"
    using find_total(1) [OF reachable_inv [OF r], of i] by (metis option.exhaust surj_pair)
  show ?thesis
  proof (cases x)
    case None
    with find have "p1 = pw_pool w"
      by (auto simp: cccam_client_find_by_id_def pool_acquire_locked_def split: option.splits prod.splits if_splits)
    with find None r show ?thesis by (simp add: with_client_def)
  next
    case (Some a)
    define w1 where "w1 = w\<lparr>pw_pool := p1, pw_held := add_mset a (pw_held w)\<rparr>"
    have r1: "pool_reachable w1"
      unfolding w1_def using find Some by (intro pool_reachable.Step [OF r] pool_step.Find) simp
    have a1: "a \<in># pw_held w1" by (simp add: w1_def)
    have "heap_ok (pl_heap (pw_pool w1)) (pw_owners w1) (pw_held w1)"
      using reachable_inv [OF r1] by (simp add: pool_inv_alt)
    from heap_ok_alloc [OF this] a1 obtain c where c: "pl_heap p1 a = Some c" by (auto simp: w1_def)
    obtain p2 where p2: "update_client a f p1 = Some p2" "p2 = p1\<lparr>pl_heap := (pl_heap p1)(a \<mapsto> f c)\<rparr>"
      by (simp add: update_client_def c)
    have r2: "pool_reachable (w1\<lparr>pw_pool := p2\<rparr>)"
      using p2(1) a1 f by (intro pool_reachable.Step [OF r1] pool_step.Update [where a = a and f = f]) (auto simp: w1_def)
    obtain p3 where p3: "cccam_client_unref a p2 = Some p3"
      by (simp add: cccam_client_unref_def p2(2) Let_def)
    have "pool_reachable ((w1\<lparr>pw_pool := p2\<rparr>)\<lparr>pw_pool := p3, pw_held := pw_held w1 - {#a#}\<rparr>)"
      using pool_step.Unref [of a "w1\<lparr>pw_pool := p2\<rparr>" p3] a1 p3 by (intro pool_reachable.Step [OF r2]) simp
    then have "pool_reachable (w\<lparr>pw_pool := p3\<rparr>)" by (simp add: w1_def)
    with find Some p2(1) p3 show ?thesis by (simp add: with_client_def)
  qed
qed

text \<open>What the final loops of \<open>cccam_client_close_all\<close> do when no reference is held any more.\<close>

lemma mark_slots_total:
  "\<forall>a. Some a \<in> set ss \<longrightarrow> h a \<noteq> None \<Longrightarrow>
   \<exists>h'. mark_slots ss h = Some h' \<and> (\<forall>a. map_option (\<lambda>c. c\<lparr>cl_zombie := False\<rparr>) (h' a) = map_option (\<lambda>c. c\<lparr>cl_zombie := False\<rparr>) (h a))"
proof (induction ss h rule: mark_slots.induct)
  case (3 a ss h)
  then obtain c where c: "h a = Some c" by auto
  have "\<forall>b. Some b \<in> set ss \<longrightarrow> (h(a \<mapsto> c\<lparr>cl_zombie := True\<rparr>)) b \<noteq> None" using "3.prems" by auto
  from "3.IH" [OF c this] obtain h' where h': "mark_slots ss (h(a \<mapsto> c\<lparr>cl_zombie := True\<rparr>)) = Some h'"
    "\<And>b. map_option (\<lambda>c. c\<lparr>cl_zombie := False\<rparr>) (h' b)
      = map_option (\<lambda>c. c\<lparr>cl_zombie := False\<rparr>) ((h(a \<mapsto> c\<lparr>cl_zombie := True\<rparr>)) b)" by blast
  have "map_option (\<lambda>c. c\<lparr>cl_zombie := False\<rparr>) (h' b) = map_option (\<lambda>c. c\<lparr>cl_zombie := False\<rparr>) (h b)" for b
    using h'(2) [of b] c by (cases "b = a") auto
  with h'(1) c show ?case by simp
qed simp_all

lemma free_slots_total:
  assumes "distinct (filter (\<lambda>s. s \<noteq> None) ss)" and "\<forall>a. Some a \<in> set ss \<longrightarrow> (\<exists>c. h a = Some c \<and> cl_refs c = 1)"
  shows "free_slots ss h = Some (\<lambda>a. if Some a \<in> set ss then None else h a)"
  using assms
proof (induction ss arbitrary: h)
  case (Cons x ss)
  show ?case
  proof (cases x)
    case (Some a)
    with Cons.prems obtain c where c: "h a = Some c" "cl_refs c = 1" by auto
    have rest: "\<forall>b. Some b \<in> set ss \<longrightarrow> (\<exists>d. (h(a := None)) b = Some d \<and> cl_refs d = 1)"
      "distinct (filter (\<lambda>s. s \<noteq> None) ss)"
      using Cons.prems Some by auto
    have "free_slots (x # ss) h = free_slots ss (h(a := None))"
      using c Some by (simp add: Let_def)
    also have "\<dots> = Some (\<lambda>b. if Some b \<in> set ss then None else (h(a := None)) b)"
      by (rule Cons.IH [OF rest(2,1)])
    finally show ?thesis using Some by (auto simp: fun_eq_iff)
  qed (use Cons in auto)
qed simp

subsection \<open>Properties\<close>

text \<open>
  C29: no use after free. In every state that the server can reach by creating, looking up,
  referencing, updating, releasing and destroying clients in any order, an owner or a holder of a
  reference can reference, release or destroy its client, no slot of the pool points to freed memory,
  and no lookup reads freed memory; a client that a lookup returns is alive and not being removed.
\<close>

theorem pool_no_use_after_free:
  assumes "pool_reachable w"
  shows "(a \<in> pw_owners w \<or> a \<in># pw_held w \<longrightarrow> cccam_client_ref a (pw_pool w) \<noteq> None \<and>
      cccam_client_unref a (pw_pool w) \<noteq> None \<and> cccam_client_destroy a (pw_pool w) \<noteq> None) \<and>
    cccam_client_find_by_id i (pw_pool w) \<noteq> None \<and> cccam_client_find_by_socket fd (pw_pool w) \<noteq> None \<and>
    cccam_client_get_by_index_ref n (pw_pool w) \<noteq> None \<and>
    (\<forall>b p. cccam_client_find_by_id i (pw_pool w) = Some (Some b, p) \<longrightarrow> b \<in> pw_owners w)"
proof -
  note inv = reachable_inv [OF assms]
  from inv have h: "heap_ok (pl_heap (pw_pool w)) (pw_owners w) (pw_held w)"
    and s: "slots_ok (pl_slots (pw_pool w)) (pl_count (pw_pool w)) (pw_owners w)"
    by (simp_all add: pool_inv_alt)
  note slots = pool_slots_alloc [OF inv]
  have "cccam_client_ref a (pw_pool w) \<noteq> None \<and> cccam_client_unref a (pw_pool w) \<noteq> None \<and>
      cccam_client_destroy a (pw_pool w) \<noteq> None" if "a \<in> pw_owners w \<or> a \<in># pw_held w"
    using heap_ok_alloc [OF h that]
    by (auto simp: cccam_client_ref_def pool_acquire_locked_def cccam_client_unref_def cccam_client_destroy_def Let_def)
  moreover have "cccam_client_find_by_id i (pw_pool w) \<noteq> None" "cccam_client_find_by_socket fd (pw_pool w) \<noteq> None"
    by (rule find_total [OF inv])+
  moreover have "cccam_client_get_by_index_ref n (pw_pool w) \<noteq> None"
  proof (cases "n < 0 \<or> n \<ge> int MAX_CLIENTS")
    case False
    with s have "nat n < length (pl_slots (pw_pool w))" by (simp add: slots_ok_def nat_less_iff)
    then have "pl_slots (pw_pool w) ! nat n \<in> set (pl_slots (pw_pool w))" by simp
    with slots have "pool_acquire_locked b (pw_pool w) \<noteq> None" if "pl_slots (pw_pool w) ! nat n = Some b" for b
      using that by (intro acquire_total) auto
    with False show ?thesis
      by (cases "pl_slots (pw_pool w) ! nat n") (auto simp: cccam_client_get_by_index_ref_def)
  qed (simp add: cccam_client_get_by_index_ref_def)
  moreover have "b \<in> pw_owners w" if "cccam_client_find_by_id i (pw_pool w) = Some (Some b, p)" for b p
    using acquire_inv [OF inv find_by_id_acquire [OF that]] by blast
  ultimately show ?thesis by blast
qed

text \<open>A world with one client whose thread holds a reference.\<close>

definition one_client_world :: pool_world where
  "one_client_world = \<lparr>pw_pool = the (map_option snd (cccam_client_ref 7 (snd (cccam_client_create True 7 5 4 1 pool_initial)))),
     pw_owners = {7}, pw_held = {#7#}\<rparr>"

lemma first_slot [simp]: "find_idx (\<lambda>s. s = None) (replicate 100 (None :: nat option)) = Some 0"
  by (simp add: find_idx_Some)

lemma one_client_reachable: "pool_reachable one_client_world"
proof -
  let ?p1 = "snd (cccam_client_create True 7 5 4 1 pool_initial)"
  have c: "cccam_client_create True 7 5 4 1 pool_initial = (Some 7, ?p1)"
    by (simp add: cccam_client_create_def pool_initial_def MAX_CLIENTS_def)
  have "pool_reachable (\<lparr>pw_pool = pool_initial, pw_owners = {}, pw_held = {#}\<rparr>\<lparr>pw_pool := ?p1, pw_owners := insert 7 {}\<rparr>)"
    by (rule pool_reachable.Step [OF pool_reachable.Start])
      (use pool_step.Create [OF _ , of True 7 5 4 1 "\<lparr>pw_pool = pool_initial, pw_owners = {}, pw_held = {#}\<rparr>" ?p1] c
        in \<open>simp add: pool_initial_def\<close>)
  then have r: "pool_reachable \<lparr>pw_pool = ?p1, pw_owners = {7}, pw_held = {#}\<rparr>" by simp
  obtain p2 where p2: "cccam_client_ref 7 ?p1 = Some (True, p2)"
    by (simp add: cccam_client_ref_def pool_acquire_locked_def cccam_client_create_def pool_initial_def MAX_CLIENTS_def new_client_def)
  have "pool_step \<lparr>pw_pool = ?p1, pw_owners = {7}, pw_held = {#}\<rparr>
    (\<lparr>pw_pool = ?p1, pw_owners = {7}, pw_held = {#}\<rparr>\<lparr>pw_pool := p2, pw_held := add_mset 7 {#}\<rparr>)"
    using pool_step.Ref [of 7 "\<lparr>pw_pool = ?p1, pw_owners = {7}, pw_held = {#}\<rparr>" p2] p2 by simp
  from pool_reachable.Step [OF r this] show ?thesis by (simp add: one_client_world_def p2)
qed

theorem pool_no_use_after_free_witness:
  "cccam_client_destroy 7 (pw_pool one_client_world) \<noteq> None \<and> cccam_client_find_by_id 2 (pw_pool one_client_world) \<noteq> None"
  using pool_no_use_after_free [OF one_client_reachable, of 7 2 0 0] by (simp add: one_client_world_def)

text \<open>
  C30: no leak and no overflow. In every reachable state the allocated clients are exactly the owned
  and the referenced ones, at most 100 are in the pool, and the counter is their number. At shutdown,
  once no reference is held, \<open>cccam_client_close_all\<close> frees every client and empties the pool.
\<close>

theorem pool_no_leak:
  assumes "pool_reachable w"
  shows "{a. pl_heap (pw_pool w) a \<noteq> None} = pw_owners w \<union> set_mset (pw_held w) \<and>
    cccam_client_get_count (pw_pool w) = int (card (pw_owners w)) \<and> cccam_client_get_count (pw_pool w) \<le> 100 \<and>
    (pw_held w = {#} \<longrightarrow> (\<exists>st'. (case close_all_mark (pw_pool w) of None \<Rightarrow> None | Some st \<Rightarrow> close_all_free st) = Some st' \<and>
       pl_heap st' = (\<lambda>_. None) \<and> pl_count st' = 0 \<and> set (pl_slots st') \<subseteq> {None}))"
proof -
  from reachable_inv [OF assms] have h: "heap_ok (pl_heap (pw_pool w)) (pw_owners w) (pw_held w)"
    and s: "slots_ok (pl_slots (pw_pool w)) (pl_count (pw_pool w)) (pw_owners w)"
    by (simp_all add: pool_inv_alt)
  let ?ss = "pl_slots (pw_pool w)" and ?h = "pl_heap (pw_pool w)"
  have dom: "{a. ?h a \<noteq> None} = pw_owners w \<union> set_mset (pw_held w)"
    using heap_okD [OF h] heap_ok_alloc [OF h] by (fastforce simp: not_in_iff)
  have "length (filter (\<lambda>s. s \<noteq> None) ?ss) = card (pw_owners w)"
    using slots_count [OF s] .
  moreover have "length (filter (\<lambda>s. s \<noteq> None) ?ss) \<le> 100"
    using s length_filter_le [of "\<lambda>s. s \<noteq> None" ?ss] by (simp add: slots_ok_def MAX_CLIENTS_def)
  moreover have "\<exists>st'. (case close_all_mark (pw_pool w) of None \<Rightarrow> None | Some st \<Rightarrow> close_all_free st) = Some st' \<and>
       pl_heap st' = (\<lambda>_. None) \<and> pl_count st' = 0 \<and> set (pl_slots st') \<subseteq> {None}" if empty: "pw_held w = {#}"
  proof -
    have alloc: "\<forall>a. Some a \<in> set ?ss \<longrightarrow> ?h a \<noteq> None"
      using s heap_ok_alloc [OF h] by (auto simp: slots_ok_def)
    from mark_slots_total [OF this] obtain h' where h': "mark_slots ?ss ?h = Some h'"
      "\<And>a. map_option (\<lambda>c. c\<lparr>cl_zombie := False\<rparr>) (h' a) = map_option (\<lambda>c. c\<lparr>cl_zombie := False\<rparr>) (?h a)" by blast
    have one: "\<exists>c. h' a = Some c \<and> cl_refs c = 1" if a: "Some a \<in> set ?ss" for a
    proof -
      from alloc a obtain c where c: "?h a = Some c" by auto
      from h'(2) [of a] c obtain c' where c': "h' a = Some c'" "c'\<lparr>cl_zombie := False\<rparr> = c\<lparr>cl_zombie := False\<rparr>" by auto
      from c'(2) have "cl_refs c' = cl_refs c" by (metis client.select_convs(12) client.surjective client.update_convs(13))
      moreover have "cl_refs c = 1" using heap_okD [OF h c] s a empty by (auto simp: slots_ok_def)
      ultimately show ?thesis using c' by simp
    qed
    have "distinct (filter (\<lambda>s. s \<noteq> None) ?ss)" using s by (simp add: slots_ok_def)
    from free_slots_total [OF this, of h'] one
    have free: "free_slots ?ss h' = Some (\<lambda>a. if Some a \<in> set ?ss then None else h' a)" by blast
    have rest: "h' a = None" if "Some a \<notin> set ?ss" for a
    proof -
      have "a \<notin> pw_owners w" using s that by (simp add: slots_ok_def)
      with dom empty have "?h a = None" by auto
      with h'(2) [of a] show ?thesis by simp
    qed
    show ?thesis
      using free rest by (auto simp: close_all_mark_def close_all_free_def h'(1) fun_eq_iff)
  qed
  ultimately show ?thesis
    using dom s by (simp add: cccam_client_get_count_def slots_ok_def)
qed

theorem pool_no_leak_witness:
  "{a. pl_heap (pw_pool one_client_world) a \<noteq> None} = {7} \<and> cccam_client_get_count (pw_pool one_client_world) = 1"
  using pool_no_leak [OF one_client_reachable] by (simp add: one_client_world_def)

end
