(* ===== verification/Emu.thy ===== *)
theory Emu
  imports Text User_Manager
begin

text \<open>
  The key store of the emulator, \<open>src/CCshare/cccam3_emu.c\<close>: a linked list of keys (head first), its counter and the
  path of the file, which is read line by line. \<open>today\<close> is the date YYYYMMDD that \<open>time(NULL)\<close> gives; \<open>mem\<close> is the
  outcome of \<open>calloc\<close> per key. The mutex makes every operation atomic. The data of a key is the list of its
  \<open>data_len\<close> bytes. Shown here: what every reachable store satisfies, that a stored key is found again and others
  are untouched, and which documented lines the parser does not understand.
\<close>

subsection \<open>State\<close>

record emu_key =
  ek_type :: char
  ek_provider :: u32
  ek_index :: u8
  ek_name :: string
  ek_date :: u32
  ek_data :: "u8 list"

record emu =
  em_keys :: "emu_key list"
  em_count :: int
  em_file :: string
  em_initialized :: bool

definition emu_store_initial :: emu where
  "emu_store_initial = \<lparr>em_keys = [], em_count = 0, em_file = ''conf/SoftCam.Key'', em_initialized = False\<rparr>"

definition EMU_MAX_KEYS :: int where "EMU_MAX_KEYS = 4096"
definition EMU_MAX_KEY_DATA :: nat where "EMU_MAX_KEY_DATA = 320"

definition EMU_OK :: int where "EMU_OK = 0"
definition EMU_NOT_SUPPORTED :: int where "EMU_NOT_SUPPORTED = -1"
definition EMU_KEY_NOT_FOUND :: int where "EMU_KEY_NOT_FOUND = -2"
definition EMU_CORRUPT_DATA :: int where "EMU_CORRUPT_DATA = -3"
definition EMU_CHECKSUM_ERROR :: int where "EMU_CHECKSUM_ERROR = -4"

definition cccam_emu_set_key_file :: "string option \<Rightarrow> emu \<Rightarrow> emu" where
  "cccam_emu_set_key_file path st =
     (case path of None \<Rightarrow> st | Some p \<Rightarrow> if p = [] then st else st\<lparr>em_file := c_strncpy 256 p\<rparr>)"

definition emu_free_keys :: "emu \<Rightarrow> emu" where
  "emu_free_keys st = st\<lparr>em_keys := [], em_count := 0\<rparr>"

subsection \<open>Keys\<close>

text \<open>\<open>None\<close> is -1.\<close>

fun hex_pairs :: "string \<Rightarrow> u8 list option" where
  "hex_pairs (a # b # s) =
     (case c_scan_hex2 (a # b # s) of
        None \<Rightarrow> None
      | Some v \<Rightarrow> map_option (Cons (ucast v)) (hex_pairs s))"
| "hex_pairs s = Some []"

definition hex_to_bin :: "string \<Rightarrow> nat \<Rightarrow> u8 list option" where
  "hex_to_bin hex max_len =
     (if odd (length hex) \<or> length hex div 2 > max_len then None else hex_pairs hex)"

definition key_matches :: "char \<Rightarrow> u32 \<Rightarrow> u8 \<Rightarrow> string option \<Rightarrow> emu_key \<Rightarrow> bool" where
  "key_matches ty provider key_index name k \<longleftrightarrow>
     (case name of
        Some (c # n) \<Rightarrow>
          if ek_name k \<noteq> [] then ek_type k = ty \<and> ek_provider k = provider \<and> ek_name k = c # n
          else ek_type k = ty \<and> ek_provider k = provider \<and> ek_index k = key_index
      | _ \<Rightarrow> ek_type k = ty \<and> ek_provider k = provider \<and> ek_index k = key_index)"

definition emu_add_key ::
  "(emu_key \<Rightarrow> bool) \<Rightarrow> char \<Rightarrow> u32 \<Rightarrow> u8 \<Rightarrow> u8 list \<Rightarrow> u8 \<Rightarrow> u32 \<Rightarrow> string option \<Rightarrow> emu \<Rightarrow> emu" where
  "emu_add_key mem ty provider key_index data data_len date name st =
     (if em_count st \<ge> EMU_MAX_KEYS then st
      else if find (key_matches ty provider key_index name) (em_keys st) \<noteq> None then
        st\<lparr>em_keys := update_first (key_matches ty provider key_index name)
             (\<lambda>k. k\<lparr>ek_data := take (unat data_len) data, ek_date := date,
                    ek_name := (case name of None \<Rightarrow> ek_name k | Some n \<Rightarrow> c_strncpy 12 n)\<rparr>) (em_keys st)\<rparr>
      else
        let k = \<lparr>ek_type = ty, ek_provider = provider, ek_index = key_index,
                 ek_name = (case name of None \<Rightarrow> [] | Some n \<Rightarrow> c_strncpy 12 n), ek_date = date,
                 ek_data = take (unat data_len) data\<rparr> in
        if \<not> mem k then st else st\<lparr>em_keys := k # em_keys st, em_count := em_count st + 1\<rparr>)"

definition emu_key_valid :: "u32 \<Rightarrow> emu_key \<Rightarrow> bool" where
  "emu_key_valid today k \<longleftrightarrow> ek_date k = 0 \<or> today \<le> ek_date k"

text \<open>The three lookups; the result is what is copied out, empty for the return value 0.\<close>

definition copy_out :: "nat \<Rightarrow> emu_key option \<Rightarrow> u8 list" where
  "copy_out key_out_size k = (case k of None \<Rightarrow> [] | Some k \<Rightarrow> if length (ek_data k) \<le> key_out_size then ek_data k else [])"

definition cccam_emu_find_key :: "u32 \<Rightarrow> char \<Rightarrow> u32 \<Rightarrow> string option \<Rightarrow> u8 \<Rightarrow> nat \<Rightarrow> emu \<Rightarrow> u8 list" where
  "cccam_emu_find_key today ty provider key_name key_index key_out_size st =
     (let index = (case key_name of Some (c # n) \<Rightarrow> of_nat (c_strtoul16 (c # n)) | _ \<Rightarrow> key_index) in
      copy_out key_out_size
        (find (\<lambda>k. ek_type k = ty \<and> ek_provider k = provider \<and> ek_index k = index \<and> emu_key_valid today k) (em_keys st)))"

definition cccam_emu_find_key_name :: "u32 \<Rightarrow> char \<Rightarrow> string option \<Rightarrow> nat \<Rightarrow> emu \<Rightarrow> u8 list \<times> u32 option" where
  "cccam_emu_find_key_name today ty name key_out_size st =
     (case name of
        Some (c # n) \<Rightarrow>
          (let k = find (\<lambda>k. ek_type k = ty \<and> ek_name k \<noteq> [] \<and> ek_name k = c # n \<and> emu_key_valid today k) (em_keys st) in
           (copy_out key_out_size k, map_option ek_provider k))
      | _ \<Rightarrow> ([], None))"

definition cccam_emu_find_key_masked :: "u32 \<Rightarrow> char \<Rightarrow> u16 \<Rightarrow> u8 \<Rightarrow> nat \<Rightarrow> emu \<Rightarrow> u8 list" where
  "cccam_emu_find_key_masked today ty provider16 key_index key_out_size st =
     copy_out key_out_size
       (find (\<lambda>k. ek_type k = ty \<and> ek_index k = key_index \<and> ek_provider k AND 0xFFFF = ucast provider16 \<and> emu_key_valid today k)
         (em_keys st))"

subsection \<open>The key file\<close>

definition c_toupper :: "char \<Rightarrow> char" where
  "c_toupper c = (if 97 \<le> char_code c \<and> char_code c \<le> 122 then char_of (char_code c - 32) else c)"

definition key_delim :: "char \<Rightarrow> bool" where
  "key_delim c \<longleftrightarrow> c = CHR '' '' \<or> c = CHR 0x09"

definition is_hex :: "string \<Rightarrow> bool" where
  "is_hex s \<longleftrightarrow> list_all (\<lambda>c. hex_value c \<noteq> None) s"

text \<open>The part of the line before a comment, without the white space in front of it.\<close>

definition key_text :: "string \<Rightarrow> string" where
  "key_text line = cut_at (CHR ''#'') (cut_at (CHR '';'') (skip_space line))"

text \<open>What is added for a line whose provider, index, data and date are these.\<close>

definition add_parsed ::
  "(emu_key \<Rightarrow> bool) \<Rightarrow> char \<Rightarrow> string \<Rightarrow> string \<Rightarrow> u8 list \<Rightarrow> u32 \<Rightarrow> emu \<Rightarrow> emu" where
  "add_parsed mem ty tok_provider tok_index data date st =
     (let provider = (of_nat (c_strtoul16 tok_provider) :: u32);
          data_len = (of_nat (length data) :: u8);
          key_index = (of_nat (c_strtoul16 tok_index) :: u8) in
      if length tok_provider = 8 then
        (if length tok_index = 8 then
           emu_add_key mem ty provider 0 data data_len (of_nat (c_strtoul16 tok_index)) None st
         else if length tok_index \<ge> 3 \<and> ty = CHR ''P'' then
           emu_add_key mem ty provider 0 data data_len date (Some tok_index) st
         else
           let st1 = emu_add_key mem ty provider key_index data data_len date None st in
           if key_index = 0 \<and> provider AND 0xFF \<noteq> 0
           then emu_add_key mem ty (drop_bit 8 provider) (ucast (provider AND 0xFF)) data data_len date None st1
           else st1)
      else emu_add_key mem ty provider key_index data data_len date None st)"

definition emu_parse_line :: "(emu_key \<Rightarrow> bool) \<Rightarrow> string \<Rightarrow> emu \<Rightarrow> emu" where
  "emu_parse_line mem line st =
     (case key_text line of
        [] \<Rightarrow> st
      | c # p \<Rightarrow>
          let ty = c_toupper c in
          if ty \<notin> {CHR ''F'', CHR ''I'', CHR ''T'', CHR ''W'', CHR ''P''} then st
          else (case strtok_all key_delim p of
              tok_provider # tok_index # tok_data # toks \<Rightarrow>
                if length tok_provider \<noteq> 6 \<and> length tok_provider \<noteq> 8 \<or> \<not> is_hex tok_provider then st
                else if tok_index = [] \<or> length tok_index > 8 \<or> \<not> is_hex tok_index then st
                else (case hex_to_bin tok_data EMU_MAX_KEY_DATA of
                    None \<Rightarrow> st
                  | Some data \<Rightarrow>
                      if data = [] then st
                      else
                        let date = (case toks of d # _ \<Rightarrow> if ty = CHR ''T'' then of_nat (c_strtoul16 d) else 0 | [] \<Rightarrow> 0) in
                        add_parsed mem ty tok_provider tok_index data date st)
            | _ \<Rightarrow> st))"

text \<open>\<open>None\<close> when the file cannot be opened (-1).\<close>

definition emu_load_key_file :: "(emu_key \<Rightarrow> bool) \<Rightarrow> file_system \<Rightarrow> string \<Rightarrow> emu \<Rightarrow> emu option" where
  "emu_load_key_file mem fs path st =
     map_option (\<lambda>content. fold (\<lambda>line. emu_parse_line mem (cut_at NL (c_line line))) (fgets_lines 1022 content) st) (fs path)"

definition cccam_emu_init :: "(emu_key \<Rightarrow> bool) \<Rightarrow> file_system \<Rightarrow> emu \<Rightarrow> emu" where
  "cccam_emu_init mem fs st =
     (if em_initialized st then st
      else
        let st1 = (emu_free_keys st)\<lparr>em_initialized := True\<rparr> in
        case emu_load_key_file mem fs (em_file st1) st1 of None \<Rightarrow> st1 | Some st2 \<Rightarrow> st2)"

definition cccam_emu_reload :: "(emu_key \<Rightarrow> bool) \<Rightarrow> file_system \<Rightarrow> emu \<Rightarrow> int \<times> emu" where
  "cccam_emu_reload mem fs st =
     (case emu_load_key_file mem fs (em_file st) (emu_free_keys st) of
        Some st1 \<Rightarrow> (0, st1)
      | None \<Rightarrow> (-1, st))"

definition cccam_emu_cleanup :: "emu \<Rightarrow> emu" where
  "cccam_emu_cleanup st = (emu_free_keys st)\<lparr>em_initialized := False\<rparr>"

definition cccam_emu_get_key_count :: "emu \<Rightarrow> int" where
  "cccam_emu_get_key_count st = em_count st"

text \<open>Total, BISS, Viaccess, Cryptoworks, PowerVU, Nagravision, Irdeto.\<close>

definition cccam_emu_stats :: "emu \<Rightarrow> nat list" where
  "cccam_emu_stats st =
     (let count = (\<lambda>P. length (filter P (em_keys st)));
          ft = (\<lambda>k. ek_type k = CHR ''F'' \<or> ek_type k = CHR ''T'') in
      [count (\<lambda>_. True), count (\<lambda>k. ft k \<and> drop_bit 16 (ek_provider k) = 0x2600),
       count (\<lambda>k. ft k \<and> drop_bit 16 (ek_provider k) \<noteq> 0x2600), count (\<lambda>k. ek_type k = CHR ''W''),
       count (\<lambda>k. ek_type k = CHR ''P''), count (\<lambda>k. ek_type k = CHR ''N''), count (\<lambda>k. ek_type k = CHR ''I'')])"

subsection \<open>Keys from EMMs\<close>

definition hex_upper :: "nat \<Rightarrow> char" where
  "hex_upper n = ''0123456789ABCDEF'' ! n"

fun hex_digits_of :: "nat \<Rightarrow> nat \<Rightarrow> string" where
  "hex_digits_of 0 v = []"
| "hex_digits_of (Suc n) v = hex_digits_of n (v div 16) @ [hex_upper (v mod 16)]"

text \<open>The line \<open>%c %08X %s \<close> and the data in hexadecimal.\<close>

definition key_line :: "char \<Rightarrow> u32 \<Rightarrow> string option \<Rightarrow> u8 list \<Rightarrow> string" where
  "key_line ty provider key_name data =
     [ty] @ '' '' @ hex_digits_of 8 (unat provider) @ '' '' @ (case key_name of None \<Rightarrow> ''00'' | Some n \<Rightarrow> n) @ '' ''
       @ concat (map (\<lambda>b. hex_digits_of 2 (unat b)) data) @ [NL]"

definition cccam_emu_add_runtime_key ::
  "(emu_key \<Rightarrow> bool) \<Rightarrow> bool \<Rightarrow> char \<Rightarrow> u32 \<Rightarrow> string option \<Rightarrow> u8 list \<Rightarrow> u8 \<Rightarrow> bool \<Rightarrow> emu \<times> file_system \<Rightarrow> emu \<times> file_system" where
  "cccam_emu_add_runtime_key mem writable ty provider key_name data data_len persist = (\<lambda>(st, fs).
     let (index, name) =
           (case key_name of
              Some (c # n) \<Rightarrow> if length (c # n) > 2 then (0, Some (c # n)) else (of_nat (c_strtoul16 (c # n)), None)
            | _ \<Rightarrow> (0, None));
         st1 = emu_add_key mem ty provider index data data_len 0 name st in
     if \<not> persist \<or> \<not> writable then (st1, fs)
     else (st1, fs(em_file st1 \<mapsto> (case fs (em_file st1) of None \<Rightarrow> [] | Some c \<Rightarrow> c)
            @ key_line ty provider key_name (take (unat data_len) data))))"

subsection \<open>BISS\<close>

definition biss_providers :: "u16 \<Rightarrow> u32 list" where
  "biss_providers sid = [0x26000000 OR ucast sid, push_bit 16 (ucast sid) OR 0x0001, ucast sid, 0xA11FEED5]"

definition biss_find_session_word :: "u32 \<Rightarrow> u16 \<Rightarrow> emu \<Rightarrow> u8 list option" where
  "biss_find_session_word today sid st =
     map_option (take 8)
       (find (\<lambda>key. length key = 8 \<or> length key = 16)
         (map (\<lambda>provider. cccam_emu_find_key today (CHR ''F'') provider None 0 16 st) (biss_providers sid)))"

text \<open>The control word, or \<open>None\<close> for \<open>CCCAM_EMU_KEY_NOT_FOUND\<close>.\<close>

definition cccam_emu_biss_ecm :: "u32 \<Rightarrow> u16 \<Rightarrow> emu \<Rightarrow> u8 list option" where
  "cccam_emu_biss_ecm today sid st = map_option (\<lambda>sw. sw @ sw) (biss_find_session_word today sid st)"

subsection \<open>Reachable stores\<close>

text \<open>
  What the callers do: start, reload, clean up, edit the file, and add keys from EMMs. These are keys of Irdeto and
  PowerVU with a name of two characters.
\<close>

datatype emu_op =
    KInit "emu_key \<Rightarrow> bool"
  | KReload "emu_key \<Rightarrow> bool"
  | KCleanup
  | KSetFile "string option"
  | KEdit string "string option"
  | KRuntime "emu_key \<Rightarrow> bool" bool bool u32 string "u8 list" u8 bool

fun emu_exec :: "emu_op \<Rightarrow> emu \<times> file_system \<Rightarrow> emu \<times> file_system" where
  "emu_exec (KInit mem) (st, fs) = (cccam_emu_init mem fs st, fs)"
| "emu_exec (KReload mem) (st, fs) = (snd (cccam_emu_reload mem fs st), fs)"
| "emu_exec KCleanup (st, fs) = (cccam_emu_cleanup st, fs)"
| "emu_exec (KSetFile path) (st, fs) = (cccam_emu_set_key_file path st, fs)"
| "emu_exec (KEdit path content) (st, fs) = (st, fs(path := content))"
| "emu_exec (KRuntime mem writable irdeto provider key_name data data_len persist) (st, fs) =
     (if length key_name = 2
      then cccam_emu_add_runtime_key mem writable (if irdeto then CHR ''I'' else CHR ''P'') provider (Some key_name)
             data data_len persist (st, fs)
      else (st, fs))"

definition key_types :: "char set" where
  "key_types = {CHR ''F'', CHR ''I'', CHR ''T'', CHR ''W'', CHR ''P''}"

definition key_ok :: "emu_key \<Rightarrow> bool" where
  "key_ok k \<longleftrightarrow> ek_type k \<in> key_types \<and> length (ek_data k) \<le> 255 \<and> length (ek_name k) \<le> 7"

definition emu_inv :: "emu \<Rightarrow> bool" where
  "emu_inv st \<longleftrightarrow> em_count st = int (length (em_keys st)) \<and> em_count st \<le> EMU_MAX_KEYS \<and> (\<forall>k \<in> set (em_keys st). key_ok k)"

lemma in_update_first: "x \<in> set (update_first P f xs) \<Longrightarrow> x \<in> set xs \<or> (\<exists>y \<in> set xs. P y \<and> x = f y)"
  by (induction xs) (auto split: if_splits)

lemma u8_le_255: "unat (b :: u8) \<le> 255"
proof -
  have "unat b < 256" using unsigned_less [where ?'a = nat and w = b] by simp
  then show ?thesis by linarith
qed

lemma add_key_inv:
  assumes "emu_inv st" and "ty \<in> key_types" and "\<And>n. name = Some n \<Longrightarrow> length n \<le> 7"
  shows "emu_inv (emu_add_key mem ty provider key_index data data_len date name st)"
proof -
  have "length (take (unat data_len) data) \<le> 255" using u8_le_255 [of data_len] by simp
  moreover have "length (case name of None \<Rightarrow> m | Some n \<Rightarrow> c_strncpy 12 n) \<le> 7" if "length m \<le> 7" for m
    using that assms(3) by (cases name) (auto simp: c_strncpy_def)
  ultimately show ?thesis
    using assms(1,2)
    by (auto simp: emu_add_key_def emu_inv_def key_ok_def Let_def EMU_MAX_KEYS_def split: if_splits dest!: in_update_first)
qed

lemma add_parsed_inv:
  assumes "emu_inv st" and "ty \<in> key_types" and "length tok_index \<le> 8"
  shows "emu_inv (add_parsed mem ty tok_provider tok_index data date st)"
  using assms by (auto simp: add_parsed_def Let_def intro!: add_key_inv)

lemma parse_line_inv: "emu_inv st \<Longrightarrow> emu_inv (emu_parse_line mem line st)"
  by (auto simp: emu_parse_line_def Let_def key_types_def split: list.splits option.splits intro!: add_parsed_inv)

lemma parse_lines_inv: "emu_inv st \<Longrightarrow> emu_inv (fold (\<lambda>line. emu_parse_line mem (f line)) ls st)"
  by (induction ls arbitrary: st) (auto intro: parse_line_inv)

lemma load_file_inv: "emu_load_key_file mem fs path st = Some st' \<Longrightarrow> emu_inv st \<Longrightarrow> emu_inv st'"
  by (auto simp: emu_load_key_file_def intro: parse_lines_inv)

lemma free_keys_inv [simp]: "emu_inv (emu_free_keys st)" "emu_inv (emu_free_keys st\<lparr>em_initialized := b\<rparr>)"
  by (simp_all add: emu_inv_def emu_free_keys_def EMU_MAX_KEYS_def)

interpretation emu_sys: total_system "(emu_store_initial, fs)" emu_exec "\<lambda>s. emu_inv (fst s)" for fs
proof
  show "emu_inv (fst (emu_store_initial, fs))" by (simp add: emu_inv_def emu_store_initial_def EMU_MAX_KEYS_def)
next
  fix s :: "emu \<times> file_system" and x assume "emu_inv (fst s)"
  moreover obtain st fs where s: "s = (st, fs)" by fastforce
  ultimately have inv: "emu_inv st" by simp
  show "emu_inv (fst (emu_exec x s))"
  proof (cases x)
    case (KInit mem)
    with inv show ?thesis by (auto simp: s cccam_emu_init_def Let_def split: option.splits dest!: load_file_inv)
  next
    case (KReload mem)
    with inv show ?thesis by (auto simp: s cccam_emu_reload_def Let_def split: option.splits dest!: load_file_inv)
  next
    case (KSetFile path)
    with inv show ?thesis by (auto simp: s cccam_emu_set_key_file_def emu_inv_def split: option.splits)
  next
    case (KRuntime mem writable irdeto provider key_name data data_len persist)
    with inv show ?thesis
      by (auto simp: s cccam_emu_add_runtime_key_def Let_def key_types_def split: list.splits prod.splits intro!: add_key_inv)
  qed (use inv in \<open>simp_all add: s cccam_emu_cleanup_def\<close>)
qed

subsection \<open>The store as a map\<close>

text \<open>A key without a name is addressed by its type, provider and index.\<close>

definition key_get :: "char \<times> u32 \<times> u8 \<Rightarrow> emu \<Rightarrow> (u8 list \<times> u32) option" where
  "key_get = (\<lambda>(ty, provider, i) st.
     map_option (\<lambda>k. (ek_data k, ek_date k)) (find (key_matches ty provider i None) (em_keys st)))"

definition key_put :: "char \<times> u32 \<times> u8 \<Rightarrow> u8 list \<Rightarrow> emu \<Rightarrow> emu" where
  "key_put = (\<lambda>(ty, provider, i) data. emu_add_key (\<lambda>_. True) ty provider i data (of_nat (length data)) 0 None)"

definition key_room :: "nat \<Rightarrow> emu \<Rightarrow> bool" where
  "key_room n st \<longleftrightarrow> em_count st + int n \<le> EMU_MAX_KEYS"

text \<open>What a lookup into \<open>n\<close> bytes delivers of a key that was added: the length is cut to eight bits.\<close>

definition key_kept :: "nat \<Rightarrow> u8 list \<Rightarrow> u8 list" where
  "key_kept n data = (let d = take (length data mod 256) data in if length d \<le> n then d else [])"

lemma key_matches_None: "key_matches ty provider i None k \<longleftrightarrow> ek_type k = ty \<and> ek_provider k = provider \<and> ek_index k = i"
  by (simp add: key_matches_def)

lemma add_key_get:
  assumes "em_count st < EMU_MAX_KEYS" and "\<And>k. mem k"
  shows "key_get (ty, provider, i) (emu_add_key mem ty provider i data data_len date None st) = Some (take (unat data_len) data, date)"
proof -
  let ?upd = "\<lambda>k. k\<lparr>ek_data := take (unat data_len) data, ek_date := date\<rparr>"
  have "find (key_matches ty provider i None) (update_first (key_matches ty provider i None) ?upd ks)
      = map_option ?upd (find (key_matches ty provider i None) ks)" for ks
    by (rule find_update_first_same) (simp add: key_matches_None)
  with assms show ?thesis
    by (auto simp: key_get_def emu_add_key_def Let_def key_matches_None)
qed

lemma add_key_find_other:
  assumes "(ty, provider, i) \<noteq> (ty', provider', i')" and "\<And>k. Q k \<Longrightarrow> key_matches ty' provider' i' None k"
  shows "find Q (em_keys (emu_add_key mem ty provider i data data_len date None st)) = find Q (em_keys st)"
proof -
  have no: "\<not> Q k" if "key_matches ty provider i None k" for k
    using that assms(1) assms(2) [of k] by (auto simp: key_matches_None)
  have "find Q (update_first (key_matches ty provider i None) f ks) = find Q ks"
    if "\<And>k. key_matches ty provider i None k \<Longrightarrow> key_matches ty provider i None (f k)" for f ks
    using that no by (intro find_update_first_other) auto
  moreover have "\<not> Q \<lparr>ek_type = ty, ek_provider = provider, ek_index = i, ek_name = [], ek_date = date, ek_data = d\<rparr>" for d
    by (rule no) (simp add: key_matches_None)
  ultimately show ?thesis by (simp add: emu_add_key_def Let_def key_matches_None)
qed

lemma add_key_get_other:
  assumes "(ty, provider, i) \<noteq> (ty', provider', i')"
  shows "key_get (ty', provider', i') (emu_add_key mem ty provider i data data_len date None st) = key_get (ty', provider', i') st"
  using add_key_find_other [OF assms, of "key_matches ty' provider' i' None"] by (simp add: key_get_def)

lemma add_key_count: "em_count (emu_add_key mem ty provider i data data_len date name st) \<le> em_count st + 1"
  by (simp add: emu_add_key_def Let_def)

lemma find_key_get:
  assumes "key_get (ty, provider, i) st = Some (data, date)" and "date = 0 \<or> today \<le> date"
  shows "cccam_emu_find_key today ty provider None i n st = (if length data \<le> n then data else [])"
proof -
  obtain k where k: "find (key_matches ty provider i None) (em_keys st) = Some k" "ek_data k = data" "ek_date k = date"
    using assms(1) by (auto simp: key_get_def)
  have "find (\<lambda>k. ek_type k = ty \<and> ek_provider k = provider \<and> ek_index k = i \<and> emu_key_valid today k) ks = Some k"
    if "find (key_matches ty provider i None) ks = Some k" for ks
    using that assms(2) k(2,3) by (induction ks) (auto simp: key_matches_None emu_key_valid_def split: if_splits)
  with k assms(2) show ?thesis by (simp add: cccam_emu_find_key_def copy_out_def Let_def)
qed

interpretation keys: key_store key_put "\<lambda>(ty, provider, i) st. Some (cccam_emu_find_key today ty provider None i n st)" "key_kept n" key_room
  for today n
proof
  fix m and k :: "char \<times> u32 \<times> u8" and v s assume room: "key_room (Suc m) s"
  obtain ty provider i where k: "k = (ty, provider, i)" by (cases k)
  have "key_get (ty, provider, i) (key_put k v s) = Some (take (length v mod 256) v, 0)"
    using room add_key_get [of s "\<lambda>_. True" ty provider i v "of_nat (length v)" 0]
    by (simp add: k key_put_def key_room_def unat_of_nat)
  then show "(case k of (ty, provider, i) \<Rightarrow> \<lambda>st. Some (cccam_emu_find_key today ty provider None i n st)) (key_put k v s) = Some (key_kept n v)"
    by (simp add: k find_key_get key_kept_def Let_def)
  have "em_count (key_put k v s) \<le> em_count s + 1" by (simp add: k key_put_def add_key_count)
  with room show "key_room m (key_put k v s)" by (simp add: key_room_def)
next
  fix k k' v s assume "k \<noteq> (k' :: char \<times> u32 \<times> u8)"
  moreover obtain ty provider i ty' provider' i' where k: "k = (ty, provider, i)" "k' = (ty', provider', i')" by (cases k, cases k')
  ultimately show "(case k' of (ty, provider, i) \<Rightarrow> \<lambda>st. Some (cccam_emu_find_key today ty provider None i n st)) (key_put k v s)
    = (case k' of (ty, provider, i) \<Rightarrow> \<lambda>st. Some (cccam_emu_find_key today ty provider None i n st)) s"
    using add_key_find_other [of ty provider i ty' provider' i'
        "\<lambda>k. ek_type k = ty' \<and> ek_provider k = provider' \<and> ek_index k = i' \<and> emu_key_valid today k"]
    by (simp add: key_put_def cccam_emu_find_key_def key_matches_None)
qed

subsection \<open>Lines that are written and read back\<close>

lemma hex_upper_value: "n < 16 \<Longrightarrow> hex_value (hex_upper n) = Some (int n)"
proof -
  assume "n < 16"
  then have "n \<in> set [0..<16]" by simp
  then show ?thesis by (simp add: upt_rec) (elim disjE; simp add: hex_upper_def hex_value_def c_isdigit_def char_code_def)
qed

lemma hex_char:
  assumes "hex_value c = Some y"
  shows "\<not> c_isspace c" "c \<noteq> CHR ''x''" "c \<noteq> CHR ''X''" "c \<noteq> CHR ''-''" "c \<noteq> CHR ''+''" "c \<noteq> CHR ''#''" "c \<noteq> CHR '';''"
    "\<not> key_delim c" "c \<noteq> NL" "c \<noteq> NUL"
  using assms by (auto simp: hex_value_def c_isspace_def c_isdigit_def char_code_def key_delim_def split: if_splits)

lemma length_hex_digits [simp]: "length (hex_digits_of n v) = n"
  by (induction n arbitrary: v) simp_all

lemma is_hex_digits [simp]: "is_hex (hex_digits_of n v)"
  by (induction n arbitrary: v) (auto simp: is_hex_def hex_upper_value)

lemma is_hex_append: "is_hex (a @ b) \<longleftrightarrow> is_hex a \<and> is_hex b"
  by (simp add: is_hex_def)

lemma hex_digits_value_append:
  "is_hex s \<Longrightarrow> hex_digits_value n (s @ [c]) = (case hex_value c of None \<Rightarrow> hex_digits_value n s | Some d \<Rightarrow> 16 * hex_digits_value n s + d)"
  by (induction s arbitrary: n) (auto simp: is_hex_def split: option.splits)

lemma hex_digits_value_of: "hex_digits_value 0 (hex_digits_of n v) = int (v mod 16 ^ n)"
proof (induction n arbitrary: v)
  case (Suc n)
  have "hex_digits_value 0 (hex_digits_of (Suc n) v) = 16 * int (v div 16 mod 16 ^ n) + int (v mod 16)"
    using Suc by (simp add: hex_digits_value_append hex_upper_value)
  also have "\<dots> = int (v mod 16 ^ Suc n)"
    using mod_mult2_eq [of v 16 "16 ^ n"] by simp
  finally show ?case .
qed simp

lemma skip_0x_hex: "is_hex s \<Longrightarrow> skip_0x s = s"
  by (induction s rule: skip_0x.induct) (auto simp: is_hex_def dest: hex_char(2,3))

lemma skip_space_hex: "is_hex s \<Longrightarrow> skip_space (s @ r) = (if s = [] then skip_space r else s @ r)"
  by (cases s) (auto simp: skip_space_def is_hex_def dest: hex_char(1))

lemma strtoul_hex:
  assumes "is_hex s" and "hex_digits_value 0 s < 2 ^ 64" and "0 \<le> hex_digits_value 0 s"
  shows "c_strtoul16 s = nat (hex_digits_value 0 s)"
proof (cases s)
  case (Cons c r)
  with assms(1) have "c \<noteq> CHR ''-''" "c \<noteq> CHR ''+''" using hex_char(4,5) [of c] by (auto simp: is_hex_def)
  with assms Cons skip_space_hex [OF assms(1), of "[]"] skip_0x_hex [OF assms(1)] show ?thesis
    by (simp add: c_strtoul16_def)
qed (simp add: c_strtoul16_def skip_space_def)

lemma strtoul_digits: "v < 16 ^ n \<Longrightarrow> n \<le> 16 \<Longrightarrow> c_strtoul16 (hex_digits_of n v) = v"
proof -
  assume v: "v < 16 ^ n" "n \<le> 16"
  have "(16 :: nat) ^ n \<le> 16 ^ 16" using v(2) by (intro power_increasing) simp_all
  with v(1) have "v < 2 ^ 64" by simp
  with v show ?thesis using strtoul_hex [of "hex_digits_of n v"] by (simp add: hex_digits_value_of)
qed

lemma hex_pair: "hex_digits_of 2 v = [hex_upper (v div 16 mod 16), hex_upper (v mod 16)]"
  by (simp add: numeral_2_eq_2)

lemma scan_pair: "c_scan_hex2 (hex_digits_of 2 (unat (b :: u8)) @ r) = Some (ucast b)"
proof -
  let ?c = "hex_upper (unat b div 16 mod 16)" and ?d = "hex_upper (unat b mod 16)"
  have h: "hex_value ?c = Some (int (unat b div 16 mod 16))" "hex_value ?d = Some (int (unat b mod 16))"
    by (simp_all add: hex_upper_value)
  have s: "skip_space (?c # ?d # r) = ?c # ?d # r" using hex_char(1) [OF h(1)] by (simp add: skip_space_def)
  have "unat b < 256" using unsigned_less [where ?'a = nat and w = b] by simp
  then have "hex_digits_value 0 [?c, ?d] = int (unat b)"
    using hex_digits_value_of [of 2 "unat b"] by (simp only: hex_pair) simp
  then show ?thesis
    using h hex_char [OF h(1)] hex_char [OF h(2)] s
    by (simp add: hex_pair c_scan_hex2_def Let_def del: hex_digits_value.simps) 
qed

lemma hex_pairs_bytes: "hex_pairs (concat (map (\<lambda>b. hex_digits_of 2 (unat b)) data)) = Some data"
proof (induction data)
  case (Cons b data)
  have "c_scan_hex2 (hex_digits_of 2 (unat b) @ concat (map (\<lambda>b. hex_digits_of 2 (unat b)) data)) = Some (ucast b)"
    by (rule scan_pair)
  moreover have "ucast (ucast b :: u32) = b" by (rule bit_word_eqI) (simp add: bit_simps)
  ultimately show ?case using Cons by (simp add: hex_pair)
qed simp

lemma length_bytes_hex: "length (concat (map (\<lambda>b. hex_digits_of 2 (unat b)) data)) = 2 * length data"
  by (induction data) simp_all

lemma is_hex_bytes: "is_hex (concat (map (\<lambda>b. hex_digits_of 2 (unat b)) data))"
  by (induction data) (simp_all add: is_hex_append, simp add: is_hex_def)

lemma hex_to_bin_bytes: "length data \<le> m \<Longrightarrow> hex_to_bin (concat (map (\<lambda>b. hex_digits_of 2 (unat b)) data)) m = Some data"
  by (simp add: hex_to_bin_def hex_pairs_bytes length_bytes_hex)

lemma hex_no: "is_hex s \<Longrightarrow> hex_value c = None \<Longrightarrow> c \<notin> set s"
  by (auto simp: is_hex_def list_all_iff)

lemma is_hex_delim: "is_hex s \<Longrightarrow> c \<in> set s \<Longrightarrow> \<not> key_delim c"
  by (auto simp: is_hex_def list_all_iff dest: hex_char)

lemma key_type_char:
  assumes "ty \<in> key_types"
  shows "c_toupper ty = ty" "\<not> c_isspace ty" "ty \<noteq> CHR ''#''" "ty \<noteq> CHR '';''" "ty \<noteq> NL" "ty \<noteq> NUL"
  using assms by (auto simp: key_types_def c_toupper_def c_isspace_def char_code_def)

lemma three_tokens:
  assumes "is_hex a" "is_hex b" "is_hex c" "a \<noteq> []" "b \<noteq> []" "c \<noteq> []"
  shows "strtok_all key_delim ('' '' @ a @ '' '' @ b @ '' '' @ c) = [a, b, c]"
proof -
  have sp: "key_delim (CHR '' '')" by (simp add: key_delim_def)
  have 3: "strtok_all key_delim (c @ []) = c # strtok_all key_delim []"
    using is_hex_delim [OF assms(3)] assms(6) by (intro strtok_step) auto
  have 2: "strtok_all key_delim (b @ '' '' @ c) = b # strtok_all key_delim ('' '' @ c)"
    using is_hex_delim [OF assms(2)] assms(5) sp by (intro strtok_step) auto
  have 1: "strtok_all key_delim (a @ '' '' @ b @ '' '' @ c) = a # strtok_all key_delim ('' '' @ b @ '' '' @ c)"
    using is_hex_delim [OF assms(1)] assms(4) sp by (intro strtok_step) auto
  have "strtok_all key_delim ('' '' @ s) = strtok_all key_delim s" for s
    using strtok_delim [of key_delim "CHR '' ''" s] sp by simp
  with 1 2 3 show ?thesis by simp
qed

lemma parse_written_key:
  assumes "ty \<in> key_types" "is_hex n" "n \<noteq> []" "length n \<le> 8" "data \<noteq> []" "length data \<le> 255" "length p = 8" "is_hex p"
  shows "emu_parse_line mem ([ty] @ '' '' @ p @ '' '' @ n @ '' '' @ concat (map (\<lambda>b. hex_digits_of 2 (unat b)) data)) st
    = add_parsed mem ty p n data 0 st"
proof -
  let ?d = "concat (map (\<lambda>b. hex_digits_of 2 (unat b)) data)"
  let ?l = "[ty] @ '' '' @ p @ '' '' @ n @ '' '' @ ?d"
  note ty = key_type_char [OF assms(1)]
  have x: "hex_value (CHR ''#'') = None" "hex_value (CHR '';'') = None"
    by (simp_all add: hex_value_def c_isdigit_def char_code_def)
  have "CHR ''#'' \<notin> set ?l" "CHR '';'' \<notin> set ?l"
    using ty hex_no [OF assms(2)] hex_no [OF assms(8)] hex_no [OF is_hex_bytes, of _ data] x by auto
  moreover have "skip_space ?l = ?l" using ty(2) by (simp add: skip_space_def)
  ultimately have t: "key_text ?l = ?l" unfolding key_text_def by (simp only: cut_at_none simp_thms)
  have "?d \<noteq> []" using assms(5) length_bytes_hex [of data] by (metis length_0_conv mult_eq_0_iff numeral_neq_zero)
  then have toks: "strtok_all key_delim ('' '' @ p @ '' '' @ n @ '' '' @ ?d) = [p, n, ?d]"
    using assms by (intro three_tokens is_hex_bytes) auto
  have b: "hex_to_bin ?d EMU_MAX_KEY_DATA = Some data"
    using assms(6) by (intro hex_to_bin_bytes) (simp add: EMU_MAX_KEY_DATA_def)
  have "\<not> (length p \<noteq> 6 \<and> length p \<noteq> 8 \<or> \<not> is_hex p)" "\<not> (n = [] \<or> length n > 8 \<or> \<not> is_hex n)" "data \<noteq> []"
    using assms by auto
  moreover have "\<not> c_toupper ty \<notin> {CHR ''F'', CHR ''I'', CHR ''T'', CHR ''W'', CHR ''P''}"
    using ty(1) assms(1) by (simp add: key_types_def)
  ultimately show ?thesis
    using t toks b by (auto simp: emu_parse_line_def ty(1))
qed

lemma data_len: "length data \<le> 255 \<Longrightarrow> take (unat (of_nat (length data) :: u8)) data = data"
  by (simp add: unat_of_nat)

lemma add_parsed_short:
  assumes "length p = 8" "c_strtoul16 p = unat provider" "length n \<le> 2" "length data \<le> 255" "n \<noteq> []"
    and "em_count st < EMU_MAX_KEYS" and "\<And>k. mem k"
  shows "key_get (ty, provider, of_nat (c_strtoul16 n)) (add_parsed mem ty p n data date st) = Some (data, date)"
proof -
  let ?i = "of_nat (c_strtoul16 n) :: u8"
  have g: "key_get (ty, provider, ?i) (emu_add_key mem ty provider ?i data (of_nat (length data)) date None st) = Some (data, date)"
    by (subst add_key_get [OF assms(6,7)]) (simp only: data_len [OF assms(4)])
  have step: "key_get (ty, provider, ?i) (emu_add_key mem ty (drop_bit 8 provider) (ucast (provider AND 0xFF)) data (of_nat (length data)) date None s)
      = key_get (ty, provider, ?i) s" if "?i = 0" "provider AND 0xFF \<noteq> 0" for s
  proof (rule add_key_get_other)
    have "(ucast (provider AND 0xFF) :: u8) \<noteq> 0"
    proof
      assume z: "(ucast (provider AND 0xFF) :: u8) = 0"
      have "provider AND 0xFF = 0"
      proof (rule bit_word_eqI)
        fix j assume "j < LENGTH(32)"
        have "\<not> bit (provider AND 0xFF) j" if "j < 8"
          using arg_cong [OF z, of "\<lambda>w. bit w j"] that by (simp add: bit_ucast_iff)
        moreover have "\<not> bit (provider AND 0xFF) j" if "\<not> j < 8"
        proof -
          have m: "(0xFF :: u32) = mask 8" by (simp add: mask_eq_exp_minus_1)
          show ?thesis unfolding m bit_and_iff bit_mask_iff using that by simp
        qed
        ultimately show "bit (provider AND 0xFF) j = bit (0 :: u32) j" by auto
      qed
      with that(2) show False ..
    qed
    with that(1) show "(ty, drop_bit 8 provider, ucast (provider AND 0xFF)) \<noteq> (ty, provider, ?i)" by auto
  qed
  have other: "key_get (ty, provider, ?i) (if ?i = 0 \<and> provider AND 0xFF \<noteq> 0 then emu_add_key mem ty (drop_bit 8 provider)
      (ucast (provider AND 0xFF)) data (of_nat (length data)) date None s else s) = key_get (ty, provider, ?i) s" for s
  proof (cases "?i = 0 \<and> provider AND 0xFF \<noteq> 0")
    case True
    show ?thesis unfolding if_P [OF True] by (rule step) (use True in auto)
  next
    case False
    show ?thesis unfolding if_not_P [OF False] ..
  qed
  have "add_parsed mem ty p n data date st =
     (let st1 = emu_add_key mem ty provider ?i data (of_nat (length data)) date None st in
      if ?i = 0 \<and> provider AND 0xFF \<noteq> 0 then emu_add_key mem ty (drop_bit 8 provider)
      (ucast (provider AND 0xFF)) data (of_nat (length data)) date None st1 else st1)"
    using assms(1-3) by (simp add: add_parsed_def Let_def)
  then show ?thesis by (simp only: Let_def other g)
qed

subsection \<open>Properties\<close>

text \<open>
  Whatever is started, reloaded, edited and added by EMMs, in any order, the counter is the number of keys, at
  most 4096, every key is of one of the five types of the parser and has at most 255 bytes, and a name has at most
  seven characters.
\<close>

theorem emu_run_inv:
  "\<exists>st fs'. fold emu_exec ops (emu_store_initial, fs) = (st, fs') \<and> em_count st = int (length (em_keys st)) \<and> em_count st \<le> 4096 \<and>
     set (map ek_type (em_keys st)) \<subseteq> key_types \<and> set (map (length \<circ> ek_data) (em_keys st)) \<subseteq> {..255} \<and>
     set (map (length \<circ> ek_name) (em_keys st)) \<subseteq> {..7}"
proof -
  obtain st fs' where f: "fold emu_exec ops (emu_store_initial, fs) = (st, fs')" by fastforce
  have "emu_inv st" using emu_sys.invar_fold [OF emu_sys.invar_start, of ops fs] by (simp add: f)
  then show ?thesis using f by (auto simp: emu_inv_def key_ok_def EMU_MAX_KEYS_def)
qed

lemma find_in_set: "find P xs = Some x \<Longrightarrow> x \<in> set xs"
  by (auto simp: find_Some_iff)

lemma copy_out_found: "copy_out n (find P ks) \<noteq> [] \<Longrightarrow> \<exists>k \<in> set ks. copy_out n (find P ks) = ek_data k"
  by (cases "find P ks") (auto simp: copy_out_def dest: find_in_set split: if_splits)

lemma find_key_N:
  assumes "emu_inv st"
  shows "cccam_emu_find_key today (CHR ''N'') provider key_name i n st = []"
proof -
  have "find (\<lambda>k. ek_type k = CHR ''N'' \<and> P k) (em_keys st) = None" for P
    using assms by (auto simp: find_None_iff emu_inv_def key_ok_def key_types_def)
  then show ?thesis by (simp add: cccam_emu_find_key_def Let_def copy_out_def)
qed

lemma find_key_short:
  assumes "emu_inv st"
  shows "length (cccam_emu_find_key today ty provider key_name i n st) \<le> 255"
proof -
  have "length (copy_out n (find P (em_keys st))) \<le> 255" for P
    using copy_out_found [of n P "em_keys st"] assms by (fastforce simp: emu_inv_def key_ok_def)
  then show ?thesis by (simp add: cccam_emu_find_key_def Let_def)
qed

lemma emu_reachable_inv: "fold emu_exec ops (emu_store_initial, fs) = (st, fs') \<Longrightarrow> emu_inv st"
  using emu_sys.invar_fold [OF emu_sys.invar_start, of ops fs] by simp

lemma find_name_long:
  assumes "emu_inv st" and "length ua = 8"
  shows "cccam_emu_find_key_name today ty (Some ua) n st = ([], None)"
proof -
  have name: "ek_name k \<noteq> ua" if "k \<in> set (em_keys st)" for k using that assms by (auto simp: emu_inv_def key_ok_def)
  have "find (\<lambda>k. ek_type k = ty \<and> ek_name k \<noteq> [] \<and> ek_name k = ua \<and> Q k) (em_keys st) = None" for Q
    using name by (auto simp: find_None_iff)
  moreover obtain c r where "ua = c # r" using assms(2) by (cases ua) auto
  ultimately show ?thesis by (simp add: cccam_emu_find_key_name_def copy_out_def)
qed

text \<open>
  Three documented kinds of keys can never be found, whatever the key files hold: a key of type N
  (Nagravision), a key under a name of eight characters (the unique address of PowerVU), and a key of more than
  255 bytes (the tables of Viaccess).
\<close>

theorem emu_unreachable_keys:
  assumes "fold emu_exec ops (emu_store_initial, fs) = (st, fs')" and "length ua = 8"
  shows "cccam_emu_find_key today (CHR ''N'') provider key_name i n st = [] \<and>
    cccam_emu_find_key_name today ty (Some ua) n st = ([], None) \<and>
    length (cccam_emu_find_key today ty' provider key_name i n st) \<le> 255"
  using emu_reachable_inv [OF assms(1)] assms(2) by (simp add: find_key_N find_key_short find_name_long)

lemma emu_unreachable_keys_witness:
  "cccam_emu_find_key 20260101 (CHR ''N'') 0x4101 None 0 16 (cccam_emu_init (\<lambda>_. True) (\<lambda>_. None) emu_store_initial) = []"
  using emu_unreachable_keys [where ops = "[KInit (\<lambda>_. True)]" and fs = "\<lambda>_. None" and ua = "''00000001''"
      and today = 20260101 and provider = "0x4101" and key_name = None and i = 0 and n = 16]
  by simp

text \<open>
  C12: Adding keys without a name is writing a map, as long as there is room: a lookup delivers the last key added
  under its type, provider and index, cut to its length modulo 256, or nothing when the caller's buffer is too
  small, and what was in the store before for every other address. This is so on every day, and whatever keys were
  in the store.
\<close>

theorem emu_store_is_map:
  assumes "em_count st + int (length kvs) \<le> 4096"
  shows "cccam_emu_find_key today ty provider None i n
      (fold (\<lambda>((ty, provider, i), data). emu_add_key (\<lambda>_. True) ty provider i data (of_nat (length data)) 0 None) kvs st)
    = (case map_of (rev kvs) (ty, provider, i) of
         None \<Rightarrow> cccam_emu_find_key today ty provider None i n st
       | Some data \<Rightarrow> (let d = take (length data mod 256) data in if length d \<le> n then d else []))"
proof -
  have "key_room (length kvs) st" using assms by (simp add: key_room_def EMU_MAX_KEYS_def)
  from keys.get_puts [OF this, where today = today and n = n and k = "(ty, provider, i)"] show ?thesis
    by (simp add: key_put_def key_kept_def case_prod_beta' split: option.splits)
qed

lemma emu_store_is_map_witness:
  "cccam_emu_find_key 20260101 (CHR ''I'') 0x0604 None 2 16
     (fold (\<lambda>((ty, provider, i), data). emu_add_key (\<lambda>_. True) ty provider i data (of_nat (length data)) 0 None)
       [((CHR ''I'', 0x0604, 2), [1, 2]), ((CHR ''I'', 0x0604, 3), [5]), ((CHR ''I'', 0x0604, 2), [3, 4])] emu_store_initial) = [3, 4]"
  by (subst emu_store_is_map) (simp_all add: emu_store_initial_def)

lemma load_append_line:
  assumes "c = [] \<or> (\<exists>c'. c = c' @ [NL])" "NL \<notin> set l" "NUL \<notin> set l" "length l \<le> 1022"
  shows "fold (\<lambda>line. emu_parse_line mem (cut_at NL (c_line line))) (fgets_lines 1022 (c @ l @ [NL])) st
    = emu_parse_line mem l (fold (\<lambda>line. emu_parse_line mem (cut_at NL (c_line line))) (fgets_lines 1022 c) st)"
proof -
  have one: "fgets_lines 1022 (l @ [NL]) = [l @ [NL]]"
    using fgets_line [of l 1022 "[]"] assms(2,4) by simp
  have line: "cut_at NL (c_line (l @ [NL])) = l"
    using assms(2,3) cut_at_append [of NL l "[]"] by (simp add: c_line_id)
  consider "c = []" | c' where "c = c' @ [NL]" using assms(1) by blast
  then show ?thesis
  proof cases
    case 2
    have "fgets_lines 1022 (c @ l @ [NL]) = fgets_lines 1022 c @ [l @ [NL]]"
      using fgets_lines_append [of 1022 c' "l @ [NL]"] by (simp add: 2 one)
    then show ?thesis by (simp add: line)
  qed (simp add: one line)
qed

lemma find_key_named: "n \<noteq> [] \<Longrightarrow> cccam_emu_find_key today ty provider (Some n) i m st = cccam_emu_find_key today ty provider None (of_nat (c_strtoul16 n)) m st"
  by (cases n) (simp_all add: cccam_emu_find_key_def)

lemma add_key_file [simp]: "em_file (emu_add_key mem ty provider i data data_len date name st) = em_file st"
  by (simp add: emu_add_key_def Let_def)

lemma add_key_free [simp]: "emu_free_keys (emu_add_key mem ty provider i data data_len date name st) = emu_free_keys st"
  by (simp add: emu_add_key_def Let_def emu_free_keys_def)

lemma key_line_chars:
  assumes "ty \<in> key_types" "is_hex n"
  shows "\<exists>l. key_line ty provider (Some n) data = l @ [NL] \<and> NL \<notin> set l \<and> NUL \<notin> set l \<and> length l = 12 + length n + 2 * length data \<and>
    l = [ty] @ '' '' @ hex_digits_of 8 (unat provider) @ '' '' @ n @ '' '' @ concat (map (\<lambda>b. hex_digits_of 2 (unat b)) data)"
proof -
  have x: "hex_value NL = None" "hex_value NUL = None" by (simp_all add: hex_value_def c_isdigit_def char_code_def)
  have "NL \<noteq> CHR '' ''" "NUL \<noteq> CHR '' ''" by simp_all
  then show ?thesis
    using key_type_char(5,6) [OF assms(1)] hex_no [OF assms(2)] hex_no [OF is_hex_digits] hex_no [OF is_hex_bytes, of _ data] x
    by (auto simp: key_line_def length_bytes_hex)
qed

text \<open>
  C11: A runtime key with a name of one or two hexadecimal digits, such as the operator keys of Irdeto EMMs, that is written
  to a complete key file is there after a reload: when the file was empty or ended in a line break and has less than 4096
  keys, and the key has 1 to 255 bytes, then the next reload succeeds and every lookup by that name, on any day, delivers
  exactly the key. (The management keys of EMMs are written under the names M3 and M4, which the parser rejects.)
\<close>

theorem runtime_key_survives_reload:
  assumes "fs (em_file st) = Some c" and "c = [] \<or> last c = NL" and "cccam_emu_reload (\<lambda>_. True) fs st = (0, old)" and "em_count old < 4096"
    and "ty \<in> key_types" and "is_hex key_name" and "key_name \<noteq> []" and "length key_name \<le> 2" and "data \<noteq> []" and "length data \<le> 255"
    and "cccam_emu_add_runtime_key mem True ty provider (Some key_name) data (of_nat (length data)) True (st, fs) = (st1, fs1)"
    and "length data \<le> n"
  shows "\<exists>st2. cccam_emu_reload (\<lambda>_. True) fs1 st1 = (0, st2) \<and> cccam_emu_find_key today ty provider (Some key_name) i n st2 = data"
proof -
  let ?add = "fold (\<lambda>line. emu_parse_line (\<lambda>_. True) (cut_at NL (c_line line)))"
  obtain l where l: "key_line ty provider (Some key_name) data = l @ [NL]" "NL \<notin> set l" "NUL \<notin> set l" "length l = 12 + length key_name + 2 * length data"
      "l = [ty] @ '' '' @ hex_digits_of 8 (unat provider) @ '' '' @ key_name @ '' '' @ concat (map (\<lambda>b. hex_digits_of 2 (unat b)) data)"
    using key_line_chars [OF assms(5,6)] by blast
  have st1: "em_file st1 = em_file st" "emu_free_keys st1 = emu_free_keys st" and fs1: "fs1 (em_file st) = Some (c @ l @ [NL])"
    using assms(1,11) by (auto simp: cccam_emu_add_runtime_key_def Let_def data_len [OF assms(10)] l(1) split: list.splits if_splits)
  have old: "old = ?add (fgets_lines 1022 c) (emu_free_keys st)"
    using assms(1,3) by (simp add: cccam_emu_reload_def emu_load_key_file_def)
  have "c = [] \<or> (\<exists>c'. c = c' @ [NL])" using assms(2) by (metis append_butlast_last_id)
  then have "?add (fgets_lines 1022 (c @ l @ [NL])) (emu_free_keys st) = emu_parse_line (\<lambda>_. True) l old"
    unfolding old using l(2-4) assms(8,10) by (intro load_append_line) auto
  also have "\<dots> = add_parsed (\<lambda>_. True) ty (hex_digits_of 8 (unat provider)) key_name data 0 old"
    unfolding l(5) using assms by (intro parse_written_key) auto
  finally have load: "cccam_emu_reload (\<lambda>_. True) fs1 st1 = (0, add_parsed (\<lambda>_. True) ty (hex_digits_of 8 (unat provider)) key_name data 0 old)"
    by (simp add: cccam_emu_reload_def emu_load_key_file_def st1 fs1)
  have "unat provider < 16 ^ 8" using unsigned_less [where ?'a = nat and w = provider] by simp
  then have "c_strtoul16 (hex_digits_of 8 (unat provider)) = unat provider" by (intro strtoul_digits) simp_all
  then have "key_get (ty, provider, of_nat (c_strtoul16 key_name))
      (add_parsed (\<lambda>_. True) ty (hex_digits_of 8 (unat provider)) key_name data 0 old) = Some (data, 0)"
    using assms by (intro add_parsed_short) (simp_all add: EMU_MAX_KEYS_def)
  from find_key_get [OF this, of today n] show ?thesis
    using assms(7,12) by (simp add: load find_key_named)
qed

lemma runtime_key_survives_reload_witness:
  "\<exists>st1 fs1 st2. cccam_emu_add_runtime_key (\<lambda>_. True) True (CHR ''I'') 0x0604 (Some ''02'') [0xAB, 0x0C] 2 True
      (emu_store_initial, [''conf/SoftCam.Key'' \<mapsto> []]) = (st1, fs1) \<and>
    cccam_emu_reload (\<lambda>_. True) fs1 st1 = (0, st2) \<and> cccam_emu_find_key 20260101 (CHR ''I'') 0x0604 (Some ''02'') 0 16 st2 = [0xAB, 0x0C]"
proof -
  obtain st1 fs1 where a: "cccam_emu_add_runtime_key (\<lambda>_. True) True (CHR ''I'') 0x0604 (Some ''02'') [0xAB, 0x0C] 2 True
      (emu_store_initial, [''conf/SoftCam.Key'' \<mapsto> []]) = (st1, fs1)" by fastforce
  have h: "is_hex ''02''" by (simp add: is_hex_def hex_value_def c_isdigit_def char_code_def)
  have o: "cccam_emu_reload (\<lambda>_. True) [''conf/SoftCam.Key'' \<mapsto> []] emu_store_initial = (0, emu_free_keys emu_store_initial)"
    by (simp add: cccam_emu_reload_def emu_load_key_file_def emu_store_initial_def)
  have "\<exists>st2. cccam_emu_reload (\<lambda>_. True) fs1 st1 = (0, st2) \<and> cccam_emu_find_key 20260101 (CHR ''I'') 0x0604 (Some ''02'') 0 16 st2 = [0xAB, 0x0C]"
    by (rule runtime_key_survives_reload [OF _ _ o _ _ h, where c = "[]" and n = 16 and i = 0])
       (use a in \<open>simp_all add: emu_store_initial_def emu_free_keys_def key_types_def\<close>)
  with a show ?thesis by blast
qed

text \<open>
  C13: A BISS line of the key file serves its channel: after \<open>F 2600SSSS 00\<close> with a key of 8 or 16 bytes has been
  read into a store with room, whatever was in the store, the ECM of service \<open>SSSS\<close> is answered with the first
  eight bytes of that key, twice.
\<close>

theorem biss_line_serves:
  assumes "em_count st < 4096" and "length data = 8 \<or> length data = 16"
  shows "cccam_emu_biss_ecm today sid (emu_parse_line (\<lambda>_. True)
      (''F '' @ hex_digits_of 8 (unat (0x26000000 OR ucast sid :: u32)) @ '' 00 '' @ concat (map (\<lambda>b. hex_digits_of 2 (unat b)) data)) st)
    = Some (take 8 data @ take 8 data)"
proof -
  let ?p = "0x26000000 OR ucast sid :: u32"
  have h: "is_hex ''00''" by (simp add: is_hex_def hex_value_def c_isdigit_def char_code_def)
  have z: "c_strtoul16 ''00'' = 0" using strtoul_digits [of 0 2] by (simp add: hex_pair hex_upper_def)
  have ne: "data \<noteq> []" using assms(2) by auto
  have parse: "emu_parse_line (\<lambda>_. True)
      (''F '' @ hex_digits_of 8 (unat ?p) @ '' 00 '' @ concat (map (\<lambda>b. hex_digits_of 2 (unat b)) data)) st
    = add_parsed (\<lambda>_. True) (CHR ''F'') (hex_digits_of 8 (unat ?p)) ''00'' data 0 st" (is "?l = ?r")
    using parse_written_key [OF _ h _ _ ne, of "CHR ''F''" "hex_digits_of 8 (unat ?p)" "\<lambda>_. True" st] assms(2)
    by (auto simp: key_types_def)
  have "unat ?p < 16 ^ 8" using unsigned_less [where ?'a = nat and w = ?p] by simp
  then have "c_strtoul16 (hex_digits_of 8 (unat ?p)) = unat ?p" by (intro strtoul_digits) simp_all
  then have "key_get (CHR ''F'', ?p, of_nat (c_strtoul16 ''00'')) ?r = Some (data, 0)"
    using assms by (intro add_parsed_short) (auto simp: EMU_MAX_KEYS_def)
  then have "cccam_emu_find_key today (CHR ''F'') ?p None 0 16 ?r = data"
    using find_key_get [of "CHR ''F''" ?p 0 ?r data 0 today 16] assms(2) by (auto simp: z)
  then show ?thesis
    using assms(2) unfolding parse
    by (auto simp: cccam_emu_biss_ecm_def biss_find_session_word_def biss_providers_def)
qed

lemma biss_line_serves_witness:
  "cccam_emu_biss_ecm 20260101 0x1234 (emu_parse_line (\<lambda>_. True)
      (''F '' @ hex_digits_of 8 (unat (0x26000000 OR ucast (0x1234 :: u16) :: u32)) @ '' 00 ''
        @ concat (map (\<lambda>b. hex_digits_of 2 (unat b)) [1 :: u8, 2, 3, 4, 5, 6, 7, 8])) emu_store_initial)
    = Some (take 8 [1, 2, 3, 4, 5, 6, 7, 8] @ take 8 [1, 2, 3, 4, 5, 6, 7, 8])"
  by (rule biss_line_serves) (simp_all add: emu_store_initial_def)

end
