(* ===== verification/Reader.thy ===== *)
theory Reader
  imports Handshake Emu
begin

text \<open>
  One reader of \<open>src/CCshare/cccam3_card_manager.c\<close>: its record, whether it serves a channel, its score,
  the failure backoff, and the remote session (connect, login, ECM and CW exchange). The connection to
  the remote server is a \<open>remote_io\<close>: the outcome of the next \<open>connect\<close>, the bytes the peer will still
  deliver, the outcomes of the next \<open>send\<close> calls and what was sent. The smartcard (PC/SC) and the key
  emulator are functions of the record \<open>engines\<close>; the emulator is a partial one, \<open>None\<close> is a call that does not return or
  that the source does not define. Its instance is in \<open>Emu_Dispatch\<close>.
\<close>

subsection \<open>State\<close>

datatype reader_type = READER_LOCAL | READER_REMOTE | READER_EMU

datatype reader_state = STATE_DISABLED | STATE_OK | STATE_ERROR | STATE_TIMEOUT | STATE_NO_CARD

record reader =
  rd_id :: u32
  rd_name :: string
  rd_type :: reader_type
  rd_state :: reader_state
  rd_caid :: u16
  rd_provid :: u16
  rd_hop :: u8
  rd_priority :: u8
  rd_enabled :: bool
  rd_ecm_requests :: u32
  rd_ecm_success :: u32
  rd_ecm_fail :: u32
  rd_last_used :: time_t
  rd_last_error :: time_t
  rd_consecutive_failures :: int
  rd_retry_after :: time_t
  rd_remote_host :: string
  rd_remote_port :: int
  rd_remote_user :: string
  rd_remote_pass :: string
  rd_remote_fd :: int
  rd_remote_logged_in :: bool
  rd_crypto :: crypto_ctx
  rd_device :: string

text \<open>What the configuration reader sets in a cleared record for a section \<open>[name]\<close>.\<close>

definition new_reader :: "string \<Rightarrow> reader" where
  "new_reader name = \<lparr>rd_id = 0, rd_name = c_strncpy 64 name, rd_type = READER_LOCAL, rd_state = STATE_OK,
     rd_caid = 0, rd_provid = 0, rd_hop = 1, rd_priority = 0, rd_enabled = True, rd_ecm_requests = 0,
     rd_ecm_success = 0, rd_ecm_fail = 0, rd_last_used = 0, rd_last_error = 0, rd_consecutive_failures = 0,
     rd_retry_after = 0, rd_remote_host = [], rd_remote_port = 0, rd_remote_user = [], rd_remote_pass = [],
     rd_remote_fd = -1, rd_remote_logged_in = False, rd_crypto = cccam_protocol_reset_crypto, rd_device = []\<rparr>"

text \<open>
  What a reader asks: the card in a device, and the key emulator. \<open>emu_cw\<close> is \<open>None\<close> where the emulator loops for ever or is
  undefined, \<open>Some None\<close> for an error code and otherwise the word; \<open>emu_keys\<close> are its keys and its file, which an EMM changes.
  \<open>Emu_Dispatch.emulator_engines\<close> is the emulator of the source.
\<close>

record engines =
  smartcard_ecm :: "string option \<Rightarrow> u16 \<Rightarrow> u16 \<Rightarrow> u8 list \<Rightarrow> u8 list option"
  emu_cw :: "time_t \<Rightarrow> u16 \<Rightarrow> u16 \<Rightarrow> u16 \<Rightarrow> u8 list \<Rightarrow> u8 list option option"
  emu_keys :: "emu \<times> file_system"

record remote_io =
  io_connect :: "int option"
  io_rx :: "u8 list"
  io_sends :: "bool list"
  io_tx :: "u8 list"

subsection \<open>Selection and backoff\<close>

definition reader_supports_caid :: "time_t \<Rightarrow> reader \<Rightarrow> u16 \<Rightarrow> bool" where
  "reader_supports_caid now r caid =
     (if \<not> rd_enabled r then False
      else if rd_state r = STATE_DISABLED then False
      else if rd_state r = STATE_ERROR \<and> rd_retry_after r > 0 \<and> now < rd_retry_after r then False
      else if rd_caid r = 0 then True
      else rd_caid r = caid)"

definition reader_supports_provid :: "reader \<Rightarrow> u16 \<Rightarrow> bool" where
  "reader_supports_provid r provid = (if rd_provid r = 0 then True else rd_provid r = provid)"

definition reader_score :: "reader \<Rightarrow> int" where
  "reader_score r =
     uint (rd_priority r) * 10 + uint (rd_hop r) * 5
     + (case rd_type r of READER_LOCAL \<Rightarrow> -20 | READER_EMU \<Rightarrow> -10 | READER_REMOTE \<Rightarrow> 10)
     + (if rd_state r = STATE_TIMEOUT then 50 else 0) + (if rd_state r = STATE_ERROR then 100 else 0)"

definition reader_mark_failure :: "time_t \<Rightarrow> reader \<Rightarrow> reader" where
  "reader_mark_failure now r =
     (let r1 = r\<lparr>rd_consecutive_failures := rd_consecutive_failures r + 1, rd_last_error := now\<rparr> in
      if rd_consecutive_failures r1 \<ge> 3 then r1\<lparr>rd_state := STATE_ERROR, rd_retry_after := now + 30\<rparr> else r1)"

definition reader_mark_success :: "reader \<Rightarrow> reader" where
  "reader_mark_success r = r\<lparr>rd_consecutive_failures := 0, rd_retry_after := 0, rd_state := STATE_OK\<rparr>"

subsection \<open>The remote session\<close>

text \<open>On a short read the bytes that came are consumed and the result is \<open>None\<close>.\<close>

definition remote_recv_exact :: "nat \<Rightarrow> remote_io \<Rightarrow> u8 list option \<times> remote_io" where
  "remote_recv_exact len io =
     (if len \<le> length (io_rx io) then (Some (take len (io_rx io)), io\<lparr>io_rx := drop len (io_rx io)\<rparr>)
      else (None, io\<lparr>io_rx := []\<rparr>))"

definition remote_send :: "u8 list \<Rightarrow> remote_io \<Rightarrow> bool \<times> remote_io" where
  "remote_send bs io = (case io_sends io of
      [] \<Rightarrow> (False, io)
    | ok # rest \<Rightarrow> (ok, io\<lparr>io_sends := rest, io_tx := (if ok then io_tx io @ bs else io_tx io)\<rparr>))"

definition remote_read_message ::
  "ossl \<Rightarrow> nat \<Rightarrow> crypto_ctx option \<Rightarrow> remote_io \<Rightarrow> (msg_header \<times> u8 list option \<times> crypto_ctx option) option \<times> remote_io" where
  "remote_read_message lib buf_size cx io =
     (case remote_recv_exact HEADER_SIZE io of
        (None, io1) \<Rightarrow> (None, io1)
      | (Some hdr, io1) \<Rightarrow>
          let total = unat (read_be32 hdr 4) in
          if total < HEADER_SIZE \<or> total > buf_size then (None, io1)
          else (case remote_recv_exact (total - HEADER_SIZE) io1 of
              (None, io2) \<Rightarrow> (None, io2)
            | (Some rest, io2) \<Rightarrow> (cccam_protocol_parse lib True (hdr @ rest) cx, io2)))"

definition remote_connect :: "reader \<Rightarrow> remote_io \<Rightarrow> int \<times> reader" where
  "remote_connect r io =
     (if rd_type r \<noteq> READER_REMOTE then (-1, r)
      else
        let r1 = r\<lparr>rd_remote_fd := -1, rd_crypto := cccam_protocol_reset_crypto, rd_remote_logged_in := False\<rparr> in
        (case io_connect io of None \<Rightarrow> (-1, r1) | Some fd \<Rightarrow> (0, r1\<lparr>rd_remote_fd := fd\<rparr>)))"

definition remote_wire_mode :: "u8 \<Rightarrow> u8" where
  "remote_wire_mode mode =
     (if mode = HS_RSA_AES \<or> mode = HS_AES_GCM \<or> mode = HS_LEGACY then MODE_AES_GCM
      else if mode = HS_AES then MODE_AES
      else if mode = HS_RC4 then MODE_RC4
      else MODE_NONE)"

text \<open>A GCM key of another length than 16, 24 or 32 is replaced by its SHA-256.\<close>

definition gcm_session_key :: "ossl \<Rightarrow> u8 \<Rightarrow> u8 list \<Rightarrow> u8 list" where
  "gcm_session_key lib wire_mode key =
     (if wire_mode = MODE_AES_GCM \<and> length key \<noteq> 16 \<and> length key \<noteq> 24 \<and> length key \<noteq> 32
      then ossl_sha256 lib key else key)"

text \<open>\<open>seed\<close> is what \<open>cccam_generate_seed\<close> delivered; \<open>allowed\<close> the global mask of allowed modes.\<close>

definition remote_ensure_login ::
  "ossl \<Rightarrow> u32 \<Rightarrow> u8 list \<Rightarrow> reader \<Rightarrow> handshake \<Rightarrow> remote_io \<Rightarrow> int \<times> reader \<times> handshake \<times> remote_io" where
  "remote_ensure_login lib allowed seed r hs io =
     (if rd_remote_logged_in r then (0, r, hs, io)
      else
        let login = \<lparr>lm_handshake = seed, lm_username = c_strncpy 64 (rd_remote_user r),
                     lm_password = c_strncpy 64 (rd_remote_pass r), lm_version = 301\<rparr> in
        (case cccam_protocol_build_login BUFFER_SIZE (rd_remote_user r) (rd_remote_pass r) 301 seed of
           None \<Rightarrow> (-1, r, hs, io)
         | Some msg \<Rightarrow>
             (case remote_send msg io of (sent, io1) \<Rightarrow>
               if \<not> sent then (-1, r, hs, io1)
               else (case remote_read_message lib BUFFER_SIZE None io1 of
                   (None, io2) \<Rightarrow> (-1, r, hs, io2)
                 | (Some (h, payload, _), io2) \<Rightarrow>
                     if mh_msg_id h \<noteq> MSG_LOGIN_ACK then (-1, r, hs, io2)
                     else (case cccam_protocol_handle_login_response lib login
                               (case payload of None \<Rightarrow> [] | Some p \<Rightarrow> p) hs of (rc, hs1) \<Rightarrow>
                       if rc \<noteq> 0 then (-1, r, hs1, io2)
                       else
                         let wire_mode = remote_wire_mode (cccam_handshake_get_mode hs1) in
                         (case cccam_handshake_get_session_key 32 hs1 of
                            None \<Rightarrow> (0, r\<lparr>rd_remote_logged_in := True\<rparr>, hs1, io2)
                          | Some key \<Rightarrow>
                              (case cccam_protocol_set_crypto allowed wire_mode (Some (gcm_session_key lib wire_mode key)) (rd_crypto r) of (rc2, cx) \<Rightarrow>
                                if rc2 \<noteq> 0 then (-1, r, hs1, io2)
                                else (0, r\<lparr>rd_crypto := cx, rd_remote_logged_in := True\<rparr>, hs1, io2))))))))"

text \<open>\<open>Some (cw, hop)\<close> is return code 0; \<open>junk\<close> is the content of the caller's message buffer.\<close>

definition remote_get_cw ::
  "ossl \<Rightarrow> u32 \<Rightarrow> u8 list \<Rightarrow> u8 list \<Rightarrow> u16 \<Rightarrow> u16 \<Rightarrow> u16 \<Rightarrow> u8 list \<Rightarrow> reader \<Rightarrow> handshake \<Rightarrow> remote_io \<Rightarrow>
   (u8 list \<times> u8) option \<times> reader \<times> handshake \<times> remote_io" where
  "remote_get_cw lib allowed seed junk caid provid sid ecm r hs io =
     (if rd_type r \<noteq> READER_REMOTE then (None, r, hs, io)
      else (case remote_ensure_login lib allowed seed r hs io of (rc, r1, hs1, io1) \<Rightarrow>
        if rc \<noteq> 0 then (None, r1, hs1, io1)
        else (case cccam_protocol_build_ecm lib BUFFER_SIZE junk caid provid sid ecm (Some (rd_crypto r1)) of
            None \<Rightarrow> (None, r1, hs1, io1)
          | Some (msg, cx) \<Rightarrow>
              let r2 = (case cx of None \<Rightarrow> r1 | Some c \<Rightarrow> r1\<lparr>rd_crypto := c\<rparr>) in
              (case remote_send msg io1 of (sent, io2) \<Rightarrow>
                if \<not> sent then (None, r2, hs1, io2)
                else (case remote_read_message lib BUFFER_SIZE (Some (rd_crypto r2)) io2 of
                    (None, io3) \<Rightarrow> (None, r2, hs1, io3)
                  | (Some (h, payload, cx'), io3) \<Rightarrow>
                      let r3 = (case cx' of None \<Rightarrow> r2 | Some c \<Rightarrow> r2\<lparr>rd_crypto := c\<rparr>);
                          p = (case payload of None \<Rightarrow> [] | Some p \<Rightarrow> p) in
                      if mh_msg_id h \<noteq> MSG_CW \<or> length p < 4 + 16 + 1 then (None, r3, hs1, io3)
                      else (Some (take 16 (drop 4 p), p ! 20), r3, hs1, io3))))))"

definition local_get_cw :: "engines \<Rightarrow> u16 \<Rightarrow> u16 \<Rightarrow> u16 \<Rightarrow> u8 list \<Rightarrow> reader \<Rightarrow> (u8 list \<times> u8) option" where
  "local_get_cw eng caid provid sid ecm r =
     (if rd_type r \<noteq> READER_LOCAL then None
      else
        let device = (if rd_device r = [] then None else Some (rd_device r)) in
        map_option (\<lambda>cw. (cw, rd_hop r)) (smartcard_ecm eng device caid provid ecm))"

definition emu_get_cw :: "engines \<Rightarrow> time_t \<Rightarrow> u16 \<Rightarrow> u16 \<Rightarrow> u16 \<Rightarrow> u8 list \<Rightarrow> reader \<Rightarrow> (u8 list \<times> u8) option option" where
  "emu_get_cw eng now caid provid sid ecm r =
     (if rd_type r \<noteq> READER_EMU then Some None
      else map_option (map_option (\<lambda>cw. (cw, rd_hop r))) (emu_cw eng now caid provid sid ecm))"

subsection \<open>Facts\<close>

lemma reader_score_bounds: "-20 \<le> reader_score r \<and> reader_score r < 9999"
proof -
  have "0 \<le> uint (x :: u8)" "uint (x :: u8) < 256" for x
    using uint_bounded [of x] by simp_all
  from this [of "rd_priority r"] this [of "rd_hop r"] show ?thesis
    by (auto simp: reader_score_def split: reader_type.split)
qed

text \<open>A logged-in remote session is always in AES-GCM mode.\<close>

definition session_gcm :: "reader \<Rightarrow> bool" where
  "session_gcm r \<longleftrightarrow> (rd_remote_logged_in r \<longrightarrow> cx_mode (rd_crypto r) = MODE_AES_GCM)"

lemma login_response_key:
  assumes "digest_lengths lib" and "cccam_protocol_handle_login_response lib login p hs = (0, hs1)"
  shows "hs_mode hs1 \<in> {HS_RSA_AES, HS_LEGACY} \<and> cccam_handshake_get_session_key 32 hs1 \<noteq> None"
proof -
  have k: "length (derive_session_key lib a b 32) = 32" "length (legacy_key lib login q) = 20" for a b q
    using assms(1) by (simp_all add: derive_session_key_def cccam_crypto_derive_key_def digest_lengths_def legacy_key_def)
  then have ne: "derive_session_key lib a b 32 \<noteq> []" "legacy_key lib login q \<noteq> []" for a b q
    by (metis list.size(3) zero_neq_numeral)+
  have mode: "hs_mode (store_key x hs) = m \<Longrightarrow> True" for x m by simp
  show ?thesis
    using assms(2) k ne
    by (auto simp: cccam_protocol_handle_login_response_def cccam_handshake_rsa_client_def cccam_handshake_legacy_client_def
        Let_def split: if_splits option.splits)
qed

lemma set_crypto_gcm: "cccam_protocol_set_crypto al MODE_AES_GCM k cx = (0, cx') \<Longrightarrow> cx_mode cx' = MODE_AES_GCM"
  by (auto simp: cccam_protocol_set_crypto_def Let_def split: if_splits option.splits)

lemma ensure_login_gcm:
  assumes "digest_lengths lib" and "session_gcm r" and "remote_ensure_login lib al seed r hs io = (0, r1, hs1, io1)"
  shows "rd_remote_logged_in r1 \<and> cx_mode (rd_crypto r1) = MODE_AES_GCM"
proof (cases "rd_remote_logged_in r")
  case True
  with assms(2,3) show ?thesis by (simp add: remote_ensure_login_def session_gcm_def)
next
  case False
  let ?login = "\<lparr>lm_handshake = seed, lm_username = c_strncpy 64 (rd_remote_user r),
                     lm_password = c_strncpy 64 (rd_remote_pass r), lm_version = 301\<rparr>"
  from assms(3) False obtain p hs2 where resp: "cccam_protocol_handle_login_response lib ?login p hs = (0, hs2)"
    and rest: "(case cccam_handshake_get_session_key 32 hs2 of
        None \<Rightarrow> (0 :: int, r\<lparr>rd_remote_logged_in := True\<rparr>, hs2, io1)
      | Some key \<Rightarrow>
          (case cccam_protocol_set_crypto al (remote_wire_mode (cccam_handshake_get_mode hs2))
              (Some (gcm_session_key lib (remote_wire_mode (cccam_handshake_get_mode hs2)) key)) (rd_crypto r) of (rc2, cx) \<Rightarrow>
            if rc2 \<noteq> 0 then (-1, r, hs2, io1)
            else (0, r\<lparr>rd_crypto := cx, rd_remote_logged_in := True\<rparr>, hs2, io1))) = (0, r1, hs1, io1)"
    by (auto simp: remote_ensure_login_def Let_def split: option.splits prod.splits if_splits)
  from login_response_key [OF assms(1) resp]
  have "remote_wire_mode (cccam_handshake_get_mode hs2) = MODE_AES_GCM" "cccam_handshake_get_session_key 32 hs2 \<noteq> None"
    by (auto simp: remote_wire_mode_def cccam_handshake_get_mode_def)
  with rest show ?thesis
    by (auto split: option.splits prod.splits if_splits dest: set_crypto_gcm)
qed

lemma read_message_tx: "remote_read_message lib n cx i = (x, i') \<Longrightarrow> io_tx i' = io_tx i"
  by (auto simp: remote_read_message_def remote_recv_exact_def Let_def split: if_splits option.splits prod.splits)

lemma send_tx: "remote_send m i = (ok, i') \<Longrightarrow> io_tx i' = (if ok then io_tx i @ m else io_tx i)"
  by (auto simp: remote_send_def split: list.splits)

lemma ensure_login_tx:
  assumes "remote_ensure_login lib al seed r hs io = (rc, r1, hs1, io1)"
  shows "io_tx io1 \<in> {io_tx io, io_tx io @
    (case cccam_protocol_build_login BUFFER_SIZE (rd_remote_user r) (rd_remote_pass r) 301 seed of None \<Rightarrow> [] | Some m \<Rightarrow> m)}"
proof (cases "rd_remote_logged_in r \<or> cccam_protocol_build_login BUFFER_SIZE (rd_remote_user r) (rd_remote_pass r) 301 seed = None")
  case True
  with assms show ?thesis by (auto simp: remote_ensure_login_def Let_def split: if_splits)
next
  case False
  then obtain m where m: "cccam_protocol_build_login BUFFER_SIZE (rd_remote_user r) (rd_remote_pass r) 301 seed = Some m" by auto
  obtain ok i1 where s: "remote_send m io = (ok, i1)" by fastforce
  obtain x i2 where rd: "remote_read_message lib BUFFER_SIZE None i1 = (x, i2)" by fastforce
  have "io1 = (if ok then i2 else i1)"
    using assms False
    by (auto simp: remote_ensure_login_def m s rd Let_def split: option.splits prod.splits if_splits)
  with send_tx [OF s] read_message_tx [OF rd] show ?thesis by (simp add: m)
qed

lemma remote_get_cw_none:
  assumes "digest_lengths lib" and "session_gcm r"
    and g: "remote_get_cw lib al seed junk caid provid sid ecm r hs io = (res, r', hs', io')"
  shows "res = None \<and> session_gcm r' \<and> ((\<exists>rc. remote_ensure_login lib al seed r hs io = (rc, r', hs', io')) \<or> (r', hs', io') = (r, hs, io))"
proof (cases "rd_type r = READER_REMOTE")
  case False
  with g assms(2) show ?thesis by (simp add: remote_get_cw_def)
next
  case remote: True
  obtain rc r1 hs1 io1 where l: "remote_ensure_login lib al seed r hs io = (rc, r1, hs1, io1)"
    by (metis prod_cases4)
  show ?thesis
  proof (cases "rc = 0")
    case True
    with ensure_login_gcm [OF assms(1,2)] l have "rd_remote_logged_in r1" "cx_mode (rd_crypto r1) = MODE_AES_GCM" by blast+
    then have "cccam_protocol_build_ecm lib BUFFER_SIZE junk caid provid sid ecm (Some (rd_crypto r1)) = None" "session_gcm r1"
      by (simp_all add: cccam_protocol_build_ecm_def seal_gcm_fails session_gcm_def)
    with g l True remote show ?thesis by (auto simp: remote_get_cw_def)
  next
    case False
    then have "r1 = r"
      using l by (auto simp: remote_ensure_login_def Let_def split: option.splits prod.splits if_splits)
    with assms(2) g l False remote show ?thesis by (auto simp: remote_get_cw_def)
  qed
qed

subsection \<open>Properties\<close>

text \<open>
  C33: no remote reader can ever deliver a control word. Whatever the remote server sends, the
  handshake leaves the session in AES-GCM mode, in which the ECM request cannot be built: the request
  fails after the login, and nothing but the login is ever sent.
\<close>

theorem remote_get_cw_fails:
  assumes "digest_lengths lib" and "session_gcm r"
    and "remote_get_cw lib al seed junk caid provid sid ecm r hs io = (res, r', hs', io')"
  shows "res = None \<and> session_gcm r' \<and> io_tx io' \<in> {io_tx io, io_tx io @ 
    (case cccam_protocol_build_login BUFFER_SIZE (rd_remote_user r) (rd_remote_pass r) 301 seed of None \<Rightarrow> [] | Some m \<Rightarrow> m)}"
  using remote_get_cw_none [OF assms] by (auto dest: ensure_login_tx)

theorem remote_get_cw_fails_witness:
  "\<exists>r' hs' io'. remote_get_cw toy_ossl 0 (replicate 16 3) [] 0x0500 0 7 [1, 2, 3]
     ((new_reader ''r'')\<lparr>rd_type := READER_REMOTE, rd_remote_user := ''u'', rd_remote_pass := ''p''\<rparr>) handshake_initial
     \<lparr>io_connect = Some 5, io_rx = [1, 2, 3], io_sends = [True], io_tx = []\<rparr> = (None, r', hs', io')"
proof -
  let ?r = "(new_reader ''r'')\<lparr>rd_type := READER_REMOTE, rd_remote_user := ''u'', rd_remote_pass := ''p''\<rparr>"
  let ?io = "\<lparr>io_connect = Some 5, io_rx = [1, 2, 3], io_sends = [True], io_tx = []\<rparr>"
  obtain res r' hs' io' where
    g: "remote_get_cw toy_ossl 0 (replicate 16 3) [] 0x0500 0 7 [1, 2, 3] ?r handshake_initial ?io = (res, r', hs', io')"
    by (metis prod_cases4)
  have "session_gcm ?r" by (simp add: session_gcm_def new_reader_def)
  from remote_get_cw_fails [OF toy_ossl_ok(3) this g] g show ?thesis by simp
qed

end
