(* ===== verification/Card_Manager.thy ===== *)
theory Card_Manager
  imports Reader
begin

text \<open>
  The list of readers of \<open>src/CCshare/cccam3_card_manager.c\<close> (a singly linked list, head first): choice of
  the best reader, the control-word request with its statistics and backoff, the distribution of EMMs
  with duplicate suppression, and the readers file. A reader pointer is an index into the list. The
  connections are a map from reader ids, like the seeds that \<open>cccam_generate_seed\<close> delivers.
\<close>

subsection \<open>State\<close>

record card_manager =
  cm_readers :: "reader list"
  cm_count :: int
  cm_next_id :: u32
  cm_initialized :: bool
  cm_readers_file :: string
  cm_emm_hash :: "u64 list"
  cm_emm_time :: "time_t list"
  cm_emm_slot :: nat

definition EMM_DEDUP_SLOTS :: nat where "EMM_DEDUP_SLOTS = 64"

definition card_manager_initial :: card_manager where
  "card_manager_initial = \<lparr>cm_readers = [], cm_count = 0, cm_next_id = 1, cm_initialized = False,
     cm_readers_file = ''conf/cccam3.readers'', cm_emm_hash = replicate 64 0, cm_emm_time = replicate 64 0, cm_emm_slot = 0\<rparr>"

text \<open>Everything outside the process that a request can touch: connections, random seeds, message buffers.\<close>

record remote_env =
  re_io :: "u32 \<Rightarrow> remote_io"
  re_seed :: "u32 \<Rightarrow> u8 list"
  re_junk :: "u8 list"

definition cccam_card_manager_set_config_file :: "string option \<Rightarrow> card_manager \<Rightarrow> card_manager" where
  "cccam_card_manager_set_config_file path st =
     (case path of None \<Rightarrow> st | Some p \<Rightarrow> if p = [] then st else st\<lparr>cm_readers_file := c_strncpy 256 p\<rparr>)"

subsection \<open>Duplicate EMMs\<close>

definition emm_hash :: "u8 list \<Rightarrow> u64" where
  "emm_hash data = foldl (\<lambda>h b. (h XOR ucast b) * 0x100000001b3) 0xcbf29ce484222325 data"

fun emm_seen_scan :: "time_t \<Rightarrow> u64 \<Rightarrow> (u64 \<times> time_t) list \<Rightarrow> bool" where
  "emm_seen_scan now hash [] = False"
| "emm_seen_scan now hash ((h, t) # xs) = (if h = hash \<and> now - t < 60 then True else emm_seen_scan now hash xs)"

definition emm_seen_recently :: "time_t \<Rightarrow> u64 \<Rightarrow> card_manager \<Rightarrow> bool" where
  "emm_seen_recently now hash st = emm_seen_scan now hash (zip (cm_emm_hash st) (cm_emm_time st))"

definition emm_remember :: "time_t \<Rightarrow> u64 \<Rightarrow> card_manager \<Rightarrow> card_manager" where
  "emm_remember now hash st = st\<lparr>cm_emm_hash := (cm_emm_hash st)[cm_emm_slot st := hash],
     cm_emm_time := (cm_emm_time st)[cm_emm_slot st := now], cm_emm_slot := (cm_emm_slot st + 1) mod EMM_DEDUP_SLOTS\<rparr>"

subsection \<open>The list of readers\<close>

definition cccam_card_manager_add_reader :: "reader \<Rightarrow> card_manager \<Rightarrow> card_manager" where
  "cccam_card_manager_add_reader r st =
     st\<lparr>cm_readers := r\<lparr>rd_id := cm_next_id st, rd_remote_fd := -1, rd_crypto := cccam_protocol_reset_crypto\<rparr> # cm_readers st,
        cm_next_id := cm_next_id st + 1, cm_count := cm_count st + 1\<rparr>"

definition cccam_card_manager_remove_reader :: "u32 \<Rightarrow> card_manager \<Rightarrow> int \<times> card_manager" where
  "cccam_card_manager_remove_reader reader_id st =
     (if find_idx (\<lambda>r. rd_id r = reader_id) (cm_readers st) = None then (-1, st)
      else (0, st\<lparr>cm_readers := remove_first (\<lambda>r. rd_id r = reader_id) (cm_readers st), cm_count := cm_count st - 1\<rparr>))"

definition cccam_card_manager_find_reader :: "u32 \<Rightarrow> card_manager \<Rightarrow> nat option" where
  "cccam_card_manager_find_reader reader_id st = find_idx (\<lambda>r. rd_id r = reader_id) (cm_readers st)"

definition cccam_card_manager_find_reader_by_name :: "string \<Rightarrow> card_manager \<Rightarrow> nat option" where
  "cccam_card_manager_find_reader_by_name name st = find_idx (\<lambda>r. rd_name r = name) (cm_readers st)"

definition cccam_card_manager_update_state :: "u32 \<Rightarrow> reader_state \<Rightarrow> card_manager \<Rightarrow> int \<times> card_manager" where
  "cccam_card_manager_update_state reader_id state st =
     (case cccam_card_manager_find_reader reader_id st of
        None \<Rightarrow> (-1, st)
      | Some i \<Rightarrow>
          let r = (cm_readers st ! i)\<lparr>rd_state := state\<rparr>;
              r' = (if state = STATE_OK then r\<lparr>rd_consecutive_failures := 0, rd_retry_after := 0\<rparr> else r) in
          (0, st\<lparr>cm_readers := (cm_readers st)[i := r']\<rparr>))"

definition cccam_card_manager_get_stats :: "card_manager \<Rightarrow> int \<times> int \<times> int \<times> int" where
  "cccam_card_manager_get_stats st =
     (cm_count st,
      int (length (filter (\<lambda>r. rd_enabled r \<and> rd_state r = STATE_OK) (cm_readers st))),
      int (length (filter (\<lambda>r. rd_type r = READER_LOCAL) (cm_readers st))),
      int (length (filter (\<lambda>r. rd_type r = READER_REMOTE) (cm_readers st))))"

definition cccam_card_manager_get_by_index :: "int \<Rightarrow> card_manager \<Rightarrow> nat option" where
  "cccam_card_manager_get_by_index index st =
     (let i = nat index in if i < length (cm_readers st) then Some i else None)"

text \<open>The scan with \<open>best\<close> and \<open>best_score\<close>, from position \<open>i\<close>.\<close>

fun select_scan :: "time_t \<Rightarrow> u16 \<Rightarrow> u16 \<Rightarrow> nat \<Rightarrow> nat option \<times> int \<Rightarrow> reader list \<Rightarrow> nat option \<times> int" where
  "select_scan now caid provid i best [] = best"
| "select_scan now caid provid i best (r # rs) =
     select_scan now caid provid (i + 1)
       (if reader_supports_caid now r caid \<and> reader_supports_provid r provid \<and> reader_score r < snd best
        then (Some i, reader_score r) else best) rs"

definition cccam_card_manager_select_reader :: "time_t \<Rightarrow> u16 \<Rightarrow> u16 \<Rightarrow> card_manager \<Rightarrow> nat option" where
  "cccam_card_manager_select_reader now caid provid st = fst (select_scan now caid provid 0 (None, 9999) (cm_readers st))"

subsection \<open>The control-word request\<close>

text \<open>The request to one reader, under its lock: the updated reader and what it answered. \<open>None\<close>: the emulator does not return.\<close>

definition reader_request ::
  "ossl \<Rightarrow> engines \<Rightarrow> u32 \<Rightarrow> time_t \<Rightarrow> u16 \<Rightarrow> u16 \<Rightarrow> u16 \<Rightarrow> u8 list \<Rightarrow> reader \<Rightarrow> handshake \<Rightarrow> remote_env \<Rightarrow>
   ((u8 list \<times> u8) option \<times> reader \<times> handshake \<times> remote_env) option" where
  "reader_request lib eng allowed now caid provid sid ecm r0 hs env =
     (let r = r0\<lparr>rd_ecm_requests := rd_ecm_requests r0 + 1, rd_last_used := now\<rparr>;
          finish = (\<lambda>res r. case res of
              Some _ \<Rightarrow> reader_mark_success (r\<lparr>rd_ecm_success := rd_ecm_success r + 1\<rparr>)
            | None \<Rightarrow> reader_mark_failure now (r\<lparr>rd_ecm_fail := rd_ecm_fail r + 1\<rparr>)) in
      case rd_type r of
        READER_LOCAL \<Rightarrow> (let res = local_get_cw eng caid provid sid ecm r in Some (res, finish res r, hs, env))
      | READER_EMU \<Rightarrow> map_option (\<lambda>res. (res, finish res r, hs, env)) (emu_get_cw eng now caid provid sid ecm r)
      | READER_REMOTE \<Rightarrow>
          Some (let io = re_io env (rd_id r);
               (rc, r1) = (if rd_remote_fd r < 0 then remote_connect r io else (0, r)) in
           if rc \<noteq> 0
           then (let r2 = reader_mark_failure now r1 in (None, r2\<lparr>rd_ecm_fail := rd_ecm_fail r2 + 1\<rparr>, hs, env))
           else
             (case remote_get_cw lib allowed (re_seed env (rd_id r)) (re_junk env) caid provid sid ecm r1 hs io of
                (res, r2, hs1, io1) \<Rightarrow>
                  let r3 = (if res = None then r2\<lparr>rd_remote_fd := -1, rd_remote_logged_in := False\<rparr> else r2) in
                  (res, finish res r3, hs1, env\<lparr>re_io := (re_io env)(rd_id r := io1)\<rparr>))))"

text \<open>Inside a run that returns, \<open>Some (cw, hop, reader_id)\<close> is return code 0, \<open>None\<close> is -1.\<close>

definition cccam_card_manager_get_cw ::
  "ossl \<Rightarrow> engines \<Rightarrow> u32 \<Rightarrow> time_t \<Rightarrow> u16 \<Rightarrow> u16 \<Rightarrow> u16 \<Rightarrow> u8 list \<Rightarrow> card_manager \<Rightarrow> handshake \<Rightarrow> remote_env \<Rightarrow>
   ((u8 list \<times> u8 \<times> u32) option \<times> card_manager \<times> handshake \<times> remote_env) option" where
  "cccam_card_manager_get_cw lib eng allowed now caid provid sid ecm st hs env =
     (case cccam_card_manager_select_reader now caid provid st of
        None \<Rightarrow> Some (None, st, hs, env)
      | Some i \<Rightarrow>
          map_option (\<lambda>(res, r, hs1, env1).
              (map_option (\<lambda>(cw, hop). (cw, hop, rd_id r)) res, st\<lparr>cm_readers := (cm_readers st)[i := r]\<rparr>, hs1, env1))
            (reader_request lib eng allowed now caid provid sid ecm (cm_readers st ! i) hs env))"

subsection \<open>Sending an EMM to the remote readers\<close>

text \<open>One reader: the updated reader and whether the message went out.\<close>

definition reader_send_emm ::
  "ossl \<Rightarrow> u32 \<Rightarrow> time_t \<Rightarrow> u16 \<Rightarrow> u16 \<Rightarrow> u8 list \<Rightarrow> reader \<Rightarrow> handshake \<Rightarrow> remote_env \<Rightarrow>
   bool \<times> reader \<times> handshake \<times> remote_env" where
  "reader_send_emm lib allowed now caid provid emm r hs env =
     (if rd_type r \<noteq> READER_REMOTE \<or> \<not> rd_enabled r then (False, r, hs, env)
      else if rd_caid r \<noteq> 0 \<and> rd_caid r \<noteq> caid then (False, r, hs, env)
      else
        (let io = re_io env (rd_id r);
             (rc, r1) = (if rd_remote_fd r < 0 then remote_connect r io else (0, r)) in
         if rc \<noteq> 0 then (False, reader_mark_failure now r1, hs, env)
         else
           (case remote_ensure_login lib allowed (re_seed env (rd_id r)) r1 hs io of (rc2, r2, hs1, io1) \<Rightarrow>
             let env1 = env\<lparr>re_io := (re_io env)(rd_id r := io1)\<rparr> in
             if rc2 \<noteq> 0
             then (False, reader_mark_failure now (r2\<lparr>rd_remote_fd := -1, rd_remote_logged_in := False\<rparr>), hs1, env1)
             else (case cccam_protocol_build_emm lib BUFFER_SIZE (re_junk env) caid provid emm (Some (rd_crypto r2)) of
                 None \<Rightarrow> (False, r2, hs1, env1)
               | Some (msg, cx) \<Rightarrow>
                   (case remote_send msg io1 of (sent, io2) \<Rightarrow>
                      (sent, (case cx of None \<Rightarrow> r2 | Some c \<Rightarrow> r2\<lparr>rd_crypto := c\<rparr>), hs1,
                       env1\<lparr>re_io := (re_io env1)(rd_id r := io2)\<rparr>))))))"

fun send_emm_loop ::
  "ossl \<Rightarrow> u32 \<Rightarrow> time_t \<Rightarrow> u16 \<Rightarrow> u16 \<Rightarrow> u8 list \<Rightarrow> reader list \<Rightarrow> handshake \<Rightarrow> remote_env \<Rightarrow>
   int \<times> reader list \<times> handshake \<times> remote_env" where
  "send_emm_loop lib allowed now caid provid emm [] hs env = (0, [], hs, env)"
| "send_emm_loop lib allowed now caid provid emm (r # rs) hs env =
     (case reader_send_emm lib allowed now caid provid emm r hs env of (sent, r', hs1, env1) \<Rightarrow>
       (case send_emm_loop lib allowed now caid provid emm rs hs1 env1 of (n, rs', hs2, env2) \<Rightarrow>
         ((if sent then n + 1 else n), r' # rs', hs2, env2)))"

definition cccam_card_manager_send_emm ::
  "ossl \<Rightarrow> u32 \<Rightarrow> time_t \<Rightarrow> u16 \<Rightarrow> u16 \<Rightarrow> u8 list \<Rightarrow> card_manager \<Rightarrow> handshake \<Rightarrow> remote_env \<Rightarrow>
   int \<times> card_manager \<times> handshake \<times> remote_env" where
  "cccam_card_manager_send_emm lib allowed now caid provid emm st hs env =
     (if length emm = 0 then (-1, st, hs, env)
      else
        let hash = emm_hash emm in
        if emm_seen_recently now hash st then (0, st, hs, env)
        else
          let st1 = emm_remember now hash st in
          (case send_emm_loop lib allowed now caid provid emm (cm_readers st1) hs env of (n, rs, hs1, env1) \<Rightarrow>
            (n, st1\<lparr>cm_readers := rs\<rparr>, hs1, env1)))"

subsection \<open>The readers file\<close>

definition is_blank :: "char \<Rightarrow> bool" where
  "is_blank c \<longleftrightarrow> c = CHR '' '' \<or> c = CHR 0x09"

definition skip_blank :: "string \<Rightarrow> string" where
  "skip_blank s = dropWhile is_blank s"

fun trim_blank_end :: "string \<Rightarrow> string" where
  "trim_blank_end [] = []"
| "trim_blank_end (c # s) = c # rev (dropWhile is_blank (rev s))"

definition reader_set :: "string \<Rightarrow> string \<Rightarrow> reader \<Rightarrow> reader" where
  "reader_set key value r =
     (if key = ''type'' then
        (if value = ''local'' then r\<lparr>rd_type := READER_LOCAL\<rparr>
         else if value = ''remote'' then r\<lparr>rd_type := READER_REMOTE\<rparr>
         else if value = ''emu'' then r\<lparr>rd_type := READER_EMU\<rparr> else r)
      else if key = ''caid'' then r\<lparr>rd_caid := word_of_int (c_strtol16 value)\<rparr>
      else if key = ''provid'' then r\<lparr>rd_provid := word_of_int (c_strtol16 value)\<rparr>
      else if key = ''hop'' then r\<lparr>rd_hop := word_of_int (c_atoi value)\<rparr>
      else if key = ''priority'' then r\<lparr>rd_priority := word_of_int (c_atoi value)\<rparr>
      else if key = ''enabled'' then r\<lparr>rd_enabled := (value = ''1'' \<or> value = ''yes'' \<or> value = ''true'')\<rparr>
      else if key = ''remote_host'' then r\<lparr>rd_remote_host := c_strncpy 256 value\<rparr>
      else if key = ''remote_port'' then r\<lparr>rd_remote_port := c_atoi value\<rparr>
      else if key = ''remote_user'' then r\<lparr>rd_remote_user := c_strncpy 64 value\<rparr>
      else if key = ''remote_pass'' then r\<lparr>rd_remote_pass := c_strncpy 64 value\<rparr>
      else if key = ''device'' then r\<lparr>rd_device := c_strncpy 128 value\<rparr>
      else r)"

text \<open>The state of the loop: the reader of the open section and the list; \<open>mem\<close> is \<open>calloc\<close> by name.\<close>

definition readers_line :: "(string \<Rightarrow> bool) \<Rightarrow> string \<Rightarrow> reader option \<times> card_manager \<Rightarrow> reader option \<times> card_manager" where
  "readers_line mem line = (\<lambda>(rd, st).
     let p0 = skip_blank (c_line line) in
     if p0 = [] \<or> hd p0 = CHR ''#'' \<or> hd p0 = CHR '';'' then (rd, st)
     else
       let p = cut_at NL p0 in
       if p \<noteq> [] \<and> hd p = CHR ''['' then
         (let st1 = (case rd of None \<Rightarrow> st | Some r \<Rightarrow> cccam_card_manager_add_reader r st) in
          case after_char (CHR '']'') p of
            None \<Rightarrow> (None, st1)
          | Some _ \<Rightarrow>
              let name = tl (cut_at (CHR '']'') p) in
              (if mem name then Some (new_reader name) else None, st1))
       else (case rd of
           None \<Rightarrow> (rd, st)
         | Some r \<Rightarrow>
             (case after_char (CHR ''='') p of
                None \<Rightarrow> (rd, st)
              | Some v \<Rightarrow>
                  let key = trim_blank_end (skip_blank (cut_at (CHR ''='') p)); value = trim_blank_end (skip_blank v) in
                  (Some (reader_set key value r), st))))"

definition cccam_card_manager_load_from_config ::
  "(string \<Rightarrow> bool) \<Rightarrow> (string \<Rightarrow> string option) \<Rightarrow> string \<Rightarrow> card_manager \<Rightarrow> int \<times> card_manager" where
  "cccam_card_manager_load_from_config mem fs config_file st =
     (case fs config_file of
        None \<Rightarrow> (-1, st)
      | Some content \<Rightarrow>
          (case fold (readers_line mem) (fgets_lines 254 content) (None, st) of (rd, st1) \<Rightarrow>
            (0, (case rd of None \<Rightarrow> st1 | Some r \<Rightarrow> cccam_card_manager_add_reader r st1))))"

definition cccam_card_manager_init :: "(string \<Rightarrow> bool) \<Rightarrow> (string \<Rightarrow> string option) \<Rightarrow> card_manager \<Rightarrow> card_manager" where
  "cccam_card_manager_init mem fs st =
     (if cm_initialized st then st
      else snd (cccam_card_manager_load_from_config mem fs (cm_readers_file st)
        (st\<lparr>cm_readers := [], cm_count := 0, cm_next_id := 1, cm_initialized := True\<rparr>)))"

definition cccam_card_manager_cleanup :: "card_manager \<Rightarrow> card_manager" where
  "cccam_card_manager_cleanup st = st\<lparr>cm_readers := [], cm_count := 0, cm_initialized := False\<rparr>"

definition cccam_card_manager_reload ::
  "(string \<Rightarrow> bool) \<Rightarrow> (string \<Rightarrow> string option) \<Rightarrow> card_manager \<Rightarrow> int \<times> card_manager" where
  "cccam_card_manager_reload mem fs st =
     cccam_card_manager_load_from_config mem fs (cm_readers_file st)
       (st\<lparr>cm_readers := [], cm_count := 0, cm_next_id := 1\<rparr>)"

subsection \<open>What the remote session leaves alone\<close>

text \<open>Connecting, logging in and exchanging messages change only the connection fields.\<close>

definition reader_core :: "reader \<Rightarrow> reader" where
  "reader_core r = r\<lparr>rd_remote_fd := 0, rd_remote_logged_in := False, rd_crypto := cccam_protocol_reset_crypto\<rparr>"

lemma core_connect: "reader_core (snd (remote_connect r io)) = reader_core r"
  by (auto simp: remote_connect_def reader_core_def Let_def split: option.splits)

lemma core_login:
  assumes "remote_ensure_login lib al seed r hs io = (rc, r1, hs1, io1)"
  shows "reader_core r1 = reader_core r"
  using assms
  by (auto simp: remote_ensure_login_def reader_core_def Let_def split: option.splits prod.splits if_splits)

lemma core_get_cw:
  assumes "digest_lengths lib" "session_gcm r"
    and g: "remote_get_cw lib al seed junk caid provid sid ecm r hs io = (res, r', hs', io')"
  shows "reader_core r' = reader_core r"
proof -
  obtain rc r1 hs1 io1 where l: "remote_ensure_login lib al seed r hs io = (rc, r1, hs1, io1)"
    by (metis prod_cases4)
  show ?thesis
  proof (cases "rc = 0")
    case True
    with ensure_login_gcm [OF assms(1,2)] l have "cx_mode (rd_crypto r1) = MODE_AES_GCM" by blast
    then have "cccam_protocol_build_ecm lib BUFFER_SIZE junk caid provid sid ecm (Some (rd_crypto r1)) = None"
      by (simp add: cccam_protocol_build_ecm_def seal_gcm_fails)
    with g l True core_login [OF l] show ?thesis by (auto simp: remote_get_cw_def split: if_splits)
  next
    case False
    with g l core_login [OF l] show ?thesis by (auto simp: remote_get_cw_def split: if_splits)
  qed
qed

lemma core_select:
  "rd_id (reader_core r) = rd_id r" "rd_type (reader_core r) = rd_type r" "rd_state (reader_core r) = rd_state r"
  "rd_enabled (reader_core r) = rd_enabled r" "rd_caid (reader_core r) = rd_caid r"
  "rd_ecm_requests (reader_core r) = rd_ecm_requests r" "rd_ecm_success (reader_core r) = rd_ecm_success r"
  "rd_ecm_fail (reader_core r) = rd_ecm_fail r" "rd_consecutive_failures (reader_core r) = rd_consecutive_failures r"
  "rd_retry_after (reader_core r) = rd_retry_after r"
  by (simp_all add: reader_core_def)

lemma core_fields:
  assumes "reader_core r' = reader_core r"
  shows "rd_id r' = rd_id r" "rd_type r' = rd_type r" "rd_state r' = rd_state r" "rd_enabled r' = rd_enabled r"
    "rd_caid r' = rd_caid r" "rd_ecm_requests r' = rd_ecm_requests r" "rd_ecm_success r' = rd_ecm_success r"
    "rd_ecm_fail r' = rd_ecm_fail r" "rd_consecutive_failures r' = rd_consecutive_failures r"
    "rd_retry_after r' = rd_retry_after r"
proof -
  show "rd_id r' = rd_id r" "rd_type r' = rd_type r" "rd_state r' = rd_state r" "rd_enabled r' = rd_enabled r"
    "rd_caid r' = rd_caid r" "rd_ecm_requests r' = rd_ecm_requests r" "rd_ecm_success r' = rd_ecm_success r"
    "rd_ecm_fail r' = rd_ecm_fail r" "rd_consecutive_failures r' = rd_consecutive_failures r"
    "rd_retry_after r' = rd_retry_after r"
    using assms core_select by metis+
qed

subsection \<open>Invariant\<close>

text \<open>
  Per reader: every request was counted once as a success or a failure (in 32-bit arithmetic), the
  number of consecutive failures is not negative, a logged-in session is in AES-GCM mode, and a
  remote reader has no success.
\<close>

definition reader_ok :: "reader \<Rightarrow> bool" where
  "reader_ok r \<longleftrightarrow> rd_ecm_requests r = rd_ecm_success r + rd_ecm_fail r \<and> 0 \<le> rd_consecutive_failures r \<and>
     session_gcm r \<and> (rd_type r = READER_REMOTE \<longrightarrow> rd_ecm_success r = 0)"

definition cm_inv :: "card_manager \<Rightarrow> bool" where
  "cm_inv st \<longleftrightarrow> cm_count st = int (length (cm_readers st)) \<and> (\<forall>r \<in> set (cm_readers st). reader_ok r) \<and>
     length (cm_emm_hash st) = EMM_DEDUP_SLOTS \<and> length (cm_emm_time st) = EMM_DEDUP_SLOTS \<and> cm_emm_slot st < EMM_DEDUP_SLOTS"

lemma mark_failure_fields [simp]:
  "rd_ecm_requests (reader_mark_failure now r) = rd_ecm_requests r"
  "rd_ecm_success (reader_mark_failure now r) = rd_ecm_success r"
  "rd_ecm_fail (reader_mark_failure now r) = rd_ecm_fail r"
  "rd_type (reader_mark_failure now r) = rd_type r" "rd_id (reader_mark_failure now r) = rd_id r"
  "rd_enabled (reader_mark_failure now r) = rd_enabled r" "rd_caid (reader_mark_failure now r) = rd_caid r"
  "rd_consecutive_failures (reader_mark_failure now r) = rd_consecutive_failures r + 1"
  "session_gcm (reader_mark_failure now r) = session_gcm r"
  by (simp_all add: reader_mark_failure_def Let_def session_gcm_def)

lemma mark_success_fields [simp]:
  "rd_ecm_requests (reader_mark_success r) = rd_ecm_requests r"
  "rd_ecm_success (reader_mark_success r) = rd_ecm_success r"
  "rd_ecm_fail (reader_mark_success r) = rd_ecm_fail r"
  "rd_type (reader_mark_success r) = rd_type r" "rd_id (reader_mark_success r) = rd_id r"
  "rd_consecutive_failures (reader_mark_success r) = 0" "session_gcm (reader_mark_success r) = session_gcm r"
  by (simp_all add: reader_mark_success_def session_gcm_def)

lemma session_update [simp]:
  "session_gcm (r\<lparr>rd_ecm_requests := n\<rparr>) = session_gcm r" "session_gcm (r\<lparr>rd_ecm_success := n\<rparr>) = session_gcm r"
  "session_gcm (r\<lparr>rd_ecm_fail := n\<rparr>) = session_gcm r" "session_gcm (r\<lparr>rd_last_used := t\<rparr>) = session_gcm r"
  by (simp_all add: session_gcm_def)

lemma connect_session: "session_gcm r \<Longrightarrow> session_gcm (snd (remote_connect r io))"
  by (auto simp: remote_connect_def session_gcm_def Let_def split: option.splits)

text \<open>A request to a remote reader in four steps.\<close>

lemma reader_request_remote:
  assumes lib: "digest_lengths lib" and ok: "reader_ok r" and remote: "rd_type r = READER_REMOTE"
    and req: "reader_request lib eng al now caid provid sid ecm r hs env = Some (res, r', hs', env')"
  shows "res = None \<and> session_gcm r' \<and> (\<exists>r1. reader_core r1 = reader_core (r\<lparr>rd_ecm_requests := rd_ecm_requests r + 1, rd_last_used := now\<rparr>) \<and>
    r' = reader_mark_failure now (r1\<lparr>rd_ecm_fail := rd_ecm_fail r1 + 1\<rparr>))"
proof -
  define r0 where "r0 = r\<lparr>rd_ecm_requests := rd_ecm_requests r + 1, rd_last_used := now\<rparr>"
  have s0: "session_gcm r0" "rd_type r0 = READER_REMOTE" using ok remote by (simp_all add: reader_ok_def session_gcm_def r0_def)
  obtain rc r1 where c: "(if rd_remote_fd r0 < 0 then remote_connect r0 (re_io env (rd_id r0)) else (0, r0)) = (rc, r1)" by fastforce
  with core_connect [of r0 "re_io env (rd_id r0)"] connect_session [OF s0(1), of "re_io env (rd_id r0)"] s0
  have c1: "reader_core r1 = reader_core r0" "session_gcm r1" by (auto split: if_splits)
  show ?thesis
  proof (cases "rc = 0")
    case False
    with req c s0(2) have "res = None" "r' = (reader_mark_failure now r1)\<lparr>rd_ecm_fail := rd_ecm_fail r1 + 1\<rparr>"
      by (auto simp: reader_request_def r0_def [symmetric] Let_def)
    moreover have "(reader_mark_failure now r1)\<lparr>rd_ecm_fail := rd_ecm_fail r1 + 1\<rparr> = reader_mark_failure now (r1\<lparr>rd_ecm_fail := rd_ecm_fail r1 + 1\<rparr>)"
      by (simp add: reader_mark_failure_def Let_def)
    moreover have "session_gcm (r1\<lparr>rd_ecm_fail := rd_ecm_fail r1 + 1\<rparr>)" using c1(2) by (simp add: session_gcm_def)
    ultimately show ?thesis using c1(1) by (auto simp: r0_def [symmetric])
  next
    case True
    obtain res1 r2 hs1 io1 where g: "remote_get_cw lib al (re_seed env (rd_id r0)) (re_junk env) caid provid sid ecm r1 hs (re_io env (rd_id r0))
        = (res1, r2, hs1, io1)" by (metis prod_cases4)
    from remote_get_cw_none [OF lib c1(2) g] core_get_cw [OF lib c1(2) g] c1(1)
    have g1: "res1 = None" "session_gcm r2" "reader_core r2 = reader_core r0" by auto
    with req c s0(2) True g have "res = None"
      and r': "r' = reader_mark_failure now ((r2\<lparr>rd_remote_fd := -1, rd_remote_logged_in := False\<rparr>)\<lparr>rd_ecm_fail := rd_ecm_fail r2 + 1\<rparr>)"
      by (auto simp: reader_request_def r0_def [symmetric] Let_def)
    moreover have "session_gcm r'" by (simp add: r') (simp add: session_gcm_def)
    moreover have "reader_core (r2\<lparr>rd_remote_fd := -1, rd_remote_logged_in := False\<rparr>) = reader_core r0"
      using g1(3) by (simp add: reader_core_def)
    ultimately show ?thesis
      by (auto simp: r0_def [symmetric] intro!: exI [of _ "r2\<lparr>rd_remote_fd := -1, rd_remote_logged_in := False\<rparr>"])
  qed
qed

lemma reader_request_ok:
  assumes lib: "digest_lengths lib" and ok: "reader_ok r"
    and req: "reader_request lib eng al now caid provid sid ecm r hs env = Some (res, r', hs', env')"
  shows "reader_ok r'"
proof (cases "rd_type r = READER_REMOTE")
  case True
  from reader_request_remote [OF lib ok True req] obtain r1 where
    r1: "reader_core r1 = reader_core (r\<lparr>rd_ecm_requests := rd_ecm_requests r + 1, rd_last_used := now\<rparr>)"
    and r': "r' = reader_mark_failure now (r1\<lparr>rd_ecm_fail := rd_ecm_fail r1 + 1\<rparr>)" "session_gcm r'" by blast
  with core_fields [OF r1] ok True show ?thesis by (simp add: reader_ok_def r'(1))
next
  case False
  with req ok show ?thesis
    by (cases "rd_type r") (auto simp: reader_request_def reader_ok_def Let_def split: option.splits)
qed

lemma reader_send_emm_ok:
  assumes lib: "digest_lengths lib" and ok: "reader_ok r"
    and send: "reader_send_emm lib al now caid provid emm r hs env = (sent, r', hs', env')"
  shows "reader_ok r' \<and> \<not> sent"
proof (cases "rd_type r \<noteq> READER_REMOTE \<or> \<not> rd_enabled r \<or> rd_caid r \<noteq> 0 \<and> rd_caid r \<noteq> caid")
  case True
  with send ok show ?thesis by (auto simp: reader_send_emm_def split: if_splits)
next
  case False
  have s0: "session_gcm r" using ok by (simp add: reader_ok_def)
  obtain rc r1 where c: "(if rd_remote_fd r < 0 then remote_connect r (re_io env (rd_id r)) else (0, r)) = (rc, r1)" by fastforce
  with core_connect [of r "re_io env (rd_id r)"] connect_session [OF s0, of "re_io env (rd_id r)"] s0
  have c1: "reader_core r1 = reader_core r" "session_gcm r1" by (auto split: if_splits)
  have ok_core: "reader_ok r2" if "reader_core r2 = reader_core r" "session_gcm r2" for r2
    using ok core_fields [OF that(1)] that(2) by (simp add: reader_ok_def)
  have fail_ok: "reader_ok (reader_mark_failure now r2)" if "reader_ok r2" for r2
    using that by (simp add: reader_ok_def)
  show ?thesis
  proof (cases "rc = 0")
    case rc: False
    with send c False have "r' = reader_mark_failure now r1" "\<not> sent"
      by (auto simp: reader_send_emm_def Let_def)
    with ok_core [OF c1] fail_ok show ?thesis by simp
  next
    case rc: True
    obtain rc2 r2 hs1 io1 where l: "remote_ensure_login lib al (re_seed env (rd_id r)) r1 hs (re_io env (rd_id r)) = (rc2, r2, hs1, io1)"
      by (metis prod_cases4)
    have core2: "reader_core r2 = reader_core r" using core_login [OF l] c1(1) by simp
    show ?thesis
    proof (cases "rc2 = 0")
      case True
      with ensure_login_gcm [OF lib c1(2)] l have gcm: "cx_mode (rd_crypto r2) = MODE_AES_GCM" by blast
      then have "cccam_protocol_build_emm lib BUFFER_SIZE (re_junk env) caid provid emm (Some (rd_crypto r2)) = None"
        by (simp add: cccam_protocol_build_emm_def seal_gcm_fails)
      with send c False rc l True have "r' = r2" "\<not> sent" by (auto simp: reader_send_emm_def Let_def)
      with ok_core [OF core2] gcm show ?thesis by (simp add: session_gcm_def)
    next
      case rc2: False
      let ?r3 = "r2\<lparr>rd_remote_fd := -1, rd_remote_logged_in := False\<rparr>"
      have "reader_core ?r3 = reader_core r" using core2 by (simp add: reader_core_def)
      moreover have "session_gcm ?r3" by (simp add: session_gcm_def)
      moreover have "r' = reader_mark_failure now ?r3" "\<not> sent"
        using send c False rc l rc2 by (auto simp: reader_send_emm_def Let_def)
      ultimately show ?thesis using ok_core fail_ok by simp
    qed
  qed
qed

subsection \<open>The best reader\<close>

abbreviation reader_serves :: "time_t \<Rightarrow> u16 \<Rightarrow> u16 \<Rightarrow> reader \<Rightarrow> bool" where
  "reader_serves now caid provid r \<equiv> reader_supports_caid now r caid \<and> reader_supports_provid r provid"

text \<open>\<open>best_at\<close>: position \<open>k\<close> holds the first reader of least score among those that serve the channel.\<close>

definition best_at :: "time_t \<Rightarrow> u16 \<Rightarrow> u16 \<Rightarrow> reader list \<Rightarrow> nat \<Rightarrow> bool" where
  "best_at now c p rs k \<longleftrightarrow> k < length rs \<and> reader_serves now c p (rs ! k) \<and>
     (\<forall>j < length rs. reader_serves now c p (rs ! j) \<longrightarrow>
        reader_score (rs ! k) \<le> reader_score (rs ! j) \<and> (j < k \<longrightarrow> reader_score (rs ! k) < reader_score (rs ! j)))"

lemma best_at_skip:
  assumes "best_at now c p rs k" and "reader_serves now c p r \<Longrightarrow> reader_score (rs ! k) < reader_score r"
  shows "best_at now c p (r # rs) (Suc k)"
  unfolding best_at_def
proof (intro conjI allI impI)
  fix j assume "j < length (r # rs)" "reader_serves now c p ((r # rs) ! j)"
  then show "reader_score ((r # rs) ! Suc k) \<le> reader_score ((r # rs) ! j)"
    using assms by (cases j) (auto simp: best_at_def)
next
  fix j assume "j < length (r # rs)" "reader_serves now c p ((r # rs) ! j)" "j < Suc k"
  then show "reader_score ((r # rs) ! Suc k) < reader_score ((r # rs) ! j)"
    using assms by (cases j) (auto simp: best_at_def)
qed (use assms in \<open>auto simp: best_at_def\<close>)

lemma best_at_head:
  assumes "reader_serves now c p r" and "\<forall>x \<in> set rs. reader_serves now c p x \<longrightarrow> reader_score r \<le> reader_score x"
  shows "best_at now c p (r # rs) 0"
  unfolding best_at_def
proof (intro conjI allI impI)
  fix j assume "j < length (r # rs)" "reader_serves now c p ((r # rs) ! j)"
  then show "reader_score ((r # rs) ! 0) \<le> reader_score ((r # rs) ! j)"
    using assms by (cases j) auto
qed (use assms in auto)

lemma select_scan_best:
  "(select_scan now c p i best rs = best \<and> (\<forall>r \<in> set rs. reader_serves now c p r \<longrightarrow> snd best \<le> reader_score r)) \<or>
   (\<exists>k. best_at now c p rs k \<and> reader_score (rs ! k) < snd best \<and>
        select_scan now c p i best rs = (Some (i + k), reader_score (rs ! k)))"
proof (induction rs arbitrary: i best)
  case (Cons r rs)
  let ?b = "if reader_serves now c p r \<and> reader_score r < snd best then (Some i, reader_score r) else best"
  have step: "select_scan now c p i best (r # rs) = select_scan now c p (i + 1) ?b rs" by simp
  from Cons.IH [of "i + 1" ?b] show ?case
  proof
    assume stay: "select_scan now c p (i + 1) ?b rs = ?b \<and> (\<forall>x \<in> set rs. reader_serves now c p x \<longrightarrow> snd ?b \<le> reader_score x)"
    show ?thesis
    proof (cases "reader_serves now c p r \<and> reader_score r < snd best")
      case True
      with stay have "best_at now c p (r # rs) 0" by (intro best_at_head) simp_all
      with True stay step show ?thesis by (intro disjI2 exI [of _ 0]) simp
    next
      case False
      with stay step show ?thesis by (intro disjI1) auto
    qed
  next
    assume "\<exists>k. best_at now c p rs k \<and> reader_score (rs ! k) < snd ?b \<and>
        select_scan now c p (i + 1) ?b rs = (Some (i + 1 + k), reader_score (rs ! k))"
    then obtain k where k: "best_at now c p rs k" "reader_score (rs ! k) < snd ?b"
      "select_scan now c p (i + 1) ?b rs = (Some (i + 1 + k), reader_score (rs ! k))" by blast
    have "best_at now c p (r # rs) (Suc k)"
      using k(2) by (intro best_at_skip [OF k(1)]) (auto split: if_splits)
    moreover have "reader_score (rs ! k) < snd best" using k(2) by (auto split: if_splits)
    ultimately show ?thesis using step k(3) by (intro disjI2 exI [of _ "Suc k"]) simp
  qed
qed simp

lemma best_at_le:
  assumes k: "best_at now c p rs k" and j: "best_at now c p rs j"
  shows "k \<le> j"
proof (rule ccontr)
  assume "\<not> k \<le> j"
  with k j have "reader_score (rs ! k) < reader_score (rs ! j)" unfolding best_at_def by simp
  moreover from k j have "reader_score (rs ! j) \<le> reader_score (rs ! k)" unfolding best_at_def by simp
  ultimately show False by simp
qed

lemma best_at_unique: "best_at now c p rs k \<Longrightarrow> best_at now c p rs j \<Longrightarrow> k = j"
  using best_at_le by (metis le_antisym)

lemma select_reader_some:
  "cccam_card_manager_select_reader now c p st = Some k \<longleftrightarrow> best_at now c p (cm_readers st) k"
proof -
  let ?rs = "cm_readers st"
  consider "select_scan now c p 0 (None, 9999) ?rs = (None, 9999)" "\<forall>r \<in> set ?rs. \<not> reader_serves now c p r"
    | j where "best_at now c p ?rs j" "fst (select_scan now c p 0 (None, 9999) ?rs) = Some j"
  proof -
    have lt: "\<not> 9999 \<le> reader_score r" for r using reader_score_bounds [of r] by simp
    show thesis
      using select_scan_best [of now c p 0 "(None, 9999)" ?rs]
    proof
      assume "select_scan now c p 0 (None, 9999) ?rs = (None, 9999) \<and>
        (\<forall>r \<in> set ?rs. reader_serves now c p r \<longrightarrow> snd (None :: nat option, 9999) \<le> reader_score r)"
      with lt show thesis by (intro that(1)) (simp_all del: not_le)
    next
      assume "\<exists>k. best_at now c p ?rs k \<and> reader_score (?rs ! k) < snd (None :: nat option, 9999) \<and>
        select_scan now c p 0 (None, 9999) ?rs = (Some (0 + k), reader_score (?rs ! k))"
      then show thesis by (auto intro: that(2))
    qed
  qed
  then show ?thesis
  proof cases
    case 1
    then have "\<not> best_at now c p ?rs k" by (auto simp: best_at_def)
    with 1(1) show ?thesis by (simp add: cccam_card_manager_select_reader_def)
  next
    case 2
    then show ?thesis using best_at_unique by (auto simp: cccam_card_manager_select_reader_def)
  qed
qed

lemma select_reader_none:
  "cccam_card_manager_select_reader now c p st = None \<longleftrightarrow> (\<forall>r \<in> set (cm_readers st). \<not> reader_serves now c p r)"
proof -
  let ?rs = "cm_readers st"
  have lt: "\<not> 9999 \<le> reader_score r" for r using reader_score_bounds [of r] by simp
  have "(\<exists>k. best_at now c p ?rs k) \<longleftrightarrow> (\<exists>r \<in> set ?rs. reader_serves now c p r)"
  proof
    assume "\<exists>k. best_at now c p ?rs k"
    then show "\<exists>r \<in> set ?rs. reader_serves now c p r" unfolding best_at_def by (meson nth_mem)
  next
    assume "\<exists>r \<in> set ?rs. reader_serves now c p r"
    then show "\<exists>k. best_at now c p ?rs k"
      using select_scan_best [of now c p 0 "(None, 9999)" ?rs] lt by auto
  qed
  then show ?thesis
    using select_reader_some [of now c p st] by (metis not_Some_eq)
qed

subsection \<open>The card manager as a system of operations\<close>

text \<open>
  \<open>RAdd\<close> adds a reader with the settings of a configuration section. The world is the card manager
  with the global handshake state and the connections.
\<close>

datatype card_op =
    RGetCw time_t u16 u16 u16 "u8 list"
  | RSendEmm time_t u16 u16 "u8 list"
  | RAdd string "(string \<times> string) list"
  | RRemove u32
  | RUpdateState u32 reader_state
  | RReload "string \<Rightarrow> bool" "string \<Rightarrow> string option"

type_synonym card_world = "card_manager \<times> handshake \<times> remote_env"

fun card_step :: "ossl \<Rightarrow> engines \<Rightarrow> u32 \<Rightarrow> card_op \<Rightarrow> card_world \<Rightarrow> card_world option" where
  "card_step lib eng al (RGetCw now c p s ecm) (st, hs, env) =
     map_option snd (cccam_card_manager_get_cw lib eng al now c p s ecm st hs env)"
| "card_step lib eng al (RSendEmm now c p emm) (st, hs, env) =
     Some (snd (cccam_card_manager_send_emm lib al now c p emm st hs env))"
| "card_step lib eng al (RAdd n kvs) (st, hs, env) =
     Some (cccam_card_manager_add_reader (fold (\<lambda>(k, v). reader_set k v) kvs (new_reader n)) st, hs, env)"
| "card_step lib eng al (RRemove i) (st, hs, env) = Some (snd (cccam_card_manager_remove_reader i st), hs, env)"
| "card_step lib eng al (RUpdateState i s) (st, hs, env) = Some (snd (cccam_card_manager_update_state i s st), hs, env)"
| "card_step lib eng al (RReload mem fs) (st, hs, env) = Some (snd (cccam_card_manager_reload mem fs st), hs, env)"

text \<open>The operations in which the emulator is asked something that it does not answer.\<close>

fun card_unanswered :: "engines \<Rightarrow> card_op \<Rightarrow> bool" where
  "card_unanswered eng (RGetCw now c p s ecm) \<longleftrightarrow> emu_cw eng now c p s ecm = None"
| "card_unanswered eng _ \<longleftrightarrow> False"

lemma reader_request_None:
  "reader_request lib eng al now c p s ecm r hs env = None \<Longrightarrow> emu_cw eng now c p s ecm = None"
  by (auto simp: reader_request_def emu_get_cw_def Let_def split: reader_type.splits if_splits)

lemma get_cw_None:
  "cccam_card_manager_get_cw lib eng al now c p s ecm st hs env = None \<Longrightarrow> emu_cw eng now c p s ecm = None"
  by (auto simp: cccam_card_manager_get_cw_def split: option.splits dest: reader_request_None)

lemma new_reader_ok: "reader_ok (new_reader n)"
  by (simp add: reader_ok_def session_gcm_def new_reader_def)

text \<open>A reader that is still being configured has no requests and no session.\<close>

definition reader_fresh :: "reader \<Rightarrow> bool" where
  "reader_fresh r \<longleftrightarrow> rd_ecm_requests r = 0 \<and> rd_ecm_success r = 0 \<and> rd_ecm_fail r = 0 \<and>
     rd_consecutive_failures r = 0 \<and> \<not> rd_remote_logged_in r"

lemma reader_set_fresh: "reader_fresh r \<Longrightarrow> reader_fresh (reader_set k v r)"
  by (simp add: reader_set_def reader_fresh_def)

lemma new_reader_fresh: "reader_fresh (new_reader n)"
  by (simp add: reader_fresh_def new_reader_def)

lemma fold_set_fresh: "reader_fresh r \<Longrightarrow> reader_fresh (fold (\<lambda>(k, v). reader_set k v) kvs r)"
  by (induction kvs arbitrary: r) (auto intro: reader_set_fresh)

lemma add_reader_inv: "cm_inv st \<Longrightarrow> reader_fresh r \<Longrightarrow> cm_inv (cccam_card_manager_add_reader r st)"
  by (auto simp: cm_inv_def cccam_card_manager_add_reader_def reader_ok_def reader_fresh_def session_gcm_def)

lemma readers_line_inv:
  assumes "cm_inv (snd x)" and "\<forall>r. fst x = Some r \<longrightarrow> reader_fresh r"
  shows "cm_inv (snd (readers_line mem l x)) \<and> (\<forall>r. fst (readers_line mem l x) = Some r \<longrightarrow> reader_fresh r)"
  using assms
  by (cases x; cases "fst x")
    (auto simp: readers_line_def Let_def add_reader_inv new_reader_fresh reader_set_fresh split: option.splits)

lemma fold_readers_line_inv:
  "cm_inv (snd x) \<Longrightarrow> \<forall>r. fst x = Some r \<longrightarrow> reader_fresh r \<Longrightarrow>
   cm_inv (snd (fold (readers_line mem) ls x)) \<and> (\<forall>r. fst (fold (readers_line mem) ls x) = Some r \<longrightarrow> reader_fresh r)"
proof (induction ls arbitrary: x)
  case (Cons l ls)
  from readers_line_inv [OF Cons.prems, of mem l] Cons.IH [of "readers_line mem l x"] show ?case by simp
qed simp

lemma load_readers_inv:
  assumes "cm_inv st"
  shows "cm_inv (snd (cccam_card_manager_load_from_config mem fs f st))"
proof (cases "fs f")
  case (Some content)
  obtain rd st1 where l: "fold (readers_line mem) (fgets_lines 254 content) (None, st) = (rd, st1)" by fastforce
  from fold_readers_line_inv [of "(None, st)" mem "fgets_lines 254 content"] assms l
  show ?thesis
    by (cases rd) (simp_all add: cccam_card_manager_load_from_config_def Some add_reader_inv)
qed (simp add: cccam_card_manager_load_from_config_def assms)

lemma send_emm_loop_ok:
  assumes lib: "digest_lengths lib"
  shows "\<forall>r \<in> set rs. reader_ok r \<Longrightarrow> send_emm_loop lib al now c p emm rs hs env = (n, rs', hs', env') \<Longrightarrow>
    n = 0 \<and> length rs' = length rs \<and> (\<forall>r \<in> set rs'. reader_ok r)"
proof (induction rs arbitrary: hs env n rs' hs' env')
  case (Cons r rs)
  obtain sent r1 hs1 env1 where one: "reader_send_emm lib al now c p emm r hs env = (sent, r1, hs1, env1)" by (metis prod_cases4)
  obtain m rs1 hs2 env2 where rest: "send_emm_loop lib al now c p emm rs hs1 env1 = (m, rs1, hs2, env2)" by (metis prod_cases4)
  from Cons.IH [OF _ rest] Cons.prems reader_send_emm_ok [OF lib _ one] one rest show ?case by auto
qed simp

lemma card_step_inv:
  assumes lib: "digest_lengths lib" and inv: "cm_inv (fst w)"
  shows "case card_step lib eng al x w of Some w' \<Rightarrow> cm_inv (fst w') | None \<Rightarrow> card_unanswered eng x"
proof -
  obtain st hs env where w: "w = (st, hs, env)" by (metis prod_cases3)
  with inv have inv: "cm_inv st" by simp
  show ?thesis
  proof (cases x)
    case (RGetCw now c p s ecm)
    have upd: "cm_inv (st\<lparr>cm_readers := (cm_readers st)[i := r]\<rparr>)" if "reader_ok r" for i r
      using inv that set_update_subset_insert by (fastforce simp: cm_inv_def)
    have idx: "cccam_card_manager_select_reader now c p st = Some i \<Longrightarrow> i < length (cm_readers st)" for i
      by (simp add: select_reader_some best_at_def)
    show ?thesis
    proof (cases "cccam_card_manager_select_reader now c p st")
      case (Some i)
      from inv idx [OF Some] have ok: "reader_ok (cm_readers st ! i)" by (simp add: cm_inv_def)
      show ?thesis
      proof (cases "reader_request lib eng al now c p s ecm (cm_readers st ! i) hs env")
        case None
        with reader_request_None [OF None] show ?thesis by (simp add: RGetCw w cccam_card_manager_get_cw_def Some)
      next
        case req: (Some y)
        obtain res r hs1 env1 where y: "y = (res, r, hs1, env1)" by (metis prod_cases4)
        from upd [OF reader_request_ok [OF lib ok req [unfolded y]]] show ?thesis
          by (simp add: RGetCw w cccam_card_manager_get_cw_def Some req y)
      qed
    qed (simp add: RGetCw w cccam_card_manager_get_cw_def inv)
  next
    case (RSendEmm now c p emm)
    let ?st1 = "emm_remember now (emm_hash emm) st"
    obtain n rs hs1 env1 where l: "send_emm_loop lib al now c p emm (cm_readers ?st1) hs env = (n, rs, hs1, env1)" by (metis prod_cases4)
    have st1: "cm_inv ?st1" using inv by (simp add: cm_inv_def emm_remember_def EMM_DEDUP_SLOTS_def)
    with send_emm_loop_ok [OF lib _ l] have "cm_inv (?st1\<lparr>cm_readers := rs\<rparr>)" by (simp add: cm_inv_def)
    with inv show ?thesis by (simp add: RSendEmm w cccam_card_manager_send_emm_def Let_def l)
  next
    case (RAdd n kvs)
    with inv show ?thesis by (simp add: w add_reader_inv fold_set_fresh new_reader_fresh)
  next
    case (RRemove i)
    with inv show ?thesis
      using set_remove_first [of "\<lambda>r. rd_id r = i" "cm_readers st"] length_pos_if_in_set
      by (fastforce simp: w cccam_card_manager_remove_reader_def cm_inv_def find_idx_None length_remove_first of_nat_diff Suc_leI)
  next
    case (RUpdateState i s)
    have "reader_ok (cm_readers st ! j)" if "j < length (cm_readers st)" for j using inv that by (simp add: cm_inv_def)
    with inv show ?thesis
      using set_update_subset_insert
      by (fastforce simp: RUpdateState w cccam_card_manager_update_state_def cccam_card_manager_find_reader_def find_idx_Some
          Let_def cm_inv_def reader_ok_def session_gcm_def split: option.splits)
  next
    case (RReload mem fs)
    have "cm_inv (st\<lparr>cm_readers := [], cm_count := 0, cm_next_id := 1\<rparr>)" using inv by (simp add: cm_inv_def)
    from load_readers_inv [OF this] show ?thesis by (simp add: RReload w cccam_card_manager_reload_def)
  qed
qed

text \<open>The digest lengths that OpenSSL documents are part of the invariant, so that they need no premise.\<close>

interpretation card_sys: guarded_system "(card_manager_initial, hs, env)"
  "\<lambda>x w. if digest_lengths lib then card_step lib eng al x w else Some w" "\<lambda>x w. card_unanswered eng x"
  "\<lambda>w :: card_world. cm_inv (fst w)" for lib eng al hs env
proof
  show "cm_inv (fst (card_manager_initial, hs, env))"
    by (simp add: cm_inv_def card_manager_initial_def EMM_DEDUP_SLOTS_def)
next
  fix w :: card_world and x assume "cm_inv (fst w)"
  then show "(\<exists>t. (if digest_lengths lib then card_step lib eng al x w else Some w) = Some t \<and> cm_inv (fst t)) \<or>
      (if digest_lengths lib then card_step lib eng al x w else Some w) = None \<and> card_unanswered eng x"
    using card_step_inv [of lib w eng x al] by (cases w; cases "card_step lib eng al x w") auto
qed

subsection \<open>Properties\<close>

text \<open>
  C34: the reader chosen for a channel is the first one of least score among those that serve it (enabled,
  not waiting after failures, CAID and provider matching); none is chosen exactly when none serves it.
\<close>

theorem select_reader_result:
  "(cccam_card_manager_select_reader now c p st = Some k \<longleftrightarrow> best_at now c p (cm_readers st) k) \<and>
   (cccam_card_manager_select_reader now c p st = None \<longleftrightarrow> \<not> (\<exists>r. r \<in> set (cm_readers st) \<and> reader_serves now c p r))"
  by (auto simp: select_reader_some select_reader_none)

text \<open>
  C35: after any sequence of requests, EMMs, additions, removals, state changes and reloads the number
  of readers is the one the manager counts, every request of every reader was counted exactly once as
  a success or a failure, and the success counter of every remote reader is 0. A sequence is undefined only
  when it has a request that the emulator does not answer.
\<close>

theorem card_run_inv:
  assumes "digest_lengths lib"
  shows "case run_ops (card_step lib eng al) xs (card_manager_initial, hs, env) of
      Some (st, hs', env') \<Rightarrow> cm_count st = int (length (cm_readers st)) \<and>
        (\<forall>r \<in> set (cm_readers st). rd_ecm_requests r = rd_ecm_success r + rd_ecm_fail r \<and>
           (rd_type r = READER_REMOTE \<longrightarrow> rd_ecm_success r = 0 \<and> session_gcm r))
    | None \<Rightarrow> \<exists>x \<in> set xs. card_unanswered eng x"
proof -
  have "(\<exists>w. run_ops (card_step lib eng al) xs (card_manager_initial, hs, env) = Some w \<and> cm_inv (fst w)) \<or>
      run_ops (card_step lib eng al) xs (card_manager_initial, hs, env) = None \<and> (\<exists>x \<in> set xs. card_unanswered eng x)"
    using card_sys.run_or_stuck [where lib = lib and eng = eng and al = al and xs = xs and s = "(card_manager_initial, hs, env)"]
      card_sys.invar_first [of hs env] assms by auto
  then show ?thesis by (auto simp: cm_inv_def reader_ok_def)
qed

text \<open>Engines without a card whose emulator answers everything with an error.\<close>

definition no_engines :: engines where
  "no_engines = \<lparr>smartcard_ecm = \<lambda>_ _ _ _. None, emu_cw = \<lambda>_ _ _ _ _. Some None, emu_keys = (emu_store_initial, \<lambda>_. None)\<rparr>"

theorem card_run_inv_witness:
  "\<exists>st hs' env'. run_ops (card_step toy_ossl no_engines 0)
     [RAdd ''a'' [(''type'', ''remote'')], RGetCw 5 0x0500 0 1 [1, 2], RRemove 9] (card_manager_initial, handshake_initial,
       \<lparr>re_io = \<lambda>_. \<lparr>io_connect = None, io_rx = [], io_sends = [], io_tx = []\<rparr>, re_seed = \<lambda>_. [], re_junk = []\<rparr>) = Some (st, hs', env')
     \<and> cm_count st = int (length (cm_readers st))"
  using card_run_inv [OF toy_ossl_ok(3), where eng = no_engines and al = 0
      and xs = "[RAdd ''a'' [(''type'', ''remote'')], RGetCw 5 0x0500 0 1 [1, 2], RRemove 9]" and hs = handshake_initial
      and env = "\<lparr>re_io = \<lambda>_. \<lparr>io_connect = None, io_rx = [], io_sends = [], io_tx = []\<rparr>, re_seed = \<lambda>_. [], re_junk = []\<rparr>"]
  by (auto simp: no_engines_def split: option.splits)

lemma reader_request_fail:
  assumes lib: "digest_lengths lib" and ok: "reader_ok r"
    and req: "reader_request lib eng al now caid provid sid ecm r hs env = Some (None, r', hs', env')"
  shows "\<exists>r1. reader_core r1 = reader_core (r\<lparr>rd_ecm_requests := rd_ecm_requests r + 1, rd_last_used := now\<rparr>) \<and>
    r' = reader_mark_failure now (r1\<lparr>rd_ecm_fail := rd_ecm_fail r1 + 1\<rparr>)"
proof (cases "rd_type r = READER_REMOTE")
  case True
  from reader_request_remote [OF lib ok True req] show ?thesis by blast
next
  case False
  with req have "r' = reader_mark_failure now ((r\<lparr>rd_ecm_requests := rd_ecm_requests r + 1, rd_last_used := now\<rparr>)
      \<lparr>rd_ecm_fail := rd_ecm_fail r + 1\<rparr>)"
    by (cases "rd_type r") (auto simp: reader_request_def Let_def split: option.splits)
  then show ?thesis by (intro exI [of _ "r\<lparr>rd_ecm_requests := rd_ecm_requests r + 1, rd_last_used := now\<rparr>"]) simp
qed

text \<open>
  A reader that fails for at least the third time in a row is not chosen for the next 30 seconds,
  whatever the channel; after that it serves again what its settings say. No other reader changes.
\<close>

theorem get_cw_backoff:
  assumes "digest_lengths lib" and "cm_inv st" and "0 \<le> now"
    and "cccam_card_manager_select_reader now caid provid st = Some i" and "2 \<le> rd_consecutive_failures (cm_readers st ! i)"
    and "cccam_card_manager_get_cw lib eng al now caid provid sid ecm st hs env = Some (None, st', hs', env')"
  shows "(t < now + 30 \<longrightarrow> cccam_card_manager_select_reader t caid' provid' st' \<noteq> Some i) \<and>
    (now + 30 \<le> t \<longrightarrow> reader_supports_caid t (cm_readers st' ! i) caid) \<and>
    (\<forall>j. j \<noteq> i \<longrightarrow> cm_readers st' ! j = cm_readers st ! j)"
proof -
  let ?r = "cm_readers st ! i"
  obtain r hs1 env1 where req: "reader_request lib eng al now caid provid sid ecm ?r hs env = Some (None, r, hs1, env1)"
    and st': "st' = st\<lparr>cm_readers := (cm_readers st)[i := r]\<rparr>"
    using assms(4,6) by (auto simp: cccam_card_manager_get_cw_def)
  from assms(4) have i: "i < length (cm_readers st)" "reader_supports_caid now ?r caid"
    by (auto simp: select_reader_some best_at_def)
  with assms(2) have "reader_ok ?r" by (simp add: cm_inv_def)
  from reader_request_fail [OF assms(1) this req] obtain r1 where
    r1: "reader_core r1 = reader_core (?r\<lparr>rd_ecm_requests := rd_ecm_requests ?r + 1, rd_last_used := now\<rparr>)"
    and r: "r = reader_mark_failure now (r1\<lparr>rd_ecm_fail := rd_ecm_fail r1 + 1\<rparr>)" by blast
  have s: "rd_state r = STATE_ERROR" "rd_retry_after r = now + 30" "rd_enabled r = rd_enabled ?r" "rd_caid r = rd_caid ?r"
    using core_fields [OF r1] assms(5) by (simp_all add: r reader_mark_failure_def Let_def)
  have "cm_readers st' ! i = r" using i(1) by (simp add: st')
  moreover have "reader_supports_caid t r c \<longleftrightarrow> now + 30 \<le> t \<and> rd_enabled ?r \<and> (rd_caid ?r = 0 \<or> rd_caid ?r = c)" for c
    using s assms(3) by (simp add: reader_supports_caid_def)
  moreover have "rd_enabled ?r \<and> (rd_caid ?r = 0 \<or> rd_caid ?r = caid)"
    using i(2) by (auto simp: reader_supports_caid_def split: if_splits)
  ultimately show ?thesis by (auto simp: select_reader_some best_at_def st')
qed

theorem get_cw_backoff_witness:
  "\<exists>st'. (\<exists>hs' env'. cccam_card_manager_get_cw toy_ossl no_engines 0 100 0x0500 0 1 [1]
       (card_manager_initial\<lparr>cm_readers := [(new_reader ''a'')\<lparr>rd_consecutive_failures := 2\<rparr>], cm_count := 1\<rparr>) handshake_initial
       \<lparr>re_io = \<lambda>_. \<lparr>io_connect = None, io_rx = [], io_sends = [], io_tx = []\<rparr>, re_seed = \<lambda>_. [], re_junk = []\<rparr> = Some (None, st', hs', env'))
     \<and> cccam_card_manager_select_reader 129 0x0500 0 st' \<noteq> Some 0 \<and> reader_supports_caid 130 (cm_readers st' ! 0) 0x0500"
proof -
  let ?st = "card_manager_initial\<lparr>cm_readers := [(new_reader ''a'')\<lparr>rd_consecutive_failures := 2\<rparr>], cm_count := 1\<rparr>"
  let ?env = "\<lparr>re_io = \<lambda>_. \<lparr>io_connect = None, io_rx = [], io_sends = [], io_tx = []\<rparr>, re_seed = \<lambda>_. [], re_junk = []\<rparr>"
  have sel: "cccam_card_manager_select_reader 100 0x0500 0 ?st = Some 0"
    by (simp add: cccam_card_manager_select_reader_def card_manager_initial_def new_reader_def reader_supports_caid_def
        reader_supports_provid_def reader_score_def)
  obtain st' hs' env' where g: "cccam_card_manager_get_cw toy_ossl no_engines 0 100 0x0500 0 1 [1] ?st handshake_initial ?env = Some (None, st', hs', env')"
    using sel by (simp add: cccam_card_manager_get_cw_def reader_request_def local_get_cw_def no_engines_def new_reader_def card_manager_initial_def Let_def)
  have inv: "cm_inv ?st"
    by (simp add: cm_inv_def card_manager_initial_def EMM_DEDUP_SLOTS_def reader_ok_def session_gcm_def new_reader_def)
  have two: "2 \<le> rd_consecutive_failures (cm_readers ?st ! 0)" by simp
  have "(0 :: time_t) \<le> 100" by simp
  note out = get_cw_backoff [OF toy_ossl_ok(3) inv this sel two g]
  from out [of 129 "0x0500" 0] out [of 130 "0x0500" 0] g show ?thesis by auto
qed

subsection \<open>Suppression of duplicate EMMs\<close>

abbreviation send_emm_state ::
  "ossl \<Rightarrow> u32 \<Rightarrow> time_t \<times> u16 \<times> u16 \<times> u8 list \<Rightarrow> card_world \<Rightarrow> card_world" where
  "send_emm_state lib al x w \<equiv> (case x of (now, caid, provid, emm) \<Rightarrow>
     snd (cccam_card_manager_send_emm lib al now caid provid emm (fst w) (fst (snd w)) (snd (snd w))))"

text \<open>Slot \<open>q\<close> holds the hash since \<open>t\<close>, and the ring will reach it only after \<open>n\<close> more insertions.\<close>

definition emm_held :: "nat \<Rightarrow> u64 \<Rightarrow> time_t \<Rightarrow> nat \<Rightarrow> card_manager \<Rightarrow> bool" where
  "emm_held n h t q st \<longleftrightarrow> length (cm_emm_hash st) = 64 \<and> length (cm_emm_time st) = 64 \<and> q < 64 \<and>
     cm_emm_hash st ! q = h \<and> cm_emm_time st ! q = t \<and> (cm_emm_slot st + n) mod 64 = q \<and> cm_emm_slot st < 64"

lemma emm_held_remember:
  assumes "emm_held (Suc n) h t q st" and "Suc n < 64"
  shows "emm_held n h t q (emm_remember now h' st)"
proof -
  have "cm_emm_slot st \<noteq> q"
  proof
    assume "cm_emm_slot st = q"
    with assms have "(q + Suc n) mod 64 = q" "q < 64" by (simp_all add: emm_held_def)
    with assms(2) show False by (cases "q + Suc n < 64") (simp_all add: le_mod_geq)
  qed
  moreover have "((cm_emm_slot st + 1) mod 64 + n) mod 64 = q"
    using assms(1) by (simp add: emm_held_def mod_add_left_eq)
  moreover have "(cm_emm_slot st + 1) mod 64 < 64" by simp
  ultimately show ?thesis using assms(1) unfolding emm_held_def emm_remember_def EMM_DEDUP_SLOTS_def
    by (simp del: One_nat_def)
qed

lemma emm_held_weaken:
  "emm_held 63 h t q (emm_remember t h st)" if "length (cm_emm_hash st) = 64" "length (cm_emm_time st) = 64" "q = cm_emm_slot st" "q < 64"
proof -
  have "((q + 1) mod 64 + 63) mod 64 = (q + 1 + 63) mod 64" by (rule mod_add_left_eq)
  also have "\<dots> = q" using that(4) by simp
  finally have "((q + 1) mod 64 + 63) mod 64 = q" .
  moreover have "(q + 1) mod 64 < 64" by simp
  ultimately show ?thesis using that unfolding emm_held_def emm_remember_def EMM_DEDUP_SLOTS_def
    by (simp del: One_nat_def)
qed

lemma emm_scan_iff: "emm_seen_scan now h xs \<longleftrightarrow> (\<exists>t. (h, t) \<in> set xs \<and> now - t < 60)"
  by (induction now h xs rule: emm_seen_scan.induct) auto

lemma emm_held_seen:
  assumes "emm_held n h t q st" and "now < t + 60"
  shows "emm_seen_recently now h st"
proof -
  have "(h, t) \<in> set (zip (cm_emm_hash st) (cm_emm_time st))"
    using assms(1) by (auto simp: emm_held_def set_zip intro!: exI [of _ q])
  with assms(2) show ?thesis by (auto simp: emm_seen_recently_def emm_scan_iff)
qed

lemma emm_held_readers [simp]: "emm_held n h t q (st\<lparr>cm_readers := rs\<rparr>) = emm_held n h t q st"
  by (simp add: emm_held_def)

text \<open>One more EMM keeps the slot, with one insertion less to go if it was new.\<close>

lemma emm_held_send:
  assumes "emm_held n h t q (fst w)" "0 < n" "n < 64"
  shows "emm_held n h t q (fst (send_emm_state lib al x w)) \<or> emm_held (n - 1) h t q (fst (send_emm_state lib al x w))"
proof -
  obtain now c p emm where x: "x = (now, c, p, emm)" by (metis prod_cases4)
  obtain st hs env where w: "w = (st, hs, env)" by (metis prod_cases3)
  let ?st1 = "emm_remember now (emm_hash emm) st"
  obtain k rs hs1 env1 where l: "send_emm_loop lib al now c p emm (cm_readers ?st1) hs env = (k, rs, hs1, env1)" by (metis prod_cases4)
  have "fst (send_emm_state lib al x w) \<in> {st, ?st1\<lparr>cm_readers := rs\<rparr>}"
    by (simp add: x w cccam_card_manager_send_emm_def Let_def l)
  moreover have "emm_held (n - 1) h t q ?st1"
    using emm_held_remember [of "n - 1" h t q st now "emm_hash emm"] assms w by simp
  ultimately show ?thesis using assms(1) w by auto
qed

lemma emm_held_fold:
  "emm_held n h t q (fst w) \<Longrightarrow> length xs \<le> n \<Longrightarrow> n < 64 \<Longrightarrow> \<exists>m. emm_held m h t q (fst (fold (send_emm_state lib al) xs w))"
proof (induction xs arbitrary: n w)
  case (Cons x xs)
  from emm_held_send [OF Cons.prems(1), of lib al x] Cons.prems(2,3)
  show ?case
    using Cons.IH [of n "send_emm_state lib al x w"] Cons.IH [of "n - 1" "send_emm_state lib al x w"] by auto
qed auto

text \<open>
  An EMM that was not a duplicate when it was sent is suppressed for the next 60 seconds, even after
  up to 63 other EMMs: sending it again returns 0 and touches no reader and no connection.
\<close>

theorem emm_duplicate_suppressed:
  assumes "cm_inv st" and "emm \<noteq> []" and "\<not> emm_seen_recently t1 (emm_hash emm) st"
    and "length xs \<le> 63" and "t2 < t1 + 60"
    and "fold (send_emm_state lib al) xs (send_emm_state lib al (t1, c, p, emm) (st, hs, env)) = (st', hs', env')"
  shows "cccam_card_manager_send_emm lib al t2 c' p' emm st' hs' env' = (0, st', hs', env')"
proof -
  let ?st1 = "emm_remember t1 (emm_hash emm) st"
  obtain k rs hs1 env1 where l: "send_emm_loop lib al t1 c p emm (cm_readers ?st1) hs env = (k, rs, hs1, env1)" by (metis prod_cases4)
  from assms(1) have "emm_held 63 (emm_hash emm) t1 (cm_emm_slot st) ?st1"
    by (intro emm_held_weaken) (auto simp: cm_inv_def EMM_DEDUP_SLOTS_def)
  moreover have "fst (send_emm_state lib al (t1, c, p, emm) (st, hs, env)) = ?st1\<lparr>cm_readers := rs\<rparr>"
    using assms(2,3) l by (simp add: cccam_card_manager_send_emm_def Let_def)
  ultimately obtain m where "emm_held m (emm_hash emm) t1 (cm_emm_slot st) st'"
    using emm_held_fold [of 63 "emm_hash emm" t1 "cm_emm_slot st" "send_emm_state lib al (t1, c, p, emm) (st, hs, env)" xs lib al] assms(4,6)
    by auto
  from emm_held_seen [OF this assms(5)] assms(2) show ?thesis
    by (simp add: cccam_card_manager_send_emm_def Let_def)
qed

theorem emm_duplicate_suppressed_witness:
  "\<exists>st' hs' env'. cccam_card_manager_send_emm toy_ossl 0 59 0x0500 0 [0x82, 1] st' hs' env' = (0, st', hs', env')
     \<and> fold (send_emm_state toy_ossl 0) [(1, 0x0500, 0, [0x83])]
       (send_emm_state toy_ossl 0 (0, 0x0500, 0, [0x82, 1]) (card_manager_initial, handshake_initial,
         \<lparr>re_io = \<lambda>_. \<lparr>io_connect = None, io_rx = [], io_sends = [], io_tx = []\<rparr>, re_seed = \<lambda>_. [], re_junk = []\<rparr>)) = (st', hs', env')"
proof -
  let ?env = "\<lparr>re_io = \<lambda>_. \<lparr>io_connect = None, io_rx = [], io_sends = [], io_tx = []\<rparr>, re_seed = \<lambda>_. [], re_junk = []\<rparr>"
  define w where "w = fold (send_emm_state toy_ossl 0) [(1, 0x0500, 0, [0x83])]
       (send_emm_state toy_ossl 0 (0, 0x0500, 0, [0x82, 1]) (card_manager_initial, handshake_initial, ?env))"
  obtain st' hs' env' where "w = (st', hs', env')" by (metis prod_cases3)
  note f = this [unfolded w_def]
  have inv: "cm_inv card_manager_initial" by (simp add: cm_inv_def card_manager_initial_def EMM_DEDUP_SLOTS_def)
  have "emm_hash [0x82, 1] \<noteq> 0" by code_simp
  then have new: "\<not> emm_seen_recently 0 (emm_hash [0x82, 1]) card_manager_initial"
    by (auto simp: emm_seen_recently_def emm_scan_iff card_manager_initial_def dest: set_zip_leftD)
  from emm_duplicate_suppressed [OF inv _ new _ _ f, of 59 "0x0500" 0] f show ?thesis by auto
qed

end
