(* ===== verification/Ecm.thy ===== *)
theory Ecm
  imports Cache Hop_Control Client_Pool Card_Manager
begin

text \<open>
  The ECM handler, \<open>src/CCshare/cccam3_ecm.c\<close>: a request is answered from the cache or by a reader, subject
  to the hop limits, and the answer is cached. The world \<open>ecm_world\<close> holds the handler's counters and the
  states of the components that it calls. \<open>None\<close> is an execution that does not return or touches freed
  memory; \<open>ecm_run_total\<close> shows that it only comes from the key emulator, which is an argument here and modelled by
  \<open>Emu_Dispatch\<close>. The atomic counters are 32-bit words.
\<close>

subsection \<open>State\<close>

record ecm_request =
  rq_caid :: u16
  rq_provid :: u16
  rq_sid :: u16
  rq_data :: "u8 list"
  rq_len :: u16
  rq_client_id :: u32
  rq_hop :: u8

record ecm_response =
  rs_cw :: "u8 list"
  rs_hop :: u8
  rs_caid :: u16
  rs_provid :: u16
  rs_sid :: u16
  rs_generated_at :: time_t
  rs_found :: bool

record ecm_counters =
  ec_total :: u32
  ec_hits :: u32
  ec_misses :: u32
  ec_success :: u32
  ec_fail :: u32

record ecm_world =
  ew_counters :: ecm_counters
  ew_cache :: cache
  ew_hops :: hop_control
  ew_pool :: pool
  ew_cards :: card_manager
  ew_hs :: handshake
  ew_env :: remote_env
  ew_engines :: engines

definition ECM_MAX_SIZE :: nat where "ECM_MAX_SIZE = 256"

definition ecm_counters_zero :: ecm_counters where
  "ecm_counters_zero = \<lparr>ec_total = 0, ec_hits = 0, ec_misses = 0, ec_success = 0, ec_fail = 0\<rparr>"

subsection \<open>Operations\<close>

definition cccam_ecm_init :: "ecm_world \<Rightarrow> ecm_world" where
  "cccam_ecm_init w = w\<lparr>ew_counters := ecm_counters_zero\<rparr>"

definition cccam_ecm_clean_expired_cache :: "time_t \<Rightarrow> ecm_world \<Rightarrow> int \<times> ecm_world" where
  "cccam_ecm_clean_expired_cache now w =
     (case cccam_cache_clean_expired now (ew_cache w) of (n, c) \<Rightarrow> (n, w\<lparr>ew_cache := c\<rparr>))"

text \<open>
  \<open>emu_emm\<close> is \<open>cccam_emu_process_emm\<close>: what an EMM does to the keys of the emulator, \<open>None\<close> when it does not return;
  \<open>Emu_Dispatch.emulator_emm\<close> is the emulator of the source.
\<close>

definition cccam_ecm_forward_emm ::
  "(time_t \<Rightarrow> u16 \<Rightarrow> u8 list \<Rightarrow> engines \<Rightarrow> engines option) \<Rightarrow> ossl \<Rightarrow> u32 \<Rightarrow> time_t \<Rightarrow> u16 \<Rightarrow> u16 \<Rightarrow> u8 list \<Rightarrow> ecm_world
    \<Rightarrow> (int \<times> ecm_world) option" where
  "cccam_ecm_forward_emm emu_emm lib allowed now caid provid emm w =
     (case emu_emm now caid emm (ew_engines w) of
        None \<Rightarrow> None
      | Some eng \<Rightarrow>
          let w1 = w\<lparr>ew_engines := eng\<rparr> in
          (case cccam_card_manager_send_emm lib allowed now caid provid emm (ew_cards w1) (ew_hs w1) (ew_env w1) of
             (n, cards, hs, env) \<Rightarrow> Some (n, w1\<lparr>ew_cards := cards, ew_hs := hs, ew_env := env\<rparr>)))"

definition ecm_is_valid :: "ecm_request \<Rightarrow> bool" where
  "ecm_is_valid rq =
     (if unat (rq_len rq) = 0 \<or> unat (rq_len rq) > ECM_MAX_SIZE then False
      else if rq_caid rq = 0 \<and> rq_sid rq = 0 then False
      else True)"

definition ecm_client_ok :: "u32 \<Rightarrow> ecm_world \<Rightarrow> ecm_world option" where
  "ecm_client_ok client_id w =
     (if client_id = 0 then Some w
      else map_option (\<lambda>p. w\<lparr>ew_pool := p\<rparr>) (with_client client_id (\<lambda>c. c\<lparr>cl_ecm_ok := cl_ecm_ok c + 1\<rparr>) (ew_pool w)))"

text \<open>The first steps of \<open>cccam_ecm_process\<close>: count the request and record the channel for the web panel.\<close>

definition ecm_register_request :: "time_t \<Rightarrow> ecm_request \<Rightarrow> ecm_world \<Rightarrow> ecm_world option" where
  "ecm_register_request now rq w =
     (let w1 = w\<lparr>ew_counters := (ew_counters w)\<lparr>ec_total := ec_total (ew_counters w) + 1\<rparr>\<rparr> in
      if rq_client_id rq = 0 then Some w1
      else map_option (\<lambda>p. w1\<lparr>ew_pool := p\<rparr>)
        (with_client (rq_client_id rq)
          (\<lambda>c. c\<lparr>cl_cur_caid := rq_caid rq, cl_cur_sid := rq_sid rq, cl_cur_channel_at := now,
                 cl_ecm_total := cl_ecm_total c + 1\<rparr>) (ew_pool w1)))"

definition ecm_response_for :: "time_t \<Rightarrow> ecm_request \<Rightarrow> ecm_response" where
  "ecm_response_for now rq = \<lparr>rs_cw = replicate 16 0, rs_hop = 0, rs_caid = rq_caid rq, rs_provid = rq_provid rq,
     rs_sid = rq_sid rq, rs_generated_at = now, rs_found = False\<rparr>"

text \<open>The hop test that both paths make before they answer.\<close>

definition ecm_hop_blocked :: "time_t \<Rightarrow> ecm_request \<Rightarrow> u8 \<Rightarrow> ecm_world \<Rightarrow> bool \<times> ecm_world" where
  "ecm_hop_blocked now rq served_hop w =
     (case cccam_hop_control_check now (rq_caid rq) (rq_provid rq) (rq_sid rq) served_hop (rq_client_id rq) (ew_hops w) of
        (ok, hops) \<Rightarrow> (ok = 0 \<or> rq_hop rq \<noteq> 0 \<and> served_hop > rq_hop rq, w\<lparr>ew_hops := hops\<rparr>))"

text \<open>The path after a cache hit with word \<open>cw\<close> and hop \<open>source_hop\<close>.\<close>

definition ecm_serve_cached ::
  "time_t \<Rightarrow> ecm_request \<Rightarrow> u8 list \<Rightarrow> u8 \<Rightarrow> ecm_world \<Rightarrow> (int \<times> ecm_response \<times> ecm_world) option" where
  "ecm_serve_cached now rq cw source_hop w =
     (let resp = (ecm_response_for now rq)\<lparr>rs_cw := cw\<rparr>;
          served_hop = cccam_hop_control_increment_hop (ew_hops w) source_hop in
      case ecm_hop_blocked now rq served_hop w of (blocked, w1) \<Rightarrow>
        if blocked then Some (-1, resp, w1)
        else
          let w2 = w1\<lparr>ew_counters := (ew_counters w1)\<lparr>ec_hits := ec_hits (ew_counters w1) + 1\<rparr>\<rparr> in
          map_option (\<lambda>w3. (0, resp\<lparr>rs_found := True, rs_hop := served_hop\<rparr>, w3)) (ecm_client_ok (rq_client_id rq) w2))"

text \<open>The path after a reader delivered \<open>cw\<close> with hop \<open>source_hop\<close>: answer and store the word.\<close>

definition ecm_serve_fresh ::
  "bool \<Rightarrow> time_t \<Rightarrow> ecm_request \<Rightarrow> u8 list \<Rightarrow> u8 \<Rightarrow> ecm_world \<Rightarrow> (int \<times> ecm_response \<times> ecm_world) option" where
  "ecm_serve_fresh mem now rq cw source_hop w =
     (let resp = ecm_response_for now rq;
          served_hop = cccam_hop_control_increment_hop (ew_hops w) source_hop in
      case ecm_hop_blocked now rq served_hop w of (blocked, w1) \<Rightarrow>
        if blocked then Some (-1, resp, w1)
        else
          let w2 = w1\<lparr>ew_counters := (ew_counters w1)\<lparr>ec_success := ec_success (ew_counters w1) + 1\<rparr>\<rparr> in
          (case ecm_client_ok (rq_client_id rq) w2 of
             None \<Rightarrow> None
           | Some w3 \<Rightarrow>
               (case cccam_cache_add mem now (rq_caid rq) (rq_provid rq) (rq_sid rq) (Some cw) source_hop 0 (ew_cache w3) of
                  None \<Rightarrow> None
                | Some (_, c) \<Rightarrow>
                    Some (0, resp\<lparr>rs_cw := take 16 cw, rs_found := True, rs_hop := served_hop\<rparr>, w3\<lparr>ew_cache := c\<rparr>))))"

text \<open>The path after a cache miss: ask a reader.\<close>

definition ecm_serve_reader ::
  "ossl \<Rightarrow> u32 \<Rightarrow> bool \<Rightarrow> time_t \<Rightarrow> ecm_request \<Rightarrow> ecm_world \<Rightarrow> (int \<times> ecm_response \<times> ecm_world) option" where
  "ecm_serve_reader lib allowed mem now rq w =
     (case cccam_card_manager_get_cw lib (ew_engines w) allowed now (rq_caid rq) (rq_provid rq) (rq_sid rq)
             (take (unat (rq_len rq)) (rq_data rq)) (ew_cards w) (ew_hs w) (ew_env w) of
        None \<Rightarrow> None
      | Some (res, cards, hs, env) \<Rightarrow>
          let w1 = w\<lparr>ew_counters := (ew_counters w)\<lparr>ec_misses := ec_misses (ew_counters w) + 1\<rparr>,
                     ew_cards := cards, ew_hs := hs, ew_env := env\<rparr> in
          (case res of
             None \<Rightarrow> Some (-1, ecm_response_for now rq,
                       w1\<lparr>ew_counters := (ew_counters w1)\<lparr>ec_fail := ec_fail (ew_counters w1) + 1\<rparr>\<rparr>)
           | Some (cw, source_hop, reader_id) \<Rightarrow> ecm_serve_fresh mem now rq cw source_hop w1))"

definition cccam_ecm_process ::
  "ossl \<Rightarrow> u32 \<Rightarrow> bool \<Rightarrow> time_t \<Rightarrow> ecm_request \<Rightarrow> ecm_world \<Rightarrow> (int \<times> ecm_response option \<times> ecm_world) option" where
  "cccam_ecm_process lib allowed mem now rq w =
     (if \<not> ecm_is_valid rq then Some (-1, None, w)
      else (case ecm_register_request now rq w of
          None \<Rightarrow> None
        | Some w1 \<Rightarrow>
            (case cccam_cache_find True now (rq_caid rq) (rq_provid rq) (rq_sid rq) (ew_cache w1) of (rc, out, c) \<Rightarrow>
              let w2 = w1\<lparr>ew_cache := c\<rparr> in
              map_option (\<lambda>(rc, resp, w3). (rc, Some resp, w3))
                (case out of
                   Some (cw, source_hop) \<Rightarrow> ecm_serve_cached now rq cw source_hop w2
                 | None \<Rightarrow> ecm_serve_reader lib allowed mem now rq w2))))"

text \<open>
  Sending the word to the client. The \<open>write\<close> loop is one step whose outcome is the connection's next
  entry of \<open>io_sends\<close>. The session counters advance although the parameter is declared \<open>const\<close>.
\<close>

definition cccam_ecm_send_cw ::
  "ossl \<Rightarrow> u8 list \<Rightarrow> int \<Rightarrow> crypto_ctx \<Rightarrow> ecm_response \<Rightarrow> remote_io \<Rightarrow> int \<times> crypto_ctx \<times> remote_io" where
  "cccam_ecm_send_cw lib junk client_fd cx resp io =
     (if client_fd < 0 then (-1, cx, io)
      else if \<not> rs_found resp then (-1, cx, io)
      else
        let m = \<lparr>cw_ecm_time = word_of_int (rs_generated_at resp), cw_cw = take 16 (rs_cw resp), cw_hop = rs_hop resp,
                 cw_caid = rs_caid resp, cw_provid = rs_provid resp, cw_sid = rs_sid resp\<rparr> in
        (case cccam_protocol_build_cw lib 1024 junk m (Some cx) of
           None \<Rightarrow> (-1, cx, io)
         | Some (msg, cx1) \<Rightarrow>
             let c = (case cx1 of None \<Rightarrow> cx | Some c \<Rightarrow> c) in
             (case remote_send msg io of (ok, io1) \<Rightarrow> if ok then (0, c, io1) else (-1, c, io1))))"

definition cccam_ecm_get_stats :: "ecm_world \<Rightarrow> u32 \<times> u32 \<times> u32 \<times> u32 \<times> u32" where
  "cccam_ecm_get_stats w = (let c = ew_counters w in (ec_total c, ec_hits c, ec_misses c, ec_success c, ec_fail c))"


subsection \<open>Invariant of the world\<close>

abbreviation pool_ok :: "nat set \<Rightarrow> nat multiset \<Rightarrow> pool \<Rightarrow> bool" where
  "pool_ok own held p \<equiv> pool_reachable \<lparr>pw_pool = p, pw_owners = own, pw_held = held\<rparr>"

definition ecm_inv :: "nat set \<Rightarrow> nat multiset \<Rightarrow> ecm_world \<Rightarrow> bool" where
  "ecm_inv own held w \<longleftrightarrow> cache_inv (ew_cache w) \<and> hop_inv (ew_hops w) \<and> pool_ok own held (ew_pool w)"

lemma with_client_ok:
  assumes "pool_ok own held p" and "\<And>c. cl_refs (f c) = cl_refs c \<and> cl_zombie (f c) = cl_zombie c"
  shows "\<exists>p'. with_client i f p = Some p' \<and> pool_ok own held p'"
  using with_client_total [OF assms] by simp

lemma register_request:
  assumes "pool_ok own held (ew_pool w)"
  shows "\<exists>p. ecm_register_request now rq w
      = Some (w\<lparr>ew_counters := (ew_counters w)\<lparr>ec_total := ec_total (ew_counters w) + 1\<rparr>, ew_pool := p\<rparr>)
    \<and> pool_ok own held p"
proof (cases "rq_client_id rq = 0")
  case True
  with assms show ?thesis by (intro exI [of _ "ew_pool w"]) (simp add: ecm_register_request_def)
next
  case False
  from with_client_ok [OF assms, of "\<lambda>c. c\<lparr>cl_cur_caid := rq_caid rq, cl_cur_sid := rq_sid rq, cl_cur_channel_at := now,
      cl_ecm_total := cl_ecm_total c + 1\<rparr>" "rq_client_id rq"] False
  show ?thesis by (auto simp: ecm_register_request_def)
qed

lemma client_ok:
  assumes "pool_ok own held (ew_pool w)"
  shows "\<exists>p. ecm_client_ok i w = Some (w\<lparr>ew_pool := p\<rparr>) \<and> pool_ok own held p"
proof (cases "i = 0")
  case True
  with assms show ?thesis by (intro exI [of _ "ew_pool w"]) (simp add: ecm_client_ok_def)
next
  case False
  from with_client_ok [OF assms, of "\<lambda>c. c\<lparr>cl_ecm_ok := cl_ecm_ok c + 1\<rparr>" i] False
  show ?thesis by (auto simp: ecm_client_ok_def)
qed

text \<open>The incremented hop never exceeds the global limit, so only the limit of the client can block.\<close>

definition client_blocks :: "ecm_request \<Rightarrow> u8 \<Rightarrow> bool" where
  "client_blocks rq served_hop \<longleftrightarrow> rq_hop rq \<noteq> 0 \<and> rq_hop rq < served_hop"

lemma served_hop_le: "cccam_hop_control_increment_hop st h \<le> hc_max_hops st"
  by (simp add: cccam_hop_control_increment_hop_def Let_def not_less)

lemma hop_blocked:
  assumes "hop_inv (ew_hops w)" and "served_hop = cccam_hop_control_increment_hop (ew_hops w) h"
  shows "\<exists>hops. ecm_hop_blocked now rq served_hop w = (client_blocks rq served_hop, w\<lparr>ew_hops := hops\<rparr>) \<and> hop_inv hops
    \<and> hc_max_hops hops = hc_max_hops (ew_hops w)"
proof -
  let ?c = "cccam_hop_control_check now (rq_caid rq) (rq_provid rq) (rq_sid rq) served_hop (rq_client_id rq) (ew_hops w)"
  have "fst ?c = 1" using served_hop_le [of "ew_hops w" h] by (simp add: hop_check_blocks_result assms(2) not_less)
  moreover have "hop_inv (snd ?c)" by (rule hop_check_inv [OF assms(1)])
  moreover have "hc_max_hops (snd ?c) = hc_max_hops (ew_hops w)"
    by (simp add: cccam_hop_control_check_def Let_def)
  ultimately show ?thesis
    by (cases ?c) (auto simp: ecm_hop_blocked_def client_blocks_def)
qed

text \<open>What the two paths return, in closed form.\<close>

lemma serve_cached:
  assumes "ecm_inv own held w" and "served = cccam_hop_control_increment_hop (ew_hops w) h"
  shows "\<exists>w'. ecm_serve_cached now rq cw h w = Some
      (if client_blocks rq served then (-1, (ecm_response_for now rq)\<lparr>rs_cw := cw\<rparr>, w')
       else (0, (ecm_response_for now rq)\<lparr>rs_cw := cw, rs_found := True, rs_hop := served\<rparr>, w')) \<and>
    ecm_inv own held w' \<and> ew_cards w' = ew_cards w \<and> ew_env w' = ew_env w \<and> ew_cache w' = ew_cache w \<and>
    hc_max_hops (ew_hops w') = hc_max_hops (ew_hops w) \<and>
    ew_counters w' = (if client_blocks rq served then ew_counters w
      else (ew_counters w)\<lparr>ec_hits := ec_hits (ew_counters w) + 1\<rparr>)"
proof -
  from assms(1) have i: "cache_inv (ew_cache w)" "hop_inv (ew_hops w)" "pool_ok own held (ew_pool w)"
    by (simp_all add: ecm_inv_def)
  from hop_blocked [OF i(2) assms(2), of now rq] obtain hops where hops:
    "ecm_hop_blocked now rq served w = (client_blocks rq served, w\<lparr>ew_hops := hops\<rparr>)" "hop_inv hops"
    "hc_max_hops hops = hc_max_hops (ew_hops w)" by blast
  show ?thesis
  proof (cases "client_blocks rq served")
    case True
    with hops i show ?thesis
      by (intro exI [of _ "w\<lparr>ew_hops := hops\<rparr>"]) (simp add: ecm_serve_cached_def Let_def ecm_inv_def flip: assms(2))
  next
    case False
    let ?w = "w\<lparr>ew_hops := hops, ew_counters := (ew_counters w)\<lparr>ec_hits := ec_hits (ew_counters w) + 1\<rparr>\<rparr>"
    obtain p where p: "ecm_client_ok (rq_client_id rq) ?w = Some (?w\<lparr>ew_pool := p\<rparr>)" "pool_ok own held p"
      using client_ok [of ?w own held] i(3) by auto
    with hops i False show ?thesis
      by (intro exI [of _ "?w\<lparr>ew_pool := p\<rparr>"]) (simp add: ecm_serve_cached_def Let_def ecm_inv_def flip: assms(2))
  qed
qed

lemma serve_fresh:
  assumes "ecm_inv own held w" and "served = cccam_hop_control_increment_hop (ew_hops w) h"
  shows "\<exists>w'. ecm_serve_fresh mem now rq cw h w = Some
      (if client_blocks rq served then (-1, ecm_response_for now rq, w')
       else (0, (ecm_response_for now rq)\<lparr>rs_cw := take 16 cw, rs_found := True, rs_hop := served\<rparr>, w')) \<and>
    ecm_inv own held w' \<and> hc_max_hops (ew_hops w') = hc_max_hops (ew_hops w) \<and>
    (if client_blocks rq served then ew_counters w' = ew_counters w \<and> ew_cache w' = ew_cache w
     else ew_counters w' = (ew_counters w)\<lparr>ec_success := ec_success (ew_counters w) + 1\<rparr> \<and>
       (\<exists>n. cccam_cache_add mem now (rq_caid rq) (rq_provid rq) (rq_sid rq) (Some cw) h 0 (ew_cache w) = Some (n, ew_cache w')))"
proof -
  from assms(1) have i: "cache_inv (ew_cache w)" "hop_inv (ew_hops w)" "pool_ok own held (ew_pool w)"
    by (simp_all add: ecm_inv_def)
  from hop_blocked [OF i(2) assms(2), of now rq] obtain hops where hops:
    "ecm_hop_blocked now rq served w = (client_blocks rq served, w\<lparr>ew_hops := hops\<rparr>)" "hop_inv hops"
    "hc_max_hops hops = hc_max_hops (ew_hops w)" by blast
  show ?thesis
  proof (cases "client_blocks rq served")
    case True
    with hops i show ?thesis
      by (intro exI [of _ "w\<lparr>ew_hops := hops\<rparr>"]) (simp add: ecm_serve_fresh_def Let_def ecm_inv_def flip: assms(2))
  next
    case False
    let ?w = "w\<lparr>ew_hops := hops, ew_counters := (ew_counters w)\<lparr>ec_success := ec_success (ew_counters w) + 1\<rparr>\<rparr>"
    obtain p where p: "ecm_client_ok (rq_client_id rq) ?w = Some (?w\<lparr>ew_pool := p\<rparr>)" "pool_ok own held p"
      using client_ok [of ?w own held] i(3) by auto
    obtain n c where c: "cccam_cache_add mem now (rq_caid rq) (rq_provid rq) (rq_sid rq) (Some cw) h 0 (ew_cache w) = Some (n, c)"
      "cache_inv c"
      by (rule cache_add_result [OF i(1), of mem now "rq_caid rq" "rq_provid rq" "rq_sid rq" "Some cw" h 0]) blast
    with hops i False p show ?thesis
      by (intro exI [of _ "(?w\<lparr>ew_pool := p\<rparr>)\<lparr>ew_cache := c\<rparr>"])
        (simp add: ecm_serve_fresh_def Let_def ecm_inv_def flip: assms(2))
  qed
qed

text \<open>The reader's answer, with the words that were read from the card manager.\<close>

lemma serve_reader:
  assumes inv: "ecm_inv own held w"
    and get: "cccam_card_manager_get_cw lib (ew_engines w) al now (rq_caid rq) (rq_provid rq) (rq_sid rq)
             (take (unat (rq_len rq)) (rq_data rq)) (ew_cards w) (ew_hs w) (ew_env w) = Some (res, cards, hs, env)"
  shows "case res of
       None \<Rightarrow> (\<exists>w'. ecm_serve_reader lib al mem now rq w = Some (-1, ecm_response_for now rq, w') \<and> ecm_inv own held w' \<and>
         hc_max_hops (ew_hops w') = hc_max_hops (ew_hops w) \<and> ew_cache w' = ew_cache w \<and>
         ew_counters w' = (ew_counters w)\<lparr>ec_misses := ec_misses (ew_counters w) + 1, ec_fail := ec_fail (ew_counters w) + 1\<rparr>)
     | Some (cw, h, i) \<Rightarrow> (\<exists>w1. ecm_serve_reader lib al mem now rq w = ecm_serve_fresh mem now rq cw h w1 \<and> ecm_inv own held w1 \<and>
         ew_hops w1 = ew_hops w \<and> ew_cache w1 = ew_cache w \<and>
         ew_counters w1 = (ew_counters w)\<lparr>ec_misses := ec_misses (ew_counters w) + 1\<rparr>)"
  using inv get by (cases res) (auto simp: ecm_serve_reader_def Let_def ecm_inv_def)

lemma process_start:
  assumes inv: "ecm_inv own held w" and valid: "ecm_is_valid rq"
    and find: "cccam_cache_find True now (rq_caid rq) (rq_provid rq) (rq_sid rq) (ew_cache w) = (n, out, c)"
  shows "\<exists>w2. cccam_ecm_process lib al mem now rq w = map_option (\<lambda>(rc, resp, w3). (rc, Some resp, w3))
      (case out of Some (cw, h) \<Rightarrow> ecm_serve_cached now rq cw h w2 | None \<Rightarrow> ecm_serve_reader lib al mem now rq w2) \<and>
    ecm_inv own held w2 \<and> ew_cache w2 = c \<and> ew_hops w2 = ew_hops w \<and> ew_cards w2 = ew_cards w \<and> ew_hs w2 = ew_hs w \<and>
    ew_env w2 = ew_env w \<and> ew_engines w2 = ew_engines w \<and>
    ew_counters w2 = (ew_counters w)\<lparr>ec_total := ec_total (ew_counters w) + 1\<rparr>"
proof -
  from inv have i: "cache_inv (ew_cache w)" "hop_inv (ew_hops w)" "pool_ok own held (ew_pool w)"
    by (simp_all add: ecm_inv_def)
  have c: "cache_inv c" using cache_find_keeps(1) [OF i(1), of True now "rq_caid rq" "rq_provid rq" "rq_sid rq"] find by simp
  obtain p where p: "ecm_register_request now rq w
      = Some (w\<lparr>ew_counters := (ew_counters w)\<lparr>ec_total := ec_total (ew_counters w) + 1\<rparr>, ew_pool := p\<rparr>)" "pool_ok own held p"
    using register_request [OF i(3)] by blast
  with i c find valid show ?thesis
    by (intro exI [of _ "w\<lparr>ew_counters := (ew_counters w)\<lparr>ec_total := ec_total (ew_counters w) + 1\<rparr>, ew_pool := p, ew_cache := c\<rparr>"])
      (simp add: cccam_ecm_process_def ecm_inv_def Let_def)
qed

text \<open>The handler returns unless the emulator does not.\<close>

lemma process_None:
  assumes inv: "ecm_inv own held w" and none: "cccam_ecm_process lib al mem now rq w = None"
  shows "emu_cw (ew_engines w) now (rq_caid rq) (rq_provid rq) (rq_sid rq) (take (unat (rq_len rq)) (rq_data rq)) = None"
proof -
  have valid: "ecm_is_valid rq" using none by (rule contrapos_pp) (simp add: cccam_ecm_process_def)
  obtain n out c where find: "cccam_cache_find True now (rq_caid rq) (rq_provid rq) (rq_sid rq) (ew_cache w) = (n, out, c)"
    by (metis prod_cases3)
  from process_start [OF inv valid find, of lib al mem] none obtain w2 where w2:
    "(case out of Some (cw, h) \<Rightarrow> ecm_serve_cached now rq cw h w2 | None \<Rightarrow> ecm_serve_reader lib al mem now rq w2) = None"
    "ecm_inv own held w2" "ew_engines w2 = ew_engines w" by auto
  have out: "out = None"
  proof (cases out)
    case (Some x)
    with serve_cached [OF w2(2) refl, of now rq "fst x" "snd x"] w2(1) show ?thesis by (cases x) auto
  qed
  show ?thesis
  proof (cases "cccam_card_manager_get_cw lib (ew_engines w2) al now (rq_caid rq) (rq_provid rq) (rq_sid rq)
             (take (unat (rq_len rq)) (rq_data rq)) (ew_cards w2) (ew_hs w2) (ew_env w2)")
    case None
    from get_cw_None [OF None] w2(3) show ?thesis by simp
  next
    case (Some y)
    obtain res cards hs env where y: "y = (res, cards, hs, env)" by (metis prod_cases4)
    note reader = serve_reader [OF w2(2) Some [unfolded y], of mem]
    have False
    proof (cases res)
      case res: None
      with reader w2(1) out show False by auto
    next
      case res: (Some z)
      obtain cw h i where z: "z = (cw, h, i)" by (cases z) auto
      from reader res z obtain w3 where w3: "ecm_serve_reader lib al mem now rq w2 = ecm_serve_fresh mem now rq cw h w3"
        "ecm_inv own held w3" by auto
      from serve_fresh [OF w3(2) refl, of mem now rq cw h] w3(1) w2(1) out show False by auto
    qed
    then show ?thesis ..
  qed
qed

text \<open>Everything about one valid request that returns, as far as it does not depend on the words in the cache.\<close>

lemma process_valid:
  assumes inv: "ecm_inv own held w" and valid: "ecm_is_valid rq"
    and find: "cccam_cache_find True now (rq_caid rq) (rq_provid rq) (rq_sid rq) (ew_cache w) = (n, out, c)"
    and ans: "cccam_ecm_process lib al mem now rq w \<noteq> None"
  shows "\<exists>rc resp w'. cccam_ecm_process lib al mem now rq w = Some (rc, Some resp, w') \<and> ecm_inv own held w' \<and>
    rc = (if rs_found resp then 0 else -1) \<and> hc_max_hops (ew_hops w') = hc_max_hops (ew_hops w) \<and>
    (rs_found resp \<longrightarrow> rs_hop resp \<le> hc_max_hops (ew_hops w) \<and> \<not> client_blocks rq (rs_hop resp)) \<and>
    ec_total (ew_counters w') = ec_total (ew_counters w) + 1 \<and>
    ec_hits (ew_counters w') = ec_hits (ew_counters w) + (if rs_found resp \<and> out \<noteq> None then 1 else 0) \<and>
    ec_misses (ew_counters w') = ec_misses (ew_counters w) + (if out = None then 1 else 0) \<and>
    ec_success (ew_counters w') = ec_success (ew_counters w) + (if rs_found resp \<and> out = None then 1 else 0)"
proof -
  obtain w2 where w2: "cccam_ecm_process lib al mem now rq w = map_option (\<lambda>(rc, resp, w3). (rc, Some resp, w3))
      (case out of Some (cw, h) \<Rightarrow> ecm_serve_cached now rq cw h w2 | None \<Rightarrow> ecm_serve_reader lib al mem now rq w2)"
    "ecm_inv own held w2" "ew_hops w2 = ew_hops w"
    "ew_counters w2 = (ew_counters w)\<lparr>ec_total := ec_total (ew_counters w) + 1\<rparr>"
    using process_start [OF inv valid find] by blast
  let ?served = "\<lambda>h. cccam_hop_control_increment_hop (ew_hops w) h"
  show ?thesis
  proof (cases out)
    case (Some x)
    obtain cw h where x: "x = (cw, h)" by fastforce
    let ?b = "client_blocks rq (?served h)"
    let ?resp = "if ?b then (ecm_response_for now rq)\<lparr>rs_cw := cw\<rparr>
      else (ecm_response_for now rq)\<lparr>rs_cw := cw, rs_found := True, rs_hop := ?served h\<rparr>"
    from serve_cached [OF w2(2) refl, of now rq cw h] obtain w' where
      "ecm_serve_cached now rq cw h w2 = Some (if ?b then -1 else 0, ?resp, w')" "ecm_inv own held w'"
      "hc_max_hops (ew_hops w') = hc_max_hops (ew_hops w)"
      "ew_counters w' = (if ?b then ew_counters w2 else (ew_counters w2)\<lparr>ec_hits := ec_hits (ew_counters w2) + 1\<rparr>)"
      by (auto simp: w2(3))
    with Some x w2 served_hop_le [of "ew_hops w" h] show ?thesis
      by (intro exI [of _ "if ?b then -1 else 0"] exI [of _ ?resp] exI [of _ w']) (simp add: ecm_response_for_def)
  next
    case None
    from ans w2(1) None obtain res cards hs env where
      get: "cccam_card_manager_get_cw lib (ew_engines w2) al now (rq_caid rq) (rq_provid rq) (rq_sid rq)
             (take (unat (rq_len rq)) (rq_data rq)) (ew_cards w2) (ew_hs w2) (ew_env w2) = Some (res, cards, hs, env)"
      by (auto simp: ecm_serve_reader_def split: option.splits)
    note reader = serve_reader [OF w2(2) get, of mem]
    show ?thesis
    proof (cases res)
      case res: None
      with reader obtain w' where "ecm_serve_reader lib al mem now rq w2 = Some (-1, ecm_response_for now rq, w')"
        "ecm_inv own held w'" "hc_max_hops (ew_hops w') = hc_max_hops (ew_hops w2)"
        "ew_counters w' = (ew_counters w2)\<lparr>ec_misses := ec_misses (ew_counters w2) + 1, ec_fail := ec_fail (ew_counters w2) + 1\<rparr>"
        by auto
      with None w2 show ?thesis
        by (intro exI [of _ "-1"] exI [of _ "ecm_response_for now rq"] exI [of _ w']) (simp add: ecm_response_for_def)
    next
      case res: (Some y)
      obtain cw h i where y: "y = (cw, h, i)" by (cases y) auto
      from reader res y obtain w3 where w3: "ecm_serve_reader lib al mem now rq w2 = ecm_serve_fresh mem now rq cw h w3"
        "ecm_inv own held w3" "ew_hops w3 = ew_hops w2"
        "ew_counters w3 = (ew_counters w2)\<lparr>ec_misses := ec_misses (ew_counters w2) + 1\<rparr>" by auto
      let ?b = "client_blocks rq (?served h)"
      let ?resp = "if ?b then ecm_response_for now rq
        else (ecm_response_for now rq)\<lparr>rs_cw := take 16 cw, rs_found := True, rs_hop := ?served h\<rparr>"
      from serve_fresh [OF w3(2) refl, of mem now rq cw h] obtain w' where
        "ecm_serve_fresh mem now rq cw h w3 = Some (if ?b then -1 else 0, ?resp, w')" "ecm_inv own held w'"
        "hc_max_hops (ew_hops w') = hc_max_hops (ew_hops w)"
        "ew_counters w' = (if ?b then ew_counters w3 else (ew_counters w3)\<lparr>ec_success := ec_success (ew_counters w3) + 1\<rparr>)"
        by (auto simp: w2(3) w3(3))
      with w3 None w2 served_hop_le [of "ew_hops w" h] show ?thesis
        by (intro exI [of _ "if ?b then -1 else 0"] exI [of _ ?resp] exI [of _ w']) (simp add: ecm_response_for_def)
    qed
  qed
qed

lemma process_invalid: "\<not> ecm_is_valid rq \<Longrightarrow> cccam_ecm_process lib al mem now rq w = Some (-1, None, w)"
  by (simp add: cccam_ecm_process_def)

text \<open>A hit in the cache: the answer is the stored word, and no reader is asked.\<close>

lemma process_hit:
  assumes inv: "ecm_inv own held w" and valid: "ecm_is_valid rq" and en: "cache_enabled (ew_cache w)"
    and hit: "cache_view (ew_cache w) (rq_caid rq, rq_provid rq, rq_sid rq) = Some (cw, h, x)" "now \<le> x"
    and ok: "\<not> client_blocks rq (cccam_hop_control_increment_hop (ew_hops w) h)"
  shows "\<exists>w'. cccam_ecm_process lib al mem now rq w
      = Some (0, Some ((ecm_response_for now rq)\<lparr>rs_cw := cw, rs_found := True, rs_hop := cccam_hop_control_increment_hop (ew_hops w) h\<rparr>), w')
    \<and> ew_cards w' = ew_cards w \<and> ew_env w' = ew_env w"
proof -
  obtain n out c where find: "cccam_cache_find True now (rq_caid rq) (rq_provid rq) (rq_sid rq) (ew_cache w) = (n, out, c)"
    by (metis prod_cases3)
  with cache_find_lookup(1) [OF en, of now "rq_caid rq" "rq_provid rq" "rq_sid rq"] hit have "out = Some (cw, h)"
    by (simp add: cache_lookup_def)
  with process_start [OF inv valid find, of lib al mem] obtain w2 where w2:
    "cccam_ecm_process lib al mem now rq w = map_option (\<lambda>(rc, resp, w3). (rc, Some resp, w3)) (ecm_serve_cached now rq cw h w2)"
    "ecm_inv own held w2" "ew_hops w2 = ew_hops w" "ew_cards w2 = ew_cards w" "ew_env w2 = ew_env w" by auto
  from serve_cached [OF w2(2) refl, of now rq cw h] w2 ok show ?thesis by auto
qed

subsection \<open>The handler among the other threads\<close>

text \<open>
  The operations of the handler, and \<open>EPool\<close>: any step of the client pool that another thread takes
  between two of them. The state carries the owners and the held references.
\<close>

datatype ecm_op =
    EProcess bool time_t ecm_request
  | EForward time_t u16 u16 "u8 list"
  | EClean time_t
  | EInit
  | EPool pool_world

type_synonym ecm_state = "nat set \<times> nat multiset \<times> ecm_world"

fun ecm_step ::
  "(time_t \<Rightarrow> u16 \<Rightarrow> u8 list \<Rightarrow> engines \<Rightarrow> engines option) \<Rightarrow> ossl \<Rightarrow> u32 \<Rightarrow> ecm_op \<Rightarrow> ecm_state \<Rightarrow> ecm_state option" where
  "ecm_step emu lib al (EProcess mem now rq) (own, held, w) =
     map_option (\<lambda>(rc, resp, w'). (own, held, w')) (cccam_ecm_process lib al mem now rq w)"
| "ecm_step emu lib al (EForward now c p emm) (own, held, w) =
     map_option (\<lambda>(n, w'). (own, held, w')) (cccam_ecm_forward_emm emu lib al now c p emm w)"
| "ecm_step emu lib al (EClean now) (own, held, w) = Some (own, held, snd (cccam_ecm_clean_expired_cache now w))"
| "ecm_step emu lib al EInit (own, held, w) = Some (own, held, cccam_ecm_init w)"
| "ecm_step emu lib al (EPool v) (own, held, w) =
     (if pool_step \<lparr>pw_pool = ew_pool w, pw_owners = own, pw_held = held\<rparr> v
      then Some (pw_owners v, pw_held v, w\<lparr>ew_pool := pw_pool v\<rparr>) else Some (own, held, w))"

text \<open>Where the emulator leaves the handler: at a request or an EMM that it does not answer with the keys it then has.\<close>

fun ecm_unanswered :: "(time_t \<Rightarrow> u16 \<Rightarrow> u8 list \<Rightarrow> engines \<Rightarrow> engines option) \<Rightarrow> ecm_op \<Rightarrow> ecm_state \<Rightarrow> bool" where
  "ecm_unanswered emu (EProcess mem now rq) (own, held, w) \<longleftrightarrow>
     emu_cw (ew_engines w) now (rq_caid rq) (rq_provid rq) (rq_sid rq) (take (unat (rq_len rq)) (rq_data rq)) = None"
| "ecm_unanswered emu (EForward now c p emm) (own, held, w) \<longleftrightarrow> emu now c emm (ew_engines w) = None"
| "ecm_unanswered emu _ _ \<longleftrightarrow> False"

definition ecm_world_initial :: "engines \<Rightarrow> remote_env \<Rightarrow> ecm_world" where
  "ecm_world_initial eng env = \<lparr>ew_counters = ecm_counters_zero, ew_cache = cache_initial, ew_hops = hop_control_initial,
     ew_pool = pool_initial, ew_cards = card_manager_initial, ew_hs = handshake_initial, ew_env = env, ew_engines = eng\<rparr>"

lemma ecm_inv_initial: "ecm_inv {} {#} (ecm_world_initial eng env)"
  by (simp add: ecm_inv_def ecm_world_initial_def cache_inv_initial pool_reachable.Start hop_inv_def hop_control_initial_def)

lemma process_keeps:
  assumes "ecm_inv own held w"
    and "cccam_ecm_process lib al mem now rq w \<noteq> None"
  shows "\<exists>rc resp w'. cccam_ecm_process lib al mem now rq w = Some (rc, resp, w') \<and> ecm_inv own held w'"
proof (cases "ecm_is_valid rq")
  case True
  obtain n out c where "cccam_cache_find True now (rq_caid rq) (rq_provid rq) (rq_sid rq) (ew_cache w) = (n, out, c)"
    by (metis prod_cases3)
  from process_valid [OF assms(1) True this assms(2)] show ?thesis by blast
qed (use assms in \<open>simp add: process_invalid\<close>)

lemma ecm_step_progress:
  assumes "ecm_inv own held w"
  shows "(\<exists>own' held' w'. ecm_step emu lib al x (own, held, w) = Some (own', held', w') \<and> ecm_inv own' held' w') \<or>
    ecm_step emu lib al x (own, held, w) = None \<and> ecm_unanswered emu x (own, held, w)"
proof (cases x)
  case (EProcess mem now rq)
  show ?thesis
  proof (cases "cccam_ecm_process lib al mem now rq w")
    case None
    from process_None [OF assms None] show ?thesis by (simp add: EProcess None)
  next
    case (Some y)
    with process_keeps [OF assms, of lib al mem now rq] show ?thesis by (auto simp: EProcess)
  qed
next
  case (EForward now c p emm)
  from assms show ?thesis
    by (auto simp: EForward cccam_ecm_forward_emm_def ecm_inv_def Let_def split: prod.splits option.splits)
next
  case (EClean now)
  have "ecm_inv own held (snd (cccam_ecm_clean_expired_cache now w))"
    using assms cache_clean_keeps(1) [of "ew_cache w" now]
    by (cases "cccam_cache_clean_expired now (ew_cache w)") (simp add: cccam_ecm_clean_expired_cache_def ecm_inv_def)
  then show ?thesis by (simp add: EClean)
next
  case EInit
  with assms show ?thesis by (simp add: cccam_ecm_init_def ecm_inv_def)
next
  case (EPool v)
  from assms have r: "pool_ok own held (ew_pool w)" by (simp add: ecm_inv_def)
  have "ecm_inv (pw_owners v) (pw_held v) (w\<lparr>ew_pool := pw_pool v\<rparr>)"
    if "pool_step \<lparr>pw_pool = ew_pool w, pw_owners = own, pw_held = held\<rparr> v"
    using assms pool_reachable.Step [OF r that] by (cases v) (simp add: ecm_inv_def)
  with assms show ?thesis by (simp add: EPool)
qed

interpretation ecm_sys: guarded_system "({}, {#}, ecm_world_initial eng env)" "ecm_step emu lib al" "ecm_unanswered emu"
  "\<lambda>s :: ecm_state. case s of (own, held, w) \<Rightarrow> ecm_inv own held w" for eng env emu lib al
proof
  show "case ({}, {#}, ecm_world_initial eng env) of (own, held, w) \<Rightarrow> ecm_inv own held w"
    by (simp add: ecm_inv_initial)
next
  fix s :: ecm_state and x assume "case s of (own, held, w) \<Rightarrow> ecm_inv own held w"
  then show "(\<exists>t. ecm_step emu lib al x s = Some t \<and> (case t of (own, held, w) \<Rightarrow> ecm_inv own held w)) \<or>
      ecm_step emu lib al x s = None \<and> ecm_unanswered emu x s"
    using ecm_step_progress by (cases s) fastforce
qed

subsection \<open>Properties\<close>

text \<open>
  The handler returns wherever the key emulator does. Take any sequence of requests, EMMs and cache sweeps,
  interleaved with any steps of other threads on the client pool, from the initial state. Either it runs through, and
  then the cache is within 1024 entries with one valid entry per channel and the pool keeps its reference discipline; or
  a first part of it runs through to such a state, and the next operation is a request or an EMM for which the emulator,
  with the keys it then has, does not return. No other loop hangs and no freed client is touched.
\<close>

theorem ecm_run_total:
  "case run_ops (ecm_step emu lib al) ops ({}, {#}, ecm_world_initial eng env) of
     Some (own, held, w) \<Rightarrow> cache_inv (ew_cache w) \<and> hop_inv (ew_hops w) \<and>
       pool_reachable \<lparr>pw_pool = ew_pool w, pw_owners = own, pw_held = held\<rparr>
   | None \<Rightarrow> \<exists>pre x post own held w. ops = pre @ x # post \<and>
       run_ops (ecm_step emu lib al) pre ({}, {#}, ecm_world_initial eng env) = Some (own, held, w) \<and>
       cache_inv (ew_cache w) \<and> hop_inv (ew_hops w) \<and>
       pool_reachable \<lparr>pw_pool = ew_pool w, pw_owners = own, pw_held = held\<rparr> \<and>
       ecm_step emu lib al x (own, held, w) = None \<and> ecm_unanswered emu x (own, held, w)"
proof (cases "run_ops (ecm_step emu lib al) ops ({}, {#}, ecm_world_initial eng env)")
  case None
  with ecm_sys.run_or_stuck [OF ecm_sys.invar_first [of eng env], where emu = emu and lib = lib and al = al and xs = ops]
  obtain pre x post own held w where "ops = pre @ x # post"
    "run_ops (ecm_step emu lib al) pre ({}, {#}, ecm_world_initial eng env) = Some (own, held, w)" "ecm_inv own held w"
    "ecm_step emu lib al x (own, held, w) = None" "ecm_unanswered emu x (own, held, w)" by auto
  then show ?thesis unfolding None option.case ecm_inv_def by blast
qed (use ecm_sys.run_keeps [OF _ ecm_sys.invar_first] in \<open>fastforce simp: ecm_inv_def\<close>)

text \<open>
  C26: the hop limits hold and the counters add up. A valid request returns 0 exactly when it delivers a
  word, whose hop is then within the global limit and within the client's (0 is no limit); it is counted
  once in the total, and once in hits or reader successes exactly when it delivers. A word in the cache
  that the client's limit blocks is counted neither as a hit nor as a miss.
\<close>

theorem ecm_process_accounting:
  assumes "ecm_inv own held w" and "ecm_is_valid rq"
    and "cccam_ecm_process lib al mem now rq w = Some (rc, resp, w')"
    and "fst (snd (cccam_cache_find True now (rq_caid rq) (rq_provid rq) (rq_sid rq) (ew_cache w))) = out"
  shows "(\<exists>r. resp = Some r \<and> (rs_found r \<longleftrightarrow> rc = 0) \<and>
      (rc = 0 \<longrightarrow> rs_hop r \<le> hc_max_hops (ew_hops w) \<and> (rq_hop rq = 0 \<or> rs_hop r \<le> rq_hop rq))) \<and>
    ec_total (ew_counters w') = ec_total (ew_counters w) + 1 \<and>
    ec_hits (ew_counters w') + ec_success (ew_counters w')
      = ec_hits (ew_counters w) + ec_success (ew_counters w) + (if rc = 0 then 1 else 0) \<and>
    ec_hits (ew_counters w') + ec_misses (ew_counters w')
      = ec_hits (ew_counters w) + ec_misses (ew_counters w) + (if rc \<noteq> 0 \<and> out \<noteq> None then 0 else 1)"
proof -
  obtain n c where find: "cccam_cache_find True now (rq_caid rq) (rq_provid rq) (rq_sid rq) (ew_cache w) = (n, out, c)"
    using assms(4) by (metis prod.collapse)
  from process_valid [OF assms(1,2) find, of lib al mem] assms(3,4) find obtain r where
    r: "resp = Some r" "rc = (if rs_found r then 0 else -1)"
      "rs_found r \<longrightarrow> rs_hop r \<le> hc_max_hops (ew_hops w) \<and> \<not> client_blocks rq (rs_hop r)"
      "ec_total (ew_counters w') = ec_total (ew_counters w) + 1"
      "ec_hits (ew_counters w') = ec_hits (ew_counters w) + (if rs_found r \<and> out \<noteq> None then 1 else 0)"
      "ec_misses (ew_counters w') = ec_misses (ew_counters w) + (if out = None then 1 else 0)"
      "ec_success (ew_counters w') = ec_success (ew_counters w) + (if rs_found r \<and> out = None then 1 else 0)"
    by auto
  show ?thesis
    by (cases "rs_found r"; cases "out = None") (use r in \<open>auto simp: client_blocks_def not_less\<close>)
qed

text \<open>A server with one local card that answers every ECM with the same word.\<close>

definition demo_engines :: engines where
  "demo_engines = \<lparr>smartcard_ecm = \<lambda>_ _ _ _. Some (replicate 16 7), emu_cw = \<lambda>_ _ _ _ _. Some None,
     emu_keys = (emu_store_initial, \<lambda>_. None)\<rparr>"

definition demo_env :: remote_env where
  "demo_env = \<lparr>re_io = \<lambda>_. \<lparr>io_connect = None, io_rx = [], io_sends = [], io_tx = []\<rparr>, re_seed = \<lambda>_. [], re_junk = []\<rparr>"

definition demo_world :: ecm_world where
  "demo_world = (ecm_world_initial demo_engines demo_env)
     \<lparr>ew_cards := cccam_card_manager_add_reader (new_reader ''card'') card_manager_initial\<rparr>"

definition demo_request :: "u8 \<Rightarrow> ecm_request" where
  "demo_request limit = \<lparr>rq_caid = 0x0500, rq_provid = 0, rq_sid = 9, rq_data = replicate 256 1, rq_len = 20,
     rq_client_id = 0, rq_hop = limit\<rparr>"

lemma demo_inv: "ecm_inv {} {#} demo_world"
  using ecm_inv_initial [of demo_engines demo_env] by (simp add: ecm_inv_def demo_world_def)

lemma demo_valid: "ecm_is_valid (demo_request l)"
  by (simp add: ecm_is_valid_def demo_request_def ECM_MAX_SIZE_def)

theorem ecm_process_accounting_witness:
  "\<exists>rc resp w'. cccam_ecm_process toy_ossl 0 True 100 (demo_request 2) demo_world = Some (rc, resp, w') \<and>
    ec_total (ew_counters w') = ec_total (ew_counters demo_world) + 1"
proof -
  have "(case cccam_ecm_process toy_ossl 0 True 100 (demo_request 2) demo_world of None \<Rightarrow> False | Some _ \<Rightarrow> True)" by code_simp
  then obtain rc resp w' where p: "cccam_ecm_process toy_ossl 0 True 100 (demo_request 2) demo_world = Some (rc, resp, w')"
    by (auto split: option.splits)
  with ecm_process_accounting [OF demo_inv demo_valid p refl] show ?thesis by blast
qed

text \<open>
  C27: a word that a reader delivered is served again from the cache. When the first request misses the
  cache and succeeds, a second valid request for the channel within the cache timeout, by any client
  whose limit allows the hop, gets the same word at the same hop without any reader being asked.
\<close>

theorem ecm_served_from_cache:
  assumes "ecm_inv own held w" and "cache_enabled (ew_cache w)" and "ecm_is_valid rq" and "ecm_is_valid rq'"
    and "(rq_caid rq', rq_provid rq', rq_sid rq') = (rq_caid rq, rq_provid rq, rq_sid rq)"
    and "fst (cccam_cache_find True now (rq_caid rq) (rq_provid rq) (rq_sid rq) (ew_cache w)) = 0"
    and "cccam_ecm_process lib al True now rq w = Some (0, Some r, w')"
    and "rq_hop rq' = 0 \<or> rs_hop r \<le> rq_hop rq'" and "now' \<le> now + cache_timeout (ew_cache w)"
  shows "\<exists>r' w''. cccam_ecm_process lib al True now' rq' w' = Some (0, Some r', w'') \<and> rs_cw r' = rs_cw r \<and>
    rs_hop r' = rs_hop r \<and> ew_cards w'' = ew_cards w' \<and> ew_env w'' = ew_env w'"
proof -
  let ?k = "(rq_caid rq, rq_provid rq, rq_sid rq)"
  obtain out c where find: "cccam_cache_find True now (rq_caid rq) (rq_provid rq) (rq_sid rq) (ew_cache w) = (0, out, c)"
    using assms(6) by (metis prod.collapse)
  from cache_find_lookup [OF assms(2), of now "rq_caid rq" "rq_provid rq" "rq_sid rq"] find have out: "out = None"
    by (auto split: if_splits)
  have cache: "cache_inv c" "cache_enabled c" "cache_timeout c = cache_timeout (ew_cache w)"
    using cache_find_keeps [of "ew_cache w" True now "rq_caid rq" "rq_provid rq" "rq_sid rq"] assms(1,2) find
    by (simp_all add: ecm_inv_def)
  from process_start [OF assms(1,3) find, of lib al True] out obtain w2 where w2:
    "cccam_ecm_process lib al True now rq w = map_option (\<lambda>(rc, resp, w3). (rc, Some resp, w3)) (ecm_serve_reader lib al True now rq w2)"
    "ecm_inv own held w2" "ew_cache w2 = c" by auto
  obtain res cards hs env where get: "cccam_card_manager_get_cw lib (ew_engines w2) al now (rq_caid rq) (rq_provid rq) (rq_sid rq)
             (take (unat (rq_len rq)) (rq_data rq)) (ew_cards w2) (ew_hs w2) (ew_env w2) = Some (res, cards, hs, env)"
    using w2(1) assms(7) by (auto simp: ecm_serve_reader_def split: option.splits)
  note reader = serve_reader [OF w2(2) get, of True]
  from reader w2(1) assms(7) obtain cw h i where res: "res = Some (cw, h, i)" by (cases res) auto
  with reader obtain w3 where w3: "ecm_serve_reader lib al True now rq w2 = ecm_serve_fresh True now rq cw h w3"
    "ecm_inv own held w3" "ew_cache w3 = c" by (auto simp: w2(3))
  let ?s = "cccam_hop_control_increment_hop (ew_hops w3) h"
  from serve_fresh [OF w3(2) refl, of True now rq cw h] w3 w2(1) assms(7)
  have fresh: "\<not> client_blocks rq ?s" "r = (ecm_response_for now rq)\<lparr>rs_cw := take 16 cw, rs_found := True, rs_hop := ?s\<rparr>"
    "ecm_inv own held w'" "hc_max_hops (ew_hops w') = hc_max_hops (ew_hops w3)"
    "\<exists>n. cccam_cache_add True now (rq_caid rq) (rq_provid rq) (rq_sid rq) (Some cw) h 0 c = Some (n, ew_cache w')"
    by (auto split: if_splits)
  obtain n c' where add: "cccam_cache_add True now (rq_caid rq) (rq_provid rq) (rq_sid rq) (Some cw) h 0 c = Some (n, c')"
    "cache_enabled c' = cache_enabled c"
    "cache_view c' ?k = Some (take 16 cw, h, cache_expiry now 0 c)"
    using cache_add_result [OF cache(1), of True now "rq_caid rq" "rq_provid rq" "rq_sid rq" "Some cw" h 0] cache(2) by metis
  with fresh(5) have c': "ew_cache w' = c'" by auto
  have same: "cccam_hop_control_increment_hop (ew_hops w') h = ?s"
    by (simp add: cccam_hop_control_increment_hop_def Let_def fresh(4) cong: if_cong)
  have "\<not> client_blocks rq' ?s" using assms(8) fresh(2) by (auto simp: client_blocks_def)
  moreover have "now' \<le> cache_expiry now 0 c" using assms(9) cache(3) by (simp add: cache_expiry_def)
  ultimately show ?thesis
    using process_hit [OF fresh(3) assms(4), of "take 16 cw" h "cache_expiry now 0 c" now' lib al True] add cache(2) assms(5) same fresh(2)
    by (auto simp: c')
qed

theorem ecm_served_from_cache_witness:
  "\<exists>r w'. cccam_ecm_process toy_ossl 0 True 100 (demo_request 2) demo_world = Some (0, Some r, w') \<and> rs_hop r = 2 \<and>
    (\<exists>r' w''. cccam_ecm_process toy_ossl 0 True 110 (demo_request 3) w' = Some (0, Some r', w'') \<and> rs_cw r' = rs_cw r \<and>
      rs_hop r' = rs_hop r \<and> ew_cards w'' = ew_cards w')"
proof -
  have "(case cccam_ecm_process toy_ossl 0 True 100 (demo_request 2) demo_world of
      Some (rc, Some r, w') \<Rightarrow> rc = 0 \<and> rs_hop r = 2 | _ \<Rightarrow> False)" by code_simp
  then obtain r w' where p: "cccam_ecm_process toy_ossl 0 True 100 (demo_request 2) demo_world = Some (0, Some r, w')" "rs_hop r = 2"
    by (auto split: option.splits)
  have "fst (cccam_cache_find True 100 0x0500 0 9 (ew_cache demo_world)) = 0"
    by (simp add: demo_world_def ecm_world_initial_def cache_initial_def cccam_cache_find_def)
  then have miss: "fst (cccam_cache_find True 100 (rq_caid (demo_request 2)) (rq_provid (demo_request 2)) (rq_sid (demo_request 2))
      (ew_cache demo_world)) = 0" by (simp add: demo_request_def)
  have en: "cache_enabled (ew_cache demo_world)" "cache_timeout (ew_cache demo_world) = 10"
    by (simp_all add: demo_world_def ecm_world_initial_def cache_initial_def)
  from ecm_served_from_cache [OF demo_inv en(1) demo_valid demo_valid _ miss p(1), of 3 110] p en(2)
  show ?thesis by (auto simp: demo_request_def)
qed

end
