(* ===== verification/Access.thy ===== *)
theory Access
  imports Text
begin

text \<open>
  Who may connect, log in and ask, \<open>src/core/cccam3_server.c\<close>: the allow and deny lists of IP prefixes,
  the table of failed logins, and the limit of ECM requests per second. An address is kept as
  \<open>sin_addr.s_addr\<close> holds it, a 32-bit word in network byte order; what number its bytes make depends on
  the host, so \<open>htonl\<close> takes the byte order \<open>le\<close> (True: little endian).
\<close>

subsection \<open>Addresses\<close>

definition htonl :: "bool \<Rightarrow> u32 \<Rightarrow> u32" where
  "htonl le w = (if le then of_be32 (ucast w) (ucast (drop_bit 8 w)) (ucast (drop_bit 16 w)) (ucast (drop_bit 24 w)) else w)"

text \<open>The word that the four bytes of an address make in memory.\<close>

definition s_addr :: "bool \<Rightarrow> u8 \<times> u8 \<times> u8 \<times> u8 \<Rightarrow> u32" where
  "s_addr le a = (case a of (a0, a1, a2, a3) \<Rightarrow> if le then of_be32 a3 a2 a1 a0 else of_be32 a0 a1 a2 a3)"

subsection \<open>Parsing an entry\<close>

definition dec_digit :: "char \<Rightarrow> nat" where
  "dec_digit c = char_code c - 48"

definition dec_value :: "string \<Rightarrow> nat" where
  "dec_value ds = foldl (\<lambda>v c. v * 10 + dec_digit c) 0 ds"

text \<open>The loop, with the number of octets still allowed; the result is the list of octets.\<close>

fun parse_octets :: "nat \<Rightarrow> string \<Rightarrow> nat list option" where
  "parse_octets 0 p = (if p \<noteq> [] then None else Some [])"
| "parse_octets (Suc n) p =
     (let ds = takeWhile c_isdigit p; rest = dropWhile c_isdigit p in
      if ds = [] then None
      else if rest \<noteq> [] \<and> hd rest \<noteq> CHR ''.'' then None
      else if length ds > 3 then None
      else if dec_value ds > 255 then None
      else if rest = [] then Some [dec_value ds]
      else map_option (\<lambda>os. dec_value ds # os) (parse_octets n (tl rest)))"

definition octet :: "nat list \<Rightarrow> nat \<Rightarrow> u8" where
  "octet os i = (if i < length os then of_nat (os ! i) else 0)"

text \<open>\<open>Some (count, ip)\<close>, or \<open>None\<close> for -1.\<close>

definition parse_ip_entry :: "bool \<Rightarrow> string \<Rightarrow> (nat \<times> u32) option" where
  "parse_ip_entry le entry =
     (if entry = [] then None
      else (case parse_octets 4 entry of
          None \<Rightarrow> None
        | Some os \<Rightarrow> Some (length os, htonl le (of_be32 (octet os 0) (octet os 1) (octet os 2) (octet os 3)))))"

subsection \<open>The lists\<close>

record ip_lists =
  il_allow :: "(u32 \<times> nat) list"
  il_deny :: "(u32 \<times> nat) list"

definition MAX_IP_ENTRIES :: nat where "MAX_IP_ENTRIES = 64"

definition is_delim :: "char \<Rightarrow> bool" where
  "is_delim c \<longleftrightarrow> c = CHR '','' \<or> c = CHR '' '' \<or> c = CHR 0x09"

text \<open>The tokens that successive calls of \<open>strtok_r\<close> deliver.\<close>

definition tokens :: "string \<Rightarrow> string list" where
  "tokens = strtok_all is_delim"

fun load_entries :: "bool \<Rightarrow> nat \<Rightarrow> string list \<Rightarrow> (u32 \<times> nat) list" where
  "load_entries le n [] = []"
| "load_entries le n (tok # toks) =
     (if n \<ge> MAX_IP_ENTRIES then []
      else (case parse_ip_entry le tok of
          None \<Rightarrow> load_entries le n toks
        | Some (parts, ip) \<Rightarrow> if parts > 0 then (ip, parts) # load_entries le (n + 1) toks else load_entries le n toks))"

definition load_list :: "bool \<Rightarrow> string \<Rightarrow> (u32 \<times> nat) list" where
  "load_list le text = (if text = [] then [] else load_entries le 0 (tokens (c_strncpy 256 text)))"

definition server_load_ip_lists :: "bool \<Rightarrow> string \<Rightarrow> string \<Rightarrow> ip_lists" where
  "server_load_ip_lists le allow_ips deny_ips = \<lparr>il_allow = load_list le allow_ips, il_deny = load_list le deny_ips\<rparr>"

definition prefix_mask :: "nat \<Rightarrow> u32" where
  "prefix_mask n = (if n \<ge> 1 then 0xFF000000 else 0) OR (if n \<ge> 2 then 0x00FF0000 else 0)
     OR (if n \<ge> 3 then 0x0000FF00 else 0) OR (if n \<ge> 4 then 0x000000FF else 0)"

fun ip_match :: "u32 \<Rightarrow> (u32 \<times> nat) list \<Rightarrow> bool" where
  "ip_match ip [] = False"
| "ip_match ip ((entry, prefix) # es) =
     (let mask = prefix_mask prefix in if ip AND mask = entry AND mask then True else ip_match ip es)"

definition server_ip_allowed :: "ip_lists \<Rightarrow> u32 \<Rightarrow> bool" where
  "server_ip_allowed st ip =
     (if il_deny st \<noteq> [] \<and> ip_match ip (il_deny st) then False
      else if il_allow st \<noteq> [] \<and> \<not> ip_match ip (il_allow st) then False
      else True)"

subsection \<open>Failed logins\<close>

record fail_slot =
  fs_ip :: u32
  fs_count :: int
  fs_since :: time_t
  fs_blocked_until :: time_t

definition LOGIN_FAIL_SLOTS :: nat where "LOGIN_FAIL_SLOTS = 64"

definition fail_table_initial :: "fail_slot list" where
  "fail_table_initial = replicate LOGIN_FAIL_SLOTS \<lparr>fs_ip = 0, fs_count = 0, fs_since = 0, fs_blocked_until = 0\<rparr>"

text \<open>The slot of the address, else the first free one, else the one that the address selects.\<close>

definition fail_slot_of :: "u32 \<Rightarrow> fail_slot list \<Rightarrow> nat" where
  "fail_slot_of ip tab =
     (case find_idx (\<lambda>s. fs_ip s = ip) tab of
        Some i \<Rightarrow> i
      | None \<Rightarrow> (case find_idx (\<lambda>s. fs_ip s = 0) tab of Some i \<Rightarrow> i | None \<Rightarrow> unat ip mod LOGIN_FAIL_SLOTS))"

definition count_failure :: "int \<Rightarrow> time_t \<Rightarrow> u32 \<Rightarrow> fail_slot \<Rightarrow> fail_slot" where
  "count_failure max_failures now ip s =
     (let s1 = (if fs_ip s \<noteq> ip \<or> now - fs_since s > 60 then s\<lparr>fs_ip := ip, fs_count := 1, fs_since := now\<rparr>
                else s\<lparr>fs_count := fs_count s + 1\<rparr>);
          limit = (if max_failures > 0 then max_failures else 5) in
      if fs_count s1 \<ge> limit then s1\<lparr>fs_blocked_until := now + 60\<rparr> else s1)"

definition server_login_failure :: "int \<Rightarrow> time_t \<Rightarrow> u32 \<Rightarrow> fail_slot list \<Rightarrow> fail_slot list" where
  "server_login_failure max_failures now ip tab =
     (let slot = fail_slot_of ip tab in tab[slot := count_failure max_failures now ip (tab ! slot)])"

definition server_login_success :: "u32 \<Rightarrow> fail_slot list \<Rightarrow> fail_slot list" where
  "server_login_success ip tab = map (\<lambda>s. if fs_ip s = ip then s\<lparr>fs_ip := 0, fs_count := 0\<rparr> else s) tab"

definition server_login_blocked :: "time_t \<Rightarrow> u32 \<Rightarrow> fail_slot list \<Rightarrow> bool" where
  "server_login_blocked now ip tab = list_ex (\<lambda>s. fs_ip s = ip \<and> fs_blocked_until s > now) tab"

subsection \<open>ECM requests per second\<close>

text \<open>The window of one client: its start and its count.\<close>

definition client_ecm_allowed :: "int \<Rightarrow> time_t \<Rightarrow> time_t \<times> int \<Rightarrow> bool \<times> (time_t \<times> int)" where
  "client_ecm_allowed limit now win = (case win of (start, count) \<Rightarrow>
     if limit \<le> 0 then (True, win)
     else if start = 0 \<or> now - start \<ge> 1 then (True, (now, 1))
     else if count + 1 > limit then (False, (start, count + 1))
     else (True, (start, count + 1)))"

subsection \<open>Facts on addresses\<close>

lemma mask_bits:
  "prefix_mask 1 = 0xFF000000" "prefix_mask 2 = 0xFFFF0000" "prefix_mask 3 = 0xFFFFFF00" "prefix_mask 4 = 0xFFFFFFFF"
  by (simp_all add: prefix_mask_def)

text \<open>The four bytes of a word, most significant first.\<close>

definition word_bytes :: "u32 \<Rightarrow> u8 \<times> u8 \<times> u8 \<times> u8" where
  "word_bytes w = (ucast (drop_bit 24 w), ucast (drop_bit 16 w), ucast (drop_bit 8 w), ucast w)"

lemma u8_bit_ge [simp]: "8 \<le> k \<Longrightarrow> \<not> bit (x :: u8) k"
  using bit_imp_le_length [of x k] by auto

lemma word_bytes_of_be32 [byte_order, simp]: "word_bytes (of_be32 a b c d) = (a, b, c, d)"
  unfolding word_bytes_def of_be32_def by (auto intro!: bit_word_eqI simp: bit_simps)

lemma word_bytes_inject: "word_bytes v = word_bytes w \<longleftrightarrow> v = w"
proof
  assume "word_bytes v = word_bytes w"
  then have "of_be32 (ucast (drop_bit 24 v)) (ucast (drop_bit 16 v)) (ucast (drop_bit 8 v)) (ucast v)
    = of_be32 (ucast (drop_bit 24 w)) (ucast (drop_bit 16 w)) (ucast (drop_bit 8 w)) (ucast w)"
    by (simp add: word_bytes_def del: of_be32_be32)
  then show "v = w" by simp
qed simp

lemma of_be32_inject [byte_order]: "of_be32 a b c d = of_be32 a' b' c' d' \<longleftrightarrow> (a, b, c, d) = (a', b', c', d')"
proof
  assume "of_be32 a b c d = of_be32 a' b' c' d'"
  then have "word_bytes (of_be32 a b c d) = word_bytes (of_be32 a' b' c' d')" by (rule arg_cong)
  then show "(a, b, c, d) = (a', b', c', d')" by (simp only: word_bytes_of_be32)
qed simp

text \<open>A mask keeps the leading bytes of the word: of the number, not of the address.\<close>

lemma mask_of_be32:
  "of_be32 a b c d AND prefix_mask n = of_be32 (if n \<ge> 1 then a else 0) (if n \<ge> 2 then b else 0) (if n \<ge> 3 then c else 0) (if n \<ge> 4 then d else 0)"
proof -
  have m: "prefix_mask n = of_be32 (if n \<ge> 1 then 255 else 0) (if n \<ge> 2 then 255 else 0) (if n \<ge> 3 then 255 else 0) (if n \<ge> 4 then 255 else 0)"
    by (simp add: prefix_mask_def of_be32_def)
  have "of_be32 a b c d AND of_be32 a' b' c' d' = of_be32 (a AND a') (b AND b') (c AND c') (d AND d')" for a' b' c' d'
    by (rule bit_word_eqI) (auto simp: of_be32_def bit_simps)
  moreover have "x AND 255 = x" for x :: u8
  proof -
    have "(255 :: u8) = -1" by simp
    then show ?thesis by (simp only: and.right_neutral)
  qed
  ultimately show ?thesis by (simp add: m)
qed

lemma htonl_of_be32: "htonl le (of_be32 a b c d) = s_addr le (a, b, c, d)"
  using word_bytes_of_be32 [of a b c d] by (simp add: htonl_def s_addr_def word_bytes_def)

lemma s_addr_inject [simp]: "s_addr le x = s_addr le y \<longleftrightarrow> x = y"
  by (cases x; cases y) (auto simp: s_addr_def of_be32_inject)


subsection \<open>Writing addresses and reading them back\<close>

definition dec_octet :: "nat \<Rightarrow> string" where
  "dec_octet n =
     (if n < 10 then [char_of (48 + n)]
      else if n < 100 then [char_of (48 + n div 10), char_of (48 + n mod 10)]
      else [char_of (48 + n div 100), char_of (48 + n div 10 mod 10), char_of (48 + n mod 10)])"

fun dotted :: "nat list \<Rightarrow> string" where
  "dotted [] = []"
| "dotted [x] = dec_octet x"
| "dotted (x # y # xs) = dec_octet x @ CHR ''.'' # dotted (y # xs)"

lemma digit_char:
  assumes "m < 10"
  shows "c_isdigit (char_of (48 + m))" "dec_digit (char_of (48 + m)) = m"
  using assms by (simp_all add: c_isdigit_def dec_digit_def char_code_def)

lemma dec_octet_ok:
  assumes "n < 256"
  shows "list_all c_isdigit (dec_octet n)" "dec_value (dec_octet n) = n" "length (dec_octet n) \<le> 3" "dec_octet n \<noteq> []"
proof -
  have d: "n div 100 < 10" "n div 10 mod 10 < 10" "n mod 10 < 10" "n < 100 \<Longrightarrow> n div 10 < 10" using assms by auto
  have "n div 100 = n div 10 div 10" by (simp add: div_mult2_eq [symmetric])
  then have v: "(n div 100 * 10 + n div 10 mod 10) * 10 + n mod 10 = n" "n div 10 * 10 + n mod 10 = n"
    using div_mult_mod_eq [of n 10] div_mult_mod_eq [of "n div 10" 10] by simp_all
  show "list_all c_isdigit (dec_octet n)" "length (dec_octet n) \<le> 3" "dec_octet n \<noteq> []"
    using d by (simp_all add: dec_octet_def digit_char)
  show "dec_value (dec_octet n) = n"
    using d v by (simp add: dec_octet_def dec_value_def digit_char)
qed

lemma digits_then:
  assumes "n < 256" and "p = [] \<or> hd p = CHR ''.''"
  shows "takeWhile c_isdigit (dec_octet n @ p) = dec_octet n" "dropWhile c_isdigit (dec_octet n @ p) = p"
proof -
  have "\<not> c_isdigit (CHR ''.'')" by (simp add: c_isdigit_def char_code_def)
  with assms dec_octet_ok(1) [OF assms(1)]
  show "takeWhile c_isdigit (dec_octet n @ p) = dec_octet n" "dropWhile c_isdigit (dec_octet n @ p) = p"
    by (cases p; simp add: takeWhile_append2 dropWhile_append2 list_all_iff)+
qed

lemma parse_octet_step:
  assumes "x < 256"
  shows "parse_octets (Suc n) (dec_octet x) = Some [x]"
    and "parse_octets (Suc n) (dec_octet x @ CHR ''.'' # p) = map_option ((#) x) (parse_octets n p)"
proof -
  have all: "takeWhile c_isdigit (dec_octet x) = dec_octet x" "dropWhile c_isdigit (dec_octet x) = []"
    using digits_then [OF assms, of "[]"] by (simp_all only: append_Nil2 simp_thms)
  show "parse_octets (Suc n) (dec_octet x) = Some [x]"
    using dec_octet_ok(2-4) [OF assms] assms by (simp add: all Let_def)
  show "parse_octets (Suc n) (dec_octet x @ CHR ''.'' # p) = map_option ((#) x) (parse_octets n p)"
    using digits_then [OF assms, of "CHR ''.'' # p"] dec_octet_ok [OF assms] assms by (simp add: Let_def)
qed

lemma parse_dotted:
  "os \<noteq> [] \<Longrightarrow> length os \<le> n \<Longrightarrow> \<forall>x \<in> set os. x < 256 \<Longrightarrow> parse_octets n (dotted os) = Some os"
proof (induction os arbitrary: n rule: dotted.induct)
  case (2 x)
  then show ?case by (cases n) (simp_all add: parse_octet_step del: parse_octets.simps)
next
  case (3 x y xs)
  then obtain m where "n = Suc m" "length (y # xs) \<le> m" by (cases n) auto
  with 3 show ?case by (simp add: parse_octet_step del: parse_octets.simps)
qed simp

lemma parse_dotted_dot:
  "os \<noteq> [] \<Longrightarrow> length os \<le> n \<Longrightarrow> \<forall>x \<in> set os. x < 256 \<Longrightarrow>
   parse_octets n (dotted os @ ''.'') = (if length os = n then Some os else None)"
proof (induction os arbitrary: n rule: dotted.induct)
  case (2 x)
  then obtain m where "n = Suc m" by (cases n) auto
  with 2 show ?case by (cases m) (auto simp: parse_octet_step(2) simp del: parse_octets.simps(2), simp_all)
next
  case (3 x y xs)
  then obtain m where "n = Suc m" "length (y # xs) \<le> m" by (cases n) auto
  with 3 show ?case by (simp add: parse_octet_step del: parse_octets.simps)
qed simp

lemma dotted_ne: "os \<noteq> [] \<Longrightarrow> \<forall>x \<in> set os. x < 256 \<Longrightarrow> dotted os \<noteq> []"
  by (induction os rule: dotted.induct) (auto simp: dec_octet_ok)

lemma dotted_no_delim: "\<forall>x \<in> set os. x < 256 \<Longrightarrow> c \<in> set (dotted os) \<Longrightarrow> \<not> is_delim c"
proof (induction os rule: dotted.induct)
  case (2 x)
  with dec_octet_ok(1) [of x] show ?case by (auto simp: list_all_iff is_delim_def c_isdigit_def char_code_def)
next
  case (3 x y xs)
  with dec_octet_ok(1) [of x] show ?case by (auto simp: list_all_iff is_delim_def c_isdigit_def char_code_def)
qed simp

lemma octets_lt: "\<forall>x \<in> set (map unat (bs :: u8 list)). x < 256"
proof
  fix x assume "x \<in> set (map unat bs)"
  then obtain b :: u8 where "x = unat b" by auto
  moreover have "unat b < 2 ^ LENGTH(8)" by (rule unsigned_less)
  ultimately show "x < 256" by simp
qed

lemma octet_map_unat [simp]: "octet (map unat bs) i = (if i < length bs then bs ! i else 0)"
  by (simp add: octet_def)

text \<open>Tokens: the separator ends a token that holds no separator.\<close>

lemma tokens_Nil [simp]: "tokens [] = []"
  by (simp add: tokens_def)

lemma tokens_step:
  assumes "t \<noteq> []" "\<And>c. c \<in> set t \<Longrightarrow> \<not> is_delim c" "rest = [] \<or> is_delim (hd rest)"
  shows "tokens (t @ rest) = t # tokens rest"
  unfolding tokens_def using assms by (rule strtok_step)

lemma tokens_delim: "is_delim c \<Longrightarrow> tokens (c # s) = tokens s"
  unfolding tokens_def by (rule strtok_delim)

text \<open>A list of full addresses as an administrator writes it.\<close>

definition show_addr :: "u8 \<times> u8 \<times> u8 \<times> u8 \<Rightarrow> string" where
  "show_addr a = (case a of (a0, a1, a2, a3) \<Rightarrow> dotted (map unat [a0, a1, a2, a3]))"

definition addr_text :: "(u8 \<times> u8 \<times> u8 \<times> u8) list \<Rightarrow> string" where
  "addr_text as = concat (map (\<lambda>a. show_addr a @ '', '') as)"

lemma parse_entry_dotted:
  assumes "bs \<noteq> []" "length bs \<le> 4"
  shows "parse_ip_entry le (dotted (map unat (bs :: u8 list))) =
      Some (length bs, s_addr le (octet (map unat bs) 0, octet (map unat bs) 1, octet (map unat bs) 2, octet (map unat bs) 3))"
    and "length bs < 4 \<Longrightarrow> parse_ip_entry le (dotted (map unat bs) @ ''.'') = None"
proof -
  show "parse_ip_entry le (dotted (map unat (bs :: u8 list))) =
      Some (length bs, s_addr le (octet (map unat bs) 0, octet (map unat bs) 1, octet (map unat bs) 2, octet (map unat bs) 3))"
    using assms parse_dotted [OF _ _ octets_lt, of bs 4] dotted_ne [OF _ octets_lt, of bs]
    by (simp add: parse_ip_entry_def htonl_of_be32 del: octet_map_unat parse_octets.simps)
  show "length bs < 4 \<Longrightarrow> parse_ip_entry le (dotted (map unat bs) @ ''.'') = None"
    using assms parse_dotted_dot [OF _ _ octets_lt, of bs 4] by (simp add: parse_ip_entry_def del: parse_octets.simps)
qed

lemma parse_entry_addr: "parse_ip_entry le (show_addr a) = Some (4, s_addr le a)"
proof -
  obtain a0 a1 a2 a3 where a: "a = (a0, a1, a2, a3)" by (metis prod_cases4)
  show ?thesis using parse_entry_dotted(1) [of "[a0, a1, a2, a3]" le]
    by (simp add: show_addr_def a octet_def numeral_2_eq_2 numeral_3_eq_3)
qed

lemma show_addr_token: "show_addr a \<noteq> []" "c \<in> set (show_addr a) \<Longrightarrow> \<not> is_delim c"
proof -
  obtain a0 a1 a2 a3 where a: "a = (a0, a1, a2, a3)" by (metis prod_cases4)
  show "show_addr a \<noteq> []" "c \<in> set (show_addr a) \<Longrightarrow> \<not> is_delim c"
    using dotted_ne [OF _ octets_lt, of "[a0, a1, a2, a3]"] dotted_no_delim [OF octets_lt, of c "[a0, a1, a2, a3]"]
    by (simp_all add: show_addr_def a del: dotted.simps)
qed

lemma tokens_addr_text: "tokens (addr_text as) = map show_addr as"
proof (induction as)
  case (Cons a as)
  have "tokens (show_addr a @ '', '' @ addr_text as) = show_addr a # tokens ('', '' @ addr_text as)"
    by (rule tokens_step) (use show_addr_token(1) [of a] show_addr_token(2) [of _ a] in \<open>auto simp: is_delim_def\<close>)
  with Cons show ?case by (simp add: addr_text_def tokens_delim is_delim_def)
qed (simp add: addr_text_def)

lemma load_entries_addr: "n + length as \<le> MAX_IP_ENTRIES \<Longrightarrow> load_entries le n (map show_addr as) = map (\<lambda>a. (s_addr le a, 4)) as"
  by (induction as arbitrary: n) (auto simp: parse_entry_addr)

lemma length_addr_text: "9 * length as \<le> length (addr_text as)"
proof (induction as)
  case (Cons a as)
  obtain a0 a1 a2 a3 where a: "a = (a0, a1, a2, a3)" by (metis prod_cases4)
  have "1 \<le> length (dec_octet (unat (b :: u8)))" for b
    using dec_octet_ok(4) [of "unat b"] octets_lt [of "[b]"] by (cases "dec_octet (unat b)") auto
  from this [of a0] this [of a1] this [of a2] this [of a3] have "7 \<le> length (show_addr a)"
    by (simp add: show_addr_def a)
  with Cons show ?case by (simp add: addr_text_def)
qed (simp add: addr_text_def)

lemma load_list_addr:
  assumes "length (addr_text as) \<le> 255"
  shows "load_list le (addr_text as) = map (\<lambda>a. (s_addr le a, 4)) as"
proof -
  have "length as \<le> 64" using length_addr_text [of as] assms by simp
  then show ?thesis
    using assms load_entries_addr [of 0 as le] tokens_addr_text [of as]
    by (cases "addr_text as = []") (auto simp: load_list_def c_strncpy_def MAX_IP_ENTRIES_def)
qed

lemma ip_match_full: "ip_match (s_addr le x) (map (\<lambda>a. (s_addr le a, 4)) as) \<longleftrightarrow> x \<in> set as"
proof -
  have "w AND prefix_mask 4 = w" for w
  proof -
    have "prefix_mask 4 = -1" by (simp add: prefix_mask_def)
    then show ?thesis by simp
  qed
  then show ?thesis by (induction as) (auto simp: Let_def)
qed

subsection \<open>Failed logins and request windows\<close>

definition fail_limit :: "int \<Rightarrow> int" where
  "fail_limit max_failures = (if max_failures > 0 then max_failures else 5)"

text \<open>The address has its slot: \<open>n\<close> failures counted since \<open>t0\<close>, and no other slot is its own.\<close>

definition fails_at :: "fail_slot list \<Rightarrow> nat \<Rightarrow> u32 \<Rightarrow> int \<Rightarrow> time_t \<Rightarrow> bool" where
  "fails_at tab i ip n t0 \<longleftrightarrow> length tab = LOGIN_FAIL_SLOTS \<and> i < LOGIN_FAIL_SLOTS \<and> fail_slot_of ip tab = i \<and>
     fs_ip (tab ! i) = ip \<and> fs_count (tab ! i) = n \<and> fs_since (tab ! i) = t0"

lemma fail_slot_update:
  assumes "fail_slot_of ip tab = i" and "i < length tab" and "fs_ip s = ip"
  shows "fail_slot_of ip (tab[i := s]) = i"
proof -
  have "\<forall>j < i. fs_ip (tab ! j) \<noteq> ip"
  proof (cases "find_idx (\<lambda>s. fs_ip s = ip) tab")
    case None
    with assms(2) show ?thesis by (auto simp: find_idx_None)
  next
    case (Some j)
    with assms(1) have "j = i" by (simp add: fail_slot_of_def)
    with Some show ?thesis by (simp add: find_idx_Some)
  qed
  with assms(2,3) have "find_idx (\<lambda>s. fs_ip s = ip) (tab[i := s]) = Some i"
    by (simp add: find_idx_Some)
  then show ?thesis by (simp add: fail_slot_of_def)
qed

lemma failure_next:
  assumes "fails_at tab i ip n t0" and "now - t0 \<le> 60"
  shows "fails_at (server_login_failure m now ip tab) i ip (n + 1) t0"
proof -
  let ?s = "count_failure m now ip (tab ! i)"
  have s: "fs_ip ?s = ip" "fs_count ?s = n + 1" "fs_since ?s = t0"
    using assms by (simp_all add: fails_at_def count_failure_def Let_def)
  have f: "server_login_failure m now ip tab = tab[i := ?s]" "i < length tab" "fail_slot_of ip tab = i"
    using assms(1) by (simp_all add: fails_at_def server_login_failure_def Let_def)
  from assms(1) s fail_slot_update [OF f(3,2) s(1)] f(2) show ?thesis by (simp add: fails_at_def f(1))
qed

lemma failures_run:
  "fails_at tab i ip n t0 \<Longrightarrow> \<forall>t \<in> set ts. t - t0 \<le> 60 \<Longrightarrow>
   fails_at (fold (\<lambda>t. server_login_failure m t ip) ts tab) i ip (n + int (length ts)) t0"
proof (induction ts arbitrary: tab n)
  case (Cons t ts)
  from failure_next [OF Cons.prems(1), of t m] Cons.prems(2)
  have "fails_at (server_login_failure m t ip tab) i ip (n + 1) t0" by simp
  from Cons.IH [OF this] Cons.prems(2) show ?case by (simp add: algebra_simps)
qed simp

lemma failure_first:
  assumes "length tab = LOGIN_FAIL_SLOTS" and "\<forall>s \<in> set tab. fs_ip s \<noteq> ip"
  shows "\<exists>i. fails_at (server_login_failure m now ip tab) i ip 1 now"
proof -
  define i where "i = fail_slot_of ip tab"
  have "find_idx (\<lambda>s. fs_ip s = 0) tab = Some j \<Longrightarrow> j < length tab" for j by (simp add: find_idx_Some)
  then have i: "i < length tab"
    using assms by (auto simp: i_def fail_slot_of_def LOGIN_FAIL_SLOTS_def split: option.splits) (auto simp: find_idx_Some)
  have "fs_ip (tab ! i) \<noteq> ip" using assms(2) i by simp
  then have s: "fs_ip (count_failure m now ip (tab ! i)) = ip" "fs_count (count_failure m now ip (tab ! i)) = 1"
    "fs_since (count_failure m now ip (tab ! i)) = now"
    by (simp_all add: count_failure_def Let_def)
  have "server_login_failure m now ip tab = tab[i := count_failure m now ip (tab ! i)]"
    by (simp add: server_login_failure_def Let_def i_def)
  with s i assms(1) fail_slot_update [OF i_def [symmetric] i s(1)]
  have "fails_at (server_login_failure m now ip tab) i ip 1 now" by (simp add: fails_at_def)
  then show ?thesis by blast
qed

lemma failure_blocks:
  assumes "fails_at tab i ip n t0" and "now - t0 \<le> 60" and "fail_limit m \<le> n + 1" and "t < now + 60"
  shows "server_login_blocked t ip (server_login_failure m now ip tab)"
proof -
  let ?s = "count_failure m now ip (tab ! i)"
  have s: "fs_ip ?s = ip" "t < fs_blocked_until ?s"
    using assms by (auto simp: fails_at_def count_failure_def Let_def fail_limit_def)
  have "server_login_failure m now ip tab = tab[i := ?s]" "i < length tab"
    using assms(1) by (simp_all add: fails_at_def server_login_failure_def)
  then have "?s \<in> set (server_login_failure m now ip tab)" by (simp add: set_update_memI)
  with s show ?thesis by (auto simp: server_login_blocked_def list_ex_iff)
qed

subsection \<open>Properties\<close>

text \<open>
  C40: lists of full addresses work. With allow and deny lists written as full dotted addresses, a
  connection is accepted exactly when its address is not denied and the allow list is empty or has it,
  on hosts of either byte order.
\<close>

theorem full_address_lists:
  assumes "length (addr_text as) \<le> 255" and "length (addr_text ds) \<le> 255"
  shows "server_ip_allowed (server_load_ip_lists le (addr_text as) (addr_text ds)) (s_addr le x)
    \<longleftrightarrow> x \<notin> set ds \<and> (as = [] \<or> x \<in> set as)"
  using assms by (auto simp: server_ip_allowed_def server_load_ip_lists_def load_list_addr ip_match_full)

theorem full_address_lists_witness:
  "\<not> server_ip_allowed (server_load_ip_lists True (addr_text [(10, 0, 0, 7), (82, 154, 99, 13)]) (addr_text [(82, 154, 99, 13)]))
      (s_addr True (82, 154, 99, 13))"
  by (subst full_address_lists) (code_simp, code_simp, simp)

text \<open>
  The documented prefix form is rejected. An entry such as \<open>192.168.1.\<close>, one to three octets with
  a dot behind the last, is not stored: as the allow list it lets every address in, as the deny list it
  blocks none.
\<close>

theorem documented_prefix_ignored:
  "parse_ip_entry le (dotted (map unat [a, b, c :: u8]) @ ''.'') = None \<and>
   parse_ip_entry le (dotted (map unat [a, b :: u8]) @ ''.'') = None \<and>
   server_ip_allowed (server_load_ip_lists le (dotted (map unat [a, b, c]) @ ''.'') (dotted (map unat [a, b]) @ ''.'')) ip"
proof -
  have p: "parse_ip_entry le (dotted (map unat bs) @ ''.'') = None" if "bs \<noteq> []" "length bs < 4" for bs :: "u8 list"
    using parse_entry_dotted(2) [of bs le] that by simp
  have "load_list le (dotted (map unat bs) @ ''.'') = []" if bs: "bs \<noteq> []" "length bs < 4" for bs :: "u8 list"
  proof (cases "length (dotted (map unat bs) @ ''.'') \<le> 255")
    case True
    have "tokens (dotted (map unat bs) @ ''.'') = [dotted (map unat bs) @ ''.'']"
      using tokens_step [of "dotted (map unat bs) @ ''.''" "[]"] dotted_no_delim [OF octets_lt, of _ bs]
      by (fastforce simp: is_delim_def)
    with True p [OF bs] show ?thesis by (simp add: load_list_def c_strncpy_def)
  next
    case False
    have "length (dotted (map unat bs)) \<le> 4 * length bs" for bs :: "u8 list"
    proof (induction bs)
      case (Cons b bs)
      have "length (dec_octet (unat b)) \<le> 3" using dec_octet_ok(3) [of "unat b"] octets_lt [of "[b]"] by simp
      with Cons show ?case by (cases bs) auto
    qed simp
    from this [of bs] False bs show ?thesis by simp
  qed
  from this [of "[a, b, c]"] this [of "[a, b]"] p [of "[a, b, c]"] p [of "[a, b]"] show ?thesis
    by (simp add: server_ip_allowed_def server_load_ip_lists_def)
qed

text \<open>
  A prefix matches the wrong end on little-endian hosts. A deny entry \<open>n\<close> of one octet, for the network
  n.0.0.0/8, denies on a big-endian host exactly the addresses that start with n, but on a
  little-endian host exactly those that end in 0, whatever n is.
\<close>

theorem prefix_byte_order:
  "server_ip_allowed (server_load_ip_lists False [] (dotted (map unat [n :: u8]))) (s_addr False (x0, x1, x2, x3)) = (x0 \<noteq> n) \<and>
   server_ip_allowed (server_load_ip_lists True [] (dotted (map unat [n]))) (s_addr True (x0, x1, x2, x3)) = (x3 \<noteq> 0)"
proof -
  have n: "unat n < 256" using octets_lt [of "[n]"] by simp
  have "length (dec_octet (unat n)) \<le> 255" using dec_octet_ok(3) [OF n] by simp
  moreover have "tokens (dec_octet (unat n)) = [dec_octet (unat n)]"
    using tokens_step [of "dec_octet (unat n)" "[]"] dotted_no_delim [OF octets_lt, of _ "[n]"] dec_octet_ok(4) [OF n] by fastforce
  moreover have "parse_ip_entry le (dec_octet (unat n)) = Some (1, s_addr le (n, 0, 0, 0))" for le
    using parse_entry_dotted(1) [of "[n]" le] by (simp add: octet_def)
  ultimately have l: "load_list le (dec_octet (unat n)) = [(s_addr le (n, 0, 0, 0), 1)]" for le
    using dec_octet_ok(4) [OF n] by (simp add: load_list_def c_strncpy_def MAX_IP_ENTRIES_def)
  have "load_list le [] = []" for le by (simp add: load_list_def)
  then show ?thesis
    by (auto simp: server_ip_allowed_def server_load_ip_lists_def l s_addr_def mask_of_be32 of_be32_inject)
qed

text \<open>
  Repeated failures block. When an address that has no slot fails as often as the limit allows (5 if
  none is configured) within 60 seconds of its first failure, it is blocked for 60 seconds
  from the last failure.
\<close>

theorem bruteforce_blocked:
  assumes "length tab = 64" and "\<forall>s \<in> set tab. fs_ip s \<noteq> ip"
    and "\<forall>t \<in> set ts. t - t0 \<le> 60" and "tn - t0 \<le> 60" and "fail_limit m \<le> int (length ts) + 2" and "t < tn + 60"
  shows "server_login_blocked t ip (fold (\<lambda>t. server_login_failure m t ip) (t0 # ts @ [tn]) tab)"
proof -
  obtain i where "fails_at (server_login_failure m t0 ip tab) i ip 1 t0"
    using failure_first [of tab ip m t0] assms(1,2) by (auto simp: LOGIN_FAIL_SLOTS_def)
  from failure_blocks [OF failures_run [OF this assms(3)] assms(4) _ assms(6), of m m] assms(5) show ?thesis by simp
qed

theorem bruteforce_blocked_witness:
  "server_login_blocked 70 9 (fold (\<lambda>t. server_login_failure 0 t 9) (1 # [2, 3, 4] @ [20]) fail_table_initial)"
  by (rule bruteforce_blocked) (simp_all add: fail_table_initial_def LOGIN_FAIL_SLOTS_def fail_limit_def)

text \<open>
  A reused slot keeps its block. When the table is full and the slot that a new address selects is
  blocked for another address, the first failure of the new address leaves it blocked until then, even
  though the limit allows more than one failure.
\<close>

theorem reused_slot_inherits_block:
  assumes "length tab = 64" and "\<forall>s \<in> set tab. fs_ip s \<noteq> ip \<and> fs_ip s \<noteq> 0"
    and "t < fs_blocked_until (tab ! (unat ip mod 64))" and "1 < fail_limit m"
  shows "server_login_blocked t ip (server_login_failure m now ip tab)"
proof -
  let ?i = "unat ip mod 64"
  have "find_idx (\<lambda>s. fs_ip s = ip) tab = None" "find_idx (\<lambda>s. fs_ip s = 0) tab = None"
    using assms(2) by (simp_all add: find_idx_None)
  then have i: "fail_slot_of ip tab = ?i" by (simp add: fail_slot_of_def LOGIN_FAIL_SLOTS_def)
  have "fs_ip (tab ! ?i) \<noteq> ip" using assms(1,2) by simp
  then have s: "count_failure m now ip (tab ! ?i) = (tab ! ?i)\<lparr>fs_ip := ip, fs_count := 1, fs_since := now\<rparr>"
    using assms(4) by (simp add: count_failure_def fail_limit_def Let_def split: if_splits)
  have "count_failure m now ip (tab ! ?i) \<in> set (server_login_failure m now ip tab)"
    using assms(1) by (simp add: server_login_failure_def Let_def i set_update_memI)
  with s assms(3) show ?thesis
    by (auto simp: server_login_blocked_def list_ex_iff intro!: bexI [of _ "(tab ! ?i)\<lparr>fs_ip := ip, fs_count := 1, fs_since := now\<rparr>"])
qed

theorem reused_slot_inherits_block_witness:
  "server_login_blocked 50 (65 :: u32) (server_login_failure 5 10 65
     (map (\<lambda>i. \<lparr>fs_ip = of_nat (i + 1), fs_count = 5, fs_since = 1, fs_blocked_until = 61\<rparr>) [0..<64]))"
proof (rule reused_slot_inherits_block)
  show "\<forall>s \<in> set (map (\<lambda>i. \<lparr>fs_ip = of_nat (i + 1), fs_count = 5, fs_since = 1, fs_blocked_until = 61\<rparr>) [0..<64]).
      fs_ip s \<noteq> (65 :: u32) \<and> fs_ip s \<noteq> 0" by code_simp
qed (simp_all add: fail_limit_def)

text \<open>The answers to requests made at the given times.\<close>

fun allowed_run :: "int \<Rightarrow> time_t list \<Rightarrow> time_t \<times> int \<Rightarrow> bool list" where
  "allowed_run limit [] win = []"
| "allowed_run limit (t # ts) win = (case client_ecm_allowed limit t win of (ok, win') \<Rightarrow> ok # allowed_run limit ts win')"

lemma allowed_run_window:
  "now \<noteq> 0 \<Longrightarrow> 0 < limit \<Longrightarrow> allowed_run limit (replicate k now) (now, n) = map (\<lambda>j. n + int j < limit) [0..<k]"
proof (induction k arbitrary: n)
  case (Suc k)
  have "client_ecm_allowed limit now (now, n) = (n < limit, (now, n + 1))"
    using Suc.prems by (auto simp: client_ecm_allowed_def)
  with Suc show ?case by (simp add: upt_conv_Cons map_Suc_upt [symmetric] o_def add.assoc del: upt_Suc)
qed simp

text \<open>
  The request limit. Of the requests that a client makes within one second of the clock, starting
  in a new second, exactly the first \<open>limit\<close> are let through.
\<close>

theorem ecm_rate_limit:
  assumes "0 < limit" and "start = 0 \<or> start < now" and "now \<noteq> 0"
  shows "allowed_run limit (replicate k now) (start, count) = map (\<lambda>j. int j < limit) [0..<k]"
proof (cases k)
  case (Suc n)
  have "client_ecm_allowed limit now (start, count) = (True, (now, 1))"
    using assms by (auto simp: client_ecm_allowed_def)
  with allowed_run_window [OF assms(3,1), of n 1] assms(1) show ?thesis
    by (simp add: Suc upt_conv_Cons map_Suc_upt [symmetric] o_def del: upt_Suc)
qed simp

theorem ecm_rate_limit_witness:
  "allowed_run 2 (replicate 4 7) (3, 9) = [True, True, False, False]"
  by (subst ecm_rate_limit) (simp_all add: upt_rec)

end
