(* ===== verification/Server.thy ===== *)
theory Server
  imports Ecm User_Manager Access Load_Balancer
begin

text \<open>
  The clients of the own protocol in \<open>src/core/cccam3_server.c\<close>: accepting a connection, reading a message,
  login, ECM and EMM requests. The client record lives in the pool of \<open>Client_Pool\<close> and is addressed as the
  C pointer is; \<open>None\<close> is an access to freed memory. The connection of the client is a \<open>remote_io\<close>. What
  the random generator delivers for a login is \<open>login_random\<close>.
\<close>

subsection \<open>State\<close>

record server_config =
  sc_max_login_failures :: int
  sc_max_ecm_per_sec :: int
  sc_auto_register :: bool
  sc_allowed_modes :: u32

record server =
  sv_config :: server_config
  sv_ecm :: ecm_world
  sv_users :: users
  sv_files :: file_system
  sv_fails :: "fail_slot list"
  sv_ips :: ip_lists
  sv_optimizer :: optimizer

record login_random =
  lr_seed :: "u8 list"
  lr_iv :: "u8 list"
  lr_junk :: "u8 list"

abbreviation sv_pool :: "server \<Rightarrow> pool" where
  "sv_pool w \<equiv> ew_pool (sv_ecm w)"

definition set_pool :: "pool \<Rightarrow> server \<Rightarrow> server" where
  "set_pool p w = w\<lparr>sv_ecm := (sv_ecm w)\<lparr>ew_pool := p\<rparr>\<rparr>"

text \<open>Write to the client's record.\<close>

definition set_client :: "nat \<Rightarrow> client \<Rightarrow> server \<Rightarrow> server" where
  "set_client a c w = set_pool ((sv_pool w)\<lparr>pl_heap := (pl_heap (sv_pool w))(a \<mapsto> c)\<rparr>) w"

subsection \<open>Reading a message\<close>

definition recv_exact :: "nat \<Rightarrow> remote_io \<Rightarrow> u8 list option \<times> remote_io" where
  "recv_exact len io =
     (if len \<le> length (io_rx io) then (Some (take len (io_rx io)), io\<lparr>io_rx := drop len (io_rx io)\<rparr>)
      else (None, io\<lparr>io_rx := []\<rparr>))"

definition read_client_message :: "nat \<Rightarrow> remote_io \<Rightarrow> u8 list option \<times> remote_io" where
  "read_client_message buf_size io =
     (case recv_exact HEADER_SIZE io of
        (None, io1) \<Rightarrow> (None, io1)
      | (Some header, io1) \<Rightarrow>
          let total = unat (read_be32 header 4) in
          if total < HEADER_SIZE \<or> total > BUFFER_SIZE \<or> total > buf_size then (None, io1)
          else (case recv_exact (total - HEADER_SIZE) io1 of
              (None, io2) \<Rightarrow> (None, io2)
            | (Some rest, io2) \<Rightarrow> (Some (header @ rest), io2)))"

subsection \<open>Connections\<close>

text \<open>
  One accepted socket: the filters, the record and the thread's reference; \<open>thread\<close> is the outcome of
  \<open>pthread_create\<close>. The result is the client that got a thread.
\<close>

definition server_destroy_client :: "nat \<Rightarrow> server \<Rightarrow> server option" where
  "server_destroy_client a w =
     (case cccam_client_destroy a (sv_pool w) of
        None \<Rightarrow> None
      | Some p \<Rightarrow> Some ((set_pool p w)\<lparr>sv_optimizer := cccam_load_balancer_release_connection (sv_optimizer w)\<rparr>))"

definition server_accept ::
  "bool \<Rightarrow> nat \<Rightarrow> bool \<Rightarrow> time_t \<Rightarrow> int \<Rightarrow> u32 \<Rightarrow> server \<Rightarrow> (nat option \<times> server) option" where
  "server_accept mem a thread now client_fd addr w =
     (if \<not> server_ip_allowed (sv_ips w) addr then Some (None, w)
      else (case cccam_load_balancer_allow_connection (sv_optimizer w) of (ok, opt) \<Rightarrow>
        let w1 = w\<lparr>sv_optimizer := opt\<rparr> in
        if ok = 0 then Some (None, w1)
        else (case cccam_client_create mem a now client_fd addr (sv_pool w1) of
            (None, p) \<Rightarrow>
              Some (None, (set_pool p w1)\<lparr>sv_optimizer := cccam_load_balancer_release_connection (sv_optimizer w1)\<rparr>)
          | (Some c, p) \<Rightarrow>
              (case cccam_client_ref c p of
                 None \<Rightarrow> None
               | Some (_, p1) \<Rightarrow>
                   let w2 = set_pool p1 w1 in
                   if thread then Some (Some c, w2)
                   else (case cccam_client_unref c (sv_pool w2) of
                       None \<Rightarrow> None
                     | Some p2 \<Rightarrow> map_option (\<lambda>w3. (None, w3)) (server_destroy_client c (set_pool p2 w2)))))))"

text \<open>The end of a client's thread; a client that was destroyed already only loses the thread's reference.\<close>

definition client_thread_end :: "nat \<Rightarrow> server \<Rightarrow> server option" where
  "client_thread_end a w =
     (case pl_heap (sv_pool w) a of
        None \<Rightarrow> None
      | Some c \<Rightarrow>
          (case if \<not> cl_zombie c then server_destroy_client a w else Some w of
             None \<Rightarrow> None
           | Some w1 \<Rightarrow> map_option (\<lambda>p. set_pool p w1) (cccam_client_unref a (sv_pool w1))))"

subsection \<open>Login\<close>

definition handshake_mode_to_crypt_mode :: "u8 \<Rightarrow> u8" where
  "handshake_mode_to_crypt_mode mode =
     (if mode = HS_LEGACY then MODE_AES_GCM
      else if mode = HS_RC4 then MODE_RC4
      else if mode = HS_AES then MODE_AES
      else if mode = HS_AES_GCM \<or> mode = HS_RSA_AES then MODE_AES_GCM
      else MODE_NONE)"

text \<open>The fields of the login payload; \<open>None\<close> is a malformed payload.\<close>

definition parse_login :: "u8 list \<Rightarrow> login_msg option" where
  "parse_login payload =
     (if length payload < 16 + 1 + 1 + 4 then None
      else
        let rest = drop 16 payload;
            user = takeWhile (\<lambda>b. b \<noteq> 0) rest in
        if length user \<ge> length rest \<or> length user \<ge> 64 then None
        else
          let rest1 = drop (length user + 1) rest;
              pass = takeWhile (\<lambda>b. b \<noteq> 0) rest1 in
          if length pass \<ge> length rest1 \<or> length pass \<ge> 64 then None
          else
            let rest2 = drop (length pass + 1) rest1 in
            if length rest2 < 4 then None
            else Some \<lparr>lm_handshake = take 16 payload, lm_username = of_bytes user, lm_password = of_bytes pass,
                       lm_version = read_be32 rest2 0\<rparr>)"

text \<open>Authentication or automatic registration, and the bookkeeping of failures.\<close>

definition login_account ::
  "ossl \<Rightarrow> bool \<Rightarrow> bool \<Rightarrow> time_t \<Rightarrow> u32 \<Rightarrow> login_msg \<Rightarrow> server \<Rightarrow> bool \<times> server" where
  "login_account lib mem writable now addr login w =
     (let failed = (\<lambda>w. w\<lparr>sv_fails := server_login_failure (sc_max_login_failures (sv_config w)) now addr (sv_fails w)\<rparr>);
          passed = (\<lambda>w. w\<lparr>sv_fails := server_login_success addr (sv_fails w)\<rparr>) in
      case cccam_user_manager_authenticate lib now (lm_username login) (lm_password login) (sv_users w) of (rc, users) \<Rightarrow>
        let w1 = w\<lparr>sv_users := users\<rparr> in
        if rc = 0 then (True, passed w1)
        else if sc_auto_register (sv_config w1) then
          (case cccam_user_manager_auto_register lib mem now writable (lm_username login) (lm_password login)
                  (sv_users w1) (sv_files w1) of (rc2, users2, files2) \<Rightarrow>
            let w2 = w1\<lparr>sv_users := users2, sv_files := files2\<rparr> in
            if rc2 \<noteq> 0 then (False, failed w2) else (True, passed w2))
        else (False, failed w1))"

text \<open>The session mode and key that the handshake leaves, and the response to send.\<close>

definition login_session ::
  "ossl \<Rightarrow> login_random \<Rightarrow> login_msg \<Rightarrow> handshake \<Rightarrow> (u8 list \<times> u8 \<times> u8 list \<times> handshake) option" where
  "login_session lib rnd login hs =
     (case cccam_protocol_handle_login lib (lr_seed rnd) (lr_iv rnd) (lr_junk rnd) login (16 + 12 + 16 + 16) hs of
        None \<Rightarrow> None
      | Some (resp, hs1) \<Rightarrow>
          let resp_buf = resp @ replicate (60 - length resp) 0;
              resp_out = take (cccam_handshake_get_response_len hs1) resp_buf in
          (case cccam_handshake_get_session_key 32 hs1 of
             None \<Rightarrow> Some (resp_out, MODE_NONE, [], hs1)
           | Some key \<Rightarrow>
               let wire_mode = handshake_mode_to_crypt_mode (cccam_handshake_get_mode hs1) in
               Some (resp_out, wire_mode, gcm_session_key lib wire_mode key, hs1)))"

text \<open>The result code, the server and the connection.\<close>

definition handle_client_login ::
  "ossl \<Rightarrow> login_random \<Rightarrow> bool \<Rightarrow> bool \<Rightarrow> time_t \<Rightarrow> nat \<Rightarrow> u8 list \<Rightarrow> server \<Rightarrow> remote_io \<Rightarrow>
   (int \<times> server \<times> remote_io) option" where
  "handle_client_login lib rnd mem writable now a payload w io =
     (case pl_heap (sv_pool w) a of
        None \<Rightarrow> None
      | Some c \<Rightarrow>
          if cl_is_authenticated c then Some (0, w, io)
          else if server_login_blocked now (cl_addr c) (sv_fails w) then Some (-1, w, io)
          else (case parse_login payload of
              None \<Rightarrow> Some (-1, w, io)
            | Some login \<Rightarrow>
                (case login_account lib mem writable now (cl_addr c) login w of (ok, w1) \<Rightarrow>
                  if \<not> ok then Some (-1, w1, io)
                  else
                    let max_hops = (case cccam_user_manager_get_max_hops (lm_username login) (sv_users w1) of
                                      None \<Rightarrow> 0 | Some h \<Rightarrow> h) in
                    (case login_session lib rnd login (ew_hs (sv_ecm w1)) of
                       None \<Rightarrow> Some (-1, w1, io)
                     | Some (resp, wire_mode, key, hs1) \<Rightarrow>
                         let w2 = w1\<lparr>sv_ecm := (sv_ecm w1)\<lparr>ew_hs := hs1\<rparr>\<rparr> in
                         (case cccam_protocol_set_crypto (sc_allowed_modes (sv_config w2)) wire_mode (Some key) (cl_crypto c) of
                            (rc, cx) \<Rightarrow>
                              if rc \<noteq> 0 then Some (-1, w2, io)
                              else
                                let w3 = set_client a (c\<lparr>cl_crypto := cx, cl_username := c_strncpy 64 (lm_username login),
                                      cl_version := lm_version login, cl_crypt_mode := wire_mode,
                                      cl_hop_count := uint max_hops, cl_is_authenticated := True\<rparr>) w2 in
                                (case cccam_protocol_build_login_ack BUFFER_SIZE resp of
                                   None \<Rightarrow> Some (-1, w3, io)
                                 | Some ack \<Rightarrow>
                                     (case remote_send ack io of (sent, io1) \<Rightarrow> Some (if sent then 0 else -1, w3, io1))))))))"

subsection \<open>Requests\<close>

definition parse_ecm_payload :: "u8 list \<Rightarrow> ecm_request option" where
  "parse_ecm_payload payload =
     (if length payload < 6 then None
      else
        let ecm_len = (of_nat (length payload - 6) :: u16) in
        if unat ecm_len > ECM_MAX_SIZE then None
        else Some \<lparr>rq_caid = of_be16 (payload ! 0) (payload ! 1), rq_provid = of_be16 (payload ! 2) (payload ! 3),
                   rq_sid = of_be16 (payload ! 4) (payload ! 5),
                   rq_data = take (unat ecm_len) (drop 6 payload) @ replicate (ECM_MAX_SIZE - unat ecm_len) 0,
                   rq_len = ecm_len, rq_client_id = 0, rq_hop = 0\<rparr>)"

definition register_ecm :: "string \<Rightarrow> bool \<Rightarrow> server \<Rightarrow> server" where
  "register_ecm name ok w = w\<lparr>sv_users := cccam_user_manager_register_ecm name ok (sv_users w)\<rparr>"

definition handle_client_ecm ::
  "ossl \<Rightarrow> u8 list \<Rightarrow> bool \<Rightarrow> time_t \<Rightarrow> nat \<Rightarrow> u8 list \<Rightarrow> server \<Rightarrow> remote_io \<Rightarrow> (int \<times> server \<times> remote_io) option" where
  "handle_client_ecm lib junk mem now a payload w io =
     (case pl_heap (sv_pool w) a of
        None \<Rightarrow> None
      | Some c \<Rightarrow>
          if \<not> cl_is_authenticated c then Some (-1, w, io)
          else (case client_ecm_allowed (sc_max_ecm_per_sec (sv_config w)) now (cl_ecm_window_start c, cl_ecm_window_count c) of
            (allowed, start, n) \<Rightarrow>
              let w1 = set_client a (c\<lparr>cl_ecm_window_start := start, cl_ecm_window_count := n\<rparr>) w in
              if \<not> allowed then Some (0, w1, io)
              else (case parse_ecm_payload payload of
                  None \<Rightarrow> Some (-1, w1, io)
                | Some rq0 \<Rightarrow>
                    let rq = rq0\<lparr>rq_client_id := cl_client_id c, rq_hop := word_of_int (cl_hop_count c)\<rparr> in
                    (case cccam_ecm_process lib (sc_allowed_modes (sv_config w1)) mem now rq (sv_ecm w1) of
                       None \<Rightarrow> None
                     | Some (rc, resp, e) \<Rightarrow>
                         let w2 = w1\<lparr>sv_ecm := e\<rparr> in
                         (case resp of
                            Some r \<Rightarrow>
                              if rc = 0 \<and> rs_found r then
                                (case pl_heap (sv_pool w2) a of
                                   None \<Rightarrow> None
                                 | Some c2 \<Rightarrow>
                                     (case cccam_ecm_send_cw lib junk (cl_socket_fd c2) (cl_crypto c2) r io of (_, cx, io1) \<Rightarrow>
                                       Some (0, register_ecm (cl_username c2) True (set_client a (c2\<lparr>cl_crypto := cx\<rparr>) w2), io1)))
                              else Some (0, register_ecm (cl_username c) False w2, io)
                          | None \<Rightarrow> Some (0, register_ecm (cl_username c) False w2, io))))))"

text \<open>One message of the client's loop, after it was parsed; a result other than 0 ends the session.\<close>

definition client_message ::
  "(time_t \<Rightarrow> u16 \<Rightarrow> u8 list \<Rightarrow> engines \<Rightarrow> engines option) \<Rightarrow> ossl \<Rightarrow> login_random \<Rightarrow> bool \<Rightarrow> bool \<Rightarrow> time_t \<Rightarrow> nat \<Rightarrow> u32 \<Rightarrow> u8 list \<Rightarrow>
   server \<Rightarrow> remote_io \<Rightarrow> (int \<times> server \<times> remote_io) option" where
  "client_message emu lib rnd mem writable now a msg_id p w io =
     (if msg_id = MSG_LOGIN then handle_client_login lib rnd mem writable now a p w io
      else if msg_id = MSG_ECM then handle_client_ecm lib (lr_junk rnd) mem now a p w io
      else if msg_id = MSG_EMM then
        (if length p \<ge> 4
         then map_option (\<lambda>(n, e). (0, w\<lparr>sv_ecm := e\<rparr>, io)) (cccam_ecm_forward_emm emu lib (sc_allowed_modes (sv_config w)) now
                (of_be16 (p ! 0) (p ! 1)) (of_be16 (p ! 2) (p ! 3)) (drop 4 p) (sv_ecm w))
         else Some (0, w, io))
      else if msg_id = MSG_KEEPALIVE then
        map_option (\<lambda>q. (0, set_pool q w, io)) (cccam_client_update_keepalive a now (sv_pool w))
      else Some (0, w, io))"

text \<open>One round of the loop with data on the socket: read, parse under the session, dispatch.\<close>

definition client_round ::
  "(time_t \<Rightarrow> u16 \<Rightarrow> u8 list \<Rightarrow> engines \<Rightarrow> engines option) \<Rightarrow> ossl \<Rightarrow> login_random \<Rightarrow> bool \<Rightarrow> bool \<Rightarrow> time_t \<Rightarrow> nat \<Rightarrow>
   server \<Rightarrow> remote_io \<Rightarrow> (int \<times> server \<times> remote_io) option" where
  "client_round emu lib rnd mem writable now a w io =
     (case pl_heap (sv_pool w) a of
        None \<Rightarrow> None
      | Some c \<Rightarrow>
          (case read_client_message BUFFER_SIZE io of
             (None, io1) \<Rightarrow> Some (-1, w, io1)
           | (Some msg, io1) \<Rightarrow>
               (case cccam_protocol_parse lib mem msg (Some (cl_crypto c)) of
                  None \<Rightarrow> Some (-1, w, io1)
                | Some (h, payload, cx) \<Rightarrow>
                    client_message emu lib rnd mem writable now a (mh_msg_id h) (case payload of None \<Rightarrow> [] | Some p \<Rightarrow> p)
                      (set_client a (c\<lparr>cl_crypto := (case cx of None \<Rightarrow> cl_crypto c | Some x \<Rightarrow> x)\<rparr>) w) io1)))"

text \<open>The loop while the peer has sent data, until a round fails.\<close>

fun client_session ::
  "(time_t \<Rightarrow> u16 \<Rightarrow> u8 list \<Rightarrow> engines \<Rightarrow> engines option) \<Rightarrow> ossl \<Rightarrow> nat \<Rightarrow> (login_random \<times> bool \<times> bool \<times> time_t) list \<Rightarrow>
   server \<Rightarrow> remote_io \<Rightarrow> (int \<times> server \<times> remote_io) option" where
  "client_session emu lib a [] w io = Some (0, w, io)"
| "client_session emu lib a ((rnd, mem, writable, now) # xs) w io =
     (case client_round emu lib rnd mem writable now a w io of
        None \<Rightarrow> None
      | Some (rc, w1, io1) \<Rightarrow> if rc \<noteq> 0 then Some (rc, w1, io1) else client_session emu lib a xs w1 io1)"

text \<open>
  Where the key emulator leaves a round: its message, as the session reads and parses it, is an ECM or an EMM that the
  emulator does not answer with the keys it has.
\<close>

definition message_unanswered ::
  "(time_t \<Rightarrow> u16 \<Rightarrow> u8 list \<Rightarrow> engines \<Rightarrow> engines option) \<Rightarrow> time_t \<Rightarrow> u32 \<Rightarrow> u8 list \<Rightarrow> server \<Rightarrow> bool" where
  "message_unanswered emu now msg_id p w =
     (if msg_id = MSG_ECM
      then (case parse_ecm_payload p of
              None \<Rightarrow> False
            | Some rq \<Rightarrow> emu_cw (ew_engines (sv_ecm w)) now (rq_caid rq) (rq_provid rq) (rq_sid rq)
                (take (unat (rq_len rq)) (rq_data rq)) = None)
      else msg_id = MSG_EMM \<and> length p \<ge> 4 \<and> emu now (of_be16 (p ! 0) (p ! 1)) (drop 4 p) (ew_engines (sv_ecm w)) = None)"

definition round_unanswered ::
  "(time_t \<Rightarrow> u16 \<Rightarrow> u8 list \<Rightarrow> engines \<Rightarrow> engines option) \<Rightarrow> ossl \<Rightarrow> bool \<Rightarrow> time_t \<Rightarrow> nat \<Rightarrow> server \<Rightarrow> remote_io \<Rightarrow> bool" where
  "round_unanswered emu lib mem now a w io =
     (case pl_heap (sv_pool w) a of
        None \<Rightarrow> False
      | Some c \<Rightarrow>
          (case fst (read_client_message BUFFER_SIZE io) of
             None \<Rightarrow> False
           | Some msg \<Rightarrow>
               (case cccam_protocol_parse lib mem msg (Some (cl_crypto c)) of
                  None \<Rightarrow> False
                | Some (h, payload, cx) \<Rightarrow>
                    message_unanswered emu now (mh_msg_id h) (case payload of None \<Rightarrow> [] | Some p \<Rightarrow> p) w)))"

subsection \<open>Frames\<close>

text \<open>What a session depends on: whether the client is authenticated, and its crypto context.\<close>

definition client_view :: "pool \<Rightarrow> nat \<Rightarrow> (bool \<times> crypto_ctx) option" where
  "client_view p a = map_option (\<lambda>c. (cl_is_authenticated c, cl_crypto c)) (pl_heap p a)"

lemma with_client_view:
  assumes "with_client i f p = Some p'"
    and "\<And>c. cl_is_authenticated (f c) = cl_is_authenticated c \<and> cl_crypto (f c) = cl_crypto c \<and> cl_zombie (f c) = cl_zombie c"
  shows "client_view p' = client_view p"
proof -
  from assms(1) obtain x p1 where find: "cccam_client_find_by_id i p = Some (x, p1)"
    by (auto simp: with_client_def split: option.splits)
  show ?thesis
  proof (cases x)
    case None
    with find have "p1 = p"
      by (auto simp: cccam_client_find_by_id_def pool_acquire_locked_def split: option.splits prod.splits if_splits)
    with find None assms(1) show ?thesis by (simp add: with_client_def)
  next
    case (Some b)
    with find_by_id_acquire find have "pool_acquire_locked b p = Some (True, p1)" by metis
    then obtain c where c: "pl_heap p b = Some c" "\<not> cl_zombie c"
      "p1 = p\<lparr>pl_heap := (pl_heap p)(b \<mapsto> c\<lparr>cl_refs := cl_refs c + 1\<rparr>)\<rparr>"
      by (auto simp: pool_acquire_locked_def split: option.splits if_splits)
    define d where "d = f (c\<lparr>cl_refs := cl_refs c + 1\<rparr>)"
    define e where "e = (if cl_refs d > 0 then d\<lparr>cl_refs := cl_refs d - 1\<rparr> else d)"
    have d: "cl_is_authenticated d = cl_is_authenticated c" "cl_crypto d = cl_crypto c" "\<not> cl_zombie d"
      using assms(2) [of "c\<lparr>cl_refs := cl_refs c + 1\<rparr>"] c(2) by (simp_all add: d_def)
    then have e: "cl_is_authenticated e = cl_is_authenticated c" "cl_crypto e = cl_crypto c" "\<not> cl_zombie e"
      by (simp_all add: e_def)
    have u: "update_client b f p1 = Some (p1\<lparr>pl_heap := (pl_heap p1)(b \<mapsto> d)\<rparr>)"
      by (simp add: update_client_def c(3) d_def)
    have "cccam_client_unref b (p1\<lparr>pl_heap := (pl_heap p1)(b \<mapsto> d)\<rparr>) = Some (p1\<lparr>pl_heap := (pl_heap p1)(b \<mapsto> e)\<rparr>)"
      using e(3) by (simp add: cccam_client_unref_def Let_def flip: e_def)
    with u find Some assms(1) have "p' = p1\<lparr>pl_heap := (pl_heap p1)(b \<mapsto> e)\<rparr>"
      by (simp add: with_client_def)
    with c e show ?thesis by (simp add: client_view_def fun_eq_iff)
  qed
qed

lemma ecm_client_ok_view: "ecm_client_ok i w = Some w' \<Longrightarrow> client_view (ew_pool w') = client_view (ew_pool w)"
  by (auto simp: ecm_client_ok_def split: if_splits dest: with_client_view)

lemma ecm_register_view: "ecm_register_request now rq w = Some w' \<Longrightarrow> client_view (ew_pool w') = client_view (ew_pool w)"
  by (auto simp: ecm_register_request_def Let_def split: if_splits dest: with_client_view)

lemma hop_blocked_pool: "ew_pool (snd (ecm_hop_blocked now rq h w)) = ew_pool w"
  by (simp add: ecm_hop_blocked_def split: prod.split)

lemma serve_cached_view:
  "ecm_serve_cached now rq cw h w = Some (rc, resp, w') \<Longrightarrow> client_view (ew_pool w') = client_view (ew_pool w)"
  using hop_blocked_pool [of now rq "cccam_hop_control_increment_hop (ew_hops w) h" w]
  by (auto simp: ecm_serve_cached_def Let_def split: prod.splits if_splits dest: ecm_client_ok_view)

lemma serve_fresh_view:
  "ecm_serve_fresh mem now rq cw h w = Some (rc, resp, w') \<Longrightarrow> client_view (ew_pool w') = client_view (ew_pool w)"
  using hop_blocked_pool [of now rq "cccam_hop_control_increment_hop (ew_hops w) h" w]
  by (auto simp: ecm_serve_fresh_def Let_def split: prod.splits if_splits option.splits dest: ecm_client_ok_view)

lemma serve_reader_view:
  "ecm_serve_reader lib al mem now rq w = Some (rc, resp, w') \<Longrightarrow> client_view (ew_pool w') = client_view (ew_pool w)"
  by (auto simp: ecm_serve_reader_def Let_def split: prod.splits option.splits dest: serve_fresh_view)

lemma process_view:
  "cccam_ecm_process lib al mem now rq w = Some (rc, resp, w') \<Longrightarrow> client_view (ew_pool w') = client_view (ew_pool w)"
  by (auto simp: cccam_ecm_process_def Let_def split: prod.splits option.splits if_splits
      dest!: ecm_register_view dest: serve_cached_view serve_reader_view)

text \<open>Writing the record of a client with an owner keeps the discipline of the pool.\<close>

lemma set_pool_simps [simp]:
  "sv_pool (set_pool p w) = p" "sv_optimizer (set_pool p w) = sv_optimizer w" "sv_config (set_pool p w) = sv_config w"
  "sv_users (set_pool p w) = sv_users w" "sv_ips (set_pool p w) = sv_ips w" "sv_fails (set_pool p w) = sv_fails w"
  "ew_cache (sv_ecm (set_pool p w)) = ew_cache (sv_ecm w)" "ew_hops (sv_ecm (set_pool p w)) = ew_hops (sv_ecm w)"
  "ew_hs (sv_ecm (set_pool p w)) = ew_hs (sv_ecm w)" "ew_engines (sv_ecm (set_pool p w)) = ew_engines (sv_ecm w)"
  by (simp_all add: set_pool_def)

lemma set_client_view: "client_view (sv_pool (set_client a c w)) = (client_view (sv_pool w))(a \<mapsto> (cl_is_authenticated c, cl_crypto c))"
  by (simp add: set_client_def client_view_def fun_eq_iff)

lemma set_client_simps [simp]:
  "sv_optimizer (set_client a c w) = sv_optimizer w" "sv_config (set_client a c w) = sv_config w"
  "sv_users (set_client a c w) = sv_users w" "ew_hs (sv_ecm (set_client a c w)) = ew_hs (sv_ecm w)"
  "pl_heap (sv_pool (set_client a c w)) = (pl_heap (sv_pool w))(a \<mapsto> c)"
  by (simp_all add: set_client_def)

lemma set_client_inv:
  assumes "ecm_inv own held (sv_ecm w)" and "a \<in> own" and "pl_heap (sv_pool w) a = Some c"
    and "cl_refs c' = cl_refs c" and "cl_zombie c' = cl_zombie c"
  shows "ecm_inv own held (sv_ecm (set_client a c' w))"
proof -
  let ?f = "\<lambda>d. if d = c then c' else d"
  let ?p = "(sv_pool w)\<lparr>pl_heap := (pl_heap (sv_pool w))(a \<mapsto> c')\<rparr>"
  have "update_client a ?f (sv_pool w) = Some ?p" using assms(3) by (simp add: update_client_def)
  moreover have "pool_ok own held (sv_pool w)" using assms(1) by (simp add: ecm_inv_def)
  ultimately have "pool_reachable (\<lparr>pw_pool = sv_pool w, pw_owners = own, pw_held = held\<rparr>\<lparr>pw_pool := ?p\<rparr>)"
    using assms(2,4,5) by (intro pool_reachable.Step [OF _ pool_step.Update [where a = a and f = ?f]]) auto
  with assms(1) show ?thesis by (simp add: ecm_inv_def set_client_def set_pool_def)
qed

lemma owner_alloc:
  assumes "ecm_inv own held (sv_ecm w)" and "a \<in> own"
  obtains c where "pl_heap (sv_pool w) a = Some c"
proof -
  have "heap_ok (pl_heap (sv_pool w)) own held"
    using assms(1) reachable_inv by (force simp: ecm_inv_def pool_inv_alt)
  from heap_ok_alloc [OF this] assms(2) that show ?thesis by blast
qed

subsection \<open>Sessions\<close>

text \<open>
  The state of a session: an authenticated client is in AES-GCM mode. \<open>login_acks\<close> are the messages that
  a login may send.
\<close>

definition session_ok :: "nat \<Rightarrow> server \<Rightarrow> bool" where
  "session_ok a w \<longleftrightarrow> (\<exists>auth cx. client_view (sv_pool w) a = Some (auth, cx) \<and> (auth \<longrightarrow> cx_mode cx = MODE_AES_GCM))"

definition session_auth :: "nat \<Rightarrow> server \<Rightarrow> bool" where
  "session_auth a w \<longleftrightarrow> (\<exists>cx. client_view (sv_pool w) a = Some (True, cx))"

definition login_acks :: "u8 list set" where
  "login_acks = {m. \<exists>resp. cccam_protocol_build_login_ack BUFFER_SIZE resp = Some m}"

text \<open>The sessions of the other clients are untouched.\<close>

definition others_kept :: "nat \<Rightarrow> server \<Rightarrow> server \<Rightarrow> bool" where
  "others_kept a w w' \<longleftrightarrow> (\<forall>b. b \<noteq> a \<longrightarrow> client_view (sv_pool w') b = client_view (sv_pool w) b)"

lemma others_kept_refl [simp]: "others_kept a w w"
  by (simp add: others_kept_def)

lemma others_kept_trans: "others_kept a w w1 \<Longrightarrow> others_kept a w1 w2 \<Longrightarrow> others_kept a w w2"
  by (simp add: others_kept_def)

lemma others_kept_same: "client_view (sv_pool w') = client_view (sv_pool w) \<Longrightarrow> others_kept a w w'"
  by (simp add: others_kept_def)

lemma others_kept_set: "client_view (sv_pool w1) = client_view (sv_pool w) \<Longrightarrow> others_kept a w (set_client a c w1)"
  by (simp add: others_kept_def set_client_view)

lemma recv_exact_tx: "recv_exact n io = (x, io') \<Longrightarrow> io_tx io' = io_tx io"
  by (auto simp: recv_exact_def split: if_splits)

lemma read_client_message_tx: "read_client_message n io = (x, io') \<Longrightarrow> io_tx io' = io_tx io"
  by (auto simp: read_client_message_def Let_def split: prod.splits option.splits if_splits dest!: recv_exact_tx)

lemma parse_ctx:
  assumes "cccam_protocol_parse lib mem buf (Some c) = Some (h, p, cx)"
  shows "\<exists>c'. cx = Some c' \<and> cx_mode c' = cx_mode c"
  using assms
  by (auto simp: cccam_protocol_parse_def Let_def split: if_splits option.splits prod.splits dest: decrypt_frame(1))

lemma send_cw_gcm:
  assumes "cx_mode cx = MODE_AES_GCM"
  shows "cccam_ecm_send_cw lib junk fd cx r io = (-1, cx, io)"
proof -
  have "cccam_protocol_build_cw lib n junk m (Some cx) = None" for n m
    using assms by (simp add: cccam_protocol_build_cw_def seal_gcm_fails)
  then show ?thesis by (simp add: cccam_ecm_send_cw_def Let_def)
qed

text \<open>The handshake of the server always leaves a key and a mode that stands for AES-GCM.\<close>

lemma handle_login_mode:
  assumes "digest_lengths lib" and "cccam_protocol_handle_login lib seed iv junk login n hs = Some (resp, hs1)"
  shows "hs_mode hs1 \<in> {HS_RSA_AES, HS_LEGACY} \<and> (\<exists>k. cccam_handshake_get_session_key 32 hs1 = Some k \<and> k \<noteq> [])"
proof -
  have k: "length (derive_session_key lib a b 32) = 32" "length (legacy_key lib l q) = 20" for a b l q
    using assms(1) by (simp_all add: derive_session_key_def cccam_crypto_derive_key_def digest_lengths_def legacy_key_def)
  then have ne: "derive_session_key lib a b 32 \<noteq> []" "legacy_key lib l q \<noteq> []" for a b l q
    by (metis list.size(3) zero_neq_numeral)+
  have neg: "cccam_handshake_negotiate_mode HS_RSA_AES hs = (HS_RSA_AES, hs\<lparr>hs_mode := HS_RSA_AES\<rparr>)"
    "cccam_handshake_negotiate_mode HS_LEGACY hs = (HS_LEGACY, hs\<lparr>hs_mode := HS_LEGACY\<rparr>)"
    by (simp_all add: cccam_handshake_negotiate_mode_def Let_def hs_defs)
  have ord: "HS_RSA_AES \<le> HS_RSA_AES" "\<not> HS_RSA_AES \<le> HS_LEGACY" by (simp_all add: hs_defs)
  show ?thesis
    using assms(2) k ne ord
    by (cases "300 \<le> lm_version login")
      (auto simp: cccam_protocol_handle_login_def neg cccam_handshake_rsa_server_def cccam_handshake_legacy_server_def Let_def
        split: if_splits)
qed

lemma login_session_gcm:
  assumes "digest_lengths lib" and "login_session lib rnd login hs = Some (resp, mode, key, hs1)"
  shows "mode = MODE_AES_GCM"
proof -
  from assms(2) obtain r where r: "cccam_protocol_handle_login lib (lr_seed rnd) (lr_iv rnd) (lr_junk rnd) login (16 + 12 + 16 + 16) hs = Some (r, hs1)"
    by (auto simp: login_session_def Let_def split: option.splits prod.splits)
  from handle_login_mode [OF assms(1) r] have "handshake_mode_to_crypt_mode (cccam_handshake_get_mode hs1) = MODE_AES_GCM"
    "cccam_handshake_get_session_key 32 hs1 \<noteq> None"
    by (auto simp: handshake_mode_to_crypt_mode_def cccam_handshake_get_mode_def hs_defs)
  with assms(2) r show ?thesis by (auto simp: login_session_def Let_def)
qed

text \<open>One login: what it does to the session, and what it sends.\<close>

lemma login_account_frame:
  "login_account lib mem writable now addr login w = (ok, w1) \<Longrightarrow> sv_ecm w1 = sv_ecm w \<and> sv_optimizer w1 = sv_optimizer w \<and>
     sv_config w1 = sv_config w"
  by (auto simp: login_account_def Let_def split: prod.splits if_splits)

lemma handle_login_step:
  assumes inv: "ecm_inv own held (sv_ecm w)" "a \<in> own" and lib: "digest_lengths lib" and ok: "session_ok a w"
  shows "\<exists>rc w' io'. handle_client_login lib rnd mem writable now a p w io = Some (rc, w', io') \<and>
    ecm_inv own held (sv_ecm w') \<and> session_ok a w' \<and> sv_optimizer w' = sv_optimizer w \<and> others_kept a w w' \<and>
    (session_auth a w \<longrightarrow> session_auth a w' \<and> io' = io) \<and>
    (io_tx io' = io_tx io \<or> session_auth a w' \<and> (\<exists>m \<in> login_acks. io_tx io' = io_tx io @ m))"
proof -
  obtain c where c: "pl_heap (sv_pool w) a = Some c" by (rule owner_alloc [OF inv])
  have noop: ?thesis if "handle_client_login lib rnd mem writable now a p w io = Some (rc, w', io)"
    "ecm_inv own held (sv_ecm w')" "client_view (sv_pool w') = client_view (sv_pool w)" "sv_optimizer w' = sv_optimizer w" for rc w'
    using that ok by (auto simp: session_ok_def session_auth_def others_kept_same)
  show ?thesis
  proof (cases "cl_is_authenticated c \<or> server_login_blocked now (cl_addr c) (sv_fails w) \<or> parse_login p = None")
    case True
    with c inv show ?thesis
      by (intro noop [of "if cl_is_authenticated c then 0 else -1" w]) (auto simp: handle_client_login_def)
  next
    case False
    then obtain login where login: "parse_login p = Some login" by auto
    obtain acc w1 where acc: "login_account lib mem writable now (cl_addr c) login w = (acc, w1)" by fastforce
    note fr = login_account_frame [OF acc]
    define max_hops :: u8 where "max_hops = (case cccam_user_manager_get_max_hops (lm_username login) (sv_users w1) of None \<Rightarrow> 0 | Some h \<Rightarrow> h)"
    show ?thesis
    proof (cases "acc \<and> login_session lib rnd login (ew_hs (sv_ecm w1)) \<noteq> None")
      case no: False
      have "handle_client_login lib rnd mem writable now a p w io = Some (-1, w1, io)"
        using c False login acc no
        by (cases "login_session lib rnd login (ew_hs (sv_ecm w1))") (auto simp: handle_client_login_def)
      with fr inv show ?thesis by (intro noop [of "-1" w1]) auto
    next
      case True
      then obtain resp mode key hs1 where s: "login_session lib rnd login (ew_hs (sv_ecm w1)) = Some (resp, mode, key, hs1)" by auto
      define w2 where "w2 = w1\<lparr>sv_ecm := (sv_ecm w1)\<lparr>ew_hs := hs1\<rparr>\<rparr>"
      obtain rc cx where set: "cccam_protocol_set_crypto (sc_allowed_modes (sv_config w2)) mode (Some key) (cl_crypto c) = (rc, cx)"
        by fastforce
      have w2: "ecm_inv own held (sv_ecm w2)" "sv_pool w2 = sv_pool w" "sv_optimizer w2 = sv_optimizer w"
        "sv_config w2 = sv_config w1"
        using fr inv by (simp_all add: w2_def ecm_inv_def)
      show ?thesis
      proof (cases "rc = 0")
        case rc: False
        have "handle_client_login lib rnd mem writable now a p w io = Some (-1, w2, io)"
          using c False login acc True s set rc by (simp add: handle_client_login_def w2_def)
        with w2 show ?thesis by (intro noop [of "-1" w2]) auto
      next
        case rc: True
        define c' where "c' = c\<lparr>cl_crypto := cx, cl_username := c_strncpy 64 (lm_username login),
            cl_version := lm_version login, cl_crypt_mode := mode, cl_hop_count := uint max_hops, cl_is_authenticated := True\<rparr>"
        define w3 where "w3 = set_client a c' w2"
        have inv3: "ecm_inv own held (sv_ecm w3)"
          unfolding w3_def using inv(2) w2 c by (intro set_client_inv [where c = c]) (simp_all add: c'_def)
        have mode: "cx_mode cx = MODE_AES_GCM"
          using set rc login_session_gcm [OF lib s] set_crypto_gcm by auto
        then have sess: "session_ok a w3" "session_auth a w3"
          by (auto simp: session_ok_def session_auth_def w3_def set_client_view c'_def)
        have un: "\<not> session_auth a w" using False c by (simp add: session_auth_def client_view_def)
        have step: "handle_client_login lib rnd mem writable now a p w io =
          (case cccam_protocol_build_login_ack BUFFER_SIZE resp of None \<Rightarrow> Some (-1, w3, io)
             | Some ack \<Rightarrow> (case remote_send ack io of (sent, io1) \<Rightarrow> Some (if sent then 0 else -1, w3, io1)))"
          using c False login acc True s set [unfolded w2(4)] rc unfolding w3_def c'_def max_hops_def w2_def
          by (simp add: handle_client_login_def Let_def)
        have opt: "sv_optimizer w3 = sv_optimizer w" "others_kept a w w3" using w2 by (simp_all add: w3_def others_kept_set)
        show ?thesis
        proof (cases "cccam_protocol_build_login_ack BUFFER_SIZE resp")
          case None
          with step inv3 sess un opt show ?thesis by simp
        next
          case (Some ack)
          obtain sent io1 where "remote_send ack io = (sent, io1)" by fastforce
          with Some step inv3 sess un opt send_tx [OF this] show ?thesis by (auto simp: login_acks_def)
        qed
      qed
    qed
  qed
qed

text \<open>One ECM request: the client's context is AES-GCM, so nothing can be sent.\<close>

lemma same_view_ok:
  assumes "client_view (sv_pool w') = client_view (sv_pool w)"
  shows "session_ok a w' \<longleftrightarrow> session_ok a w" "session_auth a w' \<longleftrightarrow> session_auth a w"
  using assms by (simp_all add: session_ok_def session_auth_def)

lemma set_client_same_view:
  assumes "pl_heap (sv_pool w) a = Some c" and "cl_is_authenticated c' = cl_is_authenticated c" and "cl_crypto c' = cl_crypto c"
  shows "client_view (sv_pool (set_client a c' w)) = client_view (sv_pool w)"
  using assms by (auto simp: set_client_view client_view_def fun_eq_iff)

lemma register_ecm_simps [simp]:
  "sv_ecm (register_ecm n b w) = sv_ecm w" "sv_optimizer (register_ecm n b w) = sv_optimizer w"
  by (simp_all add: register_ecm_def)

lemma handle_ecm_step:
  assumes inv: "ecm_inv own held (sv_ecm w)" "a \<in> own" and ok: "session_ok a w"
  shows "(\<exists>rc w'. handle_client_ecm lib junk mem now a p w io = Some (rc, w', io) \<and> ecm_inv own held (sv_ecm w') \<and>
    client_view (sv_pool w') = client_view (sv_pool w) \<and> sv_optimizer w' = sv_optimizer w) \<or>
    handle_client_ecm lib junk mem now a p w io = None \<and> message_unanswered emu now MSG_ECM p w"
proof -
  obtain c where c: "pl_heap (sv_pool w) a = Some c" by (rule owner_alloc [OF inv])
  show ?thesis
  proof (cases "cl_is_authenticated c")
    case False
    with c inv show ?thesis by (simp add: handle_client_ecm_def)
  next
    case auth: True
    obtain allowed start n where al: "client_ecm_allowed (sc_max_ecm_per_sec (sv_config w)) now (cl_ecm_window_start c, cl_ecm_window_count c)
      = (allowed, start, n)" by (metis prod_cases3)
    define c1 where "c1 = c\<lparr>cl_ecm_window_start := start, cl_ecm_window_count := n\<rparr>"
    define w1 where "w1 = set_client a c1 w"
    have w1: "ecm_inv own held (sv_ecm w1)" "client_view (sv_pool w1) = client_view (sv_pool w)" "sv_optimizer w1 = sv_optimizer w"
      "sv_config w1 = sv_config w"
      using set_client_inv [OF inv c, of c1] set_client_same_view [of w a c c1] c by (simp_all add: w1_def c1_def)
    have eng: "ew_engines (sv_ecm w1) = ew_engines (sv_ecm w)" by (simp add: w1_def set_client_def)
    show ?thesis
    proof (cases "\<not> allowed \<or> parse_ecm_payload p = None")
      case True
      with c auth al w1 show ?thesis
        by (intro disjI1 exI [of _ "if allowed then -1 else 0"] exI [of _ w1]) (auto simp: handle_client_ecm_def w1_def c1_def)
    next
      case False
      then obtain rq0 where rq0: "parse_ecm_payload p = Some rq0" by auto
      define rq where "rq = rq0\<lparr>rq_client_id := cl_client_id c, rq_hop := word_of_int (cl_hop_count c)\<rparr>"
      show ?thesis
      proof (cases "cccam_ecm_process lib (sc_allowed_modes (sv_config w1)) mem now rq (sv_ecm w1)")
      case None
      from process_None [OF w1(1) None] have "message_unanswered emu now MSG_ECM p w"
        by (simp add: message_unanswered_def rq0 rq_def eng)
      moreover have "handle_client_ecm lib junk mem now a p w io = None"
        using c auth al False rq0 None by (simp add: handle_client_ecm_def Let_def w1(4) flip: c1_def w1_def rq_def)
      ultimately show ?thesis by blast
      next
      case (Some y)
      with process_keeps [OF w1(1)] obtain rc resp e where
        pr: "cccam_ecm_process lib (sc_allowed_modes (sv_config w1)) mem now rq (sv_ecm w1) = Some (rc, resp, e)"
        "ecm_inv own held e" by (metis option.distinct(1))
      define w2 where "w2 = w1\<lparr>sv_ecm := e\<rparr>"
      have w2: "ecm_inv own held (sv_ecm w2)" "client_view (sv_pool w2) = client_view (sv_pool w)" "sv_optimizer w2 = sv_optimizer w"
        using pr(2) process_view [OF pr(1)] w1 by (simp_all add: w2_def)
      obtain c2 where c2: "pl_heap (sv_pool w2) a = Some c2" by (rule owner_alloc [OF w2(1) inv(2)])
      have cx: "cx_mode (cl_crypto c2) = MODE_AES_GCM"
        using fun_cong [OF w2(2), of a] c c2 auth ok by (auto simp: client_view_def session_ok_def)
      define w3 where "w3 = set_client a (c2\<lparr>cl_crypto := cl_crypto c2\<rparr>) w2"
      have w3: "ecm_inv own held (sv_ecm w3)" "client_view (sv_pool w3) = client_view (sv_pool w)" "sv_optimizer w3 = sv_optimizer w"
        using set_client_inv [OF w2(1) inv(2) c2] set_client_same_view [OF c2] w2 by (simp_all add: w3_def)
      have step: "handle_client_ecm lib junk mem now a p w io =
        (case resp of Some r \<Rightarrow> if rc = 0 \<and> rs_found r then Some (0, register_ecm (cl_username c2) True w3, io)
            else Some (0, register_ecm (cl_username c) False w2, io)
          | None \<Rightarrow> Some (0, register_ecm (cl_username c) False w2, io))"
        using c auth al False rq0 pr(1) c2 send_cw_gcm [OF cx]
        by (cases resp) (simp_all add: handle_client_ecm_def Let_def w1(4) w3_def flip: c1_def w1_def rq_def w2_def)
      show ?thesis
        unfolding step using w2 w3 by (auto split: option.split)
      qed
    qed
  qed
qed

text \<open>One round of the loop, then the whole session.\<close>

lemma client_message_step:
  assumes inv: "ecm_inv own held (sv_ecm w)" "a \<in> own" and lib: "digest_lengths lib" and ok: "session_ok a w"
  shows "(\<exists>rc w' io'. client_message emu lib rnd mem writable now a m p w io = Some (rc, w', io') \<and>
    ecm_inv own held (sv_ecm w') \<and> session_ok a w' \<and> sv_optimizer w' = sv_optimizer w \<and> others_kept a w w' \<and>
    (session_auth a w \<longrightarrow> session_auth a w' \<and> io' = io) \<and>
    (io_tx io' = io_tx io \<or> session_auth a w' \<and> (\<exists>m \<in> login_acks. io_tx io' = io_tx io @ m))) \<or>
    client_message emu lib rnd mem writable now a m p w io = None \<and> message_unanswered emu now m p w"
proof -
  obtain c where c: "pl_heap (sv_pool w) a = Some c" by (rule owner_alloc [OF inv])
  consider (login) "m = MSG_LOGIN" | (ecm) "m = MSG_ECM" "m \<noteq> MSG_LOGIN"
    | (emm) "m = MSG_EMM" "m \<noteq> MSG_LOGIN" "m \<noteq> MSG_ECM"
    | (alive) "m = MSG_KEEPALIVE" "m \<notin> {MSG_LOGIN, MSG_ECM, MSG_EMM}" | (other) "m \<notin> {MSG_LOGIN, MSG_ECM, MSG_EMM, MSG_KEEPALIVE}"
    by blast
  then show ?thesis
  proof cases
    case login
    with handle_login_step [OF inv lib ok] show ?thesis by (simp add: client_message_def)
  next
    case ecm
    have m: "client_message emu lib rnd mem writable now a m p w io = handle_client_ecm lib (lr_junk rnd) mem now a p w io"
      using ecm by (simp add: client_message_def)
    from handle_ecm_step [OF inv ok, of lib "lr_junk rnd" mem now p io emu] show ?thesis
    proof
      assume "\<exists>rc w'. handle_client_ecm lib (lr_junk rnd) mem now a p w io = Some (rc, w', io) \<and> ecm_inv own held (sv_ecm w') \<and>
        client_view (sv_pool w') = client_view (sv_pool w) \<and> sv_optimizer w' = sv_optimizer w"
      then obtain rc w' where
        s: "handle_client_ecm lib (lr_junk rnd) mem now a p w io = Some (rc, w', io)" "ecm_inv own held (sv_ecm w')"
        "client_view (sv_pool w') = client_view (sv_pool w)" "sv_optimizer w' = sv_optimizer w" by blast
      with same_view_ok [OF s(3)] ok show ?thesis by (auto simp: m others_kept_same)
    qed (use ecm(1) m in auto)
  next
    case emm
    define f where "f = cccam_ecm_forward_emm emu lib (sc_allowed_modes (sv_config w)) now
                (of_be16 (p ! 0) (p ! 1)) (of_be16 (p ! 2) (p ! 3)) (drop 4 p) (sv_ecm w)"
    have m: "client_message emu lib rnd mem writable now a m p w io =
      (if length p \<ge> 4 then map_option (\<lambda>(n, e). (0, w\<lparr>sv_ecm := e\<rparr>, io)) f else Some (0, w, io))"
      using emm by (simp add: client_message_def f_def)
    show ?thesis
    proof (cases f)
      case None
      then have "emu now (of_be16 (p ! 0) (p ! 1)) (drop 4 p) (ew_engines (sv_ecm w)) = None"
        by (simp add: f_def cccam_ecm_forward_emm_def Let_def split: option.splits prod.splits)
      with emm None inv ok show ?thesis unfolding m by (cases "length p \<ge> 4") (simp_all add: message_unanswered_def others_kept_same)
    next
      case (Some y)
      obtain n e where y: "y = (n, e)" by fastforce
      with Some have "ecm_inv own held e" "ew_pool e = sv_pool w"
        using inv by (auto simp: f_def cccam_ecm_forward_emm_def ecm_inv_def Let_def split: prod.splits option.splits)
      then have "ecm_inv own held (sv_ecm (w\<lparr>sv_ecm := e\<rparr>))" "client_view (sv_pool (w\<lparr>sv_ecm := e\<rparr>)) = client_view (sv_pool w)" by simp_all
      with same_view_ok [of "w\<lparr>sv_ecm := e\<rparr>" w a] others_kept_same [of "w\<lparr>sv_ecm := e\<rparr>" w a] inv ok show ?thesis
        by (simp add: m Some y)
    qed
  next
    case alive
    define w' where "w' = set_client a (c\<lparr>cl_last_keepalive := now\<rparr>) w"
    have "client_message emu lib rnd mem writable now a m p w io = Some (0, w', io)"
      using alive c by (simp add: client_message_def cccam_client_update_keepalive_def update_client_def w'_def set_client_def)
    moreover have "ecm_inv own held (sv_ecm w')" "client_view (sv_pool w') = client_view (sv_pool w)"
      using set_client_inv [OF inv c] set_client_same_view [OF c] by (simp_all add: w'_def)
    ultimately show ?thesis using same_view_ok [of w' w a] others_kept_same [of w' w a] ok by (simp add: w'_def)
  next
    case other
    with inv ok show ?thesis by (simp add: client_message_def)
  qed
qed

lemma client_round_step:
  assumes inv: "ecm_inv own held (sv_ecm w)" "a \<in> own" and lib: "digest_lengths lib" and ok: "session_ok a w"
  shows "(\<exists>rc w' io'. client_round emu lib rnd mem writable now a w io = Some (rc, w', io') \<and>
    ecm_inv own held (sv_ecm w') \<and> session_ok a w' \<and> sv_optimizer w' = sv_optimizer w \<and> others_kept a w w' \<and>
    (session_auth a w \<longrightarrow> session_auth a w' \<and> io_tx io' = io_tx io) \<and>
    (io_tx io' = io_tx io \<or> session_auth a w' \<and> (\<exists>m \<in> login_acks. io_tx io' = io_tx io @ m))) \<or>
    client_round emu lib rnd mem writable now a w io = None \<and> round_unanswered emu lib mem now a w io"
proof -
  obtain c where c: "pl_heap (sv_pool w) a = Some c" by (rule owner_alloc [OF inv])
  obtain x io1 where rd: "read_client_message BUFFER_SIZE io = (x, io1)" by fastforce
  note tx = read_client_message_tx [OF rd]
  show ?thesis
  proof (cases "x = None \<or> cccam_protocol_parse lib mem (the x) (Some (cl_crypto c)) = None")
    case True
    with c rd inv ok tx show ?thesis by (cases x) (auto simp: client_round_def)
  next
    case False
    then obtain msg h pl cx where x: "x = Some msg" and pr: "cccam_protocol_parse lib mem msg (Some (cl_crypto c)) = Some (h, pl, cx)"
      by auto
    from parse_ctx [OF pr] obtain cx' where cx: "cx = Some cx'" "cx_mode cx' = cx_mode (cl_crypto c)" by blast
    define w1 where "w1 = set_client a (c\<lparr>cl_crypto := cx'\<rparr>) w"
    define p where "p = (case pl of None \<Rightarrow> [] | Some p \<Rightarrow> p)"
    have w1: "ecm_inv own held (sv_ecm w1)" "session_ok a w1" "session_auth a w1 \<longleftrightarrow> session_auth a w" "sv_optimizer w1 = sv_optimizer w"
      "others_kept a w w1"
      using set_client_inv [OF inv c] ok cx c
      by (auto simp: w1_def session_ok_def session_auth_def set_client_view client_view_def others_kept_def)
    have "client_round emu lib rnd mem writable now a w io = client_message emu lib rnd mem writable now a (mh_msg_id h) p w1 io1"
      using c rd x pr cx by (simp add: client_round_def flip: p_def w1_def)
    moreover have eng: "ew_engines (sv_ecm w1) = ew_engines (sv_ecm w)" by (simp add: w1_def set_client_def)
    have "round_unanswered emu lib mem now a w io \<longleftrightarrow> message_unanswered emu now (mh_msg_id h) p w1"
      unfolding message_unanswered_def eng using c rd x pr by (simp add: round_unanswered_def message_unanswered_def flip: p_def)
    ultimately show ?thesis
      using client_message_step [OF w1(1) inv(2) lib w1(2), of emu rnd mem writable now "mh_msg_id h" p io1] w1(3-5) tx
        others_kept_trans [OF w1(5)] by auto
  qed
qed

definition session_keeps :: "nat set \<Rightarrow> nat multiset \<Rightarrow> nat \<Rightarrow> server \<Rightarrow> remote_io \<Rightarrow> server \<Rightarrow> remote_io \<Rightarrow> bool" where
  "session_keeps own held a w io w' io' \<longleftrightarrow>
    ecm_inv own held (sv_ecm w') \<and> session_ok a w' \<and> sv_optimizer w' = sv_optimizer w \<and> others_kept a w w' \<and>
    (session_auth a w \<longrightarrow> session_auth a w') \<and>
    (io_tx io' = io_tx io \<or> \<not> session_auth a w \<and> session_auth a w' \<and> (\<exists>m \<in> login_acks. io_tx io' = io_tx io @ m))"

lemma session_keeps_trans:
  "session_keeps own held a w io w1 io1 \<Longrightarrow> session_keeps own held a w1 io1 w' io' \<Longrightarrow> session_keeps own held a w io w' io'"
  using others_kept_trans by (auto simp: session_keeps_def)

lemma client_session_step:
  assumes "ecm_inv own held (sv_ecm w)" "a \<in> own" "digest_lengths lib" "session_ok a w"
  shows "(\<exists>rc w' io'. client_session emu lib a xs w io = Some (rc, w', io') \<and> session_keeps own held a w io w' io') \<or>
    client_session emu lib a xs w io = None \<and>
    (\<exists>pre rnd mem writable now post w' io'. xs = pre @ (rnd, mem, writable, now) # post \<and>
       client_session emu lib a pre w io = Some (0, w', io') \<and> session_keeps own held a w io w' io' \<and>
       round_unanswered emu lib mem now a w' io')"
  using assms(1,4)
proof (induction xs arbitrary: w io)
  case Nil
  then show ?case by (simp add: session_keeps_def others_kept_same)
next
  case (Cons x xs)
  obtain rnd mem writable now where x: "x = (rnd, mem, writable, now)" by (metis prod_cases4)
  from client_round_step [OF Cons.prems(1) assms(2,3) Cons.prems(2), of emu rnd mem writable now io] show ?case
  proof
    assume n: "client_round emu lib rnd mem writable now a w io = None \<and> round_unanswered emu lib mem now a w io"
    have "session_keeps own held a w io w io" using Cons.prems by (simp add: session_keeps_def others_kept_same)
    with n show ?case
      by (intro disjI2 conjI exI [of _ "[]"] exI [of _ rnd] exI [of _ mem] exI [of _ writable] exI [of _ now] exI [of _ xs]
          exI [of _ w] exI [of _ io]) (simp_all add: x)
  next
    assume "\<exists>rc w' io'. client_round emu lib rnd mem writable now a w io = Some (rc, w', io') \<and>
      ecm_inv own held (sv_ecm w') \<and> session_ok a w' \<and> sv_optimizer w' = sv_optimizer w \<and> others_kept a w w' \<and>
      (session_auth a w \<longrightarrow> session_auth a w' \<and> io_tx io' = io_tx io) \<and>
      (io_tx io' = io_tx io \<or> session_auth a w' \<and> (\<exists>m \<in> login_acks. io_tx io' = io_tx io @ m))"
    then obtain rc w1 io1 where r: "client_round emu lib rnd mem writable now a w io = Some (rc, w1, io1)"
      "session_keeps own held a w io w1 io1" by (auto simp: session_keeps_def)
    show ?case
    proof (cases "rc = 0")
      case True
      have i: "ecm_inv own held (sv_ecm w1)" "session_ok a w1" using r(2) by (simp_all add: session_keeps_def)
      from Cons.IH [OF i, of io1] show ?thesis
      proof
        assume "\<exists>rc w' io'. client_session emu lib a xs w1 io1 = Some (rc, w', io') \<and> session_keeps own held a w1 io1 w' io'"
        with r x True session_keeps_trans [OF r(2)] show ?thesis by auto
      next
        assume "client_session emu lib a xs w1 io1 = None \<and>
          (\<exists>pre rnd mem writable now post w' io'. xs = pre @ (rnd, mem, writable, now) # post \<and>
            client_session emu lib a pre w1 io1 = Some (0, w', io') \<and> session_keeps own held a w1 io1 w' io' \<and>
            round_unanswered emu lib mem now a w' io')"
        then obtain pre rnd1 mem1 writable1 now1 post w' io' where "client_session emu lib a xs w1 io1 = None"
          "xs = pre @ (rnd1, mem1, writable1, now1) # post" "client_session emu lib a pre w1 io1 = Some (0, w', io')"
          "session_keeps own held a w1 io1 w' io'" "round_unanswered emu lib mem1 now1 a w' io'" by blast
        with r x True session_keeps_trans [OF r(2)] show ?thesis
          by (intro disjI2 conjI exI [of _ "x # pre"] exI [of _ rnd1] exI [of _ mem1] exI [of _ writable1] exI [of _ now1]
              exI [of _ post] exI [of _ w'] exI [of _ io']) simp_all
      qed
    qed (use r x in auto)
  qed
qed

subsection \<open>The server as a system of operations\<close>

text \<open>
  \<open>SAccept\<close>: the main loop accepts a socket; \<open>SRound\<close>: a client's thread handles one message with the given
  connection; \<open>SEnd\<close>: a thread ends; \<open>SClean\<close>: the cache sweep; \<open>SMax\<close>: a new connection limit. A step
  whose client has no thread is skipped, as is an accept at an address that \<open>calloc\<close> cannot return.
\<close>

datatype server_op =
    SAccept bool nat bool time_t int u32
  | SRound nat login_random bool bool time_t remote_io
  | SEnd nat
  | SClean time_t
  | SMax int

type_synonym server_state = "nat set \<times> server"

fun server_step ::
  "(time_t \<Rightarrow> u16 \<Rightarrow> u8 list \<Rightarrow> engines \<Rightarrow> engines option) \<Rightarrow> ossl \<Rightarrow> server_op \<Rightarrow> server_state \<Rightarrow> server_state option" where
  "server_step emu lib (SAccept mem a thread now fd addr) (ts, w) =
     (if pl_heap (sv_pool w) a \<noteq> None then Some (ts, w)
      else map_option (\<lambda>(r, w'). (case r of None \<Rightarrow> ts | Some b \<Rightarrow> insert b ts, w')) (server_accept mem a thread now fd addr w))"
| "server_step emu lib (SRound a rnd mem writable now io) (ts, w) =
     (if a \<notin> ts then Some (ts, w)
      else map_option (\<lambda>(rc, w', io'). (ts, w')) (client_round emu lib rnd mem writable now a w io))"
| "server_step emu lib (SEnd a) (ts, w) =
     (if a \<notin> ts then Some (ts, w) else map_option (\<lambda>w'. (ts - {a}, w')) (client_thread_end a w))"
| "server_step emu lib (SClean now) (ts, w) =
     Some (ts, w\<lparr>sv_ecm := snd (cccam_ecm_clean_expired_cache now (sv_ecm w))\<rparr>)"
| "server_step emu lib (SMax n) (ts, w) =
     Some (ts, w\<lparr>sv_optimizer := cccam_load_balancer_set_max_connections n (sv_optimizer w)\<rparr>)"

fun server_unanswered ::
  "(time_t \<Rightarrow> u16 \<Rightarrow> u8 list \<Rightarrow> engines \<Rightarrow> engines option) \<Rightarrow> ossl \<Rightarrow> server_op \<Rightarrow> server_state \<Rightarrow> bool" where
  "server_unanswered emu lib (SRound a rnd mem writable now io) (ts, w) \<longleftrightarrow> a \<in> ts \<and> round_unanswered emu lib mem now a w io"
| "server_unanswered emu lib _ _ \<longleftrightarrow> False"

definition server_initial :: "server_config \<Rightarrow> ip_lists \<Rightarrow> users \<Rightarrow> file_system \<Rightarrow> engines \<Rightarrow> remote_env \<Rightarrow> server" where
  "server_initial cfg ips users files eng env = \<lparr>sv_config = cfg, sv_ecm = ecm_world_initial eng env, sv_users = users,
     sv_files = files, sv_fails = fail_table_initial, sv_ips = ips, sv_optimizer = optimizer_initial\<rparr>"

text \<open>
  Every thread owns its client and holds one reference, its session is in order, and the connection counter
  counts the threads.
\<close>

definition server_inv :: "server_state \<Rightarrow> bool" where
  "server_inv s = (case s of (ts, w) \<Rightarrow> finite ts \<and> ecm_inv ts (mset_set ts) (sv_ecm w) \<and> (\<forall>a \<in> ts. session_ok a w) \<and>
     op_connections (sv_optimizer w) = int (card ts))"

lemma ecm_inv_pool:
  assumes "ecm_inv own held (sv_ecm w)" and "pool_step \<lparr>pw_pool = sv_pool w, pw_owners = own, pw_held = held\<rparr>
     \<lparr>pw_pool = p, pw_owners = own', pw_held = held'\<rparr>"
  shows "ecm_inv own' held' (sv_ecm (set_pool p w))"
  using assms pool_reachable.Step [OF _ assms(2)] by (simp add: ecm_inv_def set_pool_def)

lemma ecm_inv_steps:
  assumes "ecm_inv own held (sv_ecm w)"
  shows "cccam_client_create mem a now fd addr (sv_pool w) = (Some a, p) \<Longrightarrow> pl_heap (sv_pool w) a = None \<Longrightarrow>
      ecm_inv (insert a own) held (sv_ecm (set_pool p w))"
    and "a \<in> own \<Longrightarrow> cccam_client_ref a (sv_pool w) = Some (True, p) \<Longrightarrow> ecm_inv own (add_mset a held) (sv_ecm (set_pool p w))"
    and "a \<in># held \<Longrightarrow> cccam_client_unref a (sv_pool w) = Some p \<Longrightarrow> ecm_inv own (held - {#a#}) (sv_ecm (set_pool p w))"
    and "a \<in> own \<Longrightarrow> cccam_client_destroy a (sv_pool w) = Some p \<Longrightarrow> ecm_inv (own - {a}) held (sv_ecm (set_pool p w))"
  using pool_step.Create [of mem a now fd addr "\<lparr>pw_pool = sv_pool w, pw_owners = own, pw_held = held\<rparr>" p]
    pool_step.Ref [of a "\<lparr>pw_pool = sv_pool w, pw_owners = own, pw_held = held\<rparr>" p]
    pool_step.Unref [of a "\<lparr>pw_pool = sv_pool w, pw_owners = own, pw_held = held\<rparr>" p]
    pool_step.Destroy [of a "\<lparr>pw_pool = sv_pool w, pw_owners = own, pw_held = held\<rparr>" p]
  by (auto intro!: ecm_inv_pool [OF assms])

lemma create_view:
  assumes "cccam_client_create mem a now fd addr p = (Some b, p')"
  shows "b = a" "pl_heap p' = (pl_heap p)(a \<mapsto> new_client now fd addr a)"
  using assms by (auto simp: cccam_client_create_def split: if_splits option.splits)

lemma create_fails: "cccam_client_create mem a now fd addr p = (None, p') \<Longrightarrow> p' = p"
  by (auto simp: cccam_client_create_def split: if_splits option.splits)

lemma new_session: "pl_heap (sv_pool w) a = Some c \<Longrightarrow> \<not> cl_is_authenticated c \<Longrightarrow> session_ok a w"
  by (auto simp: session_ok_def client_view_def)

lemma session_ok_frame: "client_view (sv_pool w') b = client_view (sv_pool w) b \<Longrightarrow> session_ok b w' \<longleftrightarrow> session_ok b w"
  by (simp add: session_ok_def)

text \<open>A client that an owner with one more reference destroys and releases.\<close>

lemma destroy_unref:
  assumes inv: "ecm_inv own held (sv_ecm w)" and "a \<in> own" "count held a = 1" and conn: "0 < op_connections (sv_optimizer w)"
  shows "\<exists>w'. server_destroy_client a w = Some w' \<and>
    (\<exists>p. cccam_client_unref a (sv_pool w') = Some p \<and> ecm_inv (own - {a}) (held - {#a#}) (sv_ecm (set_pool p w')) \<and>
      (\<forall>b. b \<noteq> a \<longrightarrow> client_view p b = client_view (sv_pool w) b)) \<and>
    op_connections (sv_optimizer w') = op_connections (sv_optimizer w) - 1 \<and> sv_config w' = sv_config w"
proof -
  obtain c where c: "pl_heap (sv_pool w) a = Some c" by (rule owner_alloc [OF inv assms(2)])
  have r: "pool_reachable \<lparr>pw_pool = sv_pool w, pw_owners = own, pw_held = held\<rparr>"
    using inv by (simp add: ecm_inv_def)
  have refs: "cl_refs c = 2"
    using heap_okD [of "pl_heap (sv_pool w)" own held a c] reachable_inv [OF r] c assms(2,3) by (simp add: pool_inv_alt)
  obtain p1 where p1: "cccam_client_destroy a (sv_pool w) = Some p1"
    "pl_heap p1 = (pl_heap (sv_pool w))(a \<mapsto> c\<lparr>cl_zombie := True, cl_refs := 1\<rparr>)"
    using c refs by (auto simp: cccam_client_destroy_def Let_def split: option.splits)
  define w1 where "w1 = (set_pool p1 w)\<lparr>sv_optimizer := cccam_load_balancer_release_connection (sv_optimizer w)\<rparr>"
  have d: "server_destroy_client a w = Some w1" by (simp add: server_destroy_client_def p1 w1_def)
  have i1: "ecm_inv (own - {a}) held (sv_ecm w1)"
    using ecm_inv_steps(4) [OF inv assms(2) p1(1)] by (simp add: w1_def)
  have pool1: "sv_pool w1 = p1" by (simp add: w1_def)
  define p2 where "p2 = p1\<lparr>pl_heap := (pl_heap p1)(a := None)\<rparr>"
  have u: "cccam_client_unref a p1 = Some p2"
    by (simp add: cccam_client_unref_def p1(2) p2_def)
  have "a \<in># held" using assms(3) by (metis count_eq_zero_iff one_neq_zero)
  then have "ecm_inv (own - {a}) (held - {#a#}) (sv_ecm (set_pool p2 w1))"
    using ecm_inv_steps(3) [OF i1] u by (simp add: pool1)
  moreover have "client_view p2 b = client_view (sv_pool w) b" if "b \<noteq> a" for b
    using that by (simp add: client_view_def p2_def p1(2))
  ultimately show ?thesis
    using d u conn by (auto simp: w1_def cccam_load_balancer_release_connection_def)
qed

lemma set_pool_same [simp]: "set_pool (sv_pool w) w = w"
  by (simp add: set_pool_def)

lemma not_owner: "ecm_inv own held (sv_ecm w) \<Longrightarrow> pl_heap (sv_pool w) a = None \<Longrightarrow> a \<notin> own"
  by (auto elim: owner_alloc)

lemma owner_alive:
  assumes "ecm_inv own held (sv_ecm w)" and "a \<in> own" and "pl_heap (sv_pool w) a = Some c"
  shows "\<not> cl_zombie c"
proof -
  have "pool_inv \<lparr>pw_pool = sv_pool w, pw_owners = own, pw_held = held\<rparr>"
    using assms(1) by (intro reachable_inv) (simp add: ecm_inv_def)
  with heap_okD [of "pl_heap (sv_pool w)" own held a c] assms show ?thesis by (simp add: pool_inv_alt)
qed

lemma client_view_upd: "pl_heap p' = (pl_heap p)(a := x) \<Longrightarrow> b \<noteq> a \<Longrightarrow> client_view p' b = client_view p b"
  by (simp add: client_view_def)

lemma server_accept_step:
  assumes inv: "server_inv (ts, w)" and free: "pl_heap (sv_pool w) a = None"
  shows "\<exists>r w'. server_accept mem a thread now fd addr w = Some (r, w') \<and>
    server_inv (case r of None \<Rightarrow> ts | Some b \<Rightarrow> insert b ts, w')"
proof -
  from inv have i: "finite ts" "ecm_inv ts (mset_set ts) (sv_ecm w)" "\<forall>a \<in> ts. session_ok a w" "op_connections (sv_optimizer w) = int (card ts)"
    by (simp_all add: server_inv_def)
  note fresh = not_owner [OF i(2) free]
  define opt where "opt = (sv_optimizer w)\<lparr>op_connections := op_connections (sv_optimizer w) + 1\<rparr>"
  define w1 where "w1 = w\<lparr>sv_optimizer := opt\<rparr>"
  have w1: "sv_ecm w1 = sv_ecm w" "op_connections (sv_optimizer w1) = int (card ts) + 1"
    using i(4) by (simp_all add: w1_def opt_def)
  show ?thesis
  proof (cases "\<not> server_ip_allowed (sv_ips w) addr \<or> op_max_connections (sv_optimizer w) \<le> op_connections (sv_optimizer w)")
    case True
    with inv show ?thesis
      by (intro exI [of _ None] exI [of _ w]) (auto simp: server_accept_def cccam_load_balancer_allow_connection_def)
  next
    case False
    then have allow: "cccam_load_balancer_allow_connection (sv_optimizer w) = (1, opt)"
      by (simp add: cccam_load_balancer_allow_connection_def opt_def)
    obtain x p where cr: "cccam_client_create mem a now fd addr (sv_pool w) = (x, p)" by fastforce
    show ?thesis
    proof (cases x)
      case None
      have "cccam_load_balancer_release_connection opt = sv_optimizer w"
        using i(4) by (simp add: cccam_load_balancer_release_connection_def opt_def)
      moreover have "p = sv_pool w" using create_fails cr None by (auto simp: w1_def)
      ultimately have "server_accept mem a thread now fd addr w = Some (None, w)"
        using False allow cr None by (simp add: server_accept_def w1_def Let_def set_pool_def)
      with inv show ?thesis by simp
    next
      case (Some b)
      with create_view cr have b: "b = a" and p: "pl_heap p = (pl_heap (sv_pool w))(a \<mapsto> new_client now fd addr a)"
        by (auto simp: w1_def)
      define p1 where "p1 = p\<lparr>pl_heap := (pl_heap p)(a \<mapsto> (new_client now fd addr a)\<lparr>cl_refs := 2\<rparr>)\<rparr>"
      have ref: "cccam_client_ref a p = Some (True, p1)"
        by (simp add: cccam_client_ref_def pool_acquire_locked_def p p1_def new_client_def)
      define w2 where "w2 = set_pool p1 w1"
      have "ecm_inv (insert a ts) (mset_set ts) (sv_ecm (set_pool p w1))"
        using ecm_inv_steps(1) [of ts "mset_set ts" w1 mem a now fd addr p] i(2) cr Some b free by (simp add: w1)
      from ecm_inv_steps(2) [OF this, of a p1] ref
      have inv2: "ecm_inv (insert a ts) (add_mset a (mset_set ts)) (sv_ecm w2)"
        by (simp add: w2_def set_pool_def)
      have view: "client_view (sv_pool w2) c = client_view (sv_pool w) c" if "c \<noteq> a" for c
        using that by (simp add: w2_def client_view_def p1_def p)
      show ?thesis
      proof (cases thread)
        case True
        have acc: "server_accept mem a thread now fd addr w = Some (Some a, w2)"
          using False allow cr Some b ref True by (simp add: server_accept_def w2_def flip: w1_def)
        have "session_ok a w2"
          by (rule new_session [of _ _ "(new_client now fd addr a)\<lparr>cl_refs := 2\<rparr>"]) (simp_all add: w2_def p1_def new_client_def)
        then have "\<forall>c \<in> insert a ts. session_ok c w2" using i(3) view session_ok_frame fresh by (metis insert_iff)
        with inv2 i(1) fresh w1(2) have "server_inv (insert a ts, w2)" by (simp add: server_inv_def w2_def)
        with acc show ?thesis by auto
      next
        case no: False
        have cnt: "count (mset_set ts) a = 0" using fresh i(1) by simp
        define p2 where "p2 = p1\<lparr>pl_heap := (pl_heap p1)(a \<mapsto> (new_client now fd addr a)\<lparr>cl_refs := 1\<rparr>)\<rparr>"
        have un: "cccam_client_unref a p1 = Some p2"
          by (simp add: cccam_client_unref_def p1_def p2_def new_client_def)
        have inv3: "ecm_inv (insert a ts) (mset_set ts) (sv_ecm (set_pool p2 w2))"
          using ecm_inv_steps(3) [OF inv2, of a p2] un by (simp add: w2_def)
        obtain p3 where p3: "cccam_client_destroy a p2 = Some p3" "pl_heap p3 = (pl_heap p2)(a := None)"
          by (auto simp: cccam_client_destroy_def p2_def new_client_def Let_def split: option.splits)
        define w3 where "w3 = (set_pool p3 w2)\<lparr>sv_optimizer := cccam_load_balancer_release_connection (sv_optimizer w2)\<rparr>"
        have acc: "server_accept mem a thread now fd addr w = Some (None, w3)"
          using False allow cr Some b ref no un p3
          by (simp add: server_accept_def w3_def w2_def server_destroy_client_def set_pool_def w1_def)
        have "ecm_inv (insert a ts - {a}) (mset_set ts) (sv_ecm (set_pool p3 (set_pool p2 w2)))"
          using ecm_inv_steps(4) [OF inv3, of a p3] p3 by simp
        then have "ecm_inv ts (mset_set ts) (sv_ecm w3)" using fresh by (simp add: w3_def set_pool_def)
        moreover have "client_view (sv_pool w3) c = client_view (sv_pool w) c" if "c \<noteq> a" for c
          using view [OF that] that p3(2) by (simp add: w3_def w2_def client_view_def p2_def)
        then have "\<forall>c \<in> ts. session_ok c w3" using i(3) session_ok_frame fresh by metis
        moreover have "op_connections (sv_optimizer w3) = int (card ts)"
          using w1(2) by (simp add: w3_def w2_def cccam_load_balancer_release_connection_def)
        ultimately show ?thesis using acc i(1) by (simp add: server_inv_def)
      qed
    qed
  qed
qed

lemma thread_end_step:
  assumes inv: "server_inv (ts, w)" and a: "a \<in> ts"
  shows "\<exists>w'. client_thread_end a w = Some w' \<and> server_inv (ts - {a}, w')"
proof -
  from inv have i: "finite ts" "ecm_inv ts (mset_set ts) (sv_ecm w)" "\<forall>a \<in> ts. session_ok a w" "op_connections (sv_optimizer w) = int (card ts)"
    by (simp_all add: server_inv_def)
  obtain c where c: "pl_heap (sv_pool w) a = Some c" by (rule owner_alloc [OF i(2) a])
  have z: "\<not> cl_zombie c"
    using owner_alive [OF i(2) a c] .
  have "0 < card ts" using i(1) a by (metis card_gt_0_iff empty_iff)
  with destroy_unref [OF i(2) a] i(1,4) a obtain w1 p where d: "server_destroy_client a w = Some w1"
    "cccam_client_unref a (sv_pool w1) = Some p" "ecm_inv (ts - {a}) (mset_set ts - {#a#}) (sv_ecm (set_pool p w1))"
    "\<forall>b. b \<noteq> a \<longrightarrow> client_view p b = client_view (sv_pool w) b"
    "op_connections (sv_optimizer w1) = int (card ts) - 1" by auto
  have "client_thread_end a w = Some (set_pool p w1)" by (simp add: client_thread_end_def c z d)
  moreover have "mset_set ts - {#a#} = mset_set (ts - {a})" using i(1) a by (simp add: mset_set_Diff)
  moreover have "session_ok b (set_pool p w1)" if "b \<in> ts - {a}" for b
    using that d(4) i(3) session_ok_frame [of "set_pool p w1" b w] by simp
  ultimately show ?thesis
    using d(3,5) i(1) a \<open>0 < card ts\<close> by (simp add: server_inv_def of_nat_diff)
qed

lemma server_step_progress:
  assumes lib: "digest_lengths lib" and inv: "server_inv s"
  shows "(\<exists>t. server_step emu lib x s = Some t \<and> server_inv t) \<or>
    server_step emu lib x s = None \<and> server_unanswered emu lib x s"
proof -
  obtain ts w where s: "s = (ts, w)" by fastforce
  from inv have i: "finite ts" "ecm_inv ts (mset_set ts) (sv_ecm w)" "\<forall>a \<in> ts. session_ok a w" "op_connections (sv_optimizer w) = int (card ts)"
    by (simp_all add: server_inv_def s)
  show ?thesis
  proof (cases x)
    case (SAccept mem a thread now fd addr)
    show ?thesis
    proof (cases "pl_heap (sv_pool w) a = None")
      case True
      from server_accept_step [OF inv [unfolded s] True, of mem thread now fd addr] obtain r w' where
        "server_accept mem a thread now fd addr w = Some (r, w')" "server_inv (case r of None \<Rightarrow> ts | Some b \<Rightarrow> insert b ts, w')" by blast
      with True show ?thesis by (simp add: SAccept s)
    qed (use inv in \<open>simp add: SAccept s\<close>)
  next
    case (SRound a rnd mem writable now io)
    show ?thesis
    proof (cases "a \<in> ts \<and> client_round emu lib rnd mem writable now a w io \<noteq> None")
      case True
      with client_round_step [OF i(2) _ lib, of a emu rnd mem writable now io] i(3) obtain rc w' io' where
        r: "client_round emu lib rnd mem writable now a w io = Some (rc, w', io')" "ecm_inv ts (mset_set ts) (sv_ecm w')"
        "session_ok a w'" "sv_optimizer w' = sv_optimizer w" "others_kept a w w'" by blast
      have "session_ok b w'" if "b \<in> ts" for b
        using that r(3,5) i(3) by (cases "b = a") (use session_ok_frame [of w' b w] in \<open>auto simp: others_kept_def\<close>)
      with r i True show ?thesis by (simp add: SRound s server_inv_def)
    next
      case False
      with client_round_step [OF i(2) _ lib, of a emu rnd mem writable now io] i(3) inv show ?thesis
        by (cases "a \<in> ts") (auto simp: SRound s)
    qed
  next
    case (SEnd a)
    show ?thesis
    proof (cases "a \<in> ts")
      case True
      with thread_end_step [OF inv [unfolded s] True] show ?thesis by (auto simp: SEnd s)
    qed (use inv in \<open>simp add: SEnd s\<close>)
  next
    case (SClean now)
    define e where "e = snd (cccam_ecm_clean_expired_cache now (sv_ecm w))"
    have e: "ecm_inv ts (mset_set ts) e" "ew_pool e = sv_pool w"
      using i(2) cache_clean_keeps(1) [of "ew_cache (sv_ecm w)" now]
      by (cases "cccam_cache_clean_expired now (ew_cache (sv_ecm w))"; simp add: e_def cccam_ecm_clean_expired_cache_def ecm_inv_def)+
    then have "\<forall>a \<in> ts. session_ok a (w\<lparr>sv_ecm := e\<rparr>)" using i(3) by (simp add: session_ok_def)
    with i e show ?thesis by (simp add: SClean s server_inv_def flip: e_def)
  next
    case (SMax n)
    have "op_connections (cccam_load_balancer_set_max_connections n o') = op_connections o'" for o'
      by (simp add: cccam_load_balancer_set_max_connections_def)
    with inv show ?thesis by (simp add: SMax s server_inv_def session_ok_def)
  qed
qed

lemma server_inv_initial: "server_inv ({}, server_initial cfg ips users files eng env)"
  using ecm_inv_initial [of eng env] by (simp add: server_inv_def server_initial_def optimizer_initial_def)

text \<open>With a library that breaks its contract the system below does nothing, so the interface needs no hypothesis.\<close>

interpretation server_sys: guarded_system "({}, server_initial cfg ips users files eng env)"
  "\<lambda>x s. if digest_lengths lib then server_step emu lib x s else Some s" "server_unanswered emu lib" server_inv for cfg ips users files eng env emu lib
proof
  show "server_inv ({}, server_initial cfg ips users files eng env)" by (rule server_inv_initial)
next
  fix s :: server_state and x assume "server_inv s"
  then show "(\<exists>t. (if digest_lengths lib then server_step emu lib x s else Some s) = Some t \<and> server_inv t) \<or>
      (if digest_lengths lib then server_step emu lib x s else Some s) = None \<and> server_unanswered emu lib x s"
    using server_step_progress [of lib s emu x] by (cases s) auto
qed

subsection \<open>The login message\<close>

lemma takeWhile_bytes: "no_nul s \<Longrightarrow> takeWhile (\<lambda>b. b \<noteq> 0) (to_bytes s @ 0 # r) = to_bytes s"
  by (induction s) (simp_all add: to_bytes_def no_nul_def of_char_0_iff)

lemma parse_built_login:
  assumes "no_nul user" and "no_nul pass" and "length user < 64" and "length pass < 64" and "length hs = 16"
  shows "parse_login (hs @ to_bytes user @ [0] @ to_bytes pass @ [0] @ be32 v)
    = Some \<lparr>lm_handshake = hs, lm_username = user, lm_password = pass, lm_version = v\<rparr>"
proof -
  have "read_be32 (be32 v) 0 = v" by (simp add: read_be32_def be32_def)
  then show ?thesis
    using assms by (simp add: parse_login_def Let_def takeWhile_bytes)
qed

subsection \<open>Properties\<close>

text \<open>What the accounting of the server promises for the running threads \<open>ts\<close>.\<close>

definition threads_sound :: "nat set \<Rightarrow> server \<Rightarrow> bool" where
  "threads_sound ts w \<longleftrightarrow>
    pool_reachable \<lparr>pw_pool = sv_pool w, pw_owners = ts, pw_held = mset_set ts\<rparr> \<and>
    cccam_client_get_count (sv_pool w) = int (card ts) \<and> card ts \<le> 100 \<and>
    cccam_load_balancer_get_connections (sv_optimizer w) = int (card ts) \<and>
    cache_inv (ew_cache (sv_ecm w)) \<and> hop_inv (ew_hops (sv_ecm w))"

lemma server_inv_sound:
  assumes inv: "server_inv (ts, w)"
  shows "threads_sound ts w"
proof -
  from inv have e: "ecm_inv ts (mset_set ts) (sv_ecm w)" by (simp add: server_inv_def)
  then have r: "pool_reachable \<lparr>pw_pool = sv_pool w, pw_owners = ts, pw_held = mset_set ts\<rparr>" by (simp add: ecm_inv_def)
  then have s: "slots_ok (pl_slots (sv_pool w)) (pl_count (sv_pool w)) ts"
    using reachable_inv [OF r] by (simp add: pool_inv_alt)
  have "card ts \<le> 100"
    using slots_count [OF s] s length_filter_le [of "\<lambda>s. s \<noteq> None" "pl_slots (sv_pool w)"] by (simp add: slots_ok_def MAX_CLIENTS_def)
  moreover have "pl_count (sv_pool w) = int (card ts)" using slots_count [OF s] s by (simp add: slots_ok_def)
  ultimately show ?thesis
    using inv e r
    by (auto simp: threads_sound_def server_inv_def ecm_inv_def cccam_client_get_count_def cccam_load_balancer_get_connections_def)
qed

text \<open>
  The server as a whole, for any sequence of accepted sockets, messages of the clients' threads (with any bytes
  from the network), ended threads, cache sweeps and limit changes. Either the sequence runs through, or a first part of
  it does and the next operation is a message whose ECM or EMM the key emulator does not answer with the keys it
  then has; nothing else is undefined or hangs. In the state reached no freed client is referenced, and the pool, its counter
  and the connection counter of the load balancer all hold exactly the running threads, at most 100.
\<close>

theorem server_run_total:
  assumes "digest_lengths lib"
  shows "case run_ops (server_step emu lib) ops ({}, server_initial cfg ips users files eng env) of
      Some (ts, w) \<Rightarrow> threads_sound ts w
    | None \<Rightarrow> \<exists>pre x post ts w. ops = pre @ x # post \<and>
        run_ops (server_step emu lib) pre ({}, server_initial cfg ips users files eng env) = Some (ts, w) \<and> threads_sound ts w \<and>
        server_step emu lib x (ts, w) = None \<and> server_unanswered emu lib x (ts, w)"
proof (cases "run_ops (server_step emu lib) ops ({}, server_initial cfg ips users files eng env)")
  case None
  with server_sys.run_or_stuck [OF server_sys.invar_first [of cfg ips users files eng env], where emu = emu and lib = lib and xs = ops] assms
  obtain pre x post ts w where "ops = pre @ x # post"
    "run_ops (server_step emu lib) pre ({}, server_initial cfg ips users files eng env) = Some (ts, w)" "server_inv (ts, w)"
    "server_step emu lib x (ts, w) = None" "server_unanswered emu lib x (ts, w)" by auto
  with server_inv_sound show ?thesis unfolding None option.case by blast
next
  case (Some s)
  with server_sys.run_keeps [OF _ server_sys.invar_first [of cfg ips users files eng env], where emu = emu and lib = lib and xs = ops] assms
  show ?thesis using server_inv_sound by (cases s) auto
qed

text \<open>A server without users or address lists, and an answer for every option of its configuration.\<close>

definition demo_server :: server where
  "demo_server = server_initial \<lparr>sc_max_login_failures = 5, sc_max_ecm_per_sec = 10, sc_auto_register = False, sc_allowed_modes = 0\<rparr>
     \<lparr>il_allow = [], il_deny = []\<rparr> users_initial (\<lambda>_. None) demo_engines demo_env"

text \<open>
  C4: A client of the own protocol never receives a control word: whatever messages it sends and whatever the
  readers answer, all that its session writes to the socket is at most one login acknowledgement. After the
  login the session is in AES-GCM mode, in which the CW message cannot be built. The session ends, or it stops at a message
  that the key emulator does not answer, with no more than that acknowledgement written before.
\<close>

theorem session_never_delivers:
  assumes "digest_lengths lib" and "ecm_inv own held (sv_ecm w)" and "a \<in> own"
    and "pl_heap (sv_pool w) a = Some c" and "\<not> cl_is_authenticated c"
  shows "case client_session emu lib a xs w io of
      Some (rc, w', io') \<Rightarrow> io_tx io' = io_tx io \<or>
        (\<exists>resp m. cccam_protocol_build_login_ack BUFFER_SIZE resp = Some m \<and> io_tx io' = io_tx io @ m)
    | None \<Rightarrow> \<exists>pre rnd mem writable now post w' io'. xs = pre @ (rnd, mem, writable, now) # post \<and>
        client_session emu lib a pre w io = Some (0, w', io') \<and> round_unanswered emu lib mem now a w' io' \<and>
        (io_tx io' = io_tx io \<or>
         (\<exists>resp m. cccam_protocol_build_login_ack BUFFER_SIZE resp = Some m \<and> io_tx io' = io_tx io @ m))"
proof -
  have tx: "io_tx io' = io_tx io \<or> (\<exists>resp m. cccam_protocol_build_login_ack BUFFER_SIZE resp = Some m \<and> io_tx io' = io_tx io @ m)"
    if "session_keeps own held a w io w' io'" for w' io'
    using that by (auto simp: session_keeps_def login_acks_def)
  show ?thesis
  proof (cases "client_session emu lib a xs w io")
    case None
    with client_session_step [OF assms(2,3,1) new_session [OF assms(4,5)], of emu xs io]
    obtain pre rnd mem writable now post w' io' where s: "xs = pre @ (rnd, mem, writable, now) # post"
      "client_session emu lib a pre w io = Some (0, w', io')" "round_unanswered emu lib mem now a w' io'"
      "session_keeps own held a w io w' io'" by auto
    from s(1-3) tx [OF s(4)] show ?thesis unfolding None option.case by (intro exI conjI)
  next
    case (Some y)
    with client_session_step [OF assms(2,3,1) new_session [OF assms(4,5)], of emu xs io] tx show ?thesis by auto
  qed
qed

text \<open>The server with one accepted client at address 7.\<close>

definition demo_client_server :: server where
  "demo_client_server = (case server_accept True 7 True 5 4 1 demo_server of Some (_, w) \<Rightarrow> w | None \<Rightarrow> demo_server)"

lemma demo_client:
  "server_inv ({7}, demo_client_server) \<and> pl_heap (sv_pool demo_client_server) 7 = Some ((new_client 5 4 1 7)\<lparr>cl_refs := 2\<rparr>)"
proof -
  have free: "pl_heap (sv_pool demo_server) 7 = None"
    by (simp add: demo_server_def server_initial_def ecm_world_initial_def pool_initial_def)
  have inv: "server_inv ({}, demo_server)" unfolding demo_server_def by (rule server_inv_initial)
  have "map_option fst (server_accept True 7 True 5 4 1 demo_server) = Some (Some 7) \<and>
     pl_heap (sv_pool demo_client_server) 7 = Some ((new_client 5 4 1 7)\<lparr>cl_refs := 2\<rparr>)"
    by (simp add: demo_client_server_def demo_server_def server_initial_def server_accept_def server_ip_allowed_def
        cccam_load_balancer_allow_connection_def optimizer_initial_def cccam_client_create_def pool_initial_def MAX_CLIENTS_def
        ecm_world_initial_def cccam_client_ref_def pool_acquire_locked_def new_client_def set_pool_def)
  with server_accept_step [OF inv free, of True True 5 4 1] show ?thesis
    by (auto simp: demo_client_server_def)
qed

theorem session_never_delivers_witness:
  "\<exists>rc w' io'. client_session (\<lambda>_ _ _ e. Some e) toy_ossl 7 [(\<lparr>lr_seed = [], lr_iv = [], lr_junk = []\<rparr>, True, True, 6)] demo_client_server
      \<lparr>io_connect = None, io_rx = write_header MSG_ECM 20 0 @ replicate 8 1, io_sends = [True], io_tx = []\<rparr> = Some (rc, w', io') \<and>
      (io_tx io' = [] \<or> (\<exists>resp. cccam_protocol_build_login_ack BUFFER_SIZE resp = Some (io_tx io')))"
proof -
  let ?s = "client_session (\<lambda>_ _ _ e. Some e) toy_ossl 7 [(\<lparr>lr_seed = [], lr_iv = [], lr_junk = []\<rparr>, True, True, 6)] demo_client_server
      \<lparr>io_connect = None, io_rx = write_header MSG_ECM 20 0 @ replicate 8 1, io_sends = [True], io_tx = []\<rparr>"
  have "(case ?s of None \<Rightarrow> False | Some _ \<Rightarrow> True)" by code_simp
  then obtain rc w' io' where s: "?s = Some (rc, w', io')" by (auto split: option.splits)
  have i: "ecm_inv {7} (mset_set {7}) (sv_ecm demo_client_server)" using demo_client by (simp add: server_inv_def)
  have "7 \<in> {7 :: nat}" "\<not> cl_is_authenticated ((new_client 5 4 1 7)\<lparr>cl_refs := 2\<rparr>)" by (simp_all add: new_client_def)
  from session_never_delivers [OF toy_ossl_ok(3) i this(1) conjunct2 [OF demo_client] this(2),
      where emu = "\<lambda>_ _ _ e. Some e" and xs = "[(\<lparr>lr_seed = [], lr_iv = [], lr_junk = []\<rparr>, True, True, 6)]"
      and io = "\<lparr>io_connect = None, io_rx = write_header MSG_ECM 20 0 @ replicate 8 1, io_sends = [True], io_tx = []\<rparr>",
      unfolded s option.case prod.case] s
  show ?thesis by auto
qed

text \<open>
  Yet the request is counted as served: an ECM of a logged-in client that the handler answers with a word
  leaves the socket untouched, and the user's counter of successful requests goes up by one.
\<close>

theorem ecm_answer_lost:
  assumes "pl_heap (sv_pool w) a = Some c" and "cl_is_authenticated c" and "cx_mode (cl_crypto c) = MODE_AES_GCM"
    and "client_ecm_allowed (sc_max_ecm_per_sec (sv_config w)) now (cl_ecm_window_start c, cl_ecm_window_count c) = (True, start, n)"
    and "parse_ecm_payload p = Some rq0"
    and "cccam_ecm_process lib (sc_allowed_modes (sv_config w)) mem now
        (rq0\<lparr>rq_client_id := cl_client_id c, rq_hop := word_of_int (cl_hop_count c)\<rparr>)
        (sv_ecm (set_client a (c\<lparr>cl_ecm_window_start := start, cl_ecm_window_count := n\<rparr>) w)) = Some (0, Some r, e)"
    and "rs_found r" and "find_user (cl_username c) (sv_users w) = Some u"
    and "pl_heap (ew_pool e) a = Some c2" and "cl_username c2 = cl_username c"
  shows "\<exists>w' u'. handle_client_ecm lib junk mem now a p w io = Some (0, w', io) \<and>
    find_user (cl_username c) (sv_users w') = Some u' \<and> us_ecm_success u' = us_ecm_success u + 1"
proof -
  define c1 where "c1 = c\<lparr>cl_ecm_window_start := start, cl_ecm_window_count := n\<rparr>"
  define w1 where "w1 = set_client a c1 w"
  define w2 where "w2 = w1\<lparr>sv_ecm := e\<rparr>"
  have "cx_mode (cl_crypto c2) = MODE_AES_GCM"
    using fun_cong [OF process_view [OF assms(6)], of a] assms(3,9) by (simp add: set_client_view client_view_def)
  from send_cw_gcm [OF this] have "handle_client_ecm lib junk mem now a p w io
      = Some (0, register_ecm (cl_username c2) True (set_client a c2 w2), io)"
    using assms unfolding w2_def w1_def c1_def by (simp add: handle_client_ecm_def)
  moreover have "sv_users (set_client a c2 w2) = sv_users w" by (simp add: w2_def w1_def)
  moreover have "\<exists>u'. find_user (cl_username c) (cccam_user_manager_register_ecm (cl_username c) True (sv_users w)) = Some u' \<and>
      us_ecm_success u' = us_ecm_success u + 1"
    using assms(8) by (auto simp: cccam_user_manager_register_ecm_def find_user_def update_user_def find_update_first_same)
  ultimately show ?thesis using assms(10) by (auto simp: register_ecm_def)
qed

text \<open>
  C3: Without automatic registration a client becomes authenticated only by the password: the address is not
  blocked, the payload is a well-formed login, its user exists and is enabled, the hash of its password is
  the stored one, and the session is in AES-GCM mode.
\<close>

theorem login_needs_password:
  assumes "digest_lengths lib" and "pl_heap (sv_pool w) a = Some c" and "\<not> cl_is_authenticated c"
    and "\<not> sc_auto_register (sv_config w)"
    and "handle_client_login lib rnd mem writable now a p w io = Some (rc, w', io')"
    and "pl_heap (sv_pool w') a = Some c'" and "cl_is_authenticated c'"
  shows "\<not> server_login_blocked now (cl_addr c) (sv_fails w) \<and> cx_mode (cl_crypto c') = MODE_AES_GCM \<and>
    (\<exists>login u. parse_login p = Some login \<and> find_user (lm_username login) (sv_users w) = Some u \<and> us_enabled u \<noteq> 0 \<and>
       us_password_hash u = password_hash lib (lm_password login) \<and> cl_username c' = c_strncpy 64 (lm_username login))"
proof -
  have nb: "\<not> server_login_blocked now (cl_addr c) (sv_fails w)"
    using assms by (auto simp: handle_client_login_def)
  obtain login where login: "parse_login p = Some login"
    using assms nb by (cases "parse_login p") (auto simp: handle_client_login_def)
  obtain acc w1 where acc: "login_account lib mem writable now (cl_addr c) login w = (acc, w1)" by fastforce
  note fr = login_account_frame [OF acc]
  have ok: acc
    using assms nb login acc fr by (cases acc) (auto simp: handle_client_login_def)
  have "login_session lib rnd login (ew_hs (sv_ecm w1)) \<noteq> None"
    using assms nb login acc ok fr by (cases "login_session lib rnd login (ew_hs (sv_ecm w1))") (auto simp: handle_client_login_def)
  then obtain resp mode key hs1 where s: "login_session lib rnd login (ew_hs (sv_ecm w1)) = Some (resp, mode, key, hs1)" by auto
  obtain rc2 cx where set: "cccam_protocol_set_crypto (sc_allowed_modes (sv_config w1)) mode (Some key) (cl_crypto c) = (rc2, cx)" by fastforce
  have rc2: "rc2 = 0"
    using assms nb login acc ok fr s set by (cases "rc2 = 0") (auto simp: handle_client_login_def Let_def)
  have c': "cl_crypto c' = cx \<and> cl_username c' = c_strncpy 64 (lm_username login)"
    using assms nb login acc ok fr s set rc2
    by (auto simp: handle_client_login_def Let_def split: option.splits prod.splits)
  have "cx_mode cx = MODE_AES_GCM" using set rc2 login_session_gcm [OF assms(1) s] set_crypto_gcm by auto
  moreover have "\<exists>u. find_user (lm_username login) (sv_users w) = Some u \<and> us_enabled u \<noteq> 0 \<and>
       us_password_hash u = password_hash lib (lm_password login)"
    using acc ok assms(4)
    by (auto simp: login_account_def Let_def cccam_user_manager_authenticate_def split: option.splits prod.splits if_splits)
  ultimately show ?thesis using nb login c' by auto
qed

text \<open>A server with the user \<open>joe\<close>, a card that answers, and one client at address 7, logged in or not.\<close>

definition joe_users :: users where
  "joe_users = snd (add_user toy_ossl True 0 ''joe'' ''pw'' LEVEL_USER 5 users_initial)"

definition joe_server :: "bool \<Rightarrow> server" where
  "joe_server auth =
     (let c = (new_client 5 4 1 7)\<lparr>cl_username := ''joe'', cl_is_authenticated := auth, cl_hop_count := 5,
                cl_crypto := (if auth then cccam_protocol_reset_crypto\<lparr>cx_mode := MODE_AES_GCM\<rparr> else cccam_protocol_reset_crypto)\<rparr> in
      set_client 7 c (demo_server\<lparr>sv_users := joe_users, sv_ecm := demo_world\<rparr>))"

definition joe_io :: remote_io where
  "joe_io = \<lparr>io_connect = None, io_rx = [], io_sends = [True, True], io_tx = []\<rparr>"

definition joe_login :: "u8 list" where
  "joe_login = replicate 16 9 @ to_bytes ''joe'' @ [0] @ to_bytes ''pw'' @ [0] @ be32 301"

theorem login_needs_password_witness:
  "\<exists>rc w' io' c'. handle_client_login toy_ossl \<lparr>lr_seed = replicate 16 3, lr_iv = replicate 12 4, lr_junk = []\<rparr> True True 6 7
      joe_login (joe_server False) joe_io = Some (rc, w', io') \<and> pl_heap (sv_pool w') 7 = Some c' \<and>
    cl_is_authenticated c' \<and> cx_mode (cl_crypto c') = MODE_AES_GCM"
proof -
  let ?c = "(new_client 5 4 1 7)\<lparr>cl_username := ''joe'', cl_is_authenticated := False, cl_hop_count := 5, cl_crypto := cccam_protocol_reset_crypto\<rparr>"
  let ?l = "handle_client_login toy_ossl \<lparr>lr_seed = replicate 16 3, lr_iv = replicate 12 4, lr_junk = []\<rparr> True True 6 7
      joe_login (joe_server False) joe_io"
  have "(case ?l of None \<Rightarrow> False | Some (rc, w', io') \<Rightarrow>
      (case pl_heap (sv_pool w') 7 of None \<Rightarrow> False | Some c' \<Rightarrow> cl_is_authenticated c'))" by code_simp
  then obtain rc w' io' c' where r: "?l = Some (rc, w', io')" "pl_heap (sv_pool w') 7 = Some c'" "cl_is_authenticated c'"
    by (auto split: option.splits)
  have "pl_heap (sv_pool (joe_server False)) 7 = Some ?c" "\<not> sc_auto_register (sv_config (joe_server False))"
    by (simp_all add: joe_server_def Let_def demo_server_def server_initial_def)
  from login_needs_password [OF toy_ossl_ok(3) this(1) _ this(2) r] r show ?thesis by simp
qed

theorem ecm_answer_lost_witness:
  "\<exists>w' u'. handle_client_ecm toy_ossl [] True 100 7 (be16 0x0500 @ be16 0 @ be16 9 @ replicate 20 1) (joe_server True) joe_io
      = Some (0, w', joe_io) \<and> find_user ''joe'' (sv_users w') = Some u' \<and> us_ecm_success u' = 1"
proof -
  let ?c = "(new_client 5 4 1 7)\<lparr>cl_username := ''joe'', cl_is_authenticated := True, cl_hop_count := 5,
      cl_crypto := cccam_protocol_reset_crypto\<lparr>cx_mode := MODE_AES_GCM\<rparr>\<rparr>"
  let ?w = "joe_server True" and ?p = "be16 0x0500 @ be16 0 @ be16 9 @ replicate 20 (1 :: u8)"
  have c: "pl_heap (sv_pool ?w) 7 = Some ?c" "cl_is_authenticated ?c" "cx_mode (cl_crypto ?c) = MODE_AES_GCM"
    by (simp_all add: joe_server_def Let_def)
  have al: "client_ecm_allowed (sc_max_ecm_per_sec (sv_config ?w)) 100 (cl_ecm_window_start ?c, cl_ecm_window_count ?c) = (True, 100, 1)"
    by (simp add: joe_server_def demo_server_def server_initial_def client_ecm_allowed_def new_client_def)
  obtain rq0 where rq0: "parse_ecm_payload ?p = Some rq0" "rq0 = the (parse_ecm_payload ?p)"
    by (simp add: parse_ecm_payload_def ECM_MAX_SIZE_def)
  define pr where "pr = cccam_ecm_process toy_ossl (sc_allowed_modes (sv_config ?w)) True 100
      (rq0\<lparr>rq_client_id := cl_client_id ?c, rq_hop := word_of_int (cl_hop_count ?c)\<rparr>)
      (sv_ecm (set_client 7 (?c\<lparr>cl_ecm_window_start := 100, cl_ecm_window_count := 1\<rparr>) ?w))"
  have served: "(case pr of None \<Rightarrow> False | Some (rc, None, e) \<Rightarrow> False | Some (rc, Some r, e) \<Rightarrow> rc = 0 \<and> rs_found r \<and>
      (case pl_heap (ew_pool e) 7 of None \<Rightarrow> False | Some c2 \<Rightarrow> cl_username c2 = ''joe''))"
    unfolding pr_def rq0(2) by code_simp
  then obtain rc resp e where "pr = Some (rc, resp, e)" by (cases pr) auto
  with served obtain r where r: "pr = Some (0, Some r, e)" "rs_found r" by (cases resp) auto
  with served obtain c2 where c2: "pl_heap (ew_pool e) 7 = Some c2" "cl_username c2 = ''joe''"
    by (cases "pl_heap (ew_pool e) 7") auto
  have "(case find_user ''joe'' (sv_users ?w) of None \<Rightarrow> False | Some u \<Rightarrow> us_ecm_success u = 0)" by code_simp
  then obtain u where u: "find_user (cl_username ?c) (sv_users ?w) = Some u" "us_ecm_success u = 0" by (auto split: option.splits)
  from ecm_answer_lost [OF c al rq0(1) r(1) [unfolded pr_def] r(2) u(1) c2(1)] c2(2) u(2) show ?thesis by auto
qed

end
