(* ===== verification/Server_Recovery.thy ===== *)
theory Server_Recovery
  imports Server
begin

text \<open>
  What the server of \<open>src/core/cccam3_server.c\<close> can always do: the threads that are left in a state it has
  reached can be ended, after which no client and no connection remains and new connections are accepted.
\<close>

lemma destroy_client_frame:
  "server_destroy_client a w = Some w' \<Longrightarrow> sv_ips w' = sv_ips w \<and> op_max_connections (sv_optimizer w') = op_max_connections (sv_optimizer w)"
  by (auto simp: server_destroy_client_def cccam_load_balancer_release_connection_def split: option.splits)

lemma thread_end_frame:
  "client_thread_end a w = Some w' \<Longrightarrow> sv_ips w' = sv_ips w \<and> op_max_connections (sv_optimizer w') = op_max_connections (sv_optimizer w)"
  by (auto simp: client_thread_end_def split: option.splits if_splits dest: destroy_client_frame)

lemma accept_frame:
  "server_accept mem a thread now fd addr w = Some (r, w') \<Longrightarrow>
    sv_ips w' = sv_ips w \<and> op_max_connections (sv_optimizer w') = op_max_connections (sv_optimizer w)"
  by (auto simp: server_accept_def cccam_load_balancer_allow_connection_def cccam_load_balancer_release_connection_def Let_def
      split: option.splits if_splits prod.splits dest: destroy_client_frame)

lemma end_all:
  assumes "server_inv (set xs, w)" and "distinct xs"
  shows "\<exists>w'. run_ops (server_step emu lib) (map SEnd xs) (set xs, w) = Some ({}, w') \<and> server_inv ({}, w') \<and>
    sv_ips w' = sv_ips w \<and> op_max_connections (sv_optimizer w') = op_max_connections (sv_optimizer w)"
  using assms
proof (induction xs arbitrary: w)
  case (Cons a xs)
  obtain w1 where w1: "client_thread_end a w = Some w1" "server_inv (set (a # xs) - {a}, w1)"
    using thread_end_step [OF Cons.prems(1), of a] by auto
  moreover have "set (a # xs) - {a} = set xs" using Cons.prems(2) by auto
  ultimately show ?case using Cons.IH [of w1] Cons.prems(2) thread_end_frame [OF w1(1)] by auto
qed simp

lemma server_empty:
  assumes "server_inv ({}, w)"
  shows "pl_heap (sv_pool w) a = None" "set (pl_slots (sv_pool w)) = {None}" "pl_count (sv_pool w) = 0"
    "op_connections (sv_optimizer w) = 0"
proof -
  have "ecm_inv {} {#} (sv_ecm w)" using assms by (simp add: server_inv_def)
  then have p: "pool_inv \<lparr>pw_pool = sv_pool w, pw_owners = {}, pw_held = {#}\<rparr>"
    by (intro reachable_inv) (simp add: ecm_inv_def)
  then show "pl_heap (sv_pool w) a = None" by (auto simp: pool_inv_def split: option.splits dest: spec [of _ a])
  have s: "slots_ok (pl_slots (sv_pool w)) (pl_count (sv_pool w)) {}" using p by (simp add: pool_inv_alt)
  then have none: "s = None" if "s \<in> set (pl_slots (sv_pool w))" for s using that by (cases s) (auto simp: slots_ok_def)
  moreover have "pl_slots (sv_pool w) \<noteq> []" using s by (auto simp: slots_ok_def MAX_CLIENTS_def)
  ultimately show "set (pl_slots (sv_pool w)) = {None}" by (metis (no_types, lifting) equals0I insertI1 is_singletonI' is_singleton_the_elem set_empty singletonD)
  have "filter (\<lambda>s. s \<noteq> None) (pl_slots (sv_pool w)) = []" using none by (simp add: filter_empty_conv)
  with s show "pl_count (sv_pool w) = 0" by (simp add: slots_ok_def)
  show "op_connections (sv_optimizer w) = 0" using assms by (simp add: server_inv_def)
qed

lemma accept_empty:
  assumes "server_inv ({}, w)" and "server_ip_allowed (sv_ips w) addr" and "0 < op_max_connections (sv_optimizer w)"
  shows "\<exists>w'. server_accept True a True now fd addr w = Some (Some a, w')"
proof -
  note e = server_empty [OF assms(1)]
  obtain i where "find_idx (\<lambda>s. s = None) (pl_slots (sv_pool w)) = Some i"
    using e(2) by (cases "find_idx (\<lambda>s. s = None) (pl_slots (sv_pool w))") (auto simp: find_idx_None)
  then show ?thesis
    using assms e
    by (simp add: server_accept_def cccam_load_balancer_allow_connection_def cccam_client_create_def MAX_CLIENTS_def Let_def
        cccam_client_ref_def pool_acquire_locked_def new_client_def)
qed

text \<open>
  C5: The server recovers: from every state it can reach, ending the threads that are left brings it to no
  connection and no client, and then it accepts a connection from every allowed address, at whatever address
  the record is allocated.
\<close>

theorem server_recovers:
  assumes "digest_lengths lib"
    and "run_ops (server_step emu lib) ops ({}, server_initial cfg ips users files eng env) = Some (ts, w)"
    and "0 < op_max_connections (sv_optimizer w)" and "server_ip_allowed (sv_ips w) addr"
  shows "\<exists>w1 w2. run_ops (server_step emu lib) (map SEnd (sorted_list_of_set ts)) (ts, w) = Some ({}, w1) \<and>
    cccam_load_balancer_get_connections (sv_optimizer w1) = 0 \<and> cccam_client_get_count (sv_pool w1) = 0 \<and>
    server_step emu lib (SAccept True a True now fd addr) ({}, w1) = Some ({a}, w2)"
proof -
  have inv: "server_inv (ts, w)"
    using server_sys.run_keeps [OF _ server_sys.invar_first [of cfg ips users files eng env], where emu = emu and lib = lib and xs = ops]
      assms(1,2) by auto
  then have fin: "finite ts" by (simp add: server_inv_def)
  with inv obtain w1 where w1: "run_ops (server_step emu lib) (map SEnd (sorted_list_of_set ts)) (ts, w) = Some ({}, w1)"
    "server_inv ({}, w1)" "sv_ips w1 = sv_ips w" "op_max_connections (sv_optimizer w1) = op_max_connections (sv_optimizer w)"
    using end_all [of "sorted_list_of_set ts" w emu lib] by auto
  obtain w2 where "server_accept True a True now fd addr w1 = Some (Some a, w2)"
    using accept_empty [OF w1(2), of addr a now fd] w1(3,4) assms(3,4) by auto
  with w1 server_empty [OF w1(2)] show ?thesis
    by (simp add: cccam_client_get_count_def cccam_load_balancer_get_connections_def)
qed

theorem server_recovers_witness:
  "\<exists>ts w w1 w2. run_ops (server_step (\<lambda>_ _ _ e. Some e) toy_ossl) [SAccept True 7 True 5 4 1] ({}, demo_server) = Some (ts, w) \<and>
    run_ops (server_step (\<lambda>_ _ _ e. Some e) toy_ossl) (map SEnd (sorted_list_of_set ts)) (ts, w) = Some ({}, w1) \<and>
    server_step (\<lambda>_ _ _ e. Some e) toy_ossl (SAccept True 8 True 6 5 1) ({}, w1) = Some ({8}, w2)"
proof -
  have "server_inv ({}, demo_server)" unfolding demo_server_def by (rule server_inv_initial)
  moreover have ip: "server_ip_allowed (sv_ips demo_server) 1" and mx: "op_max_connections (sv_optimizer demo_server) = 100"
    by (simp_all add: demo_server_def server_initial_def server_ip_allowed_def optimizer_initial_def)
  ultimately obtain w where acc: "server_accept True 7 True 5 4 1 demo_server = Some (Some 7, w)"
    using accept_empty [of demo_server 1 7 5 4] by auto
  have "run_ops (server_step (\<lambda>_ _ _ e. Some e) toy_ossl) [SAccept True 7 True 5 4 1] ({}, demo_server) = Some ({7}, w)"
    using acc by (simp add: demo_server_def server_initial_def ecm_world_initial_def pool_initial_def)
  moreover from accept_frame [OF acc] ip mx have "0 < op_max_connections (sv_optimizer w)" "server_ip_allowed (sv_ips w) 1" by simp_all
  ultimately show ?thesis
    using server_recovers [OF toy_ossl_ok(3), of "\<lambda>_ _ _ e. Some e" "[SAccept True 7 True 5 4 1]" _ _ _ _ _ _ "{7}" w 1 8 6 5]
    unfolding demo_server_def by blast
qed

end
