(* ===== verification/Session.thy ===== *)
theory Session
  imports Server
begin

text \<open>
  The two ends of the own protocol together: a reader that logs in to a remote server
  (\<open>remote_ensure_login\<close> of \<open>src/CCshare/cccam3_card_manager.c\<close>) against the server of
  \<open>src/core/cccam3_server.c\<close>. What one end sends, the other reads.
\<close>

subsection \<open>Reading what was written\<close>

lemma parse_plain:
  assumes "p \<noteq> []" and "12 + length p \<le> BUFFER_SIZE"
  shows "cccam_protocol_parse lib True (write_header i (12 + length p) m @ p) None =
    Some (\<lparr>mh_msg_id = i, mh_msg_len = of_nat (12 + length p), mh_flags = 0, mh_crypt_mode = m, mh_reserved = 0\<rparr>, Some p, None)"
    and "cx_mode cx = MODE_NONE \<Longrightarrow> cccam_protocol_parse lib True (write_header i (12 + length p) m @ p) (Some cx) =
    Some (\<lparr>mh_msg_id = i, mh_msg_len = of_nat (12 + length p), mh_flags = 0, mh_crypt_mode = m, mh_reserved = 0\<rparr>, Some p, Some cx)"
  using assms by (simp_all add: cccam_protocol_parse_def HEADER_SIZE_def read_write_header Let_def)

lemma header_length:
  assumes "12 + n \<le> BUFFER_SIZE"
  shows "unat (read_be32 (write_header i (12 + n) m) 4) = 12 + n"
proof -
  have "read_be32 (write_header i (12 + n) m) 4 = mh_msg_len (read_header (write_header i (12 + n) m @ []))"
    by (simp add: read_header_def)
  also have "\<dots> = of_nat (12 + n)" by (simp only: read_write_header) simp
  finally show ?thesis using assms by simp
qed

text \<open>A message that is all of the input is read as it was written, by either end.\<close>

lemma read_written:
  assumes "12 + length p \<le> BUFFER_SIZE" and "io_rx io = write_header i (12 + length p) m @ p"
  shows "read_client_message BUFFER_SIZE io = (Some (write_header i (12 + length p) m @ p), io\<lparr>io_rx := []\<rparr>)"
    and "remote_read_message lib BUFFER_SIZE cx io
      = (cccam_protocol_parse lib True (write_header i (12 + length p) m @ p) cx, io\<lparr>io_rx := []\<rparr>)"
  using assms header_length [OF assms(1), of i m]
  by (simp_all add: read_client_message_def recv_exact_def remote_read_message_def remote_recv_exact_def HEADER_SIZE_def Let_def)

text \<open>What a successful login leaves at the server, and what it answers.\<close>

lemma login_session_parts:
  assumes lib: "gcm_inverse lib" "digest_lengths lib" "gcm_available lib"
    and rnd: "length (lr_seed rnd) = 16" "length (lr_iv rnd) = 12" and new: "lm_version login \<ge> 300"
    and s: "login_session lib rnd login hs0 = Some (resp, mode, key, hs1)"
  shows "\<exists>kb. mode = MODE_AES_GCM \<and> key = kb \<and> length kb = 32 \<and> length resp = 60 \<and>
    fst (cccam_handshake_rsa_client lib login resp hs) = 0 \<and>
    cccam_handshake_get_session_key 32 (snd (cccam_handshake_rsa_client lib login resp hs)) = Some kb \<and>
    hs_mode (snd (cccam_handshake_rsa_client lib login resp hs)) = HS_RSA_AES"
proof -
  obtain resp0 where h: "cccam_protocol_handle_login lib (lr_seed rnd) (lr_iv rnd) (lr_junk rnd) login 60 hs0 = Some (resp0, hs1)"
    and k: "resp = take (cccam_handshake_get_response_len hs1) (resp0 @ replicate (60 - length resp0) 0)"
      "(case cccam_handshake_get_session_key 32 hs1 of None \<Rightarrow> (MODE_NONE, [])
        | Some key \<Rightarrow> (handshake_mode_to_crypt_mode (cccam_handshake_get_mode hs1),
            gcm_session_key lib (handshake_mode_to_crypt_mode (cccam_handshake_get_mode hs1)) key)) = (mode, key)"
    using s by (auto simp: login_session_def Let_def split: option.splits prod.splits)
  have "cccam_handshake_negotiate_mode HS_RSA_AES hs0 = (HS_RSA_AES, hs0\<lparr>hs_mode := HS_RSA_AES\<rparr>)"
    by (simp add: cccam_handshake_negotiate_mode_def Let_def hs_defs)
  with h new have "cccam_handshake_rsa_server lib (lr_seed rnd) (lr_iv rnd) (lr_junk rnd) login 60 (hs0\<lparr>hs_mode := HS_RSA_AES\<rparr>) = Some (resp0, hs1)"
    by (simp add: cccam_protocol_handle_login_def)
  from rsa_agree [OF lib rnd refl refl this, of hs] obtain kb where kb: "length resp0 = 60"
    "fst (cccam_handshake_rsa_client lib login resp0 hs) = 0" "hs_mode hs1 = HS_RSA_AES" "length kb = 32"
    "cccam_handshake_get_session_key 32 hs1 = Some kb"
    "cccam_handshake_get_session_key 32 (snd (cccam_handshake_rsa_client lib login resp0 hs)) = Some kb"
    "hs_mode (snd (cccam_handshake_rsa_client lib login resp0 hs)) = HS_RSA_AES" by blast
  have "handshake_mode_to_crypt_mode HS_RSA_AES = MODE_AES_GCM"
    by (simp add: handshake_mode_to_crypt_mode_def hs_defs)
  then have "mode = MODE_AES_GCM" "key = kb"
    using k(2) kb(3-5) by (auto simp: cccam_handshake_get_mode_def gcm_session_key_def)
  moreover have "resp = resp0" using k(1) kb(1,3) by (simp add: cccam_handshake_get_response_len_def)
  ultimately show ?thesis using kb by blast
qed

lemma server_side:
  assumes lib: "gcm_inverse lib" "digest_lengths lib" "gcm_available lib"
    and rnd: "length (lr_seed rnd) = 16" "length (lr_iv rnd) = 12"
    and c: "pl_heap (sv_pool w) a = Some c" "\<not> cl_is_authenticated c"
    and parse: "parse_login pl = Some login" and new: "lm_version login \<ge> 300"
    and sio: "io_tx sio = []" "io_sends sio = True # ss"
    and hl: "handle_client_login lib rnd mem writable now a pl w sio = Some (0, w', sio')"
  shows "\<exists>c' resp kb. pl_heap (sv_pool w') a = Some c' \<and> cl_is_authenticated c' \<and>
    cl_username c' = c_strncpy 64 (lm_username login) \<and> length kb = 32 \<and> length resp = 60 \<and>
    cccam_protocol_set_crypto (sc_allowed_modes (sv_config w)) MODE_AES_GCM (Some kb) (cl_crypto c) = (0, cl_crypto c') \<and>
    io_tx sio' = write_header MSG_LOGIN_ACK (12 + length resp) MODE_NONE @ resp \<and>
    fst (cccam_handshake_rsa_client lib login resp hs) = 0 \<and>
    cccam_handshake_get_session_key 32 (snd (cccam_handshake_rsa_client lib login resp hs)) = Some kb \<and>
    hs_mode (snd (cccam_handshake_rsa_client lib login resp hs)) = HS_RSA_AES"
proof -
  have nb: "\<not> server_login_blocked now (cl_addr c) (sv_fails w)"
    using hl c by (auto simp: handle_client_login_def)
  obtain acc w1 where acc: "login_account lib mem writable now (cl_addr c) login w = (acc, w1)" by fastforce
  note fr = login_account_frame [OF acc]
  have ok: acc using hl c nb parse acc by (cases acc) (auto simp: handle_client_login_def)
  obtain resp mode key hs1 where s: "login_session lib rnd login (ew_hs (sv_ecm w1)) = Some (resp, mode, key, hs1)"
    using hl c nb parse acc ok by (cases "login_session lib rnd login (ew_hs (sv_ecm w1))") (auto simp: handle_client_login_def)
  obtain rc2 cx where set: "cccam_protocol_set_crypto (sc_allowed_modes (sv_config w1)) mode (Some key) (cl_crypto c) = (rc2, cx)" by fastforce
  have rc2: "rc2 = 0"
    using hl c nb parse acc ok fr s set by (cases "rc2 = 0") (auto simp: handle_client_login_def Let_def)
  obtain ack where ack: "cccam_protocol_build_login_ack BUFFER_SIZE resp = Some ack"
    using hl c nb parse acc ok fr s set rc2
    by (cases "cccam_protocol_build_login_ack BUFFER_SIZE resp") (auto simp: handle_client_login_def Let_def)
  have fin: "\<exists>c'. pl_heap (sv_pool w') a = Some c' \<and> cl_is_authenticated c' \<and> cl_crypto c' = cx \<and>
      cl_username c' = c_strncpy 64 (lm_username login)" "io_tx sio' = ack"
    using hl c nb parse acc ok fr s set rc2 ack sio
    by (auto simp: handle_client_login_def Let_def remote_send_def)
  from login_session_parts [OF lib rnd new s, of hs] obtain kb where kb: "mode = MODE_AES_GCM" "key = kb" "length kb = 32"
    "length resp = 60" "fst (cccam_handshake_rsa_client lib login resp hs) = 0"
    "cccam_handshake_get_session_key 32 (snd (cccam_handshake_rsa_client lib login resp hs)) = Some kb"
    "hs_mode (snd (cccam_handshake_rsa_client lib login resp hs)) = HS_RSA_AES" by blast
  have "ack = write_header MSG_LOGIN_ACK (12 + length resp) MODE_NONE @ resp"
    using ack by (simp add: cccam_protocol_build_login_ack_def HEADER_SIZE_def Let_def split: if_splits)
  with fin kb set rc2 fr show ?thesis by auto
qed

text \<open>What the reader does with that answer.\<close>

lemma reader_side:
  assumes r: "\<not> rd_remote_logged_in r" "crypt_mode_allowed al MODE_AES_GCM" "length (rd_remote_user r) < 64" "length (rd_remote_pass r) < 64"
    and msg: "cccam_protocol_build_login BUFFER_SIZE (rd_remote_user r) (rd_remote_pass r) 301 seed = Some msg"
    and login: "login = \<lparr>lm_handshake = seed, lm_username = rd_remote_user r, lm_password = rd_remote_pass r, lm_version = 301\<rparr>"
    and io: "io_rx io = write_header MSG_LOGIN_ACK (12 + length resp) MODE_NONE @ resp" "io_sends io = True # cs"
    and resp: "length resp = 60" "length kb = 32"
    and hs: "fst (cccam_handshake_rsa_client lib login resp hs) = 0"
      "cccam_handshake_get_session_key 32 (snd (cccam_handshake_rsa_client lib login resp hs)) = Some kb"
      "hs_mode (snd (cccam_handshake_rsa_client lib login resp hs)) = HS_RSA_AES"
  shows "\<exists>r' hs' io'. remote_ensure_login lib al seed r hs io = (0, r', hs', io') \<and> rd_remote_logged_in r' \<and>
    io_tx io' = io_tx io @ msg \<and> cccam_protocol_set_crypto al MODE_AES_GCM (Some kb) (rd_crypto r) = (0, rd_crypto r')"
proof -
  define hs2 where "hs2 = snd (cccam_handshake_rsa_client lib login resp hs)"
  have gcm: "remote_wire_mode HS_RSA_AES = MODE_AES_GCM" by (simp add: remote_wire_mode_def hs_defs)
  have "12 + length resp \<le> BUFFER_SIZE" "resp \<noteq> []" using resp(1) by (auto simp: BUFFER_SIZE_def)
  note ack_read = read_written(2) [OF this(1)] parse_plain(1) [OF this(2,1)]
  define io1 where "io1 = io\<lparr>io_sends := cs, io_tx := io_tx io @ msg\<rparr>"
  have send: "remote_send msg io = (True, io1)" by (simp add: remote_send_def io(2) io1_def)
  have recv: "remote_read_message lib BUFFER_SIZE None io1 = (Some (\<lparr>mh_msg_id = MSG_LOGIN_ACK, mh_msg_len = of_nat (12 + length resp),
      mh_flags = 0, mh_crypt_mode = MODE_NONE, mh_reserved = 0\<rparr>, Some resp, None), io1\<lparr>io_rx := []\<rparr>)"
    using ack_read io(1) by (simp add: io1_def)
  have resp_ok: "cccam_protocol_handle_login_response lib login resp hs = (0, hs2)"
    using resp(1) hs(1) by (simp add: cccam_protocol_handle_login_response_def hs2_def prod_eq_iff)
  obtain cx2 where set2: "cccam_protocol_set_crypto al MODE_AES_GCM (Some kb) (rd_crypto r) = (0, cx2)"
    using r(2) resp(2) by (simp add: cccam_protocol_set_crypto_def Let_def)
  have login': "\<lparr>lm_handshake = seed, lm_username = c_strncpy 64 (rd_remote_user r),
      lm_password = c_strncpy 64 (rd_remote_pass r), lm_version = 301\<rparr> = login"
    using r(3,4) by (simp add: login c_strncpy_def)
  have "gcm_session_key lib MODE_AES_GCM kb = kb" using resp(2) by (simp add: gcm_session_key_def)
  then have "remote_ensure_login lib al seed r hs io = (0, r\<lparr>rd_crypto := cx2, rd_remote_logged_in := True\<rparr>, hs2, io1\<lparr>io_rx := []\<rparr>)"
    using r(1) msg send recv resp_ok set2 hs(2,3)
    by (simp add: remote_ensure_login_def login' cccam_handshake_get_mode_def gcm flip: hs2_def)
  with set2 show ?thesis by (simp add: io1_def)
qed

subsection \<open>Properties\<close>

text \<open>
  C2: A reader logs in to a server of the same kind: when the server's thread handles the reader's login message
  successfully, the reader accepts the bytes that the server answered, the server's client is authenticated
  under the reader's user name, and the two crypto contexts are in step in both directions.
\<close>

theorem login_interoperates:
  assumes lib: "gcm_inverse lib" "digest_lengths lib" "gcm_available lib" "cbc_inverse lib"
    and rnd: "length seed = 16" "length (lr_seed rnd) = 16" "length (lr_iv rnd) = 12"
    and r: "\<not> rd_remote_logged_in r" "no_nul (rd_remote_user r)" "no_nul (rd_remote_pass r)" "crypt_mode_allowed al MODE_AES_GCM"
    and msg: "cccam_protocol_build_login BUFFER_SIZE (rd_remote_user r) (rd_remote_pass r) 301 seed = Some msg"
    and c: "pl_heap (sv_pool w) a = Some c" "\<not> cl_is_authenticated c" "cx_mode (cl_crypto c) = MODE_NONE"
    and sio: "io_rx sio = msg" "io_tx sio = []" "io_sends sio = True # ss"
    and run: "client_round emu lib rnd True writable now a w sio = Some (0, w', sio')"
    and io: "io_rx io = io_tx sio'" "io_sends io = True # cs"
  shows "\<exists>r' hs' io' c'. remote_ensure_login lib al seed r hs io = (0, r', hs', io') \<and> rd_remote_logged_in r' \<and>
    io_tx io' = io_tx io @ msg \<and> pl_heap (sv_pool w') a = Some c' \<and> cl_is_authenticated c' \<and>
    cl_username c' = rd_remote_user r \<and>
    ctx_synced lib (rd_crypto r') (cl_crypto c') \<and> ctx_synced lib (cl_crypto c') (rd_crypto r')"
proof -
  let ?u = "rd_remote_user r" and ?p = "rd_remote_pass r"
  define pl where "pl = seed @ to_bytes ?u @ [0] @ to_bytes ?p @ [0] @ be32 301"
  define login where "login = \<lparr>lm_handshake = seed, lm_username = ?u, lm_password = ?p, lm_version = 301\<rparr>"
  from msg have lens: "length ?u < 64" "length ?p < 64" "12 + length pl \<le> BUFFER_SIZE"
    and msg': "msg = write_header MSG_LOGIN (12 + length pl) MODE_NONE @ pl"
    using rnd(1) by (auto simp: cccam_protocol_build_login_def Let_def pl_def HEADER_SIZE_def split: if_splits)
  have parse: "parse_login pl = Some login"
    using parse_built_login [OF r(2,3) lens(1,2) rnd(1), of 301] by (simp add: pl_def login_def)
  have "pl \<noteq> []" by (simp add: pl_def)
  note read = read_written(1) [OF lens(3) sio(1) [unfolded msg']] parse_plain(2) [OF \<open>pl \<noteq> []\<close> lens(3) c(3)]
  let ?sio = "sio\<lparr>io_rx := []\<rparr>"
  define c1 where "c1 = c\<lparr>cl_crypto := cl_crypto c\<rparr>"
  have "set_client a c1 w = w"
    using c(1) by (simp add: c1_def set_client_def set_pool_def map_upd_triv)
  then have hl: "handle_client_login lib rnd True writable now a pl w ?sio = Some (0, w', sio')"
    using run c(1) read by (simp add: client_round_def c1_def client_message_def)
  obtain c' resp kb where server: "pl_heap (sv_pool w') a = Some c'" "cl_is_authenticated c'"
    "cl_username c' = c_strncpy 64 (lm_username login)" "length kb = 32" "length resp = 60"
    "cccam_protocol_set_crypto (sc_allowed_modes (sv_config w)) MODE_AES_GCM (Some kb) (cl_crypto c) = (0, cl_crypto c')"
    "io_tx sio' = write_header MSG_LOGIN_ACK (12 + length resp) MODE_NONE @ resp"
    "fst (cccam_handshake_rsa_client lib login resp hs) = 0"
    "cccam_handshake_get_session_key 32 (snd (cccam_handshake_rsa_client lib login resp hs)) = Some kb"
    "hs_mode (snd (cccam_handshake_rsa_client lib login resp hs)) = HS_RSA_AES"
    using server_side [OF lib(1-3) rnd(2,3) c(1,2) parse _ _ _ hl, of ss hs] sio by (auto simp: login_def)
  obtain r' hs' io' where reader: "remote_ensure_login lib al seed r hs io = (0, r', hs', io')" "rd_remote_logged_in r'"
    "io_tx io' = io_tx io @ msg" "cccam_protocol_set_crypto al MODE_AES_GCM (Some kb) (rd_crypto r) = (0, rd_crypto r')"
    using reader_side [OF r(1,4) lens(1,2) msg login_def _ io(2) server(5,4,8-10)] io(1) server(7) by auto
  have "ctx_synced lib (rd_crypto r') (cl_crypto c')" "ctx_synced lib (cl_crypto c') (rd_crypto r')"
    using set_crypto_synced [OF lib(4,1)] reader(4) server(6) by blast+
  with reader server(1-3) lens(1) show ?thesis by (auto simp: login_def c_strncpy_def)
qed

theorem login_interoperates_witness:
  "\<exists>msg w' sio' r' hs' io'. cccam_protocol_build_login BUFFER_SIZE ''joe'' ''pw'' 301 (replicate 16 9) = Some msg \<and>
    client_round (\<lambda>_ _ _ e. Some e) toy_ossl \<lparr>lr_seed = replicate 16 3, lr_iv = replicate 12 4, lr_junk = []\<rparr> True True 6 7
      (joe_server False) (joe_io\<lparr>io_rx := msg\<rparr>) = Some (0, w', sio') \<and>
    remote_ensure_login toy_ossl 0 (replicate 16 9)
      ((new_reader ''r'')\<lparr>rd_type := READER_REMOTE, rd_remote_user := ''joe'', rd_remote_pass := ''pw''\<rparr>) handshake_initial
      (joe_io\<lparr>io_rx := io_tx sio'\<rparr>) = (0, r', hs', io') \<and> rd_remote_logged_in r'"
proof -
  let ?r = "(new_reader ''r'')\<lparr>rd_type := READER_REMOTE, rd_remote_user := ''joe'', rd_remote_pass := ''pw''\<rparr>"
  let ?rnd = "\<lparr>lr_seed = replicate 16 3, lr_iv = replicate 12 4, lr_junk = []\<rparr>"
  define msg where "msg = the (cccam_protocol_build_login BUFFER_SIZE ''joe'' ''pw'' 301 (replicate 16 9))"
  have msg: "cccam_protocol_build_login BUFFER_SIZE (rd_remote_user ?r) (rd_remote_pass ?r) 301 (replicate 16 9) = Some msg"
    by (simp add: msg_def cccam_protocol_build_login_def BUFFER_SIZE_def HEADER_SIZE_def Let_def)
  define run where "run = client_round (\<lambda>_ _ _ e. Some e) toy_ossl ?rnd True True 6 7 (joe_server False) (joe_io\<lparr>io_rx := msg\<rparr>)"
  have "(case run of None \<Rightarrow> False | Some (rc, w', sio') \<Rightarrow> rc = 0)" unfolding run_def msg_def by code_simp
  then obtain w' sio' where run: "client_round (\<lambda>_ _ _ e. Some e) toy_ossl ?rnd True True 6 7 (joe_server False) (joe_io\<lparr>io_rx := msg\<rparr>) = Some (0, w', sio')"
    by (cases run) (auto simp: run_def)
  have "pl_heap (sv_pool (joe_server False)) 7 = Some ((new_client 5 4 1 7)\<lparr>cl_username := ''joe'', cl_is_authenticated := False,
      cl_hop_count := 5, cl_crypto := cccam_protocol_reset_crypto\<rparr>)" by (simp add: joe_server_def Let_def)
  note interop = login_interoperates [OF toy_ossl_ok(2,3) toy_available toy_ossl_ok(1) _ _ _ _ _ _ _ msg this _ _ _ _ _ run]
  show ?thesis
    using interop [of 0 "[True]" "joe_io\<lparr>io_rx := io_tx sio'\<rparr>" "[True]" handshake_initial] msg run
    by (auto simp: new_reader_def no_nul_def crypt_mode_allowed_def cccam_protocol_reset_crypto_def joe_io_def)
qed

end
