(* ===== verification/Cc_Legacy.thy ===== *)
theory Cc_Legacy
  imports Server
begin

text \<open>
  Clients of the classic CCcam protocol, \<open>src/network/cccam3_cc_legacy.c\<close>: the stream cipher of a direction
  (\<open>cc_block\<close>), the login, the messages and the loop of a session (\<open>legacy_session\<close>). The socket is a
  \<open>remote_io\<close>; the random bytes of the seed are an argument. \<open>None\<close> is an access outside an array or to freed
  memory. The cipher's counter and sum are \<open>int\<close>s that index a table of 256 bytes and are never reduced;
  \<open>cc_walk\<close> follows them without the data and shows how soon they leave the table.
\<close>

subsection \<open>The stream cipher\<close>

text \<open>
  \<open>counter\<close> and \<open>sum\<close> are \<open>int\<close> variables that only grow, used as indices into the table of 256 bytes:
  \<open>None\<close> is an access outside the table.
\<close>

record cc_block =
  cb_table :: "u8 list"
  cb_state :: u8
  cb_counter :: nat
  cb_sum :: nat

definition cc_swapc :: "nat \<Rightarrow> nat \<Rightarrow> u8 list \<Rightarrow> u8 list" where
  "cc_swapc i j t = t[i := t ! j, j := t ! i]"

definition cc_init_crypt :: "u8 list \<Rightarrow> cc_block" where
  "cc_init_crypt key =
     (let (t, j) = fold (\<lambda>i (t, j). let j' = j + t ! i + key ! (i mod length key) in (cc_swapc i (unat j') t, j'))
            [0..<256] (map of_nat [0..<256], 0 :: u8) in
      \<lparr>cb_table = t, cb_state = key ! 0, cb_counter = 0, cb_sum = 0\<rparr>)"

text \<open>\<open>mode\<close> is true for encryption: the state then takes the byte that went in, else the byte that came out.\<close>

fun cc_crypt :: "bool \<Rightarrow> u8 list \<Rightarrow> cc_block \<Rightarrow> (u8 list \<times> cc_block) option" where
  "cc_crypt mode [] b = Some ([], b)"
| "cc_crypt mode (z # zs) b =
     (let c = cb_counter b + 1 in
      if c \<ge> 256 then None
      else
        let s = cb_sum b + unat (cb_table b ! c) in
        if s \<ge> 256 then None
        else
          let t = cc_swapc c s (cb_table b);
              out = z XOR t ! unat (t ! c + t ! s) XOR cb_state b;
              b' = \<lparr>cb_table = t, cb_state = cb_state b XOR (if mode then z else out), cb_counter = c, cb_sum = s\<rparr> in
          map_option (\<lambda>(rest, b''). (out # rest, b'')) (cc_crypt mode zs b'))"

definition CCCAM :: "u8 list" where "CCCAM = to_bytes ''CCcam'' @ [0]"

definition cc_xor :: "u8 list \<Rightarrow> u8 list" where
  "cc_xor buf = map (\<lambda>i. if i \<le> 5 then buf ! i XOR CCCAM ! i else buf ! i) [0..<8] @ map (\<lambda>i. of_nat i * buf ! i) [0..<8]"

definition of_be64 :: "u8 list \<Rightarrow> u64" where
  "of_be64 bs = foldl (\<lambda>acc b. push_bit 8 acc OR ucast b) 0 bs"

text \<open>The shift is logical for a node id above \<open>2 ^ 63 - 1\<close> and arithmetic below.\<close>

definition cc_cw_crypt :: "u8 list \<Rightarrow> u32 \<Rightarrow> u8 list \<Rightarrow> u8 list" where
  "cc_cw_crypt cws cardid node_id =
     (let node = of_be64 (take 8 node_id);
          shifted = (\<lambda>i. if node > 0x7FFFFFFFFFFFFFFF then drop_bit (4 * i) node else signed_drop_bit (4 * i) node) in
      map (\<lambda>i. let tmp = cws ! i XOR ucast (shifted i); tmp' = (if odd i then NOT tmp else tmp) in
              ucast (drop_bit (2 * i) cardid) XOR tmp') [0..<16])"

subsection \<open>Messages\<close>

definition CCL_MAX_MSG :: nat where "CCL_MAX_MSG = 4096"
definition CCL_CLI_DATA :: u8 where "CCL_CLI_DATA = 0x01"
definition CCL_CW_ECM :: u8 where "CCL_CW_ECM = 0x02"
definition CCL_EMM_ACK :: u8 where "CCL_EMM_ACK = 0x03"
definition CCL_CARD_REMOVED :: u8 where "CCL_CARD_REMOVED = 0x04"
definition CCL_KEEPALIVE :: u8 where "CCL_KEEPALIVE = 0x06"
definition CCL_CW_NOK1 :: u8 where "CCL_CW_NOK1 = 0xFE"

record legacy_session =
  ls_dec :: cc_block
  ls_enc :: cc_block
  ls_node_id :: "u8 list"
  ls_logged_in :: bool
  ls_extended :: bool
  ls_username :: string

text \<open>\<open>memset\<close> to zero.\<close>

definition legacy_session_zero :: legacy_session where
  "legacy_session_zero =
     (let b = \<lparr>cb_table = replicate 256 0, cb_state = 0, cb_counter = 0, cb_sum = 0\<rparr> in
      \<lparr>ls_dec = b, ls_enc = b, ls_node_id = replicate 8 0, ls_logged_in = False, ls_extended = False, ls_username = []\<rparr>)"

definition ccl_recv_exact :: "nat \<Rightarrow> remote_io \<Rightarrow> u8 list option \<times> remote_io" where
  "ccl_recv_exact len io =
     (if len \<le> length (io_rx io) then (Some (take len (io_rx io)), io\<lparr>io_rx := drop len (io_rx io)\<rparr>)
      else (None, io\<lparr>io_rx := []\<rparr>))"

definition ccl_send_all :: "u8 list \<Rightarrow> remote_io \<Rightarrow> bool \<times> remote_io" where
  "ccl_send_all buf io = (case io_sends io of
      [] \<Rightarrow> (False, io)
    | ok # rest \<Rightarrow> (ok, io\<lparr>io_sends := rest, io_tx := (if ok then io_tx io @ buf else io_tx io)\<rparr>))"

definition ccl_send_message ::
  "u8 \<Rightarrow> u8 \<Rightarrow> u8 list \<Rightarrow> legacy_session \<Rightarrow> remote_io \<Rightarrow> (int \<times> legacy_session \<times> remote_io) option" where
  "ccl_send_message flag cmd payload s io =
     (if length payload > CCL_MAX_MSG then Some (-1, s, io)
      else
        let len = of_nat (length payload) :: u16;
            plain = [flag, cmd, ucast (drop_bit 8 len), ucast len] @ payload in
        (case cc_crypt True plain (ls_enc s) of
           None \<Rightarrow> None
         | Some (buf, e) \<Rightarrow> (case ccl_send_all buf io of (ok, io1) \<Rightarrow> Some (if ok then 0 else -1, s\<lparr>ls_enc := e\<rparr>, io1))))"

text \<open>The result is flag, command and payload, or \<open>None\<close> for -1.\<close>

definition ccl_recv_message ::
  "legacy_session \<Rightarrow> remote_io \<Rightarrow> ((u8 \<times> u8 \<times> u8 list) option \<times> legacy_session \<times> remote_io) option" where
  "ccl_recv_message s io =
     (case ccl_recv_exact 4 io of
        (None, io1) \<Rightarrow> Some (None, s, io1)
      | (Some enc, io1) \<Rightarrow>
          (case cc_crypt False enc (ls_dec s) of
             None \<Rightarrow> None
           | Some (header, d) \<Rightarrow>
               let s1 = s\<lparr>ls_dec := d\<rparr>; len = unat (of_be16 (header ! 2) (header ! 3)) in
               if len > CCL_MAX_MSG then Some (None, s1, io1)
               else if len > 0 then
                 (case ccl_recv_exact len io1 of
                    (None, io2) \<Rightarrow> Some (None, s1, io2)
                  | (Some body, io2) \<Rightarrow>
                      (case cc_crypt False body (ls_dec s1) of
                         None \<Rightarrow> None
                       | Some (payload, d2) \<Rightarrow> Some (Some (header ! 0, header ! 1, payload), s1\<lparr>ls_dec := d2\<rparr>, io2)))
               else Some (Some (header ! 0, header ! 1, []), s1, io1)))"

subsection \<open>Requests\<close>

definition legacy_request :: "u8 list \<Rightarrow> client \<Rightarrow> u8 \<Rightarrow> ecm_request" where
  "legacy_request p c max_hops =
     (let len0 = (of_nat (length p - 13) :: u16);
          len = (if unat len0 > ECM_MAX_SIZE then of_nat ECM_MAX_SIZE else len0) in
      \<lparr>rq_caid = of_be16 (p ! 0) (p ! 1), rq_provid = of_be16 (p ! 2) (p ! 3), rq_sid = of_be16 (p ! 10) (p ! 11),
       rq_data = take (unat len) (drop 13 p) @ replicate (ECM_MAX_SIZE - unat len) 0, rq_len = len,
       rq_client_id = cl_client_id c, rq_hop = max_hops\<rparr>)"

text \<open>The result code, the session, the server and the connection.\<close>

definition ccl_handle_ecm ::
  "ossl \<Rightarrow> bool \<Rightarrow> time_t \<Rightarrow> nat \<Rightarrow> u8 \<Rightarrow> u8 list \<Rightarrow> legacy_session \<Rightarrow> server \<Rightarrow> remote_io \<Rightarrow>
   (int \<times> legacy_session \<times> server \<times> remote_io) option" where
  "ccl_handle_ecm lib mem now a flag payload s w io =
     (if length payload < 13 then Some (0, s, w, io)
      else (case pl_heap (sv_pool w) a of
          None \<Rightarrow> None
        | Some c \<Rightarrow>
            let card_id = of_be32 (payload ! 6) (payload ! 7) (payload ! 8) (payload ! 9);
                max_hops = (case cccam_user_manager_get_max_hops (ls_username s) (sv_users w) of None \<Rightarrow> 0 | Some h \<Rightarrow> h);
                rq = legacy_request payload c max_hops in
            (case cccam_ecm_process lib (sc_allowed_modes (sv_config w)) mem now rq (sv_ecm w) of
               None \<Rightarrow> None
             | Some (rc, resp, e) \<Rightarrow>
                 let w1 = w\<lparr>sv_ecm := e\<rparr>;
                     nok = map_option (\<lambda>(r, s', io'). (r, s', register_ecm (ls_username s) False w1, io'))
                             (ccl_send_message flag CCL_CW_NOK1 [] s io) in
                 (case resp of
                    None \<Rightarrow> nok
                  | Some r \<Rightarrow>
                      if rc = 0 \<and> rs_found r then
                        let cw = (if \<not> ls_extended s then cc_cw_crypt (take 16 (rs_cw r)) card_id (ls_node_id s) else take 16 (rs_cw r)) in
                        (case ccl_send_message flag CCL_CW_ECM cw s io of
                           None \<Rightarrow> None
                         | Some (sent, s1, io1) \<Rightarrow>
                             if sent \<noteq> 0 then Some (-1, s1, w1, io1)
                             else (case if \<not> ls_extended s then map_option (\<lambda>(_, e'). s1\<lparr>ls_enc := e'\<rparr>) (cc_crypt True cw (ls_enc s1)) else Some s1 of
                                 None \<Rightarrow> None
                               | Some s2 \<Rightarrow> Some (0, s2, register_ecm (ls_username s) True w1, io1)))
                      else nok))))"

definition ccl_handle_message ::
  "ossl \<Rightarrow> bool \<Rightarrow> time_t \<Rightarrow> nat \<Rightarrow> u8 \<Rightarrow> u8 \<Rightarrow> u8 list \<Rightarrow> legacy_session \<Rightarrow> server \<Rightarrow> remote_io \<Rightarrow>
   (int \<times> legacy_session \<times> server \<times> remote_io) option" where
  "ccl_handle_message lib mem now a flag cmd payload s w io =
     (if cmd = CCL_CW_ECM then ccl_handle_ecm lib mem now a flag payload s w io
      else if cmd = CCL_CLI_DATA then Some (0, s, w, io)
      else if cmd = CCL_KEEPALIVE then
        map_option (\<lambda>(r, s', io'). (r, s', w, io')) (ccl_send_message flag CCL_KEEPALIVE [] s io)
      else if cmd = CCL_EMM_ACK \<or> cmd = CCL_CARD_REMOVED then Some (0, s, w, io)
      else Some (0, s, w, io))"

subsection \<open>Login and session\<close>

text \<open>The seed from 14 random bytes and its checksum.\<close>

definition ccl_seed :: "u8 list \<Rightarrow> u8 list" where
  "ccl_seed rnd = (let bs = take 14 rnd; total = foldl (\<lambda>acc b. acc + ucast b) (0x1234 :: u16) bs in
     bs @ [ucast (drop_bit 8 total), ucast total])"

text \<open>The key setup; the hash that the client must echo is the session's after encryption.\<close>

definition ccl_keys :: "ossl \<Rightarrow> u8 list \<Rightarrow> legacy_session \<Rightarrow> (u8 list \<times> legacy_session) option" where
  "ccl_keys lib seed s =
     (let hash = ossl_sha1 lib (cc_xor seed) in
      case cc_crypt False seed (cc_init_crypt hash) of
        None \<Rightarrow> None
      | Some (tseed, dec) \<Rightarrow>
          (case cc_crypt False hash (cc_init_crypt tseed) of
             None \<Rightarrow> None
           | Some (hash', enc) \<Rightarrow> Some (hash', s\<lparr>ls_dec := dec, ls_enc := enc\<rparr>)))"

definition ccl_reply :: "u8 list" where
  "ccl_reply = to_bytes ''CCcam'' @ take 15 (to_bytes ''CCcam3v3.0.2[EXT]'')"

text \<open>Receive \<open>n\<close> bytes and decrypt them; the inner \<open>None\<close> is a short read.\<close>

definition ccl_recv_crypt ::
  "nat \<Rightarrow> legacy_session \<Rightarrow> remote_io \<Rightarrow> (u8 list option \<times> legacy_session \<times> remote_io) option" where
  "ccl_recv_crypt n s io =
     (case ccl_recv_exact n io of
        (None, io1) \<Rightarrow> Some (None, s, io1)
      | (Some enc, io1) \<Rightarrow>
          (case cc_crypt False enc (ls_dec s) of
             None \<Rightarrow> None
           | Some (bs, d) \<Rightarrow> Some (Some bs, s\<lparr>ls_dec := d\<rparr>, io1)))"

text \<open>The password of the user and the challenge go through the receiving cipher.\<close>

definition ccl_password ::
  "users \<Rightarrow> legacy_session \<Rightarrow> remote_io \<Rightarrow> (int \<times> legacy_session \<times> remote_io) option" where
  "ccl_password um s io =
     (let user = find_user (ls_username s) um;
          password = (case user of None \<Rightarrow> [] | Some u \<Rightarrow> c_strncpy 128 (us_password u));
          enabled = (case user of None \<Rightarrow> False | Some u \<Rightarrow> us_enabled u \<noteq> 0) in
      case cc_crypt True (to_bytes password) (ls_dec s) of
        None \<Rightarrow> None
      | Some (_, d1) \<Rightarrow>
          (case cc_crypt True CCCAM d1 of
             None \<Rightarrow> None
           | Some (challenge, d2) \<Rightarrow>
               let s1 = s\<lparr>ls_dec := d2\<rparr> in
               (case ccl_send_all challenge io of (ok, io1) \<Rightarrow>
                 if \<not> ok then Some (-1, s1, io1)
                 else (case ccl_recv_crypt 6 s1 io1 of
                     None \<Rightarrow> None
                   | Some (None, s2, io2) \<Rightarrow> Some (-1, s2, io2)
                   | Some (Some buf, s2, io2) \<Rightarrow> Some (if buf \<noteq> CCCAM \<or> user = None \<or> \<not> enabled then -1 else 0, s2, io2)))))"

definition ccl_login ::
  "ossl \<Rightarrow> u8 list \<Rightarrow> users \<Rightarrow> legacy_session \<Rightarrow> remote_io \<Rightarrow> (int \<times> legacy_session \<times> remote_io) option" where
  "ccl_login lib rnd um s io =
     (let seed = ccl_seed rnd in
      case ccl_send_all seed io of (ok, io1) \<Rightarrow>
        if \<not> ok then Some (-1, s, io1)
        else (case ccl_keys lib seed s of
            None \<Rightarrow> None
          | Some (hash, s1) \<Rightarrow>
              (case ccl_recv_crypt 20 s1 io1 of
                 None \<Rightarrow> None
               | Some (None, s2, io2) \<Rightarrow> Some (-1, s2, io2)
               | Some (Some echo, s2, io2) \<Rightarrow>
                   if echo \<noteq> hash then Some (-1, s2, io2)
                   else (case ccl_recv_crypt 20 s2 io2 of
                       None \<Rightarrow> None
                     | Some (None, s3, io3) \<Rightarrow> Some (-1, s3, io3)
                     | Some (Some name, s3, io3) \<Rightarrow>
                         (case ccl_password um (s3\<lparr>ls_username := c_strncpy 64 (c_string name)\<rparr>) io3 of
                            None \<Rightarrow> None
                          | Some (rc, s4, io4) \<Rightarrow>
                              if rc \<noteq> 0 then Some (-1, s4, io4)
                              else
                                let s5 = s4\<lparr>ls_extended := True\<rparr> in
                                (case cc_crypt True ccl_reply (ls_enc s5) of
                                   None \<Rightarrow> None
                                 | Some (reply, e) \<Rightarrow>
                                     (case ccl_send_all reply io4 of (ok2, io5) \<Rightarrow>
                                       if \<not> ok2 then Some (-1, s5\<lparr>ls_enc := e\<rparr>, io5)
                                       else Some (0, s5\<lparr>ls_enc := e, ls_logged_in := True\<rparr>, io5))))))))"

text \<open>
  One pass of the session's loop with data on the socket, and the loop; each element is the outcome of
  \<open>malloc\<close> and the time of one pass. \<open>CLIENT_TIMEOUT\<close> is \<open>CCCAM3_CLIENT_TIMEOUT\<close>.
\<close>

definition CLIENT_TIMEOUT :: int where "CLIENT_TIMEOUT = 120"

fun ccl_loop ::
  "ossl \<Rightarrow> nat \<Rightarrow> (bool \<times> time_t) list \<Rightarrow> legacy_session \<Rightarrow> server \<Rightarrow> remote_io \<Rightarrow>
   (int \<times> legacy_session \<times> server \<times> remote_io) option" where
  "ccl_loop lib a [] s w io = Some (0, s, w, io)"
| "ccl_loop lib a ((mem, now) # xs) s w io =
     (case pl_heap (sv_pool w) a of
        None \<Rightarrow> None
      | Some c \<Rightarrow>
          if cl_to_kick c then Some (0, s, w, io)
          else if cl_zombie c then Some (0, s, w, io)
          else if now - cl_last_keepalive c > CLIENT_TIMEOUT then Some (0, s, w, io)
          else (case ccl_recv_message s io of
              None \<Rightarrow> None
            | Some (None, s1, io1) \<Rightarrow> Some (-1, s1, w, io1)
            | Some (Some (flag, cmd, payload), s1, io1) \<Rightarrow>
                (case ccl_handle_message lib mem now a flag cmd payload s1 w io1 of
                   None \<Rightarrow> None
                 | Some (rc, s2, w2, io2) \<Rightarrow>
                     if rc \<noteq> 0 then Some (-1, s2, w2, io2)
                     else (case cccam_client_update_keepalive a now (sv_pool w2) of
                         None \<Rightarrow> None
                       | Some p \<Rightarrow> ccl_loop lib a xs s2 (set_pool p w2) io2))))"

definition cclegacy_serve ::
  "ossl \<Rightarrow> u8 list \<Rightarrow> time_t \<Rightarrow> nat \<Rightarrow> (bool \<times> time_t) list \<Rightarrow> server \<Rightarrow> remote_io \<Rightarrow>
   (int \<times> legacy_session \<times> server \<times> remote_io) option" where
  "cclegacy_serve lib rnd now a steps w io =
     (case ccl_login lib rnd (sv_users w) legacy_session_zero io of
        None \<Rightarrow> None
      | Some (rc, s, io1) \<Rightarrow>
          if rc \<noteq> 0 then Some (-1, s, w, io1)
          else (case cccam_client_authenticate a (sv_pool w) of
              None \<Rightarrow> None
            | Some p \<Rightarrow> (case cccam_client_update_keepalive a now p of
                None \<Rightarrow> None
              | Some p2 \<Rightarrow> ccl_loop lib a steps s (set_pool p2 w) io1)))"

subsection \<open>How long the cipher stays within its table\<close>

text \<open>The positions that a block visits do not depend on the data: table, counter and sum alone.\<close>

fun cc_walk :: "nat \<Rightarrow> u8 list \<Rightarrow> nat \<Rightarrow> nat \<Rightarrow> (u8 list \<times> nat \<times> nat) option" where
  "cc_walk 0 t c s = Some (t, c, s)"
| "cc_walk (Suc n) t c s =
     (if c + 1 \<ge> 256 \<or> s + unat (t ! (c + 1)) \<ge> 256 then None
      else cc_walk n (cc_swapc (c + 1) (s + unat (t ! (c + 1))) t) (c + 1) (s + unat (t ! (c + 1))))"

lemma cc_crypt_walk:
  "cc_crypt mode d b = Some (r, b') \<Longrightarrow>
   cc_walk (length d) (cb_table b) (cb_counter b) (cb_sum b) = Some (cb_table b', cb_counter b', cb_sum b') \<and> length r = length d"
proof (induction mode d b arbitrary: r b' rule: cc_crypt.induct)
  case (2 mode z zs b)
  then show ?case by (auto simp: Let_def split: if_splits)
qed simp

lemma length_swapc [simp]: "length (cc_swapc i j t) = length t"
  by (simp add: cc_swapc_def)

lemma distinct_swapc [simp]: "i < length t \<Longrightarrow> j < length t \<Longrightarrow> distinct (cc_swapc i j t) = distinct t"
  unfolding cc_swapc_def by (rule distinct_swap)

lemma nth_swapc: "p \<noteq> i \<Longrightarrow> p \<noteq> j \<Longrightarrow> cc_swapc i j t ! p = t ! p"
  by (simp add: cc_swapc_def)

lemma nth_swapc_second: "i < length t \<Longrightarrow> j < length t \<Longrightarrow> cc_swapc i j t ! j = t ! i"
  by (cases "i = j") (simp_all add: cc_swapc_def)

lemma cc_walk_append:
  "cc_walk (m + n) t c s = (case cc_walk m t c s of None \<Rightarrow> None | Some (t', c', s') \<Rightarrow> cc_walk n t' c' s')"
  by (induction m arbitrary: t c s) (auto split: option.splits)

definition table_ok :: "u8 list \<Rightarrow> bool" where
  "table_ok t \<longleftrightarrow> distinct t \<and> length t = 256"

lemma cc_walk_keeps:
  "cc_walk n t c s = Some (t', c', s') \<Longrightarrow> table_ok t \<Longrightarrow> s < 256 \<Longrightarrow> table_ok t' \<and> c' = c + n \<and> s \<le> s' \<and> s' < 256"
proof (induction n arbitrary: t c s)
  case (Suc n)
  let ?s = "s + unat (t ! (c + 1))"
  from Suc.prems have b: "c + 1 < 256" "?s < 256" and w: "cc_walk n (cc_swapc (c + 1) ?s t) (c + 1) ?s = Some (t', c', s')"
    by (auto split: if_splits)
  have "table_ok (cc_swapc (c + 1) ?s t)" using Suc.prems(2) b by (simp add: table_ok_def)
  from Suc.IH [OF w this b(2)] show ?case by simp
qed simp

lemma sum_distinct_ge:
  fixes xs :: "nat list"
  assumes "distinct xs"
  shows "length xs * (length xs - 1) \<le> 2 * sum_list xs"
proof -
  have "finite S \<Longrightarrow> card S * (card S - 1) \<le> 2 * \<Sum>S" for S :: "nat set"
  proof (induction "card S" arbitrary: S)
    case (Suc n)
    then have ne: "S \<noteq> {}" by auto
    have card: "card (S - {Max S}) = n" using Suc ne by simp
    have "S \<subseteq> {..Max S}" using Suc.prems by auto
    then have "card S \<le> card {..Max S}" by (intro card_mono) simp_all
    then have max: "n \<le> Max S" using Suc(2) by simp
    have "\<Sum>S = Max S + \<Sum>(S - {Max S})" using Suc.prems ne by (intro sum.remove) auto
    moreover have "n * (n - 1) \<le> 2 * \<Sum>(S - {Max S})" using Suc(1) [OF card [symmetric]] Suc.prems card by simp
    moreover have "card S * (card S - 1) = 2 * n + n * (n - 1)"
      using Suc(2) [symmetric] by (cases n) (simp_all add: algebra_simps)
    ultimately show ?case using max by simp
  qed simp
  from this [of "set xs"] assms show ?thesis
    by (simp add: distinct_card distinct_sum_list_conv_Sum)
qed

text \<open>
  While the counter stays below the sum it reads bytes of the table that no swap has moved yet; they are
  distinct, so the sum grows by at least the sum of the smallest ones.
\<close>

lemma cc_walk_reads:
  assumes "cc_walk m t c s = Some (t', c', s')" and "table_ok t" and "c + m < s" and "s < 256"
  shows "s' = s + sum_list (map (\<lambda>i. unat (t ! (c + 1 + i))) [0..<m])"
  using assms
proof (induction m arbitrary: t c s)
  case (Suc m)
  let ?s = "s + unat (t ! (c + 1))"
  let ?t = "cc_swapc (c + 1) ?s t"
  from Suc.prems(1) have b: "c + 1 < 256" "?s < 256" and w: "cc_walk m ?t (c + 1) ?s = Some (t', c', s')"
    by (auto split: if_splits)
  have "table_ok ?t" using Suc.prems(2) b by (simp add: table_ok_def)
  with Suc.IH [OF w] Suc.prems b have "s' = ?s + sum_list (map (\<lambda>i. unat (?t ! (c + 1 + 1 + i))) [0..<m])" by simp
  also have "map (\<lambda>i. unat (?t ! (c + 1 + 1 + i))) [0..<m] = map (\<lambda>i. unat (t ! (c + 1 + 1 + i))) [0..<m]"
    using Suc.prems(3) by (intro map_cong refl) (subst nth_swapc, auto)
  also have "?s + sum_list \<dots> = s + sum_list (map (\<lambda>i. unat (t ! (c + 1 + i))) [0..<Suc m])"
    by (simp only: upt_conv_Cons map_Suc_upt [symmetric] list.map zero_less_Suc sum_list.Cons map_map o_def) simp
  finally show ?case .
qed simp

lemma cc_walk_grows:
  assumes w: "cc_walk m t c s = Some (t', c', s')" and t: "table_ok t" and s: "c + m < s" "s < 256"
  shows "2 * s + m * (m - 1) \<le> 2 * s'"
proof -
  let ?xs = "map (\<lambda>i. unat (t ! (c + 1 + i))) [0..<m]"
  have "distinct ?xs"
    using t s by (auto simp: distinct_map inj_on_def table_ok_def nth_eq_iff_index_eq simp flip: word_unat_eq_iff)
  from sum_distinct_ge [OF this] cc_walk_reads [OF w t s] show ?thesis by simp
qed

text \<open>
  The first steps. \<open>slow_walk n c s known used\<close> is true when no table lets the sum stay within 4 of the
  counter for \<open>n\<close> more steps: \<open>known\<close> are the bytes at positions that the walk has written, \<open>used\<close> the bytes
  that it has read, which are nowhere else in the table.
\<close>

fun slow_walk :: "nat \<Rightarrow> nat \<Rightarrow> nat \<Rightarrow> (nat \<times> nat) list \<Rightarrow> nat list \<Rightarrow> bool" where
  "slow_walk 0 c s known used = False"
| "slow_walk (Suc n) c s known used =
     (let c' = c + 1;
          go = (\<lambda>v used'. s + v > c' + 4 \<or> slow_walk n c' (s + v) ((s + v, v) # known) used') in
      case map_of known c' of
        Some v \<Rightarrow> go v used
      | None \<Rightarrow> list_all (\<lambda>v. v \<in> set used \<or> go v (v # used)) [0..<c' + 5 - s])"

lemma slow_walk_start: "slow_walk 11 0 0 [] []"
  by code_simp

lemma slow_walk_sound:
  assumes "slow_walk n c s known used" and "cc_walk n t c s = Some r" and "table_ok t"
    and "\<And>p v. p > c \<Longrightarrow> map_of known p = Some v \<Longrightarrow> p < 256 \<and> unat (t ! p) = v"
    and "\<And>p. p > c \<Longrightarrow> p < 256 \<Longrightarrow> map_of known p = None \<Longrightarrow> unat (t ! p) \<notin> set used"
  shows "\<exists>m t' s'. 0 < m \<and> m \<le> n \<and> cc_walk m t c s = Some (t', c + m, s') \<and> s' > c + m + 4"
  using assms
proof (induction n arbitrary: c s known used t)
  case (Suc n)
  let ?c = "c + 1" and ?v = "unat (t ! (c + 1))"
  let ?s = "s + ?v"
  let ?t = "cc_swapc ?c ?s t"
  from Suc.prems(2) have b: "?c < 256" "?s < 256" and w: "cc_walk n ?t ?c ?s = Some r"
    by (auto split: if_splits)
  show ?case
  proof (cases "?s > ?c + 4")
    case True
    then show ?thesis using b by (intro exI [of _ 1] exI [of _ ?t] exI [of _ ?s]) simp
  next
    case False
    define used' where "used' = (if map_of known ?c = None then ?v # used else used)"
    have slow: "slow_walk n ?c ?s ((?s, ?v) # known) used'"
    proof (cases "map_of known ?c")
      case None
      have "?v \<notin> set used" using Suc.prems(5) [of ?c] b None by simp
      moreover have "?v \<in> set [0..<?c + 5 - s]" using False by simp
      ultimately show ?thesis using Suc.prems(1) None False by (auto simp: Let_def list_all_iff used'_def)
    next
      case (Some v)
      then have "v = ?v" using Suc.prems(4) [of ?c v] by simp
      with Some Suc.prems(1) False show ?thesis by (simp add: Let_def used'_def)
    qed
    have tok: "table_ok ?t" using Suc.prems(3) b by (simp add: table_ok_def)
    have len: "length t = 256" "distinct t" using Suc.prems(3) by (simp_all add: table_ok_def)
    have 1: "p < 256 \<and> unat (?t ! p) = v" if "p > ?c" "map_of ((?s, ?v) # known) p = Some v" for p v
    proof (cases "p = ?s")
      case True
      with that b len show ?thesis by (simp add: nth_swapc_second)
    next
      case False
      with that have "map_of known p = Some v" by simp
      with Suc.prems(4) [of p v] that False show ?thesis by (simp add: nth_swapc)
    qed
    have 2: "unat (?t ! p) \<notin> set used'" if "p > ?c" "p < 256" "map_of ((?s, ?v) # known) p = None" for p
    proof -
      have p: "p \<noteq> ?s" "map_of known p = None" using that by (auto split: if_splits)
      have "t ! p \<noteq> t ! ?c" using that b len by (simp add: nth_eq_iff_index_eq)
      with Suc.prems(5) [of p] that p show ?thesis by (simp add: nth_swapc used'_def word_unat_eq_iff)
    qed
    from Suc.IH [OF slow w tok 1 2] obtain m t' s' where "0 < m" "m \<le> n" "cc_walk m ?t ?c ?s = Some (t', ?c + m, s')" "s' > ?c + m + 4"
      by blast
    then show ?thesis using b by (intro exI [of _ "Suc m"] exI [of _ t'] exI [of _ s']) simp
  qed
qed simp

text \<open>So no table of distinct bytes lets a fresh block process 60 bytes.\<close>

lemma cc_walk_prefix: "cc_walk (m + n) t c s = Some r \<Longrightarrow> \<exists>t' c' s'. cc_walk m t c s = Some (t', c', s') \<and> cc_walk n t' c' s' = Some r"
  by (auto simp: cc_walk_append split: option.splits)

lemma cc_walk_jump:
  assumes "cc_walk n t c s = Some r" and "m \<le> n" and "table_ok t" and "s < 256" and "c + m < s"
  shows "\<exists>t' s'. cc_walk (n - m) t' (c + m) s' = Some r \<and> table_ok t' \<and> s' < 256 \<and> 2 * s + m * (m - 1) \<le> 2 * s'"
proof -
  have "cc_walk (m + (n - m)) t c s = Some r" using assms(1,2) by simp
  then obtain t' c' s' where w: "cc_walk m t c s = Some (t', c', s')" "cc_walk (n - m) t' c' s' = Some r"
    using cc_walk_prefix by blast
  from cc_walk_keeps [OF w(1) assms(3,4)] cc_walk_grows [OF w(1) assms(3,5,4)] w(2) show ?thesis by auto
qed

lemma cc_walk_60:
  assumes "table_ok t"
  shows "cc_walk 60 t 0 0 = None"
proof (rule ccontr)
  assume "cc_walk 60 t 0 0 \<noteq> None"
  then obtain r where r: "cc_walk 60 t 0 0 = Some r" by auto
  then have "cc_walk (11 + 49) t 0 0 = Some r" by simp
  then obtain r1 where "cc_walk 11 t 0 0 = Some r1" using cc_walk_prefix by blast
  from slow_walk_sound [OF slow_walk_start this assms] obtain m t1 s1 where m: "m \<le> 11" "cc_walk m t 0 0 = Some (t1, m, s1)" "s1 > m + 4"
    by auto
  have t1: "table_ok t1" "s1 < 256" using cc_walk_keeps [OF m(2) assms] by auto
  have "cc_walk (m + (60 - m)) t 0 0 = Some r" using r m(1) by simp
  with m(2) have w1: "cc_walk (60 - m) t1 m s1 = Some r" by (simp only: cc_walk_append) simp
  have le: "4 \<le> 60 - m" "6 \<le> 56 - m" "15 \<le> 50 - m" "24 \<le> 35 - m" using m(1) by simp_all
  obtain t2 s2 where w2: "cc_walk (56 - m) t2 (m + 4) s2 = Some r" "table_ok t2" "s2 < 256" "s1 + 6 \<le> s2"
    using cc_walk_jump [OF w1 le(1) t1] m by auto
  obtain t3 s3 where w3: "cc_walk (50 - m) t3 (10 + m) s3 = Some r" "table_ok t3" "s3 < 256" "s2 + 15 \<le> s3"
    using cc_walk_jump [OF w2(1) le(2) w2(2,3)] m w2(4) by auto
  obtain t4 s4 where w4: "cc_walk (35 - m) t4 (25 + m) s4 = Some r" "table_ok t4" "s4 < 256" "s3 + 105 \<le> s4"
    using cc_walk_jump [OF w3(1) le(3) w3(2,3)] m w2(4) w3(4) by auto
  obtain t5 s5 where "s5 < 256" "s4 + 276 \<le> s5"
    using cc_walk_jump [OF w4(1) le(4) w4(2,3)] m w2(4) w3(4) w4(4) by auto
  then show False by simp
qed

lemma fold_distinct_swap:
  assumes "\<And>i x. i \<in> set is \<Longrightarrow> i < 256"
  shows "table_ok t \<Longrightarrow> table_ok (fst (fold (\<lambda>i (t, j). let j' = j + t ! i + key ! (i mod length key) in (cc_swapc i (unat j') t, j')) is (t, j :: u8)))"
  using assms
proof (induction "is" arbitrary: t j)
  case (Cons i ks)
  have "unat (x :: u8) < 256" for x using unsigned_less [where ?'a = nat and w = x] by simp
  with Cons.prems have "table_ok (cc_swapc i (unat x) t)" for x :: u8 by (simp add: table_ok_def)
  with Cons show ?case by (simp add: Let_def)
qed simp

lemma cc_init_table: "table_ok (cb_table (cc_init_crypt key)) \<and> cb_counter (cc_init_crypt key) = 0 \<and> cb_sum (cc_init_crypt key) = 0"
proof -
  have "distinct (map (\<lambda>i. of_nat i :: u8) [0..<256])"
    by (auto simp: distinct_map inj_on_def word_of_nat_eq_iff take_bit_nat_eq_self)
  then have "table_ok (map of_nat [0..<256])" by (simp add: table_ok_def)
  from fold_distinct_swap [OF _ this, of "[0..<256]" key 0] show ?thesis
    by (simp add: cc_init_crypt_def split: prod.split) (metis (no_types, lifting) fst_conv)
qed

text \<open>Blocks after any number of bytes in any mode, from a fresh start.\<close>

definition cc_used :: "cc_block \<Rightarrow> nat \<Rightarrow> bool" where
  "cc_used b n \<longleftrightarrow> (\<exists>t. table_ok t \<and> cc_walk n t 0 0 = Some (cb_table b, cb_counter b, cb_sum b))"

lemma cc_used_init: "cc_used (cc_init_crypt key) 0"
  using cc_init_table [of key] by (auto simp: cc_used_def intro!: exI [of _ "cb_table (cc_init_crypt key)"])

lemma cc_used_crypt: "cc_used b n \<Longrightarrow> cc_crypt mode d b = Some (r, b') \<Longrightarrow> cc_used b' (n + length d) \<and> length r = length d"
  using cc_crypt_walk [of mode d b r b'] by (auto simp: cc_used_def cc_walk_append)

lemma cc_used_bound: "cc_used b n \<Longrightarrow> n < 60"
proof (rule ccontr)
  assume "cc_used b n" and "\<not> n < 60"
  then obtain t where "table_ok t" "cc_walk (60 + (n - 60)) t 0 0 \<noteq> None" by (auto simp: cc_used_def)
  with cc_walk_60 [of t] show False by (simp add: cc_walk_append)
qed

subsection \<open>The cipher inverts itself\<close>

lemma cc_decrypts: "cc_crypt True d b = Some (c, b') \<Longrightarrow> cc_crypt False c b = Some (d, b')"
proof (induction d arbitrary: b c b')
  case (Cons z zs)
  let ?c = "cb_counter b + 1" and ?s = "cb_sum b + unat (cb_table b ! (cb_counter b + 1))"
  let ?t = "cc_swapc ?c ?s (cb_table b)"
  let ?k = "?t ! unat (?t ! ?c + ?t ! ?s)"
  let ?b = "\<lparr>cb_table = ?t, cb_state = cb_state b XOR z, cb_counter = ?c, cb_sum = ?s\<rparr>"
  from Cons.prems obtain cs where bounds: "?c < 256" "?s < 256" and rest: "cc_crypt True zs ?b = Some (cs, b')"
    and c: "c = (z XOR ?k XOR cb_state b) # cs"
    by (auto simp: Let_def split: if_splits)
  have cancel: "(u XOR k XOR v) XOR k XOR v = u" for u k v :: u8
    by (rule bit_word_eqI) (auto simp: bit_simps)
  with bounds Cons.IH [OF rest] show ?case
    by (simp add: c Let_def cancel)
qed simp

lemma cc_crypt_append:
  "cc_crypt mode (d @ e) b = (case cc_crypt mode d b of None \<Rightarrow> None
     | Some (c, b') \<Rightarrow> map_option (\<lambda>(c', b''). (c @ c', b'')) (cc_crypt mode e b'))"
proof (induction d arbitrary: b)
  case Nil
  show ?case by (cases "cc_crypt mode e b") auto
next
  case (Cons z zs)
  show ?case
    by (auto simp: Cons Let_def option.map_comp o_def case_prod_beta split: option.splits intro!: option.map_cong0)
qed

interpretation legacy_stream: sync_cipher "\<lambda>b d. map_option (\<lambda>(c, b'). (b', c)) (cc_crypt True d b)"
  "\<lambda>b c. map_option (\<lambda>(d, b'). (b', d)) (cc_crypt False c b)" "(=)"
  by unfold_locales (auto dest: cc_decrypts)

subsection \<open>Properties\<close>

text \<open>
  Messages on the wire: what \<open>ccl_send_message\<close> sent, a peer whose receiving cipher is in step reads back with
  the same flag, command and payload, and leaves the next message in the socket.
\<close>

theorem legacy_message_roundtrip:
  assumes "ls_enc s = ls_dec r" and "ccl_send_message flag cmd p s io = Some (0, s', io')"
    and "io_tx io' = io_tx io @ wire" and "io_rx i = wire @ rest"
  shows "\<exists>r' i'. ccl_recv_message r i = Some (Some (flag, cmd, p), r', i') \<and> ls_dec r' = ls_enc s' \<and> io_rx i' = rest"
proof -
  define L where "L = (of_nat (length p) :: u16)"
  let ?h = "[flag, cmd, ucast (drop_bit 8 L), ucast L]"
  from assms(2) have n: "length p \<le> 4096" by (auto simp: ccl_send_message_def CCL_MAX_MSG_def split: if_splits)
  have send: "ccl_send_message flag cmd p s io = (case cc_crypt True (?h @ p) (ls_enc s) of None \<Rightarrow> None
      | Some (buf, e) \<Rightarrow> (case ccl_send_all buf io of (ok, io1) \<Rightarrow> Some (if ok then 0 else -1, s\<lparr>ls_enc := e\<rparr>, io1)))"
    using n by (simp add: ccl_send_message_def CCL_MAX_MSG_def Let_def L_def)
  obtain wire' e where enc': "cc_crypt True (?h @ p) (ls_enc s) = Some (wire', e)"
    using assms(2) unfolding send by (cases "cc_crypt True (?h @ p) (ls_enc s)") auto
  have s': "s' = s\<lparr>ls_enc := e\<rparr>" and "wire' = wire"
    using assms(2,3) unfolding send enc' by (auto simp: ccl_send_all_def split: list.splits if_splits)
  with enc' have enc: "cc_crypt True (?h @ p) (ls_enc s) = Some (wire, e)" by blast
  from enc obtain h e1 c where h: "cc_crypt True ?h (ls_enc s) = Some (h, e1)" and c: "cc_crypt True p e1 = Some (c, e)"
    and wire: "wire = h @ c"
    unfolding cc_crypt_append by (cases "cc_crypt True ?h (ls_enc s)") (auto simp del: cc_crypt.simps)
  have lens: "length h = 4" "length c = length p" using cc_crypt_walk [OF h] cc_crypt_walk [OF c] by simp_all
  have len: "unat L = length p"
    using n by (simp add: L_def unsigned_of_nat take_bit_nat_eq_self)
  define i1 where "i1 = i\<lparr>io_rx := c @ rest\<rparr>"
  have r1: "ccl_recv_exact 4 i = (Some h, i1)" using assms(4) lens by (simp add: ccl_recv_exact_def wire i1_def)
  have r2: "ccl_recv_exact (length p) i1 = (Some c, i1\<lparr>io_rx := rest\<rparr>)" using lens by (simp add: ccl_recv_exact_def i1_def)
  have d1: "cc_crypt False h (ls_dec r) = Some (?h, e1)" using cc_decrypts [OF h] assms(1) by simp
  have d2: "cc_crypt False c e1 = Some (p, e)" by (rule cc_decrypts [OF c])
  show ?thesis
  proof (cases "p = []")
    case True
    with c lens have "e = e1" "c = []" by simp_all
    with True r1 d1 len show ?thesis by (simp add: ccl_recv_message_def s' i1_def CCL_MAX_MSG_def del: cc_crypt.simps)
  next
    case False
    with r1 r2 d1 d2 len n show ?thesis
      by (simp add: ccl_recv_message_def s' CCL_MAX_MSG_def del: cc_crypt.simps)
  qed
qed

text \<open>
  The extra encryption of a classic control word undoes itself: the mask is a function of the card and node ids
  alone, and both of its branches compute the same mask.
\<close>

theorem cw_crypt_involution:
  assumes "length cw = 16"
  shows "cc_cw_crypt (cc_cw_crypt cw cardid node) cardid node = cw"
proof (rule nth_equalityI)
  fix i assume "i < length (cc_cw_crypt (cc_cw_crypt cw cardid node) cardid node)"
  then have i: "i < 16" by (simp add: cc_cw_crypt_def Let_def)
  have flip: "c XOR (c XOR w XOR m) XOR m = w" "c XOR NOT (c XOR NOT (w XOR m) XOR m) = w" "c XOR (c XOR (w XOR m) XOR m) = w" for c w m :: u8
    by (rule bit_word_eqI; auto simp: bit_simps)+
  show "cc_cw_crypt (cc_cw_crypt cw cardid node) cardid node ! i = cw ! i"
    using i by (simp add: cc_cw_crypt_def Let_def flip)
qed (simp add: cc_cw_crypt_def Let_def assms)

text \<open>Any sequence of calls on one block.\<close>

fun cc_chunks :: "(bool \<times> u8 list) list \<Rightarrow> cc_block \<Rightarrow> cc_block option" where
  "cc_chunks [] b = Some b"
| "cc_chunks ((mode, d) # ds) b = (case cc_crypt mode d b of None \<Rightarrow> None | Some (_, b') \<Rightarrow> cc_chunks ds b')"

lemma cc_chunks_used: "cc_used b n \<Longrightarrow> cc_chunks ds b = Some b' \<Longrightarrow> cc_used b' (n + sum_list (map (length \<circ> snd) ds))"
proof (induction ds b arbitrary: n b' rule: cc_chunks.induct)
  case (2 mode d ds b)
  then obtain r b1 where c: "cc_crypt mode d b = Some (r, b1)" "cc_chunks ds b1 = Some b'" by (auto split: option.splits)
  from "2.IH" [OF c(1) refl _ c(2), of "n + length d"] cc_used_crypt [OF "2.prems"(1) c(1)] show ?case by (simp add: add.assoc)
qed simp

text \<open>
  Counter and sum of a cipher block are plain integers that are never reduced: whatever the key, a block leaves
  its table of 256 bytes before it has processed 60 bytes.
\<close>

theorem legacy_cipher_lifetime:
  assumes "cc_chunks ds (cc_init_crypt key) = Some b"
  shows "sum_list (map (length \<circ> snd) ds) < 60"
  using cc_used_bound [OF cc_chunks_used [OF cc_used_init assms]] by simp

theorem legacy_cipher_lifetime_witness:
  "\<exists>b. cc_chunks [(True, [1])] (cc_init_crypt [7, 9]) = Some b \<and> sum_list (map (length \<circ> snd) [(True, [1 :: u8])]) < 60"
proof -
  have "unat (x :: u8) < 256" for x using unsigned_less [where ?'a = nat and w = x] by simp
  with cc_init_table [of "[7, 9]"] have "cc_chunks [(True, [1])] (cc_init_crypt [7, 9]) \<noteq> None"
    by (simp add: Let_def not_le)
  then obtain b where "cc_chunks [(True, [1])] (cc_init_crypt [7, 9]) = Some b" by blast
  with legacy_cipher_lifetime [OF this] show ?thesis by blast
qed

text \<open>A session whose two ciphers start from the same table.\<close>

definition legacy_demo :: legacy_session where
  "legacy_demo = (let b = \<lparr>cb_table = map of_nat [0..<256], cb_state = 5, cb_counter = 0, cb_sum = 0\<rparr> in
     legacy_session_zero\<lparr>ls_dec := b, ls_enc := b\<rparr>)"

theorem legacy_message_roundtrip_witness:
  "\<exists>s' io' r' i'. ccl_send_message 3 CCL_KEEPALIVE [9] legacy_demo \<lparr>io_connect = None, io_rx = [], io_sends = [True], io_tx = []\<rparr>
      = Some (0, s', io') \<and>
    ccl_recv_message legacy_demo \<lparr>io_connect = None, io_rx = io_tx io' @ [1, 2], io_sends = [], io_tx = []\<rparr>
      = Some (Some (3, CCL_KEEPALIVE, [9]), r', i') \<and> io_rx i' = [1, 2]"
proof -
  let ?io = "\<lparr>io_connect = None, io_rx = [], io_sends = [True], io_tx = []\<rparr>"
  define sent where "sent = ccl_send_message 3 CCL_KEEPALIVE [9] legacy_demo ?io"
  have "(case sent of None \<Rightarrow> False | Some (rc, s', io') \<Rightarrow> rc = 0)" unfolding sent_def by code_simp
  then obtain s' io' where s: "ccl_send_message 3 CCL_KEEPALIVE [9] legacy_demo ?io = Some (0, s', io')"
    by (cases sent) (auto simp: sent_def)
  have same: "ls_enc legacy_demo = ls_dec legacy_demo" by (simp add: legacy_demo_def Let_def)
  from legacy_message_roundtrip [OF same s, of "io_tx io'" "\<lparr>io_connect = None, io_rx = io_tx io' @ [1, 2], io_sends = [], io_tx = []\<rparr>" "[1, 2]"] s
  show ?thesis by auto
qed

theorem cw_crypt_involution_witness:
  "cc_cw_crypt (cc_cw_crypt (replicate 16 7) 0x12345678 [255, 2, 3, 4, 5, 6, 7, 8]) 0x12345678 [255, 2, 3, 4, 5, 6, 7, 8] = replicate 16 7"
  by (rule cw_crypt_involution) simp

text \<open>What a login consumes of the receiving cipher.\<close>

lemma ccl_recv_crypt_used:
  assumes "ccl_recv_crypt n s io = Some (res, s', io')" and "cc_used (ls_dec s) k"
  shows "io_tx io' = io_tx io \<and> (res \<noteq> None \<longrightarrow> cc_used (ls_dec s') (k + n))"
proof -
  have tx: "ccl_recv_exact n io = (x, i) \<Longrightarrow> io_tx i = io_tx io \<and> (x \<noteq> None \<longrightarrow> length (the x) = n)" for x i
    by (auto simp: ccl_recv_exact_def split: if_splits)
  obtain x i where r: "ccl_recv_exact n io = (x, i)" by fastforce
  show ?thesis
  proof (cases x)
    case None
    with assms(1) r tx [OF r] show ?thesis by (simp add: ccl_recv_crypt_def)
  next
    case (Some enc)
    with assms(1) r obtain bs d where "cc_crypt False enc (ls_dec s) = Some (bs, d)" "res = Some bs" "s' = s\<lparr>ls_dec := d\<rparr>" "io' = i"
      by (auto simp: ccl_recv_crypt_def split: option.splits)
    with cc_used_crypt [OF assms(2) this(1)] tx [OF r] Some show ?thesis by simp
  qed
qed

lemma ccl_send_all_tx: "ccl_send_all buf io = (ok, io') \<Longrightarrow> length (io_tx io') \<le> length (io_tx io) + length buf"
  by (auto simp: ccl_send_all_def split: list.splits)

lemma ccl_password_used:
  assumes "ccl_password um s io = Some (rc, s', io')" and "cc_used (ls_dec s) k"
  shows "length (io_tx io') \<le> length (io_tx io) + 6 \<and> (rc = 0 \<longrightarrow> cc_used (ls_dec s') (k + 12 + (case find_user (ls_username s) um of
    None \<Rightarrow> 0 | Some u \<Rightarrow> length (c_strncpy 128 (us_password u)))))"
proof -
  define pw where "pw = to_bytes (case find_user (ls_username s) um of None \<Rightarrow> [] | Some u \<Rightarrow> c_strncpy 128 (us_password u))"
  obtain x d1 where 1: "cc_crypt True pw (ls_dec s) = Some (x, d1)"
    using assms(1) by (auto simp: ccl_password_def Let_def pw_def split: option.splits)
  obtain ch d2 where 2: "cc_crypt True CCCAM d1 = Some (ch, d2)"
    using assms(1) 1 by (auto simp: ccl_password_def Let_def pw_def split: option.splits)
  have "length CCCAM = 6" by (simp add: CCCAM_def)
  with cc_used_crypt [OF conjunct1 [OF cc_used_crypt [OF assms(2) 1]] 2]
  have u: "cc_used d2 (k + length pw + 6)" "length ch = 6" by simp_all
  obtain ok io1 where send: "ccl_send_all ch io = (ok, io1)" by fastforce
  note tx = ccl_send_all_tx [OF send]
  show ?thesis
  proof (cases ok)
    case False
    with assms(1) 1 2 send tx u(2) show ?thesis by (auto simp: ccl_password_def Let_def pw_def)
  next
    case True
    with assms(1) 1 2 send obtain res s2 io2 where r: "ccl_recv_crypt 6 (s\<lparr>ls_dec := d2\<rparr>) io1 = Some (res, s2, io2)"
      by (cases "ccl_recv_crypt 6 (s\<lparr>ls_dec := d2\<rparr>) io1") (auto simp: ccl_password_def Let_def pw_def)
    have "s' = s2 \<and> io' = io2 \<and> (rc = 0 \<longrightarrow> res \<noteq> None)"
      using assms(1) 1 2 send True r by (cases res) (auto simp: ccl_password_def Let_def pw_def)
    with ccl_recv_crypt_used [OF r, of "k + length pw + 6"] u tx show ?thesis
      by (auto simp: pw_def ac_simps split: option.splits)
  qed
qed

lemma login_used:
  assumes l: "ccl_login lib rnd um s io = Some (rc, s', io')" and rnd: "14 \<le> length rnd"
  shows "length (io_tx io') \<le> length (io_tx io) + 22 \<and> rc = -1"
proof -
  have seed: "length (ccl_seed rnd) = 16" using rnd by (simp add: ccl_seed_def Let_def)
  obtain ok io1 where send: "ccl_send_all (ccl_seed rnd) io = (ok, io1)" by fastforce
  note tx1 = ccl_send_all_tx [OF send]
  show ?thesis
  proof (cases ok)
    case False
    with l send tx1 seed show ?thesis by (simp add: ccl_login_def Let_def)
  next
    case True
    with l send obtain hash s1 where keys: "ccl_keys lib (ccl_seed rnd) s = Some (hash, s1)"
      by (cases "ccl_keys lib (ccl_seed rnd) s") (auto simp: ccl_login_def Let_def)
    have u1: "cc_used (ls_dec s1) 16"
      using keys seed cc_used_crypt [OF cc_used_init [of "ossl_sha1 lib (cc_xor (ccl_seed rnd))"], of False "ccl_seed rnd"]
      by (auto simp: ccl_keys_def Let_def split: option.splits)
    from l send True keys obtain e s2 io2 where r1: "ccl_recv_crypt 20 s1 io1 = Some (e, s2, io2)"
      by (cases "ccl_recv_crypt 20 s1 io1") (auto simp: ccl_login_def Let_def)
    note u2 = ccl_recv_crypt_used [OF r1 u1]
    show ?thesis
    proof (cases "e = Some hash")
      case False
      with l send True keys r1 u2 tx1 seed show ?thesis by (cases e) (auto simp: ccl_login_def Let_def)
    next
      case echo: True
      with l send True keys r1 obtain n s3 io3 where r2: "ccl_recv_crypt 20 s2 io2 = Some (n, s3, io3)"
        by (cases "ccl_recv_crypt 20 s2 io2") (auto simp: ccl_login_def Let_def)
      have "cc_used (ls_dec s2) 36" using u2 echo by simp
      note u3 = ccl_recv_crypt_used [OF r2 this]
      show ?thesis
      proof (cases n)
        case None
        with l send True keys r1 echo r2 u2 u3 tx1 seed show ?thesis by (auto simp: ccl_login_def Let_def)
      next
        case (Some name)
        let ?s3 = "s3\<lparr>ls_username := c_strncpy 64 (c_string name)\<rparr>"
        from l send True keys r1 echo r2 Some obtain pr s4 io4 where p: "ccl_password um ?s3 io3 = Some (pr, s4, io4)"
          by (cases "ccl_password um ?s3 io3") (auto simp: ccl_login_def Let_def)
        have "cc_used (ls_dec ?s3) 56" using u3 Some by simp
        note u4 = ccl_password_used [OF p this]
        then have "pr \<noteq> 0" using cc_used_bound by fastforce
        with l send True keys r1 echo r2 Some p u2 u3 u4 tx1 seed show ?thesis by (auto simp: ccl_login_def Let_def)
      qed
    qed
  qed
qed

text \<open>
  C28: No client of the classic protocol is ever served. The receiving cipher of a login processes 68 bytes and the
  password, so every session ends before the login reply: with -1, or outside the table. No control word, no
  login reply and no change of the server; at most the seed and the challenge are written.
\<close>

theorem legacy_never_serves:
  assumes "14 \<le> length rnd" and "cclegacy_serve lib rnd now a steps w io = Some (rc, s, w', io')"
  shows "rc = -1 \<and> w' = w \<and> length (io_tx io') \<le> length (io_tx io) + 22"
proof -
  obtain rc1 s1 io1 where l: "ccl_login lib rnd (sv_users w) legacy_session_zero io = Some (rc1, s1, io1)"
    using assms(2) by (cases "ccl_login lib rnd (sv_users w) legacy_session_zero io") (auto simp: cclegacy_serve_def)
  from login_used [OF this assms(1)] assms(2) l show ?thesis by (auto simp: cclegacy_serve_def)
qed

theorem legacy_never_serves_witness:
  "\<exists>s w' io'. cclegacy_serve toy_ossl (replicate 14 3) 5 7 [] demo_client_server
      \<lparr>io_connect = None, io_rx = [], io_sends = [False], io_tx = []\<rparr> = Some (-1, s, w', io') \<and> w' = demo_client_server"
proof -
  let ?io = "\<lparr>io_connect = None, io_rx = [], io_sends = [False], io_tx = []\<rparr>"
  obtain rc s w' io' where "cclegacy_serve toy_ossl (replicate 14 3) 5 7 [] demo_client_server ?io = Some (rc, s, w', io')"
    by (simp add: cclegacy_serve_def ccl_login_def ccl_send_all_def Let_def)
  with legacy_never_serves [OF _ this] show ?thesis by simp
qed

end
