(* ===== verification/Idea.thy ===== *)
theory Idea
  imports Prelude
begin

text \<open>
  The block cipher IDEA of the key emulator (\<open>src/CCshare/cccam3_emu_idea.c\<close>): key schedules, one block,
  and CBC with a short last block. An \<open>unsigned long\<close> has 64 bits, \<open>IDEA_INT\<close> 32; the code keeps 16-bit values
  in them and lets carries run into the upper bits. Shown here: the multiplication of the macro
  \<open>idea_mul\<close> is multiplication modulo the prime 65537 with 0 standing for 65536, the extended Euclid of
  \<open>inverse\<close> computes its inverse, the registers refine a cipher on 16-bit words, and decryption
  undoes encryption for every key, in CBC for messages of every length.
\<close>

subsection \<open>Multiplication and inverse\<close>

type_synonym idea_int = u32
type_synonym ulong = u64

definition idea_mul :: "ulong \<Rightarrow> idea_int \<Rightarrow> ulong" where
  "idea_mul a b =
     (let ul = a * ucast b in
      if ul \<noteq> 0 then
        let r = (ul AND 0xFFFF) - drop_bit 16 ul in r - drop_bit 16 r
      else ucast (- (ucast a :: u32) - b + 1))"

text \<open>The reference: multiplication modulo 65537, where the word 0 stands for 65536.\<close>

definition mul_value :: "u16 \<Rightarrow> nat" where
  "mul_value x = (if x = 0 then 65536 else unat x)"

definition mul16 :: "u16 \<Rightarrow> u16 \<Rightarrow> u16" where
  "mul16 x y = word_of_nat ((mul_value x * mul_value y) mod 65537)"

abbreviation lo16 :: "ulong \<Rightarrow> u16" where "lo16 \<equiv> ucast"

lemma take_bit_wider:
  fixes a b :: int
  assumes "m \<le> n"
  shows "take_bit m (take_bit n a + take_bit n b) = take_bit m (a + b)"
    and "take_bit m (take_bit n a - take_bit n b) = take_bit m (a - b)"
  using assms take_bit_add [of m "take_bit n a" "take_bit n b"] take_bit_add [of m a b]
    take_bit_diff [of m "take_bit n a" "take_bit n b"] take_bit_diff [of m a b]
  by (simp_all add: min_def)

lemma lo_add: "lo16 (a + b) = lo16 a + lo16 b"
  by transfer (simp add: take_bit_add take_bit_wider)

lemma lo_diff: "lo16 (a - b) = lo16 a - lo16 b"
  by transfer (simp add: take_bit_diff take_bit_wider)

lemma lo_xor: "lo16 (a XOR b) = lo16 a XOR lo16 b"
  by transfer (simp add: take_bit_xor)

lemma mask16: "(0xFFFF :: ulong) = mask 16"
  by (simp add: mask_eq_exp_minus_1)

lemma lo_mask: "lo16 (a AND 0xFFFF) = lo16 a"
  unfolding mask16 by (rule bit_word_eqI) (simp add: bit_simps)

lemma lo_key: "lo16 (ucast (k :: u32)) = ucast k"
  by (rule bit_word_eqI) (simp add: bit_simps)

lemma unat_lo: "unat (lo16 a) = unat a mod 65536"
  by (simp add: unsigned_ucast_eq take_bit_eq_mod)

lemma unat_mask16: "unat (a AND 0xFFFF :: ulong) = unat a mod 65536"
proof -
  have "unat (take_bit 16 a) = take_bit 16 (unat a)" by (rule unsigned_take_bit_eq)
  then show ?thesis unfolding mask16 take_bit_eq_mask [symmetric] by (simp only: take_bit_eq_mod) simp
qed

lemma mul_zero_value:
  assumes "y \<le> 65536" "0 < y"
  shows "(65536 * y) mod 65537 = 65537 - (y :: nat)"
proof -
  have "65536 * y = 65537 * (y - 1) + (65537 - y)" using assms by linarith
  then show ?thesis using assms by (metis mod_mult_self2 mod_less add.commute diff_less zero_less_numeral)
qed

lemma split_mod_65537:
  assumes "p < 65536 * (65536 :: nat)"
  shows "p div 65536 \<le> p mod 65536 \<Longrightarrow> p mod 65537 = p mod 65536 - p div 65536"
    and "p mod 65536 < p div 65536 \<Longrightarrow> p mod 65537 = 65537 - (p div 65536 - p mod 65536)"
proof -
  let ?h = "p div 65536" and ?l = "p mod 65536"
  have p: "p = 65536 * ?h + ?l" by simp
  have h: "?h < 65536" using assms by (simp add: less_mult_imp_div_less)
  show "p mod 65537 = ?l - ?h" if "?h \<le> ?l"
  proof -
    have "p = 65537 * ?h + (?l - ?h)" using p that by linarith
    moreover have "?l - ?h < 65537" using mod_less_divisor [of 65536 p] by linarith
    ultimately show ?thesis by (metis mod_mult_self4 mod_less)
  qed
  show "p mod 65537 = 65537 - (?h - ?l)" if "?l < ?h"
  proof -
    have "p = 65537 * (?h - 1) + (65537 - (?h - ?l))" using p that h by linarith
    moreover have "65537 - (?h - ?l) < 65537" using that by linarith
    ultimately show ?thesis by (metis mod_mult_self4 mod_less)
  qed
qed

lemma unat_of_nat_less: "n < 2 ^ 64 \<Longrightarrow> unat (of_nat n :: ulong) = n"
  by (simp add: unsigned_of_nat take_bit_eq_mod)

lemma drop16: "drop_bit 16 (w :: ulong) = of_nat (unat w div 65536)"
proof -
  have "unat (drop_bit 16 w) = drop_bit 16 (take_bit 64 (unat w))"
    using unsigned_drop_bit_eq [of 16 w, where ?'a = nat] by simp
  also have "take_bit 64 (unat w) = unat w"
    using unsigned_less [where ?'a = nat and w = w] by (simp add: take_bit_eq_mod)
  also have "drop_bit 16 (unat w) = unat w div 65536" by (simp add: drop_bit_eq_div)
  finally have "unat (drop_bit 16 w) = unat w div 65536" .
  then show ?thesis by (metis of_nat_unat ucast_id)
qed

lemma mask16_nat: "(w :: ulong) AND 0xFFFF = of_nat (unat w mod 65536)"
  by (rule word_unat_eq_iff [THEN iffD2]) (simp add: unat_mask16 unsigned_of_nat take_bit_eq_mod)

lemma lo16_of_nat [simp]: "lo16 (of_nat n) = of_nat n"
  by (rule word_unat_eq_iff [THEN iffD2]) (simp add: unat_lo unsigned_of_nat take_bit_eq_mod mod_mod_cancel)

lemma lo_u32: "(ucast (x + y :: u32) :: u16) = ucast x + ucast y" "(ucast (x - y :: u32) :: u16) = ucast x - ucast y"
  by (transfer, simp add: take_bit_add take_bit_diff take_bit_wider)+

lemma lo_u32_minus: "(ucast (- x :: u32) :: u16) = - ucast x"
  using lo_u32(2) [of 0 x] by simp

lemma idea_mul_mul16:
  assumes "unat a < 65536" "unat b < 65536"
  shows "lo16 (idea_mul a b) = mul16 (lo16 a) (ucast b)"
proof -
  let ?p = "unat a * unat b"
  have bound: "?p < 65536 * 65536" using assms by (intro mult_strict_mono) auto
  have p: "unat (a * ucast b) = ?p"
    using bound assms by (simp add: unat_word_ariths unsigned_ucast_eq take_bit_eq_mod)
  have ua: "unat (lo16 a) = unat a" "unat (ucast b :: u16) = unat b"
    using assms by (simp_all add: unsigned_ucast_eq take_bit_eq_mod)
  then have z: "lo16 a = 0 \<longleftrightarrow> unat a = 0" "(ucast b :: u16) = 0 \<longleftrightarrow> unat b = 0"
    by (simp_all add: unat_eq_zero [symmetric])
  have w: "lo16 a = of_nat (unat a)" "(ucast b :: u16) = of_nat (unat b)"
    by (simp_all flip: ua)
  show ?thesis
  proof (cases "?p = 0")
    case True
    then have "a * ucast b = 0" using p by (metis unat_eq_zero)
    then have "lo16 (idea_mul a b) = lo16 (ucast (- (ucast a :: u32) - b + 1))" by (simp add: idea_mul_def)
    also have "\<dots> = ucast (- (ucast a :: u32) - b + 1)" by (rule lo_key)
    also have "\<dots> = 1 - (ucast (ucast a :: u32) :: u16) - ucast b" by (simp add: lo_u32 lo_u32_minus)
    also have "(ucast (ucast a :: u32) :: u16) = lo16 a" by (rule bit_word_eqI) (simp add: bit_simps)
    finally have *: "lo16 (idea_mul a b) = 1 - of_nat (unat a) - of_nat (unat b)" unfolding w .
    from True consider "unat a = 0" "unat b = 0" | "unat a = 0" "0 < unat b" | "unat b = 0" "0 < unat a" by auto
    then show ?thesis
    proof cases
      case 1
      then show ?thesis unfolding * mul16_def mul_value_def z by simp
    next
      case 2
      then have "mul_value (lo16 a) * mul_value (ucast b) mod 65537 = 65537 - unat b"
        using mul_zero_value [of "unat b"] assms by (simp add: mul_value_def z ua)
      then show ?thesis unfolding * mul16_def using 2 assms by (simp add: of_nat_diff)
    next
      case 3
      then have "mul_value (lo16 a) * mul_value (ucast b) mod 65537 = 65537 - unat a"
        using mul_zero_value [of "unat a"] assms by (simp add: mul_value_def z ua mult.commute)
      then show ?thesis unfolding * mul16_def using 3 assms by (simp add: of_nat_diff)
    qed
  next
    case False
    let ?l = "?p mod 65536" and ?h = "?p div 65536"
    let ?r = "(a * ucast b AND 0xFFFF) - drop_bit 16 (a * ucast b)"
    have m: "mul16 (lo16 a) (ucast b) = of_nat (?p mod 65537)"
      using False by (simp add: mul16_def mul_value_def z ua)
    have "a * ucast b \<noteq> 0" using False p by (metis unat_0)
    then have i: "idea_mul a b = ?r - drop_bit 16 ?r" by (simp only: idea_mul_def Let_def if_True not_False_eq_True)
    have parts: "a * ucast b AND 0xFFFF = of_nat ?l" "drop_bit 16 (a * ucast b) = of_nat ?h"
      by (simp_all only: drop16 mask16_nat p)
    have h: "?h < 65536" using bound by (simp add: less_mult_imp_div_less)
    have l: "?l < 65536" by simp
    show ?thesis
    proof (cases "?h \<le> ?l")
      case True
      then have r: "?r = of_nat (?l - ?h)" by (simp add: parts of_nat_diff)
      have "drop_bit 16 (of_nat (?l - ?h) :: ulong) = 0" unfolding drop16 using l by (simp add: unsigned_of_nat take_bit_eq_mod)
      then show ?thesis unfolding i m split_mod_65537(1) [OF bound True] r by simp
    next
      case False
      define k where "k = ?h - ?l"
      have k: "0 < k" "k < 65536" using False h by (auto simp: k_def)
      have "?r = - of_nat k" using False by (simp add: parts k_def of_nat_diff)
      also have "\<dots> = (of_nat (2 ^ 64 - k) :: ulong)" using k by (simp add: of_nat_diff)
      finally have r: "?r = of_nat (2 ^ 64 - k)" .
      have "drop_bit 16 (of_nat (2 ^ 64 - k) :: ulong) = of_nat (2 ^ 48 - 1)"
      proof -
        have "(2 ^ 64 - k) div 65536 = 2 ^ 48 - 1" using k by (intro div_nat_eqI) auto
        moreover have "unat (of_nat (2 ^ 64 - k) :: ulong) = 2 ^ 64 - k"
          by (rule unat_of_nat_less) (use k in simp)
        ultimately show ?thesis by (simp only: drop16)
      qed
      then have "lo16 (idea_mul a b) = of_nat (2 ^ 64 - k) - of_nat (2 ^ 48 - 1)"
        unfolding i r lo_diff by (simp only: lo16_of_nat)
      also have "\<dots> = (of_nat (65537 - k) :: u16)" using k by (simp add: of_nat_diff)
      also have "\<dots> = mul16 (lo16 a) (ucast b)"
        using False split_mod_65537(2) [OF bound] unfolding m k_def by simp
      finally show ?thesis .
    qed
  qed
qed

lemma small_divisors: "list_all (\<lambda>d. 65537 mod d \<noteq> (0 :: nat)) [2..<257]"
  by simp

lemma no_small_divisor: "1 < d \<Longrightarrow> d < 257 \<Longrightarrow> \<not> d dvd (65537 :: nat)"
proof -
  assume d: "1 < d" "d < 257"
  then have "d \<in> set [2..<257]" unfolding set_upt by auto
  with small_divisors have "65537 mod d \<noteq> 0" unfolding list_all_iff by (rule bspec)
  then show ?thesis unfolding dvd_eq_mod_eq_0 .
qed

lemma divisor_65537:
  assumes "d dvd (65537 :: nat)"
  shows "d = 1 \<or> d = 65537"
proof -
  from assms obtain e where e: "65537 = d * e" by (rule dvdE)
  have small: "x = 1" if "x dvd (65537 :: nat)" "x \<le> 256" for x
    using no_small_divisor [of x] that by (cases "x = 0"; cases "x = 1") auto
  have "d \<le> 256 \<or> e \<le> 256"
  proof (rule ccontr)
    assume "\<not> ?thesis"
    then have "257 * 257 \<le> d * e" by (intro mult_le_mono) auto
    with e show False by simp
  qed
  then show ?thesis using small [of d] small [of e] e by (metis dvd_triv_left dvd_triv_right mult.right_neutral)
qed

lemma coprime_65537: "0 < a \<Longrightarrow> a < 65537 \<Longrightarrow> coprime a (65537 :: nat)"
  using divisor_65537 [of "gcd a 65537"] gcd_le1_nat [of a 65537] unfolding coprime_iff_gcd_eq_1 by fastforce

lemma mul_value_range: "0 < mul_value x" "mul_value x < 65537"
  using unsigned_less [where ?'a = nat and w = x] by (auto simp: mul_value_def unat_gt_0)

lemma mul_value_of_nat: "0 < n \<Longrightarrow> n < 65537 \<Longrightarrow> mul_value (of_nat n) = n"
proof (cases "n = 65536")
  case False
  assume "0 < n" "n < 65537"
  with False have "unat (of_nat n :: u16) = n" by (simp add: unsigned_of_nat take_bit_eq_mod)
  with \<open>0 < n\<close> show ?thesis by (auto simp: mul_value_def)
qed (simp add: mul_value_def)

lemma of_nat_mul_value: "of_nat (mul_value x) = x"
  by (simp add: mul_value_def)

lemma mul_value_mul16: "mul_value (mul16 x y) = (mul_value x * mul_value y) mod 65537"
proof -
  have "\<not> 65537 dvd mul_value x * mul_value y"
  proof
    assume "65537 dvd mul_value x * mul_value y"
    moreover have "coprime 65537 (mul_value x)"
      using coprime_65537 [OF mul_value_range] by (simp add: coprime_commute)
    ultimately have "65537 dvd mul_value y" by (simp only: coprime_dvd_mult_right_iff)
    with mul_value_range [of y] show False using nat_dvd_not_less by blast
  qed
  then have "0 < (mul_value x * mul_value y) mod 65537" by (simp add: dvd_eq_mod_eq_0)
  then show ?thesis unfolding mul16_def by (simp add: mul_value_of_nat)
qed

lemma mul_value_1: "mul_value 1 = 1"
  by (simp add: mul_value_def)

lemma mul16_cancel:
  assumes "mul16 k k' = 1"
  shows "mul16 (mul16 x k) k' = x"
proof -
  have k: "(mul_value k * mul_value k') mod 65537 = 1"
    using assms mul_value_mul16 [of k k'] mul_value_1 by metis
  have "(mul_value x * mul_value k) mod 65537 * mul_value k' mod 65537
    = mul_value x * ((mul_value k * mul_value k') mod 65537) mod 65537"
    by (simp only: mod_mult_left_eq mod_mult_right_eq mult.assoc)
  also have "\<dots> = mul_value x"
    unfolding k using mul_value_range(2) [of x] by simp
  finally have "(mul_value x * mul_value k) mod 65537 * mul_value k' mod 65537 = mul_value x" .
  then show ?thesis
    unfolding mul16_def [of "mul16 x k"] mul_value_mul16 by (simp add: of_nat_mul_value)
qed


text \<open>
  The \<open>do ... while (r != 0)\<close> loop; \<open>n2\<close> is positive on every pass (0x10001 and \<open>xin\<close> first, then a remainder that is
  not 0), so the test \<open>n2 \<le> 0\<close> is only there to make the function total.
\<close>

function idea_inverse_loop :: "int \<Rightarrow> int \<Rightarrow> int \<Rightarrow> int \<Rightarrow> int" where
  "idea_inverse_loop n1 n2 b1 b2 =
     (let r = n1 mod n2; q = (n1 - r) div n2 in
      if n2 \<le> 0 \<or> r = 0 then (if b2 < 0 then 0x10001 + b2 else b2)
      else idea_inverse_loop n2 r b2 (b1 - q * b2))"
  by pat_completeness auto
termination
  by (relation "measure (\<lambda>(n1, n2, b1, b2). nat n2)") auto

declare idea_inverse_loop.simps [simp del]

definition cccam_emu_idea_inverse :: "u32 \<Rightarrow> idea_int" where
  "cccam_emu_idea_inverse xin = (if xin = 0 then 0 else word_of_int (idea_inverse_loop 0x10001 (uint xin) 0 1))"

lemma inverse_loop:
  fixes x :: int
  assumes "0 < n2" "n2 < n1" "gcd n1 n2 = 1"
    and "(b1 * x - n1) mod 65537 = 0" "(b2 * x - n2) mod 65537 = 0"
    and "\<bar>b2\<bar> * n1 + \<bar>b1\<bar> * n2 = 65537" "b1 * b2 \<le> 0" "b2 \<noteq> 0"
  shows "0 < idea_inverse_loop n1 n2 b1 b2 \<and> idea_inverse_loop n1 n2 b1 b2 < 65537
    \<and> (idea_inverse_loop n1 n2 b1 b2 * x) mod 65537 = 1"
  using assms
proof (induction n1 n2 b1 b2 rule: idea_inverse_loop.induct)
  case (1 n1 n2 b1 b2)
  let ?r = "n1 mod n2" and ?q = "n1 div n2"
  have q: "(n1 - ?r) div n2 = ?q" by (simp add: minus_mod_eq_mult_div)
  show ?case
  proof (cases "?r = 0")
    case True
    with 1(4) have "gcd n2 0 = 1" by (metis gcd_red_int)
    with 1(2) have n2: "n2 = 1" by simp
    have res: "idea_inverse_loop n1 n2 b1 b2 = (if b2 < 0 then 0x10001 + b2 else b2)"
      by (subst idea_inverse_loop.simps) (simp add: True)
    have "2 * \<bar>b2\<bar> \<le> \<bar>b2\<bar> * n1" using 1(3) n2 mult_right_mono [of 2 n1 "\<bar>b2\<bar>"] by (simp add: mult.commute)
    also have "\<dots> \<le> 65537" using 1(7) 1(2) by (smt (verit) mult_nonneg_nonneg)
    finally have range: "\<bar>b2\<bar> < 65537" by simp
    have "(b2 * x) mod 65537 = 1 mod 65537"
      unfolding mod_eq_dvd_iff using 1(6) n2 by (simp only: dvd_eq_mod_eq_0)
    moreover have "((0x10001 + b2) * x) mod 65537 = (b2 * x) mod 65537"
      by (simp add: distrib_right)
    ultimately show ?thesis unfolding res using range 1(9) by auto
  next
    case False
    then have r: "0 < ?r" "?r < n2" using 1(2) pos_mod_sign [of n2 n1] pos_mod_bound [of n2 n1] by linarith+
    have n1: "n1 = ?q * n2 + ?r" by simp
    have q0: "1 \<le> ?q" using 1(2,3) by (simp add: int_one_le_iff_zero_less pos_imp_zdiv_pos_iff)
    have step: "idea_inverse_loop n1 n2 b1 b2 = idea_inverse_loop n2 ?r b2 (b1 - ?q * b2)"
      using 1(2) False by (subst idea_inverse_loop.simps) (simp add: Let_def q)
    have abs: "\<bar>b1 - ?q * b2\<bar> = \<bar>b1\<bar> + ?q * \<bar>b2\<bar>"
    proof -
      from 1(8) consider "0 \<le> b1" "b2 \<le> 0" | "b1 \<le> 0" "0 \<le> b2" by (auto simp: mult_le_0_iff)
      then show ?thesis
      proof cases
        case 1
        moreover from 1 q0 have "?q * b2 \<le> 0" by (intro mult_nonneg_nonpos) auto
        ultimately show ?thesis by simp
      next
        case 2
        moreover from 2 q0 have "0 \<le> ?q * b2" by (intro mult_nonneg_nonneg) auto
        ultimately show ?thesis by simp
      qed
    qed
    show ?thesis unfolding step
    proof (rule "1.IH")
      show "?r = n1 mod n2" "?q = (n1 - ?r) div n2" using q by simp_all
      show "\<not> (n2 \<le> 0 \<or> ?r = 0)" using 1(2) False by simp
      show "0 < ?r" "?r < n2" by (fact r)+
      show "gcd n2 ?r = 1" using 1(4) by (metis gcd_red_int)
      show "(b2 * x - n2) mod 65537 = 0" by (fact 1(6))
      have "(b1 - ?q * b2) * x - ?r = (b1 * x - n1) - ?q * (b2 * x - n2)"
        using n1 by (simp add: algebra_simps)
      then show "((b1 - ?q * b2) * x - ?r) mod 65537 = 0"
        using 1(5,6) by (simp add: dvd_eq_mod_eq_0 [symmetric])
      show "\<bar>b1 - ?q * b2\<bar> * n2 + \<bar>b2\<bar> * ?r = 65537"
      proof -
        have "(\<bar>b1\<bar> + ?q * \<bar>b2\<bar>) * n2 + \<bar>b2\<bar> * ?r = \<bar>b2\<bar> * (?q * n2 + ?r) + \<bar>b1\<bar> * n2"
          by (simp only: algebra_simps)
        then show ?thesis unfolding abs using 1(7) n1 by simp
      qed
      show "b2 * (b1 - ?q * b2) \<le> 0"
      proof -
        have "b2 * (b1 - ?q * b2) = b1 * b2 - ?q * (b2 * b2)" by (simp add: algebra_simps)
        moreover have "0 \<le> ?q * (b2 * b2)" using q0 by simp
        ultimately show ?thesis using 1(8) by linarith
      qed
      show "b1 - ?q * b2 \<noteq> 0"
      proof -
        have "0 < ?q * \<bar>b2\<bar>" using q0 1(9) by simp
        then have "0 < \<bar>b1 - ?q * b2\<bar>" unfolding abs by linarith
        then show ?thesis by simp
      qed
    qed
  qed
qed

lemma mul_value_ucast: "0 < unat x \<Longrightarrow> unat x < 65536 \<Longrightarrow> mul_value (ucast (x :: u32)) = unat x"
proof -
  assume x: "0 < unat x" "unat x < 65536"
  then have "unat (ucast x :: u16) = unat x" by (simp add: unsigned_ucast_eq take_bit_eq_mod)
  with x show ?thesis by (auto simp: mul_value_def)
qed

lemma inverse_correct:
  assumes "unat x < 65536"
  shows "mul16 (ucast x) (ucast (cccam_emu_idea_inverse x)) = 1 \<and> unat (cccam_emu_idea_inverse x) < 65536"
proof (cases "x = 0")
  case True
  then show ?thesis by (simp add: cccam_emu_idea_inverse_def mul16_def mul_value_def)
next
  case False
  then have x0: "0 < unat x" by (simp add: unat_gt_0)
  have u: "uint x = int (unat x)" by simp
  let ?L = "idea_inverse_loop 65537 (uint x) 0 1"
  have "gcd (int 65537) (uint x) = 1"
    using coprime_65537 [of "unat x"] x0 assms unfolding u gcd_int_int_eq coprime_iff_gcd_eq_1 by (simp add: gcd.commute)
  then have g: "gcd 65537 (uint x) = 1" by (simp only: of_nat_numeral)
  have x1: "0 < uint x" "uint x < 65537" using x0 assms unfolding u by linarith+
  have "0 < ?L \<and> ?L < 65537 \<and> (?L * uint x) mod 65537 = 1"
    by (rule inverse_loop) (use x1 g in simp_all)
  then have L: "0 < ?L" "?L < 65537" "(?L * uint x) mod 65537 = 1" by blast+
  define n where "n = nat ?L"
  have n: "0 < n" "n < 65537" "?L = int n" using L by (auto simp: n_def)
  have nx: "(n * unat x) mod 65537 = 1"
  proof -
    have "int (n * unat x mod 65537) = int n * int (unat x) mod 65537"
      by (simp only: of_nat_mod of_nat_mult of_nat_numeral)
    with L(3) show ?thesis unfolding n(3) unfolding u by (simp only: of_nat_eq_1_iff)
  qed
  have "n \<noteq> 65536"
    using nx mul_zero_value [of "unat x"] x0 assms by auto
  then have n': "n < 65536" using n by simp
  have inv: "cccam_emu_idea_inverse x = of_nat n"
    using False n(3) by (simp add: cccam_emu_idea_inverse_def)
  have un: "unat (of_nat n :: u32) = n" using n' by (simp add: unsigned_of_nat take_bit_eq_mod)
  have v: "mul_value (ucast (of_nat n :: u32)) = n" "mul_value (ucast x) = unat x"
    using un n' n(1) x0 assms mul_value_ucast by metis+
  show ?thesis unfolding inv mul16_def v using nx un n' by (simp add: mult.commute)
qed

subsection \<open>Key schedules and one block\<close>

type_synonym idea_regs = "ulong \<times> ulong \<times> ulong \<times> ulong"

definition idea_next_keys :: "idea_int list \<Rightarrow> idea_int list" where
  "idea_next_keys kf =
     map (\<lambda>(a, b). (push_bit 9 (kf ! a) OR drop_bit 7 (kf ! b)) AND 0xFFFF)
       [(1, 2), (2, 3), (3, 4), (4, 5), (5, 6), (6, 7), (7, 0), (0, 1)]"

fun idea_expand :: "nat \<Rightarrow> idea_int list \<Rightarrow> idea_int list" where
  "idea_expand 0 kf = []"
| "idea_expand (Suc n) kf =
     (let kt = idea_next_keys kf in if n = 0 then take 6 kt else kt @ idea_expand n kt)"

definition cccam_emu_idea_set_encrypt_key :: "u8 list \<Rightarrow> idea_int list" where
  "cccam_emu_idea_set_encrypt_key key =
     (let kt = map (\<lambda>i. push_bit 8 (ucast (key ! (2 * i))) OR ucast (key ! (2 * i + 1))) [0..<8] in
      kt @ idea_expand 6 kt)"

definition idea_decrypt_quad :: "idea_int list \<Rightarrow> nat \<Rightarrow> idea_int list" where
  "idea_decrypt_quad ek j =
     [cccam_emu_idea_inverse (ek ! j), (0x10000 - ek ! (j + 2)) AND 0xFFFF, (0x10000 - ek ! (j + 1)) AND 0xFFFF,
      cccam_emu_idea_inverse (ek ! (j + 3))]"

fun idea_decrypt_words :: "idea_int list \<Rightarrow> nat \<Rightarrow> idea_int list" where
  "idea_decrypt_words ek 0 = idea_decrypt_quad ek 0"
| "idea_decrypt_words ek (Suc n) =
     idea_decrypt_quad ek (6 * Suc n) @ [ek ! (6 * n + 4), ek ! (6 * n + 5)] @ idea_decrypt_words ek n"

definition cccam_emu_idea_set_decrypt_key :: "idea_int list \<Rightarrow> idea_int list \<Rightarrow> idea_int list" where
  "cccam_emu_idea_set_decrypt_key ek dk =
     (let tp = idea_decrypt_words ek 8 @ drop 52 dk;
          tp1 = tp[1 := tp ! 2, 2 := tp ! 1] in
      tp1[49 := tp1 ! 50, 50 := tp1 ! 49])"

text \<open>The macro \<open>E_IDEA\<close>: one round on the four registers with six key words.\<close>

definition e_idea :: "idea_int list \<Rightarrow> idea_regs \<Rightarrow> idea_regs" where
  "e_idea p = (\<lambda>(x1, x2, x3, x4).
     let x1 = idea_mul (x1 AND 0xFFFF) (p ! 0);
         x2 = x2 + ucast (p ! 1);
         x3 = x3 + ucast (p ! 2);
         x4 = idea_mul (x4 AND 0xFFFF) (p ! 3);
         t0 = idea_mul ((x1 XOR x3) AND 0xFFFF) (p ! 4);
         t1 = idea_mul ((t0 + (x2 XOR x4)) AND 0xFFFF) (p ! 5);
         t0 = t0 + t1;
         x1 = x1 XOR t1;
         x4 = x4 XOR t0;
         ul = x2 XOR t0;
         x2 = x3 XOR t1 in
     (x1, x2, ul, x4))"

fun idea_rounds :: "nat \<Rightarrow> idea_int list \<Rightarrow> idea_regs \<Rightarrow> idea_regs" where
  "idea_rounds 0 p x = x"
| "idea_rounds (Suc n) p x = idea_rounds n (drop 6 p) (e_idea p x)"

definition cccam_emu_idea_encrypt :: "idea_int list \<Rightarrow> ulong \<times> ulong \<Rightarrow> ulong \<times> ulong" where
  "cccam_emu_idea_encrypt key = (\<lambda>(d0, d1).
     case idea_rounds 8 key (drop_bit 16 d0, d0, drop_bit 16 d1, d1) of (x1, x2, x3, x4) \<Rightarrow>
       let p = drop 48 key;
           x1 = idea_mul (x1 AND 0xFFFF) (p ! 0);
           t0 = x3 + ucast (p ! 1);
           t1 = x2 + ucast (p ! 2);
           x4 = idea_mul (x4 AND 0xFFFF) (p ! 3) in
       ((t0 AND 0xFFFF) OR push_bit 16 (x1 AND 0xFFFF), (x4 AND 0xFFFF) OR push_bit 16 (t1 AND 0xFFFF)))"

subsection \<open>Reference cipher on 16-bit words\<close>

type_synonym idea_block = "u16 \<times> u16 \<times> u16 \<times> u16"

fun mix_keys :: "idea_block \<Rightarrow> idea_block \<Rightarrow> idea_block" where
  "mix_keys (k1, k2, k3, k4) (x1, x2, x3, x4) = (mul16 x1 k1, x2 + k2, x3 + k3, mul16 x4 k4)"

fun mix_words :: "u16 \<times> u16 \<Rightarrow> idea_block \<Rightarrow> idea_block" where
  "mix_words (k5, k6) (x1, x2, x3, x4) =
     (let s = mul16 (x1 XOR x3) k5; t = mul16 (s + (x2 XOR x4)) k6 in
      (x1 XOR t, x2 XOR (s + t), x3 XOR t, x4 XOR (s + t)))"

fun swap_inner :: "idea_block \<Rightarrow> idea_block" where
  "swap_inner (x1, x2, x3, x4) = (x1, x3, x2, x4)"

definition key_quad :: "u16 list \<Rightarrow> nat \<Rightarrow> idea_block" where
  "key_quad k j = (k ! j, k ! (j + 1), k ! (j + 2), k ! (j + 3))"

definition key_pair :: "u16 list \<Rightarrow> nat \<Rightarrow> u16 \<times> u16" where
  "key_pair k j = (k ! (j + 4), k ! (j + 5))"

definition idea_reference_round :: "u16 list \<Rightarrow> nat \<Rightarrow> idea_block \<Rightarrow> idea_block" where
  "idea_reference_round k j x = swap_inner (mix_words (key_pair k j) (mix_keys (key_quad k j) x))"

definition idea_reference :: "u16 list \<Rightarrow> idea_block \<Rightarrow> idea_block" where
  "idea_reference k x =
     mix_keys (key_quad k 48) (swap_inner (fold (\<lambda>i. idea_reference_round k (6 * i)) [0..<8] x))"

fun lo_regs :: "idea_regs \<Rightarrow> idea_block" where
  "lo_regs (x1, x2, x3, x4) = (lo16 x1, lo16 x2, lo16 x3, lo16 x4)"

definition low_keys :: "idea_int list \<Rightarrow> u16 list" where
  "low_keys = map ucast"

definition good_keys :: "idea_int list \<Rightarrow> bool" where
  "good_keys k \<longleftrightarrow> 52 \<le> length k \<and> (\<forall>i < 52. unat (k ! i) < 65536)"

lemma swap_swap: "swap_inner (swap_inner x) = x"
  by (cases x) simp

lemma mix_words_twice: "mix_words m (mix_words m x) = x"
proof (cases m, cases x)
  fix k5 k6 x1 x2 x3 x4 assume m: "m = (k5, k6)" and x: "x = (x1, x2, x3, x4)"
  have "\<And>a b t :: u16. (a XOR t) XOR (b XOR t) = a XOR b" "\<And>a t :: u16. (a XOR t) XOR t = a"
    by (rule bit_word_eqI, auto simp: bit_simps)+
  then show ?thesis unfolding m x by (simp add: Let_def)
qed

lemma mix_keys_swap: "mix_keys (swap_inner k) (swap_inner x) = swap_inner (mix_keys k x)"
  by (cases k, cases x) simp


lemma lo_mul: "unat b < 65536 \<Longrightarrow> lo16 (idea_mul (a AND 0xFFFF) b) = mul16 (lo16 a) (ucast b)"
  by (simp add: idea_mul_mul16 unat_mask16 lo_mask)

lemma e_idea_reference:
  assumes "good_keys k" "j + 5 < 52"
  shows "lo_regs (e_idea (drop j k) x) = idea_reference_round (low_keys k) j (lo_regs x)"
proof -
  have small: "unat (k ! i) < 65536" if "i < 52" for i
    using assms(1) that by (simp add: good_keys_def)
  have nth: "drop j k ! i = k ! (j + i)" if "i < 6" for i
    using assms that by (simp add: good_keys_def)
  have low: "low_keys k ! i = ucast (k ! i)" if "i < 52" for i
    using assms(1) that by (simp add: low_keys_def good_keys_def)
  obtain x1 x2 x3 x4 where x: "x = (x1, x2, x3, x4)" by (cases x)
  show ?thesis
    using assms(2) unfolding x
    by (simp add: e_idea_def idea_reference_round_def key_quad_def key_pair_def Let_def nth low lo_mul small lo_add lo_xor lo_key add.commute)
qed

lemma idea_rounds_reference:
  assumes "good_keys k" "j + 6 * n \<le> 48"
  shows "lo_regs (idea_rounds n (drop j k) x) = fold (\<lambda>i. idea_reference_round (low_keys k) (j + 6 * i)) [0..<n] (lo_regs x)"
  using assms
proof (induction n arbitrary: j x)
  case (Suc n)
  have "[0..<Suc n] = 0 # map Suc [0..<n]" by (simp only: upt_conv_Cons map_Suc_upt zero_less_Suc)
  then show ?case
    using Suc.IH [of "j + 6" "e_idea (drop j k) x"] Suc.prems
    by (simp add: e_idea_reference fold_map comp_def ac_simps del: upt_Suc)
qed simp

definition block_of :: "ulong \<times> ulong \<Rightarrow> idea_block" where
  "block_of = (\<lambda>(d0, d1). (lo16 (drop_bit 16 d0), lo16 d0, lo16 (drop_bit 16 d1), lo16 d1))"

definition words_of :: "idea_block \<Rightarrow> ulong \<times> ulong" where
  "words_of = (\<lambda>(x1, x2, x3, x4). (ucast x2 OR push_bit 16 (ucast x1), ucast x4 OR push_bit 16 (ucast x3)))"

lemma join16: "(a AND 0xFFFF) OR push_bit 16 (b AND 0xFFFF) = (ucast (lo16 a) OR push_bit 16 (ucast (lo16 b)) :: ulong)"
  unfolding mask16 by (rule bit_word_eqI) (auto simp: bit_simps)

lemma idea_encrypt_reference:
  assumes "good_keys k"
  shows "cccam_emu_idea_encrypt k d = words_of (idea_reference (low_keys k) (block_of d))"
proof -
  have small: "unat (k ! i) < 65536" if "i < 52" for i
    using assms that by (simp add: good_keys_def)
  have nth: "drop 48 k ! i = k ! (48 + i)" if "i < 4" for i
    using assms that by (simp add: good_keys_def)
  have low: "low_keys k ! i = ucast (k ! i)" if "i < 52" for i
    using assms(1) that by (simp add: low_keys_def good_keys_def)
  obtain d0 d1 where d: "d = (d0, d1)" by (cases d)
  obtain x1 x2 x3 x4 where x: "idea_rounds 8 k (drop_bit 16 d0, d0, drop_bit 16 d1, d1) = (x1, x2, x3, x4)"
    by (cases "idea_rounds 8 k (drop_bit 16 d0, d0, drop_bit 16 d1, d1)")
  have "fold (\<lambda>i. idea_reference_round (low_keys k) (6 * i)) [0..<8] (block_of d) = (lo16 x1, lo16 x2, lo16 x3, lo16 x4)"
    using idea_rounds_reference [OF assms, of 0 8 "(drop_bit 16 d0, d0, drop_bit 16 d1, d1)"]
    by (simp add: x d block_of_def del: upt_Suc)
  then show ?thesis unfolding idea_reference_def
    unfolding cccam_emu_idea_encrypt_def d prod.case x Let_def join16
    by (simp add: words_of_def lo_add lo_mul lo_key small nth low key_quad_def)
qed

definition inverse_quad :: "idea_block \<Rightarrow> idea_block \<Rightarrow> bool" where
  "inverse_quad q q' = (case q of (k1, k2, k3, k4) \<Rightarrow> case q' of (l1, l2, l3, l4) \<Rightarrow>
     mul16 k1 l1 = 1 \<and> l2 = - k2 \<and> l3 = - k3 \<and> mul16 k4 l4 = 1)"

lemma mix_keys_inverse: "inverse_quad q q' \<Longrightarrow> mix_keys q' (mix_keys q x) = x"
  by (cases q, cases q', cases x) (auto simp: inverse_quad_def mul16_cancel)

lemma undo_round:
  assumes "inverse_quad q q'"
  shows "mix_keys (swap_inner q') (swap_inner (mix_words m (mix_words m (mix_keys q x)))) = swap_inner x"
  by (simp add: mix_words_twice mix_keys_swap mix_keys_inverse [OF assms])

lemma reference_inverse:
  assumes first: "inverse_quad (key_quad k 48) (key_quad l 0)"
    and last: "inverse_quad (key_quad k 0) (key_quad l 48)"
    and inner: "\<And>i. 0 < i \<Longrightarrow> i < 8 \<Longrightarrow> inverse_quad (key_quad k (48 - 6 * i)) (swap_inner (key_quad l (6 * i)))"
    and pairs: "\<And>i. i < 8 \<Longrightarrow> key_pair l (6 * i) = key_pair k (42 - 6 * i)"
  shows "idea_reference l (idea_reference k x) = x"
proof -
  define run where "run n = fold (\<lambda>i. idea_reference_round k (6 * i)) [0..<n] x" for n
  have run: "run (Suc n) = idea_reference_round k (6 * n) (run n)" for n by (simp add: run_def)
  define undone where "undone n = fold (\<lambda>i. idea_reference_round l (6 * i)) [0..<n] (idea_reference k x)" for n
  have undone: "undone (Suc n) = idea_reference_round l (6 * n) (undone n)" for n by (simp add: undone_def)
  have step: "mix_keys (key_quad l (6 * n)) (undone n) = swap_inner (run (8 - n))" if "n < 8" for n
    using that
  proof (induction n)
    case 0
    then show ?case using mix_keys_inverse [OF first]
      by (simp add: undone_def run_def idea_reference_def del: upt_Suc)
  next
    case (Suc n)
    have q: "inverse_quad (key_quad k (6 * (7 - n))) (swap_inner (key_quad l (6 * Suc n)))"
      using inner [of "Suc n"] Suc.prems by (simp add: right_diff_distrib')
    have p: "key_pair l (6 * n) = key_pair k (6 * (7 - n))"
      using pairs [of n] Suc.prems by (simp add: right_diff_distrib')
    have e: "8 - n = Suc (7 - n)" "8 - Suc n = 7 - n" using Suc.prems by simp_all
    have "undone (Suc n) = swap_inner (mix_words (key_pair l (6 * n)) (swap_inner (run (8 - n))))"
      using Suc by (simp add: undone idea_reference_round_def)
    also have "\<dots> = swap_inner (mix_keys (key_quad k (6 * (7 - n))) (run (7 - n)))"
      unfolding e run idea_reference_round_def p by (simp add: swap_swap mix_words_twice)
    finally show ?case unfolding e using mix_keys_inverse [OF q]
      by (metis mix_keys_swap swap_swap)
  qed
  have p: "key_pair l (6 * 7) = key_pair k (6 * 0)" using pairs [of 7] by simp
  have "undone 8 = swap_inner (mix_words (key_pair l (6 * 7)) (swap_inner (run 1)))"
    using step [of 7] undone [of 7] by (simp add: idea_reference_round_def)
  also have "\<dots> = swap_inner (mix_keys (key_quad k 0) x)"
    using run [of 0] unfolding p idea_reference_round_def by (simp add: swap_swap mix_words_twice run_def)
  finally have "undone 8 = swap_inner (mix_keys (key_quad k 0) x)" .
  then show ?thesis using mix_keys_inverse [OF last]
    unfolding idea_reference_def [of l] undone_def [symmetric] by (simp add: swap_swap)
qed

lemma words8: "idea_decrypt_words ek 8 =
  idea_decrypt_quad ek 48 @ [ek ! 46, ek ! 47] @ idea_decrypt_quad ek 42 @ [ek ! 40, ek ! 41] @
  idea_decrypt_quad ek 36 @ [ek ! 34, ek ! 35] @ idea_decrypt_quad ek 30 @ [ek ! 28, ek ! 29] @
  idea_decrypt_quad ek 24 @ [ek ! 22, ek ! 23] @ idea_decrypt_quad ek 18 @ [ek ! 16, ek ! 17] @
  idea_decrypt_quad ek 12 @ [ek ! 10, ek ! 11] @ idea_decrypt_quad ek 6 @ [ek ! 4, ek ! 5] @ idea_decrypt_quad ek 0"
  by (simp add: eval_nat_numeral)

lemma decrypt_key_list: "cccam_emu_idea_set_decrypt_key ek dk =
  [cccam_emu_idea_inverse (ek ! 48), (0x10000 - ek ! 49) AND 0xFFFF, (0x10000 - ek ! 50) AND 0xFFFF, cccam_emu_idea_inverse (ek ! 51),
   ek ! 46, ek ! 47] @ 
  idea_decrypt_quad ek 42 @ [ek ! 40, ek ! 41] @
  idea_decrypt_quad ek 36 @ [ek ! 34, ek ! 35] @ idea_decrypt_quad ek 30 @ [ek ! 28, ek ! 29] @
  idea_decrypt_quad ek 24 @ [ek ! 22, ek ! 23] @ idea_decrypt_quad ek 18 @ [ek ! 16, ek ! 17] @
  idea_decrypt_quad ek 12 @ [ek ! 10, ek ! 11] @ idea_decrypt_quad ek 6 @ [ek ! 4, ek ! 5] @ 
  [cccam_emu_idea_inverse (ek ! 0), (0x10000 - ek ! 1) AND 0xFFFF, (0x10000 - ek ! 2) AND 0xFFFF, cccam_emu_idea_inverse (ek ! 3)] @ drop 52 dk"
  unfolding cccam_emu_idea_set_decrypt_key_def words8 by (simp add: idea_decrypt_quad_def numeral_2_eq_2)


lemma lo_negated: "(ucast ((0x10000 - w) AND 0xFFFF :: u32) :: u16) = - ucast w" "unat ((0x10000 - w) AND 0xFFFF :: u32) < 65536"
proof -
  have m: "(0xFFFF :: u32) = mask 16" by (simp add: mask_eq_exp_minus_1)
  have "(ucast (v AND 0xFFFF :: u32) :: u16) = ucast v" for v
    unfolding m by (rule bit_word_eqI) (simp add: bit_simps)
  then show "(ucast ((0x10000 - w) AND 0xFFFF :: u32) :: u16) = - ucast w" by (simp add: lo_u32)
  have "(0x10000 - w) AND 0xFFFF \<le> 0xFFFF" by (rule word_and_le1)
  then show "unat ((0x10000 - w) AND 0xFFFF :: u32) < 65536" unfolding word_le_nat_alt by simp
qed

lemma decrypt_key_entry:
  assumes "good_keys ek" "i < 52"
  shows "unat (cccam_emu_idea_set_decrypt_key ek dk ! i) < 65536"
proof -
  have "unat (ek ! j) < 65536" if "j < 52" for j using assms(1) that by (simp add: good_keys_def)
  then have "\<forall>w \<in> set (take 52 (cccam_emu_idea_set_decrypt_key ek dk)). unat w < 65536"
    unfolding decrypt_key_list idea_decrypt_quad_def by (simp add: lo_negated inverse_correct)
  moreover have "52 \<le> length (cccam_emu_idea_set_decrypt_key ek dk)"
    unfolding decrypt_key_list idea_decrypt_quad_def by simp
  ultimately show ?thesis using assms(2) by (metis in_set_conv_nth length_take min.absorb2 nth_take)
qed

lemma good_decrypt_key: "good_keys ek \<Longrightarrow> good_keys (cccam_emu_idea_set_decrypt_key ek dk)"
  unfolding good_keys_def [of "cccam_emu_idea_set_decrypt_key ek dk"]
  by (auto simp: decrypt_key_entry) (simp add: decrypt_key_list idea_decrypt_quad_def)

lemma decrypt_key_inverse:
  fixes dk :: "idea_int list"
  assumes "good_keys ek"
  defines "k \<equiv> low_keys ek" and "l \<equiv> low_keys (cccam_emu_idea_set_decrypt_key ek dk)"
  shows "inverse_quad (key_quad k 48) (key_quad l 0)" "inverse_quad (key_quad k 0) (key_quad l 48)"
    and "0 < i \<Longrightarrow> i < 8 \<Longrightarrow> inverse_quad (key_quad k (48 - 6 * i)) (swap_inner (key_quad l (6 * i)))"
    and "i < 8 \<Longrightarrow> key_pair l (6 * i) = key_pair k (42 - 6 * i)"
proof -
  have k: "k ! j = ucast (ek ! j)" if "j < 52" for j
    using assms that by (simp add: k_def low_keys_def good_keys_def)
  have inv: "mul16 (ucast (ek ! j)) (ucast (cccam_emu_idea_inverse (ek ! j))) = 1" if "j < 52" for j
    using assms(1) that by (simp add: good_keys_def inverse_correct)
  note l = l_def low_keys_def decrypt_key_list idea_decrypt_quad_def
  note s = k inv lo_negated key_quad_def inverse_quad_def key_pair_def
  show "inverse_quad (key_quad k 48) (key_quad l 0)"
    unfolding l by (simp add: s)
  show "inverse_quad (key_quad k 0) (key_quad l 48)"
    unfolding l by (simp add: s numeral_2_eq_2)
  show "inverse_quad (key_quad k (48 - 6 * i)) (swap_inner (key_quad l (6 * i)))" if "0 < i" "i < 8"
  proof -
    from that consider "i = 1" | "i = 2" | "i = 3" | "i = 4" | "i = 5" | "i = 6" | "i = 7" by linarith
    then show ?thesis unfolding l by cases (simp_all add: s)
  qed
  show "key_pair l (6 * i) = key_pair k (42 - 6 * i)" if "i < 8"
  proof -
    from that consider "i = 0" | "i = 1" | "i = 2" | "i = 3" | "i = 4" | "i = 5" | "i = 6" | "i = 7" by linarith
    then show ?thesis unfolding l by cases (simp_all add: s)
  qed
qed

lemma no_bit_16: "\<not> bit (w :: u16) (16 + n)"
  using bit_imp_le_length [of w "16 + n"] by auto

lemma words_block: "block_of (words_of b) = b"
  by (cases b) (auto simp: block_of_def words_of_def intro!: bit_word_eqI simp: bit_simps no_bit_16)

lemma block_words:
  assumes "drop_bit 32 d0 = 0" "drop_bit 32 d1 = 0"
  shows "words_of (block_of (d0, d1)) = (d0, d1)"
proof -
  have high: "n < 32" if "bit d0 n \<or> bit d1 n" for n
    using arg_cong [OF assms(1), of "\<lambda>w. bit w (n - 32)"] arg_cong [OF assms(2), of "\<lambda>w. bit w (n - 32)"] that
    by (cases "32 \<le> n") (auto simp: bit_simps)
  have "ucast (lo16 d) OR push_bit 16 (ucast (lo16 (drop_bit 16 d))) = d" if "\<And>n. bit d n \<Longrightarrow> n < 32" for d :: ulong
  proof (rule bit_word_eqI)
    fix n assume "n < LENGTH(64)"
    then show "bit (ucast (lo16 d) OR push_bit 16 (ucast (lo16 (drop_bit 16 d))) :: ulong) n = bit d n"
      using that [of n] by (auto simp: bit_simps)
  qed
  then show ?thesis using high by (simp add: block_of_def words_of_def)
qed

theorem idea_decrypts:
  assumes "good_keys ek" "drop_bit 32 d0 = 0" "drop_bit 32 d1 = 0"
  shows "cccam_emu_idea_encrypt (cccam_emu_idea_set_decrypt_key ek dk) (cccam_emu_idea_encrypt ek (d0, d1)) = (d0, d1)"
  using assms by (simp add: idea_encrypt_reference good_decrypt_key words_block block_words
      reference_inverse [OF decrypt_key_inverse])

lemma small_and: "unat (w AND 0xFFFF :: u32) < 65536"
proof -
  have "w AND 0xFFFF \<le> 0xFFFF" by (rule word_and_le1)
  then show ?thesis unfolding word_le_nat_alt by simp
qed

lemma small_pair: "unat (push_bit 8 (ucast (a :: u8)) OR ucast (b :: u8) :: u32) < 65536"
proof -
  have "push_bit 8 (ucast a) OR ucast b = (push_bit 8 (ucast a) OR ucast b) AND (mask 16 :: u32)"
    by (rule bit_word_eqI) (auto simp: bit_simps dest: bit_imp_le_length)
  also have "(mask 16 :: u32) = 0xFFFF" by (simp add: mask_eq_exp_minus_1)
  finally show ?thesis using small_and by metis
qed

lemma next_keys: "length (idea_next_keys kf) = 8" "w \<in> set (idea_next_keys kf) \<Longrightarrow> unat w < 65536"
  by (auto simp: idea_next_keys_def small_and)

lemma idea_expand: "w \<in> set (idea_expand n kf) \<Longrightarrow> unat w < 65536" "length (idea_expand (Suc n) kf) = 8 * n + 6"
proof (induction n arbitrary: kf)
  case (Suc n)
  { case 1 with Suc.IH(1) show ?case by (auto simp: Let_def next_keys split: if_splits dest: in_set_takeD) }
  { case 2 with Suc.IH(2) [of "idea_next_keys kf"] show ?case
      by (simp only: idea_expand.simps Let_def next_keys length_append if_False nat.distinct) simp }
qed (auto simp: Let_def next_keys)

lemma encrypt_key_good: "good_keys (cccam_emu_idea_set_encrypt_key key)"
proof -
  let ?kt = "map (\<lambda>i. push_bit 8 (ucast (key ! (2 * i))) OR ucast (key ! (2 * i + 1))) [0..<8] :: idea_int list"
  have "length (cccam_emu_idea_set_encrypt_key key) = 54"
    using idea_expand(2) [of 5 ?kt] by (simp add: cccam_emu_idea_set_encrypt_key_def Let_def del: upt_Suc idea_expand.simps)
  moreover have "unat w < 65536" if "w \<in> set (cccam_emu_idea_set_encrypt_key key)" for w
    using that idea_expand(1) [of w 6 ?kt] by (auto simp: cccam_emu_idea_set_encrypt_key_def Let_def small_pair simp del: upt_Suc idea_expand.simps)
  ultimately show ?thesis by (simp add: good_keys_def)
qed

subsection \<open>CBC\<close>

text \<open>The macros \<open>n2l\<close>, \<open>l2n\<close>, and their variants for a block of \<open>n\<close> bytes.\<close>

definition n2l :: "u8 list \<Rightarrow> nat \<Rightarrow> ulong" where
  "n2l c i = push_bit 24 (ucast (c ! i)) OR push_bit 16 (ucast (c ! (i + 1))) OR push_bit 8 (ucast (c ! (i + 2))) OR ucast (c ! (i + 3))"

definition l2n :: "ulong \<Rightarrow> u8 list" where
  "l2n l = [ucast (drop_bit 24 l), ucast (drop_bit 16 l), ucast (drop_bit 8 l), ucast l]"

definition n2ln :: "u8 list \<Rightarrow> ulong \<times> ulong" where
  "n2ln c = (let b = take 8 c @ replicate (8 - length c) 0 in (n2l b 0, n2l b 4))"

definition l2nn :: "ulong \<times> ulong \<Rightarrow> nat \<Rightarrow> u8 list" where
  "l2nn d n = take n (l2n (fst d) @ l2n (snd d))"

definition xor_pair :: "ulong \<times> ulong \<Rightarrow> ulong \<times> ulong \<Rightarrow> ulong \<times> ulong" where
  "xor_pair a b = (fst a XOR fst b, snd a XOR snd b)"

text \<open>The encrypting loop: whole blocks, then a short block padded with zeros by \<open>n2ln\<close>.\<close>

function idea_cbc_blocks :: "idea_int list \<Rightarrow> ulong \<times> ulong \<Rightarrow> u8 list \<Rightarrow> u8 list \<times> (ulong \<times> ulong)" where
  "idea_cbc_blocks ks tout inp =
     (if inp = [] then ([], tout)
      else
        let tin = xor_pair (n2ln inp) tout;
            tout1 = cccam_emu_idea_encrypt ks tin;
            (rest, tout2) = idea_cbc_blocks ks tout1 (drop 8 inp) in
        (l2n (fst tout1) @ l2n (snd tout1) @ rest, tout2))"
  by pat_completeness auto
termination
  by (relation "measure (\<lambda>(ks, tout, inp). length inp)") auto

text \<open>The decrypting loop: every block is read whole, the last one is written by \<open>l2nn\<close>.\<close>

function idea_cbc_unblocks :: "idea_int list \<Rightarrow> ulong \<times> ulong \<Rightarrow> nat \<Rightarrow> u8 list \<Rightarrow> u8 list \<times> (ulong \<times> ulong)" where
  "idea_cbc_unblocks ks prev n inp =
     (if n = 0 then ([], prev)
      else
        let tin = (n2l inp 0, n2l inp 4);
            tout = xor_pair (cccam_emu_idea_encrypt ks tin) prev;
            (rest, prev2) = idea_cbc_unblocks ks tin (n - 8) (drop 8 inp) in
        (l2nn tout (min 8 n) @ rest, prev2))"
  by pat_completeness auto
termination
  by (relation "measure (\<lambda>(ks, prev, n, inp). n)") auto

declare idea_cbc_blocks.simps [simp del] idea_cbc_unblocks.simps [simp del]

text \<open>\<open>None\<close>: the input buffer is shorter than what the loop reads.\<close>

definition cccam_emu_idea_cbc_encrypt ::
  "u8 list \<Rightarrow> nat \<Rightarrow> idea_int list \<Rightarrow> u8 list \<Rightarrow> bool \<Rightarrow> (u8 list \<times> u8 list) option" where
  "cccam_emu_idea_cbc_encrypt inp len ks iv encrypt =
     (let v = (n2l iv 0, n2l iv 4) in
      if encrypt then
        (if length inp < len then None
         else case idea_cbc_blocks ks v (take len inp) of (out, w) \<Rightarrow> Some (out, l2n (fst w) @ l2n (snd w)))
      else
        (if length inp < 8 * ((len + 7) div 8) then None
         else case idea_cbc_unblocks ks v len inp of (out, w) \<Rightarrow> Some (out, l2n (fst w) @ l2n (snd w))))"

definition words32 :: "ulong \<times> ulong \<Rightarrow> bool" where
  "words32 d \<longleftrightarrow> (\<forall>n. (bit (fst d) n \<or> bit (snd d) n) \<longrightarrow> n < 32)"

lemma words32_drop: "words32 d \<Longrightarrow> drop_bit 32 (fst d) = 0 \<and> drop_bit 32 (snd d) = 0"
  by (auto simp: words32_def bit_simps intro!: bit_word_eqI)

lemma words32_xor: "words32 a \<Longrightarrow> words32 b \<Longrightarrow> words32 (xor_pair a b)"
  by (auto simp: words32_def xor_pair_def bit_simps)

lemma xor_pair_twice: "xor_pair (xor_pair a b) b = a"
proof -
  have "\<And>x y :: ulong. (x XOR y) XOR y = x" by (rule bit_word_eqI) (auto simp: bit_simps)
  then show ?thesis by (simp add: xor_pair_def)
qed

lemma words32_n2l: "words32 (n2l c i, n2l c j)"
  by (auto simp: words32_def n2l_def bit_simps dest: bit_imp_le_length)

lemma words32_n2ln: "words32 (n2ln c)"
  by (simp add: n2ln_def Let_def words32_n2l)

lemma words32_encrypt: "good_keys k \<Longrightarrow> words32 (cccam_emu_idea_encrypt k d)"
  by (auto simp: words32_def idea_encrypt_reference words_of_def bit_simps split: prod.splits dest: bit_imp_le_length)

lemma no_bit_8: "8 \<le> n \<Longrightarrow> \<not> bit (b :: u8) n"
  using bit_imp_le_length [of b n] by auto

lemma l2n_bytes: "push_bit 24 (ucast (ucast (drop_bit 24 d) :: u8)) OR push_bit 16 (ucast (ucast (drop_bit 16 d) :: u8))
    OR push_bit 8 (ucast (ucast (drop_bit 8 d) :: u8)) OR ucast (ucast d :: u8) = d"
  if "\<And>n. bit d n \<Longrightarrow> n < 32" for d :: ulong
proof (rule bit_word_eqI)
  fix n assume "n < LENGTH(64)"
  consider "n < 8" | "8 \<le> n" "n < 16" | "16 \<le> n" "n < 24" | "24 \<le> n" "n < 32" | "32 \<le> n" by linarith
  then show "bit (push_bit 24 (ucast (ucast (drop_bit 24 d) :: u8)) OR push_bit 16 (ucast (ucast (drop_bit 16 d) :: u8))
    OR push_bit 8 (ucast (ucast (drop_bit 8 d) :: u8)) OR ucast (ucast d :: u8) :: ulong) n = bit d n"
    using that [of n] by cases (auto simp: bit_simps)
qed

lemma n2l_l2n: "words32 d \<Longrightarrow> (n2l (l2n (fst d) @ l2n (snd d) @ r) 0, n2l (l2n (fst d) @ l2n (snd d) @ r) 4) = d"
  using l2n_bytes [of "fst d"] l2n_bytes [of "snd d"]
  by (cases d) (auto simp: words32_def n2l_def l2n_def)

lemma length_l2n [simp]: "length (l2n a) = 4"
  by (simp add: l2n_def)

lemma drop_l2n: "drop 8 (l2n a @ l2n b @ r) = r"
  by (simp add: l2n_def)

lemma l2n_n2l: "l2n (n2l c i) = [c ! i, c ! (i + 1), c ! (i + 2), c ! (i + 3)]"
  unfolding l2n_def n2l_def
  by (auto intro!: bit_word_eqI simp: bit_simps no_bit_8)

lemma list_of_8: "length b = 8 \<Longrightarrow> [b ! 0, b ! 1, b ! 2, b ! 3, b ! 4, b ! 5, b ! 6, b ! 7] = b"
proof (rule nth_equalityI)
  fix i assume "length b = 8" and "i < length [b ! 0, b ! 1, b ! 2, b ! 3, b ! 4, b ! 5, b ! 6, b ! 7]"
  then have "i = 0 \<or> i = 1 \<or> i = 2 \<or> i = 3 \<or> i = 4 \<or> i = 5 \<or> i = 6 \<or> i = 7" by auto
  then show "[b ! 0, b ! 1, b ! 2, b ! 3, b ! 4, b ! 5, b ! 6, b ! 7] ! i = b ! i" by auto
qed simp

lemma l2nn_n2ln: "l2nn (n2ln c) (min 8 (length c)) = take 8 c"
proof -
  let ?b = "take 8 c @ replicate (8 - length c) 0"
  have "length ?b = 8" by simp
  then have "[?b ! 0, ?b ! 1, ?b ! 2, ?b ! 3, ?b ! 4, ?b ! 5, ?b ! 6, ?b ! 7] = ?b" by (rule list_of_8)
  moreover have "l2n (fst (n2ln c)) @ l2n (snd (n2ln c)) = [?b ! 0, ?b ! 1, ?b ! 2, ?b ! 3, ?b ! 4, ?b ! 5, ?b ! 6, ?b ! 7]"
    unfolding n2ln_def Let_def fst_conv snd_conv l2n_n2l by (simp add: numeral_2_eq_2)
  ultimately show ?thesis unfolding l2nn_def by (cases "8 \<le> length c") simp_all
qed

lemma idea_cbc_blocks_roundtrip:
  assumes "good_keys ek" "words32 v" "idea_cbc_blocks ek v m = (c, w)"
  shows "idea_cbc_unblocks (cccam_emu_idea_set_decrypt_key ek dk) v (length m) (c @ r) = (m, w)
    \<and> length c = 8 * ((length m + 7) div 8)"
  using assms(2,3)
proof (induction m arbitrary: v c rule: length_induct)
  case (1 m)
  show ?case
  proof (cases "m = []")
    case True
    with 1(3) show ?thesis by (simp add: idea_cbc_blocks.simps idea_cbc_unblocks.simps)
  next
    case False
    let ?t = "cccam_emu_idea_encrypt ek (xor_pair (n2ln m) v)"
    obtain rest w' where p: "idea_cbc_blocks ek ?t (drop 8 m) = (rest, w')"
      by (cases "idea_cbc_blocks ek ?t (drop 8 m)") blast
    with 1(3) False have b: "idea_cbc_blocks ek ?t (drop 8 m) = (rest, w)" and c: "c = l2n (fst ?t) @ l2n (snd ?t) @ rest"
      by (auto simp: idea_cbc_blocks.simps [of ek v m] Let_def)
    have t: "words32 ?t" by (rule words32_encrypt) (rule assms(1))
    have IH: "idea_cbc_unblocks (cccam_emu_idea_set_decrypt_key ek dk) ?t (length (drop 8 m)) (rest @ r) = (drop 8 m, w)"
      "length rest = 8 * ((length (drop 8 m) + 7) div 8)"
      using 1(1) [rule_format, OF _ t b] False by simp_all
    have "cccam_emu_idea_encrypt (cccam_emu_idea_set_decrypt_key ek dk) ?t = xor_pair (n2ln m) v"
      using idea_decrypts [OF assms(1)] words32_drop [OF words32_xor [OF words32_n2ln 1(2)]]
      by (metis prod.collapse)
    then have "idea_cbc_unblocks (cccam_emu_idea_set_decrypt_key ek dk) v (length m) (c @ r) = (take 8 m @ drop 8 m, w)"
      using False IH(1) unfolding c
      by (subst idea_cbc_unblocks.simps)
        (simp add: n2l_l2n [OF t] xor_pair_twice l2nn_n2ln drop_l2n Let_def del: append_take_drop_id)
    moreover have "length c = 8 * ((length m + 7) div 8)"
    proof -
      have "(length m + 7) div 8 = Suc ((length m - 8 + 7) div 8)" 
      proof (cases "8 \<le> length m")
        case True
        then show ?thesis by simp
      next
        case short: False
        then have "length m = 1 \<or> length m = 2 \<or> length m = 3 \<or> length m = 4 \<or> length m = 5 \<or> length m = 6 \<or> length m = 7"
          using False length_0_conv [of m] by linarith
        then show ?thesis by auto
      qed
      then show ?thesis using IH(2) unfolding c by (simp add: l2n_def)
    qed
    ultimately show ?thesis by simp
  qed
qed

text \<open>
  The multiplication of the cipher, computed from the low and high half of a 32-bit product, is
  multiplication modulo 65537 on values where 0 stands for 65536.
\<close>

theorem idea_mul_mod:
  assumes "unat a < 65536" "unat b < 65536"
  shows "mul_value (lo16 (idea_mul a b)) = (mul_value (lo16 a) * mul_value (ucast b)) mod 65537"
  using idea_mul_mul16 [OF assms] mul_value_mul16 by metis

theorem idea_mul_mod_witness:
  "mul_value (lo16 (idea_mul 0 3)) = 65534 \<and> mul_value (lo16 (idea_mul 40000 50000)) = (40000 * 50000) mod 65537"
  using idea_mul_mod [of 0 3] idea_mul_mod [of 40000 50000] by (simp add: mul_value_def)

text \<open>
  Whatever the key, the IV and the message, decryption with the inverted schedule gives back the
  message of any length from the encrypted blocks, and both ends are left with the same IV for the next call.
\<close>

theorem idea_cbc_roundtrip:
  "\<exists>c iv1. cccam_emu_idea_cbc_encrypt m (length m) (cccam_emu_idea_set_encrypt_key key) iv True = Some (c, iv1)
     \<and> length c = 8 * ((length m + 7) div 8)
     \<and> cccam_emu_idea_cbc_encrypt c (length m)
         (cccam_emu_idea_set_decrypt_key (cccam_emu_idea_set_encrypt_key key) dk) iv False = Some (m, iv1)"
proof -
  let ?ek = "cccam_emu_idea_set_encrypt_key key"
  obtain c w where b: "idea_cbc_blocks ?ek (n2l iv 0, n2l iv 4) m = (c, w)"
    by (cases "idea_cbc_blocks ?ek (n2l iv 0, n2l iv 4) m") blast
  note r = idea_cbc_blocks_roundtrip [OF encrypt_key_good words32_n2l b, of dk "[]"]
  show ?thesis
    by (rule exI [of _ c], rule exI [of _ "l2n (fst w) @ l2n (snd w)"]) (use r b in \<open>simp add: cccam_emu_idea_cbc_encrypt_def\<close>)
qed

end
