(* ===== verification/Block_Cipher.thy ===== *)
theory Block_Cipher
  imports Prelude
begin

text \<open>
  Block ciphers on eight bytes and CBC, as the key emulator and the Newcamd server run it: the loops
  over the blocks of a buffer are functions of the block operation, and the interfaces
  \<open>block_map\<close> (blocks keep their length) and \<open>block_cipher\<close> (decryption undoes encryption) give the CBC round trip once
  for every cipher that provides it.
\<close>

definition xor_bytes :: "u8 list \<Rightarrow> u8 list \<Rightarrow> u8 list" where
  "xor_bytes a b = map2 (XOR) a b"

lemma length_xor_bytes [simp]: "length (xor_bytes a b) = min (length a) (length b)"
  by (simp add: xor_bytes_def)

lemma xor_bytes_twice: "length r = length a \<Longrightarrow> xor_bytes (xor_bytes a r) r = a"
  unfolding xor_bytes_def
proof (induction a r rule: list_induct2')
  case (4 x xs y ys)
  have "(x XOR y) XOR y = x" by (rule bit_word_eqI) (auto simp: bit_simps)
  with 4 show ?case by simp
qed simp_all

text \<open>
  \<open>n\<close> blocks at the front of a buffer, in place; what follows them is left alone. The decrypting loop keeps
  the cipher text of a block as the next IV before it overwrites it.
\<close>

fun cbc_encrypt_blocks :: "(u8 list \<Rightarrow> u8 list) \<Rightarrow> u8 list \<Rightarrow> nat \<Rightarrow> u8 list \<Rightarrow> u8 list" where
  "cbc_encrypt_blocks f iv 0 data = data"
| "cbc_encrypt_blocks f iv (Suc n) data =
     (let c = f (xor_bytes (take 8 data) iv) in c @ cbc_encrypt_blocks f c n (drop 8 data))"

fun cbc_decrypt_blocks :: "(u8 list \<Rightarrow> u8 list) \<Rightarrow> u8 list \<Rightarrow> nat \<Rightarrow> u8 list \<Rightarrow> u8 list" where
  "cbc_decrypt_blocks f iv 0 data = data"
| "cbc_decrypt_blocks f iv (Suc n) data =
     xor_bytes (f (take 8 data)) iv @ cbc_decrypt_blocks f (take 8 data) n (drop 8 data)"

locale block_map =
  fixes enc :: "u8 list \<Rightarrow> u8 list"
  assumes length_enc: "length b = 8 \<Longrightarrow> length (enc b) = 8"
begin

lemma length_cbc_encrypt:
  "length iv = 8 \<Longrightarrow> 8 * n \<le> length data \<Longrightarrow> length (cbc_encrypt_blocks enc iv n data) = length data"
proof (induction n arbitrary: iv data)
  case (Suc n)
  then have "length (enc (xor_bytes (take 8 data) iv)) = 8" by (intro length_enc) simp
  with Suc show ?case by (simp add: Let_def)
qed simp

lemma length_cbc_decrypt:
  "length iv = 8 \<Longrightarrow> 8 * n \<le> length data \<Longrightarrow> length (cbc_decrypt_blocks enc iv n data) = length data"
proof (induction n arbitrary: iv data)
  case (Suc n)
  then have "length (enc (take 8 data)) = 8" by (intro length_enc) simp
  with Suc show ?case by simp
qed simp

end

locale block_cipher = block_map enc for enc :: "u8 list \<Rightarrow> u8 list" +
  fixes dec :: "u8 list \<Rightarrow> u8 list"
  assumes dec_enc: "length b = 8 \<Longrightarrow> dec (enc b) = b"
begin

lemma cbc:
  "length iv = 8 \<Longrightarrow> 8 * n \<le> length data
   \<Longrightarrow> cbc_decrypt_blocks dec iv n (cbc_encrypt_blocks enc iv n data) = data"
proof (induction n arbitrary: iv data)
  case (Suc n)
  let ?b = "xor_bytes (take 8 data) iv"
  have b: "length ?b = 8" using Suc.prems by simp
  then have e: "length (enc ?b) = 8" "dec (enc ?b) = ?b" by (simp_all add: length_enc dec_enc)
  have "xor_bytes ?b iv = take 8 data" using Suc.prems by (intro xor_bytes_twice) simp
  with Suc e show ?case by (simp add: Let_def)
qed simp

end

end
