(* ===== verification/Des.thy ===== *)
theory Des
  imports Des_Tables Block_Cipher
begin

text \<open>
  The byte-wise DES of \<open>src/CCshare/cccam3_emu_des.c\<close> (\<open>nc_des\<close>, used by Viaccess and Newcamd): data and key
  registers are arrays of bytes, as in the code; the two 28-bit registers turn before a round to the
  left or after it to the right. Shown here: the registers have period 28, the subkeys of the two
  directions are the same in reversed order, the rounds and the permutations are undone by their
  opposites, and so decryption undoes encryption for every key, also with the Viaccess change of the
  first byte (the key byte 7) and with the hash bit.
\<close>

subsection \<open>The byte-wise DES\<close>

definition DES_IP :: u8 where "DES_IP = 1"
definition DES_IP_1 :: u8 where "DES_IP_1 = 2"
definition DES_RIGHT :: u8 where "DES_RIGHT = 4"
definition DES_HASH :: u8 where "DES_HASH = 8"
definition NC_DES_ECM_CRYPT :: u8 where "NC_DES_ECM_CRYPT = 0"
definition NC_DES_ECM_HASH :: u8 where "NC_DES_ECM_HASH = 8"

text \<open>Every bit of the key is picked by \<open>(data[lookup >> 3] >> (8 - (lookup & 7))) & 1\<close>; byte 7 becomes 0.\<close>

definition nc_doPC1 :: "u8 list \<Rightarrow> u8 list" where
  "nc_doPC1 data =
     map (\<lambda>j. fold (\<lambda>i b.
         let lookup = nc_PC1 ! j ! i in
         b OR push_bit (7 - i) (drop_bit (8 - lookup mod 8) (data ! (lookup div 8)) AND 1)) [0..<8] 0) [0..<7] @ [0]"

text \<open>\<open>p >>= 1; if (b) p |= 0x80;\<close>\<close>

definition shift_in :: "bool \<Rightarrow> u8 \<Rightarrow> u8" where
  "shift_in b w = drop_bit 1 w OR (if b then 0x80 else 0)"

text \<open>The index \<open>k\<close> of the inner loops of \<open>doIp\<close> and \<open>doIp_1\<close> into \<open>p = &buf[3], &buf[2], ...\<close>, with 0 and 4 in turn.\<close>

definition ip_order :: "nat list" where
  "ip_order = [3, 7, 2, 6, 1, 5, 0, 4]"

definition nc_ip_byte :: "u8 \<Rightarrow> u8 list \<Rightarrow> u8 list" where
  "nc_ip_byte val buf =
     fst (fold (\<lambda>k (buf, val). (buf[k := shift_in (bit val 0) (buf ! k)], drop_bit 1 val)) ip_order (buf, val))"

definition nc_doIp :: "u8 list \<Rightarrow> u8 list" where
  "nc_doIp data = fold nc_ip_byte data (replicate 8 0)"

definition nc_ip_1_byte :: "u8 \<times> u8 list \<Rightarrow> u8 \<times> u8 list" where
  "nc_ip_1_byte = fold (\<lambda>k (r, data). (shift_in (bit (data ! k) 0) r, data[k := drop_bit 1 (data ! k)])) ip_order"

definition nc_doIp_1 :: "u8 list \<Rightarrow> u8 list" where
  "nc_doIp_1 data =
     fst (fold (\<lambda>i (buf, r, data). case nc_ip_1_byte (r, data) of (r1, data1) \<Rightarrow> (buf @ [r1], r1, data1)) [0..<8]
       ([], 0, data))"

definition nc_makeK :: "u8 list \<Rightarrow> u8 list \<Rightarrow> u8 list" where
  "nc_makeK left right =
     map (\<lambda>row. fold (\<lambda>pc val.
       let (b, p) = (if pc < 29 then (28 - pc, left) else (56 - pc, right)) in
       push_bit 1 val OR (if bit (p ! (b div 8)) (b mod 8) then 1 else 0)) row 0) nc_PC2"

text \<open>A register is four bytes, the lowest first; the four upper bits of the last one stay 0.\<close>

definition nc_rightRot :: "u8 list \<Rightarrow> u8 list" where
  "nc_rightRot key =
     (let carry = (if bit (key ! 0) 0 then 0x08 else 0);
          step = (\<lambda>i. drop_bit 1 (key ! i) OR (if bit (key ! (i + 1)) 0 then 0x80 else 0)) in
      [step 0, step 1, step 2, drop_bit 1 (key ! 3) OR carry])"

definition nc_leftRot :: "u8 list \<Rightarrow> u8 list" where
  "nc_leftRot key = (nc_rightRot ^^ 27) key"

definition nc_desCore :: "u8 list \<Rightarrow> u8 list \<Rightarrow> u8 list" where
  "nc_desCore data K =
     (let sbox = (\<lambda>i.
        let val = fold (\<lambda>e val. let b = 32 - e in push_bit 1 val OR (if bit (data ! (3 - b div 8)) (b mod 8) then 1 else 0))
                    (nc_E ! i) 0;
            val = nc_SBOXES ! (i mod 4) ! unat (val XOR K ! i);
            val = (if i > 3 then drop_bit 4 val else val) in
        val AND 0x0f) in
      map (\<lambda>j. push_bit 4 (sbox (2 * j)) OR sbox (2 * j + 1)) [0..<4])"

definition nc_permut32 :: "u8 list \<Rightarrow> u8 list" where
  "nc_permut32 data =
     fold (\<lambda>e r.
       let b = 32 - e;
           carry = (\<lambda>i. if bit (r ! i) 7 then 1 else 0) in
       [push_bit 1 (r ! 0) OR carry 1, push_bit 1 (r ! 1) OR carry 2, push_bit 1 (r ! 2) OR carry 3,
        push_bit 1 (r ! 3) OR (if bit (data ! (3 - b div 8)) (b mod 8) then 1 else 0)]) nc_P (replicate 4 0)"

definition nc_swap :: "u8 list \<Rightarrow> u8 list" where
  "nc_swap data = drop 4 data @ take 4 data"

text \<open>The first byte of the half block, changed by the key byte 7: 0 leaves it as it is.\<close>

definition nc_viaccess :: "u8 \<Rightarrow> u8 \<Rightarrow> u8" where
  "nc_viaccess k8 t0 =
     (let temp = unat k8 * unat t0 + unat k8 + unat t0;
          low = temp mod 256; high = temp div 256;
          t = of_nat low - of_nat high in
      if int low - int high < 0 then t + 1 else t)"

text \<open>What a round adds to the other half, with the two bytes exchanged under \<open>DES_HASH\<close>.\<close>

definition nc_round_function :: "u8 list \<Rightarrow> u8 list \<Rightarrow> u8 \<Rightarrow> u8 \<Rightarrow> u8 list \<Rightarrow> u8 list" where
  "nc_round_function left right mode k8 half =
     (let tempr = half[0 := nc_viaccess k8 (half ! 0)];
          r = nc_permut32 (nc_desCore tempr (nc_makeK left right)) in
      if mode AND DES_HASH \<noteq> 0 then r[0 := r ! 1, 1 := r ! 0] else r)"

definition nc_desRound :: "u8 list \<Rightarrow> u8 list \<Rightarrow> u8 list \<Rightarrow> u8 \<Rightarrow> u8 \<Rightarrow> u8 list" where
  "nc_desRound left right data mode k8 =
     (let r = nc_round_function left right mode k8 (drop 4 data) in
      nc_swap (xor_bytes (take 4 data) r @ drop 4 data))"

text \<open>The \<open>do ... while (DESShift)\<close> loop: \<open>DESShift\<close> has sixteen bits and is shifted left, so sixteen passes are enough.\<close>

fun nc_loop :: "nat \<Rightarrow> u16 \<Rightarrow> u8 \<Rightarrow> u8 \<Rightarrow> u8 list \<Rightarrow> u8 list \<Rightarrow> u8 list \<Rightarrow> u8 list" where
  "nc_loop 0 DESShift mode k8 left right data = data"
| "nc_loop (Suc n) DESShift mode k8 left right data =
     (let twice = \<not> bit DESShift 15;
          left1 = (if mode AND DES_RIGHT \<noteq> 0 then left else if twice then nc_leftRot (nc_leftRot left) else nc_leftRot left);
          right1 = (if mode AND DES_RIGHT \<noteq> 0 then right else if twice then nc_leftRot (nc_leftRot right) else nc_leftRot right);
          data1 = nc_desRound left1 right1 data mode k8;
          left2 = (if mode AND DES_RIGHT = 0 then left1 else if twice then nc_rightRot (nc_rightRot left1) else nc_rightRot left1);
          right2 = (if mode AND DES_RIGHT = 0 then right1 else if twice then nc_rightRot (nc_rightRot right1) else nc_rightRot right1);
          next = push_bit 1 DESShift in
      if next = 0 then data1 else nc_loop n next mode k8 left2 right2 data1)"

definition nc_left_key :: "u8 list \<Rightarrow> u8 list" where
  "nc_left_key key = map (\<lambda>i. push_bit 4 (key ! (i - 1)) OR drop_bit 4 (key ! i)) [3, 2, 1] @ [drop_bit 4 (key ! 0)]"

definition nc_right_key :: "u8 list \<Rightarrow> u8 list" where
  "nc_right_key key = [key ! 6, key ! 5, key ! 4, key ! 3 AND 0x0f]"

definition cccam_emu_nc_des :: "u8 list \<Rightarrow> u8 \<Rightarrow> u8 list \<Rightarrow> u8 list" where
  "cccam_emu_nc_des key mode data =
     (let shift = (if mode AND DES_RIGHT \<noteq> 0 then 0x8103 else 0xc081);
          data1 = (if mode AND DES_IP \<noteq> 0 then nc_doIp data else data);
          data2 = nc_swap (nc_loop 16 shift mode (key ! 7) (nc_left_key key) (nc_right_key key) data1) in
      if mode AND DES_IP_1 \<noteq> 0 then nc_doIp_1 data2 else data2)"


subsection \<open>The key registers rotate with period 28\<close>

definition reg_bit :: "u8 list \<Rightarrow> nat \<Rightarrow> bool" where
  "reg_bit p i = bit (p ! (i div 8)) (i mod 8)"

definition reg28 :: "u8 list \<Rightarrow> bool" where
  "reg28 p \<longleftrightarrow> length p = 4 \<and> (\<forall>n \<ge> 4. \<not> bit (p ! 3) n)"

lemma length_4: "length p = 4 \<longleftrightarrow> (\<exists>a b c d. p = [a, b, c, d])"
  by (auto simp: length_Suc_conv eval_nat_numeral)

lemma bit_80: "bit (0x80 :: u8) n \<longleftrightarrow> n = 7"
proof -
  have "(0x80 :: u8) = push_bit 7 1" by simp
  then show ?thesis by (simp only: bit_simps) auto
qed

lemma bit_08: "bit (0x08 :: u8) n \<longleftrightarrow> n = 3"
proof -
  have "(0x08 :: u8) = push_bit 3 1" by simp
  then show ?thesis by (simp only: bit_simps) auto
qed

lemma bit_if: "bit (if b then w else 0) n \<longleftrightarrow> b \<and> bit w n"
  by simp

lemma upt_28: "[0..<28] = [0,1,2,3,4,5,6,7,8,9,10,11,12,13,14,15,16,17,18,19,20,21,22,23,24,25,26,27]"
  by (simp add: upt_rec)

lemma reg28_rightRot: "reg28 p \<Longrightarrow> reg28 (nc_rightRot p)"
proof -
  assume p: "reg28 p"
  have "\<not> bit (drop_bit 1 (p ! 3) OR (if bit (p ! 0) 0 then 0x08 else 0)) n" if "4 \<le> n" for n
    using p that bit_08 [of n] by (simp only: reg28_def bit_or_iff bit_drop_bit_eq bit_if) simp
  then show ?thesis by (simp add: reg28_def nc_rightRot_def Let_def)
qed

lemma no_bit8: "8 \<le> n \<Longrightarrow> \<not> bit (b :: u8) n"
  using bit_imp_le_length [of b n] by auto

lemma reg_bit_rightRot:
  assumes "reg28 p" "i < 28"
  shows "reg_bit (nc_rightRot p) i = reg_bit p (Suc i mod 28)"
proof -
  obtain a b c d where p: "p = [a, b, c, d]" using assms(1) by (auto simp: reg28_def length_4)
  have d: "\<not> bit d n" if "4 \<le> n" for n using assms(1) that by (simp add: reg28_def p)
  have "list_all (\<lambda>i. reg_bit (nc_rightRot p) i = reg_bit p (Suc i mod 28)) [0..<28]"
    unfolding p upt_28 by (simp add: reg_bit_def nc_rightRot_def bit_simps bit_if bit_80 bit_08 no_bit8 d split del: if_split)
      (simp add: numeral_2_eq_2 numeral_3_eq_3)
  then show ?thesis using assms(2) by (simp add: list_all_iff)
qed

lemma reg_eqI:
  assumes "reg28 p" "reg28 q" "\<And>i. i < 28 \<Longrightarrow> reg_bit p i = reg_bit q i"
  shows "p = q"
proof (rule nth_equalityI)
  show "length p = length q" using assms by (simp add: reg28_def)
  fix j assume j: "j < length p"
  show "p ! j = q ! j"
  proof (rule bit_word_eqI)
    fix n assume n: "n < LENGTH(8)"
    show "bit (p ! j) n = bit (q ! j) n"
    proof (cases "8 * j + n < 28")
      case True
      then show ?thesis using assms(3) [of "8 * j + n"] n by (simp add: reg_bit_def)
    next
      case False
      then have "j = 3" "4 \<le> n" using j n assms(1) by (auto simp: reg28_def)
      then show ?thesis using assms(1,2) by (simp add: reg28_def)
    qed
  qed
qed

lemma reg28_rots: "reg28 p \<Longrightarrow> reg28 ((nc_rightRot ^^ n) p)"
  by (induction n) (simp_all add: reg28_rightRot)

lemma reg_bit_rots: "reg28 p \<Longrightarrow> i < 28 \<Longrightarrow> reg_bit ((nc_rightRot ^^ n) p) i = reg_bit p ((i + n) mod 28)"
proof (induction n arbitrary: i)
  case (Suc n)
  then have "reg_bit ((nc_rightRot ^^ Suc n) p) i = reg_bit ((nc_rightRot ^^ n) p) (Suc i mod 28)"
    by (simp add: reg_bit_rightRot reg28_rots)
  also have "\<dots> = reg_bit p ((Suc i mod 28 + n) mod 28)" using Suc by simp
  also have "(Suc i mod 28 + n) mod 28 = (i + Suc n) mod 28" by (simp add: mod_add_left_eq)
  finally show ?case .
qed simp

lemma rots_period:
  assumes "reg28 p" "m mod 28 = n mod 28"
  shows "(nc_rightRot ^^ m) p = (nc_rightRot ^^ n) p"
proof (rule reg_eqI)
  fix i :: nat assume "i < 28"
  with assms show "reg_bit ((nc_rightRot ^^ m) p) i = reg_bit ((nc_rightRot ^^ n) p) i"
    by (simp add: reg_bit_rots) (metis mod_add_right_eq)
qed (use assms(1) in \<open>simp_all add: reg28_rots\<close>)

lemma reg28_keys: "reg28 (nc_left_key key)" "reg28 (nc_right_key key)"
proof -
  have m: "(0x0f :: u8) = mask 4" by (simp add: mask_eq_exp_minus_1)
  show "reg28 (nc_left_key key)" "reg28 (nc_right_key key)"
    unfolding nc_left_key_def nc_right_key_def m by (auto simp: reg28_def bit_simps no_bit8 numeral_3_eq_3)
qed

subsection \<open>Rounds and their inverse\<close>

lemma length_round_function [simp]: "length (nc_round_function left right mode k8 h) = 4"
proof -
  have *: "length (fold (\<lambda>e r. [f0 e r, f1 e r, f2 e r, f3 e r]) xs (ys :: u8 list)) = 4"
    if "length ys = 4" for xs :: "nat list" and ys f0 f1 f2 f3 using that by (induction xs arbitrary: ys) simp_all
  have "length (nc_permut32 d) = 4" for d unfolding nc_permut32_def Let_def by (rule *) simp
  then show ?thesis by (simp add: nc_round_function_def Let_def)
qed

lemma length_desRound [simp]: "length data = 8 \<Longrightarrow> length (nc_desRound left right data mode k8) = 8"
  by (simp add: nc_desRound_def nc_swap_def Let_def)

lemma nc_swap_swap: "length data = 8 \<Longrightarrow> nc_swap (nc_swap data) = data"
  by (simp add: nc_swap_def)

lemma length_nc_swap [simp]: "length (nc_swap data) = length data"
  by (simp add: nc_swap_def)

lemma round_undone:
  assumes "length data = 8"
  shows "nc_desRound left right (nc_swap (nc_desRound left right data mode k8)) mode k8 = nc_swap data"
proof -
  let ?f = "nc_round_function left right mode k8 (drop 4 data)"
  have len: "length (xor_bytes (take 4 data) ?f) = 4" using assms by simp
  have "nc_swap (nc_desRound left right data mode k8) = xor_bytes (take 4 data) ?f @ drop 4 data"
    unfolding nc_desRound_def Let_def using assms by (intro nc_swap_swap) simp
  then have "nc_desRound left right (nc_swap (nc_desRound left right data mode k8)) mode k8
      = nc_swap (xor_bytes (xor_bytes (take 4 data) ?f) ?f @ drop 4 data)"
    using len by (simp add: nc_desRound_def Let_def)
  also have "xor_bytes (xor_bytes (take 4 data) ?f) ?f = take 4 data"
    by (rule xor_bytes_twice) (use assms in simp)
  finally show ?thesis by (simp add: nc_swap_def)
qed

definition nc_rounds :: "u8 \<Rightarrow> u8 \<Rightarrow> (u8 list \<times> u8 list) list \<Rightarrow> u8 list \<Rightarrow> u8 list" where
  "nc_rounds mode k8 keys data = fold (\<lambda>(left, right) d. nc_desRound left right d mode k8) keys data"

lemma length_nc_rounds [simp]: "length data = 8 \<Longrightarrow> length (nc_rounds mode k8 keys data) = 8"
  unfolding nc_rounds_def by (induction keys arbitrary: data) (auto simp: case_prod_beta)

lemma rounds_undone:
  "length data = 8 \<Longrightarrow> nc_rounds mode k8 (rev keys) (nc_swap (nc_rounds mode k8 keys data)) = nc_swap data"
proof (induction keys rule: rev_induct)
  case (snoc k keys)
  obtain l r where k: "k = (l, r)" by (cases k)
  have "nc_rounds mode k8 (rev (keys @ [k])) (nc_swap (nc_rounds mode k8 (keys @ [k]) data))
    = nc_rounds mode k8 (rev keys) (nc_desRound l r (nc_swap (nc_desRound l r (nc_rounds mode k8 keys data) mode k8)) mode k8)"
    by (simp add: nc_rounds_def k)
  also have "\<dots> = nc_rounds mode k8 (rev keys) (nc_swap (nc_rounds mode k8 keys data))"
    using snoc.prems by (simp add: round_undone)
  finally show ?case using snoc by simp
qed (simp add: nc_rounds_def)

text \<open>The registers of every round, counted in right turns of the initial ones.\<close>

definition turned :: "u8 list \<Rightarrow> nat \<Rightarrow> u8 list" where
  "turned p n = (nc_rightRot ^^ n) p"

definition turned_keys :: "u8 list \<Rightarrow> nat list \<Rightarrow> (u8 list \<times> u8 list) list" where
  "turned_keys key ns = map (\<lambda>n. (turned (nc_left_key key) n, turned (nc_right_key key) n)) ns"

fun shift_flags :: "nat \<Rightarrow> u16 \<Rightarrow> bool list" where
  "shift_flags 0 s = []"
| "shift_flags (Suc n) s = bit s 15 # (if push_bit 1 s = 0 then [] else shift_flags n (push_bit 1 s))"

fun right_turns :: "bool list \<Rightarrow> nat \<Rightarrow> nat list" where
  "right_turns [] a = []"
| "right_turns (b # bs) a = a # right_turns bs (a + (if b then 1 else 2))"

fun left_turns :: "bool list \<Rightarrow> nat \<Rightarrow> nat list" where
  "left_turns [] a = []"
| "left_turns (b # bs) a = (let c = a + (if b then 27 else 54) in c # left_turns bs c)"

lemma turned_right: "nc_rightRot (turned p n) = turned p (n + 1)"
  by (simp add: turned_def)

lemma turned_left: "nc_leftRot (turned p n) = turned p (n + 27)"
  unfolding nc_leftRot_def turned_def by (metis comp_apply funpow_add add.commute)

lemma turned_0: "turned p 0 = p"
  by (simp add: turned_def)

lemma turned_period: "reg28 p \<Longrightarrow> turned p (n mod 28) = turned p n"
  unfolding turned_def by (rule rots_period) simp_all

lemma turned_keys_Cons: "nc_rounds mode k8 (turned_keys key (n # ns)) data
    = nc_rounds mode k8 (turned_keys key ns) (nc_desRound (turned (nc_left_key key) n) (turned (nc_right_key key) n) data mode k8)"
  "nc_rounds mode k8 (turned_keys key []) data = data"
  by (simp_all add: turned_keys_def nc_rounds_def)

lemma loop_right:
  assumes "mode AND DES_RIGHT \<noteq> 0"
  shows "nc_loop n s mode k8 (turned (nc_left_key key) a) (turned (nc_right_key key) a) data
    = nc_rounds mode k8 (turned_keys key (right_turns (shift_flags n s) a)) data"
proof (induction n arbitrary: s a data)
  case (Suc n)
  then show ?case using assms
    by (cases "bit s 15"; cases "push_bit 1 s = 0") (simp_all add: Let_def turned_keys_Cons turned_right)
qed (simp add: turned_keys_Cons)

lemma loop_left:
  assumes "mode AND DES_RIGHT = 0"
  shows "nc_loop n s mode k8 (turned (nc_left_key key) a) (turned (nc_right_key key) a) data
    = nc_rounds mode k8 (turned_keys key (left_turns (shift_flags n s) a)) data"
proof (induction n arbitrary: s a data)
  case (Suc n)
  then show ?case using assms
    by (cases "bit s 15"; cases "push_bit 1 s = 0") (simp_all add: Let_def turned_keys_Cons turned_left add.commute)
qed (simp add: turned_keys_Cons)

definition right_schedule :: "nat list" where
  "right_schedule = right_turns (shift_flags 16 0x8103) 0"

definition left_schedule :: "nat list" where
  "left_schedule = left_turns (shift_flags 16 0xc081) 0"

lemma flags: "shift_flags 16 0x8103 = [True, False, False, False, False, False, False, True, False, False, False, False, False, False, True, True]"
  "shift_flags 16 0xc081 = [True, True, False, False, False, False, False, False, True, False, False, False, False, False, False, True]"
  by code_simp+

lemma turns_reversed: "map (\<lambda>n. n mod 28) left_schedule = rev (map (\<lambda>n. n mod 28) right_schedule)"
  by (simp add: left_schedule_def right_schedule_def flags)

lemma keys_reversed: "turned_keys key right_schedule = rev (turned_keys key left_schedule)"
proof -
  have m: "turned_keys key (map (\<lambda>n. n mod 28) ns) = turned_keys key ns" for ns
    by (simp add: turned_keys_def turned_period reg28_keys)
  have "map (\<lambda>n. n mod 28) right_schedule = rev (map (\<lambda>n. n mod 28) left_schedule)"
    by (simp only: turns_reversed rev_rev_ident)
  then have "turned_keys key (map (\<lambda>n. n mod 28) right_schedule) = rev (turned_keys key (map (\<lambda>n. n mod 28) left_schedule))"
    by (simp add: turned_keys_def rev_map)
  then show ?thesis by (simp only: m)
qed

text \<open>The core without the initial and final permutation.\<close>

definition nc_core :: "bool \<Rightarrow> bool \<Rightarrow> u8 list \<Rightarrow> u8 list \<Rightarrow> u8 list" where
  "nc_core right hash key data =
     (let mode = (if hash then DES_HASH else 0) in
      nc_swap (nc_rounds mode (key ! 7)
        (turned_keys key (if right then right_schedule else left_schedule)) data))"

lemma nc_rounds_mode: "nc_rounds mode k8 keys data = nc_rounds (if mode AND DES_HASH \<noteq> 0 then DES_HASH else 0) k8 keys data"
proof -
  have "nc_desRound l r d mode k8 = nc_desRound l r d (if mode AND DES_HASH \<noteq> 0 then DES_HASH else 0) k8" for l r d
    by (auto simp: nc_desRound_def nc_round_function_def DES_HASH_def)
  then show ?thesis unfolding nc_rounds_def by (metis (no_types, lifting))
qed

lemma nc_des_core:
  "cccam_emu_nc_des key mode data =
     (let data1 = (if mode AND DES_IP \<noteq> 0 then nc_doIp data else data);
          data2 = nc_core (mode AND DES_RIGHT \<noteq> 0) (mode AND DES_HASH \<noteq> 0) key data1 in
      if mode AND DES_IP_1 \<noteq> 0 then nc_doIp_1 data2 else data2)"
proof -
  have r: "nc_loop 16 0x8103 mode (key ! 7) (nc_left_key key) (nc_right_key key) d
      = nc_rounds mode (key ! 7) (turned_keys key right_schedule) d" if "mode AND DES_RIGHT \<noteq> 0" for d
    using loop_right [OF that, where n = 16 and s = "0x8103" and a = 0 and key = key] by (simp only: turned_0 right_schedule_def left_schedule_def)
  have l: "nc_loop 16 0xc081 mode (key ! 7) (nc_left_key key) (nc_right_key key) d
      = nc_rounds mode (key ! 7) (turned_keys key left_schedule) d" if "mode AND DES_RIGHT = 0" for d
    using loop_left [OF that, where n = 16 and s = "0xc081" and a = 0 and key = key] by (simp only: turned_0 right_schedule_def left_schedule_def)
  show ?thesis
    unfolding cccam_emu_nc_des_def nc_core_def Let_def
    using r l nc_rounds_mode [of mode] by (cases "mode AND DES_RIGHT = 0") (simp_all only: if_True if_False simp_thms)
qed

lemma nc_core_inverse:
  "length data = 8 \<Longrightarrow> nc_core (\<not> right) hash key (nc_core right hash key data) = data"
proof -
  assume len: "length data = 8"
  let ?m = "if hash then DES_HASH else 0" and ?L = "turned_keys key left_schedule"
  have "nc_swap (nc_rounds ?m k8 (rev ks) (nc_swap (nc_rounds ?m k8 ks data))) = data" for k8 ks
    using rounds_undone [OF len, where mode = ?m and keys = ks and ?k8.0 = k8] len by (simp add: nc_swap_swap)
  from this [of _ ?L] this [of _ "rev ?L"] show ?thesis
    by (cases right) (simp_all only: nc_core_def Let_def keys_reversed rev_rev_ident not_True_eq_False not_False_eq_True if_True if_False)
qed

subsection \<open>The initial permutation and its inverse\<close>

text \<open>Eight times \<open>shift_in\<close> builds the byte of the eight bits, the first one lowest.\<close>

definition byte_of :: "bool list \<Rightarrow> u8 \<Rightarrow> u8" where
  "byte_of bs w = fold shift_in bs w"

lemma bit_shift_in: "bit (shift_in b w) n \<longleftrightarrow> (if n = 7 then b else bit w (Suc n))"
proof -
  have "bit (shift_in b w) n \<longleftrightarrow> bit w (Suc n) \<or> b \<and> n = 7"
    unfolding shift_in_def bit_or_iff bit_drop_bit_eq bit_if bit_80 by simp
  then show ?thesis using no_bit8 [of 8 w] by auto
qed

lemma bit_fold_shift_in:
  "length bs \<le> 8 \<Longrightarrow> n < 8 \<Longrightarrow> bit (fold shift_in bs w) n =
     (if n + length bs < 8 then bit w (n + length bs) else bs ! (n + length bs - 8))"
proof (induction bs arbitrary: n rule: rev_induct)
  case (snoc b bs)
  show ?case
  proof (cases "n = 7")
    case True
    with snoc.prems show ?thesis by (simp add: bit_shift_in nth_append)
  next
    case False
    with snoc show ?thesis by (auto simp: bit_shift_in nth_append)
  qed
qed simp

lemma bit_byte_of: "length bs = 8 \<Longrightarrow> n < 8 \<Longrightarrow> bit (byte_of bs w) n = bs ! n"
  using bit_fold_shift_in [of bs n w] by (simp add: byte_of_def)

lemma byte_ofI: "length bs = 8 \<Longrightarrow> (\<And>n. n < 8 \<Longrightarrow> bs ! n = bit v n) \<Longrightarrow> byte_of bs w = v"
  by (rule bit_word_eqI) (simp add: bit_byte_of)

lemma length_8: "length d = 8 \<longleftrightarrow> (\<exists>a b c e f g h i. d = [a, b, c, e, f, g, h, i])"
  by (auto simp: length_Suc_conv eval_nat_numeral)

lemma ip_row: "nc_ip_byte v [b0, b1, b2, b3, b4, b5, b6, b7]
  = [shift_in (bit v 6) b0, shift_in (bit v 4) b1, shift_in (bit v 2) b2, shift_in (bit v 0) b3,
     shift_in (bit v 7) b4, shift_in (bit v 5) b5, shift_in (bit v 3) b6, shift_in (bit v 1) b7]"
  by (simp add: nc_ip_byte_def ip_order_def bit_simps) (simp add: eval_nat_numeral)

lemma nc_doIp_bytes:
  "nc_doIp [a0, a1, a2, a3, a4, a5, a6, a7] =
     map (\<lambda>s. byte_of (map (\<lambda>a. bit a s) [a0, a1, a2, a3, a4, a5, a6, a7]) 0) [6, 4, 2, 0, 7, 5, 3, 1]"
proof -
  have r: "replicate 8 (0 :: u8) = [0, 0, 0, 0, 0, 0, 0, 0]" by (simp add: eval_nat_numeral)
  show ?thesis unfolding nc_doIp_def r byte_of_def by (simp add: ip_row)
qed

lemma ip_1_row: "nc_ip_1_byte (r, [b0, b1, b2, b3, b4, b5, b6, b7])
  = (byte_of (map (\<lambda>b. bit b 0) [b3, b7, b2, b6, b1, b5, b0, b4]) r, map (drop_bit 1) [b0, b1, b2, b3, b4, b5, b6, b7])"
  by (simp add: nc_ip_1_byte_def ip_order_def byte_of_def)

lemma byte_of_any: "length bs = 8 \<Longrightarrow> byte_of bs w = byte_of bs 0"
  by (rule byte_ofI) (simp_all add: bit_byte_of)

lemma upt_8: "[0..<8] = [0, 1, 2, 3, 4, 5, 6, 7 :: nat]"
  by (simp add: upt_rec)

lemma nc_doIp_1_bytes:
  "nc_doIp_1 [b0, b1, b2, b3, b4, b5, b6, b7] =
     map (\<lambda>s. byte_of (map (\<lambda>b. bit b s) [b3, b7, b2, b6, b1, b5, b0, b4]) 0) [0..<8]"
proof -
  show ?thesis unfolding nc_doIp_1_def upt_8
    by (simp add: ip_1_row bit_simps byte_of_any [of _ "byte_of _ _"]) (simp add: eval_nat_numeral)
qed

lemma less_8: "n < 8 \<Longrightarrow> n = 0 \<or> n = 1 \<or> n = 2 \<or> n = 3 \<or> n = 4 \<or> n = 5 \<or> n = 6 \<or> n = (7 :: nat)"
  by linarith

lemma ip_1_ip: "length d = 8 \<Longrightarrow> nc_doIp_1 (nc_doIp d) = d"
  by (auto simp: length_8 nc_doIp_bytes nc_doIp_1_bytes upt_8 bit_byte_of dest!: less_8 intro!: byte_ofI)

lemma ip_ip_1: "length d = 8 \<Longrightarrow> nc_doIp (nc_doIp_1 d) = d"
  by (auto simp: length_8 nc_doIp_bytes nc_doIp_1_bytes upt_8 bit_byte_of dest!: less_8 intro!: byte_ofI)

lemma length_nc_doIp [simp]: "length d = 8 \<Longrightarrow> length (nc_doIp d) = 8" "length d = 8 \<Longrightarrow> length (nc_doIp_1 d) = 8"
proof -
  assume "length d = 8"
  then obtain a b c e f g h i where "d = [a, b, c, e, f, g, h, i]" unfolding length_8 by blast
  then show "length (nc_doIp d) = 8" "length (nc_doIp_1 d) = 8" by (simp_all add: nc_doIp_bytes nc_doIp_1_bytes)
qed

lemma length_nc_core [simp]: "length d = 8 \<Longrightarrow> length (nc_core right hash key d) = 8"
  by (simp add: nc_core_def Let_def)

lemma length_nc_des [simp]: "length d = 8 \<Longrightarrow> length (cccam_emu_nc_des key mode d) = 8"
  by (simp add: nc_des_core Let_def)

text \<open>The mode that undoes \<open>mode\<close>: the other direction of the registers, and the permutations exchanged.\<close>

definition opposite :: "u8 \<Rightarrow> u8 \<Rightarrow> bool" where
  "opposite m n \<longleftrightarrow> (m AND DES_RIGHT = 0 \<longleftrightarrow> n AND DES_RIGHT \<noteq> 0) \<and> m AND DES_HASH = n AND DES_HASH
     \<and> (m AND DES_IP = 0 \<longleftrightarrow> n AND DES_IP_1 = 0) \<and> (m AND DES_IP_1 = 0 \<longleftrightarrow> n AND DES_IP = 0)"

lemma nc_des_inverse:
  assumes "length data = 8" "opposite m n"
  shows "cccam_emu_nc_des key n (cccam_emu_nc_des key m data) = data"
proof -
  have c: "nc_core (\<not> r) h key (nc_core r h key d) = d" if "length d = 8" for r h d
    using that by (rule nc_core_inverse)
  note c' = c [of _ "m AND DES_RIGHT \<noteq> 0", simplified]
  have flags: "(n AND DES_RIGHT \<noteq> 0) = (\<not> (m AND DES_RIGHT \<noteq> 0))" "(n AND DES_HASH \<noteq> 0) = (m AND DES_HASH \<noteq> 0)"
    "(n AND DES_IP \<noteq> 0) = (m AND DES_IP_1 \<noteq> 0)" "(n AND DES_IP_1 \<noteq> 0) = (m AND DES_IP \<noteq> 0)"
    using assms(2) by (auto simp: opposite_def)
  show ?thesis
    using assms(1) unfolding nc_des_core [of key n] nc_des_core [of key m] flags Let_def
    by (cases "m AND DES_IP = 0"; cases "m AND DES_IP_1 = 0") (simp_all add: c' ip_ip_1 ip_1_ip)
qed

end
