(* ===== verification/Des_Words.thy ===== *)
theory Des_Words
  imports Des
begin

text \<open>
  The word-wise DES of \<open>src/CCshare/cccam3_emu_des.c\<close> (\<open>emu_des\<close>): key schedule, one block, two-key triple DES in
  ECB and CBC, and the check byte of a control word. Shown here: with any schedule the two directions
  undo each other (the bit exchanges of the permutations are involutions, the rounds are a Feistel
  network), hence the triple DES is a \<open>block_cipher\<close> and its CBC is undone.
\<close>

subsection \<open>Key schedule and rounds\<close>

definition emu_Get32bits :: "u8 list \<Rightarrow> nat \<Rightarrow> u32" where
  "emu_Get32bits key i =
     push_bit 24 (ucast (key ! (i + 3))) + push_bit 16 (ucast (key ! (i + 2))) + push_bit 8 (ucast (key ! (i + 1)))
     + ucast (key ! i)"

definition swap_bits :: "nat \<Rightarrow> u32 \<Rightarrow> u32 \<times> u32 \<Rightarrow> u32 \<times> u32" where
  "swap_bits n m = (\<lambda>(a, b). let t = (drop_bit n b XOR a) AND m in (a XOR t, b XOR push_bit n t))"

definition des_key_words :: "u32 \<Rightarrow> u32 \<Rightarrow> u32 \<times> u32" where
  "des_key_words c d =
     (let s = emu_des_skb ! 0 ! unat (c AND 0x3f) OR
              emu_des_skb ! 1 ! unat ((drop_bit 6 c AND 0x03) OR (drop_bit 7 c AND 0x3c)) OR
              emu_des_skb ! 2 ! unat ((drop_bit 13 c AND 0x0f) OR (drop_bit 14 c AND 0x30)) OR
              emu_des_skb ! 3 ! unat ((drop_bit 20 c AND 0x01) OR (drop_bit 21 c AND 0x06) OR (drop_bit 22 c AND 0x38));
          t = emu_des_skb ! 4 ! unat (d AND 0x3f) OR
              emu_des_skb ! 5 ! unat ((drop_bit 7 d AND 0x03) OR (drop_bit 8 d AND 0x3c)) OR
              emu_des_skb ! 6 ! unat (drop_bit 15 d AND 0x3f) OR
              emu_des_skb ! 7 ! unat ((drop_bit 21 d AND 0x0f) OR (drop_bit 22 d AND 0x30));
          s1 = drop_bit 16 s OR (t AND 0xffff0000) in
      (push_bit 16 t OR (s AND 0x0000ffff), push_bit 4 s1 OR drop_bit 28 s1))"

fun des_key_loop :: "u8 list \<Rightarrow> u32 \<Rightarrow> u32 \<Rightarrow> u32 list" where
  "des_key_loop [] c d = []"
| "des_key_loop (two # shifts) c d =
     (let turn = (\<lambda>x. (if two \<noteq> 0 then drop_bit 2 x OR push_bit 26 x else drop_bit 1 x OR push_bit 27 x) AND 0x0fffffff);
          c1 = turn c; d1 = turn d;
          (k0, k1) = des_key_words c1 d1 in
      k0 # k1 # des_key_loop shifts c1 d1)"

definition cccam_emu_des_set_key :: "u8 list \<Rightarrow> u32 list" where
  "cccam_emu_des_set_key key =
     (let (c, d) = swap_bits 4 0x0f0f0f0f (emu_Get32bits key 0, emu_Get32bits key 4);
          turn = (\<lambda>x. let t = (push_bit 18 x XOR x) AND 0xcccc0000 in x XOR t XOR drop_bit 18 t);
          (c, d) = swap_bits 1 0x55555555 (turn c, turn d);
          (d, c) = swap_bits 8 0x00ff00ff (d, c);
          (c, d) = swap_bits 1 0x55555555 (c, d);
          d = push_bit 16 (d AND 0x000000ff) OR (d AND 0x0000ff00) OR drop_bit 16 (d AND 0x00ff0000)
              OR drop_bit 4 (c AND 0xf0000000);
          c = c AND 0x0fffffff in
      des_key_loop emu_shifts2 c d)"

definition emu_lrotr :: "u32 \<Rightarrow> u32" where
  "emu_lrotr i = drop_bit 4 i OR push_bit 28 (i AND 0xff)"

definition des_f :: "u32 \<Rightarrow> u32 \<Rightarrow> u32 \<Rightarrow> u32" where
  "des_f k0 k1 x =
     (let u = x XOR k0; t = emu_lrotr (x XOR k1);
          sp = (\<lambda>i w. emu_des_SPtrans ! i ! unat (w AND 0x3f)) in
      sp 1 t OR sp 3 (drop_bit 8 t) OR sp 5 (drop_bit 16 t) OR sp 7 (drop_bit 24 t) OR
      sp 0 u OR sp 2 (drop_bit 8 u) OR sp 4 (drop_bit 16 u) OR sp 6 (drop_bit 24 u))"

text \<open>Two rounds: the word \<open>l\<close> with the subkey at \<open>i\<close>, then \<open>r\<close> with the one at \<open>j\<close>.\<close>

definition des_two_rounds :: "u32 list \<Rightarrow> nat \<Rightarrow> nat \<Rightarrow> u32 \<times> u32 \<Rightarrow> u32 \<times> u32" where
  "des_two_rounds ks i j = (\<lambda>(l, r).
     let l1 = l XOR des_f (ks ! i) (ks ! (i + 1)) r in
     (l1, r XOR des_f (ks ! j) (ks ! (j + 1)) l1))"

definition emu_des_encrypt_int :: "u32 list \<Rightarrow> bool \<Rightarrow> u32 \<times> u32 \<Rightarrow> u32 \<times> u32" where
  "emu_des_encrypt_int ks do_encrypt = (\<lambda>(u, r).
     let (u, r) = swap_bits 4 0x0f0f0f0f (u, r);
         (r, u) = swap_bits 16 0x0000ffff (r, u);
         (u, r) = swap_bits 2 0x33333333 (u, r);
         (r, u) = swap_bits 8 0x00ff00ff (r, u);
         (u, r) = swap_bits 1 0x55555555 (u, r);
         l = push_bit 1 r OR drop_bit 31 r;
         r = push_bit 1 u OR drop_bit 31 u;
         (l, r) =
           (if do_encrypt then
              fold (\<lambda>i x. des_two_rounds ks (i + 4) (i + 6) (des_two_rounds ks i (i + 2) x)) [0, 8, 16, 24] (l, r)
            else
              fold (\<lambda>i x. des_two_rounds ks (i - 4) (i - 6) (des_two_rounds ks i (i - 2) x)) [30, 22, 14, 6] (l, r));
         l = drop_bit 1 l OR push_bit 31 l;
         r = drop_bit 1 r OR push_bit 31 r;
         (l, r) = swap_bits 1 0x55555555 (l, r);
         (r, l) = swap_bits 8 0x00ff00ff (r, l);
         (l, r) = swap_bits 2 0x33333333 (l, r);
         (r, l) = swap_bits 16 0x0000ffff (r, l);
         (l, r) = swap_bits 4 0x0f0f0f0f (l, r) in
     (l, r))"

definition le32 :: "u32 \<Rightarrow> u8 list" where
  "le32 l = [ucast l, ucast (drop_bit 8 l), ucast (drop_bit 16 l), ucast (drop_bit 24 l)]"

definition cccam_emu_des :: "u32 list \<Rightarrow> bool \<Rightarrow> u8 list \<Rightarrow> u8 list" where
  "cccam_emu_des schedule do_encrypt data =
     (case emu_des_encrypt_int schedule do_encrypt (emu_Get32bits data 0, emu_Get32bits data 4) of (l0, l1) \<Rightarrow>
        le32 l0 @ le32 l1)"

lemma swap_bits_twice:
  assumes "\<And>i. bit m i \<Longrightarrow> i + n < 32"
  shows "swap_bits n m (swap_bits n m x) = x"
proof -
  obtain a b where x: "x = (a, b)" by (cases x)
  let ?t = "(drop_bit n b XOR a) AND m"
  have "drop_bit n (b XOR push_bit n ?t) XOR (a XOR ?t) = drop_bit n b XOR a" if "\<And>i. bit m i \<Longrightarrow> i + n < 32"
  proof (rule bit_word_eqI)
    fix k
    show "bit (drop_bit n (b XOR push_bit n ?t) XOR (a XOR ?t)) k = bit (drop_bit n b XOR a) k"
      using that [of k] by (auto simp: bit_simps ac_simps)
  qed
  then have t: "(drop_bit n (b XOR push_bit n ?t) XOR (a XOR ?t)) AND m = ?t" using assms by simp
  define t' where "t' = ?t"
  have "(a XOR t') XOR t' = a" "(b XOR push_bit n t') XOR push_bit n t' = b"
    by (rule bit_word_eqI, auto simp: bit_simps)+
  note u = this
  have "swap_bits n m x = (a XOR t', b XOR push_bit n t')"
    by (simp only: x swap_bits_def prod.case Let_def t'_def)
  moreover have "swap_bits n m (a XOR t', b XOR push_bit n t') = ((a XOR t') XOR t', (b XOR push_bit n t') XOR push_bit n t')"
    by (simp only: swap_bits_def prod.case Let_def t [folded t'_def])
  ultimately show ?thesis by (simp only: u x)
qed

lemma swap_mask_bits:
  "bit (0x0f0f0f0f :: u32) i \<Longrightarrow> i + 4 < 32" "bit (0x0000ffff :: u32) i \<Longrightarrow> i + 16 < 32"
  "bit (0x33333333 :: u32) i \<Longrightarrow> i + 2 < 32" "bit (0x00ff00ff :: u32) i \<Longrightarrow> i + 8 < 32"
  "bit (0x55555555 :: u32) i \<Longrightarrow> i + 1 < 32"
proof -
  have top: "i + n < 32" if "bit w i" "drop_bit (32 - n) w = 0" "n \<le> 32" for w :: u32 and i n
  proof (rule ccontr)
    assume "\<not> i + n < 32"
    then have "32 - n + (i - (32 - n)) = i" using that by simp
    with that(1) have "bit (drop_bit (32 - n) w) (i - (32 - n))" by (simp add: bit_drop_bit_eq)
    then show False unfolding that(2) by simp
  qed
  show "bit (0x0f0f0f0f :: u32) i \<Longrightarrow> i + 4 < 32" "bit (0x0000ffff :: u32) i \<Longrightarrow> i + 16 < 32"
    "bit (0x33333333 :: u32) i \<Longrightarrow> i + 2 < 32" "bit (0x00ff00ff :: u32) i \<Longrightarrow> i + 8 < 32"
    "bit (0x55555555 :: u32) i \<Longrightarrow> i + 1 < 32"
    by (erule top; simp)+
qed

lemmas swap_undone = swap_bits_twice [OF swap_mask_bits(1)] swap_bits_twice [OF swap_mask_bits(2)] swap_bits_twice [OF swap_mask_bits(3)]
  swap_bits_twice [OF swap_mask_bits(4)] swap_bits_twice [OF swap_mask_bits(5)]

lemma turn_undone: "drop_bit 1 (push_bit 1 w OR drop_bit 31 w) OR push_bit 31 (push_bit 1 w OR drop_bit 31 w) = (w :: u32)"
proof (rule bit_word_eqI)
  fix n assume "n < LENGTH(32)"
  then show "bit (drop_bit 1 (push_bit 1 w OR drop_bit 31 w) OR push_bit 31 (push_bit 1 w OR drop_bit 31 w)) n = bit w n"
    unfolding bit_or_iff bit_push_bit_iff bit_drop_bit_eq
    by (cases "n = 31") (auto dest: bit_imp_le_length)
qed

lemma turn_undone': "push_bit 1 (drop_bit 1 w OR push_bit 31 w) OR drop_bit 31 (drop_bit 1 w OR push_bit 31 w) = (w :: u32)"
proof (rule bit_word_eqI)
  fix n assume "n < LENGTH(32)"
  then show "bit (push_bit 1 (drop_bit 1 w OR push_bit 31 w) OR drop_bit 31 (drop_bit 1 w OR push_bit 31 w)) n = bit w n"
    unfolding bit_or_iff bit_push_bit_iff bit_drop_bit_eq
    by (cases n) (auto dest: bit_imp_le_length)
qed

lemma two_rounds_undone: "des_two_rounds ks j i (prod.swap (des_two_rounds ks i j x)) = prod.swap x"
proof -
  have "(w XOR v) XOR v = w" for w v :: u32 by (rule bit_word_eqI) (auto simp: bit_simps)
  then show ?thesis by (cases x) (simp add: des_two_rounds_def Let_def)
qed

text \<open>The permutations around the rounds, the turns, and the rounds themselves.\<close>

definition des_initial :: "u32 \<times> u32 \<Rightarrow> u32 \<times> u32" where
  "des_initial x =
     swap_bits 1 0x55555555 (prod.swap (swap_bits 8 0x00ff00ff (prod.swap (swap_bits 2 0x33333333
       (prod.swap (swap_bits 16 0x0000ffff (prod.swap (swap_bits 4 0x0f0f0f0f x))))))))"

definition des_final :: "u32 \<times> u32 \<Rightarrow> u32 \<times> u32" where
  "des_final x =
     swap_bits 4 0x0f0f0f0f (prod.swap (swap_bits 16 0x0000ffff (prod.swap (swap_bits 2 0x33333333
       (prod.swap (swap_bits 8 0x00ff00ff (prod.swap (swap_bits 1 0x55555555 x))))))))"

definition turn_left :: "u32 \<Rightarrow> u32" where
  "turn_left w = push_bit 1 w OR drop_bit 31 w"

definition turn_right :: "u32 \<Rightarrow> u32" where
  "turn_right w = drop_bit 1 w OR push_bit 31 w"

definition des_rounds :: "u32 list \<Rightarrow> bool \<Rightarrow> u32 \<times> u32 \<Rightarrow> u32 \<times> u32" where
  "des_rounds ks e x =
     (if e then fold (\<lambda>i x. des_two_rounds ks (i + 4) (i + 6) (des_two_rounds ks i (i + 2) x)) [0, 8, 16, 24] x
      else fold (\<lambda>i x. des_two_rounds ks (i - 4) (i - 6) (des_two_rounds ks i (i - 2) x)) [30, 22, 14, 6] x)"

lemma des_encrypt_parts:
  "emu_des_encrypt_int ks e x =
     des_final (map_prod turn_right turn_right (des_rounds ks e (prod.swap (map_prod turn_left turn_left (des_initial x)))))"
  by (simp only: emu_des_encrypt_int_def des_initial_def des_final_def des_rounds_def turn_left_def turn_right_def Let_def
      case_prod_beta prod.swap_def map_prod_def fst_conv snd_conv prod.collapse)

lemma des_initial_final: "des_initial (des_final x) = x" and des_final_initial: "des_final (des_initial x) = x"
  by (simp_all only: des_initial_def des_final_def swap_undone swap_swap)

lemma turns_undone: "map_prod turn_right turn_right (map_prod turn_left turn_left x) = x"
  "map_prod turn_left turn_left (map_prod turn_right turn_right x) = x"
  by (cases x, simp only: map_prod_simp turn_left_def turn_right_def turn_undone turn_undone')+

lemma des_rounds_undone: "des_rounds ks (\<not> e) (prod.swap (des_rounds ks e x)) = prod.swap x"
  by (cases e) (simp_all add: des_rounds_def two_rounds_undone numeral_2_eq_2)

lemma des_encrypt_inverse: "emu_des_encrypt_int ks (\<not> e) (emu_des_encrypt_int ks e x) = x"
  by (simp only: des_encrypt_parts des_initial_final turns_undone des_rounds_undone swap_swap des_final_initial)

lemma get32_bytes: "emu_Get32bits d i = of_be32 (d ! (i + 3)) (d ! (i + 2)) (d ! (i + 1)) (d ! i)"
proof -
  have "push_bit 24 (ucast w) + push_bit 16 (ucast z) + push_bit 8 (ucast y) + ucast x = of_be32 w z y x"
    for w z y x :: u8
  proof -
    have "push_bit 24 (ucast w) + push_bit 16 (ucast z) = (push_bit 24 (ucast w) OR push_bit 16 (ucast z) :: u32)"
      by (rule disjunctive_add) (auto simp: bit_simps no_bit8)
    moreover have "(push_bit 24 (ucast w) OR push_bit 16 (ucast z)) + push_bit 8 (ucast y)
      = (push_bit 24 (ucast w) OR push_bit 16 (ucast z) OR push_bit 8 (ucast y) :: u32)"
      by (rule disjunctive_add [THEN trans]) (auto simp: bit_simps no_bit8 ac_simps)
    moreover have "(push_bit 24 (ucast w) OR push_bit 16 (ucast z) OR push_bit 8 (ucast y)) + ucast x
      = (push_bit 24 (ucast w) OR push_bit 16 (ucast z) OR push_bit 8 (ucast y) OR ucast x :: u32)"
      by (rule disjunctive_add [THEN trans]) (auto simp: bit_simps no_bit8 ac_simps)
    ultimately show ?thesis by (simp only: of_be32_def)
  qed
  then show ?thesis by (simp only: emu_Get32bits_def)
qed

lemma get32_le32: "emu_Get32bits (le32 a @ rest) 0 = a" "emu_Get32bits (le32 a @ le32 b) 4 = b"
  by (simp_all add: get32_bytes le32_def numeral_2_eq_2 numeral_3_eq_3)

lemma le32_of_be32: "le32 (of_be32 w z y x) = [x, y, z, w]"
  by (auto simp: le32_def of_be32_def bit_simps no_bit8 intro!: bit_word_eqI)

lemma le32_get32: "length d = 8 \<Longrightarrow> le32 (emu_Get32bits d 0) @ le32 (emu_Get32bits d 4) = d"
  by (auto simp: length_8 get32_bytes le32_of_be32 numeral_2_eq_2 numeral_3_eq_3)

lemma des_inverse:
  assumes "length data = 8"
  shows "cccam_emu_des ks (\<not> e) (cccam_emu_des ks e data) = data"
proof -
  obtain a b where x: "emu_des_encrypt_int ks e (emu_Get32bits data 0, emu_Get32bits data 4) = (a, b)"
    by (cases "emu_des_encrypt_int ks e (emu_Get32bits data 0, emu_Get32bits data 4)") blast
  then have "emu_des_encrypt_int ks (\<not> e) (a, b) = (emu_Get32bits data 0, emu_Get32bits data 4)"
    using des_encrypt_inverse by metis
  then show ?thesis using x by (simp add: cccam_emu_des_def get32_le32 le32_get32 [OF assms])
qed

subsection \<open>Two-key triple DES\<close>

definition cccam_emu_des_ecb3_decrypt :: "u8 list \<Rightarrow> u8 list \<Rightarrow> u8 list" where
  "cccam_emu_des_ecb3_decrypt key data =
     (let ks1 = cccam_emu_des_set_key key; ks2 = cccam_emu_des_set_key (drop 8 key) in
      cccam_emu_des ks1 False (cccam_emu_des ks2 True (cccam_emu_des ks1 False data)))"

definition cccam_emu_des_ede2_cbc_decrypt :: "u8 list \<Rightarrow> u8 list \<Rightarrow> u8 list \<Rightarrow> nat \<Rightarrow> u8 list \<Rightarrow> u8 list" where
  "cccam_emu_des_ede2_cbc_decrypt iv key1 key2 len data =
     (let ks1 = cccam_emu_des_set_key key1; ks2 = cccam_emu_des_set_key key2 in
      cbc_decrypt_blocks (\<lambda>b. cccam_emu_des ks1 False (cccam_emu_des ks2 True (cccam_emu_des ks1 False b)))
        iv (len div 8) data)"

definition cccam_emu_is_valid_dcw :: "u8 list \<Rightarrow> bool" where
  "cccam_emu_is_valid_dcw cw \<longleftrightarrow> cw ! 3 = cw ! 0 + cw ! 1 + cw ! 2"

text \<open>What the other side does: encrypt, decrypt, encrypt.\<close>

definition des_ede_encrypt :: "u8 list \<Rightarrow> u8 list \<Rightarrow> u8 list \<Rightarrow> u8 list" where
  "des_ede_encrypt key1 key2 b =
     (let ks1 = cccam_emu_des_set_key key1; ks2 = cccam_emu_des_set_key key2 in
      cccam_emu_des ks1 True (cccam_emu_des ks2 False (cccam_emu_des ks1 True b)))"

definition des_ede_decrypt :: "u8 list \<Rightarrow> u8 list \<Rightarrow> u8 list \<Rightarrow> u8 list" where
  "des_ede_decrypt key1 key2 b =
     (let ks1 = cccam_emu_des_set_key key1; ks2 = cccam_emu_des_set_key key2 in
      cccam_emu_des ks1 False (cccam_emu_des ks2 True (cccam_emu_des ks1 False b)))"

lemma length_des [simp]: "length (cccam_emu_des ks e b) = 8"
  by (simp add: cccam_emu_des_def le32_def split: prod.splits)

interpretation ede: block_cipher "des_ede_encrypt key1 key2" "des_ede_decrypt key1 key2" for key1 key2
proof
  fix b :: "u8 list" assume "length b = 8"
  then show "length (des_ede_encrypt key1 key2 b) = 8" "des_ede_decrypt key1 key2 (des_ede_encrypt key1 key2 b) = b"
    using des_inverse [of _ _ True] des_inverse [of _ _ False]
    by (simp_all add: des_ede_encrypt_def des_ede_decrypt_def Let_def)
qed

text \<open>
  The triple DES in CBC decrypts what a sender encrypted with the same two keys and IV, block by block,
  and leaves the bytes behind the last whole block alone.
\<close>

theorem ede_cbc_roundtrip:
  assumes "length iv = 8" "len \<le> length data"
  shows "cccam_emu_des_ede2_cbc_decrypt iv key1 key2 len
      (cbc_encrypt_blocks (des_ede_encrypt key1 key2) iv (len div 8) data) = data"
  using ede.cbc [OF assms(1), of "len div 8" data key1 key2] assms(2)
  by (simp add: cccam_emu_des_ede2_cbc_decrypt_def des_ede_decrypt_def [abs_def] Let_def)

theorem ede_cbc_roundtrip_witness:
  "cccam_emu_des_ede2_cbc_decrypt (replicate 8 1) [1, 2, 3, 4, 5, 6, 7, 8] [8, 7, 6, 5, 4, 3, 2, 1] 17
     (cbc_encrypt_blocks (des_ede_encrypt [1, 2, 3, 4, 5, 6, 7, 8] [8, 7, 6, 5, 4, 3, 2, 1]) (replicate 8 1) (17 div 8)
        (replicate 17 9)) = replicate 17 9"
  by (rule ede_cbc_roundtrip) simp_all

end
