(* ===== verification/Newcamd_Des.thy ===== *)
theory Newcamd_Des
  imports Des_Words
begin

text \<open>
  The Newcamd part of \<open>src/CCshare/cccam3_emu_des.c\<close>: the 14-byte keys spread over two DES keys with parity, the
  block operation \<open>EuroDes\<close> with the Viaccess mask, and the sealing of a message (padding, check byte,
  CBC, IV at the end). \<open>rand()\<close> is the function \<open>rnd\<close> of the number of the call. Shown here: a login key has
  key byte 7 equal to 0, so its messages use the triple DES, a \<open>block_cipher\<close>; a sealed message is opened
  with the same key; and the mask's shift-and-add loop with its 8-bit accumulator is a product modulo 256.
\<close>

subsection \<open>Keys\<close>

definition key_parity :: "u8 \<Rightarrow> u8" where
  "key_parity b = fold (\<lambda>j parity. if bit b j then NOT parity AND 0x01 else parity) [1..<8] 1"

definition ncd_des_key_parity_adjust :: "u8 list \<Rightarrow> u8 list" where
  "ncd_des_key_parity_adjust key = map (\<lambda>b. b OR key_parity b) key"

text \<open>Seven bytes spread over the upper seven bits of eight.\<close>

definition spread_half :: "u8 list \<Rightarrow> u8 list" where
  "spread_half n =
     (n ! 0 AND 0xfe) # map (\<lambda>i. (push_bit (8 - i) (n ! (i - 1)) OR drop_bit i (n ! i)) AND 0xfe) [1..<7] @ [push_bit 1 (n ! 6)]"

definition ncd_des_key_spread :: "u8 list \<Rightarrow> u8 list" where
  "ncd_des_key_spread normal = ncd_des_key_parity_adjust (spread_half normal @ spread_half (drop 7 normal))"

text \<open>\<open>des14[i % 14] ^= key2[i]\<close> for \<open>i < len\<close>.\<close>

definition xor_into :: "u8 list \<Rightarrow> nat \<Rightarrow> u8 list \<Rightarrow> u8 list" where
  "xor_into key2 len des14 = fold (\<lambda>i d. d[i mod 14 := d ! (i mod 14) XOR key2 ! i]) [0..<len] des14"

definition cccam_newcamd_login_key :: "u8 list \<Rightarrow> u8 list \<Rightarrow> nat \<Rightarrow> u8 list" where
  "cccam_newcamd_login_key key1 key2 len =
     (let des16 = ncd_des_key_spread (xor_into key2 len (take 14 key1)) in
      nc_doPC1 (take 8 des16) @ nc_doPC1 (drop 8 des16))"

subsection \<open>The block operation\<close>

text \<open>The loop of \<open>getmask\<close> over the bits of \<open>D\<close>, with \<open>B\<close> in eight bits.\<close>

definition ncd_shift_add :: "u8 \<Rightarrow> u8 \<Rightarrow> u8" where
  "ncd_shift_add D M =
     snd (fold (\<lambda>K (B, D).
       let B = (if D AND 1 = 1 then B + M else B) in
       (drop_bit 1 B, drop_bit 1 D + push_bit 7 (B AND 1))) [0..<8] (0, D))"

definition ncd_getmask :: "u8 list \<Rightarrow> u8 list \<Rightarrow> u8 \<Rightarrow> u8 \<Rightarrow> u8" where
  "ncd_getmask OutData Mask I J =
     (let K = I XOR J;
          (K, DI) = (if K AND 4 = 4 then (K XOR 7, 7 XOR 7) else (K, 7));
          MI = 3 AND J;
          K = (K XOR MI) + MI in
      if K AND 4 = 4 then 0
      else
        let D = OutData ! unat (DI XOR J);
            M1 = Mask ! unat J;
            M = Mask ! unat (J XOR 4) in
        ncd_shift_add D M XOR M1)"

definition ncd_v2mask :: "u8 list \<Rightarrow> u8 list \<Rightarrow> u8 list" where
  "ncd_v2mask cw msk =
     (let step = (\<lambda>i j cw. cw[i := cw ! i XOR ncd_getmask cw msk (of_nat i) (of_nat j)]);
          cw1 = fold (\<lambda>i. fold (step i) [7, 6, 5, 4]) [7, 6, 5, 4, 3, 2, 1, 0] cw in
      fold (\<lambda>i. fold (step i) [0, 1, 2, 3]) [0, 1, 2, 3, 4, 5, 6, 7] cw1)"

definition F_EURO_S2 :: nat where "F_EURO_S2 = 0"
definition F_TRIPLE_DES :: nat where "F_TRIPLE_DES = 1"

definition ncd_EuroDes :: "u8 list \<Rightarrow> u8 list option \<Rightarrow> u8 \<Rightarrow> u8 \<Rightarrow> u8 list \<Rightarrow> u8 list" where
  "ncd_EuroDes key1 key2 desMode operatingMode data =
     (let hash = (operatingMode = NC_DES_ECM_HASH);
          masked = (\<lambda>d. case key2 of None \<Rightarrow> d | Some k \<Rightarrow> ncd_v2mask d k) in
      if key1 ! 7 \<noteq> 0 then
        masked (cccam_emu_nc_des key1 (if hash then NC_DES_ECM_HASH else NC_DES_ECM_CRYPT) (masked data))
      else if bit desMode F_TRIPLE_DES then
        let mode = (if hash then 0 else DES_RIGHT);
            d1 = cccam_emu_nc_des key1 (DES_IP OR mode) data;
            d2 = cccam_emu_nc_des (the key2) (mode XOR DES_RIGHT) d1 in
        cccam_emu_nc_des key1 (mode OR DES_IP_1) d2
      else
        let mode = (if bit desMode F_EURO_S2 then (if hash then DES_IP OR DES_IP_1 else DES_IP OR DES_IP_1 OR DES_RIGHT)
                    else (if hash then NC_DES_ECM_HASH else NC_DES_ECM_CRYPT)) in
        cccam_emu_nc_des key1 mode data)"

definition ncd_flags :: u8 where
  "ncd_flags = push_bit F_EURO_S2 1 OR push_bit F_TRIPLE_DES 1"

subsection \<open>Sealed messages\<close>

text \<open>\<open>(8 - ((len - 1) % 8)) % 8\<close> in C, where the remainder of -1 is -1.\<close>

definition ncd_pad_length :: "nat \<Rightarrow> nat" where
  "ncd_pad_length len = (if len = 0 then 1 else (8 - (len - 1) mod 8) mod 8)"

definition xor_all :: "u8 list \<Rightarrow> u8" where
  "xor_all bs = fold (XOR) bs 0"

definition ncd_seal :: "u8 list \<Rightarrow> u8 list \<Rightarrow> u8 list" where
  "ncd_seal pad buf = buf @ pad @ [xor_all (drop 2 (buf @ pad))]"

text \<open>The bytes of the buffer up to the new length, or \<open>None\<close> for -1.\<close>

definition cccam_newcamd_des_encrypt :: "(nat \<Rightarrow> u8) \<Rightarrow> u8 list option \<Rightarrow> u8 list \<Rightarrow> u8 list option" where
  "cccam_newcamd_des_encrypt rnd deskey buf =
     (case deskey of
        None \<Rightarrow> Some buf
      | Some key \<Rightarrow>
          let n = ncd_pad_length (length buf) in
          if length buf + n + 1 \<ge> 1024 - 8 then None
          else
            let msg = ncd_seal (map rnd [0..<n]) buf;
                ivec = map rnd [n..<n + 8] in
            Some (take 2 msg @
              cbc_encrypt_blocks (ncd_EuroDes key (Some (drop 8 key)) ncd_flags NC_DES_ECM_HASH) ivec
                ((length msg - 2) div 8) (drop 2 msg) @ ivec))"

text \<open>The first \<open>len\<close> bytes of the buffer, or \<open>None\<close> for -1.\<close>

definition cccam_newcamd_des_decrypt :: "u8 list option \<Rightarrow> u8 list \<Rightarrow> u8 list option" where
  "cccam_newcamd_des_decrypt deskey buf =
     (case deskey of
        None \<Rightarrow> Some buf
      | Some key \<Rightarrow>
          if length buf < 2 \<or> (length buf - 2) mod 8 \<noteq> 0 \<or> length buf - 2 < 16 then None
          else
            let len = length buf - 8;
                out = take 2 buf @
                  cbc_decrypt_blocks (ncd_EuroDes key (Some (drop 8 key)) ncd_flags NC_DES_ECM_CRYPT) (drop len buf)
                    ((len - 2) div 8) (drop 2 (take len buf)) in
            if xor_all (drop 2 out) \<noteq> 0 then None else Some out)"

lemma length_doPC1 [simp]: "length (nc_doPC1 d) = 8" "nc_doPC1 d ! 7 = 0"
  by (simp_all add: nc_doPC1_def nth_append)

lemma login_key_7: "cccam_newcamd_login_key k1 k2 n ! 7 = 0"
  by (simp add: cccam_newcamd_login_key_def Let_def nth_append)

lemma triple_des_modes: "bit ncd_flags F_TRIPLE_DES" "opposite (DES_IP OR 0) (DES_RIGHT OR DES_IP_1)"
  "opposite (0 XOR DES_RIGHT) (DES_RIGHT XOR DES_RIGHT)" "opposite (0 OR DES_IP_1) (DES_IP OR DES_RIGHT)"
  unfolding opposite_def by code_simp+

text \<open>The block operation as the two functions call it.\<close>

definition ncd_block :: "u8 list \<Rightarrow> u8 \<Rightarrow> u8 list \<Rightarrow> u8 list" where
  "ncd_block key mode = ncd_EuroDes key (Some (drop 8 key)) ncd_flags mode"

interpretation ncd: block_cipher "ncd_block (cccam_newcamd_login_key k1 k2 n) NC_DES_ECM_HASH"
  "ncd_block (cccam_newcamd_login_key k1 k2 n) NC_DES_ECM_CRYPT" for k1 k2 n
proof
  fix b :: "u8 list" assume b: "length b = 8"
  have modes: "NC_DES_ECM_CRYPT \<noteq> NC_DES_ECM_HASH" by (simp add: NC_DES_ECM_CRYPT_def NC_DES_ECM_HASH_def)
  show "length (ncd_block (cccam_newcamd_login_key k1 k2 n) NC_DES_ECM_HASH b) = 8"
    using b by (simp add: ncd_block_def ncd_EuroDes_def Let_def login_key_7 triple_des_modes)
  show "ncd_block (cccam_newcamd_login_key k1 k2 n) NC_DES_ECM_CRYPT
     (ncd_block (cccam_newcamd_login_key k1 k2 n) NC_DES_ECM_HASH b) = b"
    using b modes
    by (simp only: ncd_block_def ncd_EuroDes_def Let_def login_key_7 triple_des_modes simp_thms if_True if_False option.sel
        nc_des_inverse length_nc_des)
qed

subsection \<open>The mask\<close>

fun shift_add_nat :: "nat \<Rightarrow> nat \<times> nat \<Rightarrow> nat \<times> nat" where
  "shift_add_nat M (B, D) =
     (let B1 = (B + (D mod 2) * M) mod 256 in (B1 div 2, D div 2 + 128 * (B1 mod 2)))"

lemma shift_add_invariant:
  assumes "k < 8" "B mod 2 ^ (8 - k) = (S div 2 ^ k) mod 2 ^ (8 - k)"
    and "D = D0 div 2 ^ k + (S mod 2 ^ k) * 2 ^ (8 - k)" "S = M * (D0 mod 2 ^ k)"
    and "S' = M * (D0 mod 2 ^ Suc k)" "shift_add_nat M (B, D) = (B', D')"
  shows "B' mod 2 ^ (8 - Suc k) = (S' div 2 ^ Suc k) mod 2 ^ (8 - Suc k)"
    and "D' = D0 div 2 ^ Suc k + (S' mod 2 ^ Suc k) * 2 ^ (8 - Suc k)"
proof -
  define p where "p = (2 :: nat) ^ k"
  define q where "q = (2 :: nat) ^ (7 - k)"
  have pq: "p * q = 128" using assms(1) by (simp add: p_def q_def flip: power_add)
  have p0: "0 < p" and q0: "0 < q" by (simp_all add: p_def q_def)
  have e: "8 - k = Suc (7 - k)" using assms(1) by simp
  have pow: "2 ^ k = p" "2 ^ Suc k = 2 * p" "2 ^ (8 - k) = 2 * q" "2 ^ (8 - Suc k) = q"
    by (simp_all add: p_def q_def e)
  define d where "d = (D0 div p) mod 2"
  have D: "D = D0 div p + 2 * ((S mod p) * q)" using assms(3) by (simp add: pow)
  have dD: "D mod 2 = d" unfolding D d_def by simp
  have S': "S' = S + p * (d * M)"
    using assms(4,5) by (simp add: pow d_def mod_mult2_eq mult.commute [of 2 p] distrib_left mult_ac)
  define T where "T = S div p + d * M"
  have T: "S' div p = T" "S' mod p = S mod p" using p0 by (simp_all add: S' T_def)
  define B1 where "B1 = (B + d * M) mod 256"
  have res: "B' = B1 div 2" "D' = D div 2 + 128 * (B1 mod 2)"
    using assms(6) by (simp_all add: Let_def dD B1_def)
  have "B1 mod (2 * q) = (B + d * M) mod (2 * q)"
    unfolding B1_def using pq by (intro mod_mod_cancel) (simp add: dvd_def, metis mult.assoc mult.commute mult_2 numeral_Bit0)
  also have "\<dots> = T mod (2 * q)"
    using assms(2) unfolding T_def pow by (metis mod_add_left_eq)
  finally have B1: "B1 mod (2 * q) = T mod (2 * q)" .
  have half: "x div 2 mod q = x mod (2 * q) div 2" for x :: nat
    by (simp add: mod_mult2_eq)
  have "B' mod q = T div 2 mod q" unfolding res half B1 ..
  moreover have "T div 2 = S' div (2 * p)" unfolding T(1) [symmetric] by (simp add: div_mult2_eq mult.commute)
  ultimately show "B' mod 2 ^ (8 - Suc k) = (S' div 2 ^ Suc k) mod 2 ^ (8 - Suc k)" unfolding pow by simp
  have low: "B1 mod 2 = T mod 2"
    using B1 by (metis dvd_triv_left mod_mod_cancel)
  have "D div 2 = D0 div (2 * p) + (S mod p) * q"
    unfolding D by (simp add: div_mult2_eq mult.commute [of 2 p])
  moreover have "S' mod (2 * p) = S mod p + p * (T mod 2)"
    by (simp add: mult.commute [of 2 p] mod_mult2_eq T)
  ultimately show "D' = D0 div 2 ^ Suc k + (S' mod 2 ^ Suc k) * 2 ^ (8 - Suc k)"
    unfolding res low pow by (simp add: distrib_right) (use pq in \<open>simp add: mult_ac\<close>)
qed

lemma shift_add_rounds:
  assumes "k \<le> 8" "D0 < 256" "fold (\<lambda>_. shift_add_nat M) [0..<k] (0, D0) = (B, D)"
  shows "B mod 2 ^ (8 - k) = (M * (D0 mod 2 ^ k) div 2 ^ k) mod 2 ^ (8 - k)
    \<and> D = D0 div 2 ^ k + (M * (D0 mod 2 ^ k) mod 2 ^ k) * 2 ^ (8 - k)"
  using assms(1,3)
proof (induction k arbitrary: B D)
  case (Suc k)
  obtain B1 D1 where one: "fold (\<lambda>_. shift_add_nat M) [0..<k] (0, D0) = (B1, D1)" by fastforce
  with Suc.prems have "shift_add_nat M (B1, D1) = (B, D)" by simp
  with Suc.IH [OF _ one] shift_add_invariant [of k B1 "M * (D0 mod 2 ^ k)" D1 D0 M _ B D] Suc.prems(1)
  show ?case by simp
qed simp

lemma shift_add_words:
  assumes "(let B = (if D AND 1 = 1 then B + M else B) in (drop_bit 1 B, drop_bit 1 D + push_bit 7 (B AND 1))) = (B', D')"
  shows "shift_add_nat (unat M) (unat B, unat D) = (unat B', unat (D' :: u8))"
proof -
  have half: "unat (drop_bit 1 w) = unat w div 2" for w :: u8
  proof -
    have "drop_bit 1 w = w div 2" using drop_bit_eq_div [of 1 w] by simp
    then show ?thesis by (simp only: unat_div unat_numeral) simp
  qed
  have m: "unat (w AND 1) = unat w mod 2" for w :: u8
    by (simp only: and_one_eq unat_mod) simp
  have odd: "D AND 1 = 1 \<longleftrightarrow> unat D mod 2 = 1"
    by (metis m unat_1 word_unat_eq_iff)
  have top: "unat (push_bit 7 (w AND 1) :: u8) = 128 * (unat w mod 2)" for w :: u8
  proof -
    have "unat (128 * (w AND 1)) = 128 * unat (w AND 1)"
      unfolding unat_word_ariths using m [of w] by simp
    then show ?thesis by (simp add: push_bit_eq_mult m mult.commute)
  qed
  have sum: "unat (drop_bit 1 D + push_bit 7 (w AND 1)) = unat D div 2 + 128 * (unat w mod 2)" for w :: u8
  proof -
    have "unat D div 2 + 128 * (unat w mod 2) < 256"
      using unsigned_less [where ?'a = nat and w = D] by simp
    then show ?thesis by (simp only: unat_word_ariths(1) half top) simp
  qed
  define B1 where "B1 = (if D AND 1 = 1 then B + M else B)"
  have r: "B' = drop_bit 1 B1" "D' = drop_bit 1 D + push_bit 7 (B1 AND 1)"
    using assms unfolding B1_def Let_def by simp_all
  have b: "unat B1 = (unat B + (unat D mod 2) * unat M) mod 256"
  proof (cases "unat D mod 2 = 1")
    case True
    then show ?thesis unfolding B1_def odd by (simp add: unat_word_ariths)
  next
    case False
    then have "unat D mod 2 = 0" by simp
    moreover have "unat B < 256" using unsigned_less [where ?'a = nat and w = B] by simp
    ultimately show ?thesis unfolding B1_def odd by simp
  qed
  show ?thesis unfolding r shift_add_nat.simps Let_def b [symmetric] half sum ..
qed

lemma shift_add_fold:
  assumes "fold (\<lambda>K (B, D). let B = (if D AND 1 = 1 then B + M else B) in
      (drop_bit 1 B, drop_bit 1 D + push_bit 7 (B AND 1))) ks (B, D) = (B', D' :: u8)"
  shows "fold (\<lambda>_. shift_add_nat (unat M)) ks (unat B, unat D) = (unat B', unat D')"
  using assms
proof (induction ks arbitrary: B D)
  case (Cons k ks)
  obtain B1 D1 where one: "(let B = (if D AND 1 = 1 then B + M else B) in
      (drop_bit 1 B, drop_bit 1 D + push_bit 7 (B AND 1))) = (B1, D1)" by fastforce
  with Cons.prems have "fold (\<lambda>K (B, D). let B = (if D AND 1 = 1 then B + M else B) in
      (drop_bit 1 B, drop_bit 1 D + push_bit 7 (B AND 1))) ks (B1, D1) = (B', D')"
    by (simp only: fold.simps comp_apply prod.case)
  from Cons.IH [OF this] shift_add_words [OF one] show ?case by simp
qed simp

lemma ncd_shift_add_mult: "ncd_shift_add D M = D * M"
proof -
  obtain B' D' where f: "fold (\<lambda>K (B, D). let B = (if D AND 1 = 1 then B + M else B) in
      (drop_bit 1 B, drop_bit 1 D + push_bit 7 (B AND 1))) [0..<8] (0, D) = (B', D' :: u8)"
    by (metis (no_types, lifting) surj_pair)
  have "unat D < 256" using unsigned_less [where ?'a = nat and w = D] by simp
  with shift_add_rounds [of 8 "unat D" "unat M" "unat B'" "unat D'"] shift_add_fold [OF f]
  have "unat D' = unat M * unat D mod 256" by simp
  then have "D' = D * M" by (simp add: word_unat_eq_iff unat_word_ariths mult.commute)
  then show ?thesis unfolding ncd_shift_add_def f by simp
qed

lemma xor_all_append: "xor_all (bs @ [x]) = xor_all bs XOR x"
  by (simp add: xor_all_def xor.commute)

lemma pad_length: "0 < n \<Longrightarrow> (n + ncd_pad_length n) mod 8 = 1"
proof -
  assume "0 < n"
  then obtain m where m: "n = Suc m" by (cases n) auto
  have "(m mod 8 + (8 - m mod 8) mod 8) mod 8 = 0"
    using less_8 [of "m mod 8"] by auto
  then have "(m + (8 - m mod 8) mod 8) mod 8 = 0" by (simp add: mod_add_left_eq)
  then show ?thesis unfolding m ncd_pad_length_def by (simp add: mod_Suc)
qed

lemma pad_length_less: "ncd_pad_length n < 8"
  by (simp add: ncd_pad_length_def)

lemma seal_length: "0 < length buf \<Longrightarrow> length (ncd_seal (map rnd [0..<ncd_pad_length (length buf)]) buf) mod 8 = 2"
  using pad_length [of "length buf"] by (simp add: ncd_seal_def mod_Suc)

text \<open>
  A message of 2 to 1009 bytes sealed with a login key is opened with the same key, whatever the padding
  and the IV: the receiver gets it back with at most 7 bytes of padding and the check byte behind it.
\<close>

lemma newcamd_des_roundtrip:
  assumes "2 \<le> length buf" "length buf \<le> 1009"
  shows "\<exists>c pad. cccam_newcamd_des_encrypt rnd (Some (cccam_newcamd_login_key k1 k2 n)) buf = Some c
     \<and> length c \<le> 1024 \<and> (length c - 2) mod 8 = 0
     \<and> length pad < 8
     \<and> cccam_newcamd_des_decrypt (Some (cccam_newcamd_login_key k1 k2 n)) c = Some (ncd_seal pad buf)"
proof -
  let ?key = "cccam_newcamd_login_key k1 k2 n" and ?p = "ncd_pad_length (length buf)"
  define pad where "pad = map rnd [0..<?p]"
  define iv where "iv = map rnd [?p..<?p + 8]"
  define msg where "msg = ncd_seal pad buf"
  have iv: "length iv = 8" by (simp add: iv_def)
  have lmsg: "length msg = length buf + ?p + 1" by (simp add: msg_def ncd_seal_def pad_def)
  have m8: "length msg mod 8 = 2" using seal_length [of buf rnd] assms by (cases buf) (simp_all add: msg_def pad_def)
  have "(length buf + ?p) mod 8 = 1" using pad_length [of "length buf"] assms by (cases buf) simp_all
  then have small: "length msg < 1024 - 8" "10 \<le> length msg"
  proof -
    obtain j where "length buf + ?p = 8 * j + 1"
      using \<open>(length buf + ?p) mod 8 = 1\<close> by (metis div_mod_decomp mult.commute)
    moreover from this have "j < 127" "0 < j"
      using assms pad_length_less [of "length buf"] by linarith+
    ultimately show "length msg < 1024 - 8" "10 \<le> length msg"
      unfolding lmsg by simp_all
  qed
  define k where "k = (length msg - 2) div 8"
  have k: "8 * k = length msg - 2"
  proof -
    have "(length msg - 2) mod 8 = 0" using m8 small(2) by (metis mod_eq_dvd_iff_nat dvd_imp_mod_0 le_trans numeral_le_iff semiring_norm(68,69,71) mod_mod_trivial)
    then show ?thesis unfolding k_def by auto
  qed
  define body where "body = cbc_encrypt_blocks (ncd_block ?key NC_DES_ECM_HASH) iv k (drop 2 msg)"
  have lbody: "length body = length msg - 2"
    unfolding body_def using ncd.length_cbc_encrypt [OF iv, of k "drop 2 msg"] k by simp
  define c where "c = take 2 msg @ body @ iv"
  have enc: "cccam_newcamd_des_encrypt rnd (Some ?key) buf = Some c"
    using small unfolding cccam_newcamd_des_encrypt_def lmsg
    by (simp add: Let_def c_def body_def k_def msg_def pad_def iv_def ncd_block_def [abs_def])
  have lc: "length c = length msg + 8" using lbody iv small by (simp add: c_def)
  have c8: "(length c - 2) mod 8 = 0" using m8 small unfolding lc by presburger
  have parts: "take (length msg) c = take 2 msg @ body" "drop (length msg) c = iv"
    using lbody small by (simp_all add: c_def)
  have zero: "xor_all (drop 2 msg) = 0"
  proof -
    have "drop 2 msg = drop 2 (buf @ pad) @ [xor_all (drop 2 (buf @ pad))]"
      using assms by (simp add: msg_def ncd_seal_def)
    then show ?thesis by (simp only: xor_all_append xor_self_eq)
  qed
  have out: "cbc_decrypt_blocks (ncd_block ?key NC_DES_ECM_CRYPT) iv k body = drop 2 msg"
    unfolding body_def using ncd.cbc [OF iv, of k "drop 2 msg"] k by simp
  have two: "take 2 c = take 2 msg" using small by (simp add: c_def)
  have "cccam_newcamd_des_decrypt (Some ?key) c = Some msg"
  proof -
    have l: "length c - 8 = length msg" "(length msg - 2) div 8 = k" using lc by (simp_all add: k_def)
    have body: "drop 2 (take 2 msg @ body) = body" using small by simp
    have ok: "\<not> (length c < 2 \<or> (length c - 2) mod 8 \<noteq> 0 \<or> length c - 2 < 16)"
      using c8 small unfolding lc by simp
    show ?thesis
      unfolding cccam_newcamd_des_decrypt_def option.case if_not_P [OF ok] Let_def l parts body two
        ncd_block_def [symmetric] out append_take_drop_id zero by simp
  qed
  then show ?thesis
    using enc c8 lc small pad_length_less [of "length buf"]
    by (intro exI [of _ c] exI [of _ pad]) (simp add: msg_def pad_def)
qed

end
