(* ===== verification/Newcamd.thy ===== *)
theory Newcamd
  imports Newcamd_Des Server_Recovery
begin

text \<open>
  The Newcamd server, \<open>src/network/cccam3_newcamd.c\<close>, and the part of \<open>src/core/cccam3_server.c\<close> that reads its
  messages. MD5 is the function \<open>md5\<close>; the bytes of \<open>rand()\<close> for a message are \<open>rnd\<close>; the configuration is passed
  as an argument. \<open>None\<close> as the result of a handler is a call that does not return or that reads through a dangling
  pointer. Shown here: which messages the server accepts at all, for which passwords \<open>md5_crypt\<close> returns, what a
  login that succeeds has checked and left, and that what the server sends is read back by a client with the same key.
\<close>

subsection \<open>State\<close>

record newcamd_config =
  nc_des_key :: "u8 list"
  nc_caid :: u16

record ncd_session =
  ns_state :: nat
  ns_login_key :: "u8 list"
  ns_session_key :: "u8 list"
  ns_session_key_alt :: "u8 list"
  ns_key_mode :: nat
  ns_msg_id :: u16
  ns_username :: string
  ns_client_id :: u32
  ns_last_keepalive :: time_t

record ncd_msg =
  nm_cmd :: u8
  nm_msg_id :: u16
  nm_sid :: u16
  nm_data :: "u8 list option"
  nm_data_len :: nat

definition newcamd_config_initial :: newcamd_config where
  "newcamd_config_initial = \<lparr>nc_des_key = [1, 2, 3, 4, 5, 6, 7, 8, 9, 10, 11, 12, 13, 14], nc_caid = 0\<rparr>"

definition cccam_newcamd_set_des_key :: "u8 list option \<Rightarrow> newcamd_config \<Rightarrow> newcamd_config" where
  "cccam_newcamd_set_des_key key14 cfg = (case key14 of None \<Rightarrow> cfg | Some k \<Rightarrow> cfg\<lparr>nc_des_key := take 14 k\<rparr>)"

definition cccam_newcamd_set_caid :: "u16 \<Rightarrow> newcamd_config \<Rightarrow> newcamd_config" where
  "cccam_newcamd_set_caid caid cfg = cfg\<lparr>nc_caid := caid\<rparr>"

definition session_zero :: "u32 \<Rightarrow> ncd_session" where
  "session_zero client_id = \<lparr>ns_state = 0, ns_login_key = replicate 16 0, ns_session_key = replicate 16 0,
     ns_session_key_alt = replicate 16 0, ns_key_mode = 0, ns_msg_id = 0, ns_username = [], ns_client_id = client_id,
     ns_last_keepalive = 0\<rparr>"

definition cccam_newcamd_session_reset :: "ncd_session \<Rightarrow> ncd_session" where
  "cccam_newcamd_session_reset s = session_zero 0"

definition NCD_MAX_MSG :: nat where "NCD_MAX_MSG = 1024"
definition NCD_MSG_LOGIN :: u8 where "NCD_MSG_LOGIN = 0xE0"
definition NCD_MSG_LOGIN_ACK :: u8 where "NCD_MSG_LOGIN_ACK = 0xE1"
definition NCD_MSG_LOGIN_NAK :: u8 where "NCD_MSG_LOGIN_NAK = 0xE2"
definition NCD_MSG_CARD_REQ :: u8 where "NCD_MSG_CARD_REQ = 0xE3"
definition NCD_MSG_CARD_DATA :: u8 where "NCD_MSG_CARD_DATA = 0xE4"
definition NCD_MSG_KEEPALIVE :: u8 where "NCD_MSG_KEEPALIVE = 0xFD"
definition NCD_MSG_KEEPALIVE_ACK :: u8 where "NCD_MSG_KEEPALIVE_ACK = 0xFE"

subsection \<open>MD5-crypt\<close>

definition itoa64 :: string where
  "itoa64 = ''./0123456789ABCDEFGHIJKLMNOPQRSTUVWXYZabcdefghijklmnopqrstuvwxyz''"

fun md5_to64 :: "nat \<Rightarrow> nat \<Rightarrow> string" where
  "md5_to64 v 0 = []"
| "md5_to64 v (Suc n) = itoa64 ! (v mod 64) # md5_to64 (v div 64) n"

partial_function (option) md5_fill :: "u8 list \<Rightarrow> u32 \<Rightarrow> u8 list option" where
  "md5_fill digest i =
     (if i = 0 then Some []
      else Option.bind (md5_fill digest (i - 16)) (\<lambda>rest. Some (take (if i > 16 then 16 else unat i) digest @ rest)))"

fun md5_bits :: "nat \<Rightarrow> u8 list \<Rightarrow> nat \<Rightarrow> u8 list" where
  "md5_bits 0 pw i = []"
| "md5_bits (Suc n) pw i = (if i = 0 then [] else (if odd i then [0] else take 1 pw) @ md5_bits n pw (i div 2))"

definition md5_round :: "(u8 list \<Rightarrow> u8 list) \<Rightarrow> u8 list \<Rightarrow> u8 list \<Rightarrow> nat \<Rightarrow> u8 list \<Rightarrow> u8 list" where
  "md5_round md5 pw salt i digest =
     md5 ((if odd i then pw else digest) @ (if i mod 3 \<noteq> 0 then salt else []) @ (if i mod 7 \<noteq> 0 then pw else [])
       @ (if odd i then digest else pw))"

definition md5_group :: "u8 list \<Rightarrow> nat \<Rightarrow> nat \<Rightarrow> nat \<Rightarrow> string" where
  "md5_group d a b c = md5_to64 (65536 * unat (d ! a) + 256 * unat (d ! b) + unat (d ! c)) 4"

definition md5_crypt :: "(u8 list \<Rightarrow> u8 list) \<Rightarrow> string \<Rightarrow> string \<Rightarrow> string option" where
  "md5_crypt md5 pw salt =
     (let pw_len = (of_nat (length pw) :: u32); pwb = take (unat pw_len) (to_bytes pw); salt_buf = take 8 salt; sb = to_bytes salt_buf; magic = ''$1$'';
          digest0 = md5 (pwb @ sb @ pwb) in
      case md5_fill digest0 pw_len of
        None \<Rightarrow> None
      | Some fill \<Rightarrow>
          let digest1 = md5 (pwb @ to_bytes magic @ sb @ fill @ md5_bits 32 (to_bytes pw) (unat pw_len));
              d = fold (md5_round md5 pwb sb) [0..<1000] digest1 in
          Some (magic @ salt_buf @ ''$'' @ md5_group d 0 6 12 @ md5_group d 1 7 13 @ md5_group d 2 8 14 @ md5_group d 3 9 15
            @ md5_group d 4 10 5 @ md5_to64 (unat (d ! 11)) 2))"

subsection \<open>Messages\<close>

text \<open>The session is cleared first, so what the caller stored in it is lost; \<open>init_seq\<close> is random.\<close>

definition cccam_newcamd_session_start ::
  "newcamd_config \<Rightarrow> u8 list \<Rightarrow> remote_io \<Rightarrow> int \<times> ncd_session \<times> remote_io" where
  "cccam_newcamd_session_start cfg init_seq io =
     (case remote_send init_seq io of (sent, io1) \<Rightarrow>
        if \<not> sent then (-1, session_zero 0, io1)
        else
          let key = cccam_newcamd_login_key init_seq (nc_des_key cfg) 14 in
          (0, (session_zero 0)\<lparr>ns_login_key := key, ns_session_key := key\<rparr>, io1))"

definition ncd_send_message ::
  "(nat \<Rightarrow> u8) \<Rightarrow> ncd_session \<Rightarrow> u16 \<Rightarrow> u8 \<Rightarrow> u8 list \<Rightarrow> u16 \<Rightarrow> remote_io \<Rightarrow> int \<times> remote_io" where
  "ncd_send_message rnd s msg_id cmd data sid io =
     (let data_len = length data in
      if data_len > 0xFFF \<or> data_len + 11 + 8 > NCD_MAX_MSG then (-1, io)
      else
        let netbuf = [0, 0] @ be16 msg_id @ be16 sid @ [0, 0, cmd, of_nat (data_len div 256) AND 0x0F, of_nat data_len] @ data in
        (case cccam_newcamd_des_encrypt rnd (Some (ns_session_key s)) netbuf of
           None \<Rightarrow> (-1, io)
         | Some buf \<Rightarrow>
             let buf1 = be16 (of_nat (length buf - 2)) @ drop 2 buf in
             (case remote_send buf1 io of (sent, io1) \<Rightarrow> (if sent then 0 else -1, io1))))"

text \<open>
  \<open>msg->data\<close> is left pointing into \<open>buf\<close>, a local array of this function: when the caller has
  the message, the pointer is dangling, which \<open>nm_data = None\<close> says. The function returns 0 with \<open>Some\<close>
  and -1 with \<open>None\<close>.
\<close>

definition ncd_decrypt_message :: "u8 list \<Rightarrow> u8 list \<Rightarrow> ncd_msg option" where
  "ncd_decrypt_message raw key =
     (if length raw < 16 \<or> length raw > NCD_MAX_MSG then None
      else (case cccam_newcamd_des_decrypt (Some key) raw of
          None \<Rightarrow> None
        | Some buf \<Rightarrow>
            if length buf < 11 then None
            else
              let data_len = unat (of_be16 (buf ! 9 AND 0x0F) (buf ! 10)) in
              if 11 + data_len > length buf then None
              else Some \<lparr>nm_cmd = buf ! 8, nm_msg_id = of_be16 (buf ! 2) (buf ! 3), nm_sid = of_be16 (buf ! 4) (buf ! 5),
                         nm_data = None, nm_data_len = data_len\<rparr>))"

subsection \<open>Login\<close>

text \<open>The two strings of the login: the user name (at most 63 bytes) and the password (at most 127).\<close>

definition ncd_login_fields :: "u8 list \<Rightarrow> (string \<times> string) option" where
  "ncd_login_fields data =
     (let user = takeWhile (\<lambda>b. b \<noteq> 0) data;
          user_len = length user in
      if user_len = 0 \<or> user_len \<ge> 64 \<or> user_len \<ge> length data then None
      else
        let pass_off = user_len + 1 in
        if pass_off \<ge> length data then None
        else
          let pass = takeWhile (\<lambda>b. b \<noteq> 0) (drop pass_off data);
              pass_len = length pass in
          if pass_len = 0 \<or> pass_len \<ge> 128 \<or> pass_len \<ge> length data - pass_off then None
          else Some (of_bytes user, of_bytes pass))"

definition ncd_salt :: string where "ncd_salt = ''abcdefgh''"

text \<open>The comparison with the stored password; \<open>None\<close> when \<open>md5_crypt\<close> does not return.\<close>

definition ncd_check_password :: "(u8 list \<Rightarrow> u8 list) \<Rightarrow> string \<Rightarrow> string \<Rightarrow> bool option" where
  "ncd_check_password md5 stored password =
     (if stored = password then Some True
      else map_option (\<lambda>expected. expected = password) (md5_crypt md5 stored ncd_salt))"

definition ncd_login_account ::
  "ossl \<Rightarrow> (u8 list \<Rightarrow> u8 list) \<Rightarrow> bool \<Rightarrow> bool \<Rightarrow> time_t \<Rightarrow> string \<Rightarrow> string \<Rightarrow> server \<Rightarrow> (bool \<times> string \<times> server) option" where
  "ncd_login_account lib md5 mem writable now username password w =
     (case find_user username (sv_users w) of
        Some user \<Rightarrow>
          let stored = c_strncpy 128 (us_password user) in
          if us_enabled user = 0 then Some (False, stored, w)
          else map_option (\<lambda>ok. (ok, stored, w)) (ncd_check_password md5 stored password)
      | None \<Rightarrow>
          if um_auto_register (sv_users w) then
            (case cccam_user_manager_auto_register lib mem now writable username password (sv_users w) (sv_files w) of
               (rc, users, files) \<Rightarrow> Some (rc = 0, [], w\<lparr>sv_users := users, sv_files := files\<rparr>))
          else Some (False, [], w))"

definition ncd_session_keys ::
  "newcamd_config \<Rightarrow> time_t \<Rightarrow> string \<Rightarrow> string \<Rightarrow> string \<Rightarrow> ncd_session \<Rightarrow> ncd_session" where
  "ncd_session_keys cfg now username stored expected s =
     s\<lparr>ns_session_key := cccam_newcamd_login_key (nc_des_key cfg) (to_bytes stored) (length stored),
       ns_session_key_alt := cccam_newcamd_login_key (nc_des_key cfg) (to_bytes expected) (length expected),
       ns_key_mode := 0, ns_state := 1, ns_username := c_strncpy 64 username, ns_last_keepalive := now\<rparr>"

definition ncd_handle_login ::
  "ossl \<Rightarrow> (u8 list \<Rightarrow> u8 list) \<Rightarrow> (nat \<Rightarrow> u8) \<Rightarrow> bool \<Rightarrow> bool \<Rightarrow> time_t \<Rightarrow> newcamd_config \<Rightarrow> ncd_msg \<Rightarrow> ncd_session \<Rightarrow>
   server \<Rightarrow> remote_io \<Rightarrow> (int \<times> ncd_session \<times> server \<times> remote_io) option" where
  "ncd_handle_login lib md5 rnd mem writable now cfg msg s w io =
     (if nm_data_len msg < 2 then Some (-1, s, w, io)
      else (case nm_data msg of
          None \<Rightarrow> None
        | Some mem_data \<Rightarrow>
            (case ncd_login_fields (take (nm_data_len msg) mem_data) of
               None \<Rightarrow> Some (-1, s, w, io)
             | Some (username, password) \<Rightarrow>
                 (case ncd_login_account lib md5 mem writable now username password w of
                    None \<Rightarrow> None
                  | Some (auth_ok, stored, w1) \<Rightarrow>
                      if \<not> auth_ok then
                        Some (-1, s, w1, snd (ncd_send_message rnd s (nm_msg_id msg) NCD_MSG_LOGIN_NAK [] 0 io))
                      else (case ncd_send_message rnd s (nm_msg_id msg) NCD_MSG_LOGIN_ACK [] 0 io of (rc, io1) \<Rightarrow>
                        if rc \<noteq> 0 then Some (-1, s, w1, io1)
                        else (case md5_crypt md5 stored ncd_salt of
                            None \<Rightarrow> None
                          | Some expected \<Rightarrow> Some (0, ncd_session_keys cfg now username stored expected s, w1, io1)))))))"

subsection \<open>Card and ECM requests\<close>

definition ncd_handle_card_req ::
  "(nat \<Rightarrow> u8) \<Rightarrow> newcamd_config \<Rightarrow> ncd_msg \<Rightarrow> ncd_session \<Rightarrow> remote_io \<Rightarrow> int \<times> remote_io" where
  "ncd_handle_card_req rnd cfg msg s io =
     ncd_send_message rnd s (nm_msg_id msg) NCD_MSG_CARD_DATA ([1] @ be16 (nc_caid cfg) @ replicate 7 0) 0 io"

text \<open>\<open>request.ecm_data\<close> holds 256 bytes: a longer section is written behind it.\<close>

definition ncd_ecm_request :: "newcamd_config \<Rightarrow> ncd_msg \<Rightarrow> ncd_session \<Rightarrow> users \<Rightarrow> ecm_request option" where
  "ncd_ecm_request cfg msg s users =
     (let sec_len = nm_data_len msg + 1 in
      case nm_data msg of
        None \<Rightarrow> None
      | Some d \<Rightarrow>
          let section_bytes = [nm_cmd msg, 0x30 OR (of_nat (sec_len div 256) AND 0x0F), of_nat sec_len] @ take (nm_data_len msg) d in
          if nm_data_len msg + 3 > ECM_MAX_SIZE then None
          else Some \<lparr>rq_caid = nc_caid cfg, rq_provid = 0, rq_sid = nm_sid msg,
                     rq_data = section_bytes @ replicate (ECM_MAX_SIZE - (nm_data_len msg + 3)) 0,
                     rq_len = of_nat (nm_data_len msg + 3), rq_client_id = ns_client_id s,
                     rq_hop = (case cccam_user_manager_get_max_hops (ns_username s) users of None \<Rightarrow> 3 | Some h \<Rightarrow> h)\<rparr>)"

definition ncd_handle_ecm ::
  "ossl \<Rightarrow> (nat \<Rightarrow> u8) \<Rightarrow> bool \<Rightarrow> time_t \<Rightarrow> newcamd_config \<Rightarrow> ncd_msg \<Rightarrow> ncd_session \<Rightarrow> server \<Rightarrow> remote_io \<Rightarrow>
   (int \<times> server \<times> remote_io) option" where
  "ncd_handle_ecm lib rnd mem now cfg msg s w io =
     (if nm_data_len msg < 8 \<or> nm_data_len msg > ECM_MAX_SIZE then Some (0, w, io)
      else (case ncd_ecm_request cfg msg s (sv_users w) of
          None \<Rightarrow> None
        | Some rq \<Rightarrow>
            (case cccam_ecm_process lib (sc_allowed_modes (sv_config w)) mem now rq (sv_ecm w) of
               None \<Rightarrow> None
             | Some (rc, resp, e) \<Rightarrow>
                 let w1 = w\<lparr>sv_ecm := e\<rparr>;
                     cw = (case resp of Some r \<Rightarrow> if rc = 0 \<and> rs_found r then Some (take 16 (rs_cw r)) else None | None \<Rightarrow> None) in
                 (case ncd_send_message rnd s (nm_msg_id msg) (nm_cmd msg) (case cw of Some c \<Rightarrow> c | None \<Rightarrow> []) 0 io of
                    (sent, io1) \<Rightarrow> Some (sent, register_ecm (ns_username s) (cw \<noteq> None) w1, io1)))))"

subsection \<open>A message\<close>

text \<open>Which key opens the message: before the login the login key, then the session key or its variant.\<close>

definition ncd_open_message :: "u8 list \<Rightarrow> ncd_session \<Rightarrow> (ncd_msg \<times> ncd_session) option" where
  "ncd_open_message raw s =
     (if ns_state s = 0 then map_option (\<lambda>m. (m, s)) (ncd_decrypt_message raw (ns_login_key s))
      else (case ncd_decrypt_message raw (ns_session_key s) of
          Some m \<Rightarrow> Some (m, s)
        | None \<Rightarrow>
            if ns_key_mode s = 0
            then map_option (\<lambda>m. (m, s\<lparr>ns_key_mode := 1\<rparr>)) (ncd_decrypt_message raw (ns_session_key_alt s))
            else None))"

definition ncd_dispatch ::
  "(time_t \<Rightarrow> u16 \<Rightarrow> u8 list \<Rightarrow> engines \<Rightarrow> engines option) \<Rightarrow> ossl \<Rightarrow> (u8 list \<Rightarrow> u8 list) \<Rightarrow> (nat \<Rightarrow> u8) \<Rightarrow> bool \<Rightarrow> bool \<Rightarrow> time_t \<Rightarrow>
   newcamd_config \<Rightarrow> ncd_msg \<Rightarrow> ncd_session \<Rightarrow> server \<Rightarrow> remote_io \<Rightarrow> (int \<times> ncd_session \<times> server \<times> remote_io) option" where
  "ncd_dispatch emu lib md5 rnd mem writable now cfg msg s w io =
     (let reply = (\<lambda>cmd s w. case ncd_send_message rnd s (nm_msg_id msg) cmd [] 0 io of (rc, io1) \<Rightarrow> (rc, s, w, io1)) in
      if nm_cmd msg = NCD_MSG_LOGIN then ncd_handle_login lib md5 rnd mem writable now cfg msg s w io
      else if nm_cmd msg = NCD_MSG_CARD_REQ then
        (if ns_state s \<noteq> 1 then Some (-1, s, w, io)
         else case ncd_handle_card_req rnd cfg msg s io of (rc, io1) \<Rightarrow> Some (rc, s, w, io1))
      else if nm_cmd msg = 0x80 \<or> nm_cmd msg = 0x81 then
        (if ns_state s \<noteq> 1 then Some (-1, s, w, io)
         else map_option (\<lambda>(rc, w1, io1). (rc, s, w1, io1)) (ncd_handle_ecm lib rnd mem now cfg msg s w io))
      else if nm_cmd msg = NCD_MSG_KEEPALIVE then Some (reply NCD_MSG_KEEPALIVE_ACK (s\<lparr>ns_last_keepalive := now\<rparr>) w)
      else if nm_cmd msg = 0xEB then
        (if ns_state s = 1 \<and> nm_data_len msg \<ge> 3 then
           (case nm_data msg of
              None \<Rightarrow> None
            | Some d \<Rightarrow> map_option (\<lambda>(n, e). reply 0xEB s (w\<lparr>sv_ecm := e\<rparr>))
                (cccam_ecm_forward_emm emu lib (sc_allowed_modes (sv_config w)) now (nc_caid cfg) 0 (take (nm_data_len msg) d) (sv_ecm w)))
         else Some (reply 0xEB s w))
      else Some (0, s, w, io))"

definition cccam_newcamd_process ::
  "(time_t \<Rightarrow> u16 \<Rightarrow> u8 list \<Rightarrow> engines \<Rightarrow> engines option) \<Rightarrow> ossl \<Rightarrow> (u8 list \<Rightarrow> u8 list) \<Rightarrow> (nat \<Rightarrow> u8) \<Rightarrow> bool \<Rightarrow> bool \<Rightarrow> time_t \<Rightarrow>
   newcamd_config \<Rightarrow> u8 list \<Rightarrow> ncd_session \<Rightarrow> server \<Rightarrow> remote_io \<Rightarrow> (int \<times> ncd_session \<times> server \<times> remote_io) option" where
  "cccam_newcamd_process emu lib md5 rnd mem writable now cfg raw s w io =
     (case ncd_open_message raw s of
        None \<Rightarrow> Some (-1, s, w, io)
      | Some (msg, s1) \<Rightarrow> ncd_dispatch emu lib md5 rnd mem writable now cfg msg (s1\<lparr>ns_msg_id := nm_msg_id msg\<rparr>) w io)"

text \<open>
  The server's side: the two length bytes are read and not passed on. The client is destroyed with its
  session; \<open>None\<close> in place of a session says so.
\<close>

definition handle_newcamd_message ::
  "(time_t \<Rightarrow> u16 \<Rightarrow> u8 list \<Rightarrow> engines \<Rightarrow> engines option) \<Rightarrow> ossl \<Rightarrow> (u8 list \<Rightarrow> u8 list) \<Rightarrow> (nat \<Rightarrow> u8) \<Rightarrow> bool \<Rightarrow> bool \<Rightarrow> time_t \<Rightarrow>
   newcamd_config \<Rightarrow> nat \<Rightarrow> ncd_session \<Rightarrow> server \<Rightarrow> remote_io \<Rightarrow> (ncd_session option \<times> server \<times> remote_io) option" where
  "handle_newcamd_message emu lib md5 rnd mem writable now cfg a s w io =
     (let destroy = (\<lambda>w io. map_option (\<lambda>w1. (None, w1, io)) (server_destroy_client a w)) in
      case recv_exact 2 io of
        (None, io1) \<Rightarrow> destroy w io1
      | (Some len_hdr, io1) \<Rightarrow>
          let payload_len = unat (of_be16 (len_hdr ! 0) (len_hdr ! 1)) in
          if payload_len > NCD_MAX_MSG then destroy w io1
          else (case recv_exact payload_len io1 of
              (None, io2) \<Rightarrow> destroy w io2
            | (Some buffer, io2) \<Rightarrow>
                (case cccam_newcamd_process emu lib md5 rnd mem writable now cfg buffer s w io2 of
                   None \<Rightarrow> None
                 | Some (rc, s1, w1, io3) \<Rightarrow> if rc \<noteq> 0 then destroy w1 io3 else Some (Some s1, w1, io3))))"

subsection \<open>Connections\<close>

text \<open>
  One socket accepted on the Newcamd port; \<open>mem\<close> and \<open>mem2\<close> are the outcomes of the two allocations and \<open>thread\<close>
  that of \<open>pthread_create\<close>. The result is the client that got a thread, with its session.
\<close>

definition newcamd_accept ::
  "newcamd_config \<Rightarrow> u8 list \<Rightarrow> bool \<Rightarrow> bool \<Rightarrow> nat \<Rightarrow> bool \<Rightarrow> time_t \<Rightarrow> int \<Rightarrow> u32 \<Rightarrow> server \<Rightarrow> remote_io \<Rightarrow>
   ((nat \<times> ncd_session) option \<times> server \<times> remote_io) option" where
  "newcamd_accept cfg init_seq mem mem2 a thread now client_fd addr w io =
     (if \<not> server_ip_allowed (sv_ips w) addr then Some (None, w, io)
      else (case cccam_load_balancer_allow_connection (sv_optimizer w) of (ok, opt) \<Rightarrow>
        let w1 = w\<lparr>sv_optimizer := opt\<rparr> in
        if ok = 0 then Some (None, w1, io)
        else (case cccam_client_create mem a now client_fd addr (sv_pool w1) of
            (None, p) \<Rightarrow>
              Some (None, (set_pool p w1)\<lparr>sv_optimizer := cccam_load_balancer_release_connection (sv_optimizer w1)\<rparr>, io)
          | (Some c, p) \<Rightarrow>
              (case pl_heap p c of
                 None \<Rightarrow> None
               | Some client \<Rightarrow>
                   let w2 = set_client c (client\<lparr>cl_is_newcamd := True\<rparr>) (set_pool p w1) in
                   (case if mem2 then cccam_newcamd_session_start cfg init_seq io else (-1, session_zero 0, io) of
                      (rc, session, io1) \<Rightarrow>
                        if rc \<noteq> 0 then map_option (\<lambda>w3. (None, w3, io1)) (server_destroy_client c w2)
                        else (case cccam_client_ref c (sv_pool w2) of
                            None \<Rightarrow> None
                          | Some (_, p2) \<Rightarrow>
                              let w3 = set_pool p2 w2 in
                              if thread then Some (Some (c, session), w3, io1)
                              else (case cccam_client_unref c (sv_pool w3) of
                                  None \<Rightarrow> None
                                | Some p3 \<Rightarrow>
                                    map_option (\<lambda>w4. (None, w4, io1)) (server_destroy_client c (set_pool p3 w3)))))))))"

subsection \<open>MD5-crypt returns\<close>

lemma wrap_16: "i \<noteq> 0 \<Longrightarrow> unat (i :: u32) mod 16 = 0 \<Longrightarrow> unat (i - 16) + 16 = unat i"
proof -
  assume i: "i \<noteq> 0" "unat i mod 16 = 0"
  then have "unat i \<noteq> 0" by (simp add: unat_eq_zero)
  with i(2) have "16 \<le> unat i" by presburger
  then have "16 \<le> i" by (simp add: word_le_nat_alt)
  then have "unat (i - 16) = unat i - unat (16 :: u32)" by (rule unat_sub)
  with \<open>16 \<le> unat i\<close> show ?thesis by simp
qed

lemma md5_fill_returns: "unat i = 16 * n \<Longrightarrow> \<exists>r. md5_fill digest i = Some r"
proof (induction n arbitrary: i)
  case 0
  then show ?case by (simp add: unat_eq_zero md5_fill.simps [of _ 0])
next
  case (Suc n)
  then have "i \<noteq> 0" by auto
  moreover have "unat (i - 16) = 16 * n" using wrap_16 [OF \<open>i \<noteq> 0\<close>] Suc.prems by simp
  ultimately show ?case using Suc.IH [of "i - 16"] md5_fill.simps [of digest i] by auto
qed

lemma unat_minus_16: "unat (i - 16 :: u32) mod 16 = unat i mod 16"
proof -
  have "unat i = unat (i - 16 + 16)" by simp
  also have "\<dots> = (unat (i - 16) + 16) mod 2 ^ 32" unfolding unat_word_ariths(1) [of "i - 16"] by simp
  finally have "unat i mod 16 = (unat (i - 16) + 16) mod 2 ^ 32 mod 16" by simp
  also have "\<dots> = (unat (i - 16) + 16) mod 16" by (rule mod_mod_cancel) simp
  finally show ?thesis by simp
qed

lemma md5_fill_multiple:
  assumes "md5_fill digest i = Some r"
  shows "unat i mod 16 = 0"
proof (rule md5_fill.raw_induct [OF _ assms])
  fix fill :: "u8 list \<Rightarrow> u32 \<Rightarrow> u8 list option" and digest i r
  assume IH: "\<And>digest i r. fill digest i = Some r \<Longrightarrow> unat i mod 16 = 0"
    and step: "(if i = 0 then Some []
      else Option.bind (fill digest (i - 16)) (\<lambda>rest. Some (take (if 16 < i then 16 else unat i) digest @ rest))) = Some r"
  show "unat i mod 16 = 0"
  proof (cases "i = 0")
    case False
    with step obtain r1 where "fill digest (i - 16) = Some r1" by (auto simp: bind_eq_Some_conv)
    then have "unat (i - 16) mod 16 = 0" by (rule IH)
    then show ?thesis by (simp only: unat_minus_16)
  qed simp
qed

lemma md5_crypt_iff: "(\<exists>out. md5_crypt md5 pw salt = Some out) \<longleftrightarrow> length pw mod 16 = 0"
proof -
  define n where "n = (of_nat (length pw) :: u32)"
  have n: "unat n mod 16 = length pw mod 16"
    by (simp add: n_def unat_of_nat mod_mod_cancel)
  have "(\<exists>out. md5_crypt md5 pw salt = Some out) \<longleftrightarrow>
      (\<exists>r. md5_fill (md5 (take (unat n) (to_bytes pw) @ to_bytes (take 8 salt) @ take (unat n) (to_bytes pw))) n = Some r)"
    by (simp add: md5_crypt_def Let_def n_def split: option.split)
  also have "\<dots> \<longleftrightarrow> unat n mod 16 = 0"
    using md5_fill_multiple md5_fill_returns [of n "unat n div 16"] by (metis div_mult_mod_eq add_0_right mult.commute)
  finally show ?thesis by (simp add: n)
qed

text \<open>
  \<open>md5_crypt\<close> returns exactly for the passwords whose length is a multiple of 16: for every other length the
  unsigned loop counter steps over 0 and the loop does not end.
\<close>

theorem md5_crypt_returns_iff: "(\<exists>out. md5_crypt md5 pw salt = Some out) \<longleftrightarrow> length pw mod 16 = 0"
  by (rule md5_crypt_iff)

subsection \<open>The sizes of messages\<close>

lemma length_v2mask [simp]: "length (ncd_v2mask cw msk) = length cw"
proof -
  have step: "length (fold (\<lambda>j cw. cw[i := cw ! i XOR ncd_getmask cw msk (of_nat i) (of_nat j)]) js cw) = length cw" for i js cw
    by (induction js arbitrary: cw) simp_all
  have "length (fold (\<lambda>i. fold (\<lambda>j cw. cw[i := cw ! i XOR ncd_getmask cw msk (of_nat i) (of_nat j)]) js) ks cw) = length cw" for ks js cw
    by (induction ks arbitrary: cw) (simp_all add: step)
  then show ?thesis unfolding ncd_v2mask_def Let_def by (simp only:)
qed

interpretation ncd_any: block_map "ncd_block key mode" for key mode
proof
  fix b :: "u8 list" assume "length b = 8"
  then show "length (ncd_block key mode b) = 8"
    unfolding ncd_block_def ncd_EuroDes_def Let_def option.case
    by (simp only: length_v2mask length_nc_des split: if_split) simp
qed

lemma encrypt_length:
  assumes "cccam_newcamd_des_encrypt rnd (Some key) buf = Some c" "2 \<le> length buf"
  shows "length c mod 8 = 2" "length c \<le> 1024" "length buf + 8 < length c" "take 2 c = take 2 buf" "length buf \<le> 1009"
proof -
  let ?n = "ncd_pad_length (length buf)"
  define seal where "seal = ncd_seal (map rnd [0..<?n]) buf"
  define body where "body = cbc_encrypt_blocks (ncd_block key NC_DES_ECM_HASH) (map rnd [?n..<?n + 8]) ((length seal - 2) div 8) (drop 2 seal)"
  have c: "c = take 2 seal @ body @ map rnd [?n..<?n + 8]" and small: "length buf + ?n + 1 < 1024 - 8"
    using assms(1) by (auto simp: cccam_newcamd_des_encrypt_def Let_def body_def seal_def ncd_block_def [abs_def] split: if_splits)
  have l: "length seal = length buf + ?n + 1" by (simp add: seal_def ncd_seal_def)
  have m: "length seal mod 8 = 2" using seal_length [of buf rnd] assms(2) by (cases buf) (simp_all add: seal_def)
  have "length body = length seal - 2"
    unfolding body_def using ncd_any.length_cbc_encrypt [of "map rnd [?n..<?n + 8]" "(length seal - 2) div 8" "drop 2 seal"] by simp
  with l assms(2) have lc: "length c = length seal + 8" by (simp add: c)
  show "length c mod 8 = 2" using m lc by simp
  show "length c \<le> 1024" "length buf + 8 < length c" using small l lc by simp_all
  have "take 2 c = take 2 seal" using l assms(2) by (simp add: c)
  also have "\<dots> = take 2 buf" using assms(2) by (simp add: seal_def ncd_seal_def)
  finally show "take 2 c = take 2 buf" .
  have "(length buf + ?n) mod 8 = 1" using assms(2) by (intro pad_length) linarith
  then obtain j where "length buf + ?n = 8 * j + 1" by (metis div_mod_decomp mult.commute)
  moreover from this small have "j < 127" by simp
  ultimately show "length buf \<le> 1009" by simp
qed

lemma be16_wire: "n < 65536 \<Longrightarrow> unat (of_be16 (be16 (of_nat n) ! 0) (be16 (of_nat n) ! 1)) = n"
  by (simp add: be16_def unat_of_nat)

text \<open>What a message looks like on the wire.\<close>

lemma send_message_wire:
  assumes "ncd_send_message rnd s msg_id cmd data sid io = (0, io1)"
  obtains payload where "io_tx io1 = io_tx io @ be16 (of_nat (length payload)) @ payload" "length payload mod 8 = 0"
    "length payload \<le> 1022" "length data + 18 \<le> length payload" "length data \<le> 998"
    "cccam_newcamd_des_encrypt rnd (Some (ns_session_key s))
       ([0, 0] @ be16 msg_id @ be16 sid @ [0, 0, cmd, of_nat (length data div 256) AND 0x0F, of_nat (length data)] @ data)
     = Some ([0, 0] @ payload)"
proof -
  let ?buf = "[0, 0] @ be16 msg_id @ be16 sid @ [0, 0, cmd, of_nat (length data div 256) AND 0x0F, of_nat (length data)] @ data"
  obtain c where c: "cccam_newcamd_des_encrypt rnd (Some (ns_session_key s)) ?buf = Some c"
    and tx: "remote_send (be16 (of_nat (length c - 2)) @ drop 2 c) io = (True, io1)"
    using assms by (auto simp: ncd_send_message_def Let_def split: if_splits option.splits prod.splits)
  note len = encrypt_length [OF c]
  have two: "take 2 c = [0, 0]" using len(4) by simp
  define payload where "payload = drop 2 c"
  have c0: "c = [0, 0] @ payload" using append_take_drop_id [of 2 c] by (simp only: two payload_def)
  show thesis
  proof (rule that [of payload])
    show "io_tx io1 = io_tx io @ be16 (of_nat (length payload)) @ payload"
      using tx by (auto simp: remote_send_def payload_def split: list.splits)
    have "Suc (Suc (length payload)) mod 8 = 2" using len(1) by (simp add: c0)
    then show "length payload mod 8 = 0" by presburger
    show "length payload \<le> 1022" "length data + 18 \<le> length payload" "length data \<le> 998" using len(2,3,5) by (simp_all add: c0)
  qed (use c c0 in simp)
qed
subsection \<open>Properties\<close>

lemma rejected_length: "length raw mod 8 \<noteq> 2 \<Longrightarrow> ncd_decrypt_message raw key = None"
proof -
  assume m: "length raw mod 8 \<noteq> 2"
  have "(length raw - 2) mod 8 \<noteq> 0" if "16 \<le> length raw"
  proof
    assume "(length raw - 2) mod 8 = 0"
    then obtain k where "length raw - 2 = 8 * k" by auto
    with that have "length raw = 2 + k * 8" by simp
    with m show False by (simp only: mod_mult_self1) simp
  qed
  then show ?thesis by (auto simp: ncd_decrypt_message_def cccam_newcamd_des_decrypt_def)
qed

lemma rejected_process: "length raw mod 8 \<noteq> 2 \<Longrightarrow> cccam_newcamd_process emu lib md5 rnd mem writable now cfg raw s w io = Some (-1, s, w, io)"
  by (simp add: cccam_newcamd_process_def ncd_open_message_def rejected_length)

text \<open>
  C6: The Newcamd server rejects its own message format: whatever a peer sends with \<open>ncd_send_message\<close>,
  under any key, session and configuration, the handler that reads it destroys the client, because it hands
  the payload to the decryption without the two length bytes that this counts.
\<close>

theorem newcamd_rejects_own_format:
  assumes "ncd_send_message rnd peer msg_id cmd data sid peer_io = (0, peer_io1)"
    and "io_tx peer_io1 = io_tx peer_io @ m" and "io_rx io = m @ rest"
  shows "handle_newcamd_message emu lib md5 rnd' mem writable now cfg a s w io
    = map_option (\<lambda>w1. (None, w1, io\<lparr>io_rx := rest\<rparr>)) (server_destroy_client a w)"
proof -
  obtain payload where p: "m = be16 (of_nat (length payload)) @ payload" "length payload mod 8 = 0" "length payload \<le> 1022"
    using send_message_wire [OF assms(1)] assms(2) by (metis same_append_eq)
  define h where "h = be16 (of_nat (length payload))"
  have h: "length h = 2" "unat (of_be16 (h ! 0) (h ! 1)) = length payload"
    using p(3) be16_wire [of "length payload"] by (simp_all add: h_def)
  have rx: "io_rx io = h @ payload @ rest" using assms(3) p(1) by (simp add: h_def)
  have 1: "recv_exact 2 io = (Some h, io\<lparr>io_rx := payload @ rest\<rparr>)" using h(1) by (simp add: recv_exact_def rx)
  have 2: "recv_exact (length payload) (io\<lparr>io_rx := payload @ rest\<rparr>) = (Some payload, io\<lparr>io_rx := rest\<rparr>)"
    by (simp add: recv_exact_def)
  have rejected: "cccam_newcamd_process emu lib md5 rnd' mem writable now cfg payload s w (io\<lparr>io_rx := rest\<rparr>)
      = Some (-1, s, w, io\<lparr>io_rx := rest\<rparr>)"
    using p(2) by (intro rejected_process) simp
  have small: "\<not> length payload > NCD_MAX_MSG" using p(3) by (simp add: NCD_MAX_MSG_def)
  have "unat (of_be16 (h ! 0) (h ! Suc 0)) = length payload" using h(2) by simp
  with small show ?thesis by (simp add: handle_newcamd_message_def 1 2 rejected)
qed

lemma decrypt_prefix:
  assumes "length h = 2" "length h' = 2" "cccam_newcamd_des_decrypt (Some key) (h @ p) = Some out"
  shows "cccam_newcamd_des_decrypt (Some key) (h' @ p) = Some (h' @ drop 2 out)"
  using assms by (auto simp: cccam_newcamd_des_decrypt_def Let_def split: if_splits)

lemma low_nibble: "m < 16 \<Longrightarrow> (of_nat m :: u8) AND 0x0F = of_nat m"
proof -
  assume "m < 16"
  then have "m \<in> set [0..<16]" by simp
  then show ?thesis by (simp add: upt_rec) (elim disjE; simp)
qed

lemma length_bytes:
  assumes "n \<le> 0xFFF"
  shows "unat (of_be16 ((of_nat (n div 256) AND 0x0F) AND 0x0F) (of_nat n)) = n"
proof -
  have "n div 256 < 16" using assms by simp
  then have 1: "(of_nat (n div 256) AND 0x0F) AND 0x0F = (of_nat (n div 256) :: u8)" by (simp add: low_nibble)
  have "unat (of_nat (n div 256) :: u8) = unat (ucast (drop_bit 8 (of_nat n :: u16)) :: u8)"
    using assms by (simp add: unsigned_ucast_eq unsigned_take_bit_eq take_bit_eq_mod unat_drop_bit_eq drop_bit_eq_div unat_of_nat unat_div)
  then have 2: "(of_nat (n div 256) :: u8) = ucast (drop_bit 8 (of_nat n :: u16))" by (simp only: word_unat_eq_iff)
  have 3: "(of_nat n :: u8) = ucast (of_nat n :: u16)"
    unfolding word_unat_eq_iff by (simp add: unsigned_ucast_eq unsigned_take_bit_eq take_bit_eq_mod unat_of_nat mod_mod_cancel)
  show ?thesis unfolding 1 unfolding 2 3 of_be16_be16 using assms by (simp add: unat_of_nat)
qed

lemma message_fields:
  assumes "out = h @ be16 msg_id @ be16 sid @ [0, 0, cmd, of_nat (length data div 256) AND 0x0F, of_nat (length data)] @ data @ rest"
    and "length h = 2" and "length data \<le> 998"
  shows "of_be16 (out ! 2) (out ! 3) = msg_id" "of_be16 (out ! 4) (out ! 5) = sid" "out ! 8 = cmd"
    "unat (of_be16 (out ! 9 AND 0x0F) (out ! 10)) = length data" "take (length data) (drop 11 out) = data"
    "11 + length data + length rest = length out"
proof -
  obtain h0 h1 where hh: "h = [h0, h1]" using assms(2) by (metis (no_types) length_0_conv length_Suc_conv numeral_2_eq_2)
  have be: "be16 x ! 0 = ucast (drop_bit 8 x)" "be16 x ! Suc 0 = ucast x" for x by (simp_all add: be16_def)
  show "of_be16 (out ! 2) (out ! 3) = msg_id" "of_be16 (out ! 4) (out ! 5) = sid" "out ! 8 = cmd"
    "take (length data) (drop 11 out) = data" "11 + length data + length rest = length out"
    by (simp_all add: assms(1) hh nth_append be of_be16_be16)
  show "unat (of_be16 (out ! 9 AND 0x0F) (out ! 10)) = length data"
    using length_bytes [of "length data"] assms(3) by (simp add: assms(1) hh nth_append)
qed

text \<open>
  A client with the session key reads what the server sends: it opens the message with the two length
  bytes in front and finds the message id, the service id, the command, the length and the data in their places.
\<close>

theorem newcamd_reply_readable:
  assumes "ncd_send_message rnd s msg_id cmd data sid io = (0, io1)"
    and "ns_session_key s = cccam_newcamd_login_key k1 k2 n"
  shows "\<exists>m out. io_tx io1 = io_tx io @ m \<and> cccam_newcamd_des_decrypt (Some (ns_session_key s)) m = Some out
    \<and> unat (of_be16 (m ! 0) (m ! 1)) = length m - 2 \<and> of_be16 (out ! 2) (out ! 3) = msg_id \<and> of_be16 (out ! 4) (out ! 5) = sid
    \<and> out ! 8 = cmd \<and> unat (of_be16 (out ! 9 AND 0x0F) (out ! 10)) = length data \<and> take (length data) (drop 11 out) = data"
proof -
  let ?buf = "[0, 0] @ be16 msg_id @ be16 sid @ [0, 0, cmd, of_nat (length data div 256) AND 0x0F, of_nat (length data)] @ data"
  obtain payload where p: "io_tx io1 = io_tx io @ be16 (of_nat (length payload)) @ payload" "length payload \<le> 1022"
      "length data \<le> 998" "cccam_newcamd_des_encrypt rnd (Some (ns_session_key s)) ?buf = Some ([0, 0] @ payload)"
    using send_message_wire [OF assms(1)] by metis
  define h where "h = be16 (of_nat (length payload))"
  have h: "length h = 2" "unat (of_be16 (h ! 0) (h ! 1)) = length payload"
    using p(2) be16_wire [of "length payload"] by (simp_all add: h_def)
  obtain pad where o: "cccam_newcamd_des_decrypt (Some (ns_session_key s)) ([0, 0] @ payload) = Some (ncd_seal pad ?buf)"
    using newcamd_des_roundtrip [of ?buf rnd k1 k2 n] p(2-4) by (auto simp: assms(2))
  define out where "out = h @ drop 2 (ncd_seal pad ?buf)"
  have d: "cccam_newcamd_des_decrypt (Some (ns_session_key s)) (h @ payload) = Some out"
    unfolding out_def by (rule decrypt_prefix [OF _ h(1) o]) simp
  have out: "out = h @ be16 msg_id @ be16 sid @ [0, 0, cmd, of_nat (length data div 256) AND 0x0F, of_nat (length data)] @ data
      @ pad @ [xor_all (drop 2 (?buf @ pad))]"
    by (simp add: out_def ncd_seal_def)
  have hd: "(h @ payload) ! 0 = h ! 0" "(h @ payload) ! 1 = h ! 1" using h(1) by (simp_all add: nth_append)
  show ?thesis
    using p(1) d h message_fields [OF out h(1) p(3)]
    by (intro exI [of _ "h @ payload"] exI [of _ out]) (simp only: hd h_def [symmetric], simp)
qed
lemma login_fields_length:
  assumes "ncd_login_fields d = Some (username, password)"
  shows "length username < 64" "length password < 128"
  using assms by (auto simp: ncd_login_fields_def Let_def of_bytes_def split: if_splits)

lemma auto_register_finds:
  assumes "cccam_user_manager_auto_register lib mem now writable username password st fs = (0, st', fs')"
    and "length username < 64" "length password < 128"
  shows "\<exists>u. find_user username st' = Some u \<and> us_password u = password"
  using assms by (auto simp: cccam_user_manager_auto_register_def add_user_def find_user_def split: if_splits prod.splits)

text \<open>
  C8: A Newcamd login that succeeds has a data pointer to two terminated strings. The account exists, is enabled and
  the password is the stored one or its MD5-crypt, and the server's accounts are unchanged; or the name is new, automatic
  registration is on, and the account was created. The session key comes from the stored password, which for a new
  account is the empty string, and the length of the stored password is a multiple of 16.
\<close>

theorem newcamd_login_checked:
  assumes "ncd_handle_login lib md5 rnd mem writable now cfg msg s w io = Some (0, s', w', io')"
  shows "\<exists>d username password stored. nm_data msg = Some d
    \<and> ncd_login_fields (take (nm_data_len msg) d) = Some (username, password)
    \<and> ns_state s' = 1 \<and> ns_username s' = username
    \<and> ns_session_key s' = cccam_newcamd_login_key (nc_des_key cfg) (to_bytes stored) (length stored)
    \<and> length stored mod 16 = 0
    \<and> (case find_user username (sv_users w) of
         Some u \<Rightarrow> us_enabled u \<noteq> 0 \<and> stored = c_strncpy 128 (us_password u) \<and> w' = w
           \<and> (password = stored \<or> md5_crypt md5 stored ncd_salt = Some password)
       | None \<Rightarrow> um_auto_register (sv_users w) \<and> stored = []
           \<and> (\<exists>u. find_user username (sv_users w') = Some u \<and> us_password u = password))"
proof -
  obtain d username password stored expected where d: "nm_data msg = Some d"
    and f: "ncd_login_fields (take (nm_data_len msg) d) = Some (username, password)"
    and acc: "ncd_login_account lib md5 mem writable now username password w = Some (True, stored, w')"
    and e: "md5_crypt md5 stored ncd_salt = Some expected" and s': "s' = ncd_session_keys cfg now username stored expected s"
    using assms by (auto simp: ncd_handle_login_def split: if_splits option.splits prod.splits)
  note len = login_fields_length [OF f]
  have "length stored mod 16 = 0" using e md5_crypt_iff by blast
  moreover have "case find_user username (sv_users w) of
         Some u \<Rightarrow> us_enabled u \<noteq> 0 \<and> stored = c_strncpy 128 (us_password u) \<and> w' = w
           \<and> (password = stored \<or> md5_crypt md5 stored ncd_salt = Some password)
       | None \<Rightarrow> um_auto_register (sv_users w) \<and> stored = []
           \<and> (\<exists>u. find_user username (sv_users w') = Some u \<and> us_password u = password)"
  proof (cases "find_user username (sv_users w)")
    case None
    with acc obtain files where "um_auto_register (sv_users w)" "stored = []"
      "cccam_user_manager_auto_register lib mem now writable username password (sv_users w) (sv_files w) = (0, sv_users w', files)"
      by (auto simp: ncd_login_account_def split: if_splits prod.splits)
    with auto_register_finds len None show ?thesis by fastforce
  next
    case (Some u)
    with acc show ?thesis by (auto simp: ncd_login_account_def ncd_check_password_def Let_def split: if_splits)
  qed
  ultimately show ?thesis
    using d f len(1) by (intro exI [of _ d] exI [of _ username] exI [of _ password] exI [of _ stored]) (simp add: s' ncd_session_keys_def)
qed

lemma opened_data:
  assumes "ncd_open_message raw s = Some (msg, s1)"
  shows "nm_data msg = None" "ns_state s1 = ns_state s"
  using assms by (auto simp: ncd_open_message_def ncd_decrypt_message_def Let_def split: if_splits option.splits)

lemma no_login_without_data:
  assumes "ncd_dispatch emu lib md5 rnd mem writable now cfg msg s w io = Some (rc, s', w', io')"
    and "ns_state s = 0" "nm_data msg = None"
  shows "ns_state s' = 0 \<and> w' = w"
  using assms by (auto simp: ncd_dispatch_def ncd_handle_login_def Let_def split: if_splits prod.splits)

text \<open>
  C7: No Newcamd client is ever logged in by a defined run of the server: as the handler of the login reads through
  a pointer to a dead stack frame, every message that leaves the client connected leaves the session in the state
  before the login, and the server as it was.
\<close>

theorem newcamd_never_authenticates:
  assumes "handle_newcamd_message emu lib md5 rnd mem writable now cfg a s w io = Some (Some s', w', io')"
    and "ns_state s = 0"
  shows "ns_state s' = 0 \<and> w' = w"
proof -
  obtain buffer io2 where p: "cccam_newcamd_process emu lib md5 rnd mem writable now cfg buffer s w io2 = Some (0, s', w', io')"
    using assms(1) by (auto simp: handle_newcamd_message_def Let_def split: prod.splits option.splits if_splits)
  then obtain msg s1 where m: "ncd_open_message buffer s = Some (msg, s1)"
    "ncd_dispatch emu lib md5 rnd mem writable now cfg msg (s1\<lparr>ns_msg_id := nm_msg_id msg\<rparr>) w io2 = Some (0, s', w', io')"
    by (auto simp: cccam_newcamd_process_def split: option.splits)
  with no_login_without_data [OF m(2)] opened_data [OF m(1)] assms(2) show ?thesis by simp
qed

text \<open>
  A session that is not logged in gets nothing from the server: whatever message with whatever data arrives,
  other than a login, the server is unchanged and the session stays where it is, and requests for the card or
  for control words end the session without an answer.
\<close>

theorem newcamd_requests_need_login:
  assumes "ncd_dispatch emu lib md5 rnd mem writable now cfg msg s w io = Some (rc, s', w', io')"
    and "ns_state s \<noteq> 1" and "nm_cmd msg \<noteq> NCD_MSG_LOGIN"
  shows "w' = w \<and> ns_state s' = ns_state s
    \<and> (nm_cmd msg \<in> {NCD_MSG_CARD_REQ, 0x80, 0x81} \<longrightarrow> rc = -1 \<and> io' = io)"
  using assms by (auto simp: ncd_dispatch_def Let_def split: if_splits prod.splits)

subsection \<open>Witnesses\<close>

lemma send_message_ok:
  assumes "length data \<le> 998" "io_sends io = True # rest"
  shows "\<exists>io1 m. ncd_send_message rnd s msg_id cmd data sid io = (0, io1) \<and> io_tx io1 = io_tx io @ m"
proof -
  let ?buf = "[0, 0] @ be16 msg_id @ be16 sid @ [0, 0, cmd, of_nat (length data div 256) AND 0x0F, of_nat (length data)] @ data"
  define n where "n = length ?buf"
  have n: "n = 11 + length data" by (simp add: n_def)
  then have "(n + ncd_pad_length n) mod 8 = 1" by (intro pad_length) simp
  then obtain j where "n + ncd_pad_length n = 8 * j + 1" by (metis div_mod_decomp mult.commute)
  moreover from this n assms(1) pad_length_less [of n] have "j < 127" by simp
  ultimately have "n + ncd_pad_length n + 1 < 1024 - 8" by simp
  then obtain c where c: "cccam_newcamd_des_encrypt rnd (Some (ns_session_key s)) ?buf = Some c"
    by (auto simp: cccam_newcamd_des_encrypt_def Let_def n_def)
  have "remote_send bs io = (True, io\<lparr>io_sends := rest, io_tx := io_tx io @ bs\<rparr>)" for bs
    using assms(2) by (simp add: remote_send_def)
  with c assms(1) show ?thesis by (simp add: ncd_send_message_def Let_def NCD_MAX_MSG_def)
qed

definition newcamd_demo :: ncd_session where
  "newcamd_demo = (session_zero 1)\<lparr>ns_session_key := cccam_newcamd_login_key (replicate 14 1) [] 0\<rparr>"

definition newcamd_demo_io :: remote_io where
  "newcamd_demo_io = \<lparr>io_connect = Some 1, io_rx = [], io_sends = [True], io_tx = []\<rparr>"

lemma newcamd_demo_sends:
  "\<exists>io1 m. ncd_send_message (\<lambda>_. 0) newcamd_demo 1 NCD_MSG_KEEPALIVE [5] 0 newcamd_demo_io = (0, io1) \<and> io_tx io1 = io_tx newcamd_demo_io @ m"
  by (rule send_message_ok [where rest = "[]"]) (simp_all add: newcamd_demo_io_def)

theorem newcamd_rejects_own_format_witness:
  "\<exists>io1 m. ncd_send_message (\<lambda>_. 0) newcamd_demo 1 NCD_MSG_KEEPALIVE [5] 0 newcamd_demo_io = (0, io1) \<and> io_tx io1 = io_tx newcamd_demo_io @ m
    \<and> handle_newcamd_message (\<lambda>_ _ _ e. Some e) toy_ossl (\<lambda>_. replicate 16 0) (\<lambda>_. 0) True True 9 newcamd_config_initial 0 (session_zero 1)
        demo_client_server (newcamd_demo_io\<lparr>io_rx := m @ []\<rparr>)
      = map_option (\<lambda>w1. (None, w1, newcamd_demo_io\<lparr>io_rx := []\<rparr>)) (server_destroy_client 0 demo_client_server)"
proof -
  obtain io1 m where s: "ncd_send_message (\<lambda>_. 0) newcamd_demo 1 NCD_MSG_KEEPALIVE [5] 0 newcamd_demo_io = (0, io1)"
    and m: "io_tx io1 = io_tx newcamd_demo_io @ m"
    using newcamd_demo_sends by blast
  have "io_rx (newcamd_demo_io\<lparr>io_rx := m @ []\<rparr>) = m @ []" by simp
  from newcamd_rejects_own_format [OF s m this] s m show ?thesis by auto
qed

theorem newcamd_reply_readable_witness:
  "\<exists>io1 m out. ncd_send_message (\<lambda>_. 0) newcamd_demo 1 NCD_MSG_KEEPALIVE [5] 0 newcamd_demo_io = (0, io1)
    \<and> io_tx io1 = io_tx newcamd_demo_io @ m \<and> cccam_newcamd_des_decrypt (Some (ns_session_key newcamd_demo)) m = Some out
    \<and> out ! 8 = NCD_MSG_KEEPALIVE \<and> take (length [5 :: u8]) (drop 11 out) = [5]"
proof -
  obtain io1 where s: "ncd_send_message (\<lambda>_. 0) newcamd_demo 1 NCD_MSG_KEEPALIVE [5] 0 newcamd_demo_io = (0, io1)"
    using newcamd_demo_sends by blast
  have "ns_session_key newcamd_demo = cccam_newcamd_login_key (replicate 14 1) [] 0" by (simp add: newcamd_demo_def)
  from newcamd_reply_readable [OF s this] s show ?thesis by blast
qed

definition newcamd_demo_login :: ncd_msg where
  "newcamd_demo_login = \<lparr>nm_cmd = NCD_MSG_LOGIN, nm_msg_id = 1, nm_sid = 0, nm_data = Some (to_bytes ''joe'' @ [0] @ to_bytes ''pw'' @ [0]),
     nm_data_len = 7\<rparr>"

theorem newcamd_login_checked_witness:
  "\<exists>s' w' io'. ncd_handle_login toy_ossl (\<lambda>_. replicate 16 0) (\<lambda>_. 0) True True 9 newcamd_config_initial newcamd_demo_login (session_zero 1)
      (demo_server\<lparr>sv_users := users_initial\<lparr>um_auto_register := True\<rparr>\<rparr>) newcamd_demo_io = Some (0, s', w', io')
    \<and> ns_state s' = 1 \<and> ns_username s' = ''joe''
    \<and> ns_session_key s' = cccam_newcamd_login_key (nc_des_key newcamd_config_initial) [] 0"
proof -
  let ?w = "demo_server\<lparr>sv_users := users_initial\<lparr>um_auto_register := True\<rparr>\<rparr>"
  have f: "ncd_login_fields (to_bytes ''joe'' @ [0] @ to_bytes ''pw'' @ [0]) = Some (''joe'', ''pw'')"
    by code_simp
  have v: "valid_username ''joe''" "valid_password ''pw''" by code_simp+
  obtain io1 where s: "ncd_send_message (\<lambda>_. 0) (session_zero 1) 1 NCD_MSG_LOGIN_ACK [] 0 newcamd_demo_io = (0, io1)"
    using send_message_ok [where rest = "[]" and data = "[]" and io = newcamd_demo_io and s = "session_zero 1" and rnd = "\<lambda>_. 0"
        and msg_id = 1 and cmd = NCD_MSG_LOGIN_ACK and sid = 0] by (auto simp: newcamd_demo_io_def)
  obtain st fs where "cccam_user_manager_auto_register toy_ossl True 9 True ''joe'' ''pw'' (sv_users ?w) (sv_files ?w) = (0, st, fs)"
    using v by (simp add: cccam_user_manager_auto_register_def add_user_def find_user_def users_initial_def)
  moreover have "find_user ''joe'' (sv_users ?w) = None" by (simp add: find_user_def users_initial_def)
  ultimately have a: "ncd_login_account toy_ossl (\<lambda>_. replicate 16 0) True True 9 ''joe'' ''pw'' ?w
      = Some (True, [], ?w\<lparr>sv_users := st, sv_files := fs\<rparr>)"
    by (simp add: ncd_login_account_def)
  obtain e where "md5_crypt (\<lambda>_. replicate 16 0) [] ncd_salt = Some e" using md5_crypt_iff [of "\<lambda>_. replicate 16 0" "[]" ncd_salt] by auto
  then have l: "\<exists>s' w' io'. ncd_handle_login toy_ossl (\<lambda>_. replicate 16 0) (\<lambda>_. 0) True True 9 newcamd_config_initial newcamd_demo_login (session_zero 1)
      ?w newcamd_demo_io = Some (0, s', w', io')"
    using f a s by (simp add: ncd_handle_login_def newcamd_demo_login_def)
  then obtain s' w' io' where l: "ncd_handle_login toy_ossl (\<lambda>_. replicate 16 0) (\<lambda>_. 0) True True 9 newcamd_config_initial newcamd_demo_login (session_zero 1)
      ?w newcamd_demo_io = Some (0, s', w', io')" by blast
  have "find_user n (sv_users ?w) = None" for n by (simp add: find_user_def users_initial_def)
  with newcamd_login_checked [OF l] f have "ns_state s' = 1 \<and> ns_username s' = ''joe''
      \<and> ns_session_key s' = cccam_newcamd_login_key (nc_des_key newcamd_config_initial) [] 0"
    by (auto simp: newcamd_demo_login_def to_bytes_def)
  with l show ?thesis by blast
qed

text \<open>A peer that repeats the two length bytes in front of the payload is understood.\<close>

lemma framed_twice:
  assumes "cccam_newcamd_des_encrypt rnd (Some key)
      ([0, 0] @ be16 msg_id @ be16 sid @ [0, 0, cmd, of_nat (length data div 256) AND 0x0F, of_nat (length data)] @ data) = Some c"
    and "key = cccam_newcamd_login_key k1 k2 n" and "length data \<le> 998"
  shows "ncd_decrypt_message c key
    = Some \<lparr>nm_cmd = cmd, nm_msg_id = msg_id, nm_sid = sid, nm_data = None, nm_data_len = length data\<rparr>"
proof -
  let ?buf = "[0, 0] @ be16 msg_id @ be16 sid @ [0, 0, cmd, of_nat (length data div 256) AND 0x0F, of_nat (length data)] @ data"
  note len = encrypt_length [OF assms(1)]
  obtain pad where o: "cccam_newcamd_des_decrypt (Some key) c = Some (ncd_seal pad ?buf)"
    using newcamd_des_roundtrip [of ?buf rnd k1 k2 n] assms by auto
  define out where "out = ncd_seal pad ?buf"
  have out: "out = [0, 0] @ be16 msg_id @ be16 sid @ [0, 0, cmd, of_nat (length data div 256) AND 0x0F, of_nat (length data)] @ data
      @ pad @ [xor_all (drop 2 (?buf @ pad))]"
    by (simp add: out_def ncd_seal_def)
  have "length [0 :: u8, 0] = 2" by simp
  note at = message_fields [OF out this assms(3)]
  have l: "\<not> (length c < 16 \<or> length c > NCD_MAX_MSG)" "\<not> length out < 11" "\<not> 11 + length data > length out"
    using len at(6) by (simp_all add: NCD_MAX_MSG_def)
  show ?thesis
    unfolding ncd_decrypt_message_def if_not_P [OF l(1)] o [folded out_def] option.case if_not_P [OF l(2)] Let_def at(1-4)
      if_not_P [OF l(3)] ..
qed

theorem newcamd_never_authenticates_witness:
  "\<exists>c s' io'. handle_newcamd_message (\<lambda>_ _ _ e. Some e) toy_ossl (\<lambda>_. replicate 16 0) (\<lambda>_. 0) True True 9 newcamd_config_initial 0
      ((session_zero 1)\<lparr>ns_login_key := ns_session_key newcamd_demo\<rparr>) demo_client_server (newcamd_demo_io\<lparr>io_rx := c\<rparr>)
      = Some (Some s', demo_client_server, io')
    \<and> ns_state s' = 0"
proof -
  let ?key = "ns_session_key newcamd_demo" and ?s = "(session_zero 1)\<lparr>ns_login_key := ns_session_key newcamd_demo\<rparr>"
  let ?buf = "[0, 0] @ be16 1 @ be16 0 @ [0, 0, NCD_MSG_KEEPALIVE, of_nat (length ([] :: u8 list) div 256) AND 0x0F, of_nat (length ([] :: u8 list))] @ []"
  have k: "?key = cccam_newcamd_login_key (replicate 14 1) [] 0" by (simp add: newcamd_demo_def)
  obtain c where c: "cccam_newcamd_des_encrypt (\<lambda>_. 0) (Some ?key) ?buf = Some c"
    by (auto simp: cccam_newcamd_des_encrypt_def Let_def ncd_pad_length_def)
  note len = encrypt_length [OF c]
  let ?h = "be16 (of_nat (length c))"
  have h: "unat (of_be16 (?h ! 0) (?h ! Suc 0)) = length c" using be16_wire [of "length c"] len(2) by simp
  obtain io1 where s: "ncd_send_message (\<lambda>_. 0) (?s\<lparr>ns_msg_id := 1, ns_last_keepalive := 9\<rparr>) 1 NCD_MSG_KEEPALIVE_ACK [] 0 newcamd_demo_io = (0, io1)"
    using send_message_ok [where rest = "[]" and data = "[]" and io = newcamd_demo_io and rnd = "\<lambda>_. 0"
        and s = "?s\<lparr>ns_msg_id := 1, ns_last_keepalive := 9\<rparr>" and msg_id = 1 and cmd = NCD_MSG_KEEPALIVE_ACK and sid = 0]
    by (auto simp: newcamd_demo_io_def)
  have o: "ncd_open_message c ?s = Some (\<lparr>nm_cmd = NCD_MSG_KEEPALIVE, nm_msg_id = 1, nm_sid = 0, nm_data = None, nm_data_len = 0\<rparr>, ?s)"
    using framed_twice [OF c k] by (simp add: ncd_open_message_def session_zero_def)
  have p: "\<exists>s' io'. cccam_newcamd_process (\<lambda>_ _ _ e. Some e) toy_ossl (\<lambda>_. replicate 16 0) (\<lambda>_. 0) True True 9 newcamd_config_initial c ?s
      demo_client_server newcamd_demo_io = Some (0, s', demo_client_server, io')"
    using s by (simp add: cccam_newcamd_process_def o ncd_dispatch_def Let_def NCD_MSG_KEEPALIVE_def NCD_MSG_KEEPALIVE_ACK_def NCD_MSG_LOGIN_def NCD_MSG_CARD_REQ_def)
  have "recv_exact 2 (newcamd_demo_io\<lparr>io_rx := ?h @ c\<rparr>) = (Some ?h, newcamd_demo_io\<lparr>io_rx := c\<rparr>)"
    "recv_exact (length c) (newcamd_demo_io\<lparr>io_rx := c\<rparr>) = (Some c, newcamd_demo_io)"
    by (simp_all add: recv_exact_def newcamd_demo_io_def)
  with p h len(2) have "\<exists>s' io'. handle_newcamd_message (\<lambda>_ _ _ e. Some e) toy_ossl (\<lambda>_. replicate 16 0) (\<lambda>_. 0) True True 9 newcamd_config_initial 0
      ?s demo_client_server (newcamd_demo_io\<lparr>io_rx := ?h @ c\<rparr>) = Some (Some s', demo_client_server, io')"
    by (auto simp: handle_newcamd_message_def NCD_MAX_MSG_def)
  moreover have "ns_state ?s = 0" by (simp add: session_zero_def)
  ultimately show ?thesis using newcamd_never_authenticates by metis
qed

theorem newcamd_requests_need_login_witness:
  "ncd_dispatch (\<lambda>_ _ _ e. Some e) toy_ossl (\<lambda>_. replicate 16 0) (\<lambda>_. 0) True True 9 newcamd_config_initial (newcamd_demo_login\<lparr>nm_cmd := 0x80\<rparr>)
      (session_zero 1) demo_server newcamd_demo_io = Some (-1, session_zero 1, demo_server, newcamd_demo_io)"
proof -
  have d: "ncd_dispatch (\<lambda>_ _ _ e. Some e) toy_ossl (\<lambda>_. replicate 16 0) (\<lambda>_. 0) True True 9 newcamd_config_initial (newcamd_demo_login\<lparr>nm_cmd := 0x80\<rparr>)
      (session_zero 1) demo_server newcamd_demo_io = Some (-1, session_zero 1, demo_server, newcamd_demo_io)"
    by (simp add: ncd_dispatch_def Let_def newcamd_demo_login_def NCD_MSG_LOGIN_def NCD_MSG_CARD_REQ_def session_zero_def)
  have "nm_cmd (newcamd_demo_login\<lparr>nm_cmd := 0x80\<rparr>) \<noteq> NCD_MSG_LOGIN" "ns_state (session_zero 1) \<noteq> 1"
    by (simp_all add: NCD_MSG_LOGIN_def session_zero_def)
  with newcamd_requests_need_login [OF d] d show ?thesis by simp
qed

subsection \<open>Connections are accounted for\<close>

text \<open>A client that was created and has no thread yet.\<close>

definition fresh_client :: "nat set \<Rightarrow> nat \<Rightarrow> nat multiset \<Rightarrow> server \<Rightarrow> bool" where
  "fresh_client ts a held w \<longleftrightarrow> finite ts \<and> a \<notin> ts \<and> ecm_inv (insert a ts) held (sv_ecm w) \<and>
     (\<forall>b \<in> insert a ts. session_ok b w) \<and> op_connections (sv_optimizer w) = int (card ts) + 1"

lemma fresh_refs:
  assumes "fresh_client ts a held w"
  obtains c where "pl_heap (sv_pool w) a = Some c" "cl_refs c = 1 + int (count held a)" "\<not> cl_zombie c"
proof -
  have i: "ecm_inv (insert a ts) held (sv_ecm w)" using assms by (simp add: fresh_client_def)
  obtain c where c: "pl_heap (sv_pool w) a = Some c" by (rule owner_alloc [OF i insertI1])
  have "pool_inv \<lparr>pw_pool = sv_pool w, pw_owners = insert a ts, pw_held = held\<rparr>"
    using i by (intro reachable_inv) (simp add: ecm_inv_def)
  with heap_okD [of "pl_heap (sv_pool w)" "insert a ts" held a c] c have "cl_refs c = 1 + int (count held a)" "\<not> cl_zombie c"
    by (simp_all add: pool_inv_alt)
  with c that show thesis by blast
qed

lemma fresh_destroy:
  assumes "fresh_client ts a (mset_set ts) w"
  shows "\<exists>w'. server_destroy_client a w = Some w' \<and> server_inv (ts, w')"
proof -
  have f: "finite ts" "a \<notin> ts" "ecm_inv (insert a ts) (mset_set ts) (sv_ecm w)" "\<forall>b \<in> ts. session_ok b w"
    "op_connections (sv_optimizer w) = int (card ts) + 1"
    using assms by (auto simp: fresh_client_def)
  obtain c where c: "pl_heap (sv_pool w) a = Some c" "cl_refs c = 1"
    using fresh_refs [OF assms] f(1,2) by auto
  obtain p where p: "cccam_client_destroy a (sv_pool w) = Some p" "pl_heap p = (pl_heap (sv_pool w))(a := None)"
    using c by (auto simp: cccam_client_destroy_def Let_def split: option.splits)
  define w' where "w' = (set_pool p w)\<lparr>sv_optimizer := cccam_load_balancer_release_connection (sv_optimizer w)\<rparr>"
  have "ecm_inv ts (mset_set ts) (sv_ecm w')"
    using ecm_inv_steps(4) [OF f(3) insertI1 p(1)] f(2) by (simp add: w'_def)
  moreover have "session_ok b w'" if "b \<in> ts" for b
  proof -
    have "client_view (sv_pool w') b = client_view (sv_pool w) b"
      using that f(2) client_view_upd [OF p(2), of b] by (auto simp: w'_def)
    with that f(4) session_ok_frame show ?thesis by blast
  qed
  ultimately have "server_inv (ts, w')"
    using f by (simp add: server_inv_def w'_def cccam_load_balancer_release_connection_def)
  moreover have "server_destroy_client a w = Some w'" by (simp add: server_destroy_client_def p(1) w'_def)
  ultimately show ?thesis by blast
qed

lemma fresh_pool:
  assumes "fresh_client ts a held w" and "ecm_inv (insert a ts) held' (sv_ecm (set_pool p w))"
    and "client_view p = client_view (sv_pool w)"
  shows "fresh_client ts a held' (set_pool p w)"
  using assms session_ok_frame [of "set_pool p w" _ w] by (auto simp: fresh_client_def)

lemma fresh_ref:
  assumes "fresh_client ts a held w"
  shows "\<exists>p. cccam_client_ref a (sv_pool w) = Some (True, p) \<and> fresh_client ts a (add_mset a held) (set_pool p w)"
proof -
  obtain c where c: "pl_heap (sv_pool w) a = Some c" "\<not> cl_zombie c" "0 < cl_refs c" using fresh_refs [OF assms] by force
  define p where "p = (sv_pool w)\<lparr>pl_heap := (pl_heap (sv_pool w))(a \<mapsto> c\<lparr>cl_refs := cl_refs c + 1\<rparr>)\<rparr>"
  have r: "cccam_client_ref a (sv_pool w) = Some (True, p)"
    using c by (simp add: cccam_client_ref_def pool_acquire_locked_def p_def)
  moreover have "client_view p = client_view (sv_pool w)" by (auto simp: client_view_def p_def c fun_eq_iff)
  moreover have "ecm_inv (insert a ts) held (sv_ecm w)" using assms by (simp add: fresh_client_def)
  ultimately show ?thesis using fresh_pool [OF assms] ecm_inv_steps(2) [OF _ insertI1 r] by blast
qed

lemma fresh_unref:
  assumes "fresh_client ts a (add_mset a held) w"
  shows "\<exists>p. cccam_client_unref a (sv_pool w) = Some p \<and> fresh_client ts a held (set_pool p w)"
proof -
  obtain c where c: "pl_heap (sv_pool w) a = Some c" "cl_refs c = 2 + int (count held a)"
    using fresh_refs [OF assms] by auto
  define p where "p = (sv_pool w)\<lparr>pl_heap := (pl_heap (sv_pool w))(a \<mapsto> c\<lparr>cl_refs := cl_refs c - 1\<rparr>)\<rparr>"
  have r: "cccam_client_unref a (sv_pool w) = Some p"
    using c by (simp add: cccam_client_unref_def Let_def p_def)
  moreover have "client_view p = client_view (sv_pool w)" by (auto simp: client_view_def p_def c fun_eq_iff)
  moreover have "ecm_inv (insert a ts) (add_mset a held) (sv_ecm w)" using assms by (simp add: fresh_client_def)
  ultimately show ?thesis using fresh_pool [OF assms, of held p] ecm_inv_steps(3) [of "insert a ts" "add_mset a held" w a p] by simp
qed

lemma fresh_create:
  assumes inv: "server_inv (ts, w)" and free: "pl_heap (sv_pool w) a = None"
    and allow: "cccam_load_balancer_allow_connection (sv_optimizer w) = (ok, opt)" "ok \<noteq> 0"
    and cr: "cccam_client_create mem a now fd addr (sv_pool w) = (Some b, p)"
  shows "b = a \<and> (\<exists>c. pl_heap p a = Some c \<and>
    fresh_client ts a (mset_set ts) (set_client a (c\<lparr>cl_is_newcamd := True\<rparr>) (set_pool p (w\<lparr>sv_optimizer := opt\<rparr>))))"
proof -
  have i: "finite ts" "ecm_inv ts (mset_set ts) (sv_ecm w)" "\<forall>a \<in> ts. session_ok a w" "op_connections (sv_optimizer w) = int (card ts)"
    using inv by (simp_all add: server_inv_def)
  have b: "b = a" and p: "pl_heap p = (pl_heap (sv_pool w))(a \<mapsto> new_client now fd addr a)"
    using create_view [OF cr] by simp_all
  let ?w1 = "w\<lparr>sv_optimizer := opt\<rparr>" and ?c = "new_client now fd addr a"
  let ?w2 = "set_client a (?c\<lparr>cl_is_newcamd := True\<rparr>) (set_pool p ?w1)"
  have fresh: "a \<notin> ts" by (rule not_owner [OF i(2) free])
  have "ecm_inv (insert a ts) (mset_set ts) (sv_ecm (set_pool p ?w1))"
    using ecm_inv_steps(1) [of ts "mset_set ts" ?w1 mem a now fd addr p] i(2) cr b free by simp
  then have inv2: "ecm_inv (insert a ts) (mset_set ts) (sv_ecm ?w2)"
    by (rule set_client_inv [where c = ?c]) (simp_all add: p)
  have "session_ok a ?w2" by (rule new_session [where c = "?c\<lparr>cl_is_newcamd := True\<rparr>"]) (simp_all add: new_client_def)
  moreover have "session_ok d ?w2" if "d \<in> ts" for d
  proof -
    have "client_view (sv_pool ?w2) d = client_view (sv_pool w) d"
      using that fresh by (auto simp: client_view_def p)
    with that i(3) session_ok_frame show ?thesis by blast
  qed
  moreover have "op_connections opt = int (card ts) + 1"
    using allow i(4) by (auto simp: cccam_load_balancer_allow_connection_def split: if_splits)
  ultimately have "fresh_client ts a (mset_set ts) ?w2" using inv2 i(1) fresh by (simp add: fresh_client_def)
  with b p show ?thesis by auto
qed

text \<open>
  A socket accepted on the Newcamd port never leaks: whichever step fails (filter, limit, allocation, the
  initial bytes, the thread), the pool, the references and the connection counter are those of the
  running threads. The session of the new client starts before the login, with the login key, and
  without the client's id, which the start of the session clears.
\<close>

theorem newcamd_accept_accounted:
  assumes "server_inv (ts, w)" and "pl_heap (sv_pool w) a = None"
  shows "\<exists>r w' io'. newcamd_accept cfg init_seq mem mem2 a thread now fd addr w io = Some (r, w', io') \<and>
    server_inv (case r of None \<Rightarrow> ts | Some (b, s) \<Rightarrow> insert b ts, w') \<and>
    (case r of None \<Rightarrow> True | Some (b, s) \<Rightarrow> b = a \<and> a \<notin> ts \<and> ns_state s = 0 \<and> ns_client_id s = 0 \<and>
      ns_login_key s = cccam_newcamd_login_key init_seq (nc_des_key cfg) 14 \<and> ns_session_key s = ns_login_key s)"
proof -
  obtain ok opt where al: "cccam_load_balancer_allow_connection (sv_optimizer w) = (ok, opt)" by fastforce
  obtain x p where cr: "cccam_client_create mem a now fd addr (sv_pool w) = (x, p)" by fastforce
  have conn: "op_connections (sv_optimizer w) = int (card ts)" using assms(1) by (simp add: server_inv_def)
  consider (out) "\<not> server_ip_allowed (sv_ips w) addr \<or> ok = 0" | (no) "server_ip_allowed (sv_ips w) addr" "ok \<noteq> 0" "x = None"
    | (new) b where "server_ip_allowed (sv_ips w) addr" "ok \<noteq> 0" "x = Some b" by (cases x) auto
  then show ?thesis
  proof cases
    case out
    moreover have "w\<lparr>sv_optimizer := opt\<rparr> = w" if "ok = 0"
      using al that by (auto simp: cccam_load_balancer_allow_connection_def split: if_splits)
    ultimately have "newcamd_accept cfg init_seq mem mem2 a thread now fd addr w io = Some (None, w, io)"
      using al by (auto simp: newcamd_accept_def)
    with assms(1) show ?thesis by simp
  next
    case no
    have "cccam_load_balancer_release_connection opt = sv_optimizer w"
      using al no conn by (auto simp: cccam_load_balancer_release_connection_def cccam_load_balancer_allow_connection_def split: if_splits)
    moreover have "p = sv_pool w" using create_fails cr no by simp
    ultimately have "newcamd_accept cfg init_seq mem mem2 a thread now fd addr w io = Some (None, w, io)"
      using al no cr by (simp add: newcamd_accept_def set_pool_def)
    with assms(1) show ?thesis by simp
  next
    case new
    from fresh_create [OF assms al new(2) cr [unfolded new(3)]] obtain c where b: "b = a" and c: "pl_heap p a = Some c"
      and f: "fresh_client ts a (mset_set ts) (set_client a (c\<lparr>cl_is_newcamd := True\<rparr>) (set_pool p (w\<lparr>sv_optimizer := opt\<rparr>)))"
      by blast
    define w2 where "w2 = set_client a (c\<lparr>cl_is_newcamd := True\<rparr>) (set_pool p (w\<lparr>sv_optimizer := opt\<rparr>))"
    note f = f [folded w2_def]
    obtain rc s io1 where st: "(if mem2 then cccam_newcamd_session_start cfg init_seq io else (-1, session_zero 0, io)) = (rc, s, io1)"
      by (metis prod_cases3)
    obtain p2 where p2: "cccam_client_ref a (sv_pool w2) = Some (True, p2)" "fresh_client ts a (add_mset a (mset_set ts)) (set_pool p2 w2)"
      using fresh_ref [OF f] by blast
    obtain p3 where p3: "cccam_client_unref a p2 = Some p3" "fresh_client ts a (mset_set ts) (set_pool p3 (set_pool p2 w2))"
      using fresh_unref [OF p2(2)] by auto
    obtain w3 where w3: "server_destroy_client a w2 = Some w3" "server_inv (ts, w3)" using fresh_destroy [OF f] by blast
    obtain w4 where w4: "server_destroy_client a (set_pool p3 (set_pool p2 w2)) = Some w4" "server_inv (ts, w4)"
      using fresh_destroy [OF p3(2)] by blast
    have acc: "newcamd_accept cfg init_seq mem mem2 a thread now fd addr w io =
       (if rc \<noteq> 0 then Some (None, w3, io1) else if thread then Some (Some (a, s), set_pool p2 w2, io1) else Some (None, w4, io1))"
      using new al cr b c st p2(1) p3(1) w3(1) w4(1) by (simp add: newcamd_accept_def flip: w2_def)
    have "server_inv (insert a ts, set_pool p2 w2)" and "a \<notin> ts"
      using p2(2) by (auto simp: fresh_client_def server_inv_def)
    moreover have "ns_state s = 0 \<and> ns_client_id s = 0 \<and> ns_login_key s = cccam_newcamd_login_key init_seq (nc_des_key cfg) 14
        \<and> ns_session_key s = ns_login_key s" if "rc = 0"
      using st that by (auto simp: cccam_newcamd_session_start_def Let_def session_zero_def split: if_splits prod.splits)
    ultimately show ?thesis using acc w3(2) w4(2) by (cases "rc = 0"; cases thread) simp_all
  qed
qed

theorem newcamd_accept_accounted_witness:
  "\<exists>r w' io'. newcamd_accept newcamd_config_initial (replicate 14 7) True True 3 True 5 4 1 demo_server newcamd_demo_io = Some (r, w', io') \<and>
    server_inv (case r of None \<Rightarrow> {} | Some (b, s) \<Rightarrow> insert b {}, w')"
proof -
  have "server_inv ({}, demo_server)" unfolding demo_server_def by (rule server_inv_initial)
  moreover have "pl_heap (sv_pool demo_server) 3 = None"
    by (simp add: demo_server_def server_initial_def ecm_world_initial_def pool_initial_def)
  ultimately show ?thesis
    using newcamd_accept_accounted [of "{}" demo_server 3 newcamd_config_initial "replicate 14 7" True True True 5 4 1 newcamd_demo_io] by blast
qed

end
