(* ===== verification/Buffers.thy ===== *)
theory Buffers
  imports Block_Cipher
begin

text \<open>
  Arrays of bytes with the run of the program made explicit: a buffer is the list of its initialised bytes, and an
  access outside gives \<open>None\<close>, which is what the source does not define. Used by the engines of the key emulator,
  which work in place on a local copy of the section.
\<close>

definition rd :: "u8 list \<Rightarrow> nat \<Rightarrow> u8 option" where
  "rd b i = (if i < length b then Some (b ! i) else None)"

definition rd_sub :: "u8 list \<Rightarrow> nat \<Rightarrow> nat \<Rightarrow> u8 list option" where
  "rd_sub b i n = (if i + n \<le> length b then Some (take n (drop i b)) else None)"

text \<open>What \<open>f\<close> does to the \<open>n\<close> bytes at \<open>i\<close>, in place.\<close>

definition at_sub :: "nat \<Rightarrow> nat \<Rightarrow> (u8 list \<Rightarrow> u8 list) \<Rightarrow> u8 list \<Rightarrow> u8 list option" where
  "at_sub i n f b = (if i + n \<le> length b then Some (take i b @ f (take n (drop i b)) @ drop (i + n) b) else None)"

text \<open>\<open>memmove(b + d, b + s, n)\<close> inside the buffer, and \<open>memcpy(b + d, xs, n)\<close>.\<close>

definition move_sub :: "nat \<Rightarrow> nat \<Rightarrow> nat \<Rightarrow> u8 list \<Rightarrow> u8 list" where
  "move_sub d s n b = take d b @ take n (drop s b) @ drop (d + n) b"

definition copy_sub :: "nat \<Rightarrow> u8 list \<Rightarrow> u8 list \<Rightarrow> u8 list" where
  "copy_sub d xs b = take d b @ xs @ drop (d + length xs) b"

lemma rd_Some [simp]: "i < length b \<Longrightarrow> rd b i = Some (b ! i)"
  by (simp add: rd_def)

lemma rd_sub_Some [simp]: "i + n \<le> length b \<Longrightarrow> rd_sub b i n = Some (take n (drop i b))"
  by (simp add: rd_sub_def)

lemma rd_sub_length: "rd_sub b i n = Some x \<Longrightarrow> length x = n"
  by (auto simp: rd_sub_def split: if_splits)

lemma at_sub_length: "at_sub i n f b = Some b' \<Longrightarrow> (\<And>x. length (f x) = length x) \<Longrightarrow> length b' = length b"
  by (auto simp: at_sub_def split: if_splits)

lemma at_sub_parts: "length a = i \<Longrightarrow> length b = n \<Longrightarrow> at_sub i n f (a @ b @ c) = Some (a @ f b @ c)"
  by (simp add: at_sub_def)

lemma length_move_sub [simp]: "s + n \<le> length b \<Longrightarrow> d + n \<le> length b \<Longrightarrow> length (move_sub d s n b) = length b"
  by (simp add: move_sub_def)

lemma length_copy_sub [simp]: "d + length xs \<le> length b \<Longrightarrow> length (copy_sub d xs b) = length b"
  by (simp add: copy_sub_def)

end
