(* ===== verification/Irdeto.thy ===== *)
theory Irdeto
  imports Emu Des_Words Buffers "HOL-Library.Monad_Syntax"
begin

text \<open>
  The Irdeto2 engine of the emulator, \<open>src/CCshare/cccam3_emu_irdeto.c\<close>: its triple DES in CBC, the hash of a
  section, the ECM and the EMMs that bring new keys. A section is the list of bytes the caller passed; the local copy of
  a section is a buffer of \<open>Buffers\<close>, and \<open>None\<close> is a run the source does not define (a byte outside the
  section or the copied part is used). Shown here: the cipher is undone, an ECM that a head end built is opened, what
  the numbering of the keys does to them, and which sections stay inside their buffers.
\<close>

subsection \<open>Cipher and hash\<close>

definition irdeto2_encrypt :: "u8 list \<Rightarrow> u8 list \<Rightarrow> nat \<Rightarrow> u8 list \<Rightarrow> u8 list" where
  "irdeto2_encrypt seed key len data = cbc_encrypt_blocks (des_ede_encrypt key (drop 8 key)) (take 8 seed) (len div 8) data"

definition irdeto2_decrypt :: "u8 list \<Rightarrow> u8 list \<Rightarrow> nat \<Rightarrow> u8 list \<Rightarrow> u8 list" where
  "irdeto2_decrypt seed key len data = cbc_decrypt_blocks (des_ede_decrypt key (drop 8 key)) (take 8 seed) (len div 8) data"

text \<open>The blocks of the hashed bytes; the last one is filled with bytes of the IV.\<close>

function ird_hash_blocks :: "(u8 list \<Rightarrow> u8 list) \<Rightarrow> u8 list \<Rightarrow> u8 list \<Rightarrow> u8 list \<Rightarrow> u8 list" where
  "ird_hash_blocks f iv cbuff data =
     (if data = [] then cbuff
      else let l = length (take 8 data) in
        ird_hash_blocks f iv (f (xor_bytes cbuff (take 8 data @ take (8 - l) (drop 8 iv)))) (drop 8 data))"
  by auto
termination by (relation "measure (\<lambda>(f, iv, cbuff, data). length data)") (auto intro!: diff_less)

declare ird_hash_blocks.simps [simp del]

text \<open>The \<open>len\<close> bytes at \<open>pos\<close> of a buffer; \<open>len\<close> may be less than 8, then nothing is hashed.\<close>

definition ird_calculate_hash :: "u8 list \<Rightarrow> u8 list \<Rightarrow> u8 list \<Rightarrow> int \<Rightarrow> int \<Rightarrow> bool option" where
  "ird_calculate_hash key iv buf pos len =
     (let len = len - 8 in
      case (rd_sub buf (nat pos) (nat len), rd_sub buf (nat (pos + len)) 8) of
        (Some data, Some expected) \<Rightarrow>
          Some (ird_hash_blocks (des_ede_encrypt key (drop 8 key)) iv (replicate 8 0) data = expected)
      | _ \<Rightarrow> None)"

subsection \<open>Keys\<close>

text \<open>\<open>%X\<close>.\<close>

fun c_hex :: "nat \<Rightarrow> string" where
  "c_hex n = (if n < 16 then [hex_upper n] else c_hex (n div 16) @ [hex_upper (n mod 16)])"

declare c_hex.simps [simp del]

definition ird_get_key :: "u32 \<Rightarrow> u32 \<Rightarrow> char \<Rightarrow> nat \<Rightarrow> emu \<Rightarrow> u8 list option" where
  "ird_get_key today ident key_name key_index st =
     (let buf = cccam_emu_find_key today (CHR ''I'') ident (Some (key_name # c_hex key_index)) 0 16 st in
      if length buf \<ge> 16 then Some buf else None)"

subsection \<open>Elements of a section\<close>

text \<open>
  The loop over the elements: \<open>l\<close> is the length of the element at \<open>i\<close>, and \<open>view\<close> is the buffer in the state of the
  loop.
\<close>

function ird_walk :: "('a \<Rightarrow> u8 list) \<Rightarrow> (nat \<Rightarrow> nat \<Rightarrow> 'a \<Rightarrow> 'a option) \<Rightarrow> nat \<Rightarrow> nat \<Rightarrow> 'a \<Rightarrow> 'a option" where
  "ird_walk view step i end s =
     (if end \<le> i then Some s
      else (case rd (view s) (i + 1) of
          None \<Rightarrow> None
        | Some n \<Rightarrow>
            let l = (if n \<noteq> 0 then unat (n AND 0x3F) + 2 else 1) in
            (case step i l s of None \<Rightarrow> None | Some s' \<Rightarrow> ird_walk view step (i + l) end s')))"
  by auto
termination by (relation "measure (\<lambda>(view, step, i, end, s). end - i)") (auto split: if_splits)

declare ird_walk.simps [simp del]

text \<open>The test \<open>i <= base - l\<close>, in 32 unsigned bits.\<close>

definition ird_fits :: "int \<Rightarrow> nat \<Rightarrow> nat \<Rightarrow> bool" where
  "ird_fits base i l \<longleftrightarrow> (of_nat i :: u32) \<le> of_int base - of_nat l"

text \<open>Keys inside an element are decrypted where they are. \<open>pmk\<close>: the elements 0x68 too.\<close>

definition ird_open_element :: "bool \<Rightarrow> u8 list \<Rightarrow> u8 list \<Rightarrow> int \<Rightarrow> nat \<Rightarrow> nat \<Rightarrow> u8 list \<Rightarrow> u8 list option" where
  "ird_open_element pmk keyIV key base i l buf =
     (case rd buf i of
        None \<Rightarrow> None
      | Some tag \<Rightarrow>
          if (tag = 0x10 \<or> tag = 0x50) \<and> l = 0x13 \<and> ird_fits base i l then at_sub (i + 3) 16 (irdeto2_decrypt keyIV key 16) buf
          else if tag = 0x78 \<and> l = 0x14 \<and> ird_fits base i l then at_sub (i + 4) 16 (irdeto2_decrypt keyIV key 16) buf
          else if pmk \<and> tag = 0x68 \<and> l = 0x26 \<and> ird_fits base i l then at_sub (i + 3) 32 (irdeto2_decrypt keyIV key 32) buf
          else Some buf)"

subsection \<open>ECM\<close>

definition ird_sct_len :: "u8 \<Rightarrow> u8 \<Rightarrow> nat" where
  "ird_sct_len b1 b2 = unat ((push_bit 8 (ucast (b1 AND 0x0F)) OR ucast b2) :: u16)"

text \<open>The control word with its check bytes.\<close>

definition ird_check_bytes :: "u8 list \<Rightarrow> u8 list" where
  "ird_check_bytes dw = fold (\<lambda>j dw. dw[j + 3 := dw ! j + dw ! (j + 1) + dw ! (j + 2)]) [0, 4, 8, 12] dw"

text \<open>The second loop of the ECM: the first element 0x78 that fits.\<close>

function ird_find_cw :: "u8 list \<Rightarrow> int \<Rightarrow> nat \<Rightarrow> nat \<Rightarrow> u8 list option option" where
  "ird_find_cw ecm base i end =
     (if end \<le> i then Some None
      else (case (rd ecm i, rd ecm (i + 1)) of
          (Some tag, Some n) \<Rightarrow>
            let l = (if n \<noteq> 0 then unat (n AND 0x3F) + 2 else 1) in
            if tag = 0x78 \<and> l = 0x14 \<and> ird_fits base i l then map_option Some (rd_sub ecm (i + 4) 16)
            else ird_find_cw ecm base (i + l) end
        | _ \<Rightarrow> None))"
  by auto
termination by (relation "measure (\<lambda>(ecm, base, i, end). end - i)") (auto split: if_splits)

declare ird_find_cw.simps [simp del]

text \<open>
  From the keys on: \<open>head\<close> are the first twelve bytes of the copy and \<open>body\<close> the others, \<open>len\<close> is the byte \<open>length\<close>.
\<close>

definition ird_ecm_body :: "u8 list \<Rightarrow> u8 list \<Rightarrow> u8 list \<Rightarrow> u8 list \<Rightarrow> u8 list \<Rightarrow> nat \<Rightarrow> u8 list option option" where
  "ird_ecm_body key okeySeed keyIV head body len =
     (let keySeed = irdeto2_encrypt (replicate 16 0) key 16 okeySeed; base = int len - 8; end = len - 8 in do {
        ecm \<leftarrow> at_sub 0 len (irdeto2_decrypt keyIV keySeed len) body;
        skip \<leftarrow> rd ecm 0;
        ecm \<leftarrow> ird_walk id (ird_open_element False keyIV key base) (unat (skip AND 7) + 1) end ecm;
        skip \<leftarrow> rd ecm 0;
        ok \<leftarrow> ird_calculate_hash keySeed keyIV (head @ ecm) 6 (int len + 6);
        if ok then ird_find_cw ecm base (unat (skip AND 7) + 1) end else Some None
      })"

definition cccam_emu_irdeto_ecm :: "u32 \<Rightarrow> emu \<Rightarrow> u16 \<Rightarrow> u8 list \<Rightarrow> u8 list \<Rightarrow> (int \<times> u8 list) option" where
  "cccam_emu_irdeto_ecm today st caid oecm dw = do {
     b1 \<leftarrow> rd oecm 1;
     b2 \<leftarrow> rd oecm 2;
     let ecmLen = ird_sct_len b1 b2;
     if ecmLen < 12 \<or> ecmLen > 512 then Some (EMU_NOT_SUPPORTED, dw)
     else do {
       len \<leftarrow> rd oecm 11;
       keyNr \<leftarrow> rd oecm 9;
       b8 \<leftarrow> rd oecm 8;
       let ident = ucast b8 OR push_bit 8 (ucast caid);
       if ecmLen < unat len + 12 then Some (EMU_NOT_SUPPORTED, dw)
       else (case (ird_get_key today ident (CHR ''0'') (unat keyNr) st, ird_get_key today ident (CHR ''M'') 1 st,
                   ird_get_key today ident (CHR ''M'') 2 st) of
           (Some key, Some okeySeed, Some keyIV) \<Rightarrow> do {
             ecmCopy \<leftarrow> rd_sub oecm 0 ecmLen;
             cw \<leftarrow> ird_ecm_body key okeySeed keyIV (take 12 ecmCopy) (drop 12 ecmCopy) (unat len);
             (case cw of None \<Rightarrow> Some (EMU_NOT_SUPPORTED, dw)
              | Some cw \<Rightarrow> Some (EMU_OK, copy_sub 0 (ird_check_bytes cw) dw))
           }
         | _ \<Rightarrow> Some (EMU_KEY_NOT_FOUND, dw))
     }
   }"

subsection \<open>EMMs\<close>

definition ird_fausto_xor :: "u8 list" where
  "ird_fausto_xor =
     [0x22, 0x58, 0xBD, 0x85, 0x2E, 0x8E, 0x52, 0x80, 0xA3, 0x79, 0x98, 0x69, 0x68, 0xE2, 0xD8, 0x4D]"

text \<open>
  What an EMM changes: the keys of the emulator, the key file, and the number of keys added. \<open>mem\<close> and \<open>writable\<close> are
  the outcomes of \<open>calloc\<close> and of opening the key file.
\<close>

type_synonym emm_state = "(emu \<times> file_system) \<times> nat"

definition ird_add_key :: "(emu_key \<Rightarrow> bool) \<Rightarrow> bool \<Rightarrow> u32 \<Rightarrow> string \<Rightarrow> u8 list \<Rightarrow> emm_state \<Rightarrow> emm_state" where
  "ird_add_key mem writable ident keyName key = (\<lambda>(w, keysAdded).
     (cccam_emu_add_runtime_key mem writable (CHR ''I'') ident (Some keyName) key 16 True w, keysAdded + 1))"

text \<open>The elements of the opened EMM that are keys: 0x10 and 0x50 (operator keys), 0x68 (two management keys).\<close>

definition ird_op_element ::
  "(emu_key \<Rightarrow> bool) \<Rightarrow> bool \<Rightarrow> u32 \<Rightarrow> int \<Rightarrow> u8 list \<Rightarrow> nat \<Rightarrow> nat \<Rightarrow> emm_state \<Rightarrow> emm_state option" where
  "ird_op_element mem writable ident base emm i l s = do {
     tag \<leftarrow> rd emm i;
     if (tag = 0x10 \<or> tag = 0x50) \<and> l = 0x13 \<and> ird_fits base i l then do {
       nr \<leftarrow> rd emm (i + 2);
       key \<leftarrow> rd_sub emm (i + 3) 16;
       Some (ird_add_key mem writable ident (hex_digits_of 2 (unat (drop_bit 2 nr))) key s)
     }
     else Some s
   }"

definition ird_pmk_element ::
  "(emu_key \<Rightarrow> bool) \<Rightarrow> bool \<Rightarrow> u32 \<Rightarrow> int \<Rightarrow> u8 list \<Rightarrow> nat \<Rightarrow> nat \<Rightarrow> emm_state \<Rightarrow> emm_state option" where
  "ird_pmk_element mem writable ident base emm i l s = do {
     tag \<leftarrow> rd emm i;
     if tag = 0x68 \<and> l = 0x26 \<and> ird_fits base i l then do {
       key0 \<leftarrow> rd_sub emm (i + 3) 16;
       key1 \<leftarrow> rd_sub emm (i + 19) 16;
       Some (ird_add_key mem writable ident ''M4'' key1 (ird_add_key mem writable ident ''M3'' key0 s))
     }
     else Some s
   }"

text \<open>\<open>True\<close> is the return value 0.\<close>

definition ird_do_emm_type_op ::
  "(emu_key \<Rightarrow> bool) \<Rightarrow> bool \<Rightarrow> u32 \<Rightarrow> u8 list \<Rightarrow> u8 list \<Rightarrow> u8 list \<Rightarrow> u8 list \<Rightarrow> nat \<Rightarrow> nat \<Rightarrow> nat \<Rightarrow> emm_state \<Rightarrow> (bool \<times> emm_state) option" where
  "ird_do_emm_type_op mem writable ident emm keySeed keyIV keyPMK emmLen startOffset len s = do {
     let keySeed = irdeto2_encrypt (replicate 16 0) keyPMK 16 keySeed;
     emm \<leftarrow> at_sub startOffset len (irdeto2_decrypt keyIV keySeed len) emm;
     emm \<leftarrow> ird_walk id (ird_open_element False keyIV keyPMK (int startOffset + int len - 8)) 16 (startOffset + (len - 8)) emm;
     let emm = move_sub 6 7 (emmLen - 7) emm;
     ok \<leftarrow> ird_calculate_hash keySeed keyIV emm 3 (int emmLen - 4);
     if ok then do {
       s \<leftarrow> ird_walk (\<lambda>_. emm) (ird_op_element mem writable ident (int startOffset + int len - 9) emm) 15 (startOffset + (len - 9)) s;
       Some (snd s > 0, s)
     }
     else Some (False, s)
   }"

definition ird_do_emm_type_pmk ::
  "(emu_key \<Rightarrow> bool) \<Rightarrow> bool \<Rightarrow> u32 \<Rightarrow> u8 list \<Rightarrow> u8 list \<Rightarrow> u8 list \<Rightarrow> u8 list \<Rightarrow> nat \<Rightarrow> nat \<Rightarrow> nat \<Rightarrow> emm_state \<Rightarrow> (bool \<times> emm_state) option" where
  "ird_do_emm_type_pmk mem writable ident emm keySeed keyIV keyPMK emmLen startOffset len s = do {
     emm \<leftarrow> at_sub startOffset len (irdeto2_decrypt keyIV keySeed len) emm;
     emm \<leftarrow> ird_walk id (ird_open_element True keyIV keyPMK (int startOffset + int len - 8)) 13 (startOffset + (len - 8)) emm;
     let emm = move_sub 7 9 (emmLen - 9) emm;
     ok \<leftarrow> ird_calculate_hash keySeed keyIV emm 3 (int emmLen - 5);
     if ok then do {
       s \<leftarrow> ird_walk (\<lambda>_. emm) (ird_pmk_element mem writable ident (int startOffset + int len - 10) emm) 11 (startOffset + (len - 10)) s;
       Some (snd s > 0, s)
     }
     else Some (False, s)
   }"

text \<open>
  The management keys that are tried in turn; a key is looked up in the store that the earlier ones left. The loop
  ends with the first that brings keys.
\<close>

fun ird_try_keys ::
  "u32 \<Rightarrow> (emu_key \<Rightarrow> bool) \<Rightarrow> bool \<Rightarrow> u32 \<Rightarrow> bool \<Rightarrow> u8 list \<Rightarrow> u8 list \<Rightarrow> u8 list \<Rightarrow> nat \<Rightarrow> nat \<Rightarrow> nat list \<Rightarrow> emm_state \<Rightarrow> emm_state option" where
  "ird_try_keys today mem writable ident op emm okeySeed keyIV startOffset len [] s = Some s"
| "ird_try_keys today mem writable ident op emm okeySeed keyIV startOffset len (p # names) s =
     (case ird_get_key today ident (CHR ''M'') p (fst (fst s)) of
        None \<Rightarrow> ird_try_keys today mem writable ident op emm okeySeed keyIV startOffset len names s
      | Some keyPMK \<Rightarrow> do {
          (found, s) \<leftarrow>
            (if op then
               ird_do_emm_type_op mem writable ident emm okeySeed keyIV (if p \<ge> 5 then xor_bytes keyPMK ird_fausto_xor else keyPMK)
                 (length emm) startOffset len s
             else ird_do_emm_type_pmk mem writable ident emm okeySeed keyIV keyPMK (length emm) startOffset len s);
          if found then Some s else ird_try_keys today mem writable ident op emm okeySeed keyIV startOffset len names s
        })"

definition cccam_emu_irdeto_emm ::
  "u32 \<Rightarrow> (emu_key \<Rightarrow> bool) \<Rightarrow> bool \<Rightarrow> u16 \<Rightarrow> u8 list \<Rightarrow> emu \<times> file_system \<Rightarrow> (int \<times> emu \<times> file_system) option" where
  "cccam_emu_irdeto_emm today mem writable caid oemm w = do {
     b1 \<leftarrow> rd oemm 1;
     b2 \<leftarrow> rd oemm 2;
     let emmLen = ird_sct_len b1 b2;
     if emmLen < 11 \<or> emmLen > 1024 \<or> length oemm < emmLen then Some (EMU_NOT_SUPPORTED, w)
     else do {
       b3 \<leftarrow> rd oemm 3;
       let op = (b3 \<noteq> 0xC3 \<and> b3 \<noteq> 0xCB);
       let startOffset = (if op then 10 else 11);
       group \<leftarrow> rd oemm (startOffset - 2);
       len \<leftarrow> rd oemm (startOffset - 1);
       let ident = ucast group OR push_bit 8 (ucast caid);
       if emmLen < unat len + startOffset then Some (EMU_NOT_SUPPORTED, w)
       else (case (ird_get_key today ident (CHR ''M'') (if op then 0 else 0xA) (fst w), ird_get_key today ident (CHR ''M'') 2 (fst w)) of
           (Some okeySeed, Some keyIV) \<Rightarrow> do {
             s \<leftarrow> ird_try_keys today mem writable ident op (take emmLen oemm) okeySeed keyIV startOffset (unat len)
               (if op then [3, 4, 5, 6] else [0xB]) (w, 0);
             Some (if snd s > 0 then EMU_OK else EMU_NOT_SUPPORTED, fst s)
           }
         | _ \<Rightarrow> Some (EMU_KEY_NOT_FOUND, w))
     }
   }"

subsection \<open>The cipher is undone\<close>

interpretation ede_inverse: block_map "des_ede_decrypt key1 key2" for key1 key2
  by unfold_locales (simp add: des_ede_decrypt_def Let_def)

lemma length_irdeto2_decrypt:
  "8 \<le> length seed \<Longrightarrow> len \<le> length data \<Longrightarrow> length (irdeto2_decrypt seed key len data) = length data"
  by (simp add: irdeto2_decrypt_def ede_inverse.length_cbc_decrypt)

lemma length_irdeto2_encrypt:
  "8 \<le> length seed \<Longrightarrow> len \<le> length data \<Longrightarrow> length (irdeto2_encrypt seed key len data) = length data"
  by (simp add: irdeto2_encrypt_def ede.length_cbc_encrypt)

lemma irdeto2_undone:
  "8 \<le> length seed \<Longrightarrow> len \<le> length data \<Longrightarrow> irdeto2_decrypt seed key len (irdeto2_encrypt seed key len data) = data"
  by (simp add: irdeto2_decrypt_def irdeto2_encrypt_def ede.cbc)

subsection \<open>The numbers of the keys\<close>

lemma is_hex_c_hex [simp]: "is_hex (c_hex n)"
  by (induction n rule: c_hex.induct) (subst c_hex.simps, auto simp: is_hex_append, auto simp: is_hex_def hex_upper_value)

lemma c_hex_value: "hex_digits_value 0 (c_hex n) = int n"
proof (induction n rule: c_hex.induct)
  case (1 n)
  show ?case
  proof (cases "n < 16")
    case True
    then show ?thesis by (simp add: c_hex.simps [of n] hex_upper_value)
  next
    case False
    then have "hex_digits_value 0 (c_hex n) = 16 * int (n div 16) + int (n mod 16)"
      using 1 by (simp add: c_hex.simps [of n] hex_digits_value_append hex_upper_value)
    also have "\<dots> = int (16 * (n div 16) + n mod 16)" by (simp only: of_nat_add of_nat_mult of_nat_numeral)
    finally show ?thesis by (simp only: mult_div_mod_eq)
  qed
qed

lemma strtoul_0_hex: "n < 2 ^ 64 \<Longrightarrow> c_strtoul16 (CHR ''0'' # c_hex n) = n"
proof -
  assume n: "n < 2 ^ 64"
  have z: "hex_value (CHR ''0'') = Some 0" by (simp add: hex_value_def c_isdigit_def char_code_def)
  then have "is_hex (CHR ''0'' # c_hex n)" using is_hex_c_hex [of n] by (simp add: is_hex_def)
  then show ?thesis using n z by (subst strtoul_hex) (simp_all add: c_hex_value)
qed

lemma strtoul_M [simp]: "c_strtoul16 (CHR ''M'' # s) = 0"
proof -
  have "skip_0x (CHR ''M'' # s) = CHR ''M'' # s" by (cases s rule: skip_0x.cases) auto
  then show ?thesis
    by (simp add: c_strtoul16_def skip_space_def c_isspace_def hex_value_def c_isdigit_def char_code_def)
qed

lemma ird_key_indexed:
  "n < 256 \<Longrightarrow> ird_get_key today ident (CHR ''0'') n st
     = (let buf = cccam_emu_find_key today (CHR ''I'') ident None (of_nat n) 16 st in if length buf \<ge> 16 then Some buf else None)"
  by (simp add: ird_get_key_def find_key_named strtoul_0_hex)

lemma ird_key_M: "ird_get_key today ident (CHR ''M'') m st = ird_get_key today ident (CHR ''0'') 0 st"
  by (simp add: ird_key_indexed) (simp add: ird_get_key_def find_key_named)

lemma ird_key_length: "ird_get_key today ident c m st = Some k \<Longrightarrow> length k = 16"
proof -
  assume k: "ird_get_key today ident c m st = Some k"
  have "length (copy_out 16 x) \<le> 16" for x by (simp add: copy_out_def split: option.split)
  with k show ?thesis
    by (auto simp: ird_get_key_def cccam_emu_find_key_def Let_def split: if_splits) (meson le_antisym)+
qed

subsection \<open>Walking over the elements\<close>

lemma ird_walk_total:
  assumes "\<And>i l s. P s \<Longrightarrow> i < end \<Longrightarrow> \<exists>s'. step i l s = Some s' \<and> P s'" and "\<And>s. P s \<Longrightarrow> end < length (view s)" and "P s"
  shows "\<exists>s'. ird_walk view step i end s = Some s' \<and> P s'"
  using assms(3)
proof (induction "end - i" arbitrary: i s rule: less_induct)
  case less
  show ?case
  proof (cases "end \<le> i")
    case False
    let ?l = "let n = view s ! (i + 1) in if n \<noteq> 0 then unat (n AND 0x3F) + 2 else 1"
    obtain s' where s': "step i ?l s = Some s'" "P s'" using assms(1) [OF less.prems, of i ?l] False by auto
    have "0 < ?l" by (simp add: Let_def)
    then have "end - (i + ?l) < end - i" using False by linarith
    from less.hyps [OF this s'(2)] show ?thesis
      using False s'(1) assms(2) [OF less.prems] by (subst ird_walk.simps) (simp add: Let_def)
  qed (use less.prems in \<open>simp add: ird_walk.simps\<close>)
qed

lemma ird_walk_same:
  assumes "\<And>j l. i \<le> j \<Longrightarrow> j < end \<Longrightarrow> step j l s = Some s" and "end < length (view s)"
  shows "ird_walk view step i end s = Some s"
  using assms(1)
proof (induction "end - i" arbitrary: i rule: less_induct)
  case less
  show ?case
  proof (cases "end \<le> i")
    case False
    let ?l = "let n = view s ! (i + 1) in if n \<noteq> 0 then unat (n AND 0x3F) + 2 else 1"
    have "0 < ?l" by (simp add: Let_def)
    then have "end - (i + ?l) < end - i" using False by linarith
    moreover have "step j l s = Some s" if "i + ?l \<le> j" "j < end" for j l using less.prems [of j l] that by linarith
    ultimately have "ird_walk view step (i + ?l) end s = Some s" by (rule less.hyps)
    then show ?thesis
      using False assms(2) less.prems [of i ?l] by (subst ird_walk.simps) (simp add: Let_def)
  qed (simp add: ird_walk.simps)
qed

lemma ird_fits_iff:
  assumes "int l \<le> base" and "base < 2 ^ 32" and "i < 2 ^ 32"
  shows "ird_fits base i l \<longleftrightarrow> int i + int l \<le> base"
proof -
  have "(of_int base - of_nat l :: u32) = of_nat (nat (base - int l))" using assms(1) by simp
  moreover have "nat (base - int l) < 2 ^ 32" using assms(2) by (simp add: nat_less_iff)
  ultimately have "ird_fits base i l \<longleftrightarrow> i \<le> nat (base - int l)"
    using assms(3) by (simp add: ird_fits_def word_le_nat_alt unat_of_nat)
  then show ?thesis using assms(1) by linarith
qed

subsection \<open>Sections stay inside their buffers\<close>

lemma open_element_total:
  assumes "length keyIV = 16" and "i + l \<le> nat base \<or> \<not> ird_fits base i l" and "nat base \<le> length buf" and "i < length buf"
  shows "\<exists>buf'. ird_open_element pmk keyIV key base i l buf = Some buf' \<and> length buf' = length buf"
proof -
  have dec: "length (irdeto2_decrypt keyIV key 16 b) = 16" if "length b = 16" for b
    using that assms(1) by (simp add: length_irdeto2_decrypt)
  have dec2: "length (irdeto2_decrypt keyIV key 32 b) = 32" if "length b = 32" for b
    using that assms(1) by (simp add: length_irdeto2_decrypt)
  show ?thesis
    using assms(2-4) by (auto simp: ird_open_element_def at_sub_def dec dec2)
qed

lemma open_elements_total:
  assumes "length keyIV = 16" and "if pmk then 38 \<le> base else 20 \<le> base" and "base < 2 ^ 32" and "end = nat base" and "end < length buf"
  shows "\<exists>buf'. ird_walk id (ird_open_element pmk keyIV key base) i end buf = Some buf' \<and> length buf' = length buf"
proof (rule ird_walk_total [where P = "\<lambda>b. length b = length buf"])
  fix j l and b :: "u8 list" assume b: "length b = length buf" and j: "j < end"
  have base: "int end = base" using assms(2,4) by (auto split: if_splits)
  show "\<exists>b'. ird_open_element pmk keyIV key base j l b = Some b' \<and> length b' = length buf"
  proof (cases "int l \<le> base")
    case True
    have "int j < 2 ^ 32" using j base assms(3) by linarith
    then have "ird_fits base j l \<longleftrightarrow> int j + int l \<le> base" by (intro ird_fits_iff True assms(3)) simp
    then have "j + l \<le> nat base \<or> \<not> ird_fits base j l" by linarith
    then show ?thesis using open_element_total [OF assms(1), of j l base b pmk key] b j assms(4,5) by simp
  next
    case False
    with assms(2) have "l \<noteq> 0x13" "l \<noteq> 0x14" "pmk \<Longrightarrow> l \<noteq> 0x26" by (auto split: if_splits)
    then have "ird_open_element pmk keyIV key base j l b = Some b"
      using b j assms(5) by (auto simp: ird_open_element_def)
    with b show ?thesis by simp
  qed
qed (use assms(5) in simp_all)

lemma find_cw_total:
  assumes "20 \<le> base" and "base < 2 ^ 32" and "end = nat base" and "end < length ecm"
  shows "\<exists>r. ird_find_cw ecm base i end = Some r \<and> (case r of None \<Rightarrow> True | Some cw \<Rightarrow> length cw = 16)"
proof (induction "end - i" arbitrary: i rule: less_induct)
  case less
  show ?case
  proof (cases "end \<le> i")
    case False
    let ?l = "let n = ecm ! (i + 1) in if n \<noteq> 0 then unat (n AND 0x3F) + 2 else 1"
    have "0 < ?l" by (simp add: Let_def)
    then have "end - (i + ?l) < end - i" using False by linarith
    note IH = less.hyps [OF this]
    have base: "int end = base" using assms(1,3) by simp
    have "ird_fits base i 0x14 \<Longrightarrow> int i + 20 \<le> base"
      using ird_fits_iff [of "0x14" base i] assms(1,2) False base by simp
    then have "ird_fits base i 0x14 \<Longrightarrow> i + 4 + 16 \<le> length ecm" using base assms(4) by linarith
    then show ?thesis
      using False assms(4) IH by (subst ird_find_cw.simps) (auto simp: Let_def)
  qed (simp add: ird_find_cw.simps)
qed

lemma hash_total:
  assumes "8 \<le> pos + len" and "pos + len \<le> int (length buf)" and "0 \<le> pos" and "pos \<le> int (length buf)"
  shows "\<exists>ok. ird_calculate_hash key iv buf pos len = Some ok"
proof -
  have "nat pos + nat (len - 8) \<le> length buf" "nat (pos + (len - 8)) + 8 \<le> length buf" using assms by (cases "8 \<le> len"; simp add: nat_le_iff)+
  then show ?thesis by (simp add: ird_calculate_hash_def Let_def)
qed

lemma ecm_body_total:
  assumes "length keyIV = 16" and "length head = 12" and "28 \<le> len" and "len \<le> 255" and "len \<le> length body"
  shows "\<exists>r. ird_ecm_body key okeySeed keyIV head body len = Some r"
proof -
  let ?seed = "irdeto2_encrypt (replicate 16 0) key 16 okeySeed" and ?base = "int len - 8"
  have f: "length (irdeto2_decrypt keyIV ?seed len b) = length b" if "length b = len" for b
    using that assms(1) by (simp add: length_irdeto2_decrypt)
  obtain ecm where ecm: "at_sub 0 len (irdeto2_decrypt keyIV ?seed len) body = Some ecm" "length ecm = length body"
    using assms(5) f by (auto simp: at_sub_def)
  have e0: "len - 8 = nat ?base" and lt: "len - 8 < length body" using assms by linarith+
  obtain ecm2 where ecm2: "ird_walk id (ird_open_element False keyIV key ?base) (unat (ecm ! 0 AND 7) + 1) (len - 8) ecm = Some ecm2"
      "length ecm2 = length body"
    using open_elements_total [OF assms(1) _ _ e0, of False ecm key "unat (ecm ! 0 AND 7) + 1"] assms(3-5) ecm(2) lt by auto
  obtain ok where ok: "ird_calculate_hash ?seed keyIV (head @ ecm2) 6 (int len + 6) = Some ok"
    using hash_total [of 6 "int len + 6" "head @ ecm2" ?seed keyIV] assms ecm2(2) by auto
  obtain r where r: "ird_find_cw ecm2 ?base (unat (ecm2 ! 0 AND 7) + 1) (len - 8) = Some r"
    using find_cw_total [OF _ _ e0, of ecm2 "unat (ecm2 ! 0 AND 7) + 1"] assms(3-5) ecm2(2) lt by auto
  have "0 < length ecm" "0 < length ecm2" using assms ecm(2) ecm2(2) by linarith+
  then show ?thesis
    using ecm(1) ecm2(1) ok r by (auto simp: ird_ecm_body_def Let_def)
qed

subsection \<open>An ECM of a head end\<close>

text \<open>
  What a head end sends for the control words \<open>cw\<close>: twelve bytes of header, then 32 encrypted bytes: one byte with
  the number of bytes to skip (none), the element 0x78 with two bytes and the words encrypted under the operator key,
  three more bytes, and the hash over the header from byte 6 and the opened elements.
\<close>

definition ird_plain :: "u8 \<Rightarrow> u8 \<Rightarrow> u8 \<Rightarrow> u8 list \<Rightarrow> u8 list \<Rightarrow> u8 list" where
  "ird_plain p a b cw pad = [p, 0x78, 0x12, a, b] @ cw @ pad"

definition ird_head_end :: "u8 list \<Rightarrow> u8 list \<Rightarrow> u8 list \<Rightarrow> u8 list \<Rightarrow> u8 \<Rightarrow> u8 \<Rightarrow> u8 \<Rightarrow> u8 list \<Rightarrow> u8 list \<Rightarrow> u8 list" where
  "ird_head_end key seed iv head p a b cw pad =
     (let keySeed = irdeto2_encrypt (replicate 16 0) key 16 seed;
          hash = ird_hash_blocks (des_ede_encrypt keySeed (drop 8 keySeed)) iv (replicate 8 0) (drop 6 head @ ird_plain p a b cw pad) in
      head @ irdeto2_encrypt iv keySeed 32 (ird_plain p a b (irdeto2_encrypt iv key 16 cw) pad @ hash))"

lemma length_hash_blocks: "length cb = 8 \<Longrightarrow> length (ird_hash_blocks (des_ede_encrypt k1 k2) iv cb data) = 8"
proof (induction "des_ede_encrypt k1 k2" iv cb data rule: ird_hash_blocks.induct)
  case (1 iv cb data)
  show ?case
  proof (cases "data = []")
    case False
    have "length (des_ede_encrypt k1 k2 x) = 8" for x by (simp add: des_ede_encrypt_def Let_def)
    with 1(1) [OF False refl] show ?thesis using False by (subst ird_hash_blocks.simps) (simp add: Let_def)
  qed (simp add: ird_hash_blocks.simps 1)
qed

lemma ecm_opens:
  assumes "length iv = 16" and "length head = 12" and "p AND 7 = 0" and "length cw = 16" and "length pad = 3"
  shows "ird_ecm_body key seed iv head (drop 12 (ird_head_end key seed iv head p a b cw pad)) 32 = Some (Some cw)"
proof -
  let ?ks = "irdeto2_encrypt (replicate 16 0) key 16 seed" and ?c = "irdeto2_encrypt iv key 16 cw"
  define hash where "hash = ird_hash_blocks (des_ede_encrypt ?ks (drop 8 ?ks)) iv (replicate 8 0) (drop 6 head @ ird_plain p a b cw pad)"
  have h8: "length hash = 8" unfolding hash_def by (rule length_hash_blocks) simp
  have c16: "length ?c = 16" using assms by (simp add: length_irdeto2_encrypt)
  let ?P = "\<lambda>x. ird_plain p a b x pad @ hash"
  have len: "length (?P x) = 32" if "length x = 16" for x using that assms h8 by (simp add: ird_plain_def)
  have "at_sub 0 32 (irdeto2_decrypt iv ?ks 32) (irdeto2_encrypt iv ?ks 32 (?P ?c)) = Some (?P ?c)"
    using assms len [OF c16] by (simp add: at_sub_def length_irdeto2_encrypt irdeto2_undone)
  then have open1: "at_sub 0 32 (irdeto2_decrypt iv ?ks 32) (drop 12 (ird_head_end key seed iv head p a b cw pad)) = Some (?P ?c)"
    using assms by (simp add: ird_head_end_def Let_def hash_def)
  have "at_sub 5 16 (irdeto2_decrypt iv key 16) ([p, 0x78, 0x12, a, b] @ ?c @ pad @ hash)
      = Some ([p, 0x78, 0x12, a, b] @ irdeto2_decrypt iv key 16 ?c @ pad @ hash)"
    by (rule at_sub_parts) (simp_all add: c16)
  then have "at_sub 5 16 (irdeto2_decrypt iv key 16) (?P ?c) = Some (?P cw)"
    using assms by (simp add: ird_plain_def irdeto2_undone)
  then have elem: "ird_open_element False iv key 24 1 20 (?P ?c) = Some (?P cw)"
    using len [OF c16] by (simp add: ird_open_element_def ird_plain_def ird_fits_iff)
  have "ird_walk id (ird_open_element False iv key 24) 21 24 (?P cw) = Some (?P cw)"
  proof (rule ird_walk_same)
    fix j l :: nat assume "21 \<le> j" "j < 24"
    then show "ird_open_element False iv key 24 j l (?P cw) = Some (?P cw)"
      using len [OF assms(4)] by (auto simp: ird_open_element_def ird_fits_iff)
  qed (use len [OF assms(4)] in simp)
  moreover have "?P x ! 0 = p" "?P x ! 1 = 0x78" "?P x ! 2 = 0x12" for x by (simp_all add: ird_plain_def)
  note nth = this
  have l20: "(let n = (0x12 :: u8) in if n \<noteq> 0 then unat (n AND 0x3F) + 2 else 1) = 20" by simp
  ultimately have walk: "ird_walk id (ird_open_element False iv key 24) 1 24 (?P ?c) = Some (?P cw)"
    using len [OF c16] elem by (subst ird_walk.simps) (simp add: nth numeral_2_eq_2 [symmetric])
  have hash: "ird_calculate_hash ?ks iv (head @ ?P cw) 6 38 = Some True"
    using assms h8 by (simp add: ird_calculate_hash_def Let_def hash_def ird_plain_def)
  have "rd_sub (?P cw) 5 16 = Some cw" using assms len [OF assms(4)] by (simp add: ird_plain_def)
  then have find: "ird_find_cw (?P cw) 24 1 24 = Some (Some cw)"
    using len [OF assms(4)] by (subst ird_find_cw.simps) (simp add: nth nth(2) [unfolded One_nat_def] numeral_2_eq_2 [symmetric] ird_fits_iff)
  show ?thesis
    using open1 walk hash find len [OF c16] len [OF assms(4)] assms(3)
    by (simp add: ird_ecm_body_def Let_def nth)
qed

lemma copy_cw: "length (ird_check_bytes cw) = length cw"
  by (simp add: ird_check_bytes_def)

subsection \<open>Keys of EMMs\<close>

lemma runtime_key_get:
  assumes "em_count st < EMU_MAX_KEYS" and "\<And>k. mem k" and "name \<noteq> []" and "length name \<le> 2" and "length key = 16"
  shows "key_get (ty, ident, of_nat (c_strtoul16 name)) (fst (cccam_emu_add_runtime_key mem writable ty ident (Some name) key 16 persist (st, fs)))
    = Some (key, 0)"
  using add_key_get [of st mem ty ident "of_nat (c_strtoul16 name)" key 16 0] assms
  by (cases name) (auto simp: cccam_emu_add_runtime_key_def Let_def)

lemma ird_key_of_get:
  assumes "key_get (CHR ''I'', ident, of_nat n) st = Some (key, 0)" and "length key = 16" and "n < 256"
  shows "ird_get_key today ident (CHR ''0'') n st = Some key"
  using find_key_get [OF assms(1), of today 16] assms(2,3) by (simp add: ird_key_indexed)

lemma runtime_key_inv:
  assumes "emu_inv (fst w)" and "name \<noteq> []" and "length name \<le> 2"
  shows "emu_inv (fst (cccam_emu_add_runtime_key mem writable (CHR ''I'') ident (Some name) key n persist w))"
  using assms by (cases w; cases name) (auto simp: cccam_emu_add_runtime_key_def Let_def key_types_def intro!: add_key_inv)

text \<open>What every state of the loops over the opened EMM satisfies.\<close>

definition emm_inv :: "emm_state \<Rightarrow> bool" where
  "emm_inv s \<longleftrightarrow> emu_inv (fst (fst s))"

lemma add_key_emm_inv: "emm_inv s \<Longrightarrow> name \<noteq> [] \<Longrightarrow> length name \<le> 2 \<Longrightarrow> emm_inv (ird_add_key mem writable ident name key s)"
  by (cases s) (simp add: emm_inv_def ird_add_key_def runtime_key_inv)

lemma hex_digits_2_ne [simp]: "hex_digits_of 2 v \<noteq> []"
  by (simp add: hex_pair)


lemma fits_below:
  assumes "ird_fits base i l" and "int l \<le> base" and "base < 2 ^ 32" and "int i < base"
  shows "i + l \<le> nat base"
proof -
  have "int i < 2 ^ 32" using assms by linarith
  then have "i < 2 ^ 32" by simp
  then show ?thesis using ird_fits_iff [OF assms(2,3)] assms(1) by simp
qed

lemma op_elements_total:
  assumes "0x13 \<le> base" and "base < 2 ^ 32" and "nat base < length emm" and "emm_inv s"
  shows "\<exists>s'. ird_walk (\<lambda>_. emm) (ird_op_element mem writable ident base emm) i (nat base) s = Some s' \<and> emm_inv s'"
proof (rule ird_walk_total [where P = emm_inv])
  fix j l and s :: emm_state assume s: "emm_inv s" and j: "j < nat base"
  show "\<exists>s'. ird_op_element mem writable ident base emm j l s = Some s' \<and> emm_inv s'"
  proof (cases "l = 0x13 \<and> ird_fits base j l")
    case True
    then have "j + 19 \<le> nat base" using fits_below [of base j 19] j assms(1,2) by auto
    then have "j + 2 < length emm" "j + 3 + 16 \<le> length emm" using assms(3) by linarith+
    with s j assms(3) show ?thesis by (auto simp: ird_op_element_def add_key_emm_inv simp del: split_paired_Ex)
  qed (use s j assms(3) in \<open>auto simp: ird_op_element_def simp del: split_paired_Ex\<close>)
qed (use assms in simp_all)

lemma pmk_elements_total:
  assumes "0x26 \<le> base" and "base < 2 ^ 32" and "nat base < length emm" and "emm_inv s"
  shows "\<exists>s'. ird_walk (\<lambda>_. emm) (ird_pmk_element mem writable ident base emm) i (nat base) s = Some s' \<and> emm_inv s'"
proof (rule ird_walk_total [where P = emm_inv])
  fix j l and s :: emm_state assume s: "emm_inv s" and j: "j < nat base"
  show "\<exists>s'. ird_pmk_element mem writable ident base emm j l s = Some s' \<and> emm_inv s'"
  proof (cases "l = 0x26 \<and> ird_fits base j l")
    case True
    then have "j + 38 \<le> nat base" using fits_below [of base j 38] j assms(1,2) by auto
    then have "j + 3 + 16 \<le> length emm" "j + 19 + 16 \<le> length emm" using assms(3) by linarith+
    with s j assms(3) show ?thesis by (auto simp: ird_pmk_element_def add_key_emm_inv simp del: split_paired_Ex)
  qed (use s j assms(3) in \<open>auto simp: ird_pmk_element_def simp del: split_paired_Ex\<close>)
qed (use assms in simp_all)

lemma op_total:
  assumes "length keyIV = 16" and "length emm = emmLen" and "startOffset = 10" and "18 \<le> len" and "len \<le> 255" and "startOffset + len \<le> emmLen"
    and "emmLen \<le> 1024" and "emm_inv s"
  shows "\<exists>r s'. ird_do_emm_type_op mem writable ident emm keySeed keyIV keyPMK emmLen startOffset len s = Some (r, s') \<and> emm_inv s'"
proof -
  let ?seed = "irdeto2_encrypt (replicate 16 0) keyPMK 16 keySeed" and ?base = "int startOffset + int len - 8"
  obtain e1 where e1: "at_sub startOffset len (irdeto2_decrypt keyIV ?seed len) emm = Some e1" "length e1 = emmLen"
    using assms(1,2,6) by (auto simp: at_sub_def length_irdeto2_decrypt)
  have n: "startOffset + (len - 8) = nat ?base" "nat ?base < emmLen" using assms by linarith+
  obtain e2 where e2: "ird_walk id (ird_open_element False keyIV keyPMK ?base) 16 (startOffset + (len - 8)) e1 = Some e2" "length e2 = emmLen"
    using open_elements_total [OF assms(1) _ _ n(1), of False e1 keyPMK 16] assms n(2) e1(2) by auto
  let ?e3 = "move_sub 6 7 (emmLen - 7) e2"
  have e3: "length ?e3 = emmLen" using assms e2(2) by simp
  obtain ok where ok: "ird_calculate_hash ?seed keyIV ?e3 3 (int emmLen - 4) = Some ok"
    using hash_total [of 3 "int emmLen - 4" ?e3 ?seed keyIV] assms e3 by auto
  have m: "startOffset + (len - 9) = nat (?base - 1)" "nat (?base - 1) < emmLen" using assms by linarith+
  obtain s' where s': "ird_walk (\<lambda>_. ?e3) (ird_op_element mem writable ident (?base - 1) ?e3) 15 (startOffset + (len - 9)) s = Some s'" "emm_inv s'"
    using op_elements_total [of "?base - 1" ?e3 s mem writable ident 15] assms e3 m by auto
  have b: "int startOffset + int len - 9 = ?base - 1" by simp
  show ?thesis
    using e1(1) e2(1) ok s' assms(8) unfolding ird_do_emm_type_op_def b by (auto simp: Let_def simp del: split_paired_Ex)
qed

lemma pmk_total:
  assumes "length keyIV = 16" and "length emm = emmLen" and "startOffset = 11" and "37 \<le> len" and "len \<le> 255" and "startOffset + len \<le> emmLen"
    and "emmLen \<le> 1024" and "emm_inv s"
  shows "\<exists>r s'. ird_do_emm_type_pmk mem writable ident emm keySeed keyIV keyPMK emmLen startOffset len s = Some (r, s') \<and> emm_inv s'"
proof -
  let ?base = "int startOffset + int len - 8"
  obtain e1 where e1: "at_sub startOffset len (irdeto2_decrypt keyIV keySeed len) emm = Some e1" "length e1 = emmLen"
    using assms(1,2,6) by (auto simp: at_sub_def length_irdeto2_decrypt)
  have n: "startOffset + (len - 8) = nat ?base" "nat ?base < emmLen" using assms by linarith+
  obtain e2 where e2: "ird_walk id (ird_open_element True keyIV keyPMK ?base) 13 (startOffset + (len - 8)) e1 = Some e2" "length e2 = emmLen"
    using open_elements_total [OF assms(1) _ _ n(1), of True e1 keyPMK 13] assms n(2) e1(2) by auto
  let ?e3 = "move_sub 7 9 (emmLen - 9) e2"
  have e3: "length ?e3 = emmLen" using assms e2(2) by simp
  obtain ok where ok: "ird_calculate_hash keySeed keyIV ?e3 3 (int emmLen - 5) = Some ok"
    using hash_total [of 3 "int emmLen - 5" ?e3 keySeed keyIV] assms e3 by auto
  have m: "startOffset + (len - 10) = nat (?base - 2)" "nat (?base - 2) < emmLen" using assms by linarith+
  obtain s' where s': "ird_walk (\<lambda>_. ?e3) (ird_pmk_element mem writable ident (?base - 2) ?e3) 11 (startOffset + (len - 10)) s = Some s'" "emm_inv s'"
    using pmk_elements_total [of "?base - 2" ?e3 s mem writable ident 11] assms e3 m by auto
  have b: "int startOffset + int len - 10 = ?base - 2" by simp
  show ?thesis
    using e1(1) e2(1) ok s' assms(8) unfolding ird_do_emm_type_pmk_def b by (auto simp: Let_def simp del: split_paired_Ex)
qed

lemma try_keys_total:
  assumes "length keyIV = 16" and "startOffset = (if op then 10 else 11)" and "(if op then 18 else 37) \<le> len" and "len \<le> 255"
    and "startOffset + len \<le> length emm" and "length emm \<le> 1024" and "emm_inv s"
  shows "\<exists>s'. ird_try_keys today mem writable ident op emm okeySeed keyIV startOffset len names s = Some s' \<and> emm_inv s'"
  using assms(7)
proof (induction names arbitrary: s)
  case (Cons p names)
  show ?case
  proof (cases "ird_get_key today ident (CHR ''M'') p (fst (fst s))")
    case None
    with Cons show ?thesis by simp
  next
    case (Some keyPMK)
    let ?run = "if op then ird_do_emm_type_op mem writable ident emm okeySeed keyIV (if p \<ge> 5 then xor_bytes keyPMK ird_fausto_xor else keyPMK)
        (length emm) startOffset len s
      else ird_do_emm_type_pmk mem writable ident emm okeySeed keyIV keyPMK (length emm) startOffset len s"
    obtain r s' where run: "?run = Some (r, s')" "emm_inv s'"
    proof (cases op)
      case True
      with op_total [OF assms(1) refl, where emm = emm and startOffset = startOffset and len = len and s = s and mem = mem and writable = writable
          and ident = ident and keySeed = okeySeed and keyPMK = "if p \<ge> 5 then xor_bytes keyPMK ird_fausto_xor else keyPMK"]
        assms(2-6) Cons.prems that show ?thesis by auto
    next
      case False
      with pmk_total [OF assms(1) refl, where emm = emm and startOffset = startOffset and len = len and s = s and mem = mem and writable = writable
          and ident = ident and keySeed = okeySeed and keyPMK = keyPMK] assms(2-6) Cons.prems that
      show ?thesis by auto
    qed
    show ?thesis
      using Some run Cons.IH [OF run(2)] by (simp del: split_paired_Ex)
  qed
qed simp

subsection \<open>Properties\<close>

text \<open>
  C23: An ECM that a head end built for the control words \<open>cw\<close> with any operator key, seed and IV is opened. The decryption of
  the engine gives back the words for these three keys; and the engine returns them with their check bytes when its lookups
  of the operator key of the section's number, of M1 and of M2 give these keys, whatever the other bytes of the header, the two
  free bytes of the element and the filling are. (The lookups of M1 and M2 both end at the key of index 0, see the next
  property, so that a store can serve only a head end whose seed and IV are equal.)
\<close>

theorem irdeto_ecm_opens:
  assumes "length iv = 16" and "length head = 12" and "p AND 7 = 0" and "length cw = 16" and "length pad = 3"
    and "sec = ird_head_end key seed iv head p a b cw pad" and "ident = ucast (head ! 8) OR push_bit 8 (ucast caid)"
  shows "ird_ecm_body key seed iv head (drop 12 sec) 32 = Some (Some cw) \<and>
    (ird_sct_len (head ! 1) (head ! 2) = 44 \<and> head ! 11 = 32 \<and>
     ird_get_key today ident (CHR ''0'') (unat (head ! 9)) st = Some key \<and>
     ird_get_key today ident (CHR ''M'') 1 st = Some seed \<and> ird_get_key today ident (CHR ''M'') 2 st = Some iv \<longrightarrow>
     cccam_emu_irdeto_ecm today st caid sec dw = Some (EMU_OK, copy_sub 0 (ird_check_bytes cw) dw))"
proof -
  have opened: "ird_ecm_body key seed iv head (drop 12 sec) 32 = Some (Some cw)"
    unfolding assms(6) by (rule ecm_opens [OF assms(1-5)])
  have "cccam_emu_irdeto_ecm today st caid sec dw = Some (EMU_OK, copy_sub 0 (ird_check_bytes cw) dw)"
    if k: "ird_sct_len (head ! 1) (head ! 2) = 44" "head ! 11 = 32" "ird_get_key today ident (CHR ''0'') (unat (head ! 9)) st = Some key"
      "ird_get_key today ident (CHR ''M'') 1 st = Some seed" "ird_get_key today ident (CHR ''M'') 2 st = Some iv"
  proof -
    let ?seed = "irdeto2_encrypt (replicate 16 0) key 16 seed"
    have "length (ird_hash_blocks (des_ede_encrypt ?seed (drop 8 ?seed)) iv (replicate 8 0) data) = 8" for data
      by (rule length_hash_blocks) simp
    then have len: "length sec = 44"
      using assms by (simp add: ird_head_end_def Let_def ird_plain_def length_irdeto2_encrypt)
    have head: "take 12 sec = head" using assms(2) by (simp add: assms(6) ird_head_end_def Let_def)
    then have nth: "sec ! i = head ! i" if "i < 12" for i using that len by (metis nth_take)
    show ?thesis
      using k len opened unfolding cccam_emu_irdeto_ecm_def
      by (simp add: nth head assms(7))
  qed
  with opened show ?thesis by blast
qed

definition ird_example_keys :: emu where
  "ird_example_keys = emu_store_initial\<lparr>em_keys :=
     [\<lparr>ek_type = CHR ''I'', ek_provider = 0x060400, ek_index = 1, ek_name = [], ek_date = 0, ek_data = replicate 16 7\<rparr>,
      \<lparr>ek_type = CHR ''I'', ek_provider = 0x060400, ek_index = 0, ek_name = [], ek_date = 0, ek_data = replicate 16 9\<rparr>], em_count := 2\<rparr>"

lemma ird_example_found:
  "ird_get_key today 0x060400 (CHR ''0'') (Suc 0) ird_example_keys = Some (replicate 16 7)"
  "ird_get_key today 0x060400 (CHR ''0'') 0 ird_example_keys = Some (replicate 16 9)"
  by (simp_all add: ird_key_indexed cccam_emu_find_key_def ird_example_keys_def emu_key_valid_def copy_out_def)

lemma irdeto_ecm_opens_witness:
  "ird_ecm_body (replicate 16 7) (replicate 16 3) (replicate 16 9) [0x80, 0, 44, 0, 0, 0, 0, 0, 0, 1, 0, 32]
     (drop 12 (ird_head_end (replicate 16 7) (replicate 16 3) (replicate 16 9) [0x80, 0, 44, 0, 0, 0, 0, 0, 0, 1, 0, 32] 8 0 0
       (replicate 16 5) [0, 0, 0])) 32 = Some (Some (replicate 16 5))
   \<and> cccam_emu_irdeto_ecm 20260101 ird_example_keys 0x0604
     (ird_head_end (replicate 16 7) (replicate 16 9) (replicate 16 9) [0x80, 0, 44, 0, 0, 0, 0, 0, 0, 1, 0, 32] 8 0 0 (replicate 16 5) [0, 0, 0])
     (replicate 16 0)
   = Some (EMU_OK, copy_sub 0 (ird_check_bytes (replicate 16 5)) (replicate 16 0))"
  using irdeto_ecm_opens [OF _ _ _ _ _ refl refl, of "replicate 16 9" "[0x80, 0, 44, 0, 0, 0, 0, 0, 0, 1, 0, 32]" 8 "replicate 16 5" "[0, 0, 0]"
      "replicate 16 7" "replicate 16 3" 0 0]
    irdeto_ecm_opens [OF _ _ _ _ _ refl refl, of "replicate 16 9" "[0x80, 0, 44, 0, 0, 0, 0, 0, 0, 1, 0, 32]" 8 "replicate 16 5" "[0, 0, 0]"
      "replicate 16 7" "replicate 16 9" 0 0 20260101 "0x0604" ird_example_keys "replicate 16 0"]
  by (simp add: ird_example_found ird_key_M ird_sct_len_def)

text \<open>
  Only the digits of a key name count, and M is none: the seed, the IV and all management keys of a provider
  (M0 to MB) are the same key, that of index 0, and a lookup of any of them gives what a lookup of the operator key
  00 gives.
\<close>

theorem irdeto_management_keys_collapse:
  "ird_get_key today ident (CHR ''M'') i st = ird_get_key today ident (CHR ''M'') j st \<and>
   ird_get_key today ident (CHR ''M'') i st = ird_get_key today ident (CHR ''0'') 0 st"
  by (simp add: ird_key_M)

text \<open>
  Of the two management keys that an EMM brings only the second stays, and it replaces the operator key 00, the
  seed and the IV: after the element 0x68 has been taken over into a store with room, every lookup gives the second
  key.
\<close>

theorem irdeto_pmk_overwrites:
  assumes "ird_pmk_element (\<lambda>_. True) writable ident base emm i l s = Some s'" and "s' \<noteq> s" and "em_count (fst (fst s)) + 1 < 4096"
  shows "ird_get_key today ident (CHR ''M'') j (fst (fst s')) = rd_sub emm (i + 19) 16 \<and>
    ird_get_key today ident (CHR ''0'') 0 (fst (fst s')) = rd_sub emm (i + 19) 16"
proof -
  obtain st fs n where s: "s = ((st, fs), n)" by (metis surj_pair)
  obtain key0 key1 where k: "rd_sub emm (i + 3) 16 = Some key0" "rd_sub emm (i + 19) 16 = Some key1"
      "s' = ird_add_key (\<lambda>_. True) writable ident ''M4'' key1 (ird_add_key (\<lambda>_. True) writable ident ''M3'' key0 s)"
    using assms(1,2) by (auto simp: ird_pmk_element_def bind_eq_Some_conv split: if_splits)
  obtain st1 fs1 where w1: "cccam_emu_add_runtime_key (\<lambda>_. True) writable (CHR ''I'') ident (Some ''M3'') key0 16 True (st, fs) = (st1, fs1)"
    by fastforce
  have "em_count st1 \<le> em_count st + 1"
    using w1 add_key_count by (auto simp: cccam_emu_add_runtime_key_def Let_def split: if_splits)
  then have "em_count st1 < EMU_MAX_KEYS" using assms(3) by (simp add: s EMU_MAX_KEYS_def)
  from runtime_key_get [OF this, of "\<lambda>_. True" "''M4''" key1 "CHR ''I''" ident writable True fs1] k(2)
  have "key_get (CHR ''I'', ident, of_nat 0) (fst (fst s')) = Some (key1, 0)"
    using w1 by (simp add: k(3) ird_add_key_def s rd_sub_length)
  then have "ird_get_key today ident (CHR ''0'') 0 (fst (fst s')) = Some key1"
    by (rule ird_key_of_get) (use k(2) rd_sub_length in auto)
  then show ?thesis by (simp add: ird_key_M k(2))
qed

lemma irdeto_pmk_overwrites_witness:
  "\<exists>s'. ird_pmk_element (\<lambda>_. True) True 0x060400 100 ([0x68, 0x24, 0] @ replicate 16 1 @ replicate 16 2 @ [0, 0, 0]) 0 0x26
       ((emu_store_initial, \<lambda>_. None), 0) = Some s' \<and>
     ird_get_key 20260101 0x060400 (CHR ''M'') 4 (fst (fst s')) = Some (replicate 16 2) \<and>
     ird_get_key 20260101 0x060400 (CHR ''0'') 0 (fst (fst s')) = Some (replicate 16 2)"
proof -
  let ?emm = "[0x68, 0x24, 0] @ replicate 16 1 @ replicate 16 2 @ [0, 0, 0] :: u8 list" and ?s = "((emu_store_initial, \<lambda>_. None), 0) :: emm_state"
  have sub: "rd_sub ?emm (0 + 3) 16 = Some (replicate 16 1)" "rd_sub ?emm (0 + 19) 16 = Some (replicate 16 2)" by (simp_all add: rd_sub_def)
  have "rd ?emm 0 = Some 0x68" "ird_fits 100 0 0x26" by (simp_all add: ird_fits_iff)
  then obtain s' where s': "ird_pmk_element (\<lambda>_. True) True 0x060400 100 ?emm 0 0x26 ?s = Some s'" "snd s' = 2"
    using sub by (simp add: ird_pmk_element_def ird_add_key_def)
  then have "s' \<noteq> ?s" by auto
  from irdeto_pmk_overwrites [OF s'(1) this, of 20260101 4] have
    "ird_get_key 20260101 0x060400 (CHR ''M'') 4 (fst (fst s')) = Some (replicate 16 2)"
    "ird_get_key 20260101 0x060400 (CHR ''0'') 0 (fst (fst s')) = Some (replicate 16 2)"
    using sub(2) by (simp_all add: emu_store_initial_def)
  with s'(1) show ?thesis by blast
qed

text \<open>
  An operator key of an EMM serves the ECMs of its number: after the element 0x10 or 0x50 with key number \<open>nr\<close>
  has been taken over into a store with room, the lookup of an ECM with that number, on any day, gives its 16 bytes.
\<close>

theorem irdeto_op_key_used:
  assumes "ird_op_element (\<lambda>_. True) writable ident base emm i l s = Some s'" and "s' \<noteq> s" and "em_count (fst (fst s)) < 4096"
  shows "ird_get_key today ident (CHR ''0'') (unat (drop_bit 2 (emm ! (i + 2)))) (fst (fst s')) = rd_sub emm (i + 3) 16"
proof -
  obtain st fs n where s: "s = ((st, fs), n)" by (metis surj_pair)
  let ?nr = "unat (drop_bit 2 (emm ! (i + 2)))"
  obtain key where k: "rd_sub emm (i + 3) 16 = Some key"
      "s' = ird_add_key (\<lambda>_. True) writable ident (hex_digits_of 2 ?nr) key s"
    using assms(1,2) by (auto simp: ird_op_element_def bind_eq_Some_conv rd_def split: if_splits)
  have "unat (drop_bit 2 (emm ! (i + 2))) < 256"
    using unsigned_less [where ?'a = nat and w = "drop_bit 2 (emm ! (i + 2))"] by simp
  then have nr: "c_strtoul16 (hex_digits_of 2 ?nr) = ?nr" "?nr < 256" using strtoul_digits [of ?nr 2] by simp_all
  have "key_get (CHR ''I'', ident, of_nat (c_strtoul16 (hex_digits_of 2 ?nr))) (fst (fst s')) = Some (key, 0)"
    unfolding k(2) ird_add_key_def s prod.case fst_conv
    using assms(3) rd_sub_length [OF k(1)] by (intro runtime_key_get) (simp_all add: s EMU_MAX_KEYS_def)
  then have "ird_get_key today ident (CHR ''0'') ?nr (fst (fst s')) = Some key"
    unfolding nr(1) by (rule ird_key_of_get) (use k(1) rd_sub_length nr(2) in auto)
  then show ?thesis by (simp add: k(1))
qed

lemma irdeto_op_key_used_witness:
  "\<exists>s'. ird_op_element (\<lambda>_. True) True 0x060400 100 ([0x50, 0x11, 0x0C] @ replicate 16 6) 0 0x13 ((emu_store_initial, \<lambda>_. None), 0) = Some s' \<and>
     ird_get_key 20260101 0x060400 (CHR ''0'') 3 (fst (fst s')) = Some (replicate 16 6)"
proof -
  let ?emm = "[0x50, 0x11, 0x0C] @ replicate 16 6 :: u8 list" and ?s = "((emu_store_initial, \<lambda>_. None), 0) :: emm_state"
  have sub: "rd_sub ?emm (0 + 3) 16 = Some (replicate 16 6)" by (simp add: rd_sub_def)
  have "rd ?emm 0 = Some 0x50" "rd ?emm (0 + 2) = Some 0x0C" "ird_fits 100 0 0x13" by (simp_all add: ird_fits_iff)
  then obtain s' where s': "ird_op_element (\<lambda>_. True) True 0x060400 100 ?emm 0 0x13 ?s = Some s'" "snd s' = 1"
    using sub by (simp add: ird_op_element_def ird_add_key_def)
  then have "s' \<noteq> ?s" by auto
  from irdeto_op_key_used [OF s'(1) this, of 20260101] have "ird_get_key 20260101 0x060400 (CHR ''0'') 3 (fst (fst s')) = Some (replicate 16 6)"
    using sub by (simp add: emu_store_initial_def)
  with s'(1) show ?thesis by blast
qed

text \<open>
  An ECM that is there in full and whose encrypted part has at least 28 bytes is handled inside its buffer, whatever
  its bytes and the keys are; the control word is written only with the result 0.
\<close>

theorem irdeto_ecm_defined:
  assumes "12 \<le> length sec" and "ird_sct_len (sec ! 1) (sec ! 2) \<le> length sec" and "28 \<le> sec ! 11"
  shows "\<exists>rc dw'. cccam_emu_irdeto_ecm today st caid sec dw = Some (rc, dw') \<and> (rc = EMU_OK \<or> dw' = dw)"
proof -
  let ?n = "ird_sct_len (sec ! 1) (sec ! 2)" and ?ident = "ucast (sec ! 8) OR push_bit 8 (ucast caid) :: u32"
  have l28: "28 \<le> unat (sec ! 11)" using assms(3) by (simp add: word_le_nat_alt)
  consider "?n < 12 \<or> ?n > 512 \<or> ?n < unat (sec ! 11) + 12"
    | "ird_get_key today ?ident (CHR ''0'') (unat (sec ! 9)) st = None \<or> ird_get_key today ?ident (CHR ''M'') 1 st = None \<or> ird_get_key today ?ident (CHR ''M'') 2 st = None"
    | key seed iv where "12 \<le> ?n" "?n \<le> 512" "unat (sec ! 11) + 12 \<le> ?n" "ird_get_key today ?ident (CHR ''0'') (unat (sec ! 9)) st = Some key"
        "ird_get_key today ?ident (CHR ''M'') 1 st = Some seed" "ird_get_key today ?ident (CHR ''M'') 2 st = Some iv"
    by (metis not_None_eq linorder_not_less)
  then show ?thesis
  proof cases
    case (3 key seed iv)
    have iv: "length iv = 16" using 3(6) by (rule ird_key_length)
    have le: "unat (sec ! 11) \<le> ?n - 12" using 3(3) by linarith
    obtain r where "ird_ecm_body key seed iv (take 12 (take ?n sec)) (drop 12 (take ?n sec)) (unat (sec ! 11)) = Some r"
      using ecm_body_total [OF iv _ l28 u8_le_255, of "take 12 (take ?n sec)" "drop 12 (take ?n sec)" key seed] 3(1-3) assms(1,2) le by auto
    then show ?thesis
      using assms(1,2) 3 unfolding cccam_emu_irdeto_ecm_def
      by (cases r) (simp_all add: linorder_not_less)
  qed (use assms(1,2) in \<open>auto simp: cccam_emu_irdeto_ecm_def Let_def split: option.split\<close>)
qed

lemma irdeto_ecm_defined_witness:
  "\<exists>rc dw'. cccam_emu_irdeto_ecm 20260101 ird_example_keys 0x0604 ([0x80, 0, 44, 0, 0, 0, 0, 0, 0, 1, 0, 32] @ replicate 32 0x78) (replicate 16 0) = Some (rc, dw')"
  using irdeto_ecm_defined [of "[0x80, 0, 44, 0, 0, 0, 0, 0, 0, 1, 0, 32] @ replicate 32 0x78" 20260101 ird_example_keys "0x0604" "replicate 16 0"]
  by (force simp: ird_sct_len_def)

text \<open>
  C24: An EMM that is there in full and whose encrypted part has at least 18 bytes, or 37 in an EMM for management keys (type
  0xC3 or 0xCB), is handled inside its buffer, whatever its bytes and the keys are, and the store keeps its invariant:
  an exact counter of at most 4096 keys, all of the five types, with bounded data and names.
\<close>

theorem irdeto_emm_defined:
  assumes "emu_inv st" and "11 \<le> length sec"
    and "if sec ! 3 \<noteq> 0xC3 \<and> sec ! 3 \<noteq> 0xCB then 18 \<le> sec ! 9 else 37 \<le> sec ! 10"
  shows "\<exists>rc st' fs'. cccam_emu_irdeto_emm today mem writable caid sec (st, fs) = Some (rc, st', fs') \<and> emu_inv st'"
proof -
  let ?n = "ird_sct_len (sec ! 1) (sec ! 2)" and ?op = "sec ! 3 \<noteq> 0xC3 \<and> sec ! 3 \<noteq> 0xCB"
  let ?off = "if ?op then 10 else 11 :: nat"
  let ?ident = "ucast (sec ! (?off - 2)) OR push_bit 8 (ucast caid) :: u32" and ?len = "unat (sec ! (?off - 1))"
  have l37: "(if ?op then 18 else 37) \<le> ?len" using assms(3) by (auto simp: word_le_nat_alt split: if_splits)
  consider "?n < 11 \<or> ?n > 1024 \<or> length sec < ?n \<or> ?n < ?len + ?off"
    | "ird_get_key today ?ident (CHR ''M'') (if ?op then 0 else 0xA) st = None \<or> ird_get_key today ?ident (CHR ''M'') 2 st = None"
    | seed iv where "11 \<le> ?n" "?n \<le> 1024" "?n \<le> length sec" "?len + ?off \<le> ?n"
        "ird_get_key today ?ident (CHR ''M'') (if ?op then 0 else 0xA) st = Some seed" "ird_get_key today ?ident (CHR ''M'') 2 st = Some iv"
    by (metis not_None_eq linorder_not_less)
  then show ?thesis
  proof cases
    case (3 seed iv)
    have iv: "length iv = 16" using 3(6) by (rule ird_key_length)
    have s: "emm_inv ((st, fs), 0)" using assms(1) by (simp add: emm_inv_def)
    obtain s' where s': "ird_try_keys today mem writable ?ident ?op (take ?n sec) seed iv ?off ?len (if ?op then [3, 4, 5, 6] else [0xB]) ((st, fs), 0) = Some s'"
        "emm_inv s'"
      using try_keys_total [OF iv refl l37 u8_le_255 _ _ s, where emm = "take ?n sec" and today = today and mem = mem and writable = writable
          and ident = ?ident and okeySeed = seed and names = "if ?op then [3, 4, 5, 6] else [0xB]"] 3
      by (auto simp: add.commute simp del: split_paired_Ex)
    obtain st' fs' k where s'': "s' = ((st', fs'), k)" by (metis surj_pair)
    show ?thesis
      using assms(2) 3 s' s'' unfolding cccam_emu_irdeto_emm_def
      by (auto simp: Let_def emm_inv_def linorder_not_less)
  qed (use assms(1,2) in \<open>auto simp: cccam_emu_irdeto_emm_def Let_def split: option.split\<close>)
qed

lemma irdeto_emm_defined_witness:
  "ird_get_key 20260101 0x060400 (CHR ''M'') 0 ird_example_keys = Some (replicate 16 9) \<and>
   ird_get_key 20260101 0x060400 (CHR ''M'') 3 ird_example_keys = Some (replicate 16 9) \<and>
   (\<exists>rc st' fs'. cccam_emu_irdeto_emm 20260101 (\<lambda>_. True) True 0x0604
     ([0x82, 0, 47, 0, 0, 0, 0, 0, 0, 40, 3] @ replicate 40 0x50) (ird_example_keys, \<lambda>_. None) = Some (rc, st', fs') \<and> emu_inv st')"
proof -
  have "emu_inv ird_example_keys"
    by (auto simp: emu_inv_def ird_example_keys_def emu_store_initial_def EMU_MAX_KEYS_def key_ok_def key_types_def)
  then have "\<exists>rc st' fs'. cccam_emu_irdeto_emm 20260101 (\<lambda>_. True) True 0x0604
     ([0x82, 0, 47, 0, 0, 0, 0, 0, 0, 40, 3] @ replicate 40 0x50) (ird_example_keys, \<lambda>_. None) = Some (rc, st', fs') \<and> emu_inv st'"
    by (rule irdeto_emm_defined) simp_all
  then show ?thesis by (simp add: ird_key_M ird_example_found)
qed

end
