(* ===== verification/Nagravision.thy ===== *)
theory Nagravision
  imports Irdeto Idea
begin

text \<open>
  The Nagra2 engine of the emulator, \<open>src/CCshare/cccam3_emu_nagravision.c\<close>: RSA, triple DES or IDEA over the section,
  the signature, and the search for the two control words. \<open>BIGNUM\<close> numbers of OpenSSL are natural numbers;
  \<open>mod_exp\<close> is \<open>BN_mod_exp\<close> (\<open>None\<close> is the result 0), \<open>mem\<close> the outcome of \<open>malloc\<close> by size. As in \<open>Buffers\<close>, \<open>None\<close> is a run
  that uses bytes outside the section. Shown here: the engine stays inside a complete section, and it never gets as
  far as decrypting, because no key store has a key of its type.
\<close>

subsection \<open>RSA\<close>

definition nagra_reverse_mem :: "nat \<Rightarrow> u8 list \<Rightarrow> u8 list" where
  "nagra_reverse_mem n b = rev (take n b) @ drop n b"

text \<open>\<open>BN_bin2bn\<close> and \<open>BN_bn2bin\<close>: big-endian, without leading zeros.\<close>

definition bn_bin2bn :: "u8 list \<Rightarrow> nat" where
  "bn_bin2bn b = foldl (\<lambda>n x. 256 * n + unat x) 0 b"

fun bn_bn2bin :: "nat \<Rightarrow> u8 list" where
  "bn_bn2bin n = (if n = 0 then [] else bn_bn2bin (n div 256) @ [of_nat n])"

declare bn_bn2bin.simps [simp del]

definition nagra_rsa_input :: "(nat \<Rightarrow> bool) \<Rightarrow> u8 list \<Rightarrow> bool \<Rightarrow> nat option" where
  "nagra_rsa_input mem inp le =
     (if le then (if \<not> mem (length inp) then None else Some (bn_bin2bn (rev inp))) else Some (bn_bin2bn inp))"

text \<open>The number of bytes that is returned, and the \<open>n\<close> bytes written.\<close>

definition nagra_rsa_output :: "(nat \<Rightarrow> bool) \<Rightarrow> nat \<Rightarrow> nat \<Rightarrow> bool \<Rightarrow> nat \<times> u8 list option" where
  "nagra_rsa_output mem n r le =
     (let b = bn_bn2bin r; s = length b in
      if s > n \<and> \<not> mem s then (0, None)
      else
        let out = (if s > n then drop (s - n) b else replicate (n - s) 0 @ b) in
        (s, Some (if le then nagra_reverse_mem n out else out)))"

text \<open>\<open>None\<close> is a result that is not positive.\<close>

definition nagra_rsa ::
  "(nat \<Rightarrow> nat \<Rightarrow> nat \<Rightarrow> nat option) \<Rightarrow> (nat \<Rightarrow> bool) \<Rightarrow> u8 list \<Rightarrow> nat \<Rightarrow> nat \<Rightarrow> bool \<Rightarrow> u8 list option" where
  "nagra_rsa mod_exp mem inp e m le = do {
     d \<leftarrow> nagra_rsa_input mem inp le;
     r \<leftarrow> mod_exp d e m;
     (case nagra_rsa_output mem (length inp) r le of (s, out) \<Rightarrow> if s > 0 then out else None)
   }"

subsection \<open>Keys and signature\<close>

definition nagra_get_key :: "u32 \<Rightarrow> u32 \<Rightarrow> char \<Rightarrow> nat \<Rightarrow> nat \<Rightarrow> emu \<Rightarrow> u8 list option" where
  "nagra_get_key today ident key_name key_index key_length st =
     (let buf = cccam_emu_find_key today (CHR ''N'') ident (Some (key_name # c_hex key_index)) 0 key_length st in
      if length buf \<ge> key_length then Some buf else None)"

text \<open>The chain over the blocks of the message; \<open>buff\<close> has 16 bytes.\<close>

fun nagra_chain :: "u8 list \<Rightarrow> nat \<Rightarrow> u8 list \<Rightarrow> u8 list option" where
  "nagra_chain buff 0 msg = Some buff"
| "nagra_chain buff (Suc n) msg = do {
     block \<leftarrow> rd_sub msg 0 8;
     (c, iv) \<leftarrow> cccam_emu_idea_cbc_encrypt block 8 (cccam_emu_idea_set_encrypt_key buff) (replicate 8 0) True;
     nagra_chain (drop 8 buff @ xor_bytes c block) n (drop 8 msg)
   }"

definition nagra2_signature :: "u8 list \<Rightarrow> u8 list \<Rightarrow> u8 list \<Rightarrow> nat \<Rightarrow> bool option" where
  "nagra2_signature vkey sig msg len = do {
     buff \<leftarrow> nagra_chain (take 16 vkey) (len div 8) msg;
     Some (take 8 sig = take 8 (drop 8 (buff[8 := buff ! 8 AND 0x7F])))
   }"

subsection \<open>Opening the section\<close>

fun reverse_blocks :: "nat \<Rightarrow> u8 list \<Rightarrow> u8 list" where
  "reverse_blocks 0 b = b"
| "reverse_blocks (Suc n) b = rev (take 8 b) @ reverse_blocks n (drop 8 b)"

definition nagra_symmetric :: "u8 \<Rightarrow> u8 list \<Rightarrow> nat \<Rightarrow> u8 list \<Rightarrow> u8 list option" where
  "nagra_symmetric in0 key len out =
     (if in0 AND 0x04 \<noteq> 0 then
        Some (reverse_blocks 8 (cccam_emu_des_ede2_cbc_decrypt (replicate 8 0) (rev (take 8 key)) (rev (take 8 (drop 8 key))) len
                (reverse_blocks 8 out)))
      else do {
        (dec, iv) \<leftarrow> cccam_emu_idea_cbc_encrypt out (8 * (len div 8)) (cccam_emu_idea_set_encrypt_key key) (replicate 8 0) False;
        Some (dec @ drop (8 * (len div 8)) out)
      })"

text \<open>\<open>Some None\<close> is the result 0.\<close>

definition nagra_decrypt_ecm ::
  "(nat \<Rightarrow> nat \<Rightarrow> nat \<Rightarrow> nat option) \<Rightarrow> (nat \<Rightarrow> bool) \<Rightarrow> u8 list \<Rightarrow> u8 list \<Rightarrow> nat \<Rightarrow> u8 list option \<Rightarrow> u8 list \<Rightarrow> u8 list option option" where
  "nagra_decrypt_ecm mod_exp mem inp key len vkey keyM = do {
     in0 \<leftarrow> rd inp 0;
     block \<leftarrow> rd_sub inp 1 64;
     let m = bn_bin2bn (take 64 keyM);
     (case nagra_rsa mod_exp mem block 3 m True of
        None \<Rightarrow> Some None
      | Some out \<Rightarrow> do {
          rest \<leftarrow> (if len > 64 then rd_sub inp 65 (len - 64) else Some []);
          out \<leftarrow> nagra_symmetric in0 key len (out[63 := out ! 63 OR (in0 AND 0x80)] @ rest);
          let out = nagra_reverse_mem 64 out;
          (case nagra_rsa mod_exp mem (take 64 out) 3 m False of
             None \<Rightarrow> Some None
           | Some r \<Rightarrow>
               let out = r @ drop 64 out in
               (case vkey of
                  None \<Rightarrow> Some (Some out)
                | Some vkey \<Rightarrow> do {
                    ok \<leftarrow> nagra2_signature vkey out (drop 8 out) (len - 8);
                    Some (if ok then Some out else None)
                  }))
        })
   }"

subsection \<open>The control words\<close>

text \<open>The loop over the opened section: \<open>l\<close> has bit 0 for the even word and bit 1 for the odd one.\<close>

function nagra_scan :: "u8 list \<Rightarrow> nat \<Rightarrow> nat \<Rightarrow> nat \<Rightarrow> u8 \<Rightarrow> u8 list \<Rightarrow> (nat \<times> u8 \<times> u8 list) option" where
  "nagra_scan dec cmdLen i l mecmAlgo dw =
     (if \<not> (i < cmdLen \<and> l \<noteq> 3) then Some (l, mecmAlgo, dw)
      else (case rd dec i of
          None \<Rightarrow> None
        | Some c \<Rightarrow>
            if c \<in> {0x10, 0x11} then
              (if i + 10 < cmdLen \<and> rd dec (i + 1) = Some 0x09 then
                 let s = unat ((NOT c) AND 1) in
                 nagra_scan dec cmdLen (i + 11) (l OR (s + 1)) (dec ! (i + 2) AND 0x60) (copy_sub (8 * s) (take 8 (drop (i + 3) dec)) dw)
               else nagra_scan dec cmdLen (i + 1) l mecmAlgo dw)
            else if c = 0x00 then nagra_scan dec cmdLen (i + 2) l mecmAlgo dw
            else if c \<in> {0x30, 0x31, 0x32, 0x33, 0x34, 0x35, 0x36, 0xB0} then
              nagra_scan dec cmdLen (if i + 1 < cmdLen then i + unat (dec ! (i + 1)) + 2 else i + 1) l mecmAlgo dw
            else nagra_scan dec cmdLen (i + 1) l mecmAlgo dw))"
  by auto
termination by (relation "measure (\<lambda>(dec, cmdLen, i, l, mecmAlgo, dw). cmdLen - i)") auto

declare nagra_scan.simps [simp del]

definition nagra_sct_len :: "u8 \<Rightarrow> u8 \<Rightarrow> nat" where
  "nagra_sct_len b1 b2 = unat ((push_bit 8 (ucast (b1 AND 0x0F)) OR ucast b2) :: u16)"

text \<open>The words are exchanged for some providers.\<close>

definition nagra_order :: "u32 \<Rightarrow> u8 list \<Rightarrow> u8 list" where
  "nagra_order ident dw =
     (if ident AND 0xFF00 \<in> {0x1100, 0x500, 0x3100} then
        take 4 (drop 8 dw) @ take 4 (drop 12 dw) @ take 4 dw @ take 4 (drop 4 dw) @ drop 16 dw
      else dw)"

definition cccam_emu_nagravision_ecm ::
  "(nat \<Rightarrow> nat \<Rightarrow> nat \<Rightarrow> nat option) \<Rightarrow> (nat \<Rightarrow> bool) \<Rightarrow> u32 \<Rightarrow> emu \<Rightarrow> u8 list \<Rightarrow> u8 list \<Rightarrow> (int \<times> u8 list) option" where
  "cccam_emu_nagravision_ecm mod_exp mem today st ecm dw = do {
     b1 \<leftarrow> rd ecm 1;
     b2 \<leftarrow> rd ecm 2;
     let ecmLen = nagra_sct_len b1 b2;
     if ecmLen < 8 then Some (EMU_NOT_SUPPORTED, dw)
     else do {
       b4 \<leftarrow> rd ecm 4;
       b5 \<leftarrow> rd ecm 5;
       b6 \<leftarrow> rd ecm 6;
       b7 \<leftarrow> rd ecm 7;
       let cmdLen = unat (b4 - 5);
       let ident = (push_bit 8 (ucast b5) + ucast b6 :: u32);
       let ideaKeyNr = unat (drop_bit 4 (b7 AND 0x10));
       let ident = (if ident \<in> {1283, 1285, 1297} then 1281 else ident);
       if cmdLen \<le> 63 \<or> ecmLen < cmdLen + 10 then Some (EMU_NOT_SUPPORTED, dw)
       else (case nagra_get_key today ident (CHR ''0'') ideaKeyNr 16 st of
           None \<Rightarrow> Some (EMU_KEY_NOT_FOUND, dw)
         | Some ideaKey \<Rightarrow>
             let vKey = nagra_get_key today ident (CHR ''V'') 0 16 st in
             (case nagra_get_key today ident (CHR ''M'') 1 64 st of
                None \<Rightarrow> Some (EMU_KEY_NOT_FOUND, dw)
              | Some m1Key \<Rightarrow>
                  if \<not> mem cmdLen then Some (EMU_NOT_SUPPORTED, dw)
                  else do {
                    dec \<leftarrow> nagra_decrypt_ecm mod_exp mem (drop 9 ecm) ideaKey cmdLen vKey (nagra_reverse_mem 64 m1Key);
                    (case dec of
                       None \<Rightarrow> Some (EMU_NOT_SUPPORTED, dw)
                     | Some dec \<Rightarrow> do {
                         b14 \<leftarrow> rd dec 14;
                         (l, mecmAlgo, dw) \<leftarrow> nagra_scan dec cmdLen (if b14 AND 0x10 \<noteq> 0 then 16 else 20) 0 0 dw;
                         Some (if l \<noteq> 3 \<or> mecmAlgo > 0 then (EMU_NOT_SUPPORTED, dw) else (EMU_OK, nagra_order ident dw))
                       })
                  }))
     }
   }"

subsection \<open>Lengths\<close>

lemma blocks_step: "0 < m \<Longrightarrow> 8 + 8 * ((m - 8 + 7) div 8) = 8 * ((m + 7) div (8 :: nat))"
proof (cases "8 \<le> m")
  case True
  then obtain k where "m = k + 8" by (metis le_iff_add add.commute)
  moreover have "(k + 8 + 7) div 8 = (k + 7) div 8 + 1" for k :: nat
    using div_add_self2 [of 8 "k + 7"] by (simp only: add.assoc add.commute [of 8 7])
  ultimately show ?thesis by auto
next
  case False
  assume "0 < m"
  with False have "(m + 7) div 8 = 1" by (intro div_nat_eqI) simp_all
  with False show ?thesis by simp
qed

lemma length_unblocks: "8 * ((n + 7) div 8) \<le> length inp \<Longrightarrow> length (fst (idea_cbc_unblocks ks prev n inp)) = n"
proof (induction ks prev n inp rule: idea_cbc_unblocks.induct)
  case (1 ks prev n inp)
  show ?case
  proof (cases "n = 0")
    case False
    let ?tin = "(n2l inp 0, n2l inp 4)"
    have "8 * ((n - 8 + 7) div 8) \<le> length (drop 8 inp)" using 1(2) blocks_step [of n] False by simp
    then have IH: "length (fst (idea_cbc_unblocks ks ?tin (n - 8) (drop 8 inp))) = n - 8"
      using 1(1) [OF False refl refl] by blast
    obtain rest w where "idea_cbc_unblocks ks ?tin (n - 8) (drop 8 inp) = (rest, w)" by (metis surj_pair)
    with IH False show ?thesis by (subst idea_cbc_unblocks.simps) (simp add: Let_def l2nn_def)
  qed (simp add: idea_cbc_unblocks.simps)
qed

lemma length_cbc_blocks: "length (fst (idea_cbc_blocks ks v inp)) = 8 * ((length inp + 7) div 8)"
proof (induction ks v inp rule: idea_cbc_blocks.induct)
  case (1 ks v inp)
  show ?case
  proof (cases "inp = []")
    case False
    let ?t = "cccam_emu_idea_encrypt ks (xor_pair (n2ln inp) v)"
    have IH: "length (fst (idea_cbc_blocks ks ?t (drop 8 inp))) = 8 * ((length (drop 8 inp) + 7) div 8)"
      by (rule 1 [OF False refl refl])
    have "8 + 8 * ((length inp - 8 + 7) div 8) = 8 * ((length inp + 7) div 8)" using False by (intro blocks_step) simp
    moreover obtain rest w where "idea_cbc_blocks ks ?t (drop 8 inp) = (rest, w)" by (metis surj_pair)
    ultimately show ?thesis using IH False by (subst idea_cbc_blocks.simps) (simp add: Let_def)
  qed (simp add: idea_cbc_blocks.simps)
qed

lemma idea_encrypt_block: "length b = 8 \<Longrightarrow> \<exists>c iv'. cccam_emu_idea_cbc_encrypt b 8 ks iv True = Some (c, iv') \<and> length c = 8"
  using length_cbc_blocks [of ks "(n2l iv 0, n2l iv 4)" b]
  by (auto simp: cccam_emu_idea_cbc_encrypt_def Let_def split: prod.split)

lemma idea_decrypt_blocks:
  "8 * n \<le> length b \<Longrightarrow> \<exists>c iv'. cccam_emu_idea_cbc_encrypt b (8 * n) ks iv False = Some (c, iv') \<and> length c = 8 * n"
  using length_unblocks [of "8 * n" b ks "(n2l iv 0, n2l iv 4)"]
  by (auto simp: cccam_emu_idea_cbc_encrypt_def Let_def split: prod.split)

lemma length_reverse_mem [simp]: "length (nagra_reverse_mem n b) = length b"
  by (simp add: nagra_reverse_mem_def)

lemma length_reverse_blocks [simp]: "length (reverse_blocks n b) = length b"
  by (induction n arbitrary: b) simp_all

lemma nagra_rsa_length: "nagra_rsa mod_exp mem inp e m le = Some out \<Longrightarrow> length out = length inp"
  by (auto simp: nagra_rsa_def nagra_rsa_output_def Let_def bind_eq_Some_conv split: if_splits)

lemma nagra_chain_total:
  "8 * n \<le> length msg \<Longrightarrow> length buff = 16 \<Longrightarrow> \<exists>buff'. nagra_chain buff n msg = Some buff' \<and> length buff' = 16"
proof (induction n arbitrary: buff msg)
  case (Suc n)
  obtain c iv where c: "cccam_emu_idea_cbc_encrypt (take 8 msg) 8 (cccam_emu_idea_set_encrypt_key buff) (replicate 8 0) True = Some (c, iv)" "length c = 8"
    using idea_encrypt_block [of "take 8 msg"] Suc.prems by fastforce
  have "length (drop 8 buff @ xor_bytes c (take 8 msg)) = 16" "8 * n \<le> length (drop 8 msg)" using Suc.prems c(2) by simp_all
  from Suc.IH [OF this(2,1)] show ?case using Suc.prems c(1) by simp
qed simp

lemma nagra_symmetric_total:
  assumes "len \<le> length out"
  shows "\<exists>out'. nagra_symmetric in0 key len out = Some out' \<and> length out' = length out"
proof (cases "in0 AND 0x04 \<noteq> 0")
  case True
  have "length (cccam_emu_des_ede2_cbc_decrypt (replicate 8 0) k1 k2 len (reverse_blocks 8 out)) = length out" for k1 k2
    using ede_inverse.length_cbc_decrypt [of "replicate 8 0" "len div 8" "reverse_blocks 8 out" k1 k2] assms
    by (simp add: cccam_emu_des_ede2_cbc_decrypt_def des_ede_decrypt_def [abs_def] Let_def)
  with True show ?thesis by (simp add: nagra_symmetric_def)
next
  case False
  obtain c iv where "cccam_emu_idea_cbc_encrypt out (8 * (len div 8)) (cccam_emu_idea_set_encrypt_key key) (replicate 8 0) False = Some (c, iv)"
      "length c = 8 * (len div 8)"
    using idea_decrypt_blocks [of "len div 8" out] assms by fastforce
  with False assms show ?thesis by (simp add: nagra_symmetric_def)
qed

lemma nagra_decrypt_total:
  assumes "64 \<le> len" and "len < length inp" and "\<And>k. vkey = Some k \<Longrightarrow> 16 \<le> length k"
  shows "\<exists>r. nagra_decrypt_ecm mod_exp mem inp key len vkey keyM = Some r \<and> (case r of None \<Rightarrow> True | Some out \<Rightarrow> length out = len)"
proof -
  let ?m = "bn_bin2bn (take 64 keyM)" and ?in0 = "inp ! 0"
  have in0: "rd inp 0 = Some ?in0" "rd_sub inp 1 64 = Some (take 64 (drop 1 inp))"
    using assms(1,2) by (auto simp: rd_def)
  have "rd_sub inp 65 (len - 64) = Some (take (len - 64) (drop 65 inp))" using assms by (intro rd_sub_Some) linarith
  then obtain rest where rest: "(if len > 64 then rd_sub inp 65 (len - 64) else Some []) = Some rest" "length rest = len - 64"
    using assms(2) by (cases "len > 64") auto
  show ?thesis
  proof (cases "nagra_rsa mod_exp mem (take 64 (drop 1 inp)) 3 ?m True")
    case None
    then show ?thesis using in0 by (simp add: nagra_decrypt_ecm_def)
  next
    case (Some out)
    then have "length out = 64" using nagra_rsa_length [OF Some] assms by simp
    then have l: "len \<le> length (out[63 := out ! 63 OR (?in0 AND 0x80)] @ rest)" "length (out[63 := out ! 63 OR (?in0 AND 0x80)] @ rest) = len"
      using rest(2) assms(1) by simp_all
    obtain out2 where out2: "nagra_symmetric ?in0 key len (out[63 := out ! 63 OR (?in0 AND 0x80)] @ rest) = Some out2" "length out2 = len"
      using nagra_symmetric_total [OF l(1), of ?in0 key] l(2) by auto
    let ?out3 = "nagra_reverse_mem 64 out2"
    show ?thesis
    proof (cases "nagra_rsa mod_exp mem (take 64 ?out3) 3 ?m False")
      case None
      then show ?thesis using in0 rest(1) Some out2(1) by (simp add: nagra_decrypt_ecm_def)
    next
      case (Some r)
      then have r: "length (r @ drop 64 ?out3) = len" using nagra_rsa_length [OF Some] out2(2) assms(1) by simp
      have sig: "\<exists>ok. nagra2_signature k (r @ drop 64 ?out3) (drop 8 (r @ drop 64 ?out3)) (len - 8) = Some ok" if k: "16 \<le> length k" for k
      proof -
        have "8 * ((len - 8) div 8) \<le> length (drop 8 (r @ drop 64 ?out3))" using r by simp
        then obtain buff where "nagra_chain (take 16 k) ((len - 8) div 8) (drop 8 (r @ drop 64 ?out3)) = Some buff"
          using nagra_chain_total [of "(len - 8) div 8" "drop 8 (r @ drop 64 ?out3)" "take 16 k"] k by auto
        then show ?thesis unfolding nagra2_signature_def by (simp del: drop_append)
      qed
      show ?thesis
      proof (cases vkey)
        case None
        then show ?thesis
          using in0 rest(1) \<open>nagra_rsa mod_exp mem (take 64 (drop 1 inp)) 3 ?m True = Some out\<close> out2(1) Some r
          by (simp add: nagra_decrypt_ecm_def)
      next
        case (Some k)
        with sig assms(3) obtain ok where "nagra2_signature k (r @ drop 64 ?out3) (drop 8 (r @ drop 64 ?out3)) (len - 8) = Some ok" by blast
        then show ?thesis
          using in0 rest(1) \<open>nagra_rsa mod_exp mem (take 64 (drop 1 inp)) 3 ?m True = Some out\<close> out2(1)
            \<open>nagra_rsa mod_exp mem (take 64 ?out3) 3 ?m False = Some r\<close> r Some
          by (simp add: nagra_decrypt_ecm_def)
      qed
    qed
  qed
qed

lemma nagra_scan_total:
  "length dec = cmdLen \<Longrightarrow> 16 \<le> length dw \<Longrightarrow> \<exists>l' a dw'. nagra_scan dec cmdLen i l mecmAlgo dw = Some (l', a, dw') \<and> length dw' = length dw"
proof (induction dec cmdLen i l mecmAlgo dw rule: nagra_scan.induct)
  case (1 dec cmdLen i l mecmAlgo dw)
  show ?case
  proof (cases "i < cmdLen \<and> l \<noteq> 3")
    case True
    then have rd: "rd dec i = Some (dec ! i)" using 1(6) by simp
    let ?c = "dec ! i"
    have "NOT c AND 1 \<le> (1 :: u8)" for c by (rule word_and_le1)
    then have s: "unat ((NOT c) AND 1 :: u8) \<le> 1" for c by (metis unat_1 word_le_nat_alt)
    consider (word) "?c \<in> {0x10, 0x11}" "i + 10 < cmdLen" "rd dec (i + 1) = Some 0x09" | (miss) "?c \<in> {0x10, 0x11}" "\<not> (i + 10 < cmdLen \<and> rd dec (i + 1) = Some 0x09)"
      | (zero) "?c = 0" | (skip) "?c \<in> {0x30, 0x31, 0x32, 0x33, 0x34, 0x35, 0x36, 0xB0}"
      | (other) "?c \<notin> {0x10, 0x11}" "?c \<noteq> 0" "?c \<notin> {0x30, 0x31, 0x32, 0x33, 0x34, 0x35, 0x36, 0xB0}" by blast
    then show ?thesis
    proof cases
      case word
      let ?dw = "copy_sub (8 * unat ((NOT ?c) AND 1)) (take 8 (drop (i + 3) dec)) dw"
      have l: "length ?dw = length dw" using word(2) 1(6,7) s [of ?c] by (intro length_copy_sub) simp
      have "\<exists>l' a dw'. nagra_scan dec cmdLen (i + 11) (l OR (unat ((NOT ?c) AND 1) + 1)) (dec ! (i + 2) AND 0x60) ?dw = Some (l', a, dw') \<and> length dw' = length ?dw"
        using 1(1) [OF _ rd word(1) _ refl] True word(2,3) 1(6,7) l by simp
      then show ?thesis using True rd word l by (subst nagra_scan.simps) (simp add: Let_def)
    next
      case miss
      then show ?thesis using 1(2) [OF _ rd miss(1,2)] True rd 1(6,7) by (subst nagra_scan.simps) auto
    next
      case zero
      then show ?thesis using 1(3) [OF _ rd] True rd 1(6,7) by (subst nagra_scan.simps) auto
    next
      case skip
      then have "?c \<notin> {0x10, 0x11}" "?c \<noteq> 0" by auto
      then show ?thesis using 1(4) [OF _ rd _ _ skip] True rd skip 1(6,7) by (subst nagra_scan.simps) auto
    next
      case other
      then show ?thesis using 1(5) [OF _ rd other] True rd 1(6,7) by (subst nagra_scan.simps) auto
    qed
  qed (auto simp: nagra_scan.simps)
qed

subsection \<open>Properties\<close>

text \<open>
  The emulator never decrypts a Nagravision ECM: in every store that can be reached, whatever the key files and
  the ECM are, the engine returns that the key was not found or that the ECM is not supported, before the section is
  opened, and leaves the control word alone.
\<close>

theorem nagra_never_decrypts:
  assumes "fold emu_exec ops (emu_store_initial, fs) = (st, fs')" and "8 \<le> length ecm"
  shows "\<exists>rc. cccam_emu_nagravision_ecm mod_exp mem today st ecm dw = Some (rc, dw) \<and> rc \<in> {EMU_NOT_SUPPORTED, EMU_KEY_NOT_FOUND}"
proof -
  have "nagra_get_key today ident c i 16 st = None" for ident c i
    using find_key_N [OF emu_reachable_inv [OF assms(1)]] by (simp add: nagra_get_key_def)
  then show ?thesis using assms(2) by (auto simp: cccam_emu_nagravision_ecm_def Let_def)
qed

lemma nagra_never_decrypts_witness:
  "\<exists>rc. cccam_emu_nagravision_ecm (\<lambda>_ _ _. None) (\<lambda>_. True) 20260101 emu_store_initial (replicate 80 0x45) (replicate 16 0) = Some (rc, replicate 16 0)
     \<and> rc \<in> {EMU_NOT_SUPPORTED, EMU_KEY_NOT_FOUND}"
  by (rule nagra_never_decrypts [where ops = "[]"]) simp_all

text \<open>
  With any store, any RSA and any outcome of the allocations, a Nagravision ECM that is there in full is handled
  inside its buffers: the engine returns, the word keeps its 16 bytes, and it is complete whenever the result is 0.
\<close>

theorem nagra_section_defined:
  assumes "8 \<le> length ecm" and "nagra_sct_len (ecm ! 1) (ecm ! 2) \<le> length ecm" and "length dw = 16"
  shows "\<exists>rc dw'. cccam_emu_nagravision_ecm mod_exp mem today st ecm dw = Some (rc, dw') \<and> length dw' = 16"
proof -
  let ?n = "nagra_sct_len (ecm ! 1) (ecm ! 2)" and ?cmd = "unat (ecm ! 4 - 5)"
  have rd: "rd ecm i = Some (ecm ! i)" if "i < 8" for i using that assms(1) by simp
  have order: "length (nagra_order ident w) = 16" if "length w = 16" for ident w using that by (simp add: nagra_order_def)
  have opened: "\<exists>rc dw'. (do {
        dec \<leftarrow> nagra_decrypt_ecm mod_exp mem (drop 9 ecm) key ?cmd vkey m;
        (case dec of None \<Rightarrow> Some (EMU_NOT_SUPPORTED, dw)
         | Some dec \<Rightarrow> do {
             b14 \<leftarrow> rd dec 14;
             (l, mecmAlgo, dw) \<leftarrow> nagra_scan dec ?cmd (if b14 AND 0x10 \<noteq> 0 then 16 else 20) 0 0 dw;
             Some (if l \<noteq> 3 \<or> mecmAlgo > 0 then (EMU_NOT_SUPPORTED, dw) else (EMU_OK, nagra_order ident dw))
           })
      }) = Some (rc, dw') \<and> length dw' = 16"
    if c: "63 < ?cmd" "?cmd + 10 \<le> ?n" and v: "\<And>k. vkey = Some k \<Longrightarrow> 16 \<le> length k" for key vkey m ident
  proof -
    have b: "64 \<le> ?cmd" "?cmd < length ecm - 9" using c assms(2) by linarith+
    obtain r where r: "nagra_decrypt_ecm mod_exp mem (drop 9 ecm) key ?cmd vkey m = Some r" "case r of None \<Rightarrow> True | Some out \<Rightarrow> length out = ?cmd"
      using nagra_decrypt_total [of ?cmd "drop 9 ecm" vkey mod_exp mem key m] b v by auto
    show ?thesis
    proof (cases r)
      case (Some dec)
      with r(2) have l: "length dec = ?cmd" by simp
      obtain l' a dw' where "nagra_scan dec ?cmd (if dec ! 14 AND 0x10 \<noteq> 0 then 16 else 20) 0 0 dw = Some (l', a, dw')" "length dw' = 16"
        using nagra_scan_total [OF l, of dw "if dec ! 14 AND 0x10 \<noteq> 0 then 16 else 20" 0 0] assms(3) by auto
      then show ?thesis using r(1) Some l c(1) order by simp
    qed (use r(1) assms(3) in simp)
  qed
  have vkey: "nagra_get_key today ident c i 16 st = Some k \<Longrightarrow> 16 \<le> length k" for ident c i k
    by (auto simp: nagra_get_key_def Let_def split: if_splits)
  show ?thesis
    unfolding cccam_emu_nagravision_ecm_def
    using assms(3) rd opened vkey
    by (auto simp: Let_def split: option.split)
qed

lemma nagra_section_defined_witness:
  "\<exists>rc dw'. cccam_emu_nagravision_ecm (\<lambda>b e m. if m = 0 then None else Some (b ^ e mod m)) (\<lambda>_. True) 20260101 emu_store_initial
     ([0x80, 0, 80, 0, 70, 0x41, 0x01] @ replicate 80 0) (replicate 16 0) = Some (rc, dw') \<and> length dw' = 16"
  by (rule nagra_section_defined) (simp_all add: nagra_sct_len_def)

end
