(* ===== verification/Cryptoworks.thy ===== *)
theory Cryptoworks
  imports Irdeto
begin

text \<open>
  The Cryptoworks engine of the emulator, \<open>src/CCshare/cccam3_emu_cryptoworks.c\<close>: its DES with widened S-boxes, the
  rounds around it, the signature and the ECM with its nested form. Keys are lists of 22 bytes (16 bytes of
  operator key, six bytes of system key), data blocks have eight. As in \<open>Buffers\<close>, \<open>None\<close> is a run that uses
  bytes outside the section. Shown here: the cipher is a Feistel network whose two directions undo each other (the key
  registers return to their start), an ECM of a head end is opened, a complete section stays inside its
  buffer, nested sections included, and the sections that elements 0x80 hold are always refused.
\<close>

subsection \<open>Tables\<close>

definition cw_sbox1 :: "u8 list" where
  "cw_sbox1 =
     [0xD8, 0xD7, 0x83, 0x3D, 0x1C, 0x8A, 0xF0, 0xCF, 0x72, 0x4C, 0x4D, 0xF2, 0xED, 0x33, 0x16, 0xE0,
      0x8F, 0x28, 0x7C, 0x82, 0x62, 0x37, 0xAF, 0x59, 0xB7, 0xE0, 0x00, 0x3F, 0x09, 0x4D, 0xF3, 0x94,
      0x16, 0xA5, 0x58, 0x83, 0xF2, 0x4F, 0x67, 0x30, 0x49, 0x72, 0xBF, 0xCD, 0xBE, 0x98, 0x81, 0x7F,
      0xA5, 0xDA, 0xA7, 0x7F, 0x89, 0xC8, 0x78, 0xA7, 0x8C, 0x05, 0x72, 0x84, 0x52, 0x72, 0x4D, 0x38]"

definition cw_sbox2 :: "u8 list" where
  "cw_sbox2 =
     [0xD8, 0x35, 0x06, 0xAB, 0xEC, 0x40, 0x79, 0x34, 0x17, 0xFE, 0xEA, 0x47, 0xA3, 0x8F, 0xD5, 0x48,
      0x0A, 0xBC, 0xD5, 0x40, 0x23, 0xD7, 0x9F, 0xBB, 0x7C, 0x81, 0xA1, 0x7A, 0x14, 0x69, 0x6A, 0x96,
      0x47, 0xDA, 0x7B, 0xE8, 0xA1, 0xBF, 0x98, 0x46, 0xB8, 0x41, 0x45, 0x9E, 0x5E, 0x20, 0xB2, 0x35,
      0xE4, 0x2F, 0x9A, 0xB5, 0xDE, 0x01, 0x65, 0xF8, 0x0F, 0xB2, 0xD2, 0x45, 0x21, 0x4E, 0x2D, 0xDB]"

definition cw_sbox3 :: "u8 list" where
  "cw_sbox3 =
     [0xDB, 0x59, 0xF4, 0xEA, 0x95, 0x8E, 0x25, 0xD5, 0x26, 0xF2, 0xDA, 0x1A, 0x4B, 0xA8, 0x08, 0x25,
      0x46, 0x16, 0x6B, 0xBF, 0xAB, 0xE0, 0xD4, 0x1B, 0x89, 0x05, 0x34, 0xE5, 0x74, 0x7B, 0xBB, 0x44,
      0xA9, 0xC6, 0x18, 0xBD, 0xE6, 0x01, 0x69, 0x5A, 0x99, 0xE0, 0x87, 0x61, 0x56, 0x35, 0x76, 0x8E,
      0xF7, 0xE8, 0x84, 0x13, 0x04, 0x7B, 0x9B, 0xA6, 0x7A, 0x1F, 0x6B, 0x5C, 0xA9, 0x86, 0x54, 0xF9]"

definition cw_sbox4 :: "u8 list" where
  "cw_sbox4 =
     [0xBC, 0xC1, 0x41, 0xFE, 0x42, 0xFB, 0x3F, 0x10, 0xB5, 0x1C, 0xA6, 0xC9, 0xCF, 0x26, 0xD1, 0x3F,
      0x02, 0x3D, 0x19, 0x20, 0xC1, 0xA8, 0xBC, 0xCF, 0x7E, 0x92, 0x4B, 0x67, 0xBC, 0x47, 0x62, 0xD0,
      0x60, 0x9A, 0x9E, 0x45, 0x79, 0x21, 0x89, 0xA9, 0xC3, 0x64, 0x74, 0x9A, 0xBC, 0xDB, 0x43, 0x66,
      0xDF, 0xE3, 0x21, 0xBE, 0x1E, 0x16, 0x73, 0x5D, 0xA2, 0xCD, 0x8C, 0x30, 0x67, 0x34, 0x9C, 0xCB]"

definition cw_AND_bit1 :: "u8 list" where
  "cw_AND_bit1 =
     [0x00, 0x40, 0x04, 0x80, 0x21, 0x10, 0x02, 0x08]"

definition cw_AND_bit2 :: "u8 list" where
  "cw_AND_bit2 =
     [0x80, 0x08, 0x01, 0x40, 0x04, 0x20, 0x10, 0x02]"

definition cw_AND_bit3 :: "u8 list" where
  "cw_AND_bit3 =
     [0x82, 0x40, 0x01, 0x10, 0x00, 0x20, 0x04, 0x08]"

definition cw_AND_bit4 :: "u8 list" where
  "cw_AND_bit4 =
     [0x02, 0x10, 0x04, 0x40, 0x80, 0x08, 0x01, 0x20]"

definition cw_aa :: "nat list" where
  "cw_aa =
     [1, 0, 3, 1, 2, 2, 3, 2, 1, 3, 1, 1, 3, 0, 1, 2, 3, 1, 3, 2, 2, 0,
      7, 6, 5, 4, 7, 6, 5, 7, 6, 5, 6, 7, 5, 7, 5, 7, 6, 6, 7, 5, 4, 4]"

definition cw_bb :: "u8 list" where
  "cw_bb =
     [0x80, 0x08, 0x10, 0x02, 0x08, 0x40, 0x01, 0x20, 0x40, 0x80, 0x04,
      0x10, 0x04, 0x01, 0x01, 0x02, 0x20, 0x20, 0x02, 0x01, 0x80, 0x04,
      0x02, 0x02, 0x08, 0x02, 0x10, 0x80, 0x01, 0x20, 0x08, 0x80, 0x01,
      0x08, 0x40, 0x01, 0x02, 0x80, 0x10, 0x40, 0x40, 0x10, 0x08, 0x01]"

definition cw_ff :: "u8 list" where
  "cw_ff =
     [0x02, 0x10, 0x04, 0x04]"

definition cw_l :: "nat list" where
  "cw_l =
     [0, 2, 4, 6, 7, 5, 3, 1, 4, 5, 6, 7, 7, 6, 5, 4, 7, 4, 5, 6, 4, 7, 6, 5]"
definition cw_swap_key :: "u8 list \<Rightarrow> u8 list" where
  "cw_swap_key key = take 8 (drop 8 key) @ take 8 key @ drop 16 key"

definition cw_swap_data :: "u8 list \<Rightarrow> u8 list" where
  "cw_swap_data k = take 4 (drop 4 k) @ take 4 k @ drop 8 k"

subsection \<open>A round\<close>

text \<open>The expansion of the right half into eight table indices, then the key bits.\<close>

definition cw_expand :: "u8 list \<Rightarrow> u8 list" where
  "cw_expand d =
     fold (\<lambda>i td. td[cw_l ! (4 + i) := ((d ! (cw_l ! (12 + i)) * 2) AND 0x3F) OR (if d ! (cw_l ! (20 + i)) AND 0x80 \<noteq> 0 then 0x01 else 0x00)]) [0..<4]
       (fold (\<lambda>i td. td[cw_l ! i := drop_bit 1 (d ! (cw_l ! (8 + i))) OR (if d ! (cw_l ! (16 + i)) AND 0x01 \<noteq> 0 then 0x80 else 0x00)]) [0..<4]
          (replicate 8 0))"

text \<open>
  The \<open>i\<close>-th index; \<open>c\<close> of the code is \<open>odd i\<close>, and the pointers \<open>a\<close>, \<open>b\<close> have advanced by six for every earlier
  even \<open>i\<close> and by five for every earlier odd one.
\<close>

definition cw_key_bits :: "u8 list \<Rightarrow> nat \<Rightarrow> u8 list \<Rightarrow> u8 list" where
  "cw_key_bits k i td =
     (let n = (if i = 0 then 1 else i - 1);
          pos = 11 * (i div 2) + (if odd i then 6 else 0);
          o0 = (if odd i then (if k ! n AND cw_ff ! (i div 2) \<noteq> 0 then 1 else 0) else td ! n);
          o1 = fold (\<lambda>m x.
                 let b = k ! (cw_aa ! (pos + m)) AND cw_bb ! (pos + m) \<noteq> 0 in
                 if odd i then (x * 2) OR (if b then 0x01 else 0x00) else drop_bit 1 x OR (if b then 0x80 else 0x00))
                [0..<(if odd i then 5 else 6)] o0 in
      td[i := if odd i then td ! i XOR o1 else drop_bit 2 (o1 XOR td ! i)])"

definition cw_des_td :: "u8 list \<Rightarrow> u8 list \<Rightarrow> u8 list" where
  "cw_des_td k d = fold (cw_key_bits k) [0..<8] (cw_expand d)"

definition cw_mix :: "u8 list \<Rightarrow> u8 list \<Rightarrow> u8 list \<Rightarrow> u8" where
  "cw_mix bits sbox td = fold (\<lambda>i x. x XOR (bits ! i AND sbox ! unat (td ! i))) [0..<8] 0"

definition cw_des_round :: "u8 list \<Rightarrow> u8 list \<Rightarrow> u8 list" where
  "cw_des_round k d =
     (let td = cw_des_td k d in
      cw_swap_data
        ([d ! 0 XOR cw_mix cw_AND_bit1 cw_sbox1 td, d ! 1 XOR cw_mix cw_AND_bit2 cw_sbox2 td,
          d ! 2 XOR cw_mix cw_AND_bit3 cw_sbox3 td, d ! 3 XOR cw_mix cw_AND_bit4 cw_sbox4 td] @ drop 4 d))"

subsection \<open>Key schedule\<close>

definition cw_48_key :: "u8 list \<Rightarrow> u8 list \<Rightarrow> u8 \<Rightarrow> u8 list" where
  "cw_48_key inkey outkey algotype =
     (let round_counter = 7 - unat (algotype AND 7);
          out = take 6 (drop 16 inkey) @ replicate 10 0 @ drop 16 outkey in
      fold (\<lambda>i out. if i > 1 then out[i - 2 := inkey ! i] else out) (rev [round_counter + 1..<9]) out)"

text \<open>One step to the left and to the right of a register of four bytes.\<close>

definition cw_ls_half :: "u16 \<Rightarrow> u16 \<Rightarrow> u16 \<Rightarrow> u16 \<Rightarrow> u16 list" where
  "cw_ls_half k0 k1 k2 k3 =
     (let carry = (\<lambda>k. if k AND 0xF00 \<noteq> 0 then 1 else 0);
          k3 = (k3 * 2) OR (if k0 AND 0x008 \<noteq> 0 then 1 else 0);
          k2 = (k2 * 2) OR carry k3;
          k1 = (k1 * 2) OR carry k2;
          k0 = (k0 * 2) OR carry k1 in
      [k0 AND 0xFF, k1 AND 0xFF, k2 AND 0xFF, k3 AND 0xFF])"

definition cw_rs_half :: "u8 \<Rightarrow> u8 \<Rightarrow> u8 \<Rightarrow> u8 \<Rightarrow> u8 list" where
  "cw_rs_half k0 k1 k2 k3 =
     (let c = (if k3 AND 0x10 \<noteq> 0 then 0x80 else 0);
          top_bit = (\<lambda>k. if k AND 1 \<noteq> 0 then 0x80 else 0) in
      [drop_bit 1 k0 OR c, drop_bit 1 k1 OR top_bit k0, drop_bit 1 k2 OR top_bit k1, drop_bit 1 k3 OR top_bit k2])"

definition cw_ls_step :: "u16 list \<Rightarrow> u16 list" where
  "cw_ls_step k = cw_ls_half (k ! 0) (k ! 1) (k ! 2) (k ! 3) @ cw_ls_half (k ! 4) (k ! 5) (k ! 6) (k ! 7)"

definition cw_rs_step :: "u8 list \<Rightarrow> u8 list" where
  "cw_rs_step k = cw_rs_half (k ! 0) (k ! 1) (k ! 2) (k ! 3) @ cw_rs_half (k ! 4) (k ! 5) (k ! 6) (k ! 7) @ drop 8 k"

definition cw_ls_des_key :: "u8 list \<Rightarrow> nat \<Rightarrow> u8 list" where
  "cw_ls_des_key key rotate_counter =
     (let n = [1, 2, 2, 2, 2, 2, 2, 1, 2, 2, 2, 2, 2, 2, 1, 1] ! rotate_counter in
      map ucast ((cw_ls_step ^^ n) (map ucast (take 8 key))) @ drop 8 key)"

definition cw_rs_des_key :: "u8 list \<Rightarrow> nat \<Rightarrow> u8 list" where
  "cw_rs_des_key k rotate_counter = (cw_rs_step ^^ rotate_counter) k"

definition cw_rs_des_subkey :: "u8 list \<Rightarrow> nat \<Rightarrow> u8 list" where
  "cw_rs_des_subkey k rotate_counter = cw_rs_des_key k ([1, 1, 2, 2, 2, 2, 2, 2, 1, 2, 2, 2, 2, 2, 2, 1] ! rotate_counter)"

text \<open>The bits of the seven bytes, from the last, go round the registers \<open>6, 5, \<dots>, 0\<close>.\<close>

definition cw_prep_bits :: "u8 \<Rightarrow> u8 list \<times> nat \<Rightarrow> u8 list \<times> nat" where
  "cw_prep_bits j = (\<lambda>(DES_key, i).
     fold (\<lambda>a (DES_key, i). (DES_key[i := (DES_key ! i * 2) OR (if drop_bit a j AND 1 \<noteq> 0 then 1 else 0)], if i = 0 then 6 else i - 1))
       [0..<8] (DES_key, i))"

definition cw_prep_key :: "u8 list \<Rightarrow> u8 list" where
  "cw_prep_key key =
     (case fold (\<lambda>round_counter. cw_prep_bits (key ! round_counter)) (rev [0..<7]) (replicate 8 0, 6) of (DES_key, i) \<Rightarrow>
        let DES_key = DES_key[4 := DES_key ! 6, 6 := DES_key ! 4];
            DES_key = DES_key[7 := DES_key ! 3 * 16] in
        cw_rs_des_key (DES_key @ drop 8 key) 4)"

subsection \<open>The cipher\<close>

definition cw_l2_des :: "u8 list \<Rightarrow> u8 \<Rightarrow> u8 list \<Rightarrow> u8 list" where
  "cw_l2_des key algo data =
     (let k1 = cw_prep_key (cw_48_key key key algo);
          k2 = cw_ls_des_key k1 15;
          k3 = cw_ls_des_key k2 15 in
      cw_des_round k3 (cw_des_round k2 data))"

definition cw_r2_des :: "u8 list \<Rightarrow> u8 \<Rightarrow> u8 list \<Rightarrow> u8 list" where
  "cw_r2_des key algo data =
     (let k1 = cw_prep_key (cw_48_key key key algo);
          k2 = cw_ls_des_key (cw_ls_des_key k1 15) 15;
          k3 = cw_rs_des_subkey k2 1 in
      cw_swap_data (cw_des_round k3 (cw_des_round k2 data)))"

fun cw_des_loop :: "nat \<Rightarrow> u8 \<Rightarrow> u8 list \<Rightarrow> u8 list \<Rightarrow> u8 list" where
  "cw_des_loop 0 m key data = data"
| "cw_des_loop (Suc i) m key data =
     (let key = (if m = 1 then cw_ls_des_key key i else key);
          data = cw_des_round key data;
          key = (if m = 0 then cw_rs_des_subkey key i else key) in
      cw_des_loop i m key data)"

definition cw_des :: "u8 list \<Rightarrow> u8 \<Rightarrow> u8 list \<Rightarrow> u8 list" where
  "cw_des inkey m data = cw_des_loop 16 m (cw_prep_key (take 8 (drop 9 inkey))) data"

text \<open>The block and the key afterwards.\<close>

definition cw_dec_enc :: "u8 list \<Rightarrow> u8 list \<Rightarrow> u8 \<Rightarrow> u8 \<Rightarrow> u8 list \<times> u8 list" where
  "cw_dec_enc d k a m =
     (cw_r2_des k a (cw_des k (m AND 1) (cw_l2_des k a d)), if m AND 2 \<noteq> 0 then cw_swap_key k else k)"

definition cw_decrypt_des :: "u8 \<Rightarrow> u8 list \<Rightarrow> u8 list \<Rightarrow> u8 list" where
  "cw_decrypt_des algo key data =
     (let algo = algo AND 7 in
      if algo < 7 then fst (cw_dec_enc data key algo 0)
      else fst (fold (\<lambda>i (data, k). case cw_dec_enc data k algo (i AND 1) of (data, k) \<Rightarrow> (data, cw_swap_key k)) [0, 1, 2] (data, key)))"

definition cw_signature :: "u8 list \<Rightarrow> u8 list \<Rightarrow> u8 list" where
  "cw_signature data key =
     (let algo = (if data ! 0 AND 7 = 7 then 6 else data ! 0 AND 7);
          (signature, sigPos, first) =
            fold (\<lambda>b (signature, sigPos, first).
                let signature = signature[sigPos := signature ! sigPos XOR b] in
                if sigPos + 1 > 7 then (cw_des key 1 (if first then cw_l2_des key algo signature else signature), 0, False)
                else (signature, sigPos + 1, first))
              data (replicate 8 0, 0 :: nat, True) in
      cw_r2_des key algo (if sigPos > 0 then cw_des key 1 signature else signature))"

subsection \<open>Keys and nano 80\<close>

definition cw_get_key :: "u32 \<Rightarrow> u32 \<Rightarrow> u8 \<Rightarrow> nat \<Rightarrow> emu \<Rightarrow> u8 list option" where
  "cw_get_key today ident key_index key_length st =
     (let key_index = (if drop_bit 4 ident = 0xD02A then key_index AND 0xFE else key_index);
          ident = (if drop_bit 4 ident = 0xD00C then 0x0D00C0
                   else if key_index = 6 \<and> drop_bit 8 ident = 0x0D05 then 0x0D0504 else ident);
          buf = cccam_emu_find_key today (CHR ''W'') ident (Some (hex_digits_of 2 (unat key_index))) 0 key_length st in
      if length buf \<ge> key_length then Some buf else None)"

text \<open>
  The new length and the data; \<open>Some (0, data)\<close> refuses. \<open>data\<close> are the bytes from the element on.
\<close>

definition cw_process_nano80 :: "u32 \<Rightarrow> emu \<Rightarrow> u8 list \<Rightarrow> u32 \<Rightarrow> int \<Rightarrow> u8 list \<Rightarrow> nat \<Rightarrow> u8 \<Rightarrow> (u8 \<times> u8 list) option" where
  "cw_process_nano80 today st data caid provider opKey nanoLength nano80Algo =
     (let special = (caid = 0x0D00 \<and> provider \<noteq> 0xA0); k0D00C000 = cw_get_key today 0x0D00C0 0 16 st in
      if nanoLength < 11 \<or> (special \<and> k0D00C000 = None) \<or> nano80Algo > 1 then Some (0, data)
      else
        let key = (if special then the k0D00C000 else take 16 opKey) in do {
          dat1 \<leftarrow> rd_sub data 0 8;
          let desKey0 = cccam_emu_des_ecb3_decrypt key dat1;
          let desKey1 = cccam_emu_des_ecb3_decrypt (cw_swap_key key) dat1;
          let desKey = desKey0 @ desKey1;
          data \<leftarrow> at_sub 0 8 (\<lambda>_. desKey1) data;
          data \<leftarrow> at_sub 8 (nanoLength - 8) (cbc_decrypt_blocks (cccam_emu_des_ecb3_decrypt desKey) (replicate 8 0) ((nanoLength - 8) div 8)) data;
          b10 \<leftarrow> rd data 10;
          Some (b10 + 5, data)
        })"

subsection \<open>ECM\<close>

definition cw_sct_len :: "u8 \<Rightarrow> u8 \<Rightarrow> nat" where
  "cw_sct_len b1 b2 = unat ((push_bit 8 (ucast (b1 AND 0x0F)) OR ucast b2) :: u16)"

text \<open>The loops \<open>for (i = 8; i + 1 < ecmLen; i += ecm[i + 1] + 2)\<close>; \<open>Inl\<close> leaves the loop and the function.\<close>

function cw_walk :: "('s \<Rightarrow> u8 list) \<Rightarrow> (nat \<Rightarrow> 's \<Rightarrow> ('r + 's) option) \<Rightarrow> nat \<Rightarrow> nat \<Rightarrow> 's \<Rightarrow> ('r + 's) option" where
  "cw_walk view step i n s =
     (if n \<le> i + 1 then Some (Inr s)
      else (case step i s of
          None \<Rightarrow> None
        | Some (Inl r) \<Rightarrow> Some (Inl r)
        | Some (Inr s') \<Rightarrow> (case rd (view s') (i + 1) of None \<Rightarrow> None | Some l \<Rightarrow> cw_walk view step (i + unat l + 2) n s')))"
  by auto
termination by (relation "measure (\<lambda>(view, step, i, n, s). n - i)") auto

declare cw_walk.simps [simp del]

text \<open>Provider (-1 as long as there is none), key index and algorithm of nano 80.\<close>

definition cw_scan_step :: "u8 list \<Rightarrow> nat \<Rightarrow> nat \<Rightarrow> int \<times> u8 \<times> u8 \<Rightarrow> (unit + int \<times> u8 \<times> u8) option" where
  "cw_scan_step ecm ecmLen i = (\<lambda>(provider, keyIndex, algo). do {
     tag \<leftarrow> rd ecm i;
     if tag = 0x83 \<and> i + 2 < ecmLen then do {
       b \<leftarrow> rd ecm (i + 2);
       Some (Inr (uint (b AND 0xFC), if b AND 3 \<noteq> 0 then 1 else 0, algo))
     }
     else if tag = 0x84 \<and> i + 3 < ecmLen then do { b \<leftarrow> rd ecm (i + 3); Some (Inr (provider, keyIndex, b)) }
     else Some (Inr (provider, keyIndex, algo))
   })"

definition cw_default_provider :: "u32 \<Rightarrow> int option" where
  "cw_default_provider caid =
     (if caid = 0x0D00 then Some 0xC0 else if caid = 0x0D02 then Some 0xA0
      else if caid = 0x0D03 \<or> caid = 0x0D05 then Some 0x04 else None)"

text \<open>An element 0x80: \<open>Inl None\<close> is not supported, \<open>Inl (Some ecm')\<close> goes on with the section inside.\<close>

definition cw_nano_step ::
  "u32 \<Rightarrow> emu \<Rightarrow> u32 \<Rightarrow> int \<Rightarrow> u8 list \<Rightarrow> u8 \<Rightarrow> nat \<Rightarrow> nat \<Rightarrow> u8 list \<Rightarrow> (u8 list option + u8 list) option" where
  "cw_nano_step today st caid provider key algo ecmLen i ecm = do {
     tag \<leftarrow> rd ecm i;
     len \<leftarrow> rd ecm (i + 1);
     if tag = 0x80 \<and> i + 2 + 7 < ecmLen \<and> i + 2 + unat len \<le> ecmLen \<and> provider \<in> {0xA0, 0xC0, 0xC4, 0xC8} then do {
       (newEcmLength, data) \<leftarrow> cw_process_nano80 today st (drop (i + 2) ecm) caid provider key (unat len) algo;
       if newEcmLength = 0 \<or> int (unat newEcmLength) > int ecmLen - int (i + 2 + 3) then Some (Inl None)
       else do { data \<leftarrow> at_sub 3 5 (\<lambda>_. [0x81, 0x70, newEcmLength, 0x81, 0xFF]) data; Some (Inl (Some (drop 3 data))) }
     }
     else Some (Inr ecm)
   }"

text \<open>The words are decrypted where they are; a signature that differs ends the ECM.\<close>

definition cw_open_step :: "u8 list \<Rightarrow> u8 list \<Rightarrow> nat \<Rightarrow> nat \<Rightarrow> u8 list \<Rightarrow> (unit + u8 list) option" where
  "cw_open_step key signature ecmLen i ecm = do {
     tag \<leftarrow> rd ecm i;
     len \<leftarrow> rd ecm (i + 1);
     algo \<leftarrow> rd ecm 5;
     if tag \<in> {0xDA, 0xDB, 0xDC} then
       (if i + 2 + unat len > ecmLen then Some (Inr ecm)
        else do {
          ecm \<leftarrow> at_sub (i + 2) (8 * (unat len div 8))
            (\<lambda>b. concat (map (\<lambda>j. cw_decrypt_des algo key (take 8 (drop (8 * j) b))) [0..<unat len div 8])) ecm;
          Some (Inr ecm)
        })
     else if tag = 0xDF then
       (if i + 2 + 8 > ecmLen then Some (Inr ecm)
        else do { b \<leftarrow> rd_sub ecm (i + 2) 8; Some (if b = signature then Inr ecm else Inl ()) })
     else Some (Inr ecm)
   }"

definition cw_find_step :: "nat \<Rightarrow> nat \<Rightarrow> u8 list \<Rightarrow> (u8 list + u8 list) option" where
  "cw_find_step ecmLen i ecm = do {
     tag \<leftarrow> rd ecm i;
     len \<leftarrow> rd ecm (i + 1);
     if tag = 0xDB \<and> i + 2 + unat len \<le> ecmLen \<and> len = 16 then do { b \<leftarrow> rd_sub ecm (i + 2) 16; Some (Inl b) }
     else Some (Inr ecm)
   }"

text \<open>What is left of a section without nano 80: \<open>None\<close> is no word.\<close>

definition cw_open_section :: "u8 list \<Rightarrow> nat \<Rightarrow> u8 list \<Rightarrow> (int \<times> u8 list option) option" where
  "cw_open_section key ecmLen ecm =
     (if ecmLen < 16 then Some (EMU_NOT_SUPPORTED, None)
      else do {
        signed \<leftarrow> rd_sub ecm 5 (ecmLen - 15);
        opened \<leftarrow> cw_walk id (cw_open_step key (cw_signature signed key) ecmLen) 8 ecmLen ecm;
        (case opened of
           Inl _ \<Rightarrow> Some (EMU_CHECKSUM_ERROR, None)
         | Inr ecm \<Rightarrow> do {
             found \<leftarrow> cw_walk id (cw_find_step ecmLen) 8 ecmLen ecm;
             Some (case found of Inl cw \<Rightarrow> (EMU_OK, Some cw) | Inr _ \<Rightarrow> (EMU_NOT_SUPPORTED, None))
           })
      })"

text \<open>A section whose provider is known: a result, or the section inside.\<close>

definition cw_keyed_section ::
  "u32 \<Rightarrow> emu \<Rightarrow> u32 \<Rightarrow> int \<Rightarrow> u8 \<Rightarrow> u8 \<Rightarrow> nat \<Rightarrow> u8 list \<Rightarrow> ((int \<times> u8 list option) + u8 list) option" where
  "cw_keyed_section today st caid provider keyIndex algo ecmLen ecm =
     (let ident = push_bit 8 caid OR of_int provider in
      case (cw_get_key today ident keyIndex 16 st, cw_get_key today ident 6 6 st) of
        (Some key16, Some key6) \<Rightarrow> do {
          nano \<leftarrow> cw_walk id (cw_nano_step today st caid provider (key16 @ key6) algo ecmLen) 8 ecmLen ecm;
          (case nano of
             Inl None \<Rightarrow> Some (Inl (EMU_NOT_SUPPORTED, None))
           | Inl (Some inner) \<Rightarrow> Some (Inr inner)
           | Inr ecm \<Rightarrow> map_option Inl (cw_open_section (key16 @ key6) ecmLen ecm))
        }
      | _ \<Rightarrow> Some (Inl (EMU_KEY_NOT_FOUND, None)))"

definition cw_section :: "u32 \<Rightarrow> emu \<Rightarrow> u32 \<Rightarrow> u8 list \<Rightarrow> ((int \<times> u8 list option) + u8 list) option" where
  "cw_section today st caid ecm = do {
     b1 \<leftarrow> rd ecm 1;
     b2 \<leftarrow> rd ecm 2;
     let ecmLen = cw_sct_len b1 b2;
     if ecmLen < 8 then Some (Inl (EMU_NOT_SUPPORTED, None))
     else do {
       b7 \<leftarrow> rd ecm 7;
       if unat b7 \<noteq> ecmLen - 8 then Some (Inl (EMU_NOT_SUPPORTED, None))
       else do {
         scanned \<leftarrow> cw_walk (\<lambda>_. ecm) (cw_scan_step ecm ecmLen) 8 ecmLen (-1, 0, 1);
         (case scanned of Inl _ \<Rightarrow> None
          | Inr (provider, keyIndex, algo) \<Rightarrow>
              (case (if provider < 0 then cw_default_provider caid else Some provider) of
                 None \<Rightarrow> Some (Inl (EMU_NOT_SUPPORTED, None))
               | Some provider \<Rightarrow> cw_keyed_section today st caid provider keyIndex algo ecmLen ecm))
       }
     }
   }"

lemma cw_walk_Inl:
  "cw_walk view step i n s = Some (Inl r) \<Longrightarrow> (\<And>j s s'. P s \<Longrightarrow> step j s = Some (Inr s') \<Longrightarrow> P s') \<Longrightarrow> P s
   \<Longrightarrow> \<exists>j s'. i \<le> j \<and> P s' \<and> step j s' = Some (Inl r)"
proof (induction view step i n s rule: cw_walk.induct)
  case (1 view step i n s)
  obtain x where n: "\<not> n \<le> i + 1" and x: "step i s = Some x"
    using 1(2) by (subst (asm) cw_walk.simps) (auto split: if_splits option.splits)
  show ?case
  proof (cases x)
    case (Inl a)
    with 1(2) n x have "a = r" by (subst (asm) cw_walk.simps) simp
    with Inl x 1(4) show ?thesis by auto
  next
    case (Inr s')
    with 1(2) n x obtain l where l: "rd (view s') (i + 1) = Some l" "cw_walk view step (i + unat l + 2) n s' = Some (Inl r)"
      by (subst (asm) (1) cw_walk.simps) (auto split: option.splits)
    have "P s'" using 1(3) [OF 1(4)] x Inr by simp
    have "\<exists>j s''. i + unat l + 2 \<le> j \<and> P s'' \<and> step j s'' = Some (Inl r)"
      by (rule 1(1) [OF n x Inr l(1,2)]) (use 1(3) \<open>P s'\<close> in auto)
    then show ?thesis by (metis add_leD1 add.assoc)
  qed
qed

lemma length_ecb3 [simp]: "length (cccam_emu_des_ecb3_decrypt key b) = 8"
  by (simp add: cccam_emu_des_ecb3_decrypt_def Let_def)

interpretation ecb3: block_map "cccam_emu_des_ecb3_decrypt key" for key
  by unfold_locales simp

lemma nano80_total:
  assumes "n \<le> length data"
  shows "\<exists>r data'. cw_process_nano80 today st data caid provider key n algo = Some (r, data') \<and> length data' = length data \<and> (r \<noteq> 0 \<longrightarrow> 11 \<le> n)"
  using assms by (auto simp: cw_process_nano80_def Let_def at_sub_def ecb3.length_cbc_decrypt)

lemma nano80_length: "cw_process_nano80 today st data caid provider key n algo = Some (r, data') \<Longrightarrow> length data' = length data"
  by (auto simp: cw_process_nano80_def Let_def bind_eq_Some_conv at_sub_def ecb3.length_cbc_decrypt split: if_splits)

lemma nano_step_inner: "cw_nano_step today st caid provider key algo n i ecm = Some (Inl (Some inner)) \<Longrightarrow> length inner < length ecm"
  by (auto simp: cw_nano_step_def bind_eq_Some_conv at_sub_def rd_def split: if_splits dest!: nano80_length)

lemma nano_step_same: "cw_nano_step today st caid provider key algo n i ecm = Some (Inr ecm') \<Longrightarrow> ecm' = ecm"
  by (auto simp: cw_nano_step_def bind_eq_Some_conv split: if_splits)

lemma keyed_section_InrD:
  assumes "cw_keyed_section today st caid provider keyIndex algo n ecm = Some (Inr inner)"
  shows "\<exists>key j. cw_nano_step today st caid provider key algo n j ecm = Some (Inl (Some inner))"
proof -
  obtain key nano where w: "cw_walk id (cw_nano_step today st caid provider key algo n) 8 n ecm = Some nano"
      "(case nano of Inl None \<Rightarrow> Some (Inl (EMU_NOT_SUPPORTED, None)) | Inl (Some inner) \<Rightarrow> Some (Inr inner)
        | Inr ecm \<Rightarrow> map_option Inl (cw_open_section key n ecm)) = Some (Inr inner)"
    using assms by (auto simp: cw_keyed_section_def Let_def bind_eq_Some_conv split: option.splits)
  then have "nano = Inl (Some inner)" by (cases nano) (auto split: option.splits)
  with w(1) have "cw_walk id (cw_nano_step today st caid provider key algo n) 8 n ecm = Some (Inl (Some inner))" by simp
  from cw_walk_Inl [OF this, of "\<lambda>s. s = ecm"] show ?thesis using nano_step_same by blast
qed

lemma section_InrD:
  assumes "cw_section today st caid ecm = Some (Inr inner)"
  shows "\<exists>provider key algo n j. cw_nano_step today st caid provider key algo n j ecm = Some (Inl (Some inner))"
proof -
  obtain n scanned where "(case scanned of Inl (x :: unit) \<Rightarrow> None
          | Inr (provider, keyIndex, algo) \<Rightarrow>
              (case (if provider < 0 then cw_default_provider caid else Some provider) of
                 None \<Rightarrow> Some (Inl (EMU_NOT_SUPPORTED, None))
               | Some provider \<Rightarrow> cw_keyed_section today st caid provider keyIndex algo n ecm)) = Some (Inr inner)"
    using assms by (auto simp: cw_section_def Let_def bind_eq_Some_conv split: if_splits)
  then show ?thesis
    by (cases scanned) (auto dest!: keyed_section_InrD split: prod.splits option.splits, blast)
qed

lemma cw_section_inner: "cw_section today st caid ecm = Some (Inr inner) \<Longrightarrow> length inner < length ecm"
  using section_InrD nano_step_inner by blast

text \<open>Every section inside is shorter than the buffer it is in, so the recursion ends.\<close>

function cw_sections :: "u32 \<Rightarrow> emu \<Rightarrow> u32 \<Rightarrow> u8 list \<Rightarrow> (int \<times> u8 list option) option" where
  "cw_sections today st caid ecm =
     (case cw_section today st caid ecm of
        None \<Rightarrow> None
      | Some (Inl r) \<Rightarrow> Some r
      | Some (Inr inner) \<Rightarrow> cw_sections today st caid inner)"
  by auto
termination by (relation "measure (\<lambda>(today, st, caid, ecm). length ecm)") (auto dest: cw_section_inner)

declare cw_sections.simps [simp del]

definition cccam_emu_cryptoworks_ecm :: "u32 \<Rightarrow> emu \<Rightarrow> u32 \<Rightarrow> u8 list \<Rightarrow> u8 list \<Rightarrow> (int \<times> u8 list) option" where
  "cccam_emu_cryptoworks_ecm today st caid ecm cw =
     map_option (\<lambda>(rc, w). (rc, case w of None \<Rightarrow> cw | Some w \<Rightarrow> copy_sub 0 w cw)) (cw_sections today st caid ecm)"

subsection \<open>The key registers turn in circles\<close>

lemma be32_of_be32: "be32 (of_be32 a b c d) = [a, b, c, d]"
  by (auto simp: be32_def of_be32_def bit_simps no_bit8 intro!: bit_word_eqI)

definition reg_left :: "u32 \<Rightarrow> u32" where
  "reg_left w = push_bit 1 w OR (drop_bit 27 w AND 1)"

definition reg_right :: "u32 \<Rightarrow> u32" where
  "reg_right w = drop_bit 1 w OR push_bit 31 (drop_bit 4 w)"

text \<open>A register of 32 bits that shows a cycle of 28.\<close>

definition cyclic :: "u32 \<Rightarrow> bool" where
  "cyclic w \<longleftrightarrow> (\<forall>j < 4. bit w (28 + j) = bit w j)"

lemma bit_reg_left: "n < 32 \<Longrightarrow> bit (reg_left w) n = (if n = 0 then bit w 27 else bit w (n - 1))"
  unfolding reg_left_def bit_or_iff bit_push_bit_iff bit_and_iff bit_drop_bit_eq bit_1_iff by auto

lemma bit_reg_right: "n < 32 \<Longrightarrow> bit (reg_right w) n = (if n = 31 then bit w 4 else bit w (n + 1))"
proof -
  assume "n < 32"
  moreover have "\<not> bit w 32" for w :: u32 using bit_imp_le_length [of w 32] by auto
  ultimately show ?thesis
    unfolding reg_right_def bit_or_iff bit_push_bit_iff bit_drop_bit_eq by auto
qed

lemma cyclic_left: "cyclic w \<Longrightarrow> cyclic (reg_left w)"
  unfolding cyclic_def
proof (intro allI impI)
  fix j :: nat assume "\<forall>j<4. bit w (28 + j) = bit w j" "j < 4"
  then show "bit (reg_left w) (28 + j) = bit (reg_left w) j"
    by (cases j) (simp_all add: bit_reg_left)
qed

lemma cyclic_right: "cyclic w \<Longrightarrow> cyclic (reg_right w)"
  unfolding cyclic_def
proof (intro allI impI)
  fix j :: nat assume c: "\<forall>j<4. bit w (28 + j) = bit w j" and j: "j < 4"
  show "bit (reg_right w) (28 + j) = bit (reg_right w) j"
  proof (cases "j = 3")
    case False
    then have "bit w (28 + (j + 1)) = bit w (j + 1)" using c j by (intro c [rule_format]) simp
    moreover have "28 + j \<noteq> 31" "j \<noteq> 31" "28 + j < 32" "j < 32" using False j by auto
    ultimately show ?thesis by (simp only: bit_reg_right if_False add.assoc)
  qed (simp add: bit_reg_right)
qed

lemma left_right: "cyclic w \<Longrightarrow> reg_left (reg_right w) = w" and right_left: "cyclic w \<Longrightarrow> reg_right (reg_left w) = w"
proof -
  assume c: "cyclic w"
  then have "bit w 28 = bit w 0" "bit w 31 = bit w 3" unfolding cyclic_def by (force dest: spec [of _ 0], force dest: spec [of _ 3])
  note ends = this
  show "reg_left (reg_right w) = w"
  proof (rule bit_word_eqI)
    fix n assume "n < LENGTH(32)"
    then show "bit (reg_left (reg_right w)) n = bit w n"
      using ends(1) by (cases n) (simp_all add: bit_reg_left bit_reg_right)
  qed
  show "reg_right (reg_left w) = w"
  proof (rule bit_word_eqI)
    fix n assume "n < LENGTH(32)"
    then show "bit (reg_right (reg_left w)) n = bit w n"
      using ends(2) by (cases "n = 31") (simp_all add: bit_reg_left bit_reg_right)
  qed
qed

lemma cyclic_right4: "cyclic ((reg_right ^^ 4) w)"
proof -
  have n: "n < 28 \<Longrightarrow> bit ((reg_right ^^ 4) w) n = bit w (n + 4)" for n
    by (simp add: numeral_eq_Suc bit_reg_right)
  have "bit ((reg_right ^^ 4) w) (28 + j) = bit w (4 + j)" if "j < 4" for j
  proof -
    from that have "j = 0 \<or> j = 1 \<or> j = 2 \<or> j = 3" by auto
    then show ?thesis by (elim disjE) (simp_all add: numeral_eq_Suc bit_reg_right)
  qed
  with n show ?thesis by (simp add: cyclic_def add.commute)
qed

lemma bit_left_pow:
  assumes "cyclic w" and "m \<le> 28" and "n < 28"
  shows "bit ((reg_left ^^ m) w) n = bit w ((n + 28 - m) mod 28)"
  using assms(2,3)
proof (induction m arbitrary: n)
  case (Suc m)
  show ?case
  proof (cases n)
    case 0
    moreover have "(0 + 28 - Suc m) mod 28 = 27 - m" "(27 + 28 - m) mod 28 = 27 - m" using Suc.prems(1) by (auto simp: mod_if)
    ultimately show ?thesis using Suc.IH [of 27] Suc.prems by (simp only: funpow.simps o_apply bit_reg_left) simp
  next
    case (Suc k)
    then show ?thesis using Suc.IH [of k] Suc.prems by (simp add: bit_reg_left add.commute)
  qed
qed (simp add: mod_if)

lemma cyclic_left_pow: "cyclic w \<Longrightarrow> cyclic ((reg_left ^^ m) w)"
  by (induction m) (simp_all add: cyclic_left)

lemma cyclic_eqI: "cyclic v \<Longrightarrow> cyclic w \<Longrightarrow> (\<And>n. n < 28 \<Longrightarrow> bit v n = bit w n) \<Longrightarrow> v = w"
proof (rule bit_word_eqI)
  fix n assume c: "cyclic v" "cyclic w" and eq: "\<And>n. n < 28 \<Longrightarrow> bit v n = bit w n" and n: "n < LENGTH(32)"
  show "bit v n = bit w n"
  proof (cases "n < 28")
    case False
    then have "n - 28 < 4" "28 + (n - 28) = n" using n by auto
    then have "bit v n = bit v (n - 28)" "bit w n = bit w (n - 28)" using c unfolding cyclic_def by metis+
    then show ?thesis using eq [of "n - 28"] n by simp
  qed (rule eq)
qed

lemma left_28: "cyclic w \<Longrightarrow> (reg_left ^^ 28) w = w"
  by (rule cyclic_eqI) (simp_all add: cyclic_left_pow bit_left_pow)

lemma right_of_left: "cyclic w \<Longrightarrow> m \<le> n \<Longrightarrow> (reg_right ^^ m) ((reg_left ^^ n) w) = (reg_left ^^ (n - m)) w"
proof (induction m)
  case (Suc m)
  then have "(reg_left ^^ (n - m)) w = reg_left ((reg_left ^^ (n - Suc m)) w)"
    by (metis Suc_diff_Suc Suc_le_lessD funpow.simps(2) o_apply)
  with Suc show ?case by (simp add: right_left cyclic_left_pow)
qed simp

text \<open>The steps on bytes are these steps.\<close>


lemma rs_half: "cw_rs_half a b c d = be32 (reg_right (of_be32 a b c d))"
proof -
  have t: "(x AND 0x10 \<noteq> 0) = bit x 4" "(x AND 1 \<noteq> 0) = bit x 0" for x :: u8
    using and_exp_eq_0_iff_not_bit [of x 4] and_exp_eq_0_iff_not_bit [of x 0] by simp_all
  have if80: "bit (if p then 0x80 else 0 :: u8) n \<longleftrightarrow> p \<and> n = 7" for p n by (cases p) (simp_all only: if_True if_False bit_80 bit_0_eq bot_fun_def bot_bool_def simp_thms)
  have r: "bit (reg_right (of_be32 a b c d)) n \<longleftrightarrow> (if n = 31 then bit d 4 else bit (of_be32 a b c d) (n + 1))" if "n < 32" for n
    using that by (simp add: bit_reg_right) (simp add: of_be32_def bit_simps no_bit8)
  have o: "bit (of_be32 a b c d) n = (if n < 8 then bit d n else if n < 16 then bit c (n - 8) else if n < 24 then bit b (n - 16) else bit a (n - 24))"
    if "n < 32" for n
    using that by (auto simp: of_be32_def bit_simps no_bit8)
  show ?thesis
    unfolding cw_rs_half_def be32_def Let_def t
  proof (intro arg_cong2 [where f = Cons] refl bit_word_eqI)
    fix n assume "n < LENGTH(8)"
    then have n: "n < 8" "n = 7 \<or> n < 7" by auto
    show "bit (drop_bit 1 a OR (if bit d 4 then 0x80 else 0)) n = bit (ucast (drop_bit 24 (reg_right (of_be32 a b c d))) :: u8) n"
      using n by (auto simp: bit_or_iff bit_drop_bit_eq if80 bit_ucast_iff r o no_bit8)
    show "bit (drop_bit 1 b OR (if bit a 0 then 0x80 else 0)) n = bit (ucast (drop_bit 16 (reg_right (of_be32 a b c d))) :: u8) n"
      using n by (auto simp: bit_or_iff bit_drop_bit_eq if80 bit_ucast_iff r o no_bit8)
    show "bit (drop_bit 1 c OR (if bit b 0 then 0x80 else 0)) n = bit (ucast (drop_bit 8 (reg_right (of_be32 a b c d))) :: u8) n"
      using n by (auto simp: bit_or_iff bit_drop_bit_eq if80 bit_ucast_iff r o no_bit8)
    show "bit (drop_bit 1 d OR (if bit c 0 then 0x80 else 0)) n = bit (ucast (reg_right (of_be32 a b c d)) :: u8) n"
      using n by (auto simp: bit_or_iff bit_drop_bit_eq if80 bit_ucast_iff r o no_bit8)
  qed
qed

lemma bit_twice: "bit ((ucast (y :: u8) :: u16) * 2 OR (if p then 1 else 0)) n \<longleftrightarrow> (if n = 0 then p else bit y (n - 1))"
proof -
  have two: "(ucast y :: u16) * 2 = push_bit 1 (ucast y)" by (simp add: push_bit_eq_mult)
  have "\<not> bit y (n - 1)" if "16 \<le> n" using that no_bit8 [of "n - 1" y] by simp
  moreover have "bit (if p then 1 else 0 :: u16) n \<longleftrightarrow> p \<and> n = 0" by (cases p) (simp_all add: bit_1_iff)
  ultimately show ?thesis
    unfolding two bit_or_iff bit_push_bit_iff bit_ucast_iff by (auto dest: bit_imp_le_length)
qed

lemma carry_bit: "((ucast (y :: u8) :: u16) * 2 OR (if p then 1 else 0)) AND 0xF00 \<noteq> 0 \<longleftrightarrow> bit y 7"
proof -
  let ?w = "(ucast y :: u16) * 2 OR (if p then 1 else 0)"
  have m: "(0xF00 :: u16) = push_bit 8 (mask 4)" by (simp add: mask_eq_exp_minus_1)
  have b: "bit (?w AND 0xF00) n \<longleftrightarrow> n = 8 \<and> bit y 7" for n
  proof -
    have "bit (?w AND 0xF00) n \<longleftrightarrow> bit ?w n \<and> 8 \<le> n \<and> n < 12"
      unfolding m bit_and_iff bit_push_bit_iff bit_mask_iff by auto
    moreover have "\<not> bit y (n - 1)" if "9 \<le> n" using that no_bit8 [of "n - 1" y] by simp
    ultimately show ?thesis unfolding bit_twice by (cases "9 \<le> n"; cases "n = 8") auto
  qed
  show ?thesis
  proof
    assume "?w AND 0xF00 \<noteq> 0"
    then obtain n where "bit (?w AND 0xF00) n" by (metis bit_0_eq bot_apply bot_bool_def bit_eqI)
    then show "bit y 7" unfolding b by blast
  next
    assume "bit y 7"
    then have "bit (?w AND 0xF00) 8" unfolding b by simp
    then show "?w AND 0xF00 \<noteq> 0" by (metis bit_0_eq bot_apply bot_bool_def)
  qed
qed

lemma ls_half: "map ucast (cw_ls_half (ucast a) (ucast b) (ucast c) (ucast d)) = be32 (reg_left (of_be32 a b c d))"
proof -
  have t: "((ucast a :: u16) AND 0x008 \<noteq> 0) = bit a 3"
    using and_exp_eq_0_iff_not_bit [of "ucast a :: u16" 3] by (simp add: bit_ucast_iff)
  have l: "bit (reg_left (of_be32 a b c d)) n \<longleftrightarrow> (if n = 0 then bit a 3 else bit (of_be32 a b c d) (n - 1))" if "n < 32" for n
    using that by (simp add: bit_reg_left) (simp add: of_be32_def bit_simps no_bit8)
  have o: "bit (of_be32 a b c d) n = (if n < 8 then bit d n else if n < 16 then bit c (n - 8) else if n < 24 then bit b (n - 16) else bit a (n - 24))"
    if "n < 32" for n
    using that by (auto simp: of_be32_def bit_simps no_bit8)
  have byte: "bit (ucast ((ucast (y :: u8) * 2 OR (if p then 1 else 0) :: u16) AND 0xFF) :: u8) n \<longleftrightarrow> n < 8 \<and> (if n = 0 then p else bit y (n - 1))" for y p n
  proof -
    have m: "(0xFF :: u16) = mask 8" by (simp add: mask_eq_exp_minus_1)
    show ?thesis unfolding m bit_ucast_iff bit_and_iff bit_twice bit_mask_iff by auto
  qed
  have nums: "n < 8 \<Longrightarrow> n \<noteq> 0 \<Longrightarrow> n - 1 < 8 \<and> 8 + n - 1 = 7 + n \<and> 16 + n - 1 = 15 + n \<and> 24 + n - 1 = 23 + n" for n :: nat by auto
  show ?thesis
    unfolding cw_ls_half_def be32_def Let_def t carry_bit list.map
  proof (intro arg_cong2 [where f = Cons] refl bit_word_eqI)
    fix n assume "n < LENGTH(8)"
    then have n: "n < 8" by simp
    show "bit (ucast ((ucast a * 2 OR (if bit b 7 then 1 else 0) :: u16) AND 0xFF) :: u8) n = bit (ucast (drop_bit 24 (reg_left (of_be32 a b c d))) :: u8) n"
      using n nums [OF n] unfolding byte by (auto simp: bit_drop_bit_eq bit_ucast_iff l o)
    show "bit (ucast ((ucast b * 2 OR (if bit c 7 then 1 else 0) :: u16) AND 0xFF) :: u8) n = bit (ucast (drop_bit 16 (reg_left (of_be32 a b c d))) :: u8) n"
      using n nums [OF n] unfolding byte by (auto simp: bit_drop_bit_eq bit_ucast_iff l o)
    show "bit (ucast ((ucast c * 2 OR (if bit d 7 then 1 else 0) :: u16) AND 0xFF) :: u8) n = bit (ucast (drop_bit 8 (reg_left (of_be32 a b c d))) :: u8) n"
      using n nums [OF n] unfolding byte by (auto simp: bit_drop_bit_eq bit_ucast_iff l o)
    show "bit (ucast ((ucast d * 2 OR (if bit a 3 then 1 else 0) :: u16) AND 0xFF) :: u8) n = bit (ucast (reg_left (of_be32 a b c d)) :: u8) n"
      using n nums [OF n] unfolding byte by (auto simp: bit_drop_bit_eq bit_ucast_iff l o)
  qed
qed

text \<open>A key with the registers \<open>v\<close> and \<open>w\<close> in its first eight bytes.\<close>

lemma length8_be32:
  assumes "8 \<le> length k"
  obtains v w r where "k = be32 v @ be32 w @ r"
proof -
  obtain a b c d e f g h r where "k = [a, b, c, d, e, f, g, h] @ r"
  proof -
    have "length (take 8 k) = 8" using assms by simp
    then obtain a b c d e f g h where "take 8 k = [a, b, c, d, e, f, g, h]" unfolding length_8 by blast
    then show thesis using that append_take_drop_id by metis
  qed
  then have "k = be32 (of_be32 a b c d) @ be32 (of_be32 e f g h) @ r" by (simp add: be32_of_be32)
  then show thesis by (rule that)
qed

lemma be32_nth: "be32 v = [be32 v ! 0, be32 v ! 1, be32 v ! 2, be32 v ! 3]"
  "of_be32 (be32 v ! 0) (be32 v ! 1) (be32 v ! 2) (be32 v ! 3) = v"
  by (simp_all add: be32_def)

lemma rs_step: "cw_rs_step (be32 v @ be32 w @ r) = be32 (reg_right v) @ be32 (reg_right w) @ r"
  by (simp add: cw_rs_step_def rs_half be32_def numeral_2_eq_2 numeral_3_eq_3)

lemma rs_des_key: "cw_rs_des_key (be32 v @ be32 w @ r) n = be32 ((reg_right ^^ n) v) @ be32 ((reg_right ^^ n) w) @ r"
  by (induction n) (simp_all add: cw_rs_des_key_def rs_step del: append.simps)

lemma ucast_u16_u8: "(ucast (ucast (x :: u8) :: u16) :: u8) = x"
  by (rule bit_word_eqI) (simp add: bit_simps)

lemma ls_half_bytes: "cw_ls_half (ucast a) (ucast b) (ucast c) (ucast d) = map ucast (be32 (reg_left (of_be32 a b c d)))"
proof -
  have small: "ucast (ucast (x AND 0xFF :: u16) :: u8) = x AND 0xFF" for x
  proof -
    have m: "(0xFF :: u16) = mask 8" by (simp add: mask_eq_exp_minus_1)
    show ?thesis unfolding m by (rule bit_word_eqI) (auto simp: bit_simps)
  qed
  have "map ucast (map ucast (cw_ls_half (ucast a) (ucast b) (ucast c) (ucast d)) :: u8 list) = cw_ls_half (ucast a) (ucast b) (ucast c) (ucast d)"
    by (simp only: cw_ls_half_def Let_def list.map small)
  then show ?thesis by (simp only: ls_half)
qed

lemma ls_step: "cw_ls_step (map ucast (be32 v @ be32 w)) = map ucast (be32 (reg_left v) @ be32 (reg_left w))"
proof -
  have "cw_ls_step (map ucast (be32 v @ be32 w))
    = cw_ls_half (ucast (be32 v ! 0)) (ucast (be32 v ! 1)) (ucast (be32 v ! 2)) (ucast (be32 v ! 3))
      @ cw_ls_half (ucast (be32 w ! 0)) (ucast (be32 w ! 1)) (ucast (be32 w ! 2)) (ucast (be32 w ! 3))"
    by (simp add: cw_ls_step_def be32_def)
  then show ?thesis by (simp only: ls_half_bytes be32_nth(2) map_append)
qed

lemma ls_steps: "(cw_ls_step ^^ n) (map ucast (be32 v @ be32 w)) = map ucast (be32 ((reg_left ^^ n) v) @ be32 ((reg_left ^^ n) w))"
  by (induction n) (simp_all only: funpow.simps o_apply id_apply ls_step)

definition cw_left_turns :: "nat list" where
  "cw_left_turns = [1, 2, 2, 2, 2, 2, 2, 1, 2, 2, 2, 2, 2, 2, 1, 1]"

definition cw_right_turns :: "nat list" where
  "cw_right_turns = [1, 1, 2, 2, 2, 2, 2, 2, 1, 2, 2, 2, 2, 2, 2, 1]"

text \<open>The key with both registers turned \<open>n\<close> to the left.\<close>

definition turned_key :: "u32 \<Rightarrow> u32 \<Rightarrow> u8 list \<Rightarrow> nat \<Rightarrow> u8 list" where
  "turned_key v w r n = be32 ((reg_left ^^ n) v) @ be32 ((reg_left ^^ n) w) @ r"

lemma ls_turned: "cw_ls_des_key (turned_key v w r n) i = turned_key v w r (cw_left_turns ! i + n)"
proof -
  let ?v = "(reg_left ^^ n) v" and ?w = "(reg_left ^^ n) w"
  have t: "take 8 (be32 ?v @ be32 ?w @ r) = be32 ?v @ be32 ?w" "drop 8 (be32 ?v @ be32 ?w @ r) = r" by simp_all
  have id: "map ucast (map ucast xs :: u16 list) = (xs :: u8 list)" for xs by (simp add: ucast_u16_u8 o_def)
  show ?thesis
    unfolding cw_ls_des_key_def turned_key_def t Let_def ls_steps id cw_left_turns_def [symmetric]
    by (simp only: funpow_add o_apply append_assoc)
qed

lemma rs_turned:
  assumes "cyclic v" "cyclic w" "cw_right_turns ! i \<le> n"
  shows "cw_rs_des_subkey (turned_key v w r n) i = turned_key v w r (n - cw_right_turns ! i)"
  unfolding cw_rs_des_subkey_def turned_key_def cw_right_turns_def [symmetric] rs_des_key
  by (simp only: right_of_left assms)

lemma turned_28: "cyclic v \<Longrightarrow> cyclic w \<Longrightarrow> turned_key v w r 28 = turned_key v w r 0"
  by (simp only: turned_key_def left_28 funpow_0)

lemma length_prep_bits [simp]: "length (fst (cw_prep_bits j p)) = length (fst p)"
proof -
  have "length (fst (fold (\<lambda>a (D, i). (D[i := f a D i], g i)) xs p)) = length (fst p)" for f :: "nat \<Rightarrow> u8 list \<Rightarrow> nat \<Rightarrow> u8" and g xs p
    by (induction xs arbitrary: p) (simp_all split: prod.split)
  then show ?thesis by (simp add: cw_prep_bits_def split: prod.split)
qed

lemma prep_key_cyclic:
  assumes "8 \<le> length key"
  obtains v w where "cyclic v" "cyclic w" "cw_prep_key key = turned_key v w (drop 8 key) 0"
proof -
  obtain D i where D: "fold (\<lambda>round_counter. cw_prep_bits (key ! round_counter)) (rev [0..<7]) (replicate 8 0, 6) = (D, i)" by (metis surj_pair)
  have "length (fst (fold (\<lambda>j. cw_prep_bits (key ! j)) xs p)) = length (fst p)" for xs p
    by (induction xs arbitrary: p) simp_all
  from this [of "rev [0..<7]" "(replicate 8 0, 6)"] have l: "length D = 8" by (simp only: D) simp
  let ?D1 = "D[4 := D ! 6, 6 := D ! 4]"
  let ?D = "?D1[7 := ?D1 ! 3 * 16]"
  have "8 \<le> length ?D" using l by simp
  then obtain v w r where vw: "?D = be32 v @ be32 w @ r" by (rule length8_be32)
  then have "length (be32 v @ be32 w @ r) = 8" using l by (metis length_list_update)
  then have "r = []" by simp
  then have "?D @ drop 8 key = be32 v @ be32 w @ drop 8 key" using vw by simp
  then have "cw_prep_key key = turned_key ((reg_right ^^ 4) v) ((reg_right ^^ 4) w) (drop 8 key) 0"
    by (simp only: cw_prep_key_def D prod.case Let_def rs_des_key turned_key_def funpow_0)
  then show thesis using that cyclic_right4 by blast
qed

subsection \<open>The rounds are a Feistel network\<close>

definition cw_f :: "u8 list \<Rightarrow> u8 list \<Rightarrow> u8 list" where
  "cw_f k r = (let td = cw_des_td k (replicate 4 0 @ r) in
     [cw_mix cw_AND_bit1 cw_sbox1 td, cw_mix cw_AND_bit2 cw_sbox2 td, cw_mix cw_AND_bit3 cw_sbox3 td, cw_mix cw_AND_bit4 cw_sbox4 td])"

lemma expand_right:
  assumes "length l = 4" "length l' = 4"
  shows "cw_expand (l @ r) = cw_expand (l' @ r)"
proof -
  have four: "\<forall>i < 4. 4 \<le> cw_l ! (8 + i) \<and> 4 \<le> cw_l ! (12 + i) \<and> 4 \<le> cw_l ! (16 + i) \<and> 4 \<le> cw_l ! (20 + i)"
    by (simp add: cw_l_def numeral_eq_Suc less_Suc_eq)
  have right: "4 \<le> j \<Longrightarrow> (l @ r) ! j = (l' @ r) ! j" for j using assms by (simp add: nth_append)
  have "(l @ r) ! (cw_l ! (8 + i)) = (l' @ r) ! (cw_l ! (8 + i))" "(l @ r) ! (cw_l ! (12 + i)) = (l' @ r) ! (cw_l ! (12 + i))"
      "(l @ r) ! (cw_l ! (16 + i)) = (l' @ r) ! (cw_l ! (16 + i))" "(l @ r) ! (cw_l ! (20 + i)) = (l' @ r) ! (cw_l ! (20 + i))" if "i < 4" for i
    using four that by (auto intro!: right)
  note n = this
  show ?thesis unfolding cw_expand_def
    by (rule fold_cong [OF fold_cong]) (simp_all add: n)
qed

lemma round_parts:
  assumes "length l = 4" "length r = 4"
  shows "cw_des_round k (l @ r) = r @ xor_bytes l (cw_f k r)"
proof -
  have "cw_expand (l @ r) = cw_expand (replicate 4 0 @ r)" using assms by (intro expand_right) simp_all
  then have td: "cw_des_td k (l @ r) = cw_des_td k (replicate 4 0 @ r)" by (simp only: cw_des_td_def)
  obtain a b c d where l: "l = [a, b, c, d]" using assms(1) by (auto simp: length_4)
  show ?thesis
    unfolding cw_des_round_def td Let_def cw_f_def
    by (simp add: l cw_swap_data_def xor_bytes_def assms(2) numeral_2_eq_2 numeral_3_eq_3)
qed

lemma halves:
  assumes "length d = 8"
  obtains l r where "d = l @ r" "length l = 4" "length r = 4"
  using that [of "take 4 d" "drop 4 d"] assms by simp

lemma swap_parts: "length l = 4 \<Longrightarrow> length r = 4 \<Longrightarrow> cw_swap_data (l @ r) = r @ l"
  by (simp add: cw_swap_data_def)

lemma length_cw_f [simp]: "length (cw_f k r) = 4"
  by (simp add: cw_f_def Let_def)

lemma length_swap [simp]: "length (cw_swap_data d) = length d"
  by (simp add: cw_swap_data_def)

lemma length_round [simp]: "length d = 8 \<Longrightarrow> length (cw_des_round k d) = 8"
  by (rule halves [of d]) (simp_all add: round_parts)

lemma length_rounds [simp]: "length d = 8 \<Longrightarrow> length (fold cw_des_round ks d) = 8"
  by (induction ks arbitrary: d) simp_all

lemma swap_twice: "length d = 8 \<Longrightarrow> cw_swap_data (cw_swap_data d) = d"
  by (rule halves [of d]) (simp_all add: swap_parts)

lemma cw_round_undone: "length d = 8 \<Longrightarrow> cw_des_round k (cw_swap_data (cw_des_round k d)) = cw_swap_data d"
  by (rule halves [of d]) (simp_all add: round_parts swap_parts xor_bytes_twice)

lemma cw_rounds_undone: "length d = 8 \<Longrightarrow> fold cw_des_round (rev ks) (cw_swap_data (fold cw_des_round ks d)) = cw_swap_data d"
proof (induction ks arbitrary: d)
  case (Cons k ks)
  then have "fold cw_des_round (rev ks) (cw_swap_data (fold cw_des_round ks (cw_des_round k d))) = cw_swap_data (cw_des_round k d)"
    by (intro Cons.IH) simp
  then show ?case using Cons.prems by (simp add: cw_round_undone)
qed simp

subsection \<open>Both directions of the cipher\<close>

definition cw_shifts :: "nat list" where
  "cw_shifts = [1, 2, 4, 6, 8, 10, 12, 14, 15, 17, 19, 21, 23, 25, 27, 28]"

lemma des_loop_left: "cw_des_loop n 1 (turned_key v w r m) d
    = fold cw_des_round (map (turned_key v w r) (rev (map (\<lambda>i. m + sum_list (map ((!) cw_left_turns) [i..<n])) [0..<n]))) d"
proof (induction n arbitrary: m d)
  case (Suc n)
  let ?m = "cw_left_turns ! n + m"
  have "map (\<lambda>i. m + sum_list (map ((!) cw_left_turns) [i..<Suc n])) [0..<n] = map (\<lambda>i. ?m + sum_list (map ((!) cw_left_turns) [i..<n])) [0..<n]"
    by (rule map_cong) simp_all
  then have "map (\<lambda>i. m + sum_list (map ((!) cw_left_turns) [i..<Suc n])) [0..<Suc n]
      = map (\<lambda>i. ?m + sum_list (map ((!) cw_left_turns) [i..<n])) [0..<n] @ [?m]"
    by (subst upt_Suc_append, simp) (simp only: map_append, simp)
  then show ?case
    by (simp only: cw_des_loop.simps Let_def if_True if_False ls_turned rev_append rev.simps append_Nil append_Cons list.map fold_simps)
      (simp add: Suc.IH)
qed simp

lemma des_encrypt: "cw_des_loop 16 1 (turned_key v w r 0) d = fold cw_des_round (map (turned_key v w r) cw_shifts) d"
proof -
  have "rev (map (\<lambda>i. 0 + sum_list (map ((!) cw_left_turns) [i..<16])) [0..<16]) = cw_shifts"
    by (simp add: cw_left_turns_def cw_shifts_def upt_rec)
  then show ?thesis by (simp only: des_loop_left)
qed

lemma des_loop_right:
  assumes "cyclic v" "cyclic w"
  shows "sum_list (map ((!) cw_right_turns) [0..<n]) \<le> m \<Longrightarrow> cw_des_loop n 0 (turned_key v w r m) d
    = fold cw_des_round (map (turned_key v w r) (rev (map (\<lambda>i. m - sum_list (map ((!) cw_right_turns) [Suc i..<n])) [0..<n]))) d"
proof (induction n arbitrary: m d)
  case (Suc n)
  let ?m = "m - cw_right_turns ! n"
  from Suc.prems have le: "cw_right_turns ! n \<le> m" "sum_list (map ((!) cw_right_turns) [0..<n]) \<le> ?m" by simp_all
  have "map (\<lambda>i. m - sum_list (map ((!) cw_right_turns) [Suc i..<Suc n])) [0..<n] = map (\<lambda>i. ?m - sum_list (map ((!) cw_right_turns) [Suc i..<n])) [0..<n]"
    by (rule map_cong) simp_all
  then have "map (\<lambda>i. m - sum_list (map ((!) cw_right_turns) [Suc i..<Suc n])) [0..<Suc n]
      = map (\<lambda>i. ?m - sum_list (map ((!) cw_right_turns) [Suc i..<n])) [0..<n] @ [m]"
    by (subst upt_Suc_append, simp) (simp only: map_append, simp)
  then show ?case
    by (simp only: cw_des_loop.simps Let_def if_True if_False rev_append rev.simps append_Nil append_Cons list.map fold_simps)
      (simp add: rs_turned [OF assms le(1)] Suc.IH [OF le(2)])
qed simp

lemma des_decrypt:
  assumes "cyclic v" "cyclic w"
  shows "cw_des_loop 16 0 (turned_key v w r 0) d = fold cw_des_round (map (turned_key v w r) (rev cw_shifts)) d"
proof -
  have s: "rev (map (\<lambda>i. 28 - sum_list (map ((!) cw_right_turns) [Suc i..<16])) [0..<16]) = rev cw_shifts"
    "sum_list (map ((!) cw_right_turns) [0..<16]) \<le> 28"
    by (simp_all add: cw_right_turns_def cw_shifts_def upt_rec)
  then show ?thesis
    using des_loop_right [OF assms s(2), of r d] by (simp only: turned_28 [OF assms] s(1))
qed

lemma cw_des_undone: "17 \<le> length inkey \<Longrightarrow> length d = 8 \<Longrightarrow> cw_des inkey 0 (cw_swap_data (cw_des inkey 1 d)) = cw_swap_data d"
proof -
  assume k: "17 \<le> length inkey" and d: "length d = 8"
  have "8 \<le> length (take 8 (drop 9 inkey))" using k by simp
  then obtain v w where vw: "cyclic v" "cyclic w" "cw_prep_key (take 8 (drop 9 inkey)) = turned_key v w (drop 8 (take 8 (drop 9 inkey))) 0"
    by (rule prep_key_cyclic)
  show ?thesis
    unfolding cw_des_def vw(3) des_encrypt des_decrypt [OF vw(1,2)] rev_map [symmetric] cw_rounds_undone [OF d] ..
qed

lemma length_des_loop: "length d = 8 \<Longrightarrow> length (cw_des_loop n m key d) = 8"
  by (induction n arbitrary: key d) (simp_all add: Let_def)

lemma length_cw_des [simp]: "length d = 8 \<Longrightarrow> length (cw_des k m d) = 8"
  by (simp add: cw_des_def length_des_loop)

lemma l2_r2_rounds:
  assumes "22 \<le> length k"
  obtains ks where "\<And>d. cw_l2_des k a d = fold cw_des_round ks d" "\<And>d. cw_r2_des k a d = cw_swap_data (fold cw_des_round (rev ks) d)"
proof -
  have "length (fold (\<lambda>i out. if i > 1 then out[i - 2 := k ! i] else out) xs ys) = length ys" for xs ys
    by (induction xs arbitrary: ys) simp_all
  then have "8 \<le> length (cw_48_key k k a)" using assms by (simp add: cw_48_key_def Let_def)
  then obtain v w where vw: "cyclic v" "cyclic w" "cw_prep_key (cw_48_key k k a) = turned_key v w (drop 8 (cw_48_key k k a)) 0"
    by (rule prep_key_cyclic)
  let ?t = "turned_key v w (drop 8 (cw_48_key k k a))"
  have one: "cw_left_turns ! 15 = 1" "cw_right_turns ! 1 = 1" by (simp_all add: cw_left_turns_def cw_right_turns_def)
  have ls: "cw_ls_des_key (?t n) 15 = ?t (n + 1)" for n by (simp only: ls_turned one add.commute)
  have rs: "cw_rs_des_subkey (?t 2) 1 = ?t 1" using rs_turned [OF vw(1,2), of 1 2] one by simp
  have "cw_l2_des k a d = fold cw_des_round [?t 1, ?t 2] d" for d
    unfolding cw_l2_des_def vw(3) Let_def ls by (simp add: numeral_2_eq_2)
  moreover have "cw_r2_des k a d = cw_swap_data (fold cw_des_round (rev [?t 1, ?t 2]) d)" for d
    unfolding cw_r2_des_def vw(3) Let_def ls using rs by (simp add: numeral_2_eq_2)
  ultimately show thesis by (rule that)
qed

lemma length_l2 [simp]: "22 \<le> length k \<Longrightarrow> length d = 8 \<Longrightarrow> length (cw_l2_des k a d) = 8"
  by (rule l2_r2_rounds [of k a]) simp_all

lemma length_r2 [simp]: "22 \<le> length k \<Longrightarrow> length d = 8 \<Longrightarrow> length (cw_r2_des k a d) = 8"
  by (rule l2_r2_rounds [of k a]) simp_all

lemma dec_enc_undone:
  assumes "22 \<le> length k" "length d = 8"
  shows "fst (cw_dec_enc (fst (cw_dec_enc d k a 1)) k a 0) = d"
proof -
  obtain ks where l2: "\<And>d. cw_l2_des k a d = fold cw_des_round ks d" and r2: "\<And>d. cw_r2_des k a d = cw_swap_data (fold cw_des_round (rev ks) d)"
    using l2_r2_rounds [OF assms(1)] by metis
  have mid: "cw_l2_des k a (cw_r2_des k a y) = cw_swap_data y" if "length y = 8" for y
    using cw_rounds_undone [of y "rev ks"] that by (simp add: l2 r2)
  let ?x = "cw_l2_des k a d"
  have x: "length ?x = 8" using assms by simp
  have "fst (cw_dec_enc (fst (cw_dec_enc d k a 1)) k a 0)
    = cw_r2_des k a (cw_des k 0 (cw_l2_des k a (cw_r2_des k a (cw_des k 1 ?x))))"
    by (simp add: cw_dec_enc_def)
  also have "\<dots> = cw_r2_des k a (cw_des k 0 (cw_swap_data (cw_des k 1 ?x)))" using x by (simp add: mid)
  also have "\<dots> = cw_r2_des k a (cw_swap_data ?x)" using cw_des_undone [of k ?x] x assms(1) by simp
  also have "\<dots> = cw_swap_data (cw_swap_data d)" using cw_rounds_undone [OF assms(2), of ks] by (simp only: l2 r2)
  also have "\<dots> = d" using assms(2) by (rule swap_twice)
  finally show ?thesis .
qed

subsection \<open>Sections stay inside their buffers\<close>

lemma cw_walk_total:
  assumes "\<And>i s. P s \<Longrightarrow> i + 1 < n \<Longrightarrow> \<exists>x. step i s = Some x \<and> (\<forall>s'. x = Inr s' \<longrightarrow> P s')" and "\<And>s. P s \<Longrightarrow> n \<le> length (view s)" and "P s"
  shows "\<exists>x. cw_walk view step i n s = Some x \<and>
    (case x of Inl r \<Rightarrow> \<exists>j s'. P s' \<and> j + 1 < n \<and> i \<le> j \<and> step j s' = Some (Inl r) | Inr s' \<Rightarrow> P s')"
  using assms(3)
proof (induction "n - i" arbitrary: i s rule: less_induct)
  case less
  show ?case
  proof (cases "n \<le> i + 1")
    case False
    then obtain x where x: "step i s = Some x" "\<And>s'. x = Inr s' \<Longrightarrow> P s'" using assms(1) [OF less.prems, of i] by auto
    show ?thesis
    proof (cases x)
      case (Inl r)
      with x(1) less.prems False show ?thesis by (subst cw_walk.simps) (auto intro!: exI [of _ i] exI [of _ s])
    next
      case (Inr s')
      let ?i = "i + unat (view s' ! (i + 1)) + 2"
      have P: "P s'" by (rule x(2) [OF Inr])
      then have r: "rd (view s') (i + 1) = Some (view s' ! (i + 1))" using assms(2) [OF P] False by simp
      have "n - ?i < n - i" using False by linarith
      from less.hyps [OF this P] obtain y where y: "cw_walk view step ?i n s' = Some y"
        "case y of Inl r \<Rightarrow> \<exists>j s'. P s' \<and> j + 1 < n \<and> ?i \<le> j \<and> step j s' = Some (Inl r) | Inr s' \<Rightarrow> P s'" by blast
      have "cw_walk view step i n s = Some y" using False x(1) Inr r y(1) by (subst cw_walk.simps) simp
      moreover have "case y of Inl r \<Rightarrow> \<exists>j s'. P s' \<and> j + 1 < n \<and> i \<le> j \<and> step j s' = Some (Inl r) | Inr s' \<Rightarrow> P s'"
      proof (cases y)
        case (Inl r)
        with y(2) obtain j t where "P t" "j + 1 < n" "?i \<le> j" "step j t = Some (Inl r)" by auto
        moreover from this(3) have "i \<le> j" by linarith
        ultimately show ?thesis unfolding Inl sum.case by blast
      qed (use y(2) in simp)
      ultimately show ?thesis by blast
    qed
  qed (use less.prems in \<open>simp add: cw_walk.simps\<close>)
qed

lemma cw_key_length: "cw_get_key today ident i n st = Some k \<Longrightarrow> length k = n"
proof -
  assume k: "cw_get_key today ident i n st = Some k"
  have "length (copy_out n x) \<le> n" for x by (simp add: copy_out_def split: option.split)
  then have "length (cccam_emu_find_key today ty p nm j n st) \<le> n" for ty p nm j by (simp add: cccam_emu_find_key_def Let_def)
  with k show ?thesis by (auto simp: cw_get_key_def Let_def split: if_splits intro: le_antisym)
qed

lemma length_dec_enc: "22 \<le> length k \<Longrightarrow> length d = 8 \<Longrightarrow> length (fst (cw_dec_enc d k a m)) = 8 \<and> length (snd (cw_dec_enc d k a m)) = length k"
  by (simp add: cw_dec_enc_def cw_swap_key_def)

lemma length_decrypt_des: 
  assumes "22 \<le> length key" "length d = 8"
  shows "length (cw_decrypt_des algo key d) = 8"
proof -
  have folded: "length (fst (fold (\<lambda>i (data, k). case cw_dec_enc data k a (i AND 1) of (data, k) \<Rightarrow> (data, cw_swap_key k)) xs (d, key))) = 8" for xs a
    using assms
  proof (induction xs arbitrary: d key)
    case (Cons x xs)
    obtain d' k' where e: "cw_dec_enc d key a (x AND 1) = (d', k')" by (metis surj_pair)
    then have l: "length d' = 8" "length k' = length key" using length_dec_enc [OF Cons.prems, of a "x AND 1"] by simp_all
    then have "22 \<le> length (cw_swap_key k')" using Cons.prems(1) by (simp add: cw_swap_key_def)
    from Cons.IH [OF this l(1)] show ?case by (simp add: e)
  qed simp
  show ?thesis
  proof (cases "algo AND 7 < 7")
    case True
    then show ?thesis using assms length_dec_enc by (simp add: cw_decrypt_des_def)
  next
    case False
    show ?thesis unfolding cw_decrypt_des_def Let_def if_not_P [OF False] by (rule folded)
  qed
qed

lemma length_decrypt_blocks:
  assumes "22 \<le> length key" "8 * n \<le> length b"
  shows "length (concat (map (\<lambda>j. cw_decrypt_des algo key (take 8 (drop (8 * j) b))) [0..<n])) = 8 * n"
  using assms(2)
proof (induction n)
  case (Suc n)
  then have "length (take 8 (drop (8 * n) b)) = 8" "8 * n \<le> length b" by simp_all
  with Suc.IH length_decrypt_des [OF assms(1) this(1)] show ?case by simp
qed simp

lemma open_step_total:
  assumes "22 \<le> length key" "n \<le> length ecm" "8 \<le> n" "i + 1 < n"
  shows "\<exists>x. cw_open_step key sig n i ecm = Some x \<and> (\<forall>e. x = Inr e \<longrightarrow> length e = length ecm)"
proof -
  let ?len = "unat (ecm ! (i + 1))"
  have r: "rd ecm i = Some (ecm ! i)" "rd ecm (i + 1) = Some (ecm ! (i + 1))" "rd ecm 5 = Some (ecm ! 5)" using assms by auto
  have "8 * (?len div 8) \<le> ?len" by simp
  then have b: "i + 2 + 8 * (?len div 8) \<le> length ecm" if "\<not> n < i + 2 + ?len" using that assms(2) by linarith
  have l: "length (concat (map (\<lambda>j. cw_decrypt_des algo key (take 8 (drop (8 * j) (take (8 * (?len div 8)) (drop (i + 2) ecm))))) [0..<?len div 8]))
      = 8 * (?len div 8)" if "\<not> n < i + 2 + ?len" for algo
    using b [OF that] by (intro length_decrypt_blocks assms(1)) simp
  have "\<exists>e. at_sub (i + 2) (8 * (?len div 8)) (\<lambda>b. concat (map (\<lambda>j. cw_decrypt_des (ecm ! 5) key (take 8 (drop (8 * j) b))) [0..<?len div 8])) ecm = Some e
      \<and> length e = length ecm" if "\<not> n < i + 2 + ?len"
    using b [OF that] l [OF that] by (simp add: at_sub_def)
  then show ?thesis using r assms(2) unfolding cw_open_step_def by auto
qed

lemma find_step_total:
  assumes "n \<le> length ecm" "i + 1 < n"
  shows "\<exists>x. cw_find_step n i ecm = Some x \<and> (\<forall>e. x = Inr e \<longrightarrow> e = ecm) \<and> (\<forall>cw. x = Inl cw \<longrightarrow> length cw = 16)"
  using assms by (auto simp: cw_find_step_def)

lemma open_section_total:
  assumes "length key = 22" "n \<le> length ecm"
  shows "\<exists>rc w. cw_open_section key n ecm = Some (rc, w) \<and> (case w of None \<Rightarrow> rc \<noteq> EMU_OK | Some cw \<Rightarrow> rc = EMU_OK \<and> length cw = 16)"
proof (cases "n < 16")
  case False
  let ?sig = "cw_signature (take (n - 15) (drop 5 ecm)) key"
  have signed: "rd_sub ecm 5 (n - 15) = Some (take (n - 15) (drop 5 ecm))" using assms False by (intro rd_sub_Some) linarith
  obtain opened where opened: "cw_walk id (cw_open_step key ?sig n) 8 n ecm = Some opened" "\<And>e. opened = Inr e \<Longrightarrow> length e = length ecm"
  proof -
    have "\<exists>x. cw_walk id (cw_open_step key ?sig n) 8 n ecm = Some x \<and> (case x of Inl r \<Rightarrow> \<exists>j s'. length s' = length ecm \<and> j + 1 < n \<and> 8 \<le> j \<and> cw_open_step key ?sig n j s' = Some (Inl r)
        | Inr s' \<Rightarrow> length s' = length ecm)"
    proof (rule cw_walk_total [where P = "\<lambda>e. length e = length ecm"])
      fix i and e :: "u8 list" assume "length e = length ecm" "i + 1 < n"
      then show "\<exists>x. cw_open_step key ?sig n i e = Some x \<and> (\<forall>s'. x = Inr s' \<longrightarrow> length s' = length ecm)"
        using open_step_total [of key n e i ?sig] assms False by auto
    qed (use assms in simp_all)
    then obtain x where x: "cw_walk id (cw_open_step key ?sig n) 8 n ecm = Some x"
      "case x of Inl r \<Rightarrow> \<exists>j s'. length s' = length ecm \<and> j + 1 < n \<and> 8 \<le> j \<and> cw_open_step key ?sig n j s' = Some (Inl r)
        | Inr s' \<Rightarrow> length s' = length ecm" by blast
    show thesis by (rule that [of x]) (use x in \<open>auto split: sum.splits\<close>)
  qed
  show ?thesis
  proof (cases opened)
    case (Inl u)
    then show ?thesis using False signed opened(1) by (simp add: cw_open_section_def EMU_CHECKSUM_ERROR_def EMU_OK_def)
  next
    case (Inr e)
    then have e: "n \<le> length e" using opened(2) assms(2) by simp
    have "\<exists>x. cw_walk id (cw_find_step n) 8 n e = Some x \<and> (case x of Inl r \<Rightarrow> \<exists>j s'. s' = e \<and> j + 1 < n \<and> 8 \<le> j \<and> cw_find_step n j s' = Some (Inl r) | Inr s' \<Rightarrow> s' = e)"
    proof (rule cw_walk_total [where P = "\<lambda>s. s = e"])
      fix i s assume "s = e" "i + 1 < n"
      then show "\<exists>x. cw_find_step n i s = Some x \<and> (\<forall>s'. x = Inr s' \<longrightarrow> s' = e)" using find_step_total [OF e, of i] by auto
    qed (use e in simp_all)
    then obtain x where x: "cw_walk id (cw_find_step n) 8 n e = Some x" "\<And>cw. x = Inl cw \<Longrightarrow> length cw = 16"
      using find_step_total [OF e] by (fastforce split: sum.splits)
    then show ?thesis
      using False signed opened(1) Inr by (cases x) (simp_all add: cw_open_section_def EMU_NOT_SUPPORTED_def EMU_OK_def)
  qed
qed (simp add: cw_open_section_def EMU_NOT_SUPPORTED_def EMU_OK_def)

definition cw_complete :: "u8 list \<Rightarrow> bool" where
  "cw_complete ecm \<longleftrightarrow> 3 \<le> length ecm \<and> cw_sct_len (ecm ! 1) (ecm ! 2) \<le> length ecm"

lemma sct_len_inner: "cw_sct_len 0x70 n = unat n"
proof -
  have "(push_bit 8 (ucast ((0x70 :: u8) AND 0x0F)) OR ucast n :: u16) = ucast n" by simp
  moreover have "unat n < 2 ^ 16" by (rule less_le_trans [OF unsigned_less]) simp
  then have "unat (ucast n :: u16) = unat n" by (simp add: unsigned_ucast_eq take_bit_nat_eq_self)
  ultimately show ?thesis by (simp only: cw_sct_len_def)
qed

lemma nano_step_total:
  assumes "n \<le> length ecm" and "i + 1 < n"
  shows "\<exists>x. cw_nano_step today st caid provider key algo n i ecm = Some x \<and> (\<forall>e. x = Inr e \<longrightarrow> e = ecm)
    \<and> (\<forall>inner. x = Inl (Some inner) \<longrightarrow> cw_complete inner)"
proof -
  let ?len = "unat (ecm ! (i + 1))"
  have r: "rd ecm i = Some (ecm ! i)" "rd ecm (i + 1) = Some (ecm ! (i + 1))" using assms by auto
  show ?thesis
  proof (cases "ecm ! i = 0x80 \<and> i + 2 + 7 < n \<and> i + 2 + ?len \<le> n \<and> provider \<in> {0xA0, 0xC0, 0xC4, 0xC8}")
    case True
    then have "i + 2 + ?len \<le> n" by blast
    with assms(1) have "?len \<le> length (drop (i + 2) ecm)" by simp
    then obtain r d where d: "cw_process_nano80 today st (drop (i + 2) ecm) caid provider key ?len algo = Some (r, d)"
        "length d = length (drop (i + 2) ecm)" "r \<noteq> 0 \<Longrightarrow> 11 \<le> ?len" using nano80_total by metis
    show ?thesis
    proof (cases "r = 0 \<or> int (unat r) > int n - int (i + 2 + 3)")
      case ok: False
      then have "r \<noteq> 0" "\<not> int (unat r) > int n - int (i + 2 + 3)" by blast+
      then have "11 \<le> ?len" "unat r + (i + 5) \<le> n" using d(3) by (blast, linarith)
      moreover from True have "i + 2 + ?len \<le> n" by blast
      ultimately have l: "8 \<le> length d" "unat r + 3 \<le> length d" using d(2) assms(1) by simp_all
      let ?inner = "[0x81, 0x70, r, 0x81, 0xFF] @ drop 8 d"
      have w: "at_sub 3 5 (\<lambda>_. [0x81, 0x70, r, 0x81, 0xFF]) d = Some (take 3 d @ ?inner)" and "length (take 3 d) = 3"
        using l(1) by (simp_all only: at_sub_def) simp_all
      then have "drop 3 (take 3 d @ ?inner) = ?inner" by simp
      then have "cw_nano_step today st caid provider key algo n i ecm = Some (Inl (Some ?inner))"
        by (simp only: cw_nano_step_def r bind.simps if_P [OF True] d(1) prod.case if_not_P [OF ok] w)
      moreover have "cw_complete ?inner" using l by (simp add: cw_complete_def sct_len_inner)
      ultimately show ?thesis by simp
    next
      case bad: True
      have "cw_nano_step today st caid provider key algo n i ecm = Some (Inl None)"
        by (simp only: cw_nano_step_def r bind.simps if_P [OF True] d(1) prod.case if_P [OF bad])
      then show ?thesis by simp
    qed
  next
    case False
    have "cw_nano_step today st caid provider key algo n i ecm = Some (Inr ecm)"
      by (simp only: cw_nano_step_def r bind.simps if_not_P [OF False])
    then show ?thesis by simp
  qed
qed

lemma keyed_section_total:
  assumes "n \<le> length ecm"
  shows "\<exists>x. cw_keyed_section today st caid provider keyIndex algo n ecm = Some x \<and>
    (case x of Inl (rc, w) \<Rightarrow> (case w of None \<Rightarrow> rc \<noteq> EMU_OK | Some cw \<Rightarrow> rc = EMU_OK \<and> length cw = 16) | Inr inner \<Rightarrow> cw_complete inner)"
proof (cases "\<exists>k16 k6. cw_get_key today (push_bit 8 caid OR of_int provider) keyIndex 16 st = Some k16 \<and> cw_get_key today (push_bit 8 caid OR of_int provider) 6 6 st = Some k6")
  case True
  then obtain k16 k6 where k: "cw_get_key today (push_bit 8 caid OR of_int provider) keyIndex 16 st = Some k16"
    "cw_get_key today (push_bit 8 caid OR of_int provider) 6 6 st = Some k6" by blast
  then have l: "length (k16 @ k6) = 22" by (simp add: cw_key_length)
  let ?step = "cw_nano_step today st caid provider (k16 @ k6) algo n"
  have "\<exists>x. cw_walk id ?step 8 n ecm = Some x \<and> (case x of Inl r \<Rightarrow> \<exists>j s'. s' = ecm \<and> j + 1 < n \<and> 8 \<le> j \<and> ?step j s' = Some (Inl r) | Inr s' \<Rightarrow> s' = ecm)"
  proof (rule cw_walk_total [where P = "\<lambda>s. s = ecm"])
    fix i s assume "s = ecm" "i + 1 < n"
    then show "\<exists>x. ?step i s = Some x \<and> (\<forall>s'. x = Inr s' \<longrightarrow> s' = ecm)" using nano_step_total [OF assms, of i] by metis
  qed (use assms in simp_all)
  then obtain x where x: "cw_walk id ?step 8 n ecm = Some x"
    "case x of Inl r \<Rightarrow> \<exists>j s'. s' = ecm \<and> j + 1 < n \<and> 8 \<le> j \<and> ?step j s' = Some (Inl r) | Inr s' \<Rightarrow> s' = ecm" by blast
  show ?thesis
  proof (cases x)
    case (Inl res)
    with x(2) obtain j where j: "j + 1 < n" "?step j ecm = Some (Inl res)" by auto
    have "cw_complete inner" if "res = Some inner" for inner using nano_step_total [OF assms j(1), of today st caid provider "k16 @ k6" algo] j(2) that by auto
    then show ?thesis using x(1) Inl k by (cases res) (simp_all add: cw_keyed_section_def EMU_NOT_SUPPORTED_def EMU_OK_def)
  next
    case (Inr e)
    with x have w: "cw_walk id ?step 8 n ecm = Some (Inr ecm)" by simp
    obtain rc w' where "cw_open_section (k16 @ k6) n ecm = Some (rc, w')" "case w' of None \<Rightarrow> rc \<noteq> EMU_OK | Some cw \<Rightarrow> rc = EMU_OK \<and> length cw = 16"
      using open_section_total [OF l assms] by blast
    then show ?thesis using w k by (simp add: cw_keyed_section_def)
  qed
next
  case False
  then have "cw_keyed_section today st caid provider keyIndex algo n ecm = Some (Inl (EMU_KEY_NOT_FOUND, None))"
    by (simp add: cw_keyed_section_def Let_def split: option.split) auto
  then show ?thesis by (simp add: EMU_KEY_NOT_FOUND_def EMU_OK_def)
qed

lemma scan_total:
  assumes "n \<le> length ecm"
  shows "\<exists>p k a. cw_walk (\<lambda>_. ecm) (cw_scan_step ecm n) 8 n s = Some (Inr (p, k, a))"
proof -
  have step: "\<exists>s'. cw_scan_step ecm n i s = Some (Inr s')" if "i + 1 < n" for i s
    using that assms by (cases s) (auto simp: cw_scan_step_def)
  have "\<exists>x. cw_walk (\<lambda>_. ecm) (cw_scan_step ecm n) 8 n s = Some x \<and>
    (case x of Inl r \<Rightarrow> \<exists>j s'. True \<and> j + 1 < n \<and> 8 \<le> j \<and> cw_scan_step ecm n j s' = Some (Inl r) | Inr s' \<Rightarrow> True)"
  proof (rule cw_walk_total [where P = "\<lambda>_. True"])
    fix i s assume "i + 1 < n"
    then show "\<exists>x. cw_scan_step ecm n i s = Some x \<and> (\<forall>s'. x = Inr s' \<longrightarrow> True)" using step [of i s] by auto
  qed (use assms in simp_all)
  then obtain x where x: "cw_walk (\<lambda>_. ecm) (cw_scan_step ecm n) 8 n s = Some x"
    "case x of Inl r \<Rightarrow> \<exists>j s'. True \<and> j + 1 < n \<and> 8 \<le> j \<and> cw_scan_step ecm n j s' = Some (Inl r) | Inr s' \<Rightarrow> True" by blast
  show ?thesis
  proof (cases x)
    case (Inl r)
    with x(2) obtain j s' where "j + 1 < n" "cw_scan_step ecm n j s' = Some (Inl r)" by auto
    with step [of j s'] show ?thesis by auto
  next
    case (Inr s')
    with x(1) show ?thesis by (cases s') auto
  qed
qed

lemma section_total:
  assumes "cw_complete ecm"
  shows "\<exists>x. cw_section today st caid ecm = Some x \<and>
    (case x of Inl (rc, w) \<Rightarrow> (case w of None \<Rightarrow> rc \<noteq> EMU_OK | Some cw \<Rightarrow> rc = EMU_OK \<and> length cw = 16) | Inr inner \<Rightarrow> cw_complete inner)"
proof -
  let ?n = "cw_sct_len (ecm ! 1) (ecm ! 2)"
  have n: "?n \<le> length ecm" and r: "rd ecm 1 = Some (ecm ! 1)" "rd ecm 2 = Some (ecm ! 2)" using assms by (auto simp: cw_complete_def)
  obtain p k a where scan: "cw_walk (\<lambda>_. ecm) (cw_scan_step ecm ?n) 8 ?n (-1, 0, 1) = Some (Inr (p, k, a))" using scan_total [OF n] by blast
  have refused: ?thesis if "cw_section today st caid ecm = Some (Inl (EMU_NOT_SUPPORTED, None))"
    using that by (simp add: EMU_NOT_SUPPORTED_def EMU_OK_def)
  note sec = cw_section_def r bind.simps Let_def
  show ?thesis
  proof (cases "?n < 8")
    case True
    then show ?thesis by (intro refused) (simp only: sec if_True)
  next
    case False
    then have r7: "rd ecm 7 = Some (ecm ! 7)" using n by simp
    show ?thesis
    proof (cases "unat (ecm ! 7) = ?n - 8")
      case True
      have s: "cw_section today st caid ecm = (case (if p < 0 then cw_default_provider caid else Some p) of
          None \<Rightarrow> Some (Inl (EMU_NOT_SUPPORTED, None)) | Some q \<Rightarrow> cw_keyed_section today st caid q k a ?n ecm)"
        by (simp only: sec if_not_P [OF False] r7 True scan) simp
      show ?thesis
      proof (cases "if p < 0 then cw_default_provider caid else Some p")
        case None
        show ?thesis by (intro refused) (simp only: s None option.case)
      next
        case (Some q)
        have "cw_section today st caid ecm = cw_keyed_section today st caid q k a ?n ecm" by (simp only: s Some option.case)
        then show ?thesis using keyed_section_total [OF n, of today st caid q k a] by (simp only:)
      qed
    next
      case bad: False
      show ?thesis by (intro refused) (simp only: sec if_not_P [OF False] r7 bad, simp)
    qed
  qed
qed

lemma sections_total:
  "cw_complete ecm \<Longrightarrow> \<exists>rc w. cw_sections today st caid ecm = Some (rc, w) \<and> (case w of None \<Rightarrow> rc \<noteq> EMU_OK | Some cw \<Rightarrow> rc = EMU_OK \<and> length cw = 16)"
proof (induction today st caid ecm rule: cw_sections.induct)
  case (1 today st caid ecm)
  obtain x where x: "cw_section today st caid ecm = Some x"
    "case x of Inl (rc, w) \<Rightarrow> (case w of None \<Rightarrow> rc \<noteq> EMU_OK | Some cw \<Rightarrow> rc = EMU_OK \<and> length cw = 16) | Inr inner \<Rightarrow> cw_complete inner"
    using section_total [OF 1(2)] by blast
  show ?case
  proof (cases x)
    case (Inl res)
    then show ?thesis using x by (cases res) (simp add: cw_sections.simps [of _ _ _ ecm])
  next
    case (Inr inner)
    then show ?thesis using x 1(1) [OF x(1) Inr] by (simp add: cw_sections.simps [of _ _ _ ecm])
  qed
qed

subsection \<open>What a head end sends\<close>

text \<open>
  A section with an element 0x83 (provider and key), the two words enciphered, and the signature of what is in front
  of it. The bytes \<open>a\<close>, \<open>b\<close>, \<open>c\<close>, \<open>d\<close> are not looked at; \<open>algo\<close> selects the outer rounds, and with the value 7 the triple
  cipher, for which the halves of the operator key take turns.
\<close>

definition cw_encrypt_des :: "u8 \<Rightarrow> u8 list \<Rightarrow> u8 list \<Rightarrow> u8 list" where
  "cw_encrypt_des algo key block =
     (if algo AND 7 < 7 then fst (cw_dec_enc block key (algo AND 7) 1)
      else fst (cw_dec_enc (fst (cw_dec_enc (fst (cw_dec_enc block key 7 1)) (cw_swap_key key) 7 0)) key 7 1))"

definition cw_head_end_words :: "u8 list \<Rightarrow> u8 \<Rightarrow> u8 list \<Rightarrow> u8 list" where
  "cw_head_end_words key algo cw = cw_encrypt_des algo key (take 8 cw) @ cw_encrypt_des algo key (drop 8 cw)"

definition cw_head_end_signed :: "u8 list \<Rightarrow> u8 \<Rightarrow> u8 \<Rightarrow> u8 \<Rightarrow> u8 list \<Rightarrow> u8 list" where
  "cw_head_end_signed key algo d prov cw = [algo, d, 31, 0x83, 1, prov, 0xDB, 16] @ cw_head_end_words key algo cw"

definition cw_head_end :: "u8 list \<Rightarrow> u8 \<Rightarrow> u8 \<Rightarrow> u8 \<Rightarrow> u8 \<Rightarrow> u8 \<Rightarrow> u8 \<Rightarrow> u8 list \<Rightarrow> u8 list \<Rightarrow> u8 list" where
  "cw_head_end key a b c algo d prov cw signature =
     [a, 0x70, 39, b, c] @ cw_head_end_signed key algo d prov cw @ [0xDF, 8] @ signature"

text \<open>Encryption after decryption: a one-sided inverse on a finite set is a two-sided one.\<close>

lemma finite_left_inverse:
  assumes "finite S" and "\<And>x. x \<in> S \<Longrightarrow> f x \<in> S" and "\<And>x. x \<in> S \<Longrightarrow> g (f x) = x" and "y \<in> S"
  shows "f (g y) = y"
proof -
  have "f ` S = S"
    using assms(1-3) by (intro endo_inj_surj) (auto intro: inj_on_inverseI)
  with assms(4) obtain x where "x \<in> S" "y = f x" by blast
  then show ?thesis by (simp add: assms(3))
qed

lemma enc_dec_undone:
  assumes "22 \<le> length k" "length d = 8"
  shows "fst (cw_dec_enc (fst (cw_dec_enc d k a 0)) k a 1) = d"
proof (rule finite_left_inverse [where S = "{d. length d = 8}" and f = "\<lambda>d. fst (cw_dec_enc d k a 1)" and g = "\<lambda>d. fst (cw_dec_enc d k a 0)"])
  show "finite {d :: u8 list. length d = 8}" using finite_lists_length_eq [of "UNIV :: u8 set" 8] by simp
qed (use assms dec_enc_undone length_dec_enc in auto)

lemma length_encrypt_des [simp]: "22 \<le> length key \<Longrightarrow> length d = 8 \<Longrightarrow> length (cw_encrypt_des algo key d) = 8"
  by (simp add: cw_encrypt_des_def length_dec_enc cw_swap_key_def)

lemma encrypt_des_undone:
  assumes "22 \<le> length key" and "length d = 8"
  shows "cw_decrypt_des algo key (cw_encrypt_des algo key d) = d"
proof (cases "algo AND 7 < 7")
  case True
  with dec_enc_undone [OF assms] show ?thesis by (simp add: cw_decrypt_des_def cw_encrypt_des_def)
next
  case False
  have "algo AND 7 \<le> 7" by (rule word_and_le1)
  with False have a: "algo AND 7 = 7" by simp
  have "take 8 key @ take 8 (drop 8 key) @ drop 16 key = key"
    using append_take_drop_id [of 8 key] append_take_drop_id [of 8 "drop 8 key"] by simp
  then have s: "22 \<le> length (cw_swap_key key)" "cw_swap_key (cw_swap_key key) = key"
    using assms(1) by (simp_all add: cw_swap_key_def)
  have k: "snd (cw_dec_enc e k 7 0) = k" "snd (cw_dec_enc e k 7 1) = k" for e k by (simp_all add: cw_dec_enc_def)
  define e1 e2 where "e1 = fst (cw_dec_enc d key 7 1)" and "e2 = fst (cw_dec_enc e1 (cw_swap_key key) 7 0)"
  have l: "length e1 = 8" "length e2 = 8" using assms s by (simp_all add: e1_def e2_def length_dec_enc)
  have 1: "cw_dec_enc (fst (cw_dec_enc e2 key 7 1)) key 7 0 = (e2, key)"
    using dec_enc_undone [OF assms(1) l(2), of 7] k by (intro prod_eqI) simp_all
  have 2: "cw_dec_enc e2 (cw_swap_key key) 7 1 = (e1, cw_swap_key key)"
    using enc_dec_undone [OF s(1) l(1), of 7] k by (intro prod_eqI) (simp_all add: e2_def)
  have 3: "cw_dec_enc e1 key 7 0 = (d, key)"
    using dec_enc_undone [OF assms, of 7] k by (intro prod_eqI) (simp_all add: e1_def)
  have "cw_encrypt_des algo key d = fst (cw_dec_enc e2 key 7 1)" using False by (simp add: cw_encrypt_des_def e1_def e2_def)
  then show ?thesis by (simp add: cw_decrypt_des_def a 1 2 3 s(2))
qed

lemma head_end_opened:
  assumes key: "length key = 22" and cw: "length cw = 16" and sig: "length signature = 8"
  shows "cw_open_section key 39 (cw_head_end key a b c algo d prov cw signature) =
    Some (if signature = cw_signature (cw_head_end_signed key algo d prov cw) key then (EMU_OK, Some cw) else (EMU_CHECKSUM_ERROR, None))"
proof -
  define e1 e2 where "e1 = cw_encrypt_des algo key (take 8 cw)" and "e2 = cw_encrypt_des algo key (drop 8 cw)"
  have l: "length e1 = 8" "length e2 = 8" using key cw by (simp_all add: e1_def e2_def)
  have dec: "cw_decrypt_des algo key e1 = take 8 cw" "cw_decrypt_des algo key e2 = drop 8 cw"
    using encrypt_des_undone [of key] key cw by (simp_all add: e1_def e2_def)
  let ?front = "[a, 0x70, 39, b, c, algo, d, 31, 0x83, 1, prov, 0xDB, 16] :: u8 list"
  let ?sec = "\<lambda>ws. ?front @ ws @ [0xDF, 8] @ signature"
  have sec: "cw_head_end key a b c algo d prov cw signature = ?sec (e1 @ e2)"
    by (simp add: cw_head_end_def cw_head_end_signed_def cw_head_end_words_def e1_def e2_def)
  have signed: "rd_sub (?sec (e1 @ e2)) 5 24 = Some (cw_head_end_signed key algo d prov cw)"
    using l by (simp add: rd_sub_def cw_head_end_signed_def cw_head_end_words_def e1_def [symmetric] e2_def [symmetric] sig)
  have rds: "rd (?sec ws) 8 = Some 0x83" "rd (?sec ws) 9 = Some 1" "rd (?sec ws) 11 = Some 0xDB" "rd (?sec ws) 12 = Some 16" "rd (?sec ws) 5 = Some algo"
      "rd (?sec ws) 29 = Some 0xDF" "rd (?sec ws) 30 = Some 8" "rd_sub (?sec ws) 31 8 = Some signature" "rd_sub (?sec ws) 13 16 = Some ws"
    if "length ws = 16" for ws
    using that sig by (simp_all add: rd_def rd_sub_def nth_append)
  have at: "at_sub 13 16 f (?sec (e1 @ e2)) = Some (?sec (f (e1 @ e2)))" for f
    using at_sub_parts [of ?front 13 "e1 @ e2" 16 f] l by simp
  have two: "concat (map (\<lambda>j. cw_decrypt_des algo key (take 8 (drop (8 * j) (e1 @ e2)))) [0..<2]) = cw"
    using l dec by (simp add: upt_rec)
  have len: "length (e1 @ e2) = 16" using l by simp
  define A B where "A = ?sec (e1 @ e2)" and "B = ?sec cw"
  note A = rds [OF len, folded A_def] and B = rds [OF cw, folded B_def]
  let ?step = "cw_open_step key (cw_signature (cw_head_end_signed key algo d prov cw) key) 39"
  let ?good = "signature = cw_signature (cw_head_end_signed key algo d prov cw) key"
  have s1: "?step 8 A = Some (Inr A)" using A by (simp add: cw_open_step_def)
  have at_B: "at_sub 13 16 (\<lambda>b. concat (map (\<lambda>j. cw_decrypt_des algo key (take 8 (drop (8 * j) b))) [0..<2])) A = Some B"
    by (simp only: at [folded A_def] two B_def)
  have s2: "?step 11 A = Some (Inr B)" using A at_B by (simp add: cw_open_step_def)
  have s3: "?step 29 B = Some (if ?good then Inr B else Inl ())" using B by (simp add: cw_open_step_def)
  have open_walk: "cw_walk id ?step 8 39 A = Some (if ?good then Inr B else Inl ())"
    using s1 s2 s3 A B by (simp add: cw_walk.simps)
  have f: "cw_find_step 39 8 B = Some (Inr B)" "cw_find_step 39 11 B = Some (Inl cw)" using B by (simp_all add: cw_find_step_def)
  have find_walk: "cw_walk id (cw_find_step 39) 8 39 B = Some (Inl cw)" using f B by (simp add: cw_walk.simps)
  show ?thesis unfolding sec A_def [symmetric] cw_open_section_def using signed [folded A_def] open_walk find_walk by simp
qed

lemma head_end_section:
  assumes key: "length key = 22" and cw: "length cw = 16" and sig: "length signature = 8"
  shows "cw_section today st caid (cw_head_end key a b c algo d prov cw signature) =
    cw_keyed_section today st caid (uint (prov AND 0xFC)) (if prov AND 3 \<noteq> 0 then 1 else 0) 1 39 (cw_head_end key a b c algo d prov cw signature)"
proof -
  let ?sec = "cw_head_end key a b c algo d prov cw signature"
  have w: "length (cw_head_end_words key algo cw) = 16" using key cw by (simp add: cw_head_end_words_def)
  have rds: "rd ?sec 1 = Some 0x70" "rd ?sec 2 = Some 39" "rd ?sec 7 = Some 31" "rd ?sec 8 = Some 0x83" "rd ?sec 9 = Some 1" "rd ?sec 10 = Some prov"
     "rd ?sec 11 = Some 0xDB" "rd ?sec 12 = Some 16" "rd ?sec 29 = Some 0xDF" "rd ?sec 30 = Some 8"
    using w sig by (simp_all add: cw_head_end_def cw_head_end_signed_def rd_def nth_append)
  have scan: "cw_walk (\<lambda>_. ?sec) (cw_scan_step ?sec 39) 8 39 (-1, 0, 1) = Some (Inr (uint (prov AND 0xFC), if prov AND 3 \<noteq> 0 then 1 else 0, 1))"
    using rds by (simp add: cw_walk.simps cw_scan_step_def)
  show ?thesis using rds scan by (simp add: cw_section_def sct_len_inner)
qed

lemma head_end_no_nano:
  assumes "length key = 22" and "length cw = 16" and "length signature = 8"
  shows "cw_walk id (cw_nano_step today st caid p k al 39) 8 39 (cw_head_end key a b c algo d prov cw signature)
    = Some (Inr (cw_head_end key a b c algo d prov cw signature))"
proof -
  let ?sec = "cw_head_end key a b c algo d prov cw signature"
  have w: "length (cw_head_end_words key algo cw) = 16" using assms by (simp add: cw_head_end_words_def)
  have rds: "rd ?sec 8 = Some 0x83" "rd ?sec 9 = Some 1" "rd ?sec 11 = Some 0xDB" "rd ?sec 12 = Some 16" "rd ?sec 29 = Some 0xDF" "rd ?sec 30 = Some 8"
    using w assms(3) by (simp_all add: cw_head_end_def cw_head_end_signed_def rd_def nth_append)
  have "cw_nano_step today st caid p k al 39 i ?sec = Some (Inr ?sec)" if "i \<in> {8, 11, 29}" for i
    using that rds unfolding cw_nano_step_def by auto
  then show ?thesis using rds by (simp add: cw_walk.simps)
qed

subsection \<open>Properties\<close>

text \<open>
  The two directions of the Cryptoworks cipher undo each other: what is encrypted with any operator and system
  key (22 bytes) under any variant of the outer rounds, \<open>cw_dec_enc\<close> takes back.
\<close>

theorem cw_cipher_undone:
  assumes "length key = 22" and "length block = 8"
  shows "fst (cw_dec_enc (fst (cw_dec_enc block key algo 1)) key algo 0) = block"
  using assms by (intro dec_enc_undone) simp_all

lemma cw_cipher_undone_witness:
  "fst (cw_dec_enc (fst (cw_dec_enc [1, 2, 3, 4, 5, 6, 7, 8] (replicate 22 0x5A) 3 1)) (replicate 22 0x5A) 3 0) = [1, 2, 3, 4, 5, 6, 7, 8]"
  by (rule cw_cipher_undone) simp_all

text \<open>
  C22: An ECM that a head end makes with the operator key (16 bytes) and the system key (6 bytes) of its provider, with the
  elements for the provider, the words and the signature and none that is nested (0x80), opens to its control words under
  every variant of the cipher, the triple one included, and to nothing else: any other signature is a checksum error that
  leaves the output alone.
\<close>

theorem cw_ecm_opens:
  assumes "cw_get_key today (push_bit 8 caid OR of_int (uint (prov AND 0xFC))) (if prov AND 3 \<noteq> 0 then 1 else 0) 16 st = Some key16"
    and "cw_get_key today (push_bit 8 caid OR of_int (uint (prov AND 0xFC))) 6 6 st = Some key6"
    and "length cw = 16" and "length dw = 16" and "length signature = 8"
  shows "cccam_emu_cryptoworks_ecm today st caid (cw_head_end (key16 @ key6) a b c algo d prov cw signature) dw =
    Some (if signature = cw_signature (cw_head_end_signed (key16 @ key6) algo d prov cw) (key16 @ key6)
          then (EMU_OK, cw) else (EMU_CHECKSUM_ERROR, dw))"
proof -
  have key: "length (key16 @ key6) = 22" using assms(1,2) by (simp add: cw_key_length)
  let ?sec = "cw_head_end (key16 @ key6) a b c algo d prov cw signature"
  have "cw_section today st caid ?sec = map_option Inl (cw_open_section (key16 @ key6) 39 ?sec)"
    using assms(1,2) by (simp only: head_end_section [OF key assms(3,5)] cw_keyed_section_def Let_def option.case prod.case
      head_end_no_nano [OF key assms(3,5)] bind.simps sum.case)
  then show ?thesis
    using assms(3,4) by (simp add: head_end_opened [OF key assms(3,5)] cccam_emu_cryptoworks_ecm_def cw_sections.simps [of _ _ _ ?sec] copy_sub_def)
qed

definition cw_example_keys :: emu where
  "cw_example_keys = emu_store_initial\<lparr>em_keys :=
     [\<lparr>ek_type = CHR ''W'', ek_provider = 0x0D0204, ek_index = 1, ek_name = [], ek_date = 0, ek_data = replicate 16 7\<rparr>,
      \<lparr>ek_type = CHR ''W'', ek_provider = 0x0D0204, ek_index = 6, ek_name = [], ek_date = 0, ek_data = replicate 6 9\<rparr>], em_count := 2\<rparr>"

lemma cw_example_found:
  "cw_get_key today 0x0D0204 1 16 cw_example_keys = Some (replicate 16 7)"
  "cw_get_key today 0x0D0204 6 6 cw_example_keys = Some (replicate 6 9)"
  by (code_simp)+

lemma cw_ecm_opens_witness:
  "cccam_emu_cryptoworks_ecm 20260101 cw_example_keys 0x0D02 (cw_head_end (replicate 16 7 @ replicate 6 9) 0x81 0 0 7 0 5 (replicate 16 5) (replicate 8 0))
     (replicate 16 0) =
    Some (if replicate 8 0 = cw_signature (cw_head_end_signed (replicate 16 7 @ replicate 6 9) 7 0 5 (replicate 16 5)) (replicate 16 7 @ replicate 6 9)
          then (EMU_OK, replicate 16 5) else (EMU_CHECKSUM_ERROR, replicate 16 0))"
  by (rule cw_ecm_opens) (simp_all add: cw_example_found)

text \<open>
  A section whose bytes are all there is handled inside its buffer, sections inside elements 0x80 included, whatever
  its bytes and the keys are: the result is defined, and the output keeps its 16 bytes and, unless the result is
  success, their values.
\<close>

theorem cw_ecm_defined:
  assumes "cw_complete ecm" and "length dw = 16"
  shows "\<exists>rc dw'. cccam_emu_cryptoworks_ecm today st caid ecm dw = Some (rc, dw') \<and> length dw' = 16 \<and> (rc \<noteq> EMU_OK \<longrightarrow> dw' = dw)"
proof -
  obtain rc w where "cw_sections today st caid ecm = Some (rc, w)" "case w of None \<Rightarrow> rc \<noteq> EMU_OK | Some cw \<Rightarrow> rc = EMU_OK \<and> length cw = 16"
    using sections_total [OF assms(1)] by blast
  then show ?thesis using assms(2) by (cases w) (simp_all add: cccam_emu_cryptoworks_ecm_def)
qed

lemma cw_ecm_defined_witness:
  "\<exists>rc dw'. cccam_emu_cryptoworks_ecm 20260101 cw_example_keys 0x0D02 ([0x81, 0x70, 16, 0, 0, 3, 0, 8] @ replicate 8 0x80) (replicate 16 0) = Some (rc, dw')
     \<and> length dw' = 16 \<and> (rc \<noteq> EMU_OK \<longrightarrow> dw' = replicate 16 0)"
  by (rule cw_ecm_defined) (simp_all add: cw_complete_def sct_len_inner)

lemma nano80_length_byte:
  assumes "cw_process_nano80 today st data caid provider key n algo = Some (r, d)" and "r \<noteq> 0"
  shows "11 \<le> length d \<and> r = d ! 10 + 5"
proof -
  from assms(1) obtain x where "rd d 10 = Some x" "r = x + 5"
    using assms(2) by (auto simp: cw_process_nano80_def Let_def bind_eq_Some_conv split: if_splits)
  then show ?thesis by (auto simp: rd_def split: if_splits)
qed

lemma nano_inner_header:
  assumes "cw_nano_step today st caid provider key algo n i ecm = Some (Inl (Some inner))"
  shows "8 \<le> length inner \<and> inner ! 1 = 0x70 \<and> inner ! 2 = inner ! 7 + 5"
proof -
  obtain r d d' where d: "cw_process_nano80 today st (drop (i + 2) ecm) caid provider key (unat (ecm ! (i + 1))) algo = Some (r, d)" "r \<noteq> 0"
    "at_sub 3 5 (\<lambda>_. [0x81, 0x70, r, 0x81, 0xFF]) d = Some d'" "inner = drop 3 d'"
    using assms by (auto simp: cw_nano_step_def bind_eq_Some_conv rd_def split: if_splits)
  from nano80_length_byte [OF d(1,2)] have l: "11 \<le> length d" "r = d ! 10 + 5" by simp_all
  then have "d' = take 3 d @ [0x81, 0x70, r, 0x81, 0xFF] @ drop 8 d" using d(3) by (simp add: at_sub_def)
  then have "inner = [0x81, 0x70, r, 0x81, 0xFF] @ drop 8 d" using d(4) l(1) by simp
  then show ?thesis using l by (simp add: nth_append)
qed

lemma inner_refused:
  assumes "8 \<le> length inner" and "inner ! 1 = 0x70" and "inner ! 2 = inner ! 7 + 5"
  shows "cw_section today st caid inner = Some (Inl (EMU_NOT_SUPPORTED, None))"
proof -
  have r: "rd inner 1 = Some 0x70" "rd inner 2 = Some (inner ! 7 + 5)" "rd inner 7 = Some (inner ! 7)" using assms by simp_all
  define b n where "b = unat (inner ! 7)" and "n = unat (inner ! 7 + 5)"
  have "b < 2 ^ LENGTH(8)" unfolding b_def by (rule unsigned_less)
  then have b: "b < 256" by simp
  have "n = (b + 5) mod 256" unfolding b_def n_def by (simp only: unat_word_ariths) simp
  moreover have "(b + 5) mod 256 = (if b + 5 < 256 then b + 5 else b + 5 - 256)"
    using b mod_less [of "b + 5" 256] mod_less [of "b + 5 - 256" 256] le_mod_geq [of 256 "b + 5"] by (cases "b + 5 < 256") simp_all
  ultimately have "n = b + 5 \<or> n + 251 = b" by auto
  with b have "n < 8 \<or> b \<noteq> n - 8" by linarith
  then consider "n < 8" | "\<not> n < 8" "b \<noteq> n - 8" by blast
  then show ?thesis
  proof cases
    case 1
    then show ?thesis by (simp only: cw_section_def r bind.simps Let_def sct_len_inner n_def if_True)
  next
    case 2
    show ?thesis by (simp only: cw_section_def r bind.simps Let_def sct_len_inner if_not_P [OF 2(1) [unfolded n_def]] if_P [OF 2(2) [unfolded n_def b_def]])
  qed
qed

text \<open>
  The decoding of an element 0x80 never helps: the section it builds has the length \<open>data[10] + 5\<close> and the byte 7
  \<open>data[10]\<close>, which the check at the start of a section (byte 7 is the length minus 8) refuses. So an ECM that has such an
  element, for a provider that uses it, ends as not supported.
\<close>

theorem cw_nano80_refused:
  assumes "cw_section today st caid ecm = Some (Inr inner)"
  shows "cccam_emu_cryptoworks_ecm today st caid ecm dw = Some (EMU_NOT_SUPPORTED, dw)"
proof -
  have "cw_section today st caid inner = Some (Inl (EMU_NOT_SUPPORTED, None))"
    using section_InrD [OF assms] by (blast intro: inner_refused dest: nano_inner_header)
  then show ?thesis using assms by (simp add: cccam_emu_cryptoworks_ecm_def cw_sections.simps)
qed

definition cw_example_nano_keys :: emu where
  "cw_example_nano_keys = emu_store_initial\<lparr>em_keys :=
     [\<lparr>ek_type = CHR ''W'', ek_provider = 0x0D02A0, ek_index = 0, ek_name = [], ek_date = 0, ek_data = replicate 16 7\<rparr>,
      \<lparr>ek_type = CHR ''W'', ek_provider = 0x0D02A0, ek_index = 6, ek_name = [], ek_date = 0, ek_data = replicate 6 9\<rparr>], em_count := 2\<rparr>"

lemma cw_example_nano_found:
  "cw_get_key 20260101 0x0D02A0 0 16 cw_example_nano_keys = Some (replicate 16 7)"
  "cw_get_key 20260101 0x0D02A0 6 6 cw_example_nano_keys = Some (replicate 6 9)"
  by code_simp+

lemma cw_example_nano:
  "cw_section 20260101 cw_example_nano_keys 0x0D02 [0x81, 0x70, 21, 0, 0, 3, 0, 13, 0x80, 11, 1, 2, 3, 4, 5, 6, 7, 8, 9, 10, 3]
    = Some (Inr [0x81, 0x70, 8, 0x81, 0xFF, 9, 10, 3])"
proof -
  have nano: "cw_process_nano80 20260101 cw_example_nano_keys [1, 2, 3, 4, 5, 6, 7, 8, 9, 10, 3] 0x0D02 0xA0 key 11 1
    = Some (8, cccam_emu_des_ecb3_decrypt (cw_swap_key (take 16 key)) [1, 2, 3, 4, 5, 6, 7, 8] @ [9, 10, 3])" for key
    by (simp add: cw_process_nano80_def at_sub_def rd_def nth_append)
  show ?thesis
    by (simp add: cw_section_def rd_def sct_len_inner cw_walk.simps cw_scan_step_def cw_default_provider_def cw_keyed_section_def
      cw_example_nano_found cw_nano_step_def nano at_sub_def)
qed

lemma cw_nano80_refused_witness:
  "cccam_emu_cryptoworks_ecm 20260101 cw_example_nano_keys 0x0D02 [0x81, 0x70, 21, 0, 0, 3, 0, 13, 0x80, 11, 1, 2, 3, 4, 5, 6, 7, 8, 9, 10, 3]
     (replicate 16 0) = Some (EMU_NOT_SUPPORTED, replicate 16 0)"
  by (rule cw_nano80_refused [OF cw_example_nano])

end
