(* ===== verification/Viaccess_Tables.thy ===== *)
theory Viaccess_Tables
  imports Prelude
begin

text \<open>
  The tables of the Viaccess engine: the lookup of \<open>src/CCshare/cccam3_emu_viaccess_tables.c\<close> and the local tables of
  \<open>src/CCshare/cccam3_emu_viaccess.c\<close>.
\<close>

definition via_lookup_table :: "u8 list" where
  "via_lookup_table =
     [0x94, 0xB2, 0xA9, 0x79, 0xC4, 0xC7, 0x0D, 0x36, 0x6F, 0x24, 0x11, 0xD1, 0xDB, 0x59, 0xD2, 0xA5,
      0xE1, 0x00, 0xD4, 0x97, 0xA3, 0x2B, 0x11, 0xFA, 0x5F, 0xF1, 0xC1, 0x44, 0xBF, 0x9B, 0x5A, 0xC8,
      0xF1, 0xE1, 0x99, 0x82, 0x0E, 0xB2, 0x01, 0x09, 0x0C, 0xC8, 0xB3, 0x3B, 0xD1, 0x80, 0x50, 0xE8,
      0xF5, 0x52, 0x4C, 0xE6, 0x82, 0xAC, 0x58, 0x40, 0xD4, 0x71, 0x87, 0x52, 0x06, 0xEA, 0xA6, 0x27,
      0xB7, 0xFE, 0x6C, 0x49, 0x47, 0x3B, 0x70, 0x6C, 0xEB, 0xCD, 0xC5, 0x0B, 0x8C, 0x31, 0x29, 0x42,
      0x4E, 0x10, 0x2B, 0x2D, 0x46, 0xEC, 0x39, 0xA3, 0x90, 0x4B, 0x25, 0x60, 0x9C, 0x62, 0xD4, 0x20,
      0xF6, 0x16, 0xA8, 0x9C, 0xE4, 0x20, 0xED, 0xC7, 0xBA, 0x5E, 0xB6, 0x4E, 0x03, 0x15, 0xA6, 0xF6,
      0x23, 0x98, 0x32, 0xC0, 0xAE, 0xA3, 0xFD, 0xD3, 0x7F, 0xF8, 0xED, 0xF0, 0x29, 0x29, 0x12, 0xB3,
      0xB7, 0x58, 0xAD, 0xA2, 0x58, 0x2C, 0x70, 0x1B, 0xA4, 0x25, 0xE8, 0xA5, 0x43, 0xF1, 0xB9, 0x8F,
      0x1E, 0x3B, 0x10, 0xDF, 0x52, 0xFE, 0x58, 0x29, 0xAD, 0x3F, 0x99, 0x4D, 0xDF, 0xD2, 0x08, 0x06,
      0xA1, 0x1C, 0x66, 0x29, 0x26, 0x80, 0x52, 0x8A, 0x5A, 0x73, 0xE7, 0xDF, 0xC1, 0xC4, 0x47, 0x82,
      0xAB, 0x5C, 0x32, 0xAE, 0x96, 0x04, 0x2B, 0xC3, 0x2D, 0x5A, 0xD2, 0xB0, 0x64, 0x88, 0x97, 0xBF,
      0x7E, 0x99, 0x60, 0xCC, 0x63, 0x76, 0x66, 0xE9, 0x9A, 0x3D, 0xBB, 0xF7, 0x7F, 0xE4, 0x7C, 0x3F,
      0xB8, 0x4D, 0x10, 0x8D, 0x2A, 0xEA, 0x3C, 0xD3, 0x03, 0x74, 0xE6, 0x46, 0xC0, 0x29, 0xAE, 0xB0,
      0x79, 0xBE, 0xCB, 0x18, 0x34, 0xBE, 0x5A, 0xE9, 0x19, 0x8F, 0xA3, 0x8F, 0xD6, 0x6A, 0x6C, 0x88,
      0x1E, 0x21, 0x08, 0x15, 0xC4, 0xE7, 0xE6, 0xBA, 0x97, 0x9C, 0x4F, 0x89, 0x9F, 0x1A, 0x67, 0x4F,
      0xC0, 0xD5, 0x72, 0x51, 0x16, 0xB4, 0xD3, 0x8A, 0x1F, 0xE3, 0x92, 0x02, 0x7F, 0x59, 0x56, 0x8F,
      0x07, 0x8D, 0xC1, 0xC2, 0x42, 0x69, 0x3C, 0xA6, 0xBF, 0x3D, 0xDF, 0x0D, 0xAA, 0x4F, 0x7E, 0x80,
      0x07, 0x11, 0xE2, 0x94, 0x19, 0x9B, 0x16, 0x26, 0x1A, 0x46, 0x09, 0x0D, 0xB5, 0xB8, 0x8E, 0x01,
      0x9C, 0xFE, 0x09, 0xB3, 0x60, 0xC2, 0xAE, 0x50, 0x3C, 0x68, 0x75, 0x4A, 0x57, 0xD8, 0x4F, 0xD7,
      0xA2, 0x76, 0x2C, 0xC1, 0xA2, 0x23, 0xBC, 0x54, 0x2A, 0xDD, 0xF3, 0xDD, 0xA7, 0x34, 0xF7, 0x5C,
      0xF4, 0x86, 0x23, 0x48, 0x7C, 0x3F, 0x05, 0x40, 0x0E, 0xB0, 0xE5, 0xEB, 0x3E, 0xDF, 0x6A, 0x83,
      0x65, 0xA0, 0xB2, 0x06, 0xD1, 0x40, 0x79, 0x0D, 0xDE, 0x95, 0x84, 0x96, 0x87, 0x6F, 0xCE, 0x48,
      0x24, 0x13, 0x0B, 0xF5, 0xC7, 0xF5, 0xA8, 0x7F, 0x2E, 0xC7, 0xE1, 0xBA, 0xAE, 0x2B, 0xF7, 0xF0,
      0x8E, 0xF7, 0x54, 0x0B, 0xF0, 0xD2, 0x41, 0x81, 0x68, 0x3B, 0x1E, 0x35, 0xAB, 0xD9, 0x2B, 0x46,
      0x57, 0xE8, 0x53, 0xDF, 0xDE, 0x10, 0xEF, 0xCB, 0x4C, 0xE0, 0x52, 0x18, 0x2C, 0x4E, 0xB9, 0x20,
      0xE9, 0x7E, 0x85, 0xDF, 0x75, 0x32, 0xE6, 0x10, 0xE9, 0x9C, 0x7B, 0x2E, 0x4C, 0xDA, 0x46, 0xE6,
      0xCC, 0x77, 0x36, 0x1D, 0x4A, 0x15, 0xF5, 0x32, 0x18, 0x6B, 0x7E, 0xAA, 0xCC, 0x97, 0xCC, 0xD1,
      0x2F, 0xE5, 0x58, 0x03, 0x35, 0x35, 0x3D, 0xA0, 0x2B, 0x13, 0x3A, 0x65, 0xFF, 0x24, 0x72, 0xCF,
      0xA7, 0x6D, 0x52, 0x55, 0xF6, 0xC2, 0x30, 0x23, 0x7D, 0x9B, 0x9E, 0xB0, 0x94, 0x02, 0xAD, 0x60,
      0x8A, 0x9F, 0xBC, 0xC8, 0xE4, 0x2B, 0x92, 0x96, 0xF5, 0xAE, 0x04, 0xA4, 0x33, 0x0C, 0x90, 0x67,
      0xF0, 0xB9, 0x1E, 0x7E, 0xBE, 0x02, 0x18, 0xB2, 0x03, 0xB6, 0x40, 0xBF, 0x05, 0xE3, 0x76, 0x98,
      0x21, 0x38, 0xC9, 0x5F, 0xD3, 0x51, 0x8B, 0x43, 0x0B, 0x1A, 0x0B, 0xF9, 0x3C, 0x21, 0x6C, 0x3D,
      0xB8, 0xA0, 0x57, 0xCA, 0x68, 0xCD, 0x1E, 0xD2, 0x2C, 0x50, 0xEE, 0xC0, 0xDF, 0x25, 0x88, 0x52,
      0x37, 0xE1, 0x44, 0xC6, 0x76, 0x3B, 0x91, 0x95, 0x86, 0x76, 0x87, 0x49, 0x21, 0x93, 0x44, 0x0A,
      0x52, 0xB9, 0x2D, 0x2B, 0xE3, 0x1D, 0xB0, 0xE4, 0x98, 0xC6, 0xEE, 0x3D, 0x96, 0x53, 0x4B, 0xFF,
      0x39, 0x00, 0xD5, 0x42, 0x7E, 0xE1, 0x4C, 0x6F, 0xD5, 0xB7, 0xE6, 0x99, 0x2A, 0x5B, 0x67, 0xEE,
      0x3E, 0xBA, 0xF7, 0xEC, 0x43, 0x2A, 0x1C, 0xB6, 0xB5, 0x04, 0x26, 0x59, 0xB1, 0x4C, 0x17, 0xCC,
      0x83, 0xB9, 0x00, 0x3E, 0x36, 0x91, 0x90, 0xF7, 0x5E, 0x38, 0xDC, 0xE4, 0x15, 0xC7, 0x67, 0xF0,
      0xCA, 0xC8, 0xD2, 0x91, 0x5D, 0x74, 0xAC, 0x97, 0x56, 0x36, 0x1A, 0x82, 0x0A, 0xAA, 0xB4, 0x4E,
      0xBF, 0x29, 0x5C, 0xBF, 0x58, 0xB3, 0x97, 0xF9, 0xEB, 0x7C, 0x85, 0xB4, 0xA5, 0x13, 0x2F, 0xD1,
      0xDE, 0x1C, 0xEC, 0x97, 0xDD, 0xE2, 0x39, 0xE4, 0xFB, 0x0A, 0x02, 0xE0, 0xC3, 0xBA, 0x39, 0x79,
      0xAA, 0x1C, 0x37, 0x75, 0x25, 0x54, 0xBE, 0x85, 0x74, 0x2C, 0xFA, 0x0C, 0xFA, 0x50, 0xF6, 0xBE,
      0x9F, 0x2A, 0x53, 0x7C, 0x27, 0x46, 0x68, 0x2D, 0x74, 0x2B, 0x46, 0xDA, 0xF5, 0x07, 0x95, 0x09,
      0x6A, 0x91, 0xB7, 0xB1, 0x34, 0x07, 0x5F, 0xEA, 0xBE, 0x0F, 0x87, 0x28, 0x68, 0x97, 0x43, 0x77,
      0xD5, 0x38, 0x2B, 0x11, 0x11, 0x4F, 0xD9, 0x75, 0x5E, 0xE1, 0x06, 0xA0, 0x3B, 0xAC, 0x32, 0xFE,
      0xBF, 0x73, 0x59, 0x5B, 0xA2, 0xA8, 0x7E, 0x10, 0x4C, 0x6E, 0x78, 0xF0, 0x4A, 0x4E, 0x95, 0xD6,
      0xDD, 0x05, 0x7A, 0xBB, 0xF1, 0xEB, 0xA8, 0xA4, 0x5D, 0x91, 0xF0, 0xED, 0xDB, 0xB8, 0x01, 0x41,
      0xF8, 0x97, 0x7F, 0xC3, 0x91, 0x53, 0xBF, 0xE9, 0xEA, 0x33, 0x1F, 0xDC, 0xA6, 0xE6, 0x8D, 0xCB,
      0x75, 0xD0, 0x69, 0xD0, 0xA4, 0x59, 0xA5, 0x02, 0xFC, 0x60, 0x0D, 0x6A, 0xA0, 0x05, 0x1A, 0x54,
      0x8A, 0xA7, 0x57, 0xA3, 0xF0, 0x90, 0x8A, 0xD5, 0x6F, 0x1E, 0x2E, 0x10, 0x9A, 0x93, 0x2B, 0x51,
      0x2C, 0xFD, 0x99, 0xE5, 0x9B, 0x5D, 0xB2, 0xA7, 0x37, 0x99, 0x26, 0x35, 0xCA, 0xDD, 0x22, 0x19,
      0x59, 0x2A, 0xB0, 0x99, 0x23, 0xDF, 0xA7, 0xA9, 0x85, 0x12, 0xCF, 0xBF, 0xFC, 0x74, 0x80, 0x87,
      0xE1, 0x97, 0xD0, 0xF9, 0xEF, 0x5F, 0x1B, 0x45, 0xF7, 0x76, 0xDB, 0x66, 0x39, 0x05, 0x43, 0x06,
      0xA9, 0x9F, 0x2E, 0x14, 0x9F, 0x1C, 0x0C, 0x1F, 0xD5, 0xD9, 0xA4, 0x8D, 0x18, 0x6F, 0x08, 0x53,
      0x0B, 0x92, 0x9A, 0x0C, 0xEA, 0x4C, 0xE4, 0x1D, 0x9E, 0x9A, 0x51, 0xB8, 0x7E, 0x2D, 0xE7, 0x3C,
      0xFF, 0x84, 0x5C, 0xBF, 0x8F, 0x8C, 0x89, 0x09, 0x1B, 0x7E, 0x4B, 0xE7, 0x85, 0xEC, 0x04, 0xB5,
      0x20, 0x18, 0x1E, 0x55, 0xD5, 0x5B, 0xAC, 0xC6, 0x25, 0x5A, 0xA1, 0x81, 0xC1, 0x31, 0x9C, 0xF5,
      0xB5, 0x54, 0x07, 0x65, 0x0A, 0x5B, 0x90, 0x06, 0x4F, 0x84, 0xB2, 0x7F, 0xD1, 0xAD, 0x16, 0x81,
      0x25, 0xAF, 0xAF, 0xE2, 0x03, 0xA9, 0x1F, 0x13, 0x02, 0x5D, 0x54, 0x89, 0xCD, 0x44, 0x51, 0xEB,
      0xA4, 0x2B, 0xBD, 0x47, 0xB0, 0xB6, 0x27, 0x1D, 0x9B, 0x14, 0x6F, 0xBF, 0xCD, 0x59, 0xBC, 0x0A,
      0x37, 0xA8, 0x74, 0x7D, 0x16, 0x90, 0x28, 0xD5, 0x94, 0xC3, 0xE4, 0x23, 0xC4, 0x98, 0x91, 0xCE,
      0x55, 0xBD, 0x21, 0x3B, 0x84, 0xBD, 0x44, 0x3C, 0xF9, 0xCD, 0x37, 0x43, 0x4A, 0xC6, 0x8C, 0x23,
      0x04, 0x28, 0x63, 0x7A, 0x03, 0x85, 0xD2, 0x46, 0x93, 0xCA, 0xFE, 0xC3, 0x83, 0x0B, 0x13, 0xCC,
      0x5D, 0xCB, 0xBA, 0xCA, 0x68, 0xAB, 0x05, 0xF7, 0xEC, 0x4A, 0x9C, 0x0F, 0xD5, 0xC4, 0x5A, 0xA5,
      0xA0, 0x04, 0x41, 0x6A, 0xF6, 0xEF, 0x16, 0x9B, 0x69, 0x38, 0xF6, 0x2D, 0xAA, 0xEB, 0x2D, 0xE2,
      0x82, 0xA2, 0x9F, 0x6F, 0xBD, 0x2A, 0xE3, 0x66, 0x6B, 0x21, 0xDA, 0x56, 0xAD, 0x82, 0x2B, 0x93,
      0xF3, 0x25, 0xEA, 0xFC, 0xFD, 0xFD, 0x1B, 0xA9, 0xFC, 0xB8, 0xC6, 0x98, 0x45, 0xF2, 0x70, 0x03,
      0x4A, 0x9C, 0x60, 0x82, 0x65, 0xB6, 0x68, 0x4C, 0xE7, 0x41, 0x10, 0x9D, 0x59, 0x40, 0x03, 0x02,
      0x07, 0x12, 0x33, 0xAF, 0x79, 0xE1, 0xC4, 0xEB, 0xB8, 0xCE, 0x6A, 0x90, 0x72, 0x61, 0x5D, 0x56,
      0xC7, 0x59, 0x31, 0xCB, 0x45, 0x2D, 0x42, 0x9F, 0x10, 0x1D, 0x09, 0x63, 0x59, 0x8C, 0x6C, 0xDB,
      0x11, 0xCF, 0xA1, 0xDF, 0x5F, 0x4D, 0xDF, 0xB4, 0xC3, 0x82, 0xEE, 0x58, 0x16, 0xB4, 0x74, 0xFA,
      0xBE, 0x11, 0x9C, 0x1E, 0x98, 0x29, 0xDE, 0xE3, 0xE5, 0x9E, 0xCF, 0xD7, 0x91, 0x0A, 0xA3, 0xA4,
      0x42, 0xA1, 0x95, 0x09, 0x9E, 0x16, 0xD5, 0xA8, 0x24, 0x56, 0x5B, 0x23, 0xC8, 0x56, 0x4C, 0xCB,
      0x89, 0x18, 0x69, 0xEB, 0x0C, 0x1F, 0xC0, 0x41, 0x5C, 0x63, 0x04, 0x68, 0xB2, 0x0F, 0x3F, 0x88,
      0x36, 0xDD, 0x23, 0x4D, 0x4C, 0xC0, 0x81, 0xE3, 0xE9, 0xAD, 0xE0, 0x27, 0xD5, 0xE5, 0x46, 0xEB,
      0xFF, 0x32, 0xA2, 0xB7, 0x14, 0x64, 0x0B, 0x6D, 0x1B, 0xE5, 0xD8, 0xAE, 0x9D, 0xE8, 0x55, 0xB9,
      0x52, 0x70, 0x59, 0xB8, 0x72, 0x92, 0x69, 0x37, 0x95, 0x61, 0x0A, 0xE5, 0xF6, 0x55, 0x97, 0x1D,
      0xBF, 0xF7, 0x29, 0x77, 0x0F, 0x72, 0x80, 0xB2, 0x7E, 0x56, 0xBF, 0xFD, 0xE9, 0xF5, 0x9B, 0x62,
      0xE9, 0xBD, 0x0B, 0xC2, 0x07, 0x55, 0x31, 0x4C, 0x57, 0x3A, 0x05, 0xB9, 0x27, 0x41, 0x4A, 0xC3,
      0xEC, 0x72, 0x20, 0xB3, 0x0C, 0xF9, 0xD9, 0x3A, 0x14, 0x6A, 0x03, 0x44, 0x6A, 0xF1, 0x41, 0x55,
      0x7F, 0x81, 0xC2, 0x04, 0xA8, 0x05, 0xB9, 0x49, 0x2E, 0x43, 0xC4, 0x00, 0x87, 0x86, 0x04, 0xAC,
      0xAF, 0x73, 0x78, 0x0E, 0xA4, 0x43, 0x5B, 0x36, 0xA2, 0x8F, 0x9C, 0xF7, 0x66, 0x4A, 0x5A, 0x09,
      0x6B, 0xAA, 0x69, 0x6F, 0xB1, 0x20, 0x0D, 0x56, 0x85, 0x0A, 0x5E, 0x06, 0xBF, 0xE2, 0x32, 0xB4,
      0x5C, 0x46, 0x33, 0x0D, 0x27, 0xA3, 0x6B, 0xE1, 0xB2, 0x6A, 0x7D, 0x4A, 0xA7, 0x81, 0x0F, 0x2B,
      0x16, 0x7C, 0x51, 0xD6, 0xC0, 0x3D, 0xB9, 0xFE, 0xB4, 0x66, 0xC4, 0xB6, 0x54, 0x53, 0x67, 0xDA,
      0x70, 0x96, 0x9A, 0x0A, 0x07, 0x1A, 0x26, 0xBA, 0x85, 0x50, 0xF5, 0x27, 0x53, 0x9C, 0x3A, 0x94,
      0x0A, 0x7D, 0xDB, 0xE1, 0xC3, 0xE3, 0x6A, 0x3E, 0x9E, 0xD5, 0x13, 0x0A, 0xA3, 0xD2, 0x21, 0x75,
      0x79, 0x17, 0x26, 0xAC, 0x48, 0x5F, 0x3D, 0xE1, 0x7D, 0xA4, 0xB1, 0x56, 0x0F, 0x92, 0x2C, 0x60,
      0xE6, 0xCB, 0x87, 0x35, 0xB8, 0x75, 0xC3, 0xA2, 0x03, 0x50, 0x4B, 0xA2, 0x6E, 0x01, 0xE1, 0xDD,
      0x87, 0xA5, 0x33, 0xC6, 0x2F, 0xA2, 0x41, 0xFC, 0x72, 0x98, 0xA2, 0x69, 0x4C, 0x3F, 0xF0, 0x53,
      0xF5, 0x41, 0x2B, 0x23, 0x24, 0x3B, 0xCE, 0x9D, 0x39, 0x31, 0x17, 0x08, 0xE1, 0x3F, 0x5F, 0xFB,
      0x00, 0xFA, 0xF1, 0xE3, 0xE1, 0x7B, 0x0C, 0xDF, 0x8D, 0xA2, 0xC4, 0xCD, 0x62, 0x3D, 0xAE, 0xC7,
      0x48, 0x09, 0x1C, 0x66, 0xCB, 0x0E, 0x23, 0xE8, 0x1B, 0x9F, 0x1B, 0xCB, 0xF8, 0x14, 0xC3, 0x34,
      0x91, 0x32, 0x2B, 0x39, 0x1C, 0xBA, 0x1C, 0xA0, 0x19, 0xF2, 0x57, 0x9D, 0x78, 0x00, 0x55, 0x1F,
      0x15, 0x12, 0x9A, 0xA2, 0xF2, 0xC2, 0xB7, 0x4E, 0xEA, 0x46, 0x01, 0xC2, 0xE9, 0x76, 0xBF, 0xDE,
      0xCF, 0x8B, 0xC7, 0x50, 0x80, 0xEE, 0x46, 0x91, 0x93, 0x1E, 0x5C, 0x48, 0x5D, 0xC8, 0xC8, 0x63,
      0xD1, 0x89, 0x02, 0x29, 0xE9, 0x90, 0x9F, 0x0B, 0x0A, 0x1A, 0x44, 0x17, 0xE7, 0x4E, 0xAD, 0x58,
      0x55, 0xF8, 0x38, 0xF6, 0x4F, 0xD8, 0x1C, 0x7E, 0x25, 0x9B, 0x59, 0x16, 0xBC, 0x65, 0x24, 0xC5,
      0xA7, 0x56, 0xE5, 0x20, 0x3F, 0xD9, 0x27, 0xE0, 0x32, 0x24, 0xE1, 0x7B, 0xE1, 0x32, 0xEA, 0xF4,
      0xFE, 0xD9, 0xA5, 0xFF, 0x35, 0xAE, 0xA9, 0x1B, 0x38, 0x28, 0x6A, 0xC0, 0x1A, 0x42, 0xD9, 0x5E,
      0x14, 0x2C, 0xC2, 0x2D, 0x9B, 0x94, 0x5B, 0xCF, 0x83, 0x30, 0xB9, 0x06, 0xAF, 0x4B, 0xD7, 0xF6,
      0x38, 0x7C, 0xFF, 0xB4, 0xA5, 0x1A, 0xA0, 0xE9, 0xF3, 0x01, 0xE3, 0x97, 0xC4, 0xA9, 0x57, 0xF5,
      0xB9, 0x96, 0xA7, 0xA3, 0xB8, 0x10, 0x0E, 0xFB, 0x1D, 0x39, 0x44, 0x16, 0x97, 0x94, 0x3E, 0x5F,
      0xAF, 0x0F, 0xE3, 0x99, 0xDC, 0xA0, 0xE9, 0x8D, 0x26, 0x2B, 0xD9, 0xAE, 0xEC, 0x4C, 0x4F, 0x09,
      0x86, 0x7E, 0x7B, 0xC3, 0xE3, 0xC6, 0x17, 0xAE, 0x30, 0x9C, 0x31, 0xD1, 0x84, 0x47, 0xAF, 0xCB,
      0xEA, 0x69, 0x2A, 0x08, 0x3E, 0x13, 0x00, 0xDE, 0xF6, 0x4A, 0x42, 0xD3, 0xBE, 0x33, 0xD9, 0x50,
      0x6B, 0x8D, 0x59, 0x12, 0x1A, 0xD3, 0xA7, 0x7C, 0x0A, 0xE7, 0x87, 0x47, 0xCA, 0xAA, 0x33, 0xFD,
      0xC1, 0xF6, 0x28, 0xC1, 0x62, 0xA2, 0x4C, 0x79, 0x83, 0x48, 0x86, 0x0E, 0xA4, 0x67, 0x34, 0x95,
      0xAE, 0x7D, 0xD6, 0xEE, 0x91, 0x05, 0x35, 0x91, 0xE8, 0x34, 0x39, 0xA3, 0xE5, 0xE6, 0x80, 0x53,
      0x76, 0x1F, 0x94, 0xA0, 0xF6, 0xA5, 0x41, 0x79, 0x82, 0xD3, 0xB0, 0x1F, 0xCE, 0xE1, 0x86, 0x64,
      0x65, 0x0C, 0x8D, 0xD6, 0xFA, 0xC1, 0x10, 0x6C, 0x07, 0xD5, 0xF0, 0x77, 0x65, 0xB9, 0x0C, 0xBD,
      0xAE, 0x2D, 0x62, 0x6C, 0x42, 0x7E, 0x2A, 0xBE, 0x5F, 0xC1, 0x17, 0x3B, 0x07, 0xFF, 0x5E, 0xD7,
      0x31, 0x52, 0x26, 0x2F, 0x9F, 0x12, 0xD8, 0x2E, 0xA3, 0xF5, 0xB5, 0xD2, 0xFC, 0x6E, 0x08, 0x1F,
      0xC8, 0x93, 0xA1, 0xEB, 0xF9, 0x13, 0x1D, 0x1F, 0x98, 0x5E, 0xB0, 0x0C, 0x65, 0x6C, 0xAE, 0x07,
      0x78, 0xF8, 0x12, 0xD2, 0xD1, 0x1E, 0x77, 0x5C, 0x24, 0x62, 0xE5, 0x94, 0xD6, 0x6A, 0x8E, 0xD0,
      0x72, 0x59, 0xDA, 0x48, 0x38, 0x2F, 0x31, 0x75, 0x0C, 0x52, 0xF0, 0x0C, 0x8F, 0x5C, 0xE9, 0x5E,
      0x5A, 0x94, 0xE8, 0xD2, 0x80, 0xF8, 0x4F, 0xE7, 0xAA, 0x6C, 0xBE, 0x47, 0xFB, 0xDD, 0x57, 0x0A,
      0xD8, 0x5E, 0xCC, 0x0D, 0x8F, 0x42, 0x5E, 0xDC, 0x5D, 0x95, 0x95, 0x60, 0x9B, 0x6F, 0x05, 0x5E,
      0x08, 0x45, 0x91, 0xE4, 0xB8, 0x06, 0xB1, 0xF2, 0xC0, 0xD7, 0xE3, 0x47, 0xB7, 0x38, 0x08, 0xA8,
      0x58, 0xE4, 0x55, 0xFC, 0xE2, 0x37, 0x1F, 0x38, 0xA2, 0x18, 0x9E, 0xC2, 0x0F, 0x90, 0x14, 0x20,
      0x50, 0xD1, 0xD0, 0xAB, 0x36, 0x7F, 0xAA, 0x03, 0x1C, 0xE6, 0x0A, 0xF9, 0x8E, 0x41, 0xDB, 0x32,
      0x1C, 0x68, 0xA0, 0xA0, 0xED, 0x4A, 0xF4, 0x4B, 0x09, 0xD0, 0xF0, 0x01, 0x8B, 0x17, 0x44, 0xE1,
      0xEA, 0xC5, 0x9D, 0x3B, 0x37, 0x7A, 0x68, 0xF1, 0x78, 0x46, 0xCF, 0xB6, 0x57, 0xDB, 0x4B, 0x5C,
      0x03, 0xE1, 0x9D, 0xC0, 0x37, 0x55, 0x8D, 0x03, 0xFB, 0x6A, 0x00, 0x82, 0x19, 0xD1, 0xC0, 0x76,
      0x97, 0xEE, 0xC9, 0xAD, 0x0D, 0x72, 0x0B, 0xE9, 0xA8, 0x09, 0x92, 0x03, 0xA4, 0xAA, 0x2C, 0xCF,
      0xFD, 0xDE, 0x86, 0xD0, 0x06, 0x4A, 0xAE, 0x7E, 0xC1, 0xB8, 0x2A, 0x4E, 0x9F, 0xA3, 0x5E, 0x8C,
      0x12, 0x40, 0x74, 0x38, 0xE7, 0xEA, 0xB0, 0x51, 0xC2, 0xB9, 0x6D, 0x4A, 0x50, 0xBF, 0x59, 0x9C,
      0x05, 0xB2, 0x42, 0xE2, 0x0F, 0x71, 0x44, 0xDB, 0x97, 0x0B, 0xD0, 0xDB, 0x44, 0x1F, 0x9A, 0x3B,
      0x18, 0x2A, 0x7B, 0xD9, 0x03, 0x83, 0x0B, 0xCF, 0x27, 0x20, 0x43, 0xA6, 0x42, 0xED, 0x89, 0x63,
      0xDB, 0x2D, 0x27, 0xC2, 0x3B, 0xE6, 0x0D, 0x3E, 0xB6, 0x96, 0x33, 0x70, 0xA6, 0xF3, 0xF5, 0x56,
      0xEA, 0xEB, 0xF1, 0xE7, 0xD8, 0xCB, 0x04, 0x48, 0x99, 0x4C, 0x00, 0xA4, 0x2A, 0xA5, 0x8A, 0xF1,
      0x58, 0xD5, 0x17, 0x4C, 0xC5, 0x88, 0x06, 0x8F, 0xA6, 0x67, 0xA6, 0x14, 0xC7, 0xB9, 0xE0, 0x86,
      0xAC, 0x67, 0xFD, 0xB3, 0x5B, 0x3E, 0xDF, 0x03, 0xFD, 0xC8, 0xC4, 0x4A, 0x32, 0x78, 0x6B, 0xD1,
      0xC1, 0xE2, 0x36, 0x9D, 0x0B, 0xF2, 0x54, 0x25, 0xB8, 0xB7, 0xB2, 0x10, 0x7A, 0xA6, 0x79, 0x52,
      0xC2, 0xEE, 0x98, 0xA5, 0x3D, 0xF0, 0x07, 0x8D, 0x25, 0xC3, 0xAC, 0xFD, 0xCF, 0x83, 0x98, 0x80,
      0x56, 0x95, 0xC4, 0x14, 0xA2, 0xA5, 0x93, 0xFE, 0x24, 0x59, 0x44, 0x73, 0xDF, 0xD6, 0x47, 0xDA,
      0x22, 0x3A, 0x82, 0xC5, 0xD1, 0x59, 0x40, 0x9D, 0x0C, 0x1A, 0xB7, 0x79, 0x45, 0x9A, 0xF8, 0x6D,
      0x5A, 0x5C, 0xC2, 0x80, 0xFC, 0xAA, 0x8A, 0xA4, 0xFE, 0x68, 0x61, 0x7D, 0xFE, 0x2C, 0x36, 0xE3,
      0xE0, 0x59, 0x28, 0x40, 0x79, 0xAD, 0x2D, 0x28, 0x12, 0x30, 0xFC, 0x56, 0x2E, 0x1D, 0xEC, 0x48,
      0x3A, 0xF0, 0xC5, 0x6C, 0x31, 0xE0, 0x2E, 0xB3, 0x91, 0x70, 0xB9, 0x9E, 0xBD, 0xE7, 0x96, 0x58,
      0xCB, 0xBC, 0x1C, 0xE4, 0xC7, 0x78, 0xC7, 0x1E, 0x39, 0xDB, 0xB8, 0x77, 0x50, 0xB7, 0x65, 0x20,
      0x04, 0x16, 0x8B, 0xFC, 0x66, 0xC4, 0x6D, 0x05, 0x8C, 0x3C, 0xB6, 0x32, 0x2F, 0xDE, 0xC3, 0x6F,
      0xFC, 0x82, 0x06, 0x02, 0x87, 0x47, 0xFD, 0xD8, 0xDA, 0x75, 0xE0, 0x4E, 0x8C, 0x40, 0x00, 0xB2,
      0x9B, 0x35, 0x78, 0xA4, 0x61, 0x64, 0x96, 0x62, 0x37, 0xF6, 0x3E, 0x39, 0xFA, 0x14, 0x5B, 0xC4,
      0x70, 0x17, 0xDC, 0x0C, 0x9E, 0x31, 0x82, 0x2C, 0x63, 0xCC, 0x8A, 0x43, 0x7C, 0x69, 0x12, 0x05,
      0x18, 0xA3, 0x62, 0xCC, 0xA2, 0x13, 0x96, 0x25, 0xA6, 0x1B, 0xF2, 0x10, 0xC8, 0x73, 0x4F, 0xCB,
      0x80, 0xCA, 0xAF, 0x73, 0xC9, 0x78, 0xB1, 0xAE, 0x87, 0xB8, 0xDF, 0x50, 0xD3, 0x55, 0x1E, 0x3A,
      0x81, 0xF6, 0x84, 0xD6, 0x57, 0x36, 0xCF, 0x38, 0xB7, 0xBC, 0xBC, 0x1E, 0x48, 0x62, 0x9F, 0x0F,
      0x0C, 0xE5, 0xF0, 0x63, 0x33, 0xE6, 0x59, 0x6B, 0x1E, 0xE6, 0x1C, 0x8A, 0xF9, 0xDD, 0x6B, 0xA3,
      0xDC, 0x02, 0x4A, 0x2F, 0x8C, 0x6A, 0x8D, 0x16, 0x7E, 0x2F, 0xF1, 0x75, 0xD5, 0x15, 0x93, 0x07,
      0x27, 0xD9, 0x6F, 0x1A, 0x5D, 0x43, 0xF3, 0x47, 0xC4, 0xED, 0xAD, 0x05, 0x9F, 0xEC, 0x8F, 0xD0,
      0xBE, 0xB5, 0x58, 0xF4, 0xF6, 0xBE, 0x08, 0x73, 0x96, 0x19, 0x05, 0x25, 0xEC, 0x3D, 0x26, 0xF4,
      0x93, 0xDB, 0x9F, 0x56, 0x48, 0x4C, 0xBC, 0xD0, 0x02, 0x59, 0xD1, 0x40, 0x4C, 0xA6, 0x06, 0x41,
      0xE8, 0x7D, 0x47, 0xAE, 0x3A, 0x9E, 0x1A, 0x71, 0x52, 0xD4, 0x67, 0xC1, 0x14, 0x7E, 0x40, 0x6F,
      0x1C, 0x75, 0x30, 0x7B, 0x70, 0x3A, 0xE0, 0x37, 0xB7, 0x41, 0x7F, 0xCB, 0x4A, 0xBA, 0xA7, 0xCE,
      0x56, 0x54, 0xC5, 0x46, 0x65, 0x6F, 0xB4, 0xB6, 0xF0, 0x57, 0xCE, 0x2E, 0x4F, 0xA9, 0xF0, 0x14,
      0x50, 0xC3, 0x30, 0xC5, 0xBA, 0xE1, 0x5E, 0xD6, 0xDC, 0xC5, 0x78, 0x55, 0x32, 0xAA, 0xCB, 0x29,
      0x35, 0x81, 0x46, 0x5E, 0x92, 0xE7, 0xDE, 0xCC, 0x92, 0x29, 0x86, 0xE0, 0x8F, 0x91, 0x3C, 0x74,
      0x97, 0x79, 0x63, 0x97, 0x4A, 0xCC, 0x88, 0xB5, 0xA3, 0x7A, 0xF0, 0xF0, 0x33, 0x87, 0xCD, 0xBD]"

definition via_lookup1 :: "u8 list" where
  "via_lookup1 =
     [0x16, 0x71, 0xCA, 0x14, 0xC4, 0xF4, 0xA3, 0x5A, 0x9D, 0x5F, 0x85, 0x8B, 0xA6, 0x77, 0xFD, 0x3C,
      0x5F, 0x13, 0x2A, 0x5F, 0x61, 0x36, 0xE4, 0xDC, 0x0D, 0x82, 0x92, 0xC5, 0x25, 0xE1, 0x7A, 0x1C,
      0x29, 0x19, 0x94, 0x2F, 0xC5, 0xD2, 0xDC, 0xBA, 0x86, 0x60, 0x64, 0x60, 0x86, 0x92, 0xA3, 0x4E,
      0x3D, 0x9B, 0xCC, 0x16, 0xBB, 0xBA, 0xD2, 0xF0, 0x6A, 0xD3, 0x2F, 0x07, 0x75, 0xBD, 0x28, 0xDB]"

definition Tab3 :: "u8 list" where
  "Tab3 =
     [0x1B, 0x12, 0x12, 0x0C, 0x12, 0x0C, 0x0C, 0x08, 0x09, 0x09, 0x06, 0x06, 0x06, 0x06, 0x04, 0x04,
      0x08, 0x04, 0x04, 0x02, 0x04, 0x02, 0x02, 0x01, 0x09, 0x06, 0x09, 0x06, 0x06, 0x04, 0x06, 0x04,
      0x03, 0x03, 0x03, 0x03, 0x02, 0x02, 0x02, 0x02, 0x04, 0x04, 0x02, 0x02, 0x02, 0x02, 0x01, 0x01,
      0x09, 0x06, 0x06, 0x04, 0x09, 0x06, 0x06, 0x04, 0x03, 0x03, 0x02, 0x02, 0x03, 0x03, 0x02, 0x02,
      0x04, 0x02, 0x04, 0x02, 0x02, 0x01, 0x02, 0x01, 0x03, 0x02, 0x03, 0x02, 0x03, 0x02, 0x03, 0x02,
      0x01, 0x01, 0x01, 0x01, 0x01, 0x01, 0x01, 0x01]"

definition Tab0_Comp :: "u8 list" where
  "Tab0_Comp =
     [0x54, 0x75, 0x01, 0x0C, 0x7C, 0xE2, 0xC3, 0xC2, 0x5E, 0x13, 0x26, 0xCA, 0xB2, 0xCD, 0xB8, 0x3D,
      0x02, 0x2C, 0xE4, 0x19, 0x41, 0x3D, 0xE4, 0x0F, 0xEC, 0xF1, 0x45, 0x83, 0xE2, 0xE2, 0x72, 0xF9,
      0xCD, 0x75, 0x1E, 0x41, 0xCC, 0x0C, 0x1F, 0x39, 0x87, 0x9B, 0x46, 0xFF, 0x68, 0x1F, 0x00, 0xD8,
      0x41, 0x82, 0xCA, 0xC6, 0xEF, 0x87, 0x90, 0xA2, 0x7E, 0xD9, 0xDE, 0xC8, 0x25, 0xEA, 0xC9, 0x75,
      0x6E, 0x18, 0x81, 0xD8, 0x5A, 0xA6, 0x74, 0x05, 0xAF, 0xAE, 0xE0, 0x4F, 0x85, 0xAD, 0x94, 0xF6,
      0x45, 0xF4, 0xF5, 0x55, 0xA8, 0xEB, 0xEC, 0xDB, 0x6C, 0xFF, 0x2F, 0xC2, 0xC3, 0x7D, 0x93, 0xE6,
      0xF5, 0x31, 0x96, 0xB7, 0x9A, 0xDB, 0xE5, 0x76, 0x66, 0xFB, 0xDD, 0xBC, 0x19, 0x18, 0x42, 0xC6,
      0x36, 0xCD, 0x46, 0x33, 0xEA, 0xF1, 0x4C, 0xC0, 0x72, 0x07, 0xCD, 0x61, 0xCE, 0x0E, 0x08, 0x01,
      0xA3, 0xFA, 0x84, 0x21, 0xF2, 0x43, 0x37, 0x1C, 0xDE, 0x25, 0x8A, 0x1A, 0xF4, 0xBB, 0x40, 0xF3,
      0x53, 0xFE, 0x17, 0x60, 0x91, 0x6D, 0x7B, 0x6D, 0x5F, 0x1C, 0x15, 0x73, 0xCC, 0x6E, 0x73, 0x46,
      0x27, 0x73, 0xA3, 0x10, 0x16, 0x32, 0xB3, 0x39, 0x45, 0xA6, 0x55, 0xE7, 0x91, 0x32, 0x24, 0xC8,
      0xAE, 0xAF, 0x1B, 0x28, 0x69, 0x22, 0x2F, 0xE9, 0x77, 0x72, 0xBF, 0x4B, 0x8B, 0x07, 0x82, 0x31,
      0xB0, 0x95, 0x10, 0x78, 0x9F, 0xC5, 0xF3, 0x73, 0xE1, 0xF8, 0x36, 0x84, 0xFE, 0x1B, 0x92, 0xB2,
      0xE6, 0xA5, 0xCE, 0xDA, 0x56, 0x48, 0x52, 0x77, 0x9D, 0x9D, 0x8E, 0x37, 0x4B, 0xC8, 0x35, 0x7E,
      0xB9, 0x5D, 0xA4, 0xAE, 0x3F, 0xD0, 0xAA, 0x60, 0xA8, 0x4C, 0x85, 0x49, 0xF6, 0x0C, 0x27, 0xE8,
      0x94, 0x84, 0xA0, 0xAA, 0x06, 0x4D, 0xAC, 0x58, 0x8B, 0x61, 0x29, 0x3D, 0x68, 0x25, 0xD3, 0xD3,
      0x8E, 0xA1, 0xE0, 0x71, 0xBF, 0x21, 0x0C, 0xC7, 0x18, 0x19, 0xF1, 0x25, 0x98, 0x5F, 0x79, 0x5E,
      0x51, 0xBA, 0x8C, 0x2F, 0x52, 0x43, 0xF3, 0x5A, 0xE3, 0x58, 0x97, 0x64, 0x23, 0xE0, 0x44, 0x4F,
      0x30, 0x2A, 0xE0, 0x16, 0x8D, 0x4D, 0xD1, 0x1F, 0x7B, 0xC9, 0xC5, 0x74, 0x11, 0x23, 0x5D, 0x95,
      0xAC, 0x7F, 0x2E, 0x30, 0xBE, 0x2D, 0xE3, 0xB5, 0xC6, 0xA7, 0x69, 0x99, 0x1F, 0x18, 0x3C, 0x96,
      0x30, 0x45, 0x99, 0x71, 0x28, 0x08, 0x3C, 0xF7, 0x37, 0x4F, 0x6A, 0xD6, 0xAE, 0x9B, 0x57, 0xC1,
      0xCC, 0x2C, 0xE2, 0x0F, 0x7D, 0x66, 0xF4, 0x36, 0x0C, 0x3B, 0x35, 0xF6, 0x28, 0x03, 0xA3, 0x7A,
      0x83, 0x15, 0xF5, 0x61, 0x5E, 0xE8, 0xB7, 0xD8, 0x54, 0x33, 0x93, 0x63, 0x80, 0x40, 0x43, 0xD0,
      0x9C, 0xAA, 0x3A, 0x98, 0x50, 0xD2, 0xB8, 0x80, 0x5D, 0x16, 0xDF, 0x1C, 0x03, 0xAA, 0x87, 0xC7,
      0x63, 0xA5, 0x8D, 0xA9, 0x2E, 0xFB, 0x4F, 0x7C, 0x2B, 0xF5, 0xF9, 0x57, 0xB5, 0x90, 0xD8, 0x75,
      0xAB, 0x81, 0x4C, 0x1B, 0xAF, 0x6C, 0x0E, 0xCB, 0xB1, 0x4F, 0xD3, 0xE3, 0x69, 0x18, 0x8C, 0x7A,
      0x3C, 0xE1, 0x11, 0x86, 0x47, 0x78, 0x11, 0xA0, 0xD4, 0x28, 0xC3, 0x0D, 0xAC, 0xC6, 0x17, 0xA1,
      0x32, 0x9F, 0x8F, 0x42, 0xD9, 0x3F, 0x66, 0xD7, 0x2D, 0x87, 0x7B, 0x65, 0xD3, 0xD6, 0x90, 0x83,
      0xA2, 0x75, 0xE8, 0x98, 0x90, 0x9D, 0xDE, 0x81, 0x9E, 0x3D, 0xE4, 0xA9, 0xE4, 0x0B, 0xBC, 0xBA,
      0x96, 0xDD, 0x05, 0xCA, 0xAE, 0x78, 0x69, 0x24, 0xDB, 0xA7, 0x3E, 0x7A, 0x3B, 0xB4, 0xC4, 0x59,
      0x61, 0xD2, 0xF2, 0xE3, 0x99, 0x8F, 0x8F, 0x8A, 0x82, 0x33, 0xB8, 0x17, 0x5E, 0x7A, 0x32, 0x41,
      0x10, 0x8D, 0xC2, 0xEF, 0xAA, 0xF8, 0x5A, 0xF7, 0xD2, 0x1D, 0xC0, 0xCB, 0x5E, 0xB7, 0x8A, 0x78,
      0x49, 0x42, 0xEB, 0x19, 0x1B, 0x61, 0xA0, 0x77, 0x5A, 0xF4, 0x6D, 0x55, 0xDA, 0xEB, 0xCE, 0x4E,
      0xB8, 0xE6, 0x32, 0xD7, 0x51, 0x3F, 0x73, 0x14, 0x34, 0x6E, 0x38, 0xD6, 0xA7, 0x28, 0x87, 0x4A,
      0x59, 0xCA, 0x1C, 0x80, 0xB5, 0x8C, 0x9D, 0x94, 0xCB, 0xFE, 0x29, 0x41, 0xE5, 0x69, 0xCF, 0xFD,
      0x0B, 0xE1, 0x7C, 0xA1, 0x70, 0x12, 0x76, 0x43, 0xDA, 0xB9, 0xD4, 0xC3, 0x31, 0xBC, 0x94, 0x77,
      0x04, 0xB4, 0x1C, 0xAA, 0xEC, 0x6F, 0xA5, 0x12, 0x9D, 0x6F, 0x34, 0x65, 0x77, 0xA0, 0xD2, 0x6F,
      0x60, 0xC6, 0x47, 0xC2, 0xDF, 0x6A, 0x10, 0x53, 0xD4, 0xBA, 0xF3, 0xB7, 0x38, 0x79, 0x63, 0xC9,
      0xD4, 0x77, 0xBC, 0x54, 0xE9, 0x79, 0x42, 0xD5, 0xE0, 0x71, 0xE7, 0x9E, 0x5A, 0x62, 0x0C, 0xAD,
      0x01, 0x09, 0xA8, 0x9F, 0x8E, 0x67, 0x4A, 0x30, 0xA4, 0xB1, 0x08, 0xFC, 0x0A, 0xEA, 0x7A, 0x1D,
      0x4C, 0x4A, 0x21, 0xDE, 0x00, 0xD7, 0x41, 0x98, 0x6B, 0x38, 0x50, 0x3E, 0x1F, 0x25, 0x06, 0xE3,
      0x6C, 0xA3, 0x84, 0x5B, 0xC1, 0xED, 0x47, 0xDD, 0xB3, 0x83, 0x46, 0x72, 0x69, 0xCE, 0x72, 0x04,
      0x43, 0x67, 0x3A, 0x19, 0xD9, 0x0A, 0xF7, 0x43, 0x88, 0xCA, 0xC7, 0x31, 0x34, 0x21, 0x4E, 0x4C,
      0xE8, 0xD1, 0x70, 0x00, 0xBD, 0xB1, 0xB6, 0x76, 0x6F, 0x5B, 0xF9, 0xF5, 0xF4, 0x19, 0x20, 0x21,
      0xC1, 0xF0, 0x11, 0x36, 0x66, 0xAB, 0x15, 0xBD, 0x69, 0x92, 0xC6, 0x46, 0xDE, 0xDC, 0xE9, 0x9A,
      0xF8, 0x6C, 0x15, 0x29, 0x15, 0xA6, 0x35, 0x3E, 0x08, 0xE5, 0x90, 0x62, 0x9F, 0x86, 0x56, 0x83,
      0x5D, 0x60, 0x0D, 0x22, 0x77, 0xA7, 0x60, 0x9B, 0x26, 0x80, 0x16, 0x67, 0xB4, 0x46, 0xBF, 0x74,
      0x55, 0x92, 0x5B, 0x34, 0xFF, 0xC8, 0x28, 0x37, 0xFF, 0x14, 0x62, 0xFA, 0xBD, 0x03, 0x78, 0x04,
      0x1B, 0x65, 0x7F, 0x99, 0x05, 0x27, 0x14, 0xC0, 0x06, 0x4D, 0x4B, 0x0E, 0x98, 0x34, 0x6A, 0xB3,
      0xA1, 0xFE, 0xBC, 0x45, 0x7D, 0x52, 0x50, 0x0E, 0x2C, 0xFB, 0x91, 0xF5, 0xFB, 0x2A, 0xB7, 0xD9,
      0xB8, 0xB8, 0x54, 0x31, 0x81, 0x03, 0x93, 0x2C, 0xE1, 0x5C, 0xB9, 0x2C, 0xE8, 0x38, 0xC0, 0xA7,
      0x58, 0x18, 0x92, 0xC5, 0x8B, 0xEF, 0x1E, 0x33, 0xA4, 0xBA, 0x86, 0x2B, 0xE9, 0xEE, 0xB1, 0xDF,
      0xAB, 0xB8, 0x48, 0xDA, 0x84, 0xF1, 0x68, 0x05, 0x4E, 0xDE, 0xB5, 0x9E, 0x88, 0x12, 0xC9, 0x60,
      0x50, 0x58, 0x56, 0x9D, 0x26, 0x84, 0xB6, 0x1A, 0xE6, 0x4B, 0x40, 0x94, 0x6D, 0xE9, 0x1D, 0x0D,
      0x8A, 0xF9, 0x2A, 0xB5, 0xBC, 0xDB, 0x06, 0x8F, 0x13, 0x7E, 0x1D, 0x1C, 0xC7, 0xFD, 0x8F, 0x78,
      0x55, 0x3F, 0x16, 0x84, 0x48, 0xDA, 0x1A, 0xD1, 0x93, 0x95, 0x20, 0x58, 0x92, 0x39, 0xF6, 0x73,
      0x4E, 0x9E, 0x7B, 0x70, 0xFC, 0x1E, 0x5B, 0x20, 0x48, 0x96, 0xB3, 0x7C, 0x50, 0x09, 0x5B, 0x61,
      0x57, 0x97, 0x36, 0x04, 0x29, 0x2C, 0x32, 0x8E, 0x93, 0x4A, 0x45, 0xFA, 0xD5, 0x24, 0x14, 0x1A,
      0x28, 0x9C, 0x1A, 0x71, 0xAE, 0x85, 0x4B, 0x26, 0x79, 0x99, 0x65, 0xD0, 0x07, 0x98, 0xED, 0xC9,
      0x1B, 0x39, 0x57, 0x5B, 0xDB, 0x3D, 0x87, 0x69, 0x66, 0x9B, 0x03, 0x23, 0x54, 0x6B, 0x4B, 0xAC,
      0x6E, 0x7A, 0x25, 0x1E, 0xB6, 0x97, 0xCF, 0x1D, 0x07, 0xCB, 0x2A, 0x3E, 0x85, 0x02, 0x93, 0x31,
      0x12, 0x27, 0xF0, 0xA6, 0x6D, 0x0F, 0x9A, 0xB6, 0xFC, 0x22, 0x79, 0x6C, 0x77, 0xFD, 0x3F, 0xDC,
      0x19, 0xD0, 0xDF, 0xBD, 0x9E, 0xE0, 0xBE, 0x20, 0x13, 0xA3, 0x0A, 0x0B, 0x22, 0xF2, 0xC8, 0x6B,
      0xA1, 0xDD, 0x6C, 0x67, 0xB3, 0xFD, 0x71, 0xC2, 0x7B, 0x08, 0x3B, 0xF1, 0x37, 0xB5, 0x0F, 0x86,
      0xFA, 0xA9, 0xE9, 0x42, 0xD1, 0xE8, 0xCD, 0x05, 0xEF, 0xD3, 0xCC, 0x0B, 0x70, 0x51, 0x5B, 0x97,
      0x06, 0xC4, 0x9D, 0x88, 0x11, 0x3E, 0x99, 0x9F, 0xBE, 0x76, 0x8C, 0x8D, 0xE6, 0xBA, 0xDA, 0x48,
      0xD0, 0x04, 0x86, 0x4F, 0xA9, 0xC6, 0xB0, 0xED, 0xA4, 0x94, 0x46, 0x96, 0x27, 0xEE, 0x9F, 0xBD,
      0xDA, 0x9B, 0x3D, 0x11, 0x80, 0xD3, 0x7B, 0x5A, 0x48, 0x94, 0xE5, 0xCC, 0x48, 0xEA, 0xE4, 0x18,
      0xDF, 0x51, 0xB3, 0x02, 0x57, 0x20, 0x4B, 0x0F, 0x07, 0xFF, 0x41, 0x33, 0x0F, 0x6B, 0x2E, 0xAA,
      0xDE, 0xB2, 0x56, 0xF7, 0xFB, 0xA2, 0x48, 0x3C, 0x97, 0x1A, 0x64, 0x2C, 0xD1, 0x74, 0x40, 0xCF,
      0x65, 0x7F, 0x14, 0x08, 0x59, 0xC4, 0x35, 0xD3, 0x8A, 0x0F, 0xFD, 0x71, 0x7A, 0x71, 0xAC, 0x2D,
      0xF3, 0xFD, 0x7B, 0x12, 0x5F, 0xC0, 0xBC, 0x4E, 0x96, 0x12, 0xF2, 0x8E, 0x41, 0x84, 0x01, 0x0F,
      0xED, 0x7B, 0xC1, 0xB9, 0x39, 0x03, 0x35, 0x40, 0x49, 0x53, 0xB8, 0xB4, 0x6B, 0xA6, 0xE7, 0x0A,
      0x14, 0xBB, 0x29, 0x16, 0xEC, 0x2A, 0x3A, 0xD6, 0x09, 0xBB, 0x5C, 0x20, 0xF8, 0x09, 0xFD, 0x86,
      0xC4, 0x25, 0x09, 0x85, 0x0B, 0xD5, 0xD8, 0x51, 0xB1, 0xA2, 0xCB, 0xDC, 0xC4, 0xDD, 0x34, 0xDF,
      0xE2, 0x85, 0xA9, 0xCC, 0x4E, 0x66, 0x51, 0xFA, 0x9C, 0x4D, 0xB7, 0x1E, 0x3E, 0x49, 0x34, 0x9C,
      0x21, 0x66, 0x07, 0x44, 0xB2, 0xEC, 0x73, 0xC5, 0xBB, 0x27, 0x9A, 0xA5, 0x91, 0x5A, 0xB9, 0x9F,
      0xBE, 0xC8, 0xA2, 0x27, 0x89, 0x21, 0xA7, 0xEE, 0x50, 0x4D, 0x43, 0x50, 0x67, 0xC2, 0x3B, 0x7C,
      0x20, 0x0B, 0x95, 0x40, 0xBE, 0xEA, 0xB5, 0xD9, 0x82, 0xD7, 0x9C, 0xB5, 0x21, 0xAD, 0xA6, 0xF9,
      0x70, 0xEA, 0xCD, 0x04, 0xDD, 0x58, 0x91, 0x89, 0xB2, 0xA9, 0xF9, 0xB4, 0x12, 0xA2, 0x63, 0x89,
      0x40, 0x8E, 0xEA, 0x62, 0xEE, 0x0B, 0x01, 0x82, 0x6F, 0xB3, 0x5E, 0x5C, 0x36, 0xBE, 0xF4, 0x97,
      0x2C, 0xCF, 0x96, 0x7C, 0x0D, 0xAD, 0x62, 0xCE, 0xD4, 0x38, 0xC5, 0x32, 0x02, 0x24, 0x57, 0x27,
      0xE0, 0xCF, 0x56, 0xA5, 0x72, 0x6D, 0x90, 0x89, 0x2D, 0x4C, 0x34, 0xF6, 0x1D, 0xDD, 0x88, 0x5E,
      0x7A, 0x23, 0xE3, 0x6F, 0x42, 0xA3, 0xD9, 0x58, 0x7E, 0xE3, 0x52, 0x74, 0x57, 0x63, 0xB7, 0xB2,
      0xC1, 0xA3, 0x30, 0x92, 0x2E, 0xB0, 0x91, 0x01, 0x13, 0x36, 0x9A, 0x6A, 0xA7, 0x5B, 0x3C, 0x07,
      0xFB, 0xD8, 0x1E, 0x7E, 0xCF, 0x49, 0xAB, 0x3F, 0xCA, 0xCE, 0x74, 0x40, 0x54, 0x8D, 0x83, 0x61,
      0xCA, 0xC3, 0x76, 0x59, 0x5C, 0x9F, 0x49, 0x8A, 0x7D, 0xD1, 0x17, 0x9C, 0xA4, 0xDB, 0xB9, 0x16,
      0x4D, 0x64, 0xF7, 0xC7, 0xF0, 0x24, 0xE7, 0x00, 0xB6, 0x98, 0xD5, 0x8B, 0x54, 0xCB, 0x1E, 0x8B,
      0xA2, 0x2B, 0x7D, 0x50, 0x51, 0x8A, 0xF0, 0xEF, 0x47, 0xAE, 0xD0, 0xD6, 0xA0, 0x42, 0x8A, 0xD8,
      0x22, 0xAF, 0x02, 0x99, 0x4A, 0xE0, 0x8D, 0x8D, 0xBF, 0x11, 0x05, 0xA4, 0xC4, 0x9D, 0xB3, 0x89,
      0xB4, 0x4C, 0xC9, 0xF7, 0x4D, 0xC5, 0x2A, 0x35, 0x95, 0x30, 0xF3, 0x0E, 0x2F, 0xEC, 0x6E, 0x3A,
      0x8B, 0x05, 0x76, 0xED, 0x1A, 0x7C, 0xC0, 0xE7, 0x22, 0xCB, 0x59, 0xFF, 0xE6, 0x37, 0x78, 0x44,
      0xD4, 0xEE, 0xAD, 0xD7, 0xBD, 0x2E, 0xB7, 0x6A, 0xA4, 0x4E, 0x0E, 0xFB, 0xB0, 0xF5, 0xCB, 0x87,
      0xCF, 0xC3, 0x18, 0x64, 0x6F, 0x26, 0x5C, 0xD7, 0x16, 0xC8, 0x7F, 0xAB, 0x29, 0xC4, 0xBA, 0xFF,
      0xCD, 0x1C, 0xE4, 0x3A, 0xF2, 0xEB, 0x6A, 0x38, 0xE4, 0x65, 0xC2, 0x33, 0x03, 0x26, 0x7D, 0x9B,
      0x7E, 0x1D, 0x83, 0x00, 0x04, 0x2D, 0x2B, 0x5F, 0xFE, 0x39, 0x7E, 0xF1, 0x3C, 0xA2, 0x8C, 0x52,
      0x95, 0xBF, 0x46, 0x81, 0x24, 0x44, 0xF8, 0x10, 0xC3, 0x87, 0x8E, 0x64, 0x80, 0x17, 0x44, 0xE2,
      0x8B, 0xD1, 0x3C, 0x4A, 0xE2, 0x1F, 0xA9, 0xDE, 0x75, 0x13, 0xFC, 0x2E, 0x86, 0x0A, 0x5C, 0x5F,
      0x92, 0x2B, 0x92, 0x2D, 0x2A, 0xEC, 0xD2, 0x5C, 0x82, 0x6B, 0x76, 0x1E, 0xED, 0xE6, 0x56, 0xF7,
      0xD2, 0xDB, 0x96, 0x68, 0x02, 0x68, 0x99, 0x49, 0xEE, 0x88, 0x66, 0xCE, 0x5D, 0x08, 0x88, 0xA8,
      0xB9, 0x24, 0xB0, 0xB4, 0xDC, 0xA6, 0xC9, 0xD8, 0x68, 0x80, 0xBF, 0x6B, 0x32, 0x57, 0x7F, 0x91,
      0x0E, 0x37, 0x59, 0xF6, 0x76, 0xD2, 0xC5, 0x0B, 0xF3, 0x23, 0xBF, 0x38, 0x52, 0x0D, 0x97, 0x81,
      0x17, 0xBB, 0x9A, 0xC2, 0x55, 0x44, 0x72, 0xCE, 0xEE, 0xFA, 0xBB, 0xDA, 0xAB, 0xB0, 0x09, 0xEA,
      0xDB, 0xBF, 0x45, 0x95, 0x07, 0x88, 0xD4, 0xD2, 0x0D, 0x2E, 0x15, 0x31, 0xBE, 0x6A, 0xF4, 0xEF,
      0xA3, 0x7D, 0x22, 0x81, 0x3B, 0xA8, 0x83, 0xF9, 0x42, 0xE5, 0x9B, 0x79, 0x01, 0xF5, 0xDC, 0x19,
      0x64, 0xEB, 0x47, 0x67, 0xAF, 0xA4, 0xB2, 0xAE, 0xF8, 0xF9, 0x4D, 0x63, 0xAD, 0x54, 0xE1, 0x02,
      0x56, 0x89, 0x4E, 0x0A, 0xE8, 0x3E, 0x03, 0xFA, 0x33, 0x61, 0x58, 0x80, 0x64, 0x55, 0x3C, 0x8C,
      0x2A, 0x3D, 0x70, 0x3E, 0xE5, 0xC1, 0xA7, 0x75, 0xFC, 0x91, 0x75, 0x05, 0x8C, 0x6E, 0x3A, 0x74,
      0x10, 0xF1, 0x30, 0xE6, 0xF6, 0xF7, 0xAB, 0x6C, 0xB1, 0x2B, 0xF0, 0x2F, 0x13, 0x6E, 0xD4, 0x0A,
      0x64, 0x29, 0xF8, 0xBB, 0xA1, 0xAA, 0x55, 0x09, 0x93, 0x47, 0x2F, 0x8C, 0x7D, 0xF1, 0x2D, 0x81,
      0xFE, 0x78, 0xFC, 0xEE, 0x3F, 0xDD, 0x49, 0xDC, 0x0D, 0x52, 0x5C, 0x3B, 0x8F, 0x08, 0xB0, 0xDF,
      0xDC, 0xFC, 0xBE, 0x5F, 0x3B, 0x53, 0x82, 0xE2, 0xBD, 0x6D, 0x5D, 0xF2, 0x8D, 0xFB, 0x5A, 0x1D,
      0x15, 0x1B, 0xE4, 0xB1, 0x56, 0x06, 0x1A, 0xF8, 0x9C, 0xB9, 0x44, 0xF2, 0xD9, 0xF4, 0xB2, 0x00,
      0x9A, 0x94, 0x62, 0x33, 0x7E, 0x0A, 0xB0, 0x0C, 0xD5, 0xEF, 0x8E, 0xA8, 0xEB, 0x47, 0xE9, 0x20,
      0xA8, 0x68, 0xEF, 0x53, 0xA0, 0x59, 0x1B, 0xA0, 0x2B, 0xC5, 0x2B, 0x30, 0xB6, 0x5D, 0xAB, 0xB4,
      0x5F, 0x86, 0x71, 0x95, 0x89, 0xFC, 0xC7, 0x9A, 0xC3, 0xED, 0x82, 0xA0, 0x3D, 0x73, 0xC1, 0x36,
      0x01, 0x5F, 0x9E, 0xD7, 0xE3, 0xC0, 0x62, 0x74, 0xED, 0x13, 0xB6, 0xD6, 0xD5, 0x37, 0x17, 0xE1,
      0x39, 0xC7, 0x6D, 0x31, 0xBA, 0x02, 0xAF, 0xD5, 0xCC, 0x51, 0xA8, 0x09, 0x3F, 0x00, 0x4A, 0x8F,
      0xA6, 0x23, 0x13, 0x88, 0xCD, 0x1F, 0x38, 0x60, 0xE7, 0xE7, 0x53, 0xDC, 0x65, 0xE8, 0x53, 0x26,
      0xBB, 0xE1, 0x1F, 0x65, 0xF0, 0xAD, 0x53, 0x3B, 0xBD, 0xAD, 0x97, 0xAC, 0xD1, 0xA5, 0xD0, 0xE9,
      0xEB, 0xD6, 0x11, 0xD5, 0x00, 0xDF, 0x72, 0x9C, 0xCC, 0x7F, 0xD3, 0x67, 0xA1, 0x3A, 0x79, 0xE1,
      0x85, 0x70, 0xE5, 0x43, 0xC9, 0x28, 0xA5, 0x2F, 0x9E, 0xE7, 0xFE, 0xEB, 0x14, 0x10, 0x23, 0xC7,
      0xAF, 0xB1, 0x24, 0xC8, 0xE5, 0x44, 0x6F, 0x4C, 0x04, 0xEC, 0xC1, 0xF0, 0x23, 0x1C, 0xF6, 0xAC,
      0xAF, 0xC4, 0x0E, 0x2D, 0x59, 0x39, 0x47, 0xA9, 0x9E, 0xD9, 0x2E, 0x79, 0xBA, 0xFE, 0x4F, 0x12,
      0x7F, 0x63, 0x7F, 0x62, 0x67, 0x7C, 0x52, 0x2F, 0xCA, 0x8B, 0x6B, 0x4F, 0x10, 0x8F, 0x14, 0xC6,
      0xA1, 0x9B, 0x45, 0x15, 0x90, 0x63, 0x22, 0x5D, 0x68, 0x4B, 0xCF, 0xFA, 0x6A, 0x06, 0xF0, 0x26,
      0xAC, 0x6C, 0x3A, 0x89, 0x25, 0xF3, 0x5E, 0x90, 0x06, 0x93, 0xB6, 0x35, 0x0D, 0x85, 0x60, 0x98,
      0xBC, 0x6E, 0xF2, 0xA5, 0x17, 0x29, 0x70, 0xD6, 0xFF, 0x0C, 0xD0, 0xC0, 0x35, 0xD7, 0x4A, 0xFD]"

definition Tab1_Comp :: "u8 list" where
  "Tab1_Comp =
     [0x70, 0x49, 0xD7, 0xE3, 0xDF, 0x3C, 0x96, 0x03, 0x2A, 0x70, 0x82, 0xA6, 0x5F, 0xDE, 0xCC, 0x0C,
      0x2A, 0x62, 0x2A, 0x3E, 0xA4, 0x0C, 0x0A, 0xAB, 0x4F, 0x06, 0x5D, 0xD4, 0x14, 0xAA, 0xE1, 0xC3,
      0x96, 0xDA, 0x16, 0x36, 0x45, 0x3C, 0x63, 0xC2, 0x97, 0x71, 0x87, 0xAB, 0xFA, 0xB2, 0xFC, 0xD6,
      0x8F, 0x85, 0xC9, 0x04, 0x56, 0xBA, 0xEB, 0x3F, 0x42, 0x9F, 0xCB, 0x66, 0x55, 0x45, 0x1C, 0x96,
      0xFF, 0x4D, 0x35, 0xDF, 0x88, 0x0E, 0xDC, 0xC8, 0x4E, 0x3F, 0x81, 0x74, 0xD8, 0x77, 0x4C, 0x8E,
      0x00, 0xC0, 0x64, 0x83, 0x4E, 0xBB, 0xF0, 0xB1]"

end
