(* ===== verification/Viaccess.thy ===== *)
theory Viaccess
  imports Irdeto Viaccess_Tables
begin

text \<open>
  The Viaccess engine of the emulator, \<open>src/CCshare/cccam3_emu_viaccess.c\<close>, for the versions 1, 2.6 and 3 with both
  over-encryptions. As in \<open>Buffers\<close>, \<open>None\<close> is a run that uses bytes outside the section or bytes that were never
  set. The section is the list of the bytes that were received, so its length is \<open>ecm_len\<close>. Shown here: an ECM of
  version 1 opens, the versions 2.6 and 3 never decrypt as the store cannot hold their table key, the over-encryption is
  undone by its second phase, and every section is handled inside its buffer.
\<close>

subsection \<open>Keys\<close>

text \<open>The key file types F, I and T, then those of the provider 030B00 for D00040.\<close>

definition via_get_key :: "u32 \<Rightarrow> u32 \<Rightarrow> char \<Rightarrow> nat \<Rightarrow> nat \<Rightarrow> emu \<Rightarrow> u8 list option" where
  "via_get_key today ident key_name key_index key_length st =
     (let buf = (\<lambda>(ty, ident). cccam_emu_find_key today ty ident (Some (key_name # c_hex key_index)) 0 key_length st);
          types = (\<lambda>ident. map (\<lambda>ty. (ty, ident)) [CHR ''F'', CHR ''I'', CHR ''T'']) in
      map_option buf (find (\<lambda>x. length (buf x) \<ge> key_length)
        (types ident @ (if ident = 0xD00040 then types 0x030B00 else []))))"

subsection \<open>Viaccess 1\<close>

text \<open>One pass through the body of the loops of \<open>via1_mod\<close>; all indices are below eight.\<close>

definition via1_mod_step :: "u8 list \<Rightarrow> nat \<times> nat \<Rightarrow> u8 list \<Rightarrow> u8 list" where
  "via1_mod_step key2 = (\<lambda>(db, kb) data.
     (let a0 = kb XOR db; pos = 7;
          (a0, pos) = (if a0 AND 4 \<noteq> 0 then (a0 XOR 7, pos XOR 7) else (a0, pos));
          a0 = (a0 XOR (kb AND 3)) + (kb AND 3) in
      if a0 AND 4 = 0 then data[db := data ! db XOR (key2 ! kb XOR data ! (kb XOR pos) * key2 ! (kb XOR 4))] else data))"

definition via1_mod_order :: "(nat \<times> nat) list" where
  "via1_mod_order =
     concat (map (\<lambda>db. map (Pair db) (rev [4..<8])) (rev [0..<8])) @ concat (map (\<lambda>db. map (Pair db) [0..<4]) [0..<8])"

definition via1_mod :: "u8 list \<Rightarrow> u8 list \<Rightarrow> u8 list" where
  "via1_mod key2 data = fold (via1_mod_step key2) via1_mod_order data"

definition via1_decode :: "u8 list \<Rightarrow> u8 list \<Rightarrow> u8 list" where
  "via1_decode data key = via1_mod (drop 8 key) (cccam_emu_nc_des key NC_DES_ECM_CRYPT (via1_mod (drop 8 key) data))"

definition via1_hash :: "u8 list \<Rightarrow> u8 list \<Rightarrow> u8 list" where
  "via1_hash data key = via1_mod (drop 8 key) (cccam_emu_nc_des key NC_DES_ECM_HASH (via1_mod (drop 8 key) data))"

text \<open>The hash buffer and the position in it.\<close>

type_synonym via1_hash_state = "u8 list \<times> nat"

definition via1_do_hash :: "u8 list \<Rightarrow> u8 \<Rightarrow> via1_hash_state \<Rightarrow> via1_hash_state" where
  "via1_do_hash hashkey data = (\<lambda>(hashbuffer, pH).
     (let hashbuffer = hashbuffer[pH := hashbuffer ! pH XOR data] in
      if pH + 1 = 8 then (via1_hash hashbuffer hashkey, 0) else (hashbuffer, pH + 1)))"

definition via1_hash_bytes :: "u8 list \<Rightarrow> u8 list \<Rightarrow> via1_hash_state \<Rightarrow> via1_hash_state" where
  "via1_hash_bytes hashkey bytes h = fold (via1_do_hash hashkey) bytes h"

text \<open>The masking of the words in the ECM of an odd key.\<close>

fun via1_unmask :: "u8 \<Rightarrow> u8 list \<Rightarrow> via1_hash_state \<Rightarrow> u8 list \<Rightarrow> u8 list \<times> via1_hash_state" where
  "via1_unmask k hashkey h [] = ([], h)"
| "via1_unmask k hashkey h (tmp # ts) =
     (case via1_unmask k hashkey (via1_do_hash hashkey tmp h) ts of
        (os, h') \<Rightarrow> (((k AND fst h ! snd h) XOR tmp) # os, h'))"

text \<open>The scan for the words and the signature: the offset of the words, the output, the signature and what was found.\<close>

type_synonym via1_found = "nat \<times> u8 list \<times> u8 list \<times> u8"

definition via1_element :: "u8 list \<Rightarrow> nat \<Rightarrow> via1_found \<Rightarrow> via1_found option" where
  "via1_element ecm msg_pos = (\<lambda>(encStart, dw, signature, foundData). do {
     tag \<leftarrow> rd ecm (9 + msg_pos);
     if tag = 0xEA \<and> 9 + msg_pos + 2 + 15 < length ecm then do {
       b \<leftarrow> rd_sub ecm (9 + msg_pos + 2) 16;
       Some (msg_pos + 2, copy_sub 0 b dw, signature, foundData OR 1)
     }
     else if tag = 0xF0 \<and> 9 + msg_pos + 2 + 7 < length ecm then do {
       b \<leftarrow> rd_sub ecm (9 + msg_pos + 2) 8;
       Some (encStart, dw, b, foundData OR 2)
     }
     else Some (encStart, dw, signature, foundData)
   })"

function via1_scan :: "u8 list \<Rightarrow> nat \<Rightarrow> via1_found \<Rightarrow> via1_found option" where
  "via1_scan ecm msg_pos s =
     (if length ecm \<le> 9 + msg_pos + 2 then Some s
      else (case via1_element ecm msg_pos s of
          None \<Rightarrow> None
        | Some s' \<Rightarrow> (case rd ecm (9 + msg_pos + 1) of None \<Rightarrow> None | Some l \<Rightarrow> via1_scan ecm (msg_pos + unat l + 2) s')))"
  by auto
termination by (relation "measure (\<lambda>(ecm, msg_pos, s). length ecm - msg_pos)") auto

declare via1_scan.simps [simp del]

text \<open>The hash of an element 0x9F at the front, filled up to a whole block, and where the rest begins.\<close>

definition via1_hash_front :: "u8 list \<Rightarrow> u8 list \<Rightarrow> (via1_hash_state \<times> nat) option" where
  "via1_hash_front ecm hashkey = do {
     d0 \<leftarrow> rd ecm 9;
     d1 \<leftarrow> rd ecm 10;
     if d0 = 0x9F \<and> 10 + unat d1 \<le> length ecm then do {
       b \<leftarrow> rd_sub ecm 9 (unat d1 + 2);
       let h = via1_hash_bytes hashkey b (replicate 8 0, 0);
       Some (via1_hash_bytes hashkey (replicate ((8 - snd h) mod 8) 0) h, unat d1 + 2)
     }
     else Some ((replicate 8 0, 0), 0)
   }"

definition via1_prepared_key :: "u8 list \<Rightarrow> u8 list" where
  "via1_prepared_key k = [k ! 2, k ! 3, k ! 4, k ! 5, k ! 6, k ! 0, k ! 1, k ! 7] @ drop 8 k"

text \<open>
  A key whose byte 7 is 0 fills only half of \<open>prepared_key\<close>, all of which \<open>via1_decode\<close> uses: that run is not defined.
  The result and the output.
\<close>

definition via1_decrypt_ex :: "u32 \<Rightarrow> emu \<Rightarrow> u8 list \<Rightarrow> u32 \<Rightarrow> u8 \<Rightarrow> u8 list \<Rightarrow> (int \<times> u8 list) option" where
  "via1_decrypt_ex today st ecm ident desKeyIndex dw =
     (if ident = 0 then Some (EMU_CORRUPT_DATA, dw)
      else case via_get_key today ident (CHR ''0'') (unat desKeyIndex) 8 st of
        None \<Rightarrow> Some (EMU_KEY_NOT_FOUND, dw)
      | Some key8 \<Rightarrow>
          if length ecm < 11 then Some (EMU_NOT_SUPPORTED, dw)
          else do {
            let work_key = key8 @ replicate 8 0;
            (encStart, dw, signature, foundData) \<leftarrow> via1_scan ecm 0 (0, dw, replicate 8 0, 0);
            if foundData \<noteq> 3 then Some (EMU_NOT_SUPPORTED, dw)
            else do {
              (h, i) \<leftarrow> via1_hash_front ecm work_key;
              if work_key ! 7 = 0 then None
              else do {
                (words, h) \<leftarrow>
                  (if work_key ! 7 AND 1 \<noteq> 0 then do {
                     b \<leftarrow> rd_sub ecm (9 + i) (encStart - i);
                     let k = (if work_key ! 7 AND 0xF0 = 0 then 0x5A else 0xA5);
                     Some (via1_unmask k work_key (via1_hash_bytes work_key b h) (take 16 dw))
                   }
                   else do {
                     b \<leftarrow> rd_sub ecm (9 + i) (encStart + 16 - i);
                     Some (take 16 dw, via1_hash_bytes work_key b h)
                   });
                let words = via1_decode (take 8 words) (via1_prepared_key work_key) @ via1_decode (drop 8 words) (via1_prepared_key work_key);
                Some (if signature = via1_hash (fst h) work_key then EMU_OK else EMU_CHECKSUM_ERROR, copy_sub 0 words dw)
              }
            }
          })"

subsection \<open>Viaccess 2.6\<close>

text \<open>\<open>None\<close> also for a key P1 with a byte that is no position; the key T1 has 300 bytes.\<close>

definition via26_permute :: "u8 list \<Rightarrow> u8 list \<Rightarrow> u8 list option" where
  "via26_permute P1Key Tmp =
     (if list_all (\<lambda>p. unat p < 8) P1Key then Some (map (\<lambda>p. Tmp ! unat p) P1Key) else None)"

definition via26_unpermute :: "u8 list \<Rightarrow> u8 list \<Rightarrow> u8 list \<Rightarrow> u8 list option" where
  "via26_unpermute P1Key indata Tmp =
     (if list_all (\<lambda>p. unat p < 8) P1Key then Some (fold (\<lambda>i Tmp. Tmp[unat (P1Key ! i) := indata ! i]) [0..<8] Tmp) else None)"

definition via26_cipher :: "u8 list \<Rightarrow> u8 list \<Rightarrow> u8 list \<Rightarrow> u8 list \<Rightarrow> u8 list \<Rightarrow> u8 list \<Rightarrow> u8 list option" where
  "via26_cipher T1Key P1Key KeyDes1 KeyDes2 XorKey indata = do {
     let Tmp = map (\<lambda>b. T1Key ! unat b) indata;
     d \<leftarrow> via26_permute P1Key Tmp;
     let ks1 = cccam_emu_des_set_key KeyDes1;
     let ka = cccam_emu_des_set_key KeyDes2;
     let kb = cccam_emu_des_set_key (drop 8 KeyDes2);
     let d = xor_bytes (cccam_emu_des ks1 True d) XorKey;
     let d = cccam_emu_des ka False (cccam_emu_des kb True (cccam_emu_des ka False d));
     let d = cccam_emu_des ks1 False (xor_bytes d XorKey);
     Tmp \<leftarrow> via26_unpermute P1Key d Tmp;
     Some (map (\<lambda>b. T1Key ! unat b) Tmp)
   }"

definition via26_process_dw :: "u32 \<Rightarrow> emu \<Rightarrow> u32 \<Rightarrow> u8 \<Rightarrow> u8 list \<Rightarrow> (nat \<times> u8 list) option" where
  "via26_process_dw today st ident desKeyIndex indata =
     (let key = (\<lambda>c i n. via_get_key today ident c i n st) in
      case (key (CHR ''T'') 1 300, key (CHR ''P'') 1 8, key (CHR ''D'') 1 16, key (CHR ''0'') (unat desKeyIndex) 16, key (CHR ''X'') 1 8) of
        (Some T1Key, Some P1Key, Some KeyDes1, Some KeyDes2, Some XorKey) \<Rightarrow>
          map_option (Pair 0) (via26_cipher T1Key P1Key KeyDes1 KeyDes2 XorKey indata)
      | _ \<Rightarrow> Some (2, indata))"

text \<open>The last byte of each half becomes the sum of the three before it.\<close>

definition via26_checksums :: "u8 list \<Rightarrow> u8 list" where
  "via26_checksums w = fold (\<lambda>j w. w[j := w ! (j - 3) + w ! (j - 2) + w ! (j - 1)]) [3, 7] w"

text \<open>The result of \<open>via26_process_dw\<close> is not looked at.\<close>

definition via26_decrypt :: "u32 \<Rightarrow> emu \<Rightarrow> u8 list \<Rightarrow> u32 \<Rightarrow> u8 \<Rightarrow> u8 list \<Rightarrow> (int \<times> u8 list) option" where
  "via26_decrypt today st source ident desKeyIndex dw =
     (if ident = 0 then Some (EMU_CORRUPT_DATA, dw)
      else case via_get_key today ident (CHR ''C'') 1 8 st of
        None \<Rightarrow> Some (EMU_KEY_NOT_FOUND, dw)
      | Some C1 \<Rightarrow> do {
          (_, w0) \<leftarrow> via26_process_dw today st ident desKeyIndex (take 8 source);
          (_, w1) \<leftarrow> via26_process_dw today st ident desKeyIndex (take 8 (drop 8 source));
          let words = via26_checksums (xor_bytes w0 C1) @ via26_checksums (xor_bytes w1 (take 8 source));
          Some (EMU_OK, copy_sub 0 words dw)
        })"

subsection \<open>Viaccess 3\<close>

text \<open>
  The core sets the upper four bytes from the lower ones, for two providers; for all others the upper bytes of the
  caller stay unset, and using them is not defined.
\<close>

definition via3_upper :: "u32 \<Rightarrow> u8 list \<Rightarrow> u32 list option" where
  "via3_upper ident data =
     (let d0 = ucast (data ! 0) :: u32; d1 = ucast (data ! 1); d2 = ucast (data ! 2); d3 = ucast (data ! 3) in
      if ident = 0x032820 then
        (let e4 = ((((d0 XOR 0xBD) + d0) - ((d3 XOR 0xEB) + d3)) XOR d2) OR push_bit 2 (0x39 * d1);
             lR3 = ((((d0 + 6) XOR d0) OR push_bit 1 d2) XOR 0x65) + d0;
             lR7 = ((d3 + 0x29) XOR d3) * ((d1 XOR 0xED) + d1);
             lR3' = ((d0 + 0xAD) XOR d0) + (((d2 XOR 0x33) + d2) AND 0x0A);
             lR2 = d3 * d3;
             lR7' = (lR2 OR 1) + d1 in
         Some [e4 + d2, lR7 + lR3, (lR3' OR lR7') + d1, (((d1 AND 0x07) - d2) AND (d0 OR lR2 OR 1)) + d3])
      else if ident = 0x030B00 then
        (let lR6 = ((d3 + 0x6E) XOR d3) * push_bit 1 d2 + 0x17;
             lR3 = (d1 + 0x77) XOR d1;
             lR4 = (d0 + 0xD7) XOR d0;
             lR4' = ((((d3 + 0x71) XOR d3) XOR 0x90) * ((d1 + 0x1B) XOR d1)) XOR d0;
             lR3' = d3 * d3 OR 1;
             lR4'' = (((d2 XOR 0x35) + d2) OR lR3') + d2;
             lR6' = d1 XOR (d0 + 0x4A);
             lR3'' = (0xFE - d3) XOR (d0 * push_bit 1 d2 OR d1) in
         Some [((lR4 AND lR3) OR lR6) + d0, (lR4' XOR push_bit 1 d2) + d1, lR6' + lR4'', lR3'' + d3])
      else None)"

definition via3_core :: "nat \<Rightarrow> u32 \<Rightarrow> u8 list \<Rightarrow> u8 list \<Rightarrow> u8 list \<Rightarrow> u8 list option" where
  "via3_core Off ident XorKey T1Key data =
     (let data = map (\<lambda>i. data ! i XOR XorKey ! ((Off + i) mod 8)) [0..<4] in
      map_option (\<lambda>upper. data @ map (\<lambda>w. T1Key ! unat (ucast w :: u8)) upper) (via3_upper ident data))"

definition via3_fct1 :: "u32 \<Rightarrow> u8 list \<Rightarrow> u8 list \<Rightarrow> u8 list \<Rightarrow> u8 list option" where
  "via3_fct1 ident XorKey T1Key data =
     map_option (\<lambda>d. if ident = 0x032820 then d[4 := d ! 7, 7 := d ! 4] else d[5 := d ! 7, 7 := d ! 5])
       (via3_core 0 ident XorKey T1Key data)"

definition via3_fct2 :: "u32 \<Rightarrow> u8 list \<Rightarrow> u8 list \<Rightarrow> u8 list \<Rightarrow> u8 list option" where
  "via3_fct2 ident XorKey T1Key data =
     map_option (\<lambda>d. if ident = 0x032820 then d[4 := d ! 7, 7 := d ! 5, 5 := d ! 6, 6 := d ! 4] else d[6 := d ! 7, 7 := d ! 6])
       (via3_core 4 ident XorKey T1Key data)"

text \<open>The two halves of a network around the triple DES.\<close>

definition via3_half ::
  "(u8 list \<Rightarrow> u8 list option) \<Rightarrow> (u8 list \<Rightarrow> u8 list option) \<Rightarrow> u8 list \<Rightarrow> u8 list \<Rightarrow> u8 list option" where
  "via3_half f g xk data = do {
     a \<leftarrow> f (drop 4 data);
     b \<leftarrow> g (xor_bytes (take 4 data) (drop 4 a));
     Some (xor_bytes (drop 4 data) (drop 4 b) @ xor_bytes (take 4 b) xk)
   }"

definition via3_cipher :: "u32 \<Rightarrow> u8 list \<Rightarrow> u8 list \<Rightarrow> u8 list \<Rightarrow> u8 list \<Rightarrow> u8 list option" where
  "via3_cipher ident T1Key KeyDes XorKey data = do {
     d \<leftarrow> via3_half (via3_fct1 ident XorKey T1Key) (via3_fct2 ident XorKey T1Key) (drop 4 XorKey) data;
     let ks1 = cccam_emu_des_set_key KeyDes;
     let ks2 = cccam_emu_des_set_key (drop 8 KeyDes);
     let d = cccam_emu_des ks1 False (cccam_emu_des ks2 True (cccam_emu_des ks1 False d));
     via3_half (via3_fct2 ident XorKey T1Key) (via3_fct1 ident XorKey T1Key) (take 4 XorKey) d
   }"

definition via3_process_dw :: "u32 \<Rightarrow> emu \<Rightarrow> u32 \<Rightarrow> u8 \<Rightarrow> u8 list \<Rightarrow> (nat \<times> u8 list) option" where
  "via3_process_dw today st ident desKeyIndex data =
     (let key = (\<lambda>c i n. via_get_key today ident c i n st) in
      case (key (CHR ''T'') 1 300, key (CHR ''P'') 1 8, key (CHR ''0'') (unat desKeyIndex) 16, key (CHR ''X'') 1 8) of
        (Some T1Key, Some P1Key, Some KeyDes, Some XorKey) \<Rightarrow> map_option (Pair 0) (via3_cipher ident T1Key KeyDes XorKey data)
      | _ \<Rightarrow> Some (2, data))"

definition via3_final_mix :: "u8 list \<Rightarrow> u8 list" where
  "via3_final_mix dw = take 4 (drop 4 dw) @ take 4 dw @ take 4 (drop 12 dw) @ take 4 (drop 8 dw) @ drop 16 dw"

subsection \<open>Over-encryption, nanos D2 0F and 11\<close>

definition cccam_emu_via_lookup :: "nat \<Rightarrow> u8" where
  "cccam_emu_via_lookup index = (if index \<ge> 2560 then 0 else via_lookup_table ! index)"

text \<open>The values stay below \<open>2^31\<close>, so the words are those of the signed type.\<close>

definition hdSurEncBasicCrypt_D2_0F_11 :: "u32 \<Rightarrow> u32 \<Rightarrow> u32" where
  "hdSurEncBasicCrypt_D2_0F_11 Value XorVal =
     (let i = push_bit 13 Value - Value + 0x1B59; i = i * Value + 0x07CF in i XOR XorVal)"

definition hdSurEncCryptLookup_D2_0F_11 :: "u8 \<Rightarrow> nat \<Rightarrow> u8" where
  "hdSurEncCryptLookup_D2_0F_11 Value AddrInd =
     (let b = Value XOR ucast (hdSurEncBasicCrypt_D2_0F_11 (ucast Value) (ucast (cccam_emu_via_lookup ((AddrInd * 2 + 0) * 256 + unat Value)))) in
      Value XOR ucast (hdSurEncBasicCrypt_D2_0F_11 (ucast b) (ucast (cccam_emu_via_lookup ((AddrInd * 2 + 1) * 256 + unat b)))))"

definition via_lookup2 :: "int list" where
  "via_lookup2 = [1, -1, -1, 1, -1, 2, 1, -2, -1, 1, 2, -2, 1, -2, -2, 4]"

definition via_CAddrIndex :: "nat list" where
  "via_CAddrIndex = [0, 1, 3, 4]"

text \<open>The columns of the square turn up by their number.\<close>

definition hdSurEncPhase1_round :: "nat \<Rightarrow> u8 list \<Rightarrow> u8 list" where
  "hdSurEncPhase1_round i CWs =
     (let CWs = map (\<lambda>j. CWs ! j XOR ucast (hdSurEncBasicCrypt_D2_0F_11 (of_nat j) (ucast (via_lookup1 ! (16 * i + j))))) [0..<16];
          Buffer = concat (map (\<lambda>i2. map (\<lambda>i1.
              ucast (\<Sum>i3\<leftarrow>[0..<4]. ucast (CWs ! (i2 * 4 + i3)) * of_int (via_lookup2 ! (i3 * 4 + i1)) :: u32)) [0..<4]) [0..<4]);
          turned = map (\<lambda>j. Buffer ! ((j div 4 + j mod 4) mod 4 * 4 + j mod 4)) [0..<16] in
      map (\<lambda>i1. hdSurEncCryptLookup_D2_0F_11 (turned ! i1) (via_CAddrIndex ! (i1 mod 4))) [0..<16])"

definition hdSurEncPhase1_D2_0F_11 :: "u8 list \<Rightarrow> u8 list" where
  "hdSurEncPhase1_D2_0F_11 CWs = fold hdSurEncPhase1_round (rev [0..<4]) CWs"

definition hdSurEncPhase2_mask :: "u8 list \<Rightarrow> nat \<Rightarrow> u8 list" where
  "hdSurEncPhase2_mask CWb AddrInd =
     (let Buffer = map (\<lambda>b. hdSurEncCryptLookup_D2_0F_11 b AddrInd) CWb;
          tmp = Buffer ! 7;
          Buffer = fold (\<lambda>i Buffer. Buffer[i := drop_bit 4 (Buffer ! 1) OR push_bit 4 (Buffer ! (i - 1))]) (rev [1..<8]) Buffer in
      Buffer[0 := drop_bit 4 (Buffer ! 0) OR push_bit 4 tmp])"

definition hdSurEncPhase2_D2_0F_11_sub :: "nat \<Rightarrow> u8 list \<Rightarrow> u8 list \<Rightarrow> u8 list" where
  "hdSurEncPhase2_D2_0F_11_sub AddrInd CWa CWb = xor_bytes CWa (hdSurEncPhase2_mask CWb AddrInd)"

definition hdSurEncPhase2_D2_0F_11 :: "u8 list \<Rightarrow> u8 list" where
  "hdSurEncPhase2_D2_0F_11 CWs =
     (let a = take 8 CWs; b = drop 8 CWs;
          a = hdSurEncPhase2_D2_0F_11_sub 0 a b;
          b = hdSurEncPhase2_D2_0F_11_sub 1 b a;
          a = hdSurEncPhase2_D2_0F_11_sub 2 a b;
          b = hdSurEncPhase2_D2_0F_11_sub 3 b a;
          a = hdSurEncPhase2_D2_0F_11_sub 4 a b in
      a @ b)"

subsection \<open>Over-encryption, nanos D2 13 and 15\<close>

definition CommonMain_1_D2_13_15 :: "u8 list \<Rightarrow> u8 list" where
  "CommonMain_1_D2_13_15 datain = map (\<lambda>i1. \<Sum>i2\<leftarrow>[0..<8]. Tab3 ! (i1 * 8 + i2) * datain ! i2) [0..<11]"

text \<open>Eleven bits from bit \<open>num\<close> on.\<close>

definition CommonMain_2_D2_13_15 :: "u8 list \<Rightarrow> nat \<Rightarrow> u32" where
  "CommonMain_2_D2_13_15 data num =
     (let bb1 = num div 8;
          bb2 = push_bit 24 (ucast (data ! bb1)) + push_bit 16 (ucast (data ! (bb1 + 1))) + push_bit 8 (ucast (data ! (bb1 + 2))) in
      drop_bit (21 - num mod 8) bb2 AND 0x7FF)"

text \<open>Numbers with the highest byte first: twice the first plus the second, and the sum.\<close>

definition CommonMain_3_step :: "nat \<Rightarrow> u8 list \<times> u8 list \<times> u32 \<times> u32 \<Rightarrow> u8 list \<times> u8 list \<times> u32 \<times> u32" where
  "CommonMain_3_step i = (\<lambda>(data0, data1, bb1, bb2).
     (let bb1 = bb1 + (ucast (data0 ! i) * 2 + ucast (data1 ! i)); bb2 = bb2 + (ucast (data0 ! i) + ucast (data1 ! i)) in
      (data0[i := ucast bb1], data1[i := ucast bb2], drop_bit 8 bb1, drop_bit 8 bb2)))"

definition CommonMain_3_D2_13_15 :: "u8 list \<times> u8 list \<Rightarrow> u8 list \<times> u8 list" where
  "CommonMain_3_D2_13_15 = (\<lambda>(data0, data1).
     (case fold CommonMain_3_step (rev [0..<length data0]) (data0, data1, 0, 0) of (data0, data1, _) \<Rightarrow> (data0, data1)))"

definition CommonMain_pairs :: "nat \<Rightarrow> u8 list \<Rightarrow> u8 list" where
  "CommonMain_pairs i1 dataout =
     concat (map (\<lambda>j. case CommonMain_3_D2_13_15 (take i1 (drop (2 * i1 * j) dataout), take i1 (drop (2 * i1 * j + i1) dataout)) of (a, b) \<Rightarrow> a @ b)
       [0..<8 div (2 * i1)])"

definition CommonMain_D2_13_15 :: "u8 list \<Rightarrow> nat \<Rightarrow> u8 list" where
  "CommonMain_D2_13_15 datain loopval =
     (let buff11 = map (\<lambda>i1. CommonMain_1_D2_13_15 datain ! i1 XOR Tab1_Comp ! (loopval * 11 + i1)) [0..<11] @ [0];
          buff8 = map (\<lambda>i1. CommonMain_2_D2_13_15 buff11 (i1 * 11)) [0..<8];
          dataout = map (\<lambda>w. Tab0_Comp ! unat w) buff8 in
      fold CommonMain_pairs [1, 2, 4] dataout)"

definition Common_D2_13_15 :: "nat \<Rightarrow> u8 list \<Rightarrow> u8 list \<Rightarrow> u8 list" where
  "Common_D2_13_15 loopval cw0 cw1 = xor_bytes cw0 (CommonMain_D2_13_15 cw1 loopval)"

definition ExchangeCWs :: "u8 list \<times> u8 list \<Rightarrow> u8 list \<times> u8 list" where
  "ExchangeCWs = (\<lambda>(cw0, cw1). (cw1, cw0))"

definition hdSurEncPhase1_D2_13_15 :: "u8 list \<Rightarrow> u8 list" where
  "hdSurEncPhase1_D2_13_15 cws =
     (case ExchangeCWs (fold (\<lambda>i (a, b). if even i then (Common_D2_13_15 i a b, b) else (a, Common_D2_13_15 i b a)) [0..<8]
        (take 8 cws, drop 8 cws)) of (a, b) \<Rightarrow> a @ b)"

definition hdSurEncPhase2_D2_13_15 :: "u8 list \<Rightarrow> u8 list" where
  "hdSurEncPhase2_D2_13_15 cws =
     (case ExchangeCWs (fold (\<lambda>i (a, b). if even i then (a, Common_D2_13_15 i b a) else (Common_D2_13_15 i a b, b)) (rev [0..<8])
        (take 8 cws, drop 8 cws)) of (a, b) \<Rightarrow> a @ b)"

subsection \<open>Decryption of version 3\<close>

text \<open>
  The over-encryption around the AES block (OpenSSL, a parameter), which works on the section before the core and on
  the output after it; 0xFF is no AES.
\<close>

definition via3_pre :: "(u8 list \<Rightarrow> u8 list \<Rightarrow> u8 list) \<Rightarrow> u8 list \<Rightarrow> u8 \<Rightarrow> u8 list \<Rightarrow> u8 list" where
  "via3_pre aes aesKey aesMode source =
     (let s = (if aesMode = 0x0F then hdSurEncPhase2_D2_0F_11 (hdSurEncPhase1_D2_0F_11 source)
               else if aesMode = 0x13 then hdSurEncPhase1_D2_13_15 source else source);
          s = aes aesKey s in
      if aesMode = 0x0F then hdSurEncPhase1_D2_0F_11 s else if aesMode = 0x13 then hdSurEncPhase2_D2_13_15 s else s)"

definition via3_post :: "(u8 list \<Rightarrow> u8 list \<Rightarrow> u8 list) \<Rightarrow> u8 list \<Rightarrow> u8 \<Rightarrow> u8 list \<Rightarrow> u8 list" where
  "via3_post aes aesKey aesMode words =
     (let s = (if aesMode = 0x11 then hdSurEncPhase2_D2_0F_11 (hdSurEncPhase1_D2_0F_11 words)
               else if aesMode = 0x15 then hdSurEncPhase1_D2_13_15 words else words);
          s = aes aesKey s in
      if aesMode = 0x11 then hdSurEncPhase1_D2_0F_11 s else if aesMode = 0x15 then hdSurEncPhase2_D2_13_15 s else s)"

text \<open>The result, the 16 bytes of the section afterwards and the output.\<close>

definition via3_decrypt ::
  "(u8 list \<Rightarrow> u8 list \<Rightarrow> u8 list) \<Rightarrow> u32 \<Rightarrow> emu \<Rightarrow> u8 list \<Rightarrow> u32 \<Rightarrow> u8 \<Rightarrow> u8 \<Rightarrow> u8 \<Rightarrow> bool \<Rightarrow> u8 list \<Rightarrow> (int \<times> u8 list \<times> u8 list) option" where
  "via3_decrypt aes today st source ident desKeyIndex aesKeyIndex aesMode doFinalMix dw =
     (let needsAES = aesKeyIndex \<noteq> 0xFF; aesAfterCore = aesMode \<in> {0x0D, 0x11, 0x15};
          E = (if needsAES then via_get_key today ident (CHR ''E'') (unat aesKeyIndex) 16 st else Some []) in
      if ident = 0 then Some (EMU_CORRUPT_DATA, source, dw)
      else case (via_get_key today ident (CHR ''C'') 1 8 st, E) of
        (Some C1, Some aesKey) \<Rightarrow> do {
          let source = (if needsAES \<and> \<not> aesAfterCore then via3_pre aes aesKey aesMode source else source);
          (_, w0) \<leftarrow> via3_process_dw today st ident desKeyIndex (take 8 source);
          (_, w1) \<leftarrow> via3_process_dw today st ident desKeyIndex (drop 8 source);
          let words = xor_bytes w0 C1 @ xor_bytes w1 (take 8 source);
          let words = (if needsAES \<and> aesAfterCore then via3_post aes aesKey aesMode words else words);
          let words = (if ident = 0x030B00 \<and> doFinalMix then via3_final_mix words else words);
          Some (if ident = 0x030B00 \<and> \<not> (cccam_emu_is_valid_dcw words \<and> cccam_emu_is_valid_dcw (drop 8 words)) then EMU_CHECKSUM_ERROR
                else EMU_OK, source, copy_sub 0 words dw)
        }
      | _ \<Rightarrow> Some (EMU_KEY_NOT_FOUND, source, dw))"

subsection \<open>ECM\<close>

record via_state =
  vs_version :: u8
  vs_providerKeyLen :: u8
  vs_desKeyIndex :: u8
  vs_aesMode :: u8
  vs_aesKeyIndex :: u8
  vs_keySelectPos :: nat
  vs_currentIdent :: u32

definition via_state_initial :: via_state where
  "via_state_initial = \<lparr>vs_version = 0, vs_providerKeyLen = 0, vs_desKeyIndex = 0, vs_aesMode = 0, vs_aesKeyIndex = 0xFF,
     vs_keySelectPos = 0, vs_currentIdent = 0\<rparr>"

definition via_ident :: "u8 \<Rightarrow> u8 \<Rightarrow> u8 \<Rightarrow> u32" where
  "via_ident a b low = push_bit 16 (ucast a) OR push_bit 8 (ucast b) OR ucast low"

text \<open>The elements that name the provider and the keys.\<close>

definition via_nano_40 :: "u8 list \<Rightarrow> nat \<Rightarrow> u8 \<Rightarrow> via_state \<Rightarrow> via_state option" where
  "via_nano_40 ecm i nanoLen s =
     (if nanoLen < 3 then Some s
      else do {
        b0 \<leftarrow> rd ecm i; b1 \<leftarrow> rd ecm (i + 1); b2 \<leftarrow> rd ecm (i + 2);
        if nanoLen = 3 then
          Some (s\<lparr>vs_version := b0, vs_currentIdent := via_ident b0 b1 (b2 AND 0xF0), vs_desKeyIndex := b2 AND 0x0F,
                  vs_keySelectPos := i + 3, vs_providerKeyLen := nanoLen\<rparr>)
        else do {
          b3 \<leftarrow> rd ecm (i + 3);
          Some (s\<lparr>vs_version := b0, vs_currentIdent := via_ident b0 b1 (drop_bit 4 b2 AND 0x0F), vs_desKeyIndex := b3,
                  vs_keySelectPos := i + 4, vs_providerKeyLen := nanoLen\<rparr>)
        }
      })"

definition via_nano_90 :: "u8 list \<Rightarrow> nat \<Rightarrow> u8 \<Rightarrow> via_state \<Rightarrow> via_state option" where
  "via_nano_90 ecm i nanoLen s =
     (if nanoLen < 3 then Some s
      else do {
        b0 \<leftarrow> rd ecm i; b1 \<leftarrow> rd ecm (i + 1); b2 \<leftarrow> rd ecm (i + 2);
        k \<leftarrow> (if b0 = 3 \<and> nanoLen > 3 then rd ecm (i + (unat nanoLen - 4)) else Some b2);
        Some (s\<lparr>vs_version := b0, vs_currentIdent := via_ident b0 b1 (b2 AND 0xF0), vs_desKeyIndex := k AND 0x0F,
                vs_keySelectPos := i + 4, vs_providerKeyLen := nanoLen\<rparr>)
      })"

text \<open>The final mix that the key selection asks for; \<open>None\<close> inside leaves the element.\<close>

definition via_final_mix :: "u8 list \<Rightarrow> via_state \<Rightarrow> bool option option" where
  "via_final_mix ecm s =
     (if vs_currentIdent s = 0x030B00 \<and> vs_providerKeyLen s > 3 then
        (if vs_keySelectPos s + 2 \<ge> length ecm then Some None
         else do {
           b0 \<leftarrow> rd ecm (vs_keySelectPos s); b1 \<leftarrow> rd ecm (vs_keySelectPos s + 1); b2 \<leftarrow> rd ecm (vs_keySelectPos s + 2);
           Some (if b0 = 0x05 \<and> b1 = 0x67 \<and> b2 \<in> {0, 1} then Some (b2 = 1) else None)
         })
      else Some (Some False))"

text \<open>The element with the words; \<open>Inl\<close> is the result with the section and the output, \<open>Inr\<close> goes on.\<close>

definition via_nano_EA ::
  "(u8 list \<Rightarrow> u8 list \<Rightarrow> u8 list) \<Rightarrow> u32 \<Rightarrow> emu \<Rightarrow> u8 list \<Rightarrow> nat \<Rightarrow> via_state \<Rightarrow> u8 list \<Rightarrow> (int \<times> u8 list \<times> u8 list + via_state) option" where
  "via_nano_EA aes today st ecm i s dw =
     (if vs_version s < 2 then
        map_option (\<lambda>(rc, dw). Inl (rc, ecm, dw)) (via1_decrypt_ex today st ecm (vs_currentIdent s) (vs_desKeyIndex s) dw)
      else if vs_version s = 2 then do {
        source \<leftarrow> rd_sub ecm i 16;
        (rc, dw) \<leftarrow> via26_decrypt today st source (vs_currentIdent s) (vs_desKeyIndex s) dw;
        Some (Inl (rc, ecm, dw))
      }
      else if vs_version s = 3 then do {
        mix \<leftarrow> via_final_mix ecm s;
        (case mix of
           None \<Rightarrow> Some (Inr s)
         | Some doFinalMix \<Rightarrow> do {
             source \<leftarrow> rd_sub ecm i 16;
             (rc, source, dw) \<leftarrow> via3_decrypt aes today st source (vs_currentIdent s) (vs_desKeyIndex s) (vs_aesKeyIndex s) (vs_aesMode s) doFinalMix dw;
             Some (Inl (rc, copy_sub i source ecm, dw))
           })
      }
      else Some (Inr s))"

definition via_nano_D2 :: "u8 list \<Rightarrow> nat \<Rightarrow> u8 \<Rightarrow> via_state \<Rightarrow> via_state option" where
  "via_nano_D2 ecm i nanoLen s =
     (if nanoLen < 2 then Some s
      else do { b0 \<leftarrow> rd ecm i; b1 \<leftarrow> rd ecm (i + 1); Some (s\<lparr>vs_aesMode := b0, vs_aesKeyIndex := b1\<rparr>) })"

text \<open>The element at \<open>i\<close>, behind its two bytes of head.\<close>

definition via_nano ::
  "(u8 list \<Rightarrow> u8 list \<Rightarrow> u8 list) \<Rightarrow> u32 \<Rightarrow> emu \<Rightarrow> u8 list \<Rightarrow> nat \<Rightarrow> u8 \<Rightarrow> u8 \<Rightarrow> via_state \<Rightarrow> u8 list \<Rightarrow> (int \<times> u8 list \<times> u8 list + via_state) option" where
  "via_nano aes today st ecm i nanoCmd nanoLen s dw =
     (if nanoCmd = 0x40 then map_option Inr (via_nano_40 ecm i nanoLen s)
      else if nanoCmd = 0x90 then map_option Inr (via_nano_90 ecm i nanoLen s)
      else if nanoCmd = 0xD2 then map_option Inr (via_nano_D2 ecm i nanoLen s)
      else if nanoCmd = 0xEA \<and> nanoLen \<ge> 0x10 then via_nano_EA aes today st ecm i s dw
      else Some (Inr s))"

function via_loop ::
  "(u8 list \<Rightarrow> u8 list \<Rightarrow> u8 list) \<Rightarrow> u32 \<Rightarrow> emu \<Rightarrow> u8 list \<Rightarrow> nat \<Rightarrow> via_state \<Rightarrow> u8 list \<Rightarrow> (int \<times> u8 list \<times> u8 list) option" where
  "via_loop aes today st ecm i s dw =
     (if length ecm \<le> i + 2 then Some (EMU_NOT_SUPPORTED, ecm, dw)
      else (case (rd ecm i, rd ecm (i + 1)) of
          (Some nanoCmd, Some nanoLen) \<Rightarrow>
            if i + 2 + unat nanoLen > length ecm then Some (EMU_NOT_SUPPORTED, ecm, dw)
            else (case via_nano aes today st ecm (i + 2) nanoCmd nanoLen s dw of
                None \<Rightarrow> None
              | Some (Inl r) \<Rightarrow> Some r
              | Some (Inr s') \<Rightarrow> via_loop aes today st ecm (i + 2 + (if nanoCmd = 0x80 \<or> nanoCmd = 0xDD then 0 else unat nanoLen)) s' dw)
        | _ \<Rightarrow> None))"
  by auto
termination by (relation "measure (\<lambda>(aes, today, st, ecm, i, s, dw). length ecm - i)") auto

declare via_loop.simps [simp del]

definition cccam_emu_viaccess_ecm ::
  "(u8 list \<Rightarrow> u8 list \<Rightarrow> u8 list) \<Rightarrow> u32 \<Rightarrow> emu \<Rightarrow> u8 list \<Rightarrow> u8 list \<Rightarrow> (int \<times> u8 list \<times> u8 list) option" where
  "cccam_emu_viaccess_ecm aes today st ecm dw =
     (if length ecm < 4 then Some (EMU_CORRUPT_DATA, ecm, dw)
      else via_loop aes today st ecm 4 via_state_initial dw)"

subsection \<open>The mixing of version 1 is undone in the opposite order\<close>

definition via1_pos :: "nat \<Rightarrow> nat \<Rightarrow> nat" where
  "via1_pos db kb = kb XOR (if (kb XOR db) AND 4 \<noteq> 0 then 0 else 7)"

lemma via1_pos_ok: "db < 8 \<Longrightarrow> kb < 8 \<Longrightarrow> via1_pos db kb \<noteq> db \<and> via1_pos db kb < 8"
proof -
  have "list_all (\<lambda>db. list_all (\<lambda>kb. via1_pos db kb \<noteq> db \<and> via1_pos db kb < 8) [0..<8]) [0..<8]" by code_simp
  then show "db < 8 \<Longrightarrow> kb < 8 \<Longrightarrow> ?thesis" unfolding list_all_iff by simp
qed

lemma via1_mod_step_form:
  "via1_mod_step key2 (db, kb) data =
     (let a0 = (if (kb XOR db) AND 4 \<noteq> 0 then (kb XOR db) XOR 7 else kb XOR db) in
      if ((a0 XOR (kb AND 3)) + (kb AND 3)) AND 4 = 0
      then data[db := data ! db XOR (key2 ! kb XOR data ! via1_pos db kb * key2 ! (kb XOR 4))] else data)"
  by (simp add: via1_mod_step_def via1_pos_def Let_def)

lemma xor_twice: "(x XOR y) XOR y = (x :: u8)"
  by (rule bit_word_eqI) (auto simp: bit_simps)

lemma mod_step_twice:
  assumes "db < 8" "kb < 8" "length data = 8"
  shows "via1_mod_step key2 (db, kb) (via1_mod_step key2 (db, kb) data) = data"
  using via1_pos_ok [OF assms(1,2)] assms by (simp add: via1_mod_step_form Let_def xor_twice)

lemma length_mod_step [simp]: "length (via1_mod_step key2 x data) = length data"
  by (cases x) (simp add: via1_mod_step_form Let_def)

lemma mod_order: "x \<in> set via1_mod_order \<Longrightarrow> fst x < 8 \<and> snd x < 8"
  by (auto simp: via1_mod_order_def)

lemma length_mod_steps [simp]: "length (fold (via1_mod_step key2) xs data) = length data"
  by (induction xs arbitrary: data) simp_all

lemma mod_steps_undone:
  "(\<forall>x \<in> set xs. fst x < 8 \<and> snd x < 8) \<Longrightarrow> length data = 8
   \<Longrightarrow> fold (via1_mod_step key2) xs (fold (via1_mod_step key2) (rev xs) data) = data"
proof (induction xs arbitrary: data)
  case (Cons x xs)
  obtain db kb where x: "x = (db, kb)" by (metis surj_pair)
  let ?d = "fold (via1_mod_step key2) (rev xs) data"
  have "via1_mod_step key2 x (via1_mod_step key2 x ?d) = ?d" unfolding x using Cons.prems by (intro mod_step_twice) (simp_all add: x)
  with Cons show ?case by simp
qed simp

definition via1_unmod :: "u8 list \<Rightarrow> u8 list \<Rightarrow> u8 list" where
  "via1_unmod key2 data = fold (via1_mod_step key2) (rev via1_mod_order) data"

lemma mod_unmod: "length data = 8 \<Longrightarrow> via1_mod key2 (via1_unmod key2 data) = data"
  unfolding via1_mod_def via1_unmod_def by (rule mod_steps_undone) (use mod_order in blast)+

lemma length_via1_mod [simp]: "length (via1_mod key2 data) = length data" "length (via1_unmod key2 data) = length data"
  by (simp_all add: via1_mod_def via1_unmod_def)

text \<open>What a head end does to a word.\<close>

definition via1_encode :: "u8 list \<Rightarrow> u8 list \<Rightarrow> u8 list" where
  "via1_encode data key = via1_unmod (drop 8 key) (cccam_emu_nc_des key DES_RIGHT (via1_unmod (drop 8 key) data))"

lemma decode_encode: "length data = 8 \<Longrightarrow> via1_decode (via1_encode data key) key = data"
proof -
  assume l: "length data = 8"
  have "opposite DES_RIGHT NC_DES_ECM_CRYPT" by (simp add: opposite_def DES_RIGHT_def NC_DES_ECM_CRYPT_def DES_HASH_def DES_IP_def DES_IP_1_def)
  then have "cccam_emu_nc_des key NC_DES_ECM_CRYPT (cccam_emu_nc_des key DES_RIGHT (via1_unmod (drop 8 key) data)) = via1_unmod (drop 8 key) data"
    using l by (intro nc_des_inverse) simp_all
  then show ?thesis using l by (simp add: via1_decode_def via1_encode_def mod_unmod)
qed

lemma length_via1_encode [simp]: "length data = 8 \<Longrightarrow> length (via1_encode data key) = 8" "length data = 8 \<Longrightarrow> length (via1_decode data key) = 8"
  by (simp_all add: via1_encode_def via1_decode_def)

subsection \<open>The masking is undone\<close>

fun via1_mask :: "u8 \<Rightarrow> u8 list \<Rightarrow> via1_hash_state \<Rightarrow> u8 list \<Rightarrow> u8 list \<times> via1_hash_state" where
  "via1_mask k hashkey h [] = ([], h)"
| "via1_mask k hashkey h (c # cs) =
     (let tmp = (k AND fst h ! snd h) XOR c in
      case via1_mask k hashkey (via1_do_hash hashkey tmp h) cs of (ts, h') \<Rightarrow> (tmp # ts, h'))"

lemma unmask_mask: "via1_unmask k hashkey h (fst (via1_mask k hashkey h cs)) = (cs, snd (via1_mask k hashkey h cs))"
proof (induction k hashkey h cs rule: via1_mask.induct)
  case (2 k hashkey h c cs)
  have "y XOR (y XOR c) = c" for y by (rule bit_word_eqI) (auto simp: bit_simps)
  with 2 show ?case by (simp add: Let_def split_beta)
qed simp

lemma length_mask [simp]: "length (fst (via1_mask k hashkey h cs)) = length cs"
  by (induction k hashkey h cs rule: via1_mask.induct) (simp_all add: Let_def split_beta)

lemma length_unmask: "length (fst (via1_unmask k hashkey h cs)) = length cs"
  by (induction k hashkey h cs rule: via1_unmask.induct) (simp_all add: split_beta)

subsection \<open>The two phases of the over-encryption D2 13 and 15\<close>

lemma length_CommonMain_3:
  "length (fst (CommonMain_3_D2_13_15 (a, b))) = length a \<and> length (snd (CommonMain_3_D2_13_15 (a, b))) = length b"
proof -
  have "length (fst (fold CommonMain_3_step xs (a, b, x, y))) = length a \<and> length (fst (snd (fold CommonMain_3_step xs (a, b, x, y)))) = length b" for xs a b x y
    by (induction xs arbitrary: a b x y) (simp_all add: CommonMain_3_step_def Let_def)
  then show ?thesis by (simp add: CommonMain_3_D2_13_15_def split_beta)
qed

lemma length_concat_const: "(\<And>x. x \<in> set xs \<Longrightarrow> length (f x) = c) \<Longrightarrow> length (concat (map f xs)) = c * length xs"
  by (induction xs) simp_all

lemma length_Common_pairs:
  assumes "length d = 8" and "i1 \<in> {1, 2, 4}"
  shows "length (CommonMain_pairs i1 d) = 8"
proof -
  have "length (case CommonMain_3_D2_13_15 (take i1 (drop (2 * i1 * j) d), take i1 (drop (2 * i1 * j + i1) d)) of (a, b) \<Rightarrow> a @ b) = 2 * i1"
    if "j \<in> set [0..<8 div (2 * i1)]" for j
  proof -
    from that have "2 * i1 * (j + 1) \<le> 2 * i1 * (8 div (2 * i1))" by (intro mult_le_mono2) simp
    also have "\<dots> \<le> 8" by (rule times_div_less_eq_dividend)
    finally have "2 * i1 * j + 2 * i1 \<le> 8" by simp
    then show ?thesis using assms(1) length_CommonMain_3 by (simp add: split_beta)
  qed
  then have "length (CommonMain_pairs i1 d) = 2 * i1 * length [0..<8 div (2 * i1)]" unfolding CommonMain_pairs_def by (rule length_concat_const)
  then show ?thesis using assms(2) by auto
qed

lemma length_CommonMain [simp]: "length (CommonMain_D2_13_15 cw i) = 8"
  by (simp add: CommonMain_D2_13_15_def Let_def length_Common_pairs)

lemma length_Common [simp]: "length a = 8 \<Longrightarrow> length (Common_D2_13_15 i a b) = 8"
  by (simp add: Common_D2_13_15_def)

lemma Common_twice: "length a = 8 \<Longrightarrow> Common_D2_13_15 i (Common_D2_13_15 i a b) b = a"
  by (simp add: Common_D2_13_15_def xor_bytes_twice)

definition hd_round :: "nat \<Rightarrow> u8 list \<times> u8 list \<Rightarrow> u8 list \<times> u8 list" where
  "hd_round i = (\<lambda>(a, b). if even i then (Common_D2_13_15 i a b, b) else (a, Common_D2_13_15 i b a))"

definition both8 :: "u8 list \<times> u8 list \<Rightarrow> bool" where
  "both8 x \<longleftrightarrow> length (fst x) = 8 \<and> length (snd x) = 8"

lemma hd_round_8: "both8 x \<Longrightarrow> both8 (hd_round i x)"
  by (auto simp: both8_def hd_round_def split: prod.splits)

lemma hd_rounds_8: "both8 x \<Longrightarrow> both8 (fold hd_round xs x)"
  by (induction xs arbitrary: x) (simp_all add: hd_round_8)

lemma hd_round_twice: "both8 x \<Longrightarrow> hd_round i (hd_round i x) = x"
  by (auto simp: both8_def hd_round_def Common_twice split: prod.splits)

lemma hd_rounds_undone: "both8 x \<Longrightarrow> fold hd_round (rev xs) (fold hd_round xs x) = x"
  by (induction xs arbitrary: x) (simp_all add: hd_round_8 hd_round_twice)

lemma hd_phases:
  "hdSurEncPhase1_D2_13_15 cws = (case prod.swap (fold hd_round [0..<8] (take 8 cws, drop 8 cws)) of (a, b) \<Rightarrow> a @ b)"
  "hdSurEncPhase2_D2_13_15 cws = (case fold hd_round (rev [0..<8]) (drop 8 cws, take 8 cws) of (a, b) \<Rightarrow> a @ b)"
proof -
  have r: "(\<lambda>i (a, b). if even i then (Common_D2_13_15 i a b, b) else (a, Common_D2_13_15 i b a)) = hd_round"
    by (simp add: hd_round_def fun_eq_iff)
  have e: "ExchangeCWs = prod.swap" by (auto simp: ExchangeCWs_def fun_eq_iff)
  show "hdSurEncPhase1_D2_13_15 cws = (case prod.swap (fold hd_round [0..<8] (take 8 cws, drop 8 cws)) of (a, b) \<Rightarrow> a @ b)"
    by (simp only: hdSurEncPhase1_D2_13_15_def r e)
  have s: "(if even i then (a, Common_D2_13_15 i b a) else (Common_D2_13_15 i a b, b)) = prod.swap (hd_round i (prod.swap (a, b)))" for i a b
    by (simp add: hd_round_def)
  have "prod.swap (fold (\<lambda>i (a, b). if even i then (a, Common_D2_13_15 i b a) else (Common_D2_13_15 i a b, b)) xs x) = fold hd_round xs (prod.swap x)" for xs x
    unfolding s by (induction xs arbitrary: x) (simp_all add: split_beta prod.swap_def)
  then show "hdSurEncPhase2_D2_13_15 cws = (case fold hd_round (rev [0..<8]) (drop 8 cws, take 8 cws) of (a, b) \<Rightarrow> a @ b)"
    by (simp only: hdSurEncPhase2_D2_13_15_def e swap_simp)
qed

lemma hd_phases_undone: "length cws = 16 \<Longrightarrow> hdSurEncPhase2_D2_13_15 (hdSurEncPhase1_D2_13_15 cws) = cws"
proof -
  assume l: "length cws = 16"
  let ?x = "(take 8 cws, drop 8 cws)"
  have x: "both8 ?x" using l by (simp add: both8_def)
  obtain a b where ab: "fold hd_round [0..<8] ?x = (a, b)" by (metis surj_pair)
  then have "both8 (a, b)" using hd_rounds_8 [OF x] by metis
  then have "take 8 (b @ a) = b" "drop 8 (b @ a) = a" by (simp_all add: both8_def)
  moreover have "fold hd_round (rev [0..<8]) (a, b) = ?x" using hd_rounds_undone [OF x] ab by metis
  ultimately show ?thesis by (simp add: hd_phases ab)
qed

subsection \<open>The section of a head end, version 1\<close>

definition via1_odd_mask :: "u8 list \<Rightarrow> u8" where
  "via1_odd_mask key8 = (if key8 ! 7 AND 0xF0 = 0 then 0x5A else 0xA5)"

text \<open>The words as they are sent, and the state of the hash behind them.\<close>

definition via1_head_end_words :: "u8 list \<Rightarrow> u8 list \<Rightarrow> u8 list \<times> via1_hash_state" where
  "via1_head_end_words key8 cw =
     (let key = key8 @ replicate 8 0; prep = via1_prepared_key key;
          enc = via1_encode (take 8 cw) prep @ via1_encode (drop 8 cw) prep;
          h = via1_hash_bytes key [0xEA, 16] (replicate 8 0, 0) in
      if key8 ! 7 AND 1 \<noteq> 0 then via1_mask (via1_odd_mask key8) key h enc else (enc, via1_hash_bytes key enc h))"

definition via1_signature :: "u8 list \<Rightarrow> u8 list \<Rightarrow> u8 list" where
  "via1_signature key8 cw = via1_hash (fst (snd (via1_head_end_words key8 cw))) (key8 @ replicate 8 0)"

definition via1_frame :: "u8 list \<Rightarrow> u8 \<Rightarrow> u8 \<Rightarrow> u8 \<Rightarrow> u8 list \<Rightarrow> u8 list \<Rightarrow> u8 list" where
  "via1_frame head p0 p1 p2 w signature = head @ [0x90, 3, p0, p1, p2, 0xEA, 16] @ w @ [0xF0, 8] @ signature"

definition via1_head_end :: "u8 list \<Rightarrow> u8 list \<Rightarrow> u8 \<Rightarrow> u8 \<Rightarrow> u8 \<Rightarrow> u8 list \<Rightarrow> u8 list \<Rightarrow> u8 list" where
  "via1_head_end key8 head p0 p1 p2 cw signature =
     via1_frame head p0 p1 p2 (fst (via1_head_end_words key8 cw)) signature"

lemma length_head_end_words: "length cw = 16 \<Longrightarrow> length (fst (via1_head_end_words key8 cw)) = 16"
  by (simp add: via1_head_end_words_def Let_def)

lemma find_SomeD: "find P xs = Some x \<Longrightarrow> P x"
  by (induction xs) (auto split: if_splits)

lemma via_key_length: "via_get_key today ident c i n st = Some k \<Longrightarrow> length k = n"
proof -
  assume k: "via_get_key today ident c i n st = Some k"
  have "length (copy_out n x) \<le> n" for x by (simp add: copy_out_def split: option.split)
  then have short: "length (cccam_emu_find_key today ty p nm j n st) \<le> n" for ty p nm j by (simp add: cccam_emu_find_key_def Let_def)
  from k obtain x where "n \<le> length (case x of (ty, ident) \<Rightarrow> cccam_emu_find_key today ty ident (Some (c # c_hex i)) 0 n st)"
    "k = (case x of (ty, ident) \<Rightarrow> cccam_emu_find_key today ty ident (Some (c # c_hex i)) 0 n st)"
    unfolding via_get_key_def Let_def map_option_eq_Some by (blast dest: find_SomeD)
  then show ?thesis using short by (cases x) (auto intro: le_antisym)
qed

lemma head_end_rds:
  assumes "length head = 4" "length w = 16" "length signature = 8"
    and sec: "sec = via1_frame head p0 p1 p2 w signature"
  shows "length sec = 37" "rd sec 4 = Some 0x90" "rd sec 5 = Some 3" "rd sec 6 = Some p0" "rd sec 7 = Some p1" "rd sec 8 = Some p2"
    "rd sec 9 = Some 0xEA" "rd sec 10 = Some 16" "rd sec 27 = Some 0xF0" "rd sec 28 = Some 8"
    "rd_sub sec 9 2 = Some [0xEA, 16]" "rd_sub sec 9 18 = Some ([0xEA, 16] @ w)" "rd_sub sec 11 16 = Some w" "rd_sub sec 29 8 = Some signature"
proof -
  obtain a b c d where h: "head = [a, b, c, d]" using assms(1) by (auto simp: length_Suc_conv eval_nat_numeral)
  have n: "rd_sub (pre @ x @ post) (length pre) (length x) = Some x" for pre x post by (simp add: rd_sub_def)
  show "length sec = 37" using assms by (simp add: via1_frame_def)
  show "rd sec 4 = Some 0x90" "rd sec 5 = Some 3" "rd sec 6 = Some p0" "rd sec 7 = Some p1" "rd sec 8 = Some p2"
    "rd sec 9 = Some 0xEA" "rd sec 10 = Some 16" "rd sec 27 = Some 0xF0" "rd sec 28 = Some 8"
    using assms(2,3) by (simp_all add: sec via1_frame_def h rd_def nth_append)
  show "rd_sub sec 9 2 = Some [0xEA, 16]" "rd_sub sec 9 18 = Some ([0xEA, 16] @ w)" "rd_sub sec 11 16 = Some w"
    using assms(2,3) by (simp_all add: sec via1_frame_def h rd_sub_def)
  show "rd_sub sec 29 8 = Some signature"
    using n [of "head @ [0x90, 3, p0, p1, p2, 0xEA, 16] @ w @ [0xF0, 8]" signature "[]"] assms by (simp add: via1_frame_def)
qed

lemma head_end_scan:
  assumes "length head = 4" "length w = 16" "length signature = 8" "length dw = 16"
  shows "via1_scan (via1_frame head p0 p1 p2 w signature) 0 (0, dw, s, 0) = Some (2, w, signature, 3)"
proof -
  define sec where "sec = via1_frame head p0 p1 p2 w signature"
  note r = head_end_rds [OF assms(1-3) sec_def]
  have c: "copy_sub 0 w dw = w" using assms(2,4) by (simp add: copy_sub_def)
  have "via1_scan sec 0 (0, dw, s, 0) = Some (2, w, signature, 3)"
    using r c assms(3) by (simp add: via1_scan.simps via1_element_def)
  then show ?thesis unfolding sec_def .
qed

lemma via1_opens:
  assumes key: "via_get_key today ident (CHR ''0'') (unat i) 8 st = Some key8" and "ident \<noteq> 0" and "length head = 4" and "length cw = 16"
    and "length signature = 8" and "length dw = 16"
  shows "via1_decrypt_ex today st (via1_head_end key8 head p0 p1 p2 cw signature) ident i dw =
    (if key8 ! 7 = 0 then None
     else Some (if signature = via1_signature key8 cw then EMU_OK else EMU_CHECKSUM_ERROR, cw))"
proof -
  have k8: "length key8 = 8" by (rule via_key_length [OF key])
  define w where "w = fst (via1_head_end_words key8 cw)"
  have w: "length w = 16" using assms(4) by (simp add: w_def length_head_end_words)
  define sec where "sec = via1_frame head p0 p1 p2 w signature"
  note r = head_end_rds [OF assms(3) w assms(5) sec_def]
  note scan = head_end_scan [OF assms(3) w assms(5,6), of p0 p1 p2 "replicate 8 0", folded sec_def]
  have sec: "via1_head_end key8 head p0 p1 p2 cw signature = sec" by (simp only: via1_head_end_def sec_def w_def)
  let ?key = "key8 @ replicate 8 0"
  let ?prep = "via1_prepared_key ?key"
  let ?enc = "via1_encode (take 8 cw) ?prep @ via1_encode (drop 8 cw) ?prep"
  let ?h = "via1_hash_bytes ?key [0xEA, 16] (replicate 8 0, 0)"
  have front: "via1_hash_front sec ?key = Some ((replicate 8 0, 0), 0)" using r by (simp add: via1_hash_front_def)
  have k7: "?key ! 7 = key8 ! 7" using k8 by (simp add: nth_append)
  have enc: "length ?enc = 16" "take 8 ?enc = via1_encode (take 8 cw) ?prep" "drop 8 ?enc = via1_encode (drop 8 cw) ?prep" using assms(4) by simp_all
  have dec: "via1_decode (take 8 ?enc) ?prep @ via1_decode (drop 8 ?enc) ?prep = cw" using assms(4) by (simp add: decode_encode)
  have out: "copy_sub 0 cw w = cw" using w assms(4) by (simp add: copy_sub_def)
  show ?thesis
  proof (cases "key8 ! 7 = 0")
    case True
    then show ?thesis unfolding sec via1_decrypt_ex_def using key assms(2) r(1) scan front k7 by simp
  next
    case nz: False
    show ?thesis
    proof (cases "key8 ! 7 AND 1 \<noteq> 0")
      case True
      have hw: "via1_head_end_words key8 cw = via1_mask (via1_odd_mask key8) ?key ?h ?enc"
        by (simp only: via1_head_end_words_def Let_def if_P [OF True])
      then have un: "via1_unmask (via1_odd_mask key8) ?key ?h w = (?enc, snd (via1_head_end_words key8 cw))"
        using unmask_mask [of "via1_odd_mask key8" ?key ?h ?enc] by (simp only: w_def)
      show ?thesis unfolding sec via1_decrypt_ex_def
        using key assms(2) r(1,11) scan front k7 True nz un w dec out
        by (simp add: via1_odd_mask_def [symmetric] via1_signature_def)
    next
      case False
      have hw: "via1_head_end_words key8 cw = (?enc, via1_hash_bytes ?key ?enc ?h)"
        by (simp only: via1_head_end_words_def Let_def if_not_P [OF False])
      then have we: "w = ?enc" by (simp only: w_def fst_conv)
      have h: "via1_hash_bytes ?key ([0xEA, 16] @ w) (replicate 8 0, 0) = via1_hash_bytes ?key ?enc ?h"
        by (simp add: via1_hash_bytes_def we)
      show ?thesis unfolding sec via1_decrypt_ex_def
        using key assms(2) r(1,12) scan front k7 False nz h hw w dec out
        by (simp add: via1_signature_def we)
    qed
  qed
qed

subsection \<open>No key T1, so no decryption of the versions 2.6 and 3\<close>

lemma via_T1_missing: "emu_inv st \<Longrightarrow> via_get_key today ident c i 300 st = None"
proof -
  assume inv: "emu_inv st"
  have "length (cccam_emu_find_key today a b nm 0 300 st) < 300" for a b nm
    by (rule le_less_trans [OF find_key_short [OF inv]]) simp
  then show ?thesis by (simp add: via_get_key_def Let_def find_None_iff not_le split_beta)
qed

lemma process_dw_2: "emu_inv st \<Longrightarrow> via26_process_dw today st ident i d = Some (2, d)" "emu_inv st \<Longrightarrow> via3_process_dw today st ident i d = Some (2, d)"
  by (simp_all add: via26_process_dw_def via3_process_dw_def via_T1_missing Let_def)

subsection \<open>Sections stay inside their buffer\<close>

definition via_found_ok :: "u8 list \<Rightarrow> nat \<Rightarrow> via1_found \<Rightarrow> bool" where
  "via_found_ok ecm q = (\<lambda>(encStart, dw, signature, foundData).
     length dw = 16 \<and> length signature = 8 \<and> (bit foundData 0 \<longrightarrow> q + 2 \<le> encStart \<and> 9 + encStart + 16 \<le> length ecm))"

lemma bit_found: "bit (f OR 1 :: u8) 0" "bit (f OR 2 :: u8) 0 = bit f 0" "bit (3 :: u8) 0"
  by (simp_all add: bit_or_iff)

lemma via1_element_total:
  assumes "via_found_ok ecm q s" and "q \<le> pos" and "9 + pos + 2 < length ecm"
  shows "\<exists>s'. via1_element ecm pos s = Some s' \<and> via_found_ok ecm q s'"
proof -
  obtain e dw sig f where s: "s = (e, dw, sig, f)" by (metis prod_cases4)
  have r: "rd ecm (9 + pos) = Some (ecm ! (9 + pos))" using assms(3) by simp
  consider "ecm ! (9 + pos) = 0xEA" "9 + pos + 2 + 15 < length ecm" | "ecm ! (9 + pos) = 0xF0" "9 + pos + 2 + 7 < length ecm"
    | "\<not> (ecm ! (9 + pos) = 0xEA \<and> 9 + pos + 2 + 15 < length ecm)" "\<not> (ecm ! (9 + pos) = 0xF0 \<and> 9 + pos + 2 + 7 < length ecm)" by blast
  then show ?thesis
  proof cases
    case 1
    then have "rd_sub ecm (9 + pos + 2) 16 = Some (take 16 (drop (9 + pos + 2) ecm))" "length (take 16 (drop (9 + pos + 2) ecm)) = 16" by simp_all
    moreover from this(2) have "length (copy_sub 0 (take 16 (drop (9 + pos + 2) ecm)) dw) = 16" using assms(1) by (simp add: via_found_ok_def s)
    ultimately show ?thesis using r 1 assms(1,2) by (simp add: via1_element_def s via_found_ok_def bit_found)
  next
    case 2
    then have "rd_sub ecm (9 + pos + 2) 8 = Some (take 8 (drop (9 + pos + 2) ecm))" "length (take 8 (drop (9 + pos + 2) ecm)) = 8" by simp_all
    then show ?thesis using r 2 assms(1) by (simp add: via1_element_def s via_found_ok_def bit_found)
  next
    case 3
    have "via1_element ecm pos s = Some s" by (simp only: via1_element_def s r bind.simps prod.case if_not_P [OF 3(1)] if_not_P [OF 3(2)])
    then show ?thesis using assms(1) by simp
  qed
qed

lemma via1_scan_total:
  "via_found_ok ecm q s \<Longrightarrow> q \<le> pos \<Longrightarrow> \<exists>s'. via1_scan ecm pos s = Some s' \<and> via_found_ok ecm q s'"
proof (induction "length ecm - pos" arbitrary: pos s rule: less_induct)
  case less
  show ?case
  proof (cases "length ecm \<le> 9 + pos + 2")
    case False
    then obtain s' where s': "via1_element ecm pos s = Some s'" "via_found_ok ecm q s'" using via1_element_total [OF less.prems] by fastforce
    let ?pos = "pos + unat (ecm ! (9 + pos + 1)) + 2"
    have "length ecm - ?pos < length ecm - pos" "q \<le> ?pos" using False less.prems(2) by auto
    from less.hyps [OF this(1) s'(2) this(2)] have "\<exists>s''. via1_scan ecm ?pos s' = Some s'' \<and> via_found_ok ecm q s''" .
    moreover have "via1_scan ecm pos s = via1_scan ecm ?pos s'" using False s'(1) by (subst via1_scan.simps) simp
    ultimately show ?thesis by simp
  qed (use less.prems in \<open>simp add: via1_scan.simps\<close>)
qed

lemma via1_front_total:
  assumes "via1_scan ecm 0 (0, dw, replicate 8 0, 0) = Some (e, dw', sig, 3)" and "length dw = 16"
  shows "length dw' = 16 \<and> 9 + e + 16 \<le> length ecm \<and> (\<exists>h i. via1_hash_front ecm key = Some (h, i) \<and> i \<le> e)"
proof -
  have ok: "via_found_ok ecm q (0, dw, replicate 8 0, 0)" for q using assms(2) by (simp add: via_found_ok_def)
  from via1_scan_total [OF ok, of 0 0] assms(1) have e: "length dw' = 16" "2 \<le> e" "9 + e + 16 \<le> length ecm" by (auto simp: via_found_ok_def bit_found)
  then have r: "rd ecm 9 = Some (ecm ! 9)" "rd ecm 10 = Some (ecm ! 10)" by simp_all
  have "\<exists>h i. via1_hash_front ecm key = Some (h, i) \<and> i \<le> e"
  proof (cases "ecm ! 9 = 0x9F \<and> 10 + unat (ecm ! 10) \<le> length ecm")
    case True
    let ?q = "unat (ecm ! 10) + 2"
    have "via1_element ecm 0 (0, dw, replicate 8 0, 0) = Some (0, dw, replicate 8 0, 0)" using r True by (simp add: via1_element_def)
    then have "via1_scan ecm 0 (0, dw, replicate 8 0, 0) = via1_scan ecm ?q (0, dw, replicate 8 0, 0)"
      using e r by (subst via1_scan.simps) simp
    then have "via_found_ok ecm ?q (e, dw', sig, 3)" using via1_scan_total [OF ok, of ?q ?q] assms(1) by auto
    then have q: "?q + 2 \<le> e" by (simp add: via_found_ok_def bit_found)
    then have "rd_sub ecm 9 ?q = Some (take ?q (drop 9 ecm))" using e(3) by (intro rd_sub_Some) linarith
    then have "\<exists>h. via1_hash_front ecm key = Some (h, ?q)" using r True by (simp add: via1_hash_front_def Let_def del: split_paired_Ex)
    then show ?thesis using q by (metis add_leD1)
  next
    case False
    have "via1_hash_front ecm key = Some ((replicate 8 0, 0), 0)" by (simp only: via1_hash_front_def r bind.simps if_not_P [OF False])
    then show ?thesis by simp
  qed
  with e show ?thesis by simp
qed

definition classic_keys_defined :: "emu \<Rightarrow> bool" where
  "classic_keys_defined st \<longleftrightarrow> (\<forall>k \<in> set (em_keys st). length (ek_data k) = 8 \<longrightarrow> ek_data k ! 7 \<noteq> 0)"

lemma via_key8:
  assumes "classic_keys_defined st" and "via_get_key today ident c i 8 st = Some k"
  shows "k ! 7 \<noteq> 0"
proof -
  obtain ty p where k: "k = cccam_emu_find_key today ty p (Some (c # c_hex i)) 0 8 st"
    using assms(2) unfolding via_get_key_def Let_def map_option_eq_Some by (auto split: prod.splits)
  have "length k = 8" by (rule via_key_length [OF assms(2)])
  then obtain x where "x \<in> set (em_keys st)" "k = ek_data x"
    using k by (force simp: cccam_emu_find_key_def Let_def copy_out_def find_Some_iff split: option.splits if_splits)
  with assms(1) \<open>length k = 8\<close> show ?thesis by (simp add: classic_keys_defined_def)
qed

definition via_good :: "nat \<Rightarrow> (int \<times> u8 list \<times> u8 list) option \<Rightarrow> bool" where
  "via_good n r \<longleftrightarrow> (\<exists>rc e d. r = Some (rc, e, d) \<and> length e = n \<and> length d = 16)"

lemma via1_decrypt_total:
  assumes "classic_keys_defined st" and "length dw = 16"
  shows "\<exists>rc d. via1_decrypt_ex today st ecm ident i dw = Some (rc, d) \<and> length d = 16"
proof (cases "ident = 0 \<or> via_get_key today ident (CHR ''0'') (unat i) 8 st = None \<or> length ecm < 11")
  case True
  then show ?thesis using assms(2) by (cases "ident = 0"; cases "via_get_key today ident (CHR ''0'') (unat i) 8 st") (simp_all add: via1_decrypt_ex_def)
next
  case False
  then obtain k where k: "via_get_key today ident (CHR ''0'') (unat i) 8 st = Some k" by auto
  have k7: "(k @ replicate 8 0) ! 7 \<noteq> 0" using via_key8 [OF assms(1) k] via_key_length [OF k] by (simp add: nth_append)
  have "via_found_ok ecm 0 (0, dw, replicate 8 0, 0)" using assms(2) by (simp add: via_found_ok_def)
  from via1_scan_total [OF this, of 0] obtain e dw' sig f where scan: "via1_scan ecm 0 (0, dw, replicate 8 0, 0) = Some (e, dw', sig, f)" "length dw' = 16"
    by (auto simp: via_found_ok_def)
  show ?thesis
  proof (cases "f = 3")
    case three: True
    obtain h j where front: "via1_hash_front ecm (k @ replicate 8 0) = Some (h, j)" "j \<le> e" "9 + e + 16 \<le> length ecm"
      using via1_front_total [OF scan(1) [unfolded three] assms(2), of "k @ replicate 8 0"] by blast
    have subs: "rd_sub ecm (9 + j) (e - j) = Some (take (e - j) (drop (9 + j) ecm))" "rd_sub ecm (9 + j) (e + 16 - j) = Some (take (e + 16 - j) (drop (9 + j) ecm))"
      using front(2,3) by (intro rd_sub_Some; linarith)+
    show ?thesis
    proof (cases "(k @ replicate 8 0) ! 7 AND 1 \<noteq> 0")
      case True
      have l: "length (fst (via1_unmask m key h w)) = length w" for m key h w by (rule length_unmask)
      show ?thesis
        using False k scan three front(1) k7 True subs(1) l by (simp add: via1_decrypt_ex_def Let_def split_beta)
    next
      case even: False
      show ?thesis using False k scan three front(1) k7 even subs(2) by (simp add: via1_decrypt_ex_def Let_def split_beta)
    qed
  next
    case no: False
    then show ?thesis using False k scan by (simp add: via1_decrypt_ex_def)
  qed
qed

lemma via26_total:
  assumes "emu_inv st" and "length dw = 16" and "length source = 16"
  shows "\<exists>rc d. via26_decrypt today st source ident i dw = Some (rc, d) \<and> length d = 16"
proof (cases "ident = 0 \<or> via_get_key today ident (CHR ''C'') 1 8 st = None")
  case True
  then show ?thesis using assms(2) by (auto simp: via26_decrypt_def)
next
  case False
  then obtain C1 where C1: "via_get_key today ident (CHR ''C'') 1 8 st = Some C1" by auto
  then have "length C1 = 8" by (rule via_key_length)
  then show ?thesis using False C1 assms by (simp add: via26_decrypt_def process_dw_2 via26_checksums_def Let_def)
qed

lemma hd_lengths:
  "length (hdSurEncPhase1_D2_0F_11 w) = 16" "length w = 16 \<Longrightarrow> length (hdSurEncPhase2_D2_0F_11 w) = 16"
  "length w = 16 \<Longrightarrow> length (hdSurEncPhase1_D2_13_15 w) = 16" "length w = 16 \<Longrightarrow> length (hdSurEncPhase2_D2_13_15 w) = 16"
proof -
  have r: "rev [0..<4] = [3, 2, 1, 0 :: nat]" by (simp add: upt_rec)
  have "length (hdSurEncPhase1_round i v) = 16" for i v by (simp add: hdSurEncPhase1_round_def Let_def)
  then show "length (hdSurEncPhase1_D2_0F_11 w) = 16" by (simp add: hdSurEncPhase1_D2_0F_11_def r)
  have upd: "length (fold (\<lambda>i B. B[i := f i B]) xs B) = length B" for f xs and B :: "u8 list" by (induction xs arbitrary: B) simp_all
  have m: "length (hdSurEncPhase2_mask b i) = length b" for b i by (simp add: hdSurEncPhase2_mask_def Let_def upd)
  have s: "length (hdSurEncPhase2_D2_0F_11_sub i a b) = 8" if "length a = 8" "length b = 8" for i a b
    using that m by (simp add: hdSurEncPhase2_D2_0F_11_sub_def)
  show "length w = 16 \<Longrightarrow> length (hdSurEncPhase2_D2_0F_11 w) = 16" by (simp add: hdSurEncPhase2_D2_0F_11_def Let_def s)
  have b: "length (case x of (a, b) \<Rightarrow> a @ b) = 16" if "both8 x" for x using that by (cases x) (simp add: both8_def)
  have swap: "both8 x \<Longrightarrow> both8 (prod.swap x)" for x by (simp add: both8_def)
  have "both8 (take 8 w, drop 8 w)" "both8 (drop 8 w, take 8 w)" if "length w = 16" using that by (simp_all add: both8_def)
  then show "length w = 16 \<Longrightarrow> length (hdSurEncPhase1_D2_13_15 w) = 16" "length w = 16 \<Longrightarrow> length (hdSurEncPhase2_D2_13_15 w) = 16"
    unfolding hd_phases by (blast intro: b swap hd_rounds_8)+
qed

lemma via3_prepost_length:
  assumes "\<And>k b. length b = 16 \<Longrightarrow> length (aes k b) = 16" and "length w = 16"
  shows "length (via3_pre aes k m w) = 16" "length (via3_post aes k m w) = 16"
  using assms by (simp_all add: via3_pre_def via3_post_def Let_def hd_lengths)

lemma via3_total:
  assumes "emu_inv st" and "\<And>k b. length b = 16 \<Longrightarrow> length (aes k b) = 16" and "length dw = 16" and "length source = 16"
  shows "\<exists>rc s d. via3_decrypt aes today st source ident i a m mix dw = Some (rc, s, d) \<and> length s = 16 \<and> length d = 16"
proof -
  let ?E = "if a \<noteq> 0xFF then via_get_key today ident (CHR ''E'') (unat a) 16 st else Some []"
  show ?thesis
  proof (cases "ident = 0 \<or> via_get_key today ident (CHR ''C'') 1 8 st = None \<or> ?E = None")
    case True
    then show ?thesis using assms(3,4) unfolding via3_decrypt_def Let_def by (auto split: option.split)
  next
    case False
    then obtain C1 E where k: "via_get_key today ident (CHR ''C'') 1 8 st = Some C1" "?E = Some E" by (metis not_None_eq)
    have C1: "length C1 = 8" by (rule via_key_length [OF k(1)])
    have ident: "ident \<noteq> 0" using False by blast
    define s where "s = (if a \<noteq> 0xFF \<and> m \<notin> {0x0D, 0x11, 0x15} then via3_pre aes E m source else source)"
    define w where "w = xor_bytes (take 8 s) C1 @ xor_bytes (drop 8 s) (take 8 s)"
    define v where "v = (if a \<noteq> 0xFF \<and> m \<in> {0x0D, 0x11, 0x15} then via3_post aes E m w else w)"
    define u where "u = (if ident = 0x030B00 \<and> mix then via3_final_mix v else v)"
    have s: "length s = 16" using assms by (simp add: s_def via3_prepost_length)
    then have "length w = 16" using C1 by (simp add: w_def)
    then have "length v = 16" using via3_prepost_length [OF assms(2)] by (simp add: v_def)
    then have u: "length u = 16" by (simp add: u_def via3_final_mix_def)
    have "via3_decrypt aes today st source ident i a m mix dw =
      Some (if ident = 0x030B00 \<and> \<not> (cccam_emu_is_valid_dcw u \<and> cccam_emu_is_valid_dcw (drop 8 u)) then EMU_CHECKSUM_ERROR else EMU_OK, s, copy_sub 0 u dw)"
      by (simp only: via3_decrypt_def Let_def if_not_P [OF ident] k option.case prod.case process_dw_2 [OF assms(1)] bind.simps
        s_def [symmetric] w_def [symmetric] v_def [symmetric] u_def [symmetric])
    then show ?thesis using s u assms(3) by simp
  qed
qed

lemma via_nano_total:
  assumes inv: "emu_inv st" "classic_keys_defined st" and aes: "\<And>k b. length b = 16 \<Longrightarrow> length (aes k b) = 16" and dw: "length dw = 16"
    and fits: "i + unat nanoLen \<le> length ecm"
  shows "\<exists>x. via_nano aes today st ecm i nanoCmd nanoLen s dw = Some x \<and>
    (case x of Inl (rc, e, d) \<Rightarrow> length e = length ecm \<and> length d = 16 | Inr s' \<Rightarrow> True)"
proof -
  have n: "3 \<le> unat nanoLen" if "\<not> nanoLen < 3" using that by (simp add: word_less_nat_alt)
  have n16: "16 \<le> unat nanoLen" if "nanoLen \<ge> 0x10" using that by (simp add: word_le_nat_alt)
  consider "nanoCmd = 0x40" | "nanoCmd = 0x90" | "nanoCmd = 0xD2" | "nanoCmd = 0xEA" "nanoLen \<ge> 0x10" "vs_version s < 2"
    | "nanoCmd = 0xEA" "nanoLen \<ge> 0x10" "vs_version s = 2" | "nanoCmd = 0xEA" "nanoLen \<ge> 0x10" "vs_version s = 3"
    | "nanoCmd \<notin> {0x40, 0x90, 0xD2}" "\<not> (nanoCmd = 0xEA \<and> nanoLen \<ge> 0x10 \<and> (vs_version s < 2 \<or> vs_version s = 2 \<or> vs_version s = 3))" by blast
  then show ?thesis
  proof cases
    case 1
    have "unat nanoLen \<noteq> 3" if "nanoLen \<noteq> 3" using that by (simp add: word_unat_eq_iff)
    then have "\<exists>s'. via_nano_40 ecm i nanoLen s = Some s'" using n fits by (force simp: via_nano_40_def)
    then show ?thesis using 1 by (auto simp: via_nano_def)
  next
    case 2
    have "\<exists>s'. via_nano_90 ecm i nanoLen s = Some s'" using n fits by (force simp: via_nano_90_def)
    then show ?thesis using 2 by (auto simp: via_nano_def)
  next
    case 3
    have "2 \<le> unat nanoLen" if "\<not> nanoLen < 2" using that by (simp add: word_less_nat_alt)
    then have "\<exists>s'. via_nano_D2 ecm i nanoLen s = Some s'" using fits by (force simp: via_nano_D2_def)
    then show ?thesis using 3 by (auto simp: via_nano_def)
  next
    case 4
    obtain rc d where "via1_decrypt_ex today st ecm (vs_currentIdent s) (vs_desKeyIndex s) dw = Some (rc, d)" "length d = 16"
      using via1_decrypt_total [OF inv(2) dw] by blast
    then show ?thesis using 4 by (simp add: via_nano_def via_nano_EA_def)
  next
    case 5
    have src: "rd_sub ecm i 16 = Some (take 16 (drop i ecm))" "length (take 16 (drop i ecm)) = 16" using n16 [OF 5(2)] fits by simp_all
    obtain rc d where "via26_decrypt today st (take 16 (drop i ecm)) (vs_currentIdent s) (vs_desKeyIndex s) dw = Some (rc, d)" "length d = 16"
      using via26_total [OF inv(1) dw src(2)] by blast
    then show ?thesis using 5 src by (simp add: via_nano_def via_nano_EA_def)
  next
    case 6
    have src: "rd_sub ecm i 16 = Some (take 16 (drop i ecm))" "length (take 16 (drop i ecm)) = 16" "i + 16 \<le> length ecm" using n16 [OF 6(2)] fits by simp_all
    obtain mix where mix: "via_final_mix ecm s = Some mix" by (force simp: via_final_mix_def)
    show ?thesis
    proof (cases mix)
      case None
      then show ?thesis using 6 mix by (simp add: via_nano_def via_nano_EA_def)
    next
      case (Some m)
      obtain rc z d where "via3_decrypt aes today st (take 16 (drop i ecm)) (vs_currentIdent s) (vs_desKeyIndex s) (vs_aesKeyIndex s) (vs_aesMode s) m dw
          = Some (rc, z, d)" "length z = 16" "length d = 16"
        using via3_total [where aes = aes, OF inv(1) aes dw src(2)] by blast
      then show ?thesis using 6 mix Some src by (simp add: via_nano_def via_nano_EA_def)
    qed
  next
    case 7
    then show ?thesis by (auto simp: via_nano_def via_nano_EA_def)
  qed
qed

lemma via_loop_total:
  assumes inv: "emu_inv st" "classic_keys_defined st" and aes: "\<And>k b. length b = 16 \<Longrightarrow> length (aes k b) = 16" and dw: "length dw = 16"
  shows "via_good (length ecm) (via_loop aes today st ecm i s dw)"
proof (induction "length ecm - i" arbitrary: i s rule: less_induct)
  case less
  show ?case
  proof (cases "length ecm \<le> i + 2 \<or> i + 2 + unat (ecm ! (i + 1)) > length ecm")
    case True
    then show ?thesis using dw by (subst via_loop.simps) (auto simp: via_good_def)
  next
    case False
    then have fits: "i + 2 + unat (ecm ! (i + 1)) \<le> length ecm" by simp
    obtain x where x: "via_nano aes today st ecm (i + 2) (ecm ! i) (ecm ! (i + 1)) s dw = Some x"
      "case x of Inl (rc, e, d) \<Rightarrow> length e = length ecm \<and> length d = 16 | Inr s' \<Rightarrow> True"
      using via_nano_total [where aes = aes, OF inv aes dw fits] by blast
    show ?thesis
    proof (cases x)
      case (Inl r)
      then show ?thesis using False x by (cases r) (simp add: via_loop.simps [of _ _ _ _ i] via_good_def)
    next
      case (Inr s')
      let ?i = "i + 2 + (if ecm ! i = 0x80 \<or> ecm ! i = 0xDD then 0 else unat (ecm ! (i + 1)))"
      have "length ecm - ?i < length ecm - i" using False by auto
      from less.hyps [OF this] have "via_good (length ecm) (via_loop aes today st ecm ?i s' dw)" .
      moreover have "via_loop aes today st ecm i s dw = via_loop aes today st ecm ?i s' dw"
        using False x(1) Inr by (subst via_loop.simps) simp
      ultimately show ?thesis by simp
    qed
  qed
qed

subsection \<open>Properties\<close>

text \<open>
  C14: A Viaccess 1 ECM made with the eight bytes of the operational key opens to its control words, with and without
  the masking that the bits of key byte 7 ask for, and any other signature is reported as a checksum error (with the words
  already written). If that key byte is 0, the run is undefined, as half of the prepared key was never set.
\<close>

theorem via1_ecm_opens:
  assumes "via_get_key today (via_ident p0 p1 (p2 AND 0xF0)) (CHR ''0'') (unat (p2 AND 0x0F)) 8 st = Some key8"
    and "via_ident p0 p1 (p2 AND 0xF0) \<noteq> 0" and "p0 < 2" and "length head = 4" and "length cw = 16" and "length signature = 8" and "length dw = 16"
  shows "cccam_emu_viaccess_ecm aes today st (via1_head_end key8 head p0 p1 p2 cw signature) dw =
    (if key8 ! 7 = 0 then None
     else Some (if signature = via1_signature key8 cw then EMU_OK else EMU_CHECKSUM_ERROR, via1_head_end key8 head p0 p1 p2 cw signature, cw))"
proof -
  define sec where "sec = via1_head_end key8 head p0 p1 p2 cw signature"
  have w: "length (fst (via1_head_end_words key8 cw)) = 16" by (rule length_head_end_words [OF assms(5)])
  note r = head_end_rds [OF assms(4) w assms(6) sec_def [unfolded via1_head_end_def]]
  let ?s = "via_state_initial\<lparr>vs_version := p0, vs_currentIdent := via_ident p0 p1 (p2 AND 0xF0), vs_desKeyIndex := p2 AND 0x0F,
    vs_keySelectPos := 10, vs_providerKeyLen := 3\<rparr>"
  have p0: "p0 \<noteq> 3" using assms(3) by auto
  have "via_loop aes today st sec 4 via_state_initial dw = via_loop aes today st sec 9 ?s dw"
    using r p0 by (subst via_loop.simps) (simp add: via_nano_def via_nano_90_def)
  also have "\<dots> = map_option (\<lambda>(rc, dw). (rc, sec, dw)) (via1_decrypt_ex today st sec (via_ident p0 p1 (p2 AND 0xF0)) (p2 AND 0x0F) dw)"
    using r assms(3) by (subst via_loop.simps) (auto simp: via_nano_def via_nano_EA_def split: option.split)
  finally show ?thesis
    using via1_opens [OF assms(1,2,4-7), of p0 p1 p2] r(1) by (simp add: cccam_emu_viaccess_ecm_def sec_def [symmetric])
qed

definition via_example_keys :: emu where
  "via_example_keys = emu_store_initial\<lparr>em_keys :=
     [\<lparr>ek_type = CHR ''F'', ek_provider = 0x010020, ek_index = 1, ek_name = [], ek_date = 0, ek_data = [1, 2, 3, 4, 5, 6, 7, 9]\<rparr>,
      \<lparr>ek_type = CHR ''F'', ek_provider = 0x020020, ek_index = 0xC1, ek_name = [], ek_date = 0, ek_data = [9, 8, 7, 6, 5, 4, 3, 2]\<rparr>], em_count := 2\<rparr>"

lemma via_example_found:
  "via_get_key 20260101 0x010020 (CHR ''0'') (Suc 0) 8 via_example_keys = Some [1, 2, 3, 4, 5, 6, 7, 9]"
  "via_get_key 20260101 0x020020 (CHR ''C'') 1 8 via_example_keys = Some [9, 8, 7, 6, 5, 4, 3, 2]"
  by code_simp+

lemma via_example_inv: "emu_inv via_example_keys" "classic_keys_defined via_example_keys"
  by (simp_all add: emu_inv_def classic_keys_defined_def via_example_keys_def key_ok_def key_types_def EMU_MAX_KEYS_def)

lemma via1_ecm_opens_witness:
  "cccam_emu_viaccess_ecm (\<lambda>k b. b) 20260101 via_example_keys (via1_head_end [1, 2, 3, 4, 5, 6, 7, 9] [0x80, 0x70, 34, 0] 1 0 0x21 (replicate 16 5) (replicate 8 0))
     (replicate 16 0) =
    (if [1, 2, 3, 4, 5, 6, 7, 9 :: u8] ! 7 = 0 then None
     else Some (if replicate 8 0 = via1_signature [1, 2, 3, 4, 5, 6, 7, 9] (replicate 16 5) then EMU_OK else EMU_CHECKSUM_ERROR,
       via1_head_end [1, 2, 3, 4, 5, 6, 7, 9] [0x80, 0x70, 34, 0] 1 0 0x21 (replicate 16 5) (replicate 8 0), replicate 16 5))"
  by (rule via1_ecm_opens) (simp_all add: via_ident_def via_example_found)

text \<open>
  C15: The versions 2.6 and 3 of Viaccess never use their core cipher: its key T1 of 300 bytes cannot be in the store, and its
  failure is not looked at. The output is the section XOR the key C1 and itself, with new checksums in version 2.6 and, in
  version 3, inside the over-encryption when an AES key is selected and found (before the core for the modes other than 0D, 11
  and 15, otherwise after it); the operational key has no part in it. It is delivered as a success, but for the
  provider 0x030B00 in version 3 only when it has the checksums of a word.
\<close>

theorem via_words_not_decrypted:
  assumes "emu_inv st" and "ident \<noteq> 0" and "via_get_key today ident (CHR ''C'') 1 8 st = Some c1"
    and "E = (if a \<noteq> 0xFF then via_get_key today ident (CHR ''E'') (unat a) 16 st else Some [])"
    and "s = (if a \<noteq> 0xFF \<and> mode \<notin> {0x0D, 0x11, 0x15} then via3_pre aes (the E) mode source else source)"
    and "w = xor_bytes (take 8 s) c1 @ xor_bytes (drop 8 s) (take 8 s)"
    and "v = (if a \<noteq> 0xFF \<and> mode \<in> {0x0D, 0x11, 0x15} then via3_post aes (the E) mode w else w)"
    and "u = (if ident = 0x030B00 \<and> mix then via3_final_mix v else v)"
  shows "via26_decrypt today st source ident i dw =
      Some (EMU_OK, copy_sub 0 (via26_checksums (xor_bytes (take 8 source) c1) @ via26_checksums (xor_bytes (take 8 (drop 8 source)) (take 8 source))) dw) \<and>
    via3_decrypt aes today st source ident i a mode mix dw =
      (if E = None then Some (EMU_KEY_NOT_FOUND, source, dw)
       else Some (if ident = 0x030B00 \<and> \<not> (cccam_emu_is_valid_dcw u \<and> cccam_emu_is_valid_dcw (drop 8 u)) then EMU_CHECKSUM_ERROR else EMU_OK,
         s, copy_sub 0 u dw))"
proof
  show "via26_decrypt today st source ident i dw =
      Some (EMU_OK, copy_sub 0 (via26_checksums (xor_bytes (take 8 source) c1) @ via26_checksums (xor_bytes (take 8 (drop 8 source)) (take 8 source))) dw)"
    using assms(1-3) by (simp add: via26_decrypt_def process_dw_2 Let_def)
next
  show "via3_decrypt aes today st source ident i a mode mix dw =
      (if E = None then Some (EMU_KEY_NOT_FOUND, source, dw)
       else Some (if ident = 0x030B00 \<and> \<not> (cccam_emu_is_valid_dcw u \<and> cccam_emu_is_valid_dcw (drop 8 u)) then EMU_CHECKSUM_ERROR else EMU_OK,
         s, copy_sub 0 u dw))"
  proof (cases E)
    case None
    have n: "(if a \<noteq> 0xFF then via_get_key today ident (CHR ''E'') (unat a) 16 st else Some []) = None" using assms(4) None by simp
    show ?thesis by (simp only: via3_decrypt_def Let_def if_not_P [OF assms(2)] assms(3) n None option.case prod.case simp_thms if_True)
  next
    case (Some e)
    have k: "(if a \<noteq> 0xFF then via_get_key today ident (CHR ''E'') (unat a) 16 st else Some []) = Some e" using assms(4) Some by simp
    have e: "the E = e" using Some by simp
    have ne: "E \<noteq> None" using Some by simp
    show ?thesis
      unfolding if_not_P [OF ne]
      by (simp only: via3_decrypt_def Let_def if_not_P [OF assms(2)] assms(3) k option.case prod.case process_dw_2 [OF assms(1)] bind.simps
        assms(5) [unfolded e, symmetric] assms(6) [symmetric] assms(7) [unfolded e, symmetric] assms(8) [symmetric])
  qed
qed

lemma via_words_not_decrypted_witness:
  "via26_decrypt 20260101 via_example_keys (replicate 16 1) 0x020020 0 (replicate 16 0) =
      Some (EMU_OK, copy_sub 0 (via26_checksums (xor_bytes (replicate 8 1) [9, 8, 7, 6, 5, 4, 3, 2]) @ via26_checksums (xor_bytes (replicate 8 1) (replicate 8 1))) (replicate 16 0))
   \<and> via3_decrypt (\<lambda>k b. b) 20260101 via_example_keys (replicate 16 1) 0x020020 0 0xFF 0 False (replicate 16 0) =
      Some (EMU_OK, replicate 16 1, copy_sub 0 (xor_bytes (replicate 8 1) [9, 8, 7, 6, 5, 4, 3, 2] @ xor_bytes (replicate 8 1) (replicate 8 1)) (replicate 16 0))"
  using via_words_not_decrypted [OF via_example_inv(1) _ via_example_found(2) refl refl refl refl refl, where source = "replicate 16 1" and dw = "replicate 16 0"
    and i = 0 and aes = "\<lambda>k b. b" and mode = 0 and mix = False and a = "0xFF"] by simp

text \<open>
  The two phases of the over-encryption D2 13 and 15 are a network of eight rounds and its reverse: the second undoes
  the first.
\<close>

theorem via_overencryption_undone:
  assumes "length cws = 16"
  shows "hdSurEncPhase2_D2_13_15 (hdSurEncPhase1_D2_13_15 cws) = cws"
  by (rule hd_phases_undone [OF assms])

lemma via_overencryption_undone_witness:
  "hdSurEncPhase2_D2_13_15 (hdSurEncPhase1_D2_13_15 [1, 2, 3, 4, 5, 6, 7, 8, 9, 10, 11, 12, 13, 14, 15, 16]) = [1, 2, 3, 4, 5, 6, 7, 8, 9, 10, 11, 12, 13, 14, 15, 16]"
  by (rule via_overencryption_undone) simp

text \<open>
  C16: Whatever the section is, the engine reads and writes only inside it and inside the 16 bytes of the output, for every
  store that can be reached in which no key of eight bytes ends in 0; the section keeps its length.
\<close>

theorem viaccess_ecm_defined:
  assumes "emu_inv st" and "classic_keys_defined st" and "\<And>k b. length b = 16 \<Longrightarrow> length (aes k b) = 16" and "length dw = 16"
  shows "\<exists>rc ecm' dw'. cccam_emu_viaccess_ecm aes today st ecm dw = Some (rc, ecm', dw') \<and> length ecm' = length ecm \<and> length dw' = 16"
  using via_loop_total [where aes = aes, OF assms, of ecm today 4 via_state_initial] assms(4) by (auto simp: cccam_emu_viaccess_ecm_def via_good_def)

lemma viaccess_ecm_defined_witness:
  "\<exists>rc ecm' dw'. cccam_emu_viaccess_ecm (\<lambda>k b. b) 20260101 via_example_keys [0x80, 0x70, 7, 0, 0x90, 3, 2, 0, 0x20, 0xEA, 40] (replicate 16 0) = Some (rc, ecm', dw')
     \<and> length ecm' = length [0x80, 0x70, 7, 0, 0x90, 3, 2, 0, 0x20, 0xEA, 40 :: u8] \<and> length dw' = 16"
  by (rule viaccess_ecm_defined) (simp_all add: via_example_inv)

end
