(* ===== verification/Powervu_Tables.thy ===== *)
theory Powervu_Tables
  imports Prelude
begin

text \<open>
  The tables of the PowerVU engine, \<open>src/CCshare/cccam3_emu_powervu.c\<close>: those of the checksum, of the hash
  modes and masks, of the parity of DES keys and of the S-boxes.
\<close>

definition pvu_crcTable :: "u8 list" where
  "pvu_crcTable =
     [0x00, 0x07, 0x0E, 0x09, 0x1C, 0x1B, 0x12, 0x15, 0x38, 0x3F, 0x36, 0x31, 0x24, 0x23, 0x2A, 0x2D,
      0x70, 0x77, 0x7E, 0x79, 0x6C, 0x6B, 0x62, 0x65, 0x48, 0x4F, 0x46, 0x41, 0x54, 0x53, 0x5A, 0x5D,
      0xE0, 0xE7, 0xEE, 0xE9, 0xFC, 0xFB, 0xF2, 0xF5, 0xD8, 0xDF, 0xD6, 0xD1, 0xC4, 0xC3, 0xCA, 0xCD,
      0x90, 0x97, 0x9E, 0x99, 0x8C, 0x8B, 0x82, 0x85, 0xA8, 0xAF, 0xA6, 0xA1, 0xB4, 0xB3, 0xBA, 0xBD,
      0xC7, 0xC0, 0xC9, 0xCE, 0xDB, 0xDC, 0xD5, 0xD2, 0xFF, 0xF8, 0xF1, 0xF6, 0xE3, 0xE4, 0xED, 0xEA,
      0xB7, 0xB0, 0xB9, 0xBE, 0xAB, 0xAC, 0xA5, 0xA2, 0x8F, 0x88, 0x81, 0x86, 0x93, 0x94, 0x9D, 0x9A,
      0x27, 0x20, 0x29, 0x2E, 0x3B, 0x3C, 0x35, 0x32, 0x1F, 0x18, 0x11, 0x16, 0x03, 0x04, 0x0D, 0x0A,
      0x57, 0x50, 0x59, 0x5E, 0x4B, 0x4C, 0x45, 0x42, 0x6F, 0x68, 0x61, 0x66, 0x73, 0x74, 0x7D, 0x7A,
      0x89, 0x8E, 0x87, 0x80, 0x95, 0x92, 0x9B, 0x9C, 0xB1, 0xB6, 0xBF, 0xB8, 0xAD, 0xAA, 0xA3, 0xA4,
      0xF9, 0xFE, 0xF7, 0xF0, 0xE5, 0xE2, 0xEB, 0xEC, 0xC1, 0xC6, 0xCF, 0xC8, 0xDD, 0xDA, 0xD3, 0xD4,
      0x69, 0x6E, 0x67, 0x60, 0x75, 0x72, 0x7B, 0x7C, 0x51, 0x56, 0x5F, 0x58, 0x4D, 0x4A, 0x43, 0x44,
      0x19, 0x1E, 0x17, 0x10, 0x05, 0x02, 0x0B, 0x0C, 0x21, 0x26, 0x2F, 0x28, 0x3D, 0x3A, 0x33, 0x34,
      0x4E, 0x49, 0x40, 0x47, 0x52, 0x55, 0x5C, 0x5B, 0x76, 0x71, 0x78, 0x7F, 0x6A, 0x6D, 0x64, 0x63,
      0x3E, 0x39, 0x30, 0x37, 0x22, 0x25, 0x2C, 0x2B, 0x06, 0x01, 0x08, 0x0F, 0x1A, 0x1D, 0x14, 0x13,
      0xAE, 0xA9, 0xA0, 0xA7, 0xB2, 0xB5, 0xBC, 0xBB, 0x96, 0x91, 0x98, 0x9F, 0x8A, 0x8D, 0x84, 0x83,
      0xDE, 0xD9, 0xD0, 0xD7, 0xC2, 0xC5, 0xCC, 0xCB, 0xE6, 0xE1, 0xE8, 0xEF, 0xFA, 0xFD, 0xF4, 0xF3]"

definition pvu_pad :: "u8 list" where
  "pvu_pad =
     [0x01, 0x02, 0x22, 0x04, 0x20, 0x2A, 0x1F, 0x03, 0x04, 0x06, 0x02, 0x0C, 0x2B, 0x2B, 0x01, 0x7B]"

definition pvu_md5_T :: "u32 list" where
  "pvu_md5_T =
     [0x783E16F6, 0xC267AC13, 0xA2B17F12, 0x6B8A31A4, 0xF910654D, 0xB702DBCB, 0x266CEF60, 0x5145E47C,
      0xB92E00D6, 0xE80A4A64, 0x8A07FA77, 0xBA7D89A9, 0xEBED8022, 0x653AAF2B, 0xF118B03B, 0x6CC16544,
      0x96EB6583, 0xF4E27E35, 0x1ABB119E, 0x068D3EF2, 0xDAEAA8A5, 0x3C312A3D, 0x59538388, 0xA100772F,
      0xAB0165CE, 0x979959E7, 0x5DD8F53D, 0x189662BA, 0xFD021A9C, 0x6BC2D338, 0x1EFF667E, 0x40C66888,
      0x6E9F07FF, 0x0CEF442F, 0x82D20190, 0x4E8CAEAC, 0x0F7CB305, 0x2E73FBE7, 0x1CE884A2, 0x7A60BD52,
      0xC348B30D, 0x081CE3AA, 0xA12220E7, 0x38C7EC79, 0xCBD8DD3A, 0x62B4FBA5, 0xAD2A63DB, 0xE4D0852E,
      0x53DE980F, 0x9C8DDA59, 0xA6B4CEDE, 0xB48A7692, 0x0E2C46A4, 0xEB9367CB, 0x165D72EE, 0x75532B45,
      0xB9CA8E97, 0x08C8837B, 0x966F917B, 0x527515B4, 0xF27A5E5D, 0xB71E6267, 0x7603D7E6, 0x9837DD69]"

definition pvu_md5_r :: "nat list" where
  "pvu_md5_r =
     [0x06, 0x0A, 0x0F, 0x15, 0x05, 0x09, 0x0E, 0x14, 0x04, 0x0B, 0x10, 0x17, 0x07, 0x0C, 0x11, 0x16]"

definition pvu_md5_init :: "nat list" where
  "pvu_md5_init =
     [0, 1, 5, 0]"

definition pvu_md5_incr :: "nat list" where
  "pvu_md5_incr =
     [1, 5, 3, 7]"

definition pvu_md5_h :: "u32 list" where
  "pvu_md5_h =
     [0xEAD81D2E, 0xCE4DC6E9, 0xF9B5C301, 0x10325476]"

definition pvu_02_h :: "u32 list" where
  "pvu_02_h =
     [0x81887F3A, 0x36CCA480, 0x99056FB1, 0x79705BAE]"

definition pvu_03_T :: "u32 list" where
  "pvu_03_T =
     [0xC88F3F2E, 0x967506BA, 0xDA877A7B, 0x0DECCDFE]"

definition pvu_03_T2 :: "u32 list" where
  "pvu_03_T2 =
     [0x01F42668, 0x39C7CDA5, 0xD490E2FE, 0x9965235D]"

definition pvu_03_r :: "nat list" where
  "pvu_03_r =
     [0x0B, 0x0E, 0x0F, 0x0C, 0x05, 0x08, 0x07, 0x09, 0x0B, 0x0D, 0x0E, 0x0F, 0x06, 0x07, 0x09, 0x08,
      0x07, 0x06, 0x08, 0x0D, 0x0B, 0x09, 0x07, 0x0F, 0x07, 0x0C, 0x0F, 0x09, 0x0B, 0x07, 0x0D, 0x0C]"

definition pvu_03_incr :: "nat list" where
  "pvu_03_incr =
     [0x07, 0x04, 0x0D, 0x01, 0x0A, 0x06, 0x0F, 0x03, 0x0C, 0x00, 0x09, 0x05, 0x02, 0x0E, 0x0B, 0x08,
      0x05, 0x0D, 0x02, 0x00, 0x04, 0x09, 0x03, 0x08, 0x01, 0x0A, 0x07, 0x0B, 0x06, 0x0F, 0x0C, 0x0E]"

definition pvu_03_h :: "u32 list" where
  "pvu_03_h =
     [0xC8616857, 0x9D3F5B8E, 0x4D7B8F76, 0x97BC8D80]"

definition pvu_table04 :: "u8 list" where
  "pvu_table04 =
     [0x02, 0x03, 0x07, 0x0B, 0x0D, 0x08, 0x00, 0x01, 0x2B, 0x2D, 0x28, 0x20, 0x21, 0x0A, 0x0C, 0x0E,
      0x22, 0x36, 0x23, 0x27, 0x29, 0x24, 0x25, 0x26, 0x2A, 0x3C, 0x3E, 0x3F, 0x0F, 0x2C, 0x2E, 0x2F,
      0x12, 0x13, 0x17, 0x1B, 0x1C, 0x18, 0x10, 0x11, 0x19, 0x14, 0x15, 0x16, 0x1A, 0x09, 0x04, 0x05,
      0x32, 0x33, 0x37, 0x3B, 0x06, 0x1C, 0x1E, 0x1F, 0x3D, 0x38, 0x30, 0x31, 0x39, 0x34, 0x35, 0x3A]"

definition pvu_table05 :: "u8 list" where
  "pvu_table05 =
     [0x08, 0x09, 0x0A, 0x03, 0x04, 0x3F, 0x27, 0x28, 0x29, 0x2A, 0x05, 0x0B, 0x1B, 0x1C, 0x1C, 0x1E,
      0x20, 0x0C, 0x0D, 0x22, 0x23, 0x24, 0x00, 0x01, 0x02, 0x06, 0x07, 0x25, 0x26, 0x0E, 0x0F, 0x21,
      0x10, 0x11, 0x12, 0x2E, 0x2F, 0x13, 0x14, 0x15, 0x2B, 0x2C, 0x2D, 0x16, 0x17, 0x18, 0x19, 0x1A,
      0x30, 0x31, 0x37, 0x3B, 0x3C, 0x3D, 0x3E, 0x1F, 0x38, 0x39, 0x32, 0x33, 0x34, 0x35, 0x36, 0x3A]"

definition pvu_table06 :: "u8 list" where
  "pvu_table06 =
     [0x00, 0x01, 0x02, 0x06, 0x07, 0x08, 0x03, 0x2A, 0x2B, 0x2C, 0x2E, 0x2F, 0x04, 0x05, 0x09, 0x0D,
      0x20, 0x21, 0x22, 0x26, 0x27, 0x3A, 0x3B, 0x3C, 0x3E, 0x3F, 0x10, 0x11, 0x12, 0x16, 0x17, 0x28,
      0x18, 0x13, 0x14, 0x15, 0x19, 0x1C, 0x1A, 0x1B, 0x1C, 0x1E, 0x1F, 0x23, 0x24, 0x25, 0x29, 0x2D,
      0x30, 0x31, 0x32, 0x36, 0x37, 0x38, 0x33, 0x34, 0x0A, 0x0B, 0x0C, 0x0E, 0x0F, 0x35, 0x39, 0x3D]"

definition pvu_table07 :: "u8 list" where
  "pvu_table07 =
     [0x10, 0x11, 0x12, 0x17, 0x1C, 0x1E, 0x0E, 0x38, 0x39, 0x3A, 0x13, 0x14, 0x29, 0x2A, 0x16, 0x1F,
      0x00, 0x01, 0x02, 0x3C, 0x3D, 0x3E, 0x3F, 0x07, 0x08, 0x09, 0x03, 0x04, 0x05, 0x06, 0x3B, 0x0A,
      0x20, 0x21, 0x22, 0x19, 0x1A, 0x1B, 0x1C, 0x0B, 0x0C, 0x15, 0x23, 0x24, 0x25, 0x26, 0x18, 0x0F,
      0x30, 0x31, 0x2B, 0x33, 0x34, 0x35, 0x36, 0x37, 0x27, 0x28, 0x2C, 0x2D, 0x2E, 0x2F, 0x32, 0x0D]"

definition pvu_table08 :: "u8 list" where
  "pvu_table08 =
     [0x10, 0x11, 0x1E, 0x17, 0x18, 0x19, 0x12, 0x13, 0x14, 0x1C, 0x1C, 0x15, 0x0D, 0x05, 0x06, 0x0A,
      0x00, 0x01, 0x0E, 0x07, 0x08, 0x09, 0x02, 0x2D, 0x25, 0x26, 0x2A, 0x2B, 0x2F, 0x03, 0x04, 0x0C,
      0x20, 0x21, 0x2E, 0x27, 0x28, 0x29, 0x30, 0x31, 0x3E, 0x37, 0x38, 0x39, 0x22, 0x23, 0x24, 0x2C,
      0x32, 0x33, 0x34, 0x3C, 0x3D, 0x35, 0x36, 0x3A, 0x3B, 0x0B, 0x0F, 0x16, 0x1A, 0x1B, 0x1F, 0x3F]"

definition pvu_table09 :: "u8 list" where
  "pvu_table09 =
     [0x20, 0x21, 0x24, 0x22, 0x23, 0x2A, 0x2B, 0x33, 0x35, 0x38, 0x39, 0x36, 0x2D, 0x2C, 0x2E, 0x2F,
      0x00, 0x01, 0x04, 0x02, 0x25, 0x28, 0x08, 0x09, 0x06, 0x07, 0x0A, 0x0B, 0x0D, 0x0C, 0x0E, 0x0F,
      0x10, 0x11, 0x14, 0x12, 0x13, 0x15, 0x19, 0x16, 0x29, 0x26, 0x03, 0x17, 0x1A, 0x1C, 0x1C, 0x1E,
      0x30, 0x31, 0x34, 0x32, 0x37, 0x3A, 0x3B, 0x3D, 0x3C, 0x3E, 0x3F, 0x1B, 0x05, 0x18, 0x27, 0x1F]"

definition pvu_table0A :: "u8 list" where
  "pvu_table0A =
     [0x00, 0x04, 0x05, 0x0B, 0x0C, 0x06, 0x09, 0x0A, 0x0E, 0x0D, 0x0F, 0x25, 0x15, 0x1B, 0x1C, 0x16,
      0x10, 0x11, 0x01, 0x02, 0x03, 0x07, 0x08, 0x12, 0x13, 0x17, 0x18, 0x14, 0x23, 0x27, 0x28, 0x24,
      0x30, 0x31, 0x32, 0x33, 0x37, 0x38, 0x34, 0x35, 0x3B, 0x3C, 0x20, 0x21, 0x22, 0x2B, 0x2C, 0x26,
      0x36, 0x39, 0x3A, 0x3E, 0x3D, 0x19, 0x1A, 0x1E, 0x1C, 0x1F, 0x3F, 0x29, 0x2A, 0x2E, 0x2D, 0x2F]"

definition pvu_table0F :: "u8 list" where
  "pvu_table0F =
     [0xC7, 0x45, 0x15, 0x71, 0x61, 0x07, 0x05, 0x47]"

definition pvu_table10 :: "u8 list" where
  "pvu_table10 =
     [0x0F, 0x47, 0x2B, 0x6C, 0xAD, 0x0F, 0xB3, 0xEA]"

definition pvu_table11 :: "u8 list" where
  "pvu_table11 =
     [0xB1, 0x46, 0xD1, 0x66, 0x5D, 0x28, 0x59, 0xD2]"

definition pvu_table12 :: "u8 list" where
  "pvu_table12 =
     [0x0B, 0x4B, 0xD7, 0x68, 0x5F, 0xAD, 0x4B, 0xBB]"

definition pvu_table13 :: "u8 list" where
  "pvu_table13 =
     [0x4F, 0x4E, 0xE1, 0x6A, 0x21, 0xD3, 0xF7, 0xA6]"

definition pvu_table14 :: "u8 list" where
  "pvu_table14 =
     [0xDD, 0x39, 0xB9, 0x65, 0x03, 0x91, 0xF1, 0xAC]"

definition pvu_table15 :: "u8 list" where
  "pvu_table15 =
     [0x3F, 0x50, 0xB5, 0x6F, 0x37, 0xC9, 0x13, 0x5D]"

definition pvu_table16 :: "u8 list" where
  "pvu_table16 =
     [0xF9, 0x5C, 0xFD, 0x72, 0x19, 0x42, 0x23, 0x6B]"

definition pvu_table17 :: "u8 list" where
  "pvu_table17 =
     [0xDF, 0x60, 0x93, 0x64, 0x33, 0x16, 0xB3, 0x8A]"

definition pvu_table18 :: "u8 list" where
  "pvu_table18 =
     [0x09, 0x64, 0x5F, 0x6B, 0xFB, 0x21, 0x19, 0xE4]"

definition pvu_table19 :: "nat list" where
  "pvu_table19 =
     [0x02, 0x03, 0x05, 0x10]"

definition pvu_table1A :: "nat list" where
  "pvu_table1A =
     [0x01, 0x05, 0x08, 0x10]"

definition pvu_table1B :: "nat list" where
  "pvu_table1B =
     [0x03, 0x07, 0x08, 0x10]"

definition pvu_table1C :: "nat list" where
  "pvu_table1C =
     [0x03, 0x05, 0x0A, 0x10]"

definition pvu_table1D :: "nat list" where
  "pvu_table1D =
     [0x03, 0x07, 0x0A, 0x10]"

definition pvu_table1E :: "nat list" where
  "pvu_table1E =
     [0x01, 0x05, 0x0B, 0x10]"

definition pvu_table1F :: "nat list" where
  "pvu_table1F =
     [0x06, 0x07, 0x0B, 0x10]"

definition pvu_table20 :: "nat list" where
  "pvu_table20 =
     [0x01, 0x08, 0x0B, 0x10]"

definition pvu_table21 :: "nat list" where
  "pvu_table21 =
     [0x01, 0x07, 0x0C, 0x10]"

definition pvu_table22 :: "nat list" where
  "pvu_table22 =
     [0x05, 0x0B, 0x0C, 0x10]"

definition pvu_mode_03_table :: "u8 list" where
  "pvu_mode_03_table =
     [0x68, 0xCE, 0xE7, 0x71, 0xCC, 0x3A, 0x0B, 0x6E, 0x2A, 0x43, 0x17, 0x07, 0x5A, 0xD9, 0x14, 0x5B,
      0xB0, 0x8E, 0xA8, 0x7F, 0xD8, 0xA2, 0xCF, 0x73, 0xC2, 0xB9, 0x5D, 0x46, 0xDD, 0x2C, 0xE2, 0x2D,
      0xFD, 0x50, 0xE9, 0x7C, 0x28, 0x72, 0x9B, 0xAA, 0xEC, 0x24, 0x74, 0xAB, 0x00, 0x1C, 0x8B, 0x65,
      0x38, 0x13, 0x22, 0x82, 0xAC, 0x9A, 0x4D, 0x2B, 0xEA, 0x04, 0x31, 0x84, 0x32, 0x3D, 0x36, 0x53,
      0x5F, 0x42, 0x96, 0xDE, 0x47, 0x08, 0x51, 0x4B, 0x3E, 0xD1, 0x1E, 0x12, 0xD2, 0x1F, 0x7D, 0x26,
      0xCD, 0x57, 0x8C, 0xB6, 0xD3, 0xF8, 0x11, 0xAD, 0x6A, 0x88, 0x95, 0x21, 0xE8, 0xBF, 0x6B, 0x27,
      0xBE, 0xA3, 0x33, 0xB8, 0x9E, 0xB3, 0x6C, 0xC3, 0x06, 0xC7, 0x6F, 0x99, 0x97, 0xDA, 0x09, 0xAF,
      0xAE, 0xCB, 0x79, 0x37, 0x55, 0x85, 0x8D, 0x2F, 0x8A, 0x70, 0xA1, 0x7A, 0x66, 0x29, 0x67, 0x0F,
      0xEB, 0x9C, 0xC8, 0xC4, 0xD6, 0x4C, 0xDF, 0x1A, 0xC0, 0x01, 0x64, 0xBC, 0x4E, 0xE1, 0x54, 0xD7,
      0x4F, 0xB7, 0x5E, 0xCA, 0xF0, 0x91, 0xE4, 0x59, 0x4A, 0xC6, 0x83, 0x8F, 0xBD, 0x61, 0xFF, 0x56,
      0x92, 0xF1, 0x5C, 0x77, 0xC9, 0x20, 0xF4, 0xE5, 0x10, 0x69, 0x03, 0x1D, 0xD5, 0x45, 0xF6, 0x0E,
      0xEF, 0xA0, 0xE3, 0x58, 0xFC, 0xED, 0x80, 0x16, 0xEE, 0xFA, 0x02, 0xF5, 0xB4, 0x0A, 0xE0, 0x0C,
      0xF7, 0xF9, 0xBA, 0x7E, 0x18, 0x78, 0x19, 0xB5, 0x0D, 0x44, 0x34, 0xD4, 0xDC, 0x30, 0x6D, 0x3B,
      0x63, 0x41, 0x48, 0x40, 0xA7, 0xA5, 0xC5, 0x98, 0x76, 0x3F, 0xC1, 0x25, 0x93, 0x49, 0xD0, 0x62,
      0x2E, 0x75, 0xDB, 0x94, 0xF3, 0x52, 0x05, 0x81, 0xFB, 0xBB, 0xA6, 0x89, 0x39, 0xA4, 0xF2, 0xA9,
      0xFE, 0x60, 0x3C, 0x15, 0xB1, 0x35, 0x86, 0x9D, 0x9F, 0x90, 0x1B, 0xE6, 0x7B, 0x23, 0x87, 0xB2]"

definition pvu_mode_04_buffer :: "u32 list" where
  "pvu_mode_04_buffer =
     [0x1F253724, 0x3E8136B3, 0x9677CEDF, 0x25B5E75A, 0x9494BC16, 0xCFD3FB34, 0xF37C75BB, 0x97D4632E]"

definition pvu_padding_cw_03 :: "u8 list" where
  "pvu_padding_cw_03 =
     [0x4A, 0x56, 0x7F, 0x16, 0xFC, 0x1F, 0x5B, 0x95, 0x19, 0xEF, 0x75, 0x14, 0x0E, 0x9E, 0x17, 0x3C,
      0xF5, 0xB7, 0xA0, 0x93, 0xA3, 0x0F, 0xFA, 0x38, 0x7A, 0x34, 0x6C, 0xDC, 0xFB, 0xB0, 0x24, 0x42,
      0x74, 0x72, 0x1C, 0xDC, 0x1E, 0xA1, 0x6D, 0xAB, 0xC8, 0x44, 0x53, 0xEF, 0x56, 0x00, 0xE9, 0x97,
      0x48, 0x77, 0xF8, 0x00, 0x8E, 0x0B, 0x78, 0xA2]"

definition pvu_padding_unmask_03 :: "u8 list" where
  "pvu_padding_unmask_03 =
     [0xB1, 0x7C, 0xD2, 0xA7, 0x5E, 0x45, 0x6C, 0x36, 0xF0, 0xB6, 0x81, 0xF3, 0x25, 0x06, 0x65, 0x06,
      0x6B, 0xBF, 0x4C, 0xE7, 0xED, 0x6E, 0x85, 0x00, 0xCC, 0xF2, 0x61, 0x48, 0x62, 0x24, 0x0E, 0x3C,
      0x05, 0x89, 0xA5, 0x39, 0x5A, 0x4E, 0x9B, 0xC8, 0x14, 0x78, 0xEA, 0xB6, 0xFB, 0xF8, 0x10, 0xE6,
      0x61, 0xF5, 0x3A, 0xBC, 0x5B, 0x79, 0x09, 0x97]"

definition pvu_padding_cw_04 :: "u8 list" where
  "pvu_padding_cw_04 =
     [0x18, 0xD6, 0x24, 0xA8, 0xDE, 0x14, 0xD8, 0x30, 0x3C, 0xB2, 0x24, 0x54, 0x17, 0x5A, 0x28, 0x61,
      0xBC, 0xB9, 0x29, 0xAD, 0xA5, 0x13, 0xD4, 0x24, 0x6D, 0x61, 0x40, 0xC8, 0xFD, 0x27, 0xD7, 0xFF,
      0x3E, 0x84, 0x50, 0xC2, 0x47, 0x4C, 0xD5, 0xC5, 0xF2, 0x79, 0xAD, 0x02, 0xC5, 0x05, 0x7B, 0xFD,
      0x60, 0x4A, 0x16, 0xE5, 0xAA, 0x0E, 0x97, 0x1C]"

definition pvu_padding_unmask_04 :: "u8 list" where
  "pvu_padding_unmask_04 =
     [0x0E, 0x4A, 0x85, 0x85, 0xF9, 0xC0, 0xCC, 0x00, 0xBA, 0x9B, 0x98, 0x35, 0x4C, 0xD2, 0xC1, 0x6C,
      0x87, 0x32, 0x9B, 0x82, 0x31, 0x5B, 0x1D, 0xB4, 0xB8, 0x98, 0x74, 0xFF, 0x31, 0x66, 0x08, 0x79,
      0x47, 0xCE, 0x96, 0x4D, 0xE9, 0x52, 0xCF, 0x8F, 0xEC, 0x5C, 0x07, 0xBC, 0x09, 0xA2, 0x82, 0x78,
      0x3D, 0xB9, 0xFF, 0x3F, 0x76, 0x72, 0x6F, 0x9C]"

definition pvu_padding_emm :: "u8 list" where
  "pvu_padding_emm =
     [0xB3, 0x60, 0x35, 0xC8, 0x5C, 0x26, 0xC1, 0xD0, 0x88, 0x86, 0x57, 0xB6, 0x45, 0xA7, 0xDF, 0x7E,
      0xF0, 0xA8, 0x49, 0xFB, 0x79, 0x6C, 0xAF, 0xB0]"

definition pvu_ecm_sourcePos :: "nat list" where
  "pvu_ecm_sourcePos =
     [0x04, 0x05, 0x06, 0x07, 0x0A, 0x0B, 0x0C, 0x0D, 0x0E, 0x0F, 0x10, 0x17, 0x1C, 0x1D, 0x1F, 0x23,
      0x24, 0x25, 0x26, 0x27, 0x29, 0x2C, 0x2D, 0x2E]"

definition pvu_ecm_destPos :: "nat list" where
  "pvu_ecm_destPos =
     [0x08, 0x09, 0x11, 0x18, 0x19, 0x1A, 0x1B, 0x1E, 0x20, 0x21, 0x22, 0x28, 0x2A, 0x2B, 0x2F, 0x30]"

definition pvu_seedCwPos :: "nat list" where
  "pvu_seedCwPos =
     [0x07, 0x0A, 0x04, 0x0D, 0x05, 0x0E, 0x06, 0x0B, 0x10, 0x0C, 0x0F]"

definition pvu_emm_sourcePos :: "nat list" where
  "pvu_emm_sourcePos =
     [0x03, 0x0C, 0x0D, 0x11, 0x15, 0x18, 0x1D, 0x1F, 0x25, 0x2A, 0x32, 0x35, 0x3A, 0x3B, 0x3E, 0x42,
      0x47, 0x48, 0x53, 0x58, 0x5C, 0x61, 0x66, 0x69, 0x71, 0x72, 0x78, 0x7B, 0x81, 0x84]"

definition pvu_emm_destPos :: "nat list" where
  "pvu_emm_destPos =
     [0x02, 0x08, 0x0B, 0x0E, 0x13, 0x16, 0x1E, 0x23, 0x28, 0x2B, 0x2F, 0x33, 0x38, 0x3C, 0x40, 0x44,
      0x4A, 0x4D, 0x54, 0x57, 0x5A, 0x63, 0x68, 0x6A, 0x70, 0x75, 0x76, 0x7D, 0x82, 0x85]"

definition pvu_tableFixParity :: "u8 list" where
  "pvu_tableFixParity =
     [0x01, 0x01, 0x02, 0x02, 0x04, 0x04, 0x07, 0x07, 0x08, 0x08, 0x0B, 0x0B, 0x0D, 0x0D, 0x0E, 0x0E,
      0x10, 0x10, 0x13, 0x13, 0x15, 0x15, 0x16, 0x16, 0x19, 0x19, 0x1A, 0x1A, 0x1C, 0x1C, 0x1F, 0x1F,
      0x20, 0x20, 0x23, 0x23, 0x25, 0x25, 0x26, 0x26, 0x29, 0x29, 0x2A, 0x2A, 0x2C, 0x2C, 0x2F, 0x2F,
      0x31, 0x31, 0x32, 0x32, 0x34, 0x34, 0x37, 0x37, 0x38, 0x38, 0x3B, 0x3B, 0x3D, 0x3D, 0x3E, 0x3E,
      0x40, 0x40, 0x43, 0x43, 0x45, 0x45, 0x46, 0x46, 0x49, 0x49, 0x4A, 0x4A, 0x4C, 0x4C, 0x4F, 0x4F,
      0x51, 0x51, 0x52, 0x52, 0x54, 0x54, 0x57, 0x57, 0x58, 0x58, 0x5B, 0x5B, 0x5D, 0x5D, 0x5E, 0x5E,
      0x61, 0x61, 0x62, 0x62, 0x64, 0x64, 0x67, 0x67, 0x68, 0x68, 0x6B, 0x6B, 0x6D, 0x6D, 0x6E, 0x6E,
      0x70, 0x70, 0x73, 0x73, 0x75, 0x75, 0x76, 0x76, 0x79, 0x79, 0x7A, 0x7A, 0x7C, 0x7C, 0x7F, 0x7F,
      0x80, 0x80, 0x83, 0x83, 0x85, 0x85, 0x86, 0x86, 0x89, 0x89, 0x8A, 0x8A, 0x8C, 0x8C, 0x8F, 0x8F,
      0x91, 0x91, 0x92, 0x92, 0x94, 0x94, 0x97, 0x97, 0x98, 0x98, 0x9B, 0x9B, 0x9D, 0x9D, 0x9E, 0x9E,
      0xA1, 0xA1, 0xA2, 0xA2, 0xA4, 0xA4, 0xA7, 0xA7, 0xA8, 0xA8, 0xAB, 0xAB, 0xAD, 0xAD, 0xAE, 0xAE,
      0xB0, 0xB0, 0xB3, 0xB3, 0xB5, 0xB5, 0xB6, 0xB6, 0xB9, 0xB9, 0xBA, 0xBA, 0xBC, 0xBC, 0xBF, 0xBF,
      0xC1, 0xC1, 0xC2, 0xC2, 0xC4, 0xC4, 0xC7, 0xC7, 0xC8, 0xC8, 0xCB, 0xCB, 0xCD, 0xCD, 0xCE, 0xCE,
      0xD0, 0xD0, 0xD3, 0xD3, 0xD5, 0xD5, 0xD6, 0xD6, 0xD9, 0xD9, 0xDA, 0xDA, 0xDC, 0xDC, 0xDF, 0xDF,
      0xE0, 0xE0, 0xE3, 0xE3, 0xE5, 0xE5, 0xE6, 0xE6, 0xE9, 0xE9, 0xEA, 0xEA, 0xEC, 0xEC, 0xEF, 0xEF,
      0xF1, 0xF1, 0xF2, 0xF2, 0xF4, 0xF4, 0xF7, 0xF7, 0xF8, 0xF8, 0xFB, 0xFB, 0xFD, 0xFD, 0xFE, 0xFE]"

definition PowerVu_A0_S_1 :: "u8 list" where
  "PowerVu_A0_S_1 =
     [0x33, 0xA4, 0x44, 0x3C, 0xCA, 0x2E, 0x75, 0x7B, 0xBC, 0xE6, 0xE5, 0x35, 0xA0, 0x55, 0xC9, 0xA2]"

definition PowerVu_A0_S_2 :: "u8 list" where
  "PowerVu_A0_S_2 =
     [0x5A, 0xB0, 0x2C, 0xBC, 0xDA, 0x32, 0xE6, 0x92, 0x40, 0x53, 0x6E, 0xF9, 0x69, 0x11, 0x1E, 0xFB]"

definition PowerVu_A0_S_3 :: "u8 list" where
  "PowerVu_A0_S_3 =
     [0x4E, 0x18, 0x9B, 0x19, 0x79, 0xFB, 0x01, 0xFA, 0xE3, 0xE1, 0x28, 0x3D, 0x32, 0xE4, 0x92, 0xEA]"

definition PowerVu_A0_S_4 :: "u8 list" where
  "PowerVu_A0_S_4 =
     [0x05, 0x6F, 0x37, 0x66, 0x35, 0xE1, 0x58, 0xD0, 0xB4, 0x6A, 0x97, 0xAE, 0xD8, 0x91, 0x27, 0x56]"

definition PowerVu_A0_S_5 :: "u8 list" where
  "PowerVu_A0_S_5 =
     [0x7B, 0x26, 0xAD, 0x34, 0x3D, 0x77, 0x39, 0x51, 0xE0, 0xE0, 0x48, 0x8C, 0x39, 0xF5, 0xE8, 0x47]"

definition PowerVu_A0_S_6 :: "u8 list" where
  "PowerVu_A0_S_6 =
     [0x74, 0xFA, 0x4D, 0x79, 0x42, 0x39, 0xD1, 0xA4, 0x99, 0xA3, 0x97, 0x07, 0xDF, 0x14, 0x3A, 0xC4]"

definition PowerVu_A0_S_7 :: "u8 list" where
  "PowerVu_A0_S_7 =
     [0xC6, 0x1E, 0x3C, 0x24, 0x11, 0x08, 0x5D, 0x6A, 0xEB, 0x97, 0xB9, 0x25, 0xA7, 0xFA, 0xE9, 0x1A]"

definition PowerVu_A0_S_8 :: "u8 list" where
  "PowerVu_A0_S_8 =
     [0x9A, 0xAD, 0x72, 0xD7, 0x7C, 0x68, 0x3B, 0x55, 0x1D, 0x4A, 0xA2, 0xB0, 0x38, 0xB9, 0x56, 0xD0]"

definition PowerVu_A0_S_9 :: "u8 list" where
  "PowerVu_A0_S_9 =
     [0x61, 0xDA, 0x5F, 0xB7, 0xEB, 0xC6, 0x3F, 0x6C, 0x09, 0xF3, 0x64, 0x38, 0x33, 0x08, 0xAA, 0x15,
      0xCC, 0xEF, 0x22, 0x64, 0x01, 0x2C, 0x12, 0xDE, 0xF4, 0x6E, 0x3C, 0xCD, 0x1A, 0x64, 0x63, 0x7C]"

definition PowerVu_00_S_1 :: "u8 list" where
  "PowerVu_00_S_1 =
     [0x97, 0x13, 0xEB, 0x6B, 0x04, 0x5E, 0x60, 0x3A, 0xD9, 0xCC, 0x91, 0xC2, 0x5A, 0xFD, 0xBA, 0x0C]"

definition PowerVu_00_S_2 :: "u8 list" where
  "PowerVu_00_S_2 =
     [0x61, 0x3C, 0x03, 0xB0, 0xB5, 0x6F, 0xF8, 0x01, 0xED, 0xE0, 0xE5, 0xF3, 0x78, 0x0F, 0x0A, 0x73]"

definition PowerVu_00_S_3 :: "u8 list" where
  "PowerVu_00_S_3 =
     [0xFD, 0xDF, 0xD2, 0x97, 0x06, 0x14, 0x91, 0xB5, 0x36, 0xAD, 0xBC, 0xE1, 0xB3, 0x00, 0x66, 0x41]"

definition PowerVu_00_S_4 :: "u8 list" where
  "PowerVu_00_S_4 =
     [0x8B, 0xD9, 0x18, 0x0A, 0xED, 0xEE, 0x61, 0x34, 0x1A, 0x79, 0x80, 0x8C, 0x1E, 0x7F, 0xC5, 0x9F]"

definition PowerVu_00_S_5 :: "u8 list" where
  "PowerVu_00_S_5 =
     [0xB0, 0xA1, 0xF2, 0xB8, 0xEA, 0x72, 0xDD, 0xD3, 0x30, 0x65, 0x2B, 0x1E, 0xE9, 0xE1, 0x45, 0x29]"

definition PowerVu_00_S_6 :: "u8 list" where
  "PowerVu_00_S_6 =
     [0x5D, 0xCA, 0x53, 0x75, 0xB2, 0x24, 0xCE, 0xAF, 0x21, 0x54, 0x9E, 0xBE, 0x02, 0xA9, 0x4C, 0x5D]"

definition PowerVu_00_S_7 :: "u8 list" where
  "PowerVu_00_S_7 =
     [0x42, 0x66, 0x72, 0x83, 0x1B, 0x2D, 0x22, 0xC9, 0xF8, 0x4D, 0xBA, 0xCD, 0xBB, 0x20, 0xBD, 0x6B]"

definition PowerVu_00_S_8 :: "u8 list" where
  "PowerVu_00_S_8 =
     [0xC4, 0x0C, 0x6B, 0xD3, 0x6D, 0x94, 0x7E, 0x53, 0xCE, 0x96, 0xAC, 0x40, 0x2C, 0x7A, 0xD3, 0xA9]"

definition PowerVu_00_S_9 :: "u8 list" where
  "PowerVu_00_S_9 =
     [0x31, 0x82, 0x4F, 0x9B, 0xCB, 0x6F, 0x9D, 0xB7, 0xAE, 0x68, 0x0B, 0xA0, 0x93, 0x15, 0x32, 0xE2,
      0xED, 0xE9, 0x47, 0x29, 0xC2, 0xA8, 0x92, 0xEF, 0xBA, 0x27, 0x22, 0x57, 0x76, 0x54, 0xC0, 0x59]"

definition pvu_ecm_03_subs :: "(nat \<times> nat) list" where
  "pvu_ecm_03_subs =
     [(0x21, 0x07), (0x26, 0x05), (0x26, 0x08), (0x19, 0x06), (0x31, 0x09), (0x27, 0x0C), (0x21, 0x0B), (0x17, 0x04)]"

definition pvu_ecm_03_xors :: "(nat \<times> nat) list" where
  "pvu_ecm_03_xors =
     [(0x06, 0x02), (0x0B, 0x06), (0x0C, 0x07), (0x0D, 0x08), (0x0E, 0x09), (0x0F, 0x0A), (0x11, 0x0B), (0x18, 0x0C),
      (0x2D, 0x0A), (0x07, 0x03), (0x1B, 0x0D), (0x30, 0x0C), (0x1C, 0x0E), (0x1E, 0x00), (0x04, 0x00), (0x05, 0x01),
      (0x1F, 0x01), (0x2C, 0x09), (0x20, 0x02), (0x1D, 0x0F), (0x23, 0x04), (0x09, 0x05), (0x22, 0x03), (0x24, 0x05),
      (0x08, 0x04), (0x28, 0x06), (0x29, 0x07), (0x2A, 0x08), (0x2E, 0x0B)]"

definition pvu_ecm_04_subs :: "(nat \<times> nat) list" where
  "pvu_ecm_04_subs =
     [(0x1E, 0x0D), (0x1D, 0x07), (0x2B, 0x05), (0x2D, 0x08), (0x17, 0x04), (0x2F, 0x0C), (0x06, 0x0A), (0x0B, 0x09)]"

definition pvu_ecm_04_xors :: "(nat \<times> nat) list" where
  "pvu_ecm_04_xors =
     [(0x04, 0x00), (0x05, 0x01), (0x07, 0x02), (0x08, 0x03), (0x09, 0x04), (0x0A, 0x05), (0x0C, 0x06), (0x0D, 0x07),
      (0x0E, 0x08), (0x10, 0x09), (0x11, 0x0A), (0x18, 0x0B), (0x1A, 0x0C), (0x1B, 0x0D), (0x1C, 0x0E), (0x1F, 0x0F),
      (0x22, 0x00), (0x24, 0x01), (0x25, 0x02), (0x26, 0x03), (0x27, 0x04), (0x28, 0x05), (0x29, 0x06), (0x2A, 0x07),
      (0x2C, 0x08), (0x2E, 0x09), (0x31, 0x0A)]"

definition pvu_emm_03_subs :: "(nat \<times> nat) list" where
  "pvu_emm_03_subs =
     [(0x03, 0x0D), (0x06, 0x1A), (0x07, 0x10), (0x0B, 0x17), (0x15, 0x05), (0x16, 0x0F), (0x18, 0x14), (0x19, 0x04)]"

definition pvu_emm_03_xors :: "(nat \<times> nat) list" where
  "pvu_emm_03_xors =
     [(0x14, 0x00), (0x0F, 0x01), (0x10, 0x02), (0x17, 0x03), (0x1A, 0x04), (0x04, 0x05), (0x05, 0x06), (0x0D, 0x07),
      (0x09, 0x08), (0x0A, 0x09), (0x0E, 0x0A), (0x11, 0x0B), (0x12, 0x0C), (0x13, 0x0D), (0x08, 0x0E), (0x0C, 0x0F)]"

end
