(* ===== verification/Powervu_Hash.thy ===== *)
theory Powervu_Hash
  imports Powervu_Tables Irdeto
begin

text \<open>
  The checksums, the hash modes and the stream cipher of the PowerVU engine,
  \<open>src/CCshare/cccam3_emu_powervu.c\<close>. Every function works on whole blocks that its callers build, so it is total; the
  one hash result that is never set is \<open>None\<close>. Shown here: the table-driven CRC is the polynomial division bit by
  bit, a block followed by its CRC has the CRC 0, and the stream cipher is undone by the encryption of a head end.
\<close>

subsection \<open>Checksums\<close>

definition pvu_crc8_calc :: "u8 list \<Rightarrow> u8" where
  "pvu_crc8_calc data = fold (\<lambda>b crc. pvu_crcTable ! unat (b XOR crc)) data 0"

definition pvu_crc_bit :: "u32 \<Rightarrow> u32" where
  "pvu_crc_bit crc = (if crc AND 0x80000000 \<noteq> 0 then push_bit 1 crc XOR 0x04C11DB7 else push_bit 1 crc)"

definition pvu_crc_tab :: "u8 \<Rightarrow> u32" where
  "pvu_crc_tab i = (pvu_crc_bit ^^ 8) (push_bit 24 (ucast i))"

definition pvu_crc_byte :: "u8 \<Rightarrow> u32 \<Rightarrow> u32" where
  "pvu_crc_byte b crc = push_bit 8 crc XOR pvu_crc_tab (ucast (drop_bit 24 crc XOR ucast b))"

definition pvu_ccitt32_crc :: "u8 list \<Rightarrow> u32" where
  "pvu_ccitt32_crc data = fold pvu_crc_byte data 0xFFFFFFFF"

text \<open>The result has 16 bits, also for four bytes.\<close>

definition pvu_b2i :: "u8 list \<Rightarrow> u16" where
  "pvu_b2i b =
     (case b of
        [b0, b1] \<Rightarrow> push_bit 8 (ucast b0) OR ucast b1
      | [b0, b1, b2] \<Rightarrow> ucast (of_be32 0 b0 b1 b2)
      | [b0, b1, b2, b3] \<Rightarrow> ucast (of_be32 b0 b1 b2 b3)
      | _ \<Rightarrow> 0)"

subsection \<open>Hash modes\<close>

definition pvu_pad_data :: "u8 list \<Rightarrow> u8 list" where
  "pvu_pad_data data = data @ [0x01] @ replicate (0x2E - length data) 0 @ [of_nat (length data)] @ pvu_pad"

definition of_le32 :: "u8 list \<Rightarrow> nat \<Rightarrow> u32" where
  "of_le32 data i = of_be32 (data ! (i + 3)) (data ! (i + 2)) (data ! (i + 1)) (data ! i)"

definition be_at :: "u8 list \<Rightarrow> nat \<Rightarrow> u32" where
  "be_at data i = of_be32 (data ! i) (data ! (i + 1)) (data ! (i + 2)) (data ! (i + 3))"

text \<open>\<open>(f << s) | (f >> (32 - s))\<close>.\<close>

definition rotl32 :: "nat \<Rightarrow> u32 \<Rightarrow> u32" where
  "rotl32 s f = push_bit s f OR drop_bit (32 - s) f"

type_synonym quad = "u32 \<times> u32 \<times> u32 \<times> u32"

definition pvu_md5_f :: "nat \<Rightarrow> u32 \<Rightarrow> u32 \<Rightarrow> u32 \<Rightarrow> u32" where
  "pvu_md5_f i b c d =
     (if i = 0 then (b AND c) OR (NOT b AND d)
      else if i = 1 then (b AND d) OR (NOT d AND c)
      else if i = 2 then b XOR c XOR d
      else (NOT d OR b) XOR c)"

definition pvu_md5_step :: "u32 list \<Rightarrow> nat \<Rightarrow> nat \<Rightarrow> quad \<times> nat \<Rightarrow> quad \<times> nat" where
  "pvu_md5_step dataLongs i j = (\<lambda>((a, b, c, d), g).
     (let f = dataLongs ! g + a + pvu_md5_T ! (16 * i + j) + pvu_md5_f i b c d;
          f = rotl32 (pvu_md5_r ! (4 * i + j mod 4)) f in
      ((d, b + f, b, c), (g + pvu_md5_incr ! i) mod 16)))"

definition pvu_hash_mode_01_custom_md5 :: "u8 list \<Rightarrow> u8 list" where
  "pvu_hash_mode_01_custom_md5 data =
     (let dataLongs = map (\<lambda>i. of_le32 data (4 * i)) [0..<16];
          h = (\<lambda>i. pvu_md5_h ! i);
          (a, b, c, d) = fold (\<lambda>i x. fst (fold (pvu_md5_step dataLongs i) [0..<16] (x, pvu_md5_init ! i))) [0..<4] (h 0, h 1, h 2, h 3) in
      le32 (h 0 + a) @ le32 (h 1 + b) @ le32 (h 2 + c) @ le32 (h 3 + d))"

definition pvu_02_expand :: "u32 list \<Rightarrow> u32 list" where
  "pvu_02_expand w = fold (\<lambda>i w. w @ [w ! (16 + i - 2) XOR w ! (16 + i - 7) XOR w ! (16 + i - 13) XOR w ! (16 + i - 16)]) [0..<64] w"

definition pvu_02_f :: "nat \<Rightarrow> u32 \<Rightarrow> u32 \<Rightarrow> u32 \<Rightarrow> u32" where
  "pvu_02_f i b c d =
     (if i < 0x15 then (b AND c) OR (NOT b AND d)
      else if i < 0x28 then b XOR c XOR d
      else if i < 0x3D then (b AND c) OR (c AND d) OR (b AND d)
      else b XOR c XOR d)"

definition pvu_02_step :: "u32 list \<Rightarrow> nat \<Rightarrow> quad \<times> u32 \<Rightarrow> quad \<times> u32" where
  "pvu_02_step dataLongs i = (\<lambda>((a, b, c, d), e).
     ((e + pvu_02_f i b c d + push_bit 5 a + drop_bit 27 a + pvu_02_h ! (i div 0x14) + dataLongs ! i,
       a, push_bit 30 b + drop_bit 2 b, c), d))"

definition pvu_hash_mode_02 :: "u8 list \<Rightarrow> u8 list" where
  "pvu_hash_mode_02 data =
     (let w = pvu_02_expand (map (\<lambda>i. be_at data (4 * i)) [0..<16]);
          ((a, b, c, d), e) = fold (pvu_02_step w) [0..<80] ((w ! 0, w ! 1, w ! 2, w ! 3), w ! 4) in
      be32 (w ! 0 + a) @ be32 (w ! 1 + b) @ be32 (w ! 2 + c) @ be32 (w ! 3 + d))"

definition pvu_03_f :: "nat \<Rightarrow> u32 \<Rightarrow> u32 \<Rightarrow> u32 \<Rightarrow> u32" where
  "pvu_03_f i b c d =
     (if i = 0 then (b AND d) OR (NOT d AND c)
      else if i = 1 then (NOT c OR b) XOR d
      else if i = 2 then (NOT b AND d) OR (b AND c)
      else b XOR c XOR d)"

text \<open>The second line uses the same functions in the opposite order.\<close>

definition pvu_03_step :: "u32 list \<Rightarrow> nat \<Rightarrow> nat \<Rightarrow> quad \<times> quad \<Rightarrow> quad \<times> quad" where
  "pvu_03_step dataLongs i j = (\<lambda>((a, b, c, d), (a2, b2, c2, d2)).
     (let tmp = ((\<lambda>t. pvu_03_incr ! t) ^^ i) j;
          f = rotl32 (pvu_03_r ! (0x0F + (if even i then 16 else 0) - j))
                (dataLongs ! (0x0F - tmp) + a + pvu_03_T ! i + pvu_03_f i b c d);
          f2 = rotl32 (pvu_03_r ! ((if even i then 0 else 16) + j))
                (dataLongs ! tmp + a2 + pvu_03_T2 ! i + pvu_03_f (3 - i) b2 c2 d2) in
      ((d, f, b, rotl32 10 c), (d2, f2, b2, rotl32 10 c2))))"

definition pvu_hash_mode_03 :: "u8 list \<Rightarrow> u8 list" where
  "pvu_hash_mode_03 data =
     (let dataLongs = map (\<lambda>i. be_at data (4 * i)) [0..<16];
          h = (\<lambda>i. pvu_03_h ! i);
          ((a, b, c, d), (a2, b2, c2, d2)) =
            fold (\<lambda>i. fold (pvu_03_step dataLongs i) [0..<16]) [0..<4] ((h 0, h 1, h 2, h 3), (h 3, h 2, h 1, h 0)) in
      le32 (h 3 + b + a2) @ le32 (h 2 + c + b2) @ le32 (h 1 + d + c2) @ le32 (h 0 + a + d2))"

definition pvu_hash_modes_04_to_0A_tables :: "u8 list \<Rightarrow> u8 list \<Rightarrow> u8 list" where
  "pvu_hash_modes_04_to_0A_tables data t =
     map (\<lambda>i. fold (\<lambda>k x. x XOR t ! (k + i) XOR data ! unat (t ! (k + i))) [0, 16, 32, 48] 0) [0..<16]"

definition pvu_0F_step :: "u8 list \<Rightarrow> u32 \<Rightarrow> u32 \<Rightarrow> nat \<Rightarrow> u32 \<times> u32 \<times> u8 list \<Rightarrow> u32 \<times> u32 \<times> u8 list" where
  "pvu_0F_step data t2 t3 n = (\<lambda>(t0, t1, hash).
     (let i = 4 * n;
          t0 = (t0 AND 0xFFFF) * t2 + drop_bit 16 t0;
          t1 = (t1 AND 0xFFFF) * t3 + drop_bit 16 t1;
          tmp = t0 + t1 in
      (t0, t1, fold (\<lambda>k hash. hash[(i + k) mod 16 := hash ! ((i + k) mod 16) XOR data ! (i + k) XOR ucast (drop_bit (24 - 8 * k) tmp)])
        [0..<4] hash)))"

definition pvu_hash_modes_0F_to_18_tables :: "u8 list \<Rightarrow> u8 list \<Rightarrow> u8 list" where
  "pvu_hash_modes_0F_to_18_tables data table =
     (let t = (\<lambda>i. of_be32 0 0 (table ! (2 * i + 1)) (table ! (2 * i))) in
      snd (snd (fold (pvu_0F_step data (t 2) (t 3)) [0..<15] (t 0, t 1, replicate 16 0))))"

text \<open>One step of the shift register with the taps \<open>it\<close>.\<close>

definition pvu_19_shift :: "nat list \<Rightarrow> u16 \<Rightarrow> u16" where
  "pvu_19_shift table seed =
     (let it = (\<lambda>i. 0x10 - table ! i);
          val = (drop_bit (it 0) seed XOR drop_bit (it 1) seed XOR drop_bit (it 2) seed XOR drop_bit (it 3) seed) AND 1 in
      if val = 0 then drop_bit 1 seed else drop_bit 1 seed OR 0x8000)"

definition pvu_19_step :: "u8 list \<Rightarrow> nat list \<Rightarrow> nat \<Rightarrow> u16 \<times> u8 list \<Rightarrow> u16 \<times> u8 list" where
  "pvu_19_step data table i = (\<lambda>(seed, hash).
     (let seed = pvu_19_shift table seed;
          tmp = seed + push_bit 8 (ucast (data ! i)) + ucast (data ! (i + 32));
          seed = pvu_19_shift table seed;
          tmp = tmp + seed + push_bit 8 (ucast (data ! (i + 16))) + ucast (data ! (i + 48));
          hash = hash[i := hash ! i XOR ucast (drop_bit 8 tmp)] in
      (seed, hash[(i + 1) mod 16 := hash ! ((i + 1) mod 16) XOR ucast tmp])))"

definition pvu_hash_modes_19_to_27_tables_3 :: "u8 list \<Rightarrow> nat list \<Rightarrow> u8 list" where
  "pvu_hash_modes_19_to_27_tables_3 data table =
     snd (fold (pvu_19_step data table) [0..<16] (0xFFFF, replicate 16 0))"

text \<open>\<open>None\<close>: the modes 35 to 39 pass the first test, but no case sets the hash.\<close>

definition pvu_create_hash :: "u8 list \<Rightarrow> nat \<Rightarrow> u8 list option" where
  "pvu_create_hash data mode =
     (if mode > 0x27 \<or> mode = 0x0B \<or> mode = 0x0C \<or> mode = 0x0D \<or> mode = 0x0E \<or> mode = 0 then Some (replicate 16 0)
      else
        let dataPadded = pvu_pad_data data in
        if mode = 1 then Some (pvu_hash_mode_01_custom_md5 dataPadded)
        else if mode = 2 then Some (pvu_hash_mode_02 dataPadded)
        else if mode = 3 then Some (pvu_hash_mode_03 dataPadded)
        else if mode \<le> 10 then
          Some (pvu_hash_modes_04_to_0A_tables dataPadded
            ([pvu_table04, pvu_table05, pvu_table06, pvu_table07, pvu_table08, pvu_table09, pvu_table0A] ! (mode - 4)))
        else if mode \<le> 24 then
          Some (pvu_hash_modes_0F_to_18_tables dataPadded
            ([pvu_table0F, pvu_table10, pvu_table11, pvu_table12, pvu_table13, pvu_table14, pvu_table15, pvu_table16,
              pvu_table17, pvu_table18] ! (mode - 15)))
        else if mode \<le> 34 then
          Some (pvu_hash_modes_19_to_27_tables_3 dataPadded
            ([pvu_table19, pvu_table1A, pvu_table1B, pvu_table1C, pvu_table1D, pvu_table1E, pvu_table1F, pvu_table20,
              pvu_table21, pvu_table22] ! (mode - 25)))
        else None)"

subsection \<open>Masks of the modes 03 and 04\<close>

definition pvu_mode_03_mix :: "u8 list \<Rightarrow> nat \<Rightarrow> u8 list \<Rightarrow> u8 list" where
  "pvu_mode_03_mix data k buffer1 =
     (let buffer1 = map (\<lambda>i. pvu_mode_03_table ! unat (buffer1 ! i XOR data ! (k + i))) [0..<8];
          buffer2 = map (\<lambda>j. fold (\<lambda>i x. x XOR buffer1 ! i * of_nat (j * i + 1)) [0..<8] 0) [0..<8] in
      map (\<lambda>i. pvu_mode_03_table ! unat (buffer2 ! i XOR data ! (k + 8 + i)) XOR data ! (k + i)) [0..<8])"

definition pvu_mode_03_round :: "u8 list \<Rightarrow> nat \<Rightarrow> u8 list \<Rightarrow> u8 list" where
  "pvu_mode_03_round data c buffer0 =
     (let b = (\<lambda>k. take 4 (drop k buffer0));
          buffer2 = pvu_mode_03_mix data (16 + 16 * (c mod 3)) (xor_bytes (b 8) (b 12) @ xor_bytes (b 0) (b 4));
          b12 = xor_bytes (b 12) (take 4 buffer2);
          b8 = xor_bytes (b 8) (take 4 buffer2);
          b4 = xor_bytes (b 4) (drop 4 buffer2);
          b0 = xor_bytes (b 0) (drop 4 buffer2);
          turn = (\<lambda>x. [x ! 2, x ! 3, x ! 0 XOR x ! 2, x ! 1 XOR x ! 3]) in
      b0 @ turn b4 @ b8 @ turn b12)"

definition pvu_create_hash_mode_03 :: "u8 list \<Rightarrow> u8 list" where
  "pvu_create_hash_mode_03 data =
     (let words = (\<lambda>b. take 4 (drop 12 b) @ take 4 (drop 8 b) @ take 4 (drop 4 b) @ take 4 b) in
      xor_bytes (words (fold (pvu_mode_03_round data) [0..<12] (words data))) (take 16 data))"

definition pvu_hash_04_add :: "nat \<Rightarrow> nat \<Rightarrow> nat \<Rightarrow> nat \<Rightarrow> nat \<Rightarrow> nat \<Rightarrow> u32 list \<Rightarrow> u32 list" where
  "pvu_hash_04_add a b c d e f buffer =
     (let tmp1 = (buffer ! a AND 1) + (buffer ! b AND 1);
          tmp2 = drop_bit 1 (buffer ! a) + drop_bit 1 (buffer ! b) + drop_bit 1 tmp1 in
      buffer[e := buffer ! c + buffer ! d + drop_bit 31 tmp2, f := tmp2 + tmp2 + (tmp1 AND 1)])"

definition pvu_hash_04_shift :: "nat \<Rightarrow> nat \<Rightarrow> nat \<Rightarrow> u32 list \<Rightarrow> u32 list" where
  "pvu_hash_04_shift a b shift buffer =
     (let tmp1 = drop_bit (32 - shift) (buffer ! a) + push_bit shift (buffer ! b);
          tmp2 = drop_bit (32 - shift) (buffer ! b) + push_bit shift (buffer ! a) in
      buffer[b := tmp1, a := tmp2])"

definition pvu_hash_04_xor :: "nat \<Rightarrow> nat \<Rightarrow> nat \<Rightarrow> nat \<Rightarrow> u32 list \<Rightarrow> u32 list" where
  "pvu_hash_04_xor a b c d buffer =
     (let buffer = buffer[a := buffer ! a XOR buffer ! b] in buffer[c := buffer ! c XOR buffer ! d])"

definition pvu_hash_04_swap :: "nat \<Rightarrow> nat \<Rightarrow> u32 list \<Rightarrow> u32 list" where
  "pvu_hash_04_swap a b buffer = buffer[a := buffer ! b, b := buffer ! a]"

definition pvu_hash_04_core :: "u32 list \<Rightarrow> u32 list" where
  "pvu_hash_04_core buffer =
     fold (\<lambda>f. f)
       [pvu_hash_04_add 0 6 7 1 7 6, pvu_hash_04_shift 5 4 0x0D, pvu_hash_04_xor 4 2 5 3, pvu_hash_04_swap 7 6,
        pvu_hash_04_add 6 2 3 7 3 2, pvu_hash_04_shift 1 0 0x10, pvu_hash_04_xor 0 4 1 5,
        pvu_hash_04_add 6 2 3 7 7 6, pvu_hash_04_shift 1 0 0x15, pvu_hash_04_add 6 0 1 7 1 0,
        pvu_hash_04_xor 2 4 3 5, pvu_hash_04_shift 5 4 0x11, pvu_hash_04_xor 4 2 5 3, pvu_hash_04_swap 3 2] buffer"

definition pvu_04_block :: "u8 list \<Rightarrow> nat \<Rightarrow> u32 list \<Rightarrow> u32 list" where
  "pvu_04_block data n buffer =
     (let d0 = of_le32 data (8 * n);
          d1 = of_le32 data (8 * n + 4);
          buffer = (pvu_hash_04_core ^^ 2) (buffer[0 := buffer ! 0 XOR d0, 1 := buffer ! 1 XOR d1]) in
      buffer[6 := buffer ! 6 XOR d0, 7 := buffer ! 7 XOR d1])"

definition pvu_04_out :: "u32 list \<Rightarrow> u8 list" where
  "pvu_04_out buffer =
     le32 (buffer ! 0 XOR buffer ! 2 XOR buffer ! 4 XOR buffer ! 6) @ le32 (buffer ! 1 XOR buffer ! 3 XOR buffer ! 5 XOR buffer ! 7)"

definition pvu_create_hash_mode_04 :: "u8 list \<Rightarrow> u8 list" where
  "pvu_create_hash_mode_04 data =
     (let buffer = fold (pvu_04_block data) [0..<8] pvu_mode_04_buffer;
          buffer = (pvu_hash_04_core ^^ 2) (buffer[1 := buffer ! 1 XOR 0x40000000]);
          buffer = (pvu_hash_04_core ^^ 4) (buffer[7 := buffer ! 7 XOR 0x40000000, 2 := buffer ! 2 XOR 0xEE]);
          buffer' = (pvu_hash_04_core ^^ 4) (buffer[4 := buffer ! 4 XOR 0xDD]) in
      pvu_04_out buffer @ pvu_04_out buffer')"

subsection \<open>The stream cipher\<close>

definition pvu_get_bit :: "u8 \<Rightarrow> nat \<Rightarrow> u8" where
  "pvu_get_bit val bitnb = drop_bit bitnb val AND 1"

definition pvu_set_bit :: "u8 \<Rightarrow> nat \<Rightarrow> u8 \<Rightarrow> u8" where
  "pvu_set_bit val bitnb biton = (if biton \<noteq> 0 then val OR push_bit bitnb 1 else val AND NOT (push_bit bitnb 1))"

text \<open>The bits of the key that select one bit of an S-box: three for the bit, four for the byte.\<close>

definition pvu_pick :: "u8 list \<Rightarrow> u8 list \<Rightarrow> (nat \<times> nat) list \<Rightarrow> (nat \<times> nat) list \<Rightarrow> u8" where
  "pvu_pick Sbox key bits index =
     (let number = (\<lambda>ps. fold (\<lambda>(i, n) x. push_bit 1 x OR pvu_get_bit (key ! i) n) ps 0) in
      pvu_get_bit (Sbox ! unat (number index)) (7 - unat (number bits)))"

definition pvu_sbox :: "u8 list \<Rightarrow> u8 \<Rightarrow> u8" where
  "pvu_sbox key mode =
     (let S = (if mode \<noteq> 0 then [PowerVu_A0_S_1, PowerVu_A0_S_2, PowerVu_A0_S_3, PowerVu_A0_S_4, PowerVu_A0_S_5,
                 PowerVu_A0_S_6, PowerVu_A0_S_7, PowerVu_A0_S_8, PowerVu_A0_S_9]
               else [PowerVu_00_S_1, PowerVu_00_S_2, PowerVu_00_S_3, PowerVu_00_S_4, PowerVu_00_S_5,
                 PowerVu_00_S_6, PowerVu_00_S_7, PowerVu_00_S_8, PowerVu_00_S_9]);
          last_bit = pvu_pick (S ! 0) key [(2, 0), (3, 4), (5, 3)] [(0, 0), (2, 6), (2, 4), (5, 7)];
          last_bit = last_bit OR push_bit 1 (pvu_pick (S ! 1) key [(5, 0), (4, 0), (6, 2)] [(2, 1), (2, 2), (5, 5), (5, 1)]);
          last_bit = last_bit OR push_bit 2 (pvu_pick (S ! 2) key [(6, 0), (1, 7), (6, 7)] [(1, 3), (3, 7), (1, 5), (5, 2)]);
          last_index = pvu_pick (S ! 3) key [(1, 0), (2, 7), (2, 5)] [(6, 3), (6, 4), (6, 6), (3, 5)];
          last_index = last_index OR push_bit 1 (pvu_pick (S ! 4) key [(3, 3), (4, 6), (3, 2)] [(3, 1), (4, 5), (3, 0), (4, 7)]);
          last_index = last_index OR push_bit 2 (pvu_pick (S ! 5) key [(5, 4), (4, 4), (1, 2)] [(2, 3), (6, 5), (1, 4), (4, 1)]);
          last_index = last_index OR push_bit 3 (pvu_pick (S ! 6) key [(0, 6), (0, 7), (0, 4)] [(0, 5), (0, 3), (0, 1), (0, 2)]);
          last_index = last_index OR push_bit 4 (pvu_pick (S ! 7) key [(4, 2), (4, 3), (1, 1)] [(1, 6), (6, 1), (5, 6), (3, 6)]) in
      pvu_get_bit (S ! 8 ! unat (last_index AND 0x1F)) (7 - unat last_bit))"

text \<open>The key register takes in one bit of the clear data.\<close>

definition pvu_key_step :: "u8 \<Rightarrow> u8 list \<Rightarrow> u8 list" where
  "pvu_key_step tmpBit key =
     (let key = (if tmpBit \<noteq> 0 then key[3 := key ! 3 XOR 0x10] else key);
          key = fold (\<lambda>k key. key[k := drop_bit 1 (key ! k) OR push_bit 7 (key ! (k - 1))]) (rev [1..<7]) key in
      key[0 := pvu_set_bit (drop_bit 1 (key ! 0)) 7 tmpBit])"

definition pvu_decrypt_bit :: "u8 \<Rightarrow> u8 \<Rightarrow> nat \<Rightarrow> u8 \<times> u8 list \<Rightarrow> u8 \<times> u8 list" where
  "pvu_decrypt_bit sbox curByte j = (\<lambda>(d, key).
     (let d = pvu_set_bit d j (pvu_get_bit curByte j XOR pvu_sbox key sbox XOR pvu_get_bit (key ! 0) 7);
          tmpBit = pvu_get_bit d j XOR pvu_get_bit (key ! 6) 0 in
      (d, pvu_key_step tmpBit key)))"

fun pvu_decrypt :: "u8 list \<Rightarrow> u8 list \<Rightarrow> u8 \<Rightarrow> u8 list \<times> u8 list" where
  "pvu_decrypt [] key sbox = ([], key)"
| "pvu_decrypt (b # bs) key sbox =
     (case fold (pvu_decrypt_bit sbox b) (rev [0..<8]) (b, key) of (d, key) \<Rightarrow>
        (case pvu_decrypt bs key sbox of (ds, key) \<Rightarrow> (d # ds, key)))"

text \<open>What a head end does: the key register takes in the bit before it is encrypted.\<close>

definition pvu_encrypt_bit :: "u8 \<Rightarrow> u8 \<Rightarrow> nat \<Rightarrow> u8 \<times> u8 list \<Rightarrow> u8 \<times> u8 list" where
  "pvu_encrypt_bit sbox p j = (\<lambda>(c, key).
     (pvu_set_bit c j (pvu_get_bit p j XOR pvu_sbox key sbox XOR pvu_get_bit (key ! 0) 7),
      pvu_key_step (pvu_get_bit p j XOR pvu_get_bit (key ! 6) 0) key))"

fun pvu_encrypt :: "u8 list \<Rightarrow> u8 list \<Rightarrow> u8 \<Rightarrow> u8 list \<times> u8 list" where
  "pvu_encrypt [] key sbox = ([], key)"
| "pvu_encrypt (b # bs) key sbox =
     (case fold (pvu_encrypt_bit sbox b) (rev [0..<8]) (b, key) of (c, key) \<Rightarrow>
        (case pvu_encrypt bs key sbox of (cs, key) \<Rightarrow> (c # cs, key)))"

definition pvu_expand_des_key :: "u8 list \<Rightarrow> u8 list" where
  "pvu_expand_des_key key =
     (let k = (\<lambda>i. key ! i);
          spread = [k 0 AND 0xFE] @ map (\<lambda>i. push_bit (8 - i) (k (i - 1)) OR (drop_bit i (k i) AND 0xFE)) [1..<7] @ [push_bit 1 (k 6)];
          parity = (\<lambda>b. fold (\<lambda>j p. if drop_bit j b AND 1 \<noteq> 0 then NOT p AND 1 else p) [1..<8] (1 :: u8)) in
      map (\<lambda>b. b OR parity b) spread)"

subsection \<open>The CRC\<close>

lemma crc_top: "x AND 0x80000000 \<noteq> 0 \<longleftrightarrow> bit (x :: u32) 31"
proof -
  have m: "(0x80000000 :: u32) = push_bit 31 1" by (simp add: push_bit_eq_mult)
  have "bit (x AND 0x80000000) j \<longleftrightarrow> bit x j \<and> j = 31" for j
    by (simp only: m bit_and_iff bit_push_bit_iff bit_1_iff) auto
  moreover have "y = 0 \<longleftrightarrow> (\<forall>j. \<not> bit y j)" for y :: u32 by (auto intro: bit_word_eqI)
  ultimately show ?thesis by (simp only:) blast
qed

lemma crc_bit_low: "\<not> bit x 31 \<Longrightarrow> pvu_crc_bit x = push_bit 1 x"
  by (simp only: pvu_crc_bit_def crc_top if_False)

lemma crc_bit_bit: "bit (pvu_crc_bit x) n \<longleftrightarrow> n < 32 \<and> ((0 < n \<and> bit x (n - 1)) \<noteq> (bit x 31 \<and> bit (0x04C11DB7 :: u32) n))"
proof -
  have "bit (push_bit 1 x) n \<longleftrightarrow> n < 32 \<and> 0 < n \<and> bit x (n - 1)"
    by (simp only: bit_push_bit_iff possible_bit_word) auto
  moreover have "n < 32" if "bit (0x04C11DB7 :: u32) n" using bit_imp_le_length [OF that] by simp
  ultimately show ?thesis
    by (cases "bit x 31") (auto simp only: pvu_crc_bit_def crc_top if_True if_False bit_xor_iff dest: bit_imp_le_length)
qed

lemma crc_bit_xor: "pvu_crc_bit (x XOR y) = pvu_crc_bit x XOR pvu_crc_bit y"
  by (rule bit_word_eqI) (auto simp: crc_bit_bit bit_xor_iff)

lemma crc_bits_xor: "(pvu_crc_bit ^^ k) (x XOR y) = (pvu_crc_bit ^^ k) x XOR (pvu_crc_bit ^^ k) y"
  by (induction k) (simp_all add: crc_bit_xor)

lemma crc_bits_shift: "(\<And>j. 24 \<le> j \<Longrightarrow> \<not> bit y j) \<Longrightarrow> k \<le> 8 \<Longrightarrow> (pvu_crc_bit ^^ k) y = push_bit k y"
proof (induction k)
  case (Suc k)
  have "\<not> bit (push_bit k y) 31" using Suc.prems by (auto simp: bit_push_bit_iff)
  then have "pvu_crc_bit (push_bit k y) = push_bit 1 (push_bit k y)" by (rule crc_bit_low)
  with Suc show ?case by (simp add: push_bit_push_bit del: push_bit_of_1)
qed simp

text \<open>One byte by the table is eight steps of the division.\<close>

lemma crc_byte_bits: "pvu_crc_byte b crc = (pvu_crc_bit ^^ 8) (crc XOR push_bit 24 (ucast b))"
proof -
  let ?lo = "crc AND mask 24" and ?hi = "push_bit 24 (ucast (ucast (drop_bit 24 crc XOR ucast b) :: u8)) :: u32"
  have split: "crc XOR push_bit 24 (ucast b) = ?lo XOR ?hi"
    by (rule bit_word_eqI) (auto simp: bit_simps)
  have "(pvu_crc_bit ^^ 8) ?lo = push_bit 8 ?lo" by (rule crc_bits_shift) (auto simp: bit_simps)
  moreover have "push_bit 8 ?lo = push_bit 8 crc" by (rule bit_word_eqI) (auto simp: bit_simps)
  ultimately show ?thesis by (simp add: split crc_bits_xor pvu_crc_byte_def pvu_crc_tab_def)
qed

lemma crc_byte_front: "pvu_crc_byte (ucast (drop_bit 24 crc)) crc = push_bit 8 crc"
proof -
  have "crc XOR push_bit 24 (ucast (ucast (drop_bit 24 crc) :: u8)) = crc AND mask 24"
    by (rule bit_word_eqI) (auto simp: bit_simps)
  then show ?thesis
    by (simp only: crc_byte_bits) (subst crc_bits_shift; auto simp: bit_simps intro!: bit_word_eqI)
qed

lemma crc_of_crc: "fold pvu_crc_byte (be32 crc) crc = 0"
proof -
  have s: "(ucast (drop_bit 16 crc) :: u8) = ucast (drop_bit 24 (push_bit 8 crc))"
    "(ucast (drop_bit 8 crc) :: u8) = ucast (drop_bit 24 (push_bit 16 crc))"
    "(ucast crc :: u8) = ucast (drop_bit 24 (push_bit 24 crc))"
    by (rule bit_word_eqI; auto simp: bit_simps)+
  have "push_bit 32 crc = 0" by (rule bit_word_eqI) (auto simp: bit_simps)
  then show ?thesis
    by (simp add: be32_def crc_byte_front s(1) crc_byte_front [of "push_bit 8 crc", simplified]
        s(2) crc_byte_front [of "push_bit 16 crc", simplified] s(3) crc_byte_front [of "push_bit 24 crc", simplified])
qed

lemma crc_appended: "pvu_ccitt32_crc (data @ be32 (pvu_ccitt32_crc data)) = 0"
  by (simp add: pvu_ccitt32_crc_def crc_of_crc)

subsection \<open>Encryption and decryption\<close>

lemma get_bit_bit: "pvu_get_bit v j = (if bit v j then 1 else 0)"
proof (rule bit_word_eqI)
  fix n
  show "bit (pvu_get_bit v j) n = bit (if bit v j then 1 else 0 :: u8) n"
    by (cases n) (auto simp: pvu_get_bit_def bit_simps)
qed

lemma set_bit_bit: "j < 8 \<Longrightarrow> bit (pvu_set_bit v j b) n \<longleftrightarrow> (if n = j then b \<noteq> 0 else bit v n)"
  by (auto simp: pvu_set_bit_def bit_simps dest: bit_imp_le_length)

lemma enc_bits_other: "\<lbrakk>n \<notin> set js; set js \<subseteq> {..<8}\<rbrakk> \<Longrightarrow> bit (fst (fold (pvu_encrypt_bit s p) js (c, key))) n \<longleftrightarrow> bit c n"
  by (induction js arbitrary: c key) (auto simp: pvu_encrypt_bit_def set_bit_bit)

lemma dec_bits_other: "\<lbrakk>n \<notin> set js; set js \<subseteq> {..<8}\<rbrakk> \<Longrightarrow> bit (fst (fold (pvu_decrypt_bit s p) js (c, key))) n \<longleftrightarrow> bit c n"
  by (induction js arbitrary: c key) (auto simp: pvu_decrypt_bit_def set_bit_bit Let_def)

lemma get_bit_cases: "pvu_get_bit v j = 0 \<or> pvu_get_bit v j = 1"
  by (simp add: get_bit_bit)

text \<open>Decryption follows the key register of encryption and gives back each bit.\<close>

lemma dec_enc_bits:
  assumes "distinct js" "set js \<subseteq> {..<8}"
    and "\<And>n. n \<in> set js \<Longrightarrow> bit e n \<longleftrightarrow> bit (fst (fold (pvu_encrypt_bit s p) js (c, key))) n"
  shows "snd (fold (pvu_decrypt_bit s e) js (d, key)) = snd (fold (pvu_encrypt_bit s p) js (c, key)) \<and>
    (\<forall>n. bit (fst (fold (pvu_decrypt_bit s e) js (d, key))) n \<longleftrightarrow> (if n \<in> set js then bit p n else bit d n))"
  using assms
proof (induction js arbitrary: c d key)
  case (Cons j js)
  let ?ks = "pvu_sbox key s XOR pvu_get_bit (key ! 0) 7"
  let ?c = "pvu_set_bit c j (pvu_get_bit p j XOR ?ks)"
  let ?key = "pvu_key_step (pvu_get_bit p j XOR pvu_get_bit (key ! 6) 0) key"
  have enc: "fold (pvu_encrypt_bit s p) (j # js) (c, key) = fold (pvu_encrypt_bit s p) js (?c, ?key)"
    by (simp add: pvu_encrypt_bit_def xor.assoc)
  have j: "j < 8" "j \<notin> set js" "set js \<subseteq> {..<8}" using Cons.prems by auto
  have "bit e j \<longleftrightarrow> bit ?c j" using Cons.prems(3) [of j] enc_bits_other [OF j(2,3)] unfolding enc by simp
  then have "bit e j \<longleftrightarrow> pvu_get_bit p j XOR ?ks \<noteq> 0" using j(1) by (simp add: set_bit_bit)
  have ks: "?ks = 0 \<or> ?ks = 1"
    by (auto simp: pvu_sbox_def Let_def get_bit_bit)
  define d' where "d' = pvu_set_bit d j (pvu_get_bit e j XOR ?ks)"
  have "pvu_get_bit e j XOR ?ks = pvu_get_bit p j"
    using ks \<open>bit e j \<longleftrightarrow> pvu_get_bit p j XOR ?ks \<noteq> 0\<close> by (auto simp: get_bit_bit)
  then have "pvu_get_bit d' j = pvu_get_bit p j" and d': "bit d' n \<longleftrightarrow> (if n = j then bit p j else bit d n)" for n
    using j(1) by (auto simp: d'_def get_bit_bit set_bit_bit)
  then have dec: "fold (pvu_decrypt_bit s e) (j # js) (d, key) = fold (pvu_decrypt_bit s e) js (d', ?key)"
    by (simp add: pvu_decrypt_bit_def Let_def d'_def xor.assoc)
  have "bit e n \<longleftrightarrow> bit (fst (fold (pvu_encrypt_bit s p) js (?c, ?key))) n" if "n \<in> set js" for n
    using Cons.prems(3) [of n] that unfolding enc by simp
  from Cons.IH [OF _ j(3) this, of d'] Cons.prems(1) show ?case
    unfolding enc dec by (auto simp: d')
qed simp

lemma dec_enc_byte:
  assumes "fold (pvu_encrypt_bit s p) (rev [0..<8]) (c, key) = (e, key')"
  shows "fold (pvu_decrypt_bit s e) (rev [0..<8]) (d, key) = (p, key')"
proof -
  have r: "distinct (rev [0..<8])" "set (rev [0..<8]) \<subseteq> {..<8}" by auto
  have "fst (fold (pvu_decrypt_bit s e) (rev [0..<8]) (d, key)) = p"
    using dec_enc_bits [OF r, of e s p c key d] assms by (intro bit_word_eqI) simp
  moreover have "snd (fold (pvu_decrypt_bit s e) (rev [0..<8]) (d, key)) = key'"
    using dec_enc_bits [OF r, of e s p c key d] assms by simp
  ultimately show ?thesis by (simp add: prod_eq_iff)
qed

lemma length_pvu_encrypt [simp]: "length (fst (pvu_encrypt data key s)) = length data"
  by (induction data arbitrary: key) (simp_all add: split_beta)

lemma length_pvu_decrypt [simp]: "length (fst (pvu_decrypt data key s)) = length data"
  by (induction data arbitrary: key) (simp_all add: split_beta)

lemma length_encrypt_Pair: "pvu_encrypt data key s = (c, key') \<Longrightarrow> length c = length data"
  using length_pvu_encrypt [of data key s] by simp

lemma decrypt_encrypt: "pvu_encrypt data key s = (c, key') \<Longrightarrow> pvu_decrypt c key s = (data, key')"
proof (induction data arbitrary: key c key')
  case (Cons b data)
  obtain x k where x: "fold (pvu_encrypt_bit s b) (rev [0..<8]) (b, key) = (x, k)" by fastforce
  obtain cs k2 where cs: "pvu_encrypt data k s = (cs, k2)" by fastforce
  have "c = x # cs" "key' = k2" using Cons.prems x cs by (simp_all only: pvu_encrypt.simps prod.case) auto
  then show ?case
    using dec_enc_byte [OF x] Cons.IH [OF cs] by (simp only: pvu_decrypt.simps prod.case)
qed simp

subsection \<open>Properties\<close>

text \<open>
  C21: The CRC by the table is the division by the polynomial 0x04C11DB7, bit by bit, and a block with its own CRC
  behind it has the CRC 0.
\<close>

theorem pvu_crc_reference:
  "pvu_ccitt32_crc data = fold (\<lambda>b crc. (pvu_crc_bit ^^ 8) (crc XOR push_bit 24 (ucast b))) data 0xFFFFFFFF \<and>
   pvu_ccitt32_crc (data @ be32 (pvu_ccitt32_crc data)) = 0"
proof -
  have "pvu_crc_byte = (\<lambda>b crc. (pvu_crc_bit ^^ 8) (crc XOR push_bit 24 (ucast b)))"
    by (intro ext) (rule crc_byte_bits)
  then show ?thesis by (simp only: crc_appended simp_thms) (simp only: pvu_ccitt32_crc_def)
qed

end
