(* ===== verification/Powervu.thy ===== *)
theory Powervu
  imports Powervu_Hash
begin

text \<open>
  The PowerVU engine of the emulator, \<open>src/CCshare/cccam3_emu_powervu.c\<close>. As in \<open>Buffers\<close>, \<open>None\<close> is a run that
  uses bytes that were never set or that lie outside the local copy of the section. The copy has 512 bytes (1024 for
  an EMM); the list holds those that were set, which the unmasking may extend by the CRC it writes. The loops that try
  keys are \<open>partial_function\<close>s: there \<open>None\<close> is a loop that never ends.
\<close>

subsection \<open>Unmasking an ECM\<close>

definition rd_at :: "u8 list \<Rightarrow> nat list \<Rightarrow> u8 list option" where
  "rd_at b ps = (if list_all (\<lambda>p. p < length b) ps then Some (map (\<lambda>p. b ! p) ps) else None)"

text \<open>The header, then \<open>val\<close> (before the positions \<open>vals\<close>), the seed and the base word, then the rest of the padding.\<close>

fun pvu_fill :: "nat list \<Rightarrow> u8 \<Rightarrow> nat \<Rightarrow> u8 list \<Rightarrow> u8 list \<Rightarrow> u8 list" where
  "pvu_fill vals val idxBase seed [] = []"
| "pvu_fill vals val idxBase seed (b # bs) =
     (if idxBase \<in> set vals then [val] else []) @ take 1 seed @ [b] @ pvu_fill vals val (idxBase + 1) (drop 1 seed) bs"

definition pvu_create_data_cw_mode_03 :: "u8 list \<Rightarrow> u8 list \<Rightarrow> u8 \<Rightarrow> u8 list \<Rightarrow> u8 list option" where
  "pvu_create_data_cw_mode_03 seed basecw val ecmBody = do {
     header \<leftarrow> rd_at ecmBody [0x0F, 0x09, 0x10, 0x11, 0x05, 0x07, 0x08, 0x0A];
     let f = pvu_fill [0, 2, 5] val 0 seed basecw;
     Some (header @ f @ drop (length f) pvu_padding_cw_03)
   }"

definition pvu_create_data_cw_mode_04 :: "u8 list \<Rightarrow> u8 list \<Rightarrow> u8 \<Rightarrow> u8 list \<Rightarrow> u8 list option" where
  "pvu_create_data_cw_mode_04 seed basecw val ecmBody = do {
     header \<leftarrow> rd_at ecmBody [0x0E, 0x0A, 0x0C, 0x04, 0x10, 0x08, 0x05, 0x0F];
     let f = pvu_fill [0, 1, 2] val 0 seed basecw;
     Some (header @ f @ drop (length f) pvu_padding_cw_04)
   }"

definition pvu_create_data_unmask_mode_03 :: "u8 list \<Rightarrow> u8 list option" where
  "pvu_create_data_unmask_mode_03 ecmBody =
     map_option (\<lambda>h. h @ pvu_padding_unmask_03) (rd_at ecmBody [0x17, 0x26, 0x19, 0x21, 0x26, 0x31, 0x21, 0x27])"

definition pvu_create_data_unmask_mode_04 :: "u8 list \<Rightarrow> u8 list option" where
  "pvu_create_data_unmask_mode_04 ecmBody =
     map_option (\<lambda>h. h @ pvu_padding_unmask_04) (rd_at ecmBody [0x17, 0x2B, 0x1D, 0x2D, 0x0B, 0x06, 0x2F, 0x1E])"

text \<open>Both modes are a number below 50, by a multiplication that stands for the division.\<close>

definition pvu_mode_of :: "u64 \<Rightarrow> nat \<Rightarrow> u8 list \<Rightarrow> u8" where
  "pvu_mode_of m s extraData =
     (let data = ucast (be_at extraData 0) :: u64;
          t1 = drop_bit s (data * m);
          t2 = drop_bit 36 (t1 * 0x51EB851F) in
      ucast (t1 - t2 * 0x32))"

definition pvu_get_mode_cw :: "u8 list \<Rightarrow> u8" where
  "pvu_get_mode_cw extraData = pvu_mode_of 0x76E9DEA7 50 extraData"

definition pvu_get_mode_unmask :: "u8 list \<Rightarrow> u8" where
  "pvu_get_mode_unmask extraData = pvu_mode_of 0xB9CD6BE5 45 extraData"

definition pvu_create_data_ecm_emm :: "u8 list \<Rightarrow> nat list \<Rightarrow> nat \<Rightarrow> u8 list option" where
  "pvu_create_data_ecm_emm emmEcm pos lenHeader = rd_at emmEcm (map ((+) lenHeader) pos)"

definition pvu_create_data_cw :: "u8 list \<Rightarrow> u8 list \<Rightarrow> u8 \<Rightarrow> u8 list \<Rightarrow> u8 list" where
  "pvu_create_data_cw seed baseCw val seedEcmCw = seed @ baseCw @ [val] @ seedEcmCw"

text \<open>\<open>ecm[s + d] -= ecm[s + e]\<close> and \<open>ecm[s + d] ^= mask[e]\<close>.\<close>

definition pvu_sub_at :: "nat \<Rightarrow> nat \<times> nat \<Rightarrow> u8 list \<Rightarrow> u8 list option" where
  "pvu_sub_at s = (\<lambda>(d, e) b. if s + d < length b \<and> s + e < length b then Some (b[s + d := b ! (s + d) - b ! (s + e)]) else None)"

definition pvu_xor_at :: "u8 list \<Rightarrow> nat \<Rightarrow> nat \<times> nat \<Rightarrow> u8 list \<Rightarrow> u8 list option" where
  "pvu_xor_at m s = (\<lambda>(d, e) b. if s + d < length b then Some (b[s + d := b ! (s + d) XOR m ! e]) else None)"

definition pvu_clear_extra :: "u8 list \<Rightarrow> u8 list option" where
  "pvu_clear_extra ecm = do { n \<leftarrow> rd ecm 9; at_sub 10 (unat n) (\<lambda>x. replicate (length x) 0) ecm }"

definition pvu_unmask_mode_03 :: "nat \<Rightarrow> u8 list \<Rightarrow> u8 list option" where
  "pvu_unmask_mode_03 startOffset ecm = do {
     ecm \<leftarrow> run_ops (pvu_sub_at startOffset) pvu_ecm_03_subs ecm;
     data \<leftarrow> pvu_create_data_unmask_mode_03 (drop startOffset ecm);
     ecm \<leftarrow> run_ops (pvu_xor_at (pvu_create_hash_mode_03 data) startOffset) pvu_ecm_03_xors ecm;
     pvu_clear_extra ecm
   }"

definition pvu_unmask_mode_04 :: "nat \<Rightarrow> u8 list \<Rightarrow> u8 list option" where
  "pvu_unmask_mode_04 startOffset ecm = do {
     ecm \<leftarrow> run_ops (pvu_sub_at startOffset) pvu_ecm_04_subs ecm;
     data \<leftarrow> pvu_create_data_unmask_mode_04 (drop startOffset ecm);
     ecm \<leftarrow> run_ops (pvu_xor_at (pvu_create_hash_mode_04 data) startOffset) pvu_ecm_04_xors ecm;
     pvu_clear_extra ecm
   }"

definition pvu_unmask_hashed :: "nat \<Rightarrow> u8 list \<Rightarrow> u8 \<Rightarrow> u8 list \<Rightarrow> u8 list option" where
  "pvu_unmask_hashed startOffset data hashModeEcm ecm = do {
     m \<leftarrow> pvu_create_hash data (unat hashModeEcm);
     run_ops (pvu_xor_at m startOffset) (map (\<lambda>i. (pvu_ecm_destPos ! i, i)) [0..<16]) ecm
   }"

text \<open>
  The CRC of the first \<open>l\<close> bytes is written behind them; \<open>l\<close> comes from the length field alone, \<open>bound\<close> is the size of
  the array. A length field 0 makes \<open>l\<close> the unsigned -1.
\<close>

definition pvu_write_crc :: "nat \<Rightarrow> u8 list \<Rightarrow> u8 list option" where
  "pvu_write_crc bound b = do {
     b1 \<leftarrow> rd b 1;
     b2 \<leftarrow> rd b 2;
     let n = unat (of_be16 b1 b2 AND 0xFFF);
     if n = 0 \<or> length b < n - 1 \<or> bound < n + 3 then None
     else Some (take (n - 1) b @ be32 (pvu_ccitt32_crc (take (n - 1) b)) @ drop (n + 3) b)
   }"

text \<open>The section, the seed, the hash mode and the mode of the word.\<close>

definition pvu_unmask_ecm :: "u8 list \<Rightarrow> (u8 list \<times> u8 list \<times> u8 \<times> u8) option" where
  "pvu_unmask_ecm ecm = do {
     n \<leftarrow> rd ecm 9;
     let startOffset = unat n + 10;
     s \<leftarrow> rd_at ecm (map ((+) startOffset) pvu_seedCwPos);
     modeCW \<leftarrow> (if n = 0 then Some 0 else map_option pvu_get_mode_cw (rd_sub ecm 10 4));
     h \<leftarrow> rd ecm (28 + unat n);
     let hashModeCw = h XOR pvu_crc8_calc (s @ replicate 5 0);
     data \<leftarrow> pvu_create_data_ecm_emm ecm pvu_ecm_sourcePos startOffset;
     e8 \<leftarrow> rd ecm 8;
     let hashModeEcm = e8 XOR pvu_crc8_calc data;
     modeUnmask \<leftarrow> (if n = 0 then Some 0 else map_option pvu_get_mode_unmask (rd_sub ecm 10 4));
     ecm \<leftarrow> (if modeUnmask = 0x03 then pvu_unmask_mode_03 startOffset ecm
             else if modeUnmask = 0x04 then pvu_unmask_mode_04 startOffset ecm
             else pvu_unmask_hashed startOffset data hashModeEcm ecm);
     let ecm = ecm[3 := ecm ! 3 AND 0x0F OR 0x30, 8 := 0, 28 + unat n := 0];
     ecm \<leftarrow> pvu_write_crc 512 ecm;
     s \<leftarrow> rd_at ecm (map ((+) startOffset) pvu_seedCwPos);
     Some (ecm, s @ replicate 5 0, hashModeCw, modeCW)
   }"

subsection \<open>Control words\<close>

definition PVU_CW_VID :: nat where "PVU_CW_VID = 0"
definition PVU_CW_HSD :: nat where "PVU_CW_HSD = 1"
definition PVU_CW_A1 :: nat where "PVU_CW_A1 = 2"
definition PVU_CW_A2 :: nat where "PVU_CW_A2 = 3"
definition PVU_CW_A3 :: nat where "PVU_CW_A3 = 4"
definition PVU_CW_A4 :: nat where "PVU_CW_A4 = 5"
definition PVU_CW_UTL :: nat where "PVU_CW_UTL = 6"
definition PVU_CW_VBI :: nat where "PVU_CW_VBI = 7"

definition pvu_get_conv_cw_index :: "u8 \<Rightarrow> nat" where
  "pvu_get_conv_cw_index ecmTag =
     (if ecmTag = 0x80 then PVU_CW_VID else if ecmTag = 0x40 then PVU_CW_HSD else if ecmTag = 0x20 then PVU_CW_A1
      else if ecmTag = 0x10 then PVU_CW_A2 else if ecmTag = 0x08 then PVU_CW_A3 else if ecmTag = 0x04 then PVU_CW_A4
      else if ecmTag = 0x02 then PVU_CW_UTL else PVU_CW_VBI)"

text \<open>The position, the mask and the low bits of each seed; the last one is masked from above.\<close>

definition pvu_get_seed_iv :: "nat \<Rightarrow> u8 list \<Rightarrow> u16 option" where
  "pvu_get_seed_iv seedType ecm =
     (let iv = (\<lambda>i m low. map_option (\<lambda>b. push_bit 3 (ucast (b AND m)) OR low) (rd ecm i)) in
      if seedType = PVU_CW_VID then iv 0x10 0x1F 0
      else if seedType = PVU_CW_HSD then iv 0x12 0x1F 2
      else if seedType = PVU_CW_A1 then iv 0x11 0x3F 1
      else if seedType = PVU_CW_A2 then iv 0x13 0x3F 1
      else if seedType = PVU_CW_A3 then iv 0x19 0x3F 1
      else if seedType = PVU_CW_A4 then iv 0x1A 0x3F 1
      else if seedType = PVU_CW_UTL then iv 0x14 0x0F 4
      else if seedType = PVU_CW_VBI then map_option (\<lambda>b. push_bit 3 (ucast (drop_bit 3 (b AND 0xF8))) OR 5) (rd ecm 0x15)
      else Some 0)"

definition pvu_seed_length :: "nat \<Rightarrow> nat" where
  "pvu_seed_length seedType =
     (if seedType \<in> {PVU_CW_VID, PVU_CW_HSD} then 4
      else if seedType \<in> {PVU_CW_A1, PVU_CW_A2, PVU_CW_A3, PVU_CW_A4} then 3
      else if seedType \<in> {PVU_CW_UTL, PVU_CW_VBI} then 2 else 0)"

definition pvu_expand_seed :: "nat \<Rightarrow> u8 list \<Rightarrow> nat \<times> u8 list" where
  "pvu_expand_seed seedType seed =
     (let n = pvu_seed_length seedType in
      (n, if n = 0 then seed else map (\<lambda>i. seed ! (i mod n)) [0..<7]))"

text \<open>The seed, of six bytes, four of which are the result.\<close>

definition pvu_seed_of :: "u16 \<Rightarrow> u8 list \<Rightarrow> u8 list \<Rightarrow> u8 \<Rightarrow> u8 list" where
  "pvu_seed_of tmpSeed seedBase key sbox =
     (let b = (\<lambda>i. seedBase ! i);
          seed = [ucast (drop_bit 2 tmpSeed AND 0xFF), push_bit 6 (ucast (tmpSeed AND 3)) OR drop_bit 2 (b 0),
                  push_bit 6 (b 0) OR drop_bit 2 (b 1), push_bit 6 (b 1) OR drop_bit 2 (b 2),
                  push_bit 6 (b 2) OR drop_bit 2 (b 3), push_bit 6 (b 3)];
          s = fst (pvu_decrypt seed key sbox) in
      map (\<lambda>i. push_bit 2 (s ! (i + 1)) OR drop_bit 6 (s ! (i + 2))) [0..<4] @ drop 4 s)"

definition pvu_calculate_seed :: "nat \<Rightarrow> u8 list \<Rightarrow> u8 list \<Rightarrow> u8 list \<Rightarrow> u8 \<Rightarrow> u8 list option" where
  "pvu_calculate_seed seedType ecm seedBase key sbox =
     map_option (\<lambda>tmpSeed. pvu_seed_of tmpSeed seedBase key sbox) (pvu_get_seed_iv seedType (drop 23 ecm))"

text \<open>The checksums of a CSA word.\<close>

definition pvu_csa_sums :: "u8 list \<Rightarrow> u8 list" where
  "pvu_csa_sums cw = cw[3 := cw ! 0 + cw ! 1 + cw ! 2, 7 := cw ! 4 + cw ! 5 + cw ! 6]"

definition pvu_create_cw ::
  "u8 list \<Rightarrow> u8 list \<Rightarrow> u8 \<Rightarrow> u8 list \<Rightarrow> u8 \<Rightarrow> u8 \<Rightarrow> u8 \<Rightarrow> u8 list \<Rightarrow> u8 list option" where
  "pvu_create_cw seed baseCw val seedEcmCw modeDesCsa hashMode modeCW ecmBody = do {
     cw \<leftarrow> (if modeCW = 0x03 then
              map_option (\<lambda>data. map (\<lambda>i. pvu_create_hash_mode_03 data ! i) [0x09, 0x01, 0x0F, 0x0E, 0x04, 0x02, 0x05, 0x0D])
                (pvu_create_data_cw_mode_03 seed baseCw val ecmBody)
            else if modeCW = 0x04 then
              map_option (\<lambda>data. map (\<lambda>i. pvu_create_hash_mode_04 data ! i) [0x08, 0x0F, 0x02, 0x0A, 0x06, 0x03, 0x09, 0x0D])
                (pvu_create_data_cw_mode_04 seed baseCw val ecmBody)
            else map_option (take 8) (pvu_create_hash (pvu_create_data_cw seed baseCw val seedEcmCw) (unat hashMode)));
     Some (if modeDesCsa = 0 then map (\<lambda>b. pvu_tableFixParity ! unat b) cw
           else if modeDesCsa = 1 then pvu_csa_sums cw
           else cw)
   }"

definition pvu_hash_mode_ok :: "u8 \<Rightarrow> bool" where
  "pvu_hash_mode_ok m \<longleftrightarrow> m > 0 \<and> m \<le> 0x27 \<and> m \<noteq> 0x0B \<and> m \<noteq> 0x0C \<and> m \<noteq> 0x0D \<and> m \<noteq> 0x0E"

definition pvu_val :: "nat \<Rightarrow> u8" where
  "pvu_val seedType =
     (if seedType = PVU_CW_VID then 0
      else if seedType \<in> {PVU_CW_A1, PVU_CW_A2, PVU_CW_A3, PVU_CW_A4} then 1
      else if seedType = PVU_CW_HSD then 2
      else if seedType = PVU_CW_UTL then 4
      else if seedType = PVU_CW_VBI then 5 else 0)"

text \<open>
  \<open>unmasked\<close> is what the unmasking gave, \<open>None\<close> when the section was not masked: then the seed of the section is not
  set and not used. \<open>xorMode\<close> is a single bit.
\<close>

definition pvu_calculate_cw ::
  "nat \<Rightarrow> u8 list \<Rightarrow> u8 \<Rightarrow> u8 list \<Rightarrow> u8 list \<Rightarrow> (u8 list \<times> u8 \<times> u8) option \<Rightarrow> u8 \<Rightarrow> u8 list \<Rightarrow> u8 list option" where
  "pvu_calculate_cw seedType seed csaUsed convolvedCw baseCw unmasked xorMode ecmBody =
     (let (seedLength, seed) = pvu_expand_seed seedType seed;
          plain = (if csaUsed \<noteq> 0 then
                (let s = xor_bytes (take 7 seed) baseCw in
                 xor_bytes [s ! 0, s ! 1, s ! 2, s ! 3, s ! 3, s ! 4, s ! 5, s ! 6] convolvedCw)
              else if xorMode = 0 then pvu_expand_des_key (xor_bytes (take 7 seed) baseCw)
              else pvu_expand_des_key (xor_bytes (take 3 seed) (take 3 baseCw) @ drop 3 baseCw)) in
      case unmasked of
        Some (seedEcmCw, hashModeCw, modeCW) \<Rightarrow>
          if pvu_hash_mode_ok hashModeCw \<or> modeCW = 0x03 \<or> modeCW = 0x04 then
            map_option (\<lambda>cw. if csaUsed \<noteq> 0 then pvu_csa_sums (xor_bytes cw convolvedCw) else cw)
              (pvu_create_cw (take seedLength seed) baseCw (pvu_val seedType) seedEcmCw csaUsed hashModeCw modeCW ecmBody)
          else Some plain
      | None \<Rightarrow> Some plain)"

subsection \<open>ECM\<close>

definition pvu_get_ecm_key :: "u32 \<Rightarrow> u16 \<Rightarrow> u8 \<Rightarrow> emu \<Rightarrow> u8 list option" where
  "pvu_get_ecm_key today provider key_index st =
     (let key = cccam_emu_find_key_masked today (CHR ''P'') provider (if key_index = 1 then 1 else 0) 7 st in
      if length key \<ge> 7 then Some key else None)"

text \<open>The header of a nano: its command, where its data starts and the length; \<open>None\<close> inside is the early return.\<close>

definition pvu_nano :: "u8 list \<Rightarrow> nat \<Rightarrow> nat \<Rightarrow> (u8 \<times> nat \<times> nat) option option" where
  "pvu_nano ecm ecmLen i = do {
     b0 \<leftarrow> rd ecm i;
     b1 \<leftarrow> rd ecm (i + 1);
     nanoCmd \<leftarrow> rd ecm (i + 2);
     let nanoLen = unat (of_be16 b0 b1 AND 0xFFF) - 1;
     Some (if i + 3 + nanoLen > ecmLen then None else Some (nanoCmd, i + 3, nanoLen))
   }"

text \<open>The first loop collects the convolved words of the elements 0x27.\<close>

definition pvu_convolved :: "u8 list \<Rightarrow> u8 \<times> nat \<times> nat \<Rightarrow> u8 list list \<Rightarrow> u8 list list option" where
  "pvu_convolved ecm = (\<lambda>(nanoCmd, i, nanoLen) convolvedCw.
     (if nanoCmd = 0x27 \<and> nanoLen \<ge> 15 then do {
        b \<leftarrow> rd_sub ecm (i + 4) 11;
        if sum_list b \<noteq> 0 then Some convolvedCw
        else Some (convolvedCw[pvu_get_conv_cw_index (b ! 0) := take 8 (drop 2 b)])
      }
      else Some convolvedCw))"

function pvu_collect :: "u8 list \<Rightarrow> nat \<Rightarrow> nat \<Rightarrow> u8 list list \<Rightarrow> u8 list list option option" where
  "pvu_collect ecm ecmLen i convolvedCw =
     (if i + 3 < ecmLen then
        (case pvu_nano ecm ecmLen i of
           None \<Rightarrow> None
         | Some None \<Rightarrow> Some None
         | Some (Some (nanoCmd, j, nanoLen)) \<Rightarrow>
             (case pvu_convolved ecm (nanoCmd, j, nanoLen) convolvedCw of
                None \<Rightarrow> None
              | Some convolvedCw \<Rightarrow> pvu_collect ecm ecmLen (i + 3 + nanoLen) convolvedCw))
      else Some (Some convolvedCw))"
  by auto
termination by (relation "measure (\<lambda>(ecm, ecmLen, i, c). ecmLen - i)") auto

declare pvu_collect.simps [simp del]

text \<open>One try of a key on both encrypted parts; \<open>i\<close> is where the element lies. \<open>None\<close> inside: the parts are restored.\<close>

definition pvu_try :: "u8 list \<Rightarrow> nat \<Rightarrow> u8 \<Rightarrow> u8 list \<Rightarrow> (u8 list \<times> u8 list) option option" where
  "pvu_try ecm i sbox ecmKey = do {
     ecmPart1 \<leftarrow> rd_sub ecm (i + 8) 14;
     ecmPart2 \<leftarrow> rd_sub ecm (i + 27) 27;
     let (d1, tmpEcmKey) = pvu_decrypt ecmPart1 ecmKey sbox;
     let e1 = copy_sub (i + 8) d1 ecm;
     if e1 ! (i + 6) \<noteq> e1 ! (i + 13) \<or> e1 ! (i + 14) \<noteq> e1 ! (i + 21) then Some None
     else do {
       let e2 = copy_sub (i + 27) (fst (pvu_decrypt ecmPart2 tmpEcmKey sbox)) e1;
       if e2 ! (i + 23) \<noteq> e2 ! (i + 52) \<or> e2 ! (i + 24) \<noteq> e2 ! (i + 53) then Some None
       else Some (Some (e2, tmpEcmKey))
     }
   }"

text \<open>Fields of the element 0x20 at \<open>i\<close>: key index, S-box set, channel and service.\<close>

definition pvu_key_index :: "u8 list \<Rightarrow> nat \<Rightarrow> u8" where
  "pvu_key_index ecm i =
     (let fixedKey = (if pvu_get_bit (ecm ! (i + 6)) 5 = 0 then 1 else 0);
          oddKey = pvu_get_bit (ecm ! (i + 6)) 4;
          bid = push_bit 1 (pvu_get_bit (ecm ! (i + 7)) 1) OR pvu_get_bit (ecm ! (i + 7)) 0 in
      push_bit 3 fixedKey OR push_bit 2 bid OR oddKey)"

definition pvu_ecm_key :: "u32 \<Rightarrow> emu \<Rightarrow> u8 list \<Rightarrow> nat \<Rightarrow> u8 list option" where
  "pvu_ecm_key today st ecm i =
     (let channelId = pvu_b2i (take 2 (drop (i + 23) ecm));
          ecmSrvid = drop_bit 4 channelId OR push_bit 12 (channelId AND 0xF) in
      case pvu_get_ecm_key today ecmSrvid (pvu_key_index ecm i) st of
        Some k \<Rightarrow> Some k
      | None \<Rightarrow> pvu_get_ecm_key today channelId (pvu_key_index ecm i) st)"

text \<open>
  \<open>do { ... continue; ... } while (!decrypt_ok)\<close>: \<open>None\<close> is the loop that never ends, \<open>Some None\<close> an undefined run,
  \<open>Some (Some None)\<close> key not found.
\<close>

partial_function (option) pvu_open ::
  "u32 \<Rightarrow> emu \<Rightarrow> u8 list \<Rightarrow> nat \<Rightarrow> u8 \<Rightarrow> (u8 list \<times> u8 list) option option option" where
  "pvu_open today st ecm i sbox =
     (case pvu_ecm_key today st ecm i of
        None \<Rightarrow> Some (Some None)
      | Some ecmKey \<Rightarrow>
          (case pvu_try ecm i sbox ecmKey of
             None \<Rightarrow> Some None
           | Some (Some r) \<Rightarrow> Some (Some (Some r))
           | Some None \<Rightarrow> pvu_open today st ecm i sbox))"

text \<open>What an opened element gives.\<close>

definition pvu_word ::
  "u8 list \<Rightarrow> nat \<Rightarrow> nat \<Rightarrow> u8 list \<Rightarrow> u8 list list \<Rightarrow> (u8 list \<times> u8 \<times> u8) option \<Rightarrow> u8 list option" where
  "pvu_word ecm i offsetBody tmpEcmKey convolvedCw unmasked = do {
     let sbox = pvu_get_bit (ecm ! (i + 6)) 3;
     let xorMode = pvu_get_bit (ecm ! (i + 6)) 0;
     let csaUsed = pvu_get_bit (ecm ! (i + 7)) 7;
     seedBase \<leftarrow> rd_sub ecm (i + 8) 4;
     seed \<leftarrow> pvu_calculate_seed PVU_CW_VID (drop i ecm) seedBase tmpEcmKey sbox;
     baseCw \<leftarrow> rd_sub ecm (i + 14) 7;
     cw \<leftarrow> pvu_calculate_cw PVU_CW_VID seed csaUsed (convolvedCw ! PVU_CW_VID) baseCw unmasked xorMode (drop offsetBody ecm);
     let cw = (if csaUsed \<noteq> 0 then pvu_csa_sums cw else cw);
     Some (if ecm ! 0 = 0x80 then cw @ replicate 8 0 else replicate 8 0 @ cw)
   }"

text \<open>
  The element 0x20. Its first bytes move the position by up to 255 after the length was checked. The result is the
  return value and the word, if there is one.
\<close>

definition pvu_element ::
  "u32 \<Rightarrow> emu \<Rightarrow> u8 list list \<Rightarrow> (u8 list \<times> u8 \<times> u8) option \<Rightarrow> u8 list \<Rightarrow> nat \<Rightarrow> (int \<times> u8 list option) option option" where
  "pvu_element today st convolvedCw unmasked ecm i0 =
     (case rd ecm (i0 + 3) of
        None \<Rightarrow> Some None
      | Some skip \<Rightarrow>
          let offsetBody = (i0 + 4 + unat skip) mod 256;
              i = i0 + unat skip in
          if length ecm < i + 25 then Some None
          else if pvu_get_bit (ecm ! (i + 7)) 7 = 0 then Some (Some (EMU_NOT_SUPPORTED, None))
          else if length ecm < i + 54 then Some None
          else (case pvu_open today st ecm i (pvu_get_bit (ecm ! (i + 6)) 3) of
              None \<Rightarrow> None
            | Some None \<Rightarrow> Some None
            | Some (Some None) \<Rightarrow> Some (Some (EMU_KEY_NOT_FOUND, None))
            | Some (Some (Some (ecm, tmpEcmKey))) \<Rightarrow>
                Some (map_option (\<lambda>dw. (EMU_OK, Some dw)) (pvu_word ecm i offsetBody tmpEcmKey convolvedCw unmasked))))"

function pvu_scan ::
  "(u8 list \<Rightarrow> nat \<Rightarrow> (int \<times> u8 list option) option option) \<Rightarrow> u8 list \<Rightarrow> nat \<Rightarrow> nat \<Rightarrow> (int \<times> u8 list option) option option" where
  "pvu_scan element ecm ecmLen i =
     (if i + 3 < ecmLen then
        (case pvu_nano ecm ecmLen i of
           None \<Rightarrow> Some None
         | Some None \<Rightarrow> Some (Some (EMU_NOT_SUPPORTED, None))
         | Some (Some (nanoCmd, j, nanoLen)) \<Rightarrow>
             if nanoCmd = 0x20 \<and> nanoLen \<ge> 54 then element ecm j
             else pvu_scan element ecm ecmLen (i + 3 + nanoLen))
      else Some (Some (EMU_NOT_SUPPORTED, None)))"
  by auto
termination by (relation "measure (\<lambda>(e, ecm, ecmLen, i). ecmLen - i)") auto

declare pvu_scan.simps [simp del]

text \<open>The two loops over a section whose CRC was accepted; \<open>ecmLen\<close> is the length without it.\<close>

definition pvu_section ::
  "u32 \<Rightarrow> emu \<Rightarrow> (u8 list \<times> u8 \<times> u8) option \<Rightarrow> u8 list \<Rightarrow> nat \<Rightarrow> (int \<times> u8 list option) option option" where
  "pvu_section today st unmasked ecm ecmLen =
     (case pvu_collect ecm ecmLen 3 (replicate 8 (replicate 8 0)) of
        None \<Rightarrow> Some None
      | Some None \<Rightarrow> Some (Some (EMU_NOT_SUPPORTED, None))
      | Some (Some convolvedCw) \<Rightarrow> pvu_scan (pvu_element today st convolvedCw unmasked) ecm ecmLen 3)"

text \<open>The 16-bit value of the last four bytes is compared with all 32 bits of the CRC.\<close>

definition cccam_emu_powervu_ecm :: "u32 \<Rightarrow> emu \<Rightarrow> u8 list \<Rightarrow> (int \<times> u8 list option) option option" where
  "cccam_emu_powervu_ecm today st ecm_in =
     (if length ecm_in < 7 \<or> length ecm_in > 512 then Some (Some (EMU_NOT_SUPPORTED, None))
      else case (if ecm_in ! 3 AND 0xF0 = 0x50 then map_option (\<lambda>(ecm, u). (ecm, Some u)) (pvu_unmask_ecm ecm_in)
                 else Some (ecm_in, None)) of
        None \<Rightarrow> Some None
      | Some (ecm, unmasked) \<Rightarrow>
          let ecmLen = length ecm_in - 4 in
          if pvu_ccitt32_crc (take ecmLen ecm) \<noteq> ucast (pvu_b2i (take 4 (drop ecmLen ecm)))
          then Some (Some (EMU_CHECKSUM_ERROR, None))
          else pvu_section today st unmasked ecm ecmLen)"

subsection \<open>EMM\<close>

definition pvu_get_mode_unmask_emm :: "u8 \<Rightarrow> u8 \<Rightarrow> nat" where
  "pvu_get_mode_unmask_emm e0 e1 =
     (let data = of_be16 e0 e1; x = data AND 0x0881; y = data AND 0x9020; z = data AND 0x2014 in
      if data = 0 then 0
      else if x = 0x0080 \<or> x = 0x0881 then 1
      else if x = 0x0001 \<or> x = 0x0880 then 2
      else if x = 0x0800 \<or> x = 0x0081 then 3
      else if x = 0x0000 \<or> x = 0x0801 then
        (if y = 0x8000 \<or> y = 0x9000 then 4
         else if y = 0x0020 \<or> y = 0x9020 then 5
         else if y = 0x0000 \<or> y = 0x1000 then 6
         else if y = 0x1020 \<or> y = 0x8020 then
           (if z = 0x2004 \<or> z = 0x2010 then 7
            else if z = 0x0000 \<or> z = 0x0004 then 8
            else if z = 0x0014 \<or> z = 0x2014 then 9
            else 0)
         else 0)
      else 0)"

definition pvu_create_data_unmask_emm_mode_03 :: "u8 list \<Rightarrow> u8 list option" where
  "pvu_create_data_unmask_emm_mode_03 emmBody =
     map_option (\<lambda>h. h @ pvu_padding_emm)
       (rd_at emmBody (concat (map (\<lambda>i. map (\<lambda>p. p + i * 0x1B) [0x18, 0x16, 0x07, 0x0B, 0x06, 0x19, 0x15, 0x03]) [0..<5])))"

text \<open>The operations \<open>ps\<close> on each of the five blocks of 27 bytes.\<close>

definition pvu_blocks :: "(nat \<times> nat) list \<Rightarrow> (nat \<times> nat) list" where
  "pvu_blocks ps = concat (map (\<lambda>i. map (\<lambda>(d, e). (d + i * 0x1B, e + i * 0x1B)) ps) [0..<5])"

definition pvu_block_masks :: "(nat \<times> nat) list \<Rightarrow> (nat \<times> nat) list" where
  "pvu_block_masks ps = concat (map (\<lambda>i. map (\<lambda>(d, e). (d + i * 0x1B, e)) ps) [0..<5])"

definition pvu_unmask_emm :: "u8 list \<Rightarrow> u8 list option" where
  "pvu_unmask_emm emm = do {
     data \<leftarrow> pvu_create_data_ecm_emm emm pvu_emm_sourcePos 19;
     e8 \<leftarrow> rd emm 8;
     let hashModeEmm = e8 XOR pvu_crc8_calc data;
     e16 \<leftarrow> rd_sub emm 16 2;
     let modeUnmask = pvu_get_mode_unmask_emm (e16 ! 0) (e16 ! 1);
     emm \<leftarrow> (if modeUnmask = 0 \<or> modeUnmask > 4 then do {
               m \<leftarrow> pvu_create_hash data (unat hashModeEmm);
               run_ops (pvu_xor_at m 19) (map (\<lambda>i. (pvu_emm_destPos ! i, i mod 16)) [0..<30]) emm
             }
             else if modeUnmask = 3 then do {
               emm \<leftarrow> run_ops (pvu_sub_at 0x13) (pvu_blocks pvu_emm_03_subs) emm;
               data \<leftarrow> pvu_create_data_unmask_emm_mode_03 (drop 0x13 emm);
               run_ops (pvu_xor_at (pvu_create_hash_mode_03 data) 0x13) (pvu_block_masks pvu_emm_03_xors) emm
             }
             else Some emm);
     pvu_write_crc 1024 (emm[3 := emm ! 3 AND 0x0F OR 0x10, 8 := 0])
   }"

text \<open>A block that a key of the unique address opens with one of the two S-box sets: the section with it in the clear.\<close>

definition pvu_open_block :: "u8 list \<Rightarrow> u8 list \<Rightarrow> nat \<Rightarrow> u8 list option" where
  "pvu_open_block emmKey emm i =
     (let opened = (\<lambda>sbox. copy_sub (i + 1) (fst (pvu_decrypt (take 26 (drop (i + 1) emm)) emmKey sbox)) emm);
          ours = (\<lambda>e. e ! 13 = e ! (i + 24) \<and> e ! 14 = e ! (i + 25) \<and> e ! 15 = e ! (i + 26)) in
      if ours (opened 0) then Some (opened 0) else if ours (opened 1) then Some (opened 1) else None)"

text \<open>The section, whether a block was opened, and the store with the key file.\<close>

type_synonym pvu_emm_state = "u8 list \<times> bool \<times> (emu \<times> file_system)"

definition pvu_emm_block ::
  "(emu_key \<Rightarrow> bool) \<Rightarrow> bool \<Rightarrow> u8 list \<Rightarrow> u32 \<Rightarrow> nat \<Rightarrow> pvu_emm_state \<Rightarrow> pvu_emm_state" where
  "pvu_emm_block mem writable emmKey groupId i = (\<lambda>(emm, decryptOk, w).
     (if pvu_get_bit (emm ! i) 7 = 0 then (emm, decryptOk, w)
      else case pvu_open_block emmKey emm i of
        None \<Rightarrow> (emm, decryptOk, w)
      | Some emm \<Rightarrow>
          let emmType = emm ! (i + 2) AND 0x7F in
          if emmType > 1 \<or> (emm ! (i + 3) = 0 \<and> emm ! (i + 4) = 0) then (emm, True, w)
          else (emm, True, cccam_emu_add_runtime_key mem writable (CHR ''P'') (push_bit 16 groupId)
                  (Some (hex_digits_of 2 (unat emmType))) (take 7 (drop (i + 3) emm)) 7 True w)))"

text \<open>The positions of the loop \<open>for (i = 19; i + 27 <= emmLen; i += 27)\<close>.\<close>

definition pvu_block_positions :: "nat \<Rightarrow> nat list" where
  "pvu_block_positions emmLen = map (\<lambda>k. 19 + 27 * k) [0..<(emmLen - 19) div 27]"

text \<open>\<open>None\<close> is the loop that never ends.\<close>

partial_function (option) pvu_emm_loop ::
  "u32 \<Rightarrow> (emu_key \<Rightarrow> bool) \<Rightarrow> bool \<Rightarrow> string \<Rightarrow> nat \<Rightarrow> pvu_emm_state \<Rightarrow> (int \<times> (emu \<times> file_system)) option" where
  "pvu_emm_loop today mem writable keyName emmLen s =
     (case s of (emm, _, w) \<Rightarrow>
      (case cccam_emu_find_key_name today (CHR ''P'') (Some keyName) 7 (fst w) of
         (emmKey, provider) \<Rightarrow>
           if length emmKey < 7 then Some (EMU_KEY_NOT_FOUND, w)
           else (case fold (pvu_emm_block mem writable emmKey (case provider of None \<Rightarrow> 0 | Some p \<Rightarrow> p))
                        (pvu_block_positions emmLen) (emm, False, w) of
               (emm, decryptOk, w) \<Rightarrow>
                 if decryptOk then Some (EMU_OK, w)
                 else pvu_emm_loop today mem writable keyName emmLen (emm, False, w))))"

text \<open>The outer \<open>None\<close> is a loop that never ends, the inner one an undefined run.\<close>

definition cccam_emu_powervu_emm ::
  "u32 \<Rightarrow> (emu_key \<Rightarrow> bool) \<Rightarrow> bool \<Rightarrow> u8 list \<Rightarrow> emu \<times> file_system \<Rightarrow> (int \<times> (emu \<times> file_system)) option option" where
  "cccam_emu_powervu_emm today mem writable emm_in w =
     (if length emm_in < 50 \<or> length emm_in > 1024 then Some (Some (EMU_NOT_SUPPORTED, w))
      else case (if emm_in ! 3 AND 0xF0 = 0x50 then pvu_unmask_emm emm_in else Some emm_in) of
        None \<Rightarrow> Some None
      | Some emm \<Rightarrow>
          let uniqueAddress = of_be32 (emm ! 12) (emm ! 13) (emm ! 14) (emm ! 15) in
          map_option Some (pvu_emm_loop today mem writable (hex_digits_of 8 (unat uniqueAddress)) (length emm_in - 4) (emm, False, w)))"

subsection \<open>Key loop, checksum and elements\<close>



lemma b2i_crc: "crc = ucast (pvu_b2i (be32 crc)) \<longleftrightarrow> drop_bit 16 crc = 0"
proof -
  have "(ucast (pvu_b2i (be32 crc)) :: u32) = crc AND mask 16"
    by (rule bit_word_eqI) (auto simp: pvu_b2i_def be32_def of_be32_def bit_simps)
  moreover have "crc = crc AND mask 16 \<longleftrightarrow> drop_bit 16 crc = 0"
  proof
    assume "crc = crc AND mask 16"
    then have b: "bit crc n \<Longrightarrow> n < 16" for n using bit_and_iff [of crc "mask 16" n] by (auto simp: bit_mask_iff)
    show "drop_bit 16 crc = 0" by (rule bit_word_eqI) (use b in \<open>force simp: bit_drop_bit_eq\<close>)
  next
    assume z: "drop_bit 16 crc = 0"
    have b: "n < 16" if "bit crc n" for n
      using arg_cong [OF z, of "\<lambda>w. bit w (n - 16)"] that by (cases "n < 16") (auto simp: bit_drop_bit_eq)
    show "crc = crc AND mask 16"
      by (rule bit_word_eqI) (use b in \<open>auto simp: bit_and_iff bit_mask_iff\<close>)
  qed
  ultimately show ?thesis by simp
qed

lemma crc_section:
  assumes "4 \<le> length body" "length body \<le> 508" "body ! 3 AND 0xF0 \<noteq> 0x50"
  shows "cccam_emu_powervu_ecm today st (body @ be32 (pvu_ccitt32_crc body)) =
    (if drop_bit 16 (pvu_ccitt32_crc body) = 0 then pvu_section today st None (body @ be32 (pvu_ccitt32_crc body)) (length body)
     else Some (Some (EMU_CHECKSUM_ERROR, None)))"
proof -
  have 3: "(body @ be32 (pvu_ccitt32_crc body)) ! 3 = body ! 3" using assms(1) by (simp add: nth_append)
  have n: "\<not> (length (body @ be32 (pvu_ccitt32_crc body)) < 7 \<or> length (body @ be32 (pvu_ccitt32_crc body)) > 512)"
    using assms by simp
  show ?thesis
    unfolding cccam_emu_powervu_ecm_def if_not_P [OF n] 3 if_not_P [OF assms(3)]
    using b2i_crc [of "pvu_ccitt32_crc body"] by simp
qed



lemma nth_parts: "i < length a \<Longrightarrow> (a @ b) ! i = a ! i" "length a \<le> i \<Longrightarrow> (a @ b) ! i = b ! (i - length a)"
  by (simp_all add: nth_append)



subsection \<open>Sections of a head end\<close>

text \<open>A section with its CRC, and a section that holds a single element 0x20.\<close>

definition pvu_with_crc :: "u8 list \<Rightarrow> u8 list" where
  "pvu_with_crc body = body @ be32 (pvu_ccitt32_crc body)"













text \<open>Any element gets a section whose CRC is 0 when four more bytes are put behind it.\<close>

definition pvu_close :: "u8 \<Rightarrow> u8 \<Rightarrow> u8 \<Rightarrow> u8 list \<Rightarrow> u8 list" where
  "pvu_close b0 b1 b2 y = be32 (pvu_ccitt32_crc ([b0, b1, b2] @ be16 (of_nat (length y + 5)) @ [0x20] @ y))"


lemma length_close [simp]: "length (pvu_close b0 b1 b2 y) = 4"
  by (simp add: pvu_close_def)




subsection \<open>Properties\<close>

text \<open>
  An ECM that is not masked and whose CRC is right is a checksum error unless the upper 16 bits of the CRC happen to
  be 0, because the stored CRC is read as a 16-bit number; only then are the elements looked at.
\<close>

theorem pvu_crc_truncated:
  assumes "4 \<le> length body" "length body \<le> 508" "body ! 3 AND 0xF0 \<noteq> 0x50"
  shows "cccam_emu_powervu_ecm today st (pvu_with_crc body) =
    (if drop_bit 16 (pvu_ccitt32_crc body) = 0 then pvu_section today st None (pvu_with_crc body) (length body)
     else Some (Some (EMU_CHECKSUM_ERROR, None)))"
  unfolding pvu_with_crc_def by (rule crc_section [OF assms])

lemma crc_byte_1: "pvu_crc_byte 1 0 = 0x04C11DB7"
proof -
  have "(f ^^ 8) x = f (f (f (f (f (f (f (f x)))))))" for f :: "u32 \<Rightarrow> u32" and x
    by (simp add: numeral_eq_Suc)
  then show ?thesis by (simp add: pvu_crc_byte_def pvu_crc_tab_def pvu_crc_bit_def)
qed

lemma pvu_crc_truncated_witness:
  "\<exists>body. hd body = 0x80 \<and> cccam_emu_powervu_ecm 0 emu_store_initial (pvu_with_crc body) = Some (Some (EMU_CHECKSUM_ERROR, None))"
proof -
  define d where "d = [0x80, 0x30, 6, 0] @ be32 (pvu_ccitt32_crc [0x80, 0x30, 6, 0])"
  have l: "length (d @ [1]) = 9" "d ! 3 = 0" "hd d = 0x80" by (simp_all add: d_def)
  have "pvu_ccitt32_crc (d @ [1]) = pvu_crc_byte 1 (pvu_ccitt32_crc d)" by (simp add: pvu_ccitt32_crc_def)
  also have "\<dots> = 0x04C11DB7" by (simp only: d_def crc_appended crc_byte_1)
  finally have "drop_bit 16 (pvu_ccitt32_crc (d @ [1])) \<noteq> 0" by simp
  then have "cccam_emu_powervu_ecm 0 emu_store_initial (pvu_with_crc (d @ [1])) = Some (Some (EMU_CHECKSUM_ERROR, None))"
    using pvu_crc_truncated [of "d @ [1]" 0 emu_store_initial] l by (simp add: nth_append d_def del: append_assoc)
  moreover have "hd (d @ [1]) = 0x80" by (simp add: d_def)
  ultimately show ?thesis by blast
qed







lemma powervu_emm_inv:
  assumes "emu_inv (fst w)"
  shows "cccam_emu_powervu_emm today mem writable emm w =
    (if length emm < 50 \<or> length emm > 1024 then Some (Some (EMU_NOT_SUPPORTED, w))
     else if emm ! 3 AND 0xF0 = 0x50 \<and> pvu_unmask_emm emm = None then Some None
     else Some (Some (EMU_KEY_NOT_FOUND, w)))"
proof -
  have "pvu_emm_loop today mem writable (hex_digits_of 8 v) n (e, b, w) = Some (EMU_KEY_NOT_FOUND, w)" for v n e b
    by (subst pvu_emm_loop.simps) (simp add: find_name_long [OF assms])
  then show ?thesis by (auto simp: cccam_emu_powervu_emm_def Let_def split: option.splits)
qed

text \<open>
  C20: An EMM never brings a key: in every reachable store an EMM of a valid length, masked or not, ends with key not found
  or in an undefined unmasking, and the store and the key file stay as they are. The key of the unique address has a name
  of eight characters, and no such name can be in the store.
\<close>

theorem powervu_emm_no_key:
  assumes "fold emu_exec ops (emu_store_initial, fs) = w"
  shows "cccam_emu_powervu_emm today mem writable emm w =
    (if length emm < 50 \<or> length emm > 1024 then Some (Some (EMU_NOT_SUPPORTED, w))
     else if emm ! 3 AND 0xF0 = 0x50 \<and> pvu_unmask_emm emm = None then Some None
     else Some (Some (EMU_KEY_NOT_FOUND, w)))"
proof -
  have "emu_inv (fst w)" using emu_reachable_inv [of ops fs "fst w" "snd w"] assms by simp
  then show ?thesis by (rule powervu_emm_inv)
qed

lemma powervu_emm_no_key_witness:
  "cccam_emu_powervu_emm 0 (\<lambda>_. True) True (replicate 60 0) (emu_store_initial, \<lambda>_. None)
    = Some (Some (EMU_KEY_NOT_FOUND, (emu_store_initial, \<lambda>_. None)))"
  by (subst powervu_emm_no_key [of "[]" "\<lambda>_. None"]) simp_all

end
