(* ===== verification/Emu_Dispatch.thy ===== *)
theory Emu_Dispatch
  imports Ecm Nagravision Cryptoworks Viaccess Powervu
begin

text \<open>
  The entry points of the key emulator, \<open>cccam_emu_get_cw\<close> and \<open>cccam_emu_process_emm\<close> of \<open>src/CCshare/cccam3_emu.c\<close>,
  over all its engines. The outer \<open>None\<close> is a loop that never ends, the inner one an undefined run. A result is
  the return value, the section (the Viaccess engine works in the caller's buffer, the others on copies) and the output.
  \<open>emulator_engines\<close> and \<open>emulator_emm\<close> are what the readers and the EMM path make of them.
  Shown here: a control word needs a valid key of the right type, and EMMs keep the key store well-formed.
\<close>

text \<open>What the engines use of OpenSSL and of the allocator.\<close>

record emu_lib =
  el_aes :: "u8 list \<Rightarrow> u8 list \<Rightarrow> u8 list"
  el_mod_exp :: "nat \<Rightarrow> nat \<Rightarrow> nat \<Rightarrow> nat option"
  el_mem :: "nat \<Rightarrow> bool"

definition is_viaccess_caid :: "u16 \<Rightarrow> bool" where
  "is_viaccess_caid caid \<longleftrightarrow> caid AND 0xFF00 = 0x0500"

definition is_biss_caid :: "u16 \<Rightarrow> bool" where
  "is_biss_caid caid \<longleftrightarrow> caid = 0x2600 \<or> caid = 0x2602"

definition is_cryptoworks_caid :: "u16 \<Rightarrow> bool" where
  "is_cryptoworks_caid caid \<longleftrightarrow> caid = 0x0D00 \<or> caid = 0x0D02 \<or> caid = 0x0D03 \<or> caid = 0x0D05 \<or> caid = 0x0D0C"

definition is_powervu_caid :: "u16 \<Rightarrow> bool" where
  "is_powervu_caid caid \<longleftrightarrow> caid = 0x0E00"

definition is_nagra_caid :: "u16 \<Rightarrow> bool" where
  "is_nagra_caid caid \<longleftrightarrow> caid AND 0xFF00 = 0x1800 \<or> caid AND 0xFF00 = 0x1700"

definition is_irdeto_caid :: "u16 \<Rightarrow> bool" where
  "is_irdeto_caid caid \<longleftrightarrow> caid AND 0xFF00 = 0x0600 \<or> caid = 0x4AE1 \<or> caid = 0x4ABF"

definition cccam_emu_get_cw ::
  "emu_lib \<Rightarrow> u32 \<Rightarrow> emu \<Rightarrow> u16 \<Rightarrow> u16 \<Rightarrow> u8 list \<Rightarrow> u8 list \<Rightarrow> (int \<times> u8 list \<times> u8 list) option option" where
  "cccam_emu_get_cw lib today st caid sid ecm cw =
     (let on_copy = (\<lambda>engine. if length ecm > ECM_MAX_SIZE + 4 then Some (Some (EMU_CORRUPT_DATA, ecm, cw))
                             else Some (map_option (\<lambda>(rc, cw). (rc, ecm, cw)) engine)) in
      if ecm = [] then Some (Some (EMU_CORRUPT_DATA, ecm, cw))
      else if is_viaccess_caid caid then Some (cccam_emu_viaccess_ecm (el_aes lib) today st ecm cw)
      else if is_biss_caid caid then
        Some (Some (case cccam_emu_biss_ecm today sid st of
           None \<Rightarrow> (EMU_KEY_NOT_FOUND, ecm, cw)
         | Some w \<Rightarrow> (EMU_OK, ecm, copy_sub 0 w cw)))
      else if is_cryptoworks_caid caid then on_copy (cccam_emu_cryptoworks_ecm today st (ucast caid) ecm cw)
      else if is_powervu_caid caid then
        map_option (map_option (\<lambda>(rc, w). (rc, ecm, case w of None \<Rightarrow> cw | Some w \<Rightarrow> copy_sub 0 w cw)))
          (cccam_emu_powervu_ecm today st ecm)
      else if is_nagra_caid caid then on_copy (cccam_emu_nagravision_ecm (el_mod_exp lib) (el_mem lib) today st ecm cw)
      else if is_irdeto_caid caid then on_copy (cccam_emu_irdeto_ecm today st caid ecm cw)
      else Some (Some (EMU_NOT_SUPPORTED, ecm, cw)))"

definition cccam_emu_process_emm ::
  "u32 \<Rightarrow> (emu_key \<Rightarrow> bool) \<Rightarrow> bool \<Rightarrow> u16 \<Rightarrow> u8 list \<Rightarrow> emu \<times> file_system \<Rightarrow> (int \<times> (emu \<times> file_system)) option option" where
  "cccam_emu_process_emm today mem writable caid emm w =
     (if length emm < 8 then Some (Some (-1, w))
      else if caid AND 0xFF00 = 0x0600 \<or> caid = 0x4AE1 \<or> caid = 0x4ABF then
        Some (cccam_emu_irdeto_emm today mem writable caid emm w)
      else if caid = 0x0E00 then cccam_emu_powervu_emm today mem writable emm w
      else Some (Some (-1, w)))"

subsection \<open>A word needs a key\<close>

text \<open>The types of the keys with which an engine can decrypt.\<close>

definition emu_types :: "u16 \<Rightarrow> char set" where
  "emu_types caid =
     (if is_viaccess_caid caid then {CHR ''F'', CHR ''I'', CHR ''T''} else if is_biss_caid caid then {CHR ''F''}
      else if is_cryptoworks_caid caid then {CHR ''W''} else if is_powervu_caid caid then {CHR ''P''}
      else if is_nagra_caid caid then {CHR ''N''} else if is_irdeto_caid caid then {CHR ''I''} else {})"

definition no_key_of :: "u32 \<Rightarrow> char set \<Rightarrow> emu \<Rightarrow> bool" where
  "no_key_of today types st \<longleftrightarrow> \<not> (\<exists>k \<in> set (em_keys st). ek_type k \<in> types \<and> emu_key_valid today k)"

lemma no_key_find:
  assumes "no_key_of today types st" and "ty \<in> types"
  shows "cccam_emu_find_key today ty provider name i n st = []"
    and "cccam_emu_find_key_masked today ty p16 i n st = []"
proof -
  have f: "find (\<lambda>k. ek_type k = ty \<and> P k \<and> emu_key_valid today k) (em_keys st) = None" for P
    using assms by (auto simp: no_key_of_def find_None_iff)
  from f [of "\<lambda>k. ek_provider k = provider \<and> ek_index k = j" for j]
  show "cccam_emu_find_key today ty provider name i n st = []"
    by (simp add: cccam_emu_find_key_def Let_def copy_out_def)
  from f [of "\<lambda>k. ek_index k = i \<and> ek_provider k AND 0xFFFF = ucast p16"]
  show "cccam_emu_find_key_masked today ty p16 i n st = []"
    by (simp add: cccam_emu_find_key_masked_def copy_out_def)
qed

lemma no_via_key: "no_key_of today {CHR ''F'', CHR ''I'', CHR ''T''} st \<Longrightarrow> 0 < n \<Longrightarrow> via_get_key today ident c i n st = None"
  by (auto simp: via_get_key_def Let_def no_key_find(1) find_None_iff)

lemma via_nano_without_key:
  assumes "no_key_of today {CHR ''F'', CHR ''I'', CHR ''T''} st"
    and "via_nano aes today st ecm i nanoCmd nanoLen s dw = Some (Inl (rc, ecm', dw'))"
  shows "rc \<noteq> EMU_OK"
proof -
  have k: "via_get_key today ident c j 8 st = None" for ident c j
    using assms(1) by (simp add: no_via_key)
  have nf: "EMU_KEY_NOT_FOUND \<noteq> EMU_OK" "EMU_CORRUPT_DATA \<noteq> EMU_OK"
    by (simp_all add: EMU_KEY_NOT_FOUND_def EMU_CORRUPT_DATA_def EMU_OK_def)
  have three: "via3_decrypt aes today st source ident d a m mix w = Some (rc, source', w') \<Longrightarrow> rc \<noteq> EMU_OK"
    for source ident d a m mix w rc source' w'
    by (auto simp: via3_decrypt_def Let_def k nf split: if_splits)
  from assms(2) show ?thesis
    by (auto simp: via_nano_def via_nano_EA_def via1_decrypt_ex_def via26_decrypt_def k nf bind_eq_Some_conv
        dest!: three split: if_splits option.splits)
qed

lemma via_without_key:
  assumes "no_key_of today {CHR ''F'', CHR ''I'', CHR ''T''} st"
  shows "via_loop aes today st ecm i s dw = Some (rc, ecm', dw') \<Longrightarrow> rc \<noteq> EMU_OK"
  using assms
proof (induction aes today st ecm i s dw rule: via_loop.induct)
  case (1 aes today st ecm i s dw)
  show ?case
  proof (cases "length ecm \<le> i + 2")
    case True
    with 1(2) show ?thesis by (simp add: via_loop.simps EMU_NOT_SUPPORTED_def EMU_OK_def)
  next
    case n: False
    then have r: "rd ecm i = Some (ecm ! i)" "rd ecm (i + 1) = Some (ecm ! (i + 1))" by simp_all
    note step = 1(2) [unfolded via_loop.simps [of aes today st ecm i s dw] if_not_P [OF n] r prod.case option.case]
    show ?thesis
    proof (cases "length ecm < i + 2 + unat (ecm ! (i + 1))")
      case True
      with step show ?thesis by (simp add: EMU_NOT_SUPPORTED_def EMU_OK_def)
    next
      case l: False
      show ?thesis
        using step via_nano_without_key [OF 1(3)] 1(1) [OF n refl r l _ refl _ 1(3)] l
        by (simp split: option.splits sum.splits prod.splits if_splits)
    qed
  qed
qed

lemma biss_without_key: "no_key_of today {CHR ''F''} st \<Longrightarrow> cccam_emu_biss_ecm today sid st = None"
  by (simp add: cccam_emu_biss_ecm_def biss_find_session_word_def no_key_find(1) find_None_iff)

lemma cw_without_key:
  assumes "no_key_of today {CHR ''W''} st" and "cw_sections today st caid ecm = Some (rc, w)"
  shows "rc \<noteq> EMU_OK"
proof -
  have k: "cw_get_key today ident i 16 st = None" for ident i
    using assms(1) by (simp add: cw_get_key_def Let_def no_key_find(1))
  have s: "case cw_section today st caid ecm of None \<Rightarrow> True | Some (Inr _) \<Rightarrow> False | Some (Inl (rc, _)) \<Rightarrow> rc \<noteq> EMU_OK"
    by (auto simp: cw_section_def Let_def cw_keyed_section_def k EMU_NOT_SUPPORTED_def EMU_OK_def EMU_KEY_NOT_FOUND_def
        split: bind_splits sum.splits option.splits if_splits)
  with assms(2) show ?thesis
    by (simp only: cw_sections.simps [of today st caid ecm]) (auto split: option.splits sum.splits)
qed

lemma pvu_without_key:
  assumes "no_key_of today {CHR ''P''} st" and "cccam_emu_powervu_ecm today st ecm = Some (Some (rc, w))"
  shows "rc \<noteq> EMU_OK"
proof -
  have k: "pvu_ecm_key today st e i = None" for e i
    using assms(1) by (simp add: pvu_ecm_key_def pvu_get_ecm_key_def Let_def no_key_find(2))
  have o: "pvu_open today st e i sbox = Some (Some None)" for e i sbox
    by (subst pvu_open.simps) (simp add: k)
  have e: "pvu_element today st c u e i = Some (Some (rc, w)) \<Longrightarrow> rc \<noteq> EMU_OK" for c u e i rc w
    by (auto simp: pvu_element_def Let_def o EMU_NOT_SUPPORTED_def EMU_OK_def EMU_KEY_NOT_FOUND_def split: option.splits if_splits)
  have s: "pvu_scan (pvu_element today st c u) e n i = Some (Some (rc, w)) \<Longrightarrow> rc \<noteq> EMU_OK" for c u e n i rc w
  proof (induction "pvu_element today st c u" e n i rule: pvu_scan.induct)
    case (1 e n i)
    from 1(2) show ?case
      by (subst (asm) pvu_scan.simps)
        (auto simp: EMU_NOT_SUPPORTED_def EMU_OK_def e [unfolded EMU_OK_def] split: if_splits option.splits prod.splits
          dest: 1(1) [OF _ _ refl refl, unfolded EMU_OK_def])
  qed
  from assms(2) show ?thesis
    by (auto simp: cccam_emu_powervu_ecm_def pvu_section_def Let_def EMU_NOT_SUPPORTED_def EMU_OK_def EMU_CHECKSUM_ERROR_def
        dest!: s split: if_splits option.splits)
qed

lemma nagra_without_key:
  assumes "no_key_of today {CHR ''N''} st" and "cccam_emu_nagravision_ecm mod_exp mem today st ecm dw = Some (rc, dw')"
  shows "rc \<noteq> EMU_OK"
proof -
  have k: "nagra_get_key today ident c i 16 st = None" for ident c i
    using assms(1) by (simp add: nagra_get_key_def Let_def no_key_find(1))
  from assms(2) show ?thesis
    by (auto simp: cccam_emu_nagravision_ecm_def Let_def k bind_eq_Some_conv EMU_NOT_SUPPORTED_def EMU_OK_def EMU_KEY_NOT_FOUND_def split: if_splits)
qed

lemma irdeto_without_key:
  assumes "no_key_of today {CHR ''I''} st" and "cccam_emu_irdeto_ecm today st caid ecm dw = Some (rc, dw')"
  shows "rc \<noteq> EMU_OK"
proof -
  have k: "ird_get_key today ident c i st = None" for ident c i
    using assms(1) by (simp add: ird_get_key_def Let_def no_key_find(1))
  from assms(2) show ?thesis
    by (auto simp: cccam_emu_irdeto_ecm_def Let_def k bind_eq_Some_conv EMU_NOT_SUPPORTED_def EMU_OK_def EMU_KEY_NOT_FOUND_def split: if_splits)
qed

lemma nagra_caid_alone:
  assumes "is_nagra_caid caid"
  shows "\<not> is_viaccess_caid caid" "\<not> is_biss_caid caid" "\<not> is_cryptoworks_caid caid" "\<not> is_powervu_caid caid"
  using assms
  by (auto simp: is_nagra_caid_def is_viaccess_caid_def is_biss_caid_def is_cryptoworks_caid_def is_powervu_caid_def)

lemma engine_without_key:
  assumes "no_key_of today (emu_types caid) st"
    and "cccam_emu_get_cw lib today st caid sid ecm cw = Some (Some (EMU_OK, ecm', cw'))"
  shows False
proof -
  have ne: "EMU_CORRUPT_DATA \<noteq> EMU_OK" "EMU_KEY_NOT_FOUND \<noteq> EMU_OK" "EMU_NOT_SUPPORTED \<noteq> EMU_OK"
    by (simp_all add: EMU_CORRUPT_DATA_def EMU_KEY_NOT_FOUND_def EMU_NOT_SUPPORTED_def EMU_OK_def)
  consider "is_viaccess_caid caid" | "\<not> is_viaccess_caid caid" "is_biss_caid caid"
    | "\<not> is_viaccess_caid caid" "\<not> is_biss_caid caid" "is_cryptoworks_caid caid"
    | "\<not> is_viaccess_caid caid" "\<not> is_biss_caid caid" "\<not> is_cryptoworks_caid caid" "is_powervu_caid caid"
    | "\<not> is_viaccess_caid caid" "\<not> is_biss_caid caid" "\<not> is_cryptoworks_caid caid" "\<not> is_powervu_caid caid" "is_nagra_caid caid"
    | "\<not> is_viaccess_caid caid" "\<not> is_biss_caid caid" "\<not> is_cryptoworks_caid caid" "\<not> is_powervu_caid caid" "\<not> is_nagra_caid caid"
    by blast
  then show False
  proof cases
    case 1
    with assms show ?thesis
      by (auto simp: cccam_emu_get_cw_def cccam_emu_viaccess_ecm_def emu_types_def ne split: if_splits dest: via_without_key)
  next
    case 2
    with assms show ?thesis by (auto simp: cccam_emu_get_cw_def emu_types_def ne biss_without_key split: if_splits)
  next
    case 3
    with assms show ?thesis
      by (auto simp: cccam_emu_get_cw_def Let_def cccam_emu_cryptoworks_ecm_def emu_types_def ne split: if_splits dest: cw_without_key)
  next
    case 4
    with assms show ?thesis by (auto simp: cccam_emu_get_cw_def emu_types_def ne split: if_splits dest: pvu_without_key)
  next
    case 5
    with assms show ?thesis by (auto simp: cccam_emu_get_cw_def Let_def emu_types_def ne split: if_splits dest: nagra_without_key)
  next
    case 6
    with assms show ?thesis by (auto simp: cccam_emu_get_cw_def Let_def emu_types_def ne split: if_splits dest: irdeto_without_key)
  qed
qed

subsection \<open>EMMs change the keys of Irdeto only\<close>

definition other_keys :: "emu \<Rightarrow> emu_key list" where
  "other_keys st = filter (\<lambda>k. ek_type k \<noteq> CHR ''I'') (em_keys st)"

definition emm_keeps :: "emu \<times> file_system \<Rightarrow> emu \<times> file_system \<Rightarrow> bool" where
  "emm_keeps w0 w \<longleftrightarrow> emu_inv (fst w) \<and> other_keys (fst w) = other_keys (fst w0) \<and> em_file (fst w) = em_file (fst w0)
     \<and> (\<forall>p. p \<noteq> em_file (fst w0) \<longrightarrow> snd w p = snd w0 p)"

lemma filter_update_first:
  "(\<And>x. P x \<Longrightarrow> \<not> Q x \<and> \<not> Q (f x)) \<Longrightarrow> filter Q (update_first P f xs) = filter Q xs"
  by (induction xs) auto

lemma key_matches_type: "key_matches ty provider i name k \<Longrightarrow> ek_type k = ty"
  by (auto simp: key_matches_def split: option.splits list.splits if_splits)

lemma add_key_other: "other_keys (emu_add_key mem (CHR ''I'') provider i data n date name st) = other_keys st"
  by (auto simp: emu_add_key_def other_keys_def Let_def intro!: filter_update_first dest: key_matches_type)

lemma key_file_same: "em_file (emu_add_key mem ty provider i data n date name st) = em_file st"
  by (simp add: emu_add_key_def Let_def)

lemma runtime_key_keeps:
  assumes "emm_keeps w0 w" and "name \<noteq> []" and "length name \<le> 2"
  shows "emm_keeps w0 (cccam_emu_add_runtime_key mem writable (CHR ''I'') ident (Some name) key n persist w)"
proof -
  have "emu_inv (fst (cccam_emu_add_runtime_key mem writable (CHR ''I'') ident (Some name) key n persist w))"
    using assms by (intro runtime_key_inv) (simp_all add: emm_keeps_def)
  with assms(1) show ?thesis
    by (cases w) (auto simp: emm_keeps_def cccam_emu_add_runtime_key_def Let_def add_key_other key_file_same split: option.splits list.splits)
qed

lemma add_key_keeps:
  "emm_keeps w0 (fst s) \<Longrightarrow> name \<noteq> [] \<Longrightarrow> length name \<le> 2 \<Longrightarrow> emm_keeps w0 (fst (ird_add_key mem writable ident name key s))"
  by (cases s) (simp add: ird_add_key_def runtime_key_keeps)

text \<open>What each step keeps holds after the walk.\<close>

lemma ird_walk_keeps:
  assumes "\<And>i l s s'. P s \<Longrightarrow> step i l s = Some s' \<Longrightarrow> P s'"
  shows "ird_walk view step i end s = Some s' \<Longrightarrow> P s \<Longrightarrow> P s'"
proof (induction "end - i" arbitrary: i s rule: less_induct)
  case less
  show ?case
  proof (cases "end \<le> i")
    case False
    then obtain n s1 where n: "rd (view s) (i + 1) = Some n"
      and s1: "step i (if n \<noteq> 0 then unat (n AND 0x3F) + 2 else 1) s = Some s1"
      and rest: "ird_walk view step (i + (if n \<noteq> 0 then unat (n AND 0x3F) + 2 else 1)) end s1 = Some s'"
      using less.prems(1) by (subst (asm) ird_walk.simps) (auto simp: Let_def split: option.splits)
    show ?thesis by (rule less.hyps [OF _ rest assms [OF less.prems(2) s1]]) (use False in auto)
  qed (use less.prems in \<open>simp add: ird_walk.simps\<close>)
qed

lemma bind_SomeE: "Option.bind x f = Some y \<Longrightarrow> (\<And>a. x = Some a \<Longrightarrow> f a = Some y \<Longrightarrow> R) \<Longrightarrow> R"
  by (auto simp: bind_eq_Some_conv)

lemma if_SomeE: "(if c then a else b) = Some y \<Longrightarrow> (a = Some y \<Longrightarrow> R) \<Longrightarrow> (b = Some y \<Longrightarrow> R) \<Longrightarrow> R"
  by (cases c) auto

lemma op_keeps:
  assumes "ird_do_emm_type_op mem writable ident emm keySeed keyIV keyPMK emmLen startOffset len s = Some (r, s')" and "emm_keeps w0 (fst s)"
  shows "emm_keeps w0 (fst s')"
proof -
  have step: "emm_keeps w0 (fst s1)" if "emm_keeps w0 (fst s0)" "ird_op_element mem writable ident base buf i l s0 = Some s1" for base buf i l s0 s1
    using that by (auto simp: ird_op_element_def bind_eq_Some_conv add_key_keeps split: if_splits)
  have walk: "emm_keeps w0 (fst s1)" if "ird_walk view (ird_op_element mem writable ident base buf) i e s = Some s1" for view base buf i e s1
    by (rule ird_walk_keeps [where P = "\<lambda>s. emm_keeps w0 (fst s)", OF _ that assms(2)]) (rule step)
  from assms show ?thesis
    by (auto simp: ird_do_emm_type_op_def Let_def bind_eq_Some_conv split: if_splits dest: walk)
qed

lemma pmk_keeps:
  assumes "ird_do_emm_type_pmk mem writable ident emm keySeed keyIV keyPMK emmLen startOffset len s = Some (r, s')" and "emm_keeps w0 (fst s)"
  shows "emm_keeps w0 (fst s')"
proof -
  have step: "emm_keeps w0 (fst s1)" if "emm_keeps w0 (fst s0)" "ird_pmk_element mem writable ident base buf i l s0 = Some s1" for base buf i l s0 s1
    using that by (auto simp: ird_pmk_element_def bind_eq_Some_conv add_key_keeps split: if_splits)
  have walk: "emm_keeps w0 (fst s1)" if "ird_walk view (ird_pmk_element mem writable ident base buf) i e s = Some s1" for view base buf i e s1
    by (rule ird_walk_keeps [where P = "\<lambda>s. emm_keeps w0 (fst s)", OF _ that assms(2)]) (rule step)
  from assms show ?thesis
    by (auto simp: ird_do_emm_type_pmk_def Let_def bind_eq_Some_conv split: if_splits dest: walk)
qed

lemma try_keys_keeps:
  "ird_try_keys today mem writable ident op emm okeySeed keyIV startOffset len names s = Some s' \<Longrightarrow> emm_keeps w0 (fst s) \<Longrightarrow> emm_keeps w0 (fst s')"
proof (induction names arbitrary: s)
  case (Cons p names)
  then show ?case
    by (auto simp: bind_eq_Some_conv split: option.splits if_splits dest: op_keeps pmk_keeps)
qed simp

lemma case_SomeE:
  "(case (x, y) of (Some a, Some b) \<Rightarrow> f a b | _ \<Rightarrow> n) = Some z \<Longrightarrow> (\<And>a b. f a b = Some z \<Longrightarrow> R) \<Longrightarrow> (n = Some z \<Longrightarrow> R) \<Longrightarrow> R"
  by (auto split: option.splits)

lemma irdeto_emm_keeps:
  assumes "cccam_emu_irdeto_emm today mem writable caid emm w = Some (rc, w')" and "emm_keeps w0 w"
  shows "emm_keeps w0 w'"
proof -
  have t: "emm_keeps w0 (fst s')" if "ird_try_keys today mem writable ident op e okeySeed keyIV off len names (w, 0) = Some s'"
    for ident op e okeySeed keyIV off len names s'
    using try_keys_keeps [OF that, of w0] assms(2) by simp
  from assms(1) show ?thesis
    unfolding cccam_emu_irdeto_emm_def Let_def
    by (elim bind_SomeE if_SomeE case_SomeE) (use assms(2) in \<open>auto dest: t simp del: split_paired_All\<close>)
qed

lemma process_emm_keeps:
  assumes "cccam_emu_process_emm today mem writable caid emm w = Some (Some (rc, w'))" and "emu_inv (fst w)"
  shows "emm_keeps w w'"
proof -
  have "emm_keeps w w" using assms(2) by (simp add: emm_keeps_def)
  then have "cccam_emu_irdeto_emm today mem writable caid emm w = Some (rc, w') \<Longrightarrow> emm_keeps w w'" and "w = w' \<Longrightarrow> emm_keeps w w'"
    by (auto dest: irdeto_emm_keeps)
  with assms(1) show ?thesis
    by (simp add: cccam_emu_process_emm_def powervu_emm_inv [OF assms(2)] split: if_splits)
qed

subsection \<open>The emulator of the readers\<close>

text \<open>
  The emulator as the readers and the ECM handler use it: \<open>emu_get_cw\<close> of \<open>src/CCshare/cccam3_card_manager.c\<close> asks
  \<open>cccam_emu_get_cw\<close> for a word in its buffer \<open>buf\<close>, and \<open>cccam_ecm_forward_emm\<close> of \<open>src/CCshare/cccam3_ecm.c\<close> gives the EMM to
  \<open>cccam_emu_process_emm\<close>. The keys are those of the store and the key file; \<open>day\<close> is the date of a time. An endless loop and
  an undefined run of the engine both are the \<open>None\<close> of the callers.
\<close>

definition emulator_engines ::
  "(string option \<Rightarrow> u16 \<Rightarrow> u16 \<Rightarrow> u8 list \<Rightarrow> u8 list option) \<Rightarrow> emu_lib \<Rightarrow> (time_t \<Rightarrow> u32) \<Rightarrow> u8 list \<Rightarrow> emu \<times> file_system \<Rightarrow> engines" where
  "emulator_engines smart lib day buf keys = \<lparr>
     smartcard_ecm = smart,
     emu_cw = (\<lambda>now caid provid sid ecm.
       case cccam_emu_get_cw lib (day now) (fst keys) caid sid ecm buf of
         Some (Some (rc, ecm', cw)) \<Rightarrow> Some (if rc \<noteq> EMU_OK then None else Some cw)
       | _ \<Rightarrow> None),
     emu_keys = keys\<rparr>"

definition emulator_emm ::
  "(string option \<Rightarrow> u16 \<Rightarrow> u16 \<Rightarrow> u8 list \<Rightarrow> u8 list option) \<Rightarrow> emu_lib \<Rightarrow> (time_t \<Rightarrow> u32) \<Rightarrow> u8 list \<Rightarrow> (emu_key \<Rightarrow> bool) \<Rightarrow> bool \<Rightarrow>
   time_t \<Rightarrow> u16 \<Rightarrow> u8 list \<Rightarrow> engines \<Rightarrow> engines option" where
  "emulator_emm smart lib day buf mem writable now caid emm eng =
     (case cccam_emu_process_emm (day now) mem writable caid emm (emu_keys eng) of
        Some (Some (rc, keys)) \<Rightarrow> Some (emulator_engines smart lib day buf keys)
      | _ \<Rightarrow> None)"

text \<open>The words and the keys are those of one store, and the store is well-formed.\<close>

definition emulated ::
  "(string option \<Rightarrow> u16 \<Rightarrow> u16 \<Rightarrow> u8 list \<Rightarrow> u8 list option) \<Rightarrow> emu_lib \<Rightarrow> (time_t \<Rightarrow> u32) \<Rightarrow> u8 list \<Rightarrow> engines \<Rightarrow> bool" where
  "emulated smart lib day buf eng \<longleftrightarrow> eng = emulator_engines smart lib day buf (emu_keys eng) \<and> emu_inv (fst (emu_keys eng))"

lemma emulated_start: "emu_inv (fst keys) \<Longrightarrow> emulated smart lib day buf (emulator_engines smart lib day buf keys)"
  by (simp add: emulated_def emulator_engines_def)

lemma emulated_emm:
  assumes "emulated smart lib day buf eng" and "emulator_emm smart lib day buf mem writable now caid emm eng = Some eng'"
  shows "emulated smart lib day buf eng'"
proof -
  obtain rc keys where k: "cccam_emu_process_emm (day now) mem writable caid emm (emu_keys eng) = Some (Some (rc, keys))"
    "eng' = emulator_engines smart lib day buf keys"
    using assms(2) by (auto simp: emulator_emm_def split: option.splits)
  have "emm_keeps (emu_keys eng) keys" using assms(1) by (intro process_emm_keeps [OF k(1)]) (simp add: emulated_def)
  then have "emu_inv (fst keys)"
    using assms(1) by (cases "emu_keys eng"; cases keys) (simp add: emm_keeps_def emulated_def)
  then show ?thesis unfolding k(2) by (rule emulated_start)
qed

text \<open>Where the emulator does not answer: its entry point loops for ever or is undefined.\<close>

lemma emulated_cw_None:
  assumes "emulated smart lib day buf eng"
  shows "emu_cw eng now caid provid sid ecm = None \<longleftrightarrow>
    cccam_emu_get_cw lib (day now) (fst (emu_keys eng)) caid sid ecm buf \<in> {None, Some None}"
proof -
  have "emu_cw eng now caid provid sid ecm = emu_cw (emulator_engines smart lib day buf (emu_keys eng)) now caid provid sid ecm"
    using assms by (simp add: emulated_def)
  then show ?thesis by (auto simp: emulator_engines_def split: option.splits)
qed

lemma emulator_emm_None:
  "emulator_emm smart lib day buf mem writable now caid emm eng = None \<longleftrightarrow>
   cccam_emu_process_emm (day now) mem writable caid emm (emu_keys eng) \<in> {None, Some None}"
  by (auto simp: emulator_emm_def split: option.splits)

subsection \<open>Properties\<close>

text \<open>
  C9: The emulator never makes a control word up. In a well-formed key store, as every reachable one is, whatever the ECM is, a successful
  answer means that the store has a key of a type that the engine of the CAID uses, and that this key has not
  expired today; and the CAID is not one of Nagravision, for which no key can be in the store.
\<close>

theorem emu_word_needs_key:
  assumes inv: "emu_inv st"
    and answer: "cccam_emu_get_cw lib today st caid sid ecm cw = Some (Some (EMU_OK, ecm', cw'))"
  shows "(\<exists>k \<in> set (em_keys st). ek_type k \<in> emu_types caid \<and> emu_key_valid today k) \<and> \<not> is_nagra_caid caid"
proof -
  have key: "\<not> no_key_of today (emu_types caid) st"
    using engine_without_key [OF _ answer] by blast
  have "ek_type k \<noteq> CHR ''N''" if "k \<in> set (em_keys st)" for k
    using inv that by (auto simp: emu_inv_def key_ok_def key_types_def)
  moreover have "emu_types caid = {CHR ''N''}" if "is_nagra_caid caid"
    using that nagra_caid_alone by (simp add: emu_types_def)
  ultimately show ?thesis using key by (auto simp: no_key_of_def)
qed

definition emu_example_lib :: emu_lib where
  "emu_example_lib = \<lparr>el_aes = (\<lambda>key block. block), el_mod_exp = (\<lambda>b e m. Some ((b ^ e) mod m)), el_mem = (\<lambda>_. True)\<rparr>"

definition emu_example_store :: emu where
  "emu_example_store = emu_store_initial\<lparr>em_keys :=
     [\<lparr>ek_type = CHR ''F'', ek_provider = 0x26001234, ek_index = 0, ek_name = [], ek_date = 20271231, ek_data = [1, 2, 3, 4, 5, 6, 7, 8]\<rparr>],
     em_count := 1\<rparr>"

lemma emu_example_store_inv: "emu_inv emu_example_store"
  by (simp add: emu_inv_def emu_example_store_def emu_store_initial_def key_ok_def key_types_def EMU_MAX_KEYS_def)

definition emu_example_files :: file_system where
  "emu_example_files = (\<lambda>_. None)"

lemma example_no_irdeto: "ird_get_key today ident c i emu_example_store = None"
  by (simp add: ird_get_key_def Let_def cccam_emu_find_key_def emu_example_store_def copy_out_def)

lemma emu_word_needs_key_witness:
  "(\<exists>k \<in> set (em_keys emu_example_store). ek_type k \<in> emu_types 0x2600 \<and> emu_key_valid 20260101 k) \<and> \<not> is_nagra_caid 0x2600"
proof (rule emu_word_needs_key [OF emu_example_store_inv])
  show "cccam_emu_get_cw emu_example_lib 20260101 emu_example_store 0x2600 0x1234 [0x80] (replicate 16 0)
    = Some (Some (EMU_OK, [0x80], [1, 2, 3, 4, 5, 6, 7, 8, 1, 2, 3, 4, 5, 6, 7, 8]))"
    by code_simp
qed

text \<open>
  C10: An EMM changes no more than it should. When an EMM of any system is handled on a well-formed key store, the
  store stays well-formed, the keys of the types other than Irdeto's stay as they are and in their order, and no file
  but the key file is written; an EMM of any other system changes neither keys nor files.
\<close>

theorem emu_emm_keeps_store:
  assumes "emu_inv st" and "cccam_emu_process_emm today mem writable caid emm (st, fs) = Some (Some (rc, st', fs'))"
  shows "emu_inv st' \<and> filter (\<lambda>k. ek_type k \<noteq> CHR ''I'') (em_keys st') = filter (\<lambda>k. ek_type k \<noteq> CHR ''I'') (em_keys st)
    \<and> (\<forall>p. p \<noteq> em_file st \<longrightarrow> fs' p = fs p) \<and> (\<not> is_irdeto_caid caid \<longrightarrow> st' = st \<and> fs' = fs)"
proof -
  have "emm_keeps (st, fs) (st', fs')" using process_emm_keeps [OF assms(2)] assms(1) by simp
  moreover have "st' = st \<and> fs' = fs" if "\<not> is_irdeto_caid caid"
    using assms that by (auto simp: cccam_emu_process_emm_def powervu_emm_inv is_irdeto_caid_def split: if_splits)
  ultimately show ?thesis by (simp add: emm_keeps_def other_keys_def)
qed

lemma emu_emm_keeps_store_witness:
  "\<exists>st' fs'. cccam_emu_process_emm 20260101 (\<lambda>_. True) True 0x0604 ([0x82, 0, 50, 0, 0, 0, 0, 0, 0, 40, 38] @ replicate 40 0x50)
      (emu_example_store, emu_example_files) = Some (Some (EMU_KEY_NOT_FOUND, st', fs'))
    \<and> emu_inv st' \<and> filter (\<lambda>k. ek_type k \<noteq> CHR ''I'') (em_keys st') = em_keys emu_example_store
    \<and> fs' ''conf/CCcam.channelinfo'' = emu_example_files ''conf/CCcam.channelinfo''"
proof -
  have run: "cccam_emu_process_emm 20260101 (\<lambda>_. True) True 0x0604 ([0x82, 0, 50, 0, 0, 0, 0, 0, 0, 40, 38] @ replicate 40 0x50)
      (emu_example_store, emu_example_files) = Some (Some (EMU_KEY_NOT_FOUND, emu_example_store, emu_example_files))"
    by (simp add: cccam_emu_process_emm_def cccam_emu_irdeto_emm_def ird_sct_len_def example_no_irdeto)
  have "em_file emu_example_store = ''conf/SoftCam.Key''"
    and "filter (\<lambda>k. ek_type k \<noteq> CHR ''I'') (em_keys emu_example_store) = em_keys emu_example_store"
    by (simp_all add: emu_example_store_def emu_store_initial_def)
  with emu_emm_keeps_store [OF emu_example_store_inv run] run show ?thesis by auto
qed

end
