(* ===== verification/System.thy ===== *)
theory System
  imports Server Emu_Dispatch
begin

text \<open>
  The server and the ECM handler together with the key emulator of the source: the argument \<open>emu\<close> of their theories is the
  model of \<open>src/CCshare/cccam3_emu.c\<close> over its engines. Only an ECM or an EMM changes or asks the emulator, so its words
  and its keys are those of one well-formed store in every reachable state, and a run is undefined only where the
  emulator itself loops for ever or is undefined.
\<close>

subsection \<open>The handler\<close>

lemma process_engines:
  "cccam_ecm_process lib al mem now rq w = Some (rc, resp, w') \<Longrightarrow> ew_engines w' = ew_engines w"
  by (auto simp: cccam_ecm_process_def ecm_serve_cached_def ecm_serve_reader_def ecm_serve_fresh_def ecm_register_request_def
      ecm_client_ok_def ecm_hop_blocked_def Let_def split: prod.splits option.splits if_splits)

lemma forward_engines:
  "cccam_ecm_forward_emm emu lib al now c p emm w = Some (n, w') \<Longrightarrow> emu now c emm (ew_engines w) = Some (ew_engines w')"
  by (auto simp: cccam_ecm_forward_emm_def Let_def split: prod.splits option.splits)

lemma clean_engines: "ew_engines (snd (cccam_ecm_clean_expired_cache now w)) = ew_engines w"
  by (simp add: cccam_ecm_clean_expired_cache_def split: prod.split)

text \<open>A property of the engines that EMMs keep is kept by every step.\<close>

lemma ecm_step_engines:
  assumes "ecm_step emu lib al x (own, held, w) = Some (own', held', w')" and "P (ew_engines w)"
    and "\<And>now c emm e e'. P e \<Longrightarrow> emu now c emm e = Some e' \<Longrightarrow> P e'"
  shows "P (ew_engines w')"
  using assms by (cases x)
    (auto simp: cccam_ecm_init_def clean_engines dest: process_engines forward_engines split: if_splits)

subsection \<open>The server\<close>

lemma destroy_engines: "server_destroy_client a w = Some w' \<Longrightarrow> ew_engines (sv_ecm w') = ew_engines (sv_ecm w)"
  by (auto simp: server_destroy_client_def split: option.splits)

lemma accept_engines:
  "server_accept mem a thread now fd addr w = Some (r, w') \<Longrightarrow> ew_engines (sv_ecm w') = ew_engines (sv_ecm w)"
  by (auto simp: server_accept_def Let_def dest!: destroy_engines split: if_splits prod.splits option.splits)

lemma thread_end_engines: "client_thread_end a w = Some w' \<Longrightarrow> ew_engines (sv_ecm w') = ew_engines (sv_ecm w)"
  by (auto simp: client_thread_end_def dest!: destroy_engines split: if_splits option.splits)

lemma set_client_engines [simp]: "ew_engines (sv_ecm (set_client a c w)) = ew_engines (sv_ecm w)"
  by (simp add: set_client_def)

lemma register_engines [simp]: "ew_engines (sv_ecm (register_ecm n b w)) = ew_engines (sv_ecm w)"
  by (simp add: register_ecm_def)

lemma account_engines: "login_account lib mem writable now addr login w = (ok, w') \<Longrightarrow> ew_engines (sv_ecm w') = ew_engines (sv_ecm w)"
  by (auto simp: login_account_def Let_def split: prod.splits if_splits)

lemma login_engines:
  "handle_client_login lib rnd mem writable now a p w io = Some (rc, w', io') \<Longrightarrow> ew_engines (sv_ecm w') = ew_engines (sv_ecm w)"
  by (auto simp: handle_client_login_def Let_def dest!: account_engines split: option.splits prod.splits if_splits)

lemma ecm_engines:
  "handle_client_ecm lib junk mem now a p w io = Some (rc, w', io') \<Longrightarrow> ew_engines (sv_ecm w') = ew_engines (sv_ecm w)"
  by (auto simp: handle_client_ecm_def Let_def dest!: process_engines split: option.splits prod.splits if_splits)

lemma message_engines:
  assumes "client_message emu lib rnd mem writable now a m p w io = Some (rc, w', io')" and "P (ew_engines (sv_ecm w))"
    and "\<And>now c emm e e'. P e \<Longrightarrow> emu now c emm e = Some e' \<Longrightarrow> P e'"
  shows "P (ew_engines (sv_ecm w'))"
  using assms
  by (auto simp: client_message_def set_pool_def dest: login_engines ecm_engines forward_engines split: if_splits)

lemma round_engines:
  assumes "client_round emu lib rnd mem writable now a w io = Some (rc, w', io')" and "P (ew_engines (sv_ecm w))"
    and "\<And>now c emm e e'. P e \<Longrightarrow> emu now c emm e = Some e' \<Longrightarrow> P e'"
  shows "P (ew_engines (sv_ecm w'))"
proof (cases "w' = w")
  case False
  with assms(1) obtain m p c io1 where "client_message emu lib rnd mem writable now a m p (set_client a c w) io1 = Some (rc, w', io')"
    by (auto simp: client_round_def split: option.splits prod.splits)
  from message_engines [OF this _ assms(3)] assms(2) show ?thesis by simp
qed (use assms(2) in simp)

lemma server_step_engines:
  assumes "server_step emu lib x (ts, w) = Some (ts', w')" and "P (ew_engines (sv_ecm w))"
    and "\<And>now c emm e e'. P e \<Longrightarrow> emu now c emm e = Some e' \<Longrightarrow> P e'"
  shows "P (ew_engines (sv_ecm w'))"
proof (cases x)
  case (SRound a rnd mem writable now io)
  with assms(1) have "w' = w \<or> (\<exists>rc io'. client_round emu lib rnd mem writable now a w io = Some (rc, w', io'))"
    by (auto split: if_splits)
  then show ?thesis
  proof
    assume "\<exists>rc io'. client_round emu lib rnd mem writable now a w io = Some (rc, w', io')"
    then obtain rc io' where "client_round emu lib rnd mem writable now a w io = Some (rc, w', io')" by blast
    then show ?thesis using assms(2) by (rule round_engines) (erule (1) assms(3))
  qed (use assms(2) in simp)
qed (use assms in \<open>auto simp: clean_engines dest: accept_engines thread_end_engines split: if_splits\<close>)

subsection \<open>Runs with the emulator of the source\<close>

lemma run_ops_preserves:
  "run_ops step xs s = Some t \<Longrightarrow> Q s \<Longrightarrow> (\<And>x s t. step x s = Some t \<Longrightarrow> Q s \<Longrightarrow> Q t) \<Longrightarrow> Q t"
  by (induction xs arbitrary: s) (auto split: option.splits)

lemma emulated_server:
  assumes "run_ops (server_step (emulator_emm smart lib day buf mem writable) ossl) ops (ts, w) = Some (ts', w')"
    and "emulated smart lib day buf (ew_engines (sv_ecm w))"
  shows "emulated smart lib day buf (ew_engines (sv_ecm w'))"
proof -
  have step: "emulated smart lib day buf (ew_engines (sv_ecm (snd t)))"
    if "server_step (emulator_emm smart lib day buf mem writable) ossl x s = Some t"
      "emulated smart lib day buf (ew_engines (sv_ecm (snd s)))" for x s t
  proof -
    obtain ts w ts' w' where st: "s = (ts, w)" "t = (ts', w')" by fastforce
    from that(2) have "emulated smart lib day buf (ew_engines (sv_ecm w))" by (simp add: st)
    then have "emulated smart lib day buf (ew_engines (sv_ecm w'))"
      by (rule server_step_engines [OF that(1) [unfolded st]]) (erule (1) emulated_emm)
    then show ?thesis by (simp add: st)
  qed
  show ?thesis
    using run_ops_preserves [OF assms(1), of "\<lambda>s. emulated smart lib day buf (ew_engines (sv_ecm (snd s)))"] assms(2) step by simp
qed

lemma emulated_handler:
  assumes "run_ops (ecm_step (emulator_emm smart lib day buf mem writable) ossl al) ops (own, held, w) = Some (own', held', w')"
    and "emulated smart lib day buf (ew_engines w)"
  shows "emulated smart lib day buf (ew_engines w')"
proof -
  have step: "emulated smart lib day buf (ew_engines (snd (snd t)))"
    if "ecm_step (emulator_emm smart lib day buf mem writable) ossl al x s = Some t"
      "emulated smart lib day buf (ew_engines (snd (snd s)))" for x s t
  proof -
    obtain own held w own' held' w' where st: "s = (own, held, w)" "t = (own', held', w')" by (metis prod_cases3)
    from that(2) have "emulated smart lib day buf (ew_engines w)" by (simp add: st)
    then have "emulated smart lib day buf (ew_engines w')"
      by (rule ecm_step_engines [OF that(1) [unfolded st]]) (erule (1) emulated_emm)
    then show ?thesis by (simp add: st)
  qed
  show ?thesis
    using run_ops_preserves [OF assms(1), of "\<lambda>s. emulated smart lib day buf (ew_engines (snd (snd s)))"] assms(2) step by simp
qed

text \<open>
  What an unanswered message is for this emulator: with the keys of its store, the entry point of its ECM or EMM loops for
  ever (\<open>None\<close>) or is undefined (\<open>Some None\<close>).
\<close>

definition emulator_stuck ::
  "emu_lib \<Rightarrow> (time_t \<Rightarrow> u32) \<Rightarrow> u8 list \<Rightarrow> (emu_key \<Rightarrow> bool) \<Rightarrow> bool \<Rightarrow> time_t \<Rightarrow> u32 \<Rightarrow> u8 list \<Rightarrow> emu \<times> file_system \<Rightarrow> bool" where
  "emulator_stuck lib day buf mem writable now msg_id p keys =
     (if msg_id = MSG_ECM
      then (case parse_ecm_payload p of
              None \<Rightarrow> False
            | Some rq \<Rightarrow> cccam_emu_get_cw lib (day now) (fst keys) (rq_caid rq) (rq_sid rq) (take (unat (rq_len rq)) (rq_data rq)) buf
                \<in> {None, Some None})
      else msg_id = MSG_EMM \<and> length p \<ge> 4 \<and>
        cccam_emu_process_emm (day now) mem writable (of_be16 (p ! 0) (p ! 1)) (drop 4 p) keys \<in> {None, Some None})"

lemma unanswered_stuck:
  assumes "emulated smart lib day buf (ew_engines (sv_ecm w))"
  shows "message_unanswered (emulator_emm smart lib day buf mem writable) now m p w \<longleftrightarrow>
    emulator_stuck lib day buf mem writable now m p (emu_keys (ew_engines (sv_ecm w)))"
  by (auto simp: message_unanswered_def emulator_stuck_def emulated_cw_None [OF assms] emulator_emm_None split: option.split)

subsection \<open>Properties\<close>

text \<open>
  C1: The server as a whole with its key emulator, for any sequence of accepted sockets, messages of the clients' threads (with any
  bytes from the network), ended threads, cache sweeps and limit changes. Either the sequence runs through, or a first part
  of it does and the next operation is a message whose ECM or EMM makes the emulator loop for ever or run into undefined
  behaviour with the keys it then has; nothing else is undefined or hangs. In the state reached no freed client is
  referenced, the pool, its counter and the connection counter of the load balancer all hold exactly the running
  threads, at most 100, and the emulator has one well-formed key store.
\<close>

theorem system_run_total:
  assumes "digest_lengths ossl" and "emu_inv (fst keys)"
    and "emu = emulator_emm smart lib day buf mem writable"
    and "start = ({}, server_initial cfg ips users files (emulator_engines smart lib day buf keys) env)"
  shows "case run_ops (server_step emu ossl) ops start of
      Some (ts, w) \<Rightarrow> threads_sound ts w \<and> emulated smart lib day buf (ew_engines (sv_ecm w))
    | None \<Rightarrow> \<exists>pre x post ts w. ops = pre @ x # post \<and> run_ops (server_step emu ossl) pre start = Some (ts, w) \<and>
        threads_sound ts w \<and> emulated smart lib day buf (ew_engines (sv_ecm w)) \<and>
        server_step emu ossl x (ts, w) = None \<and> server_unanswered emu ossl x (ts, w)"
proof -
  have "emulated smart lib day buf (ew_engines (sv_ecm (server_initial cfg ips users files (emulator_engines smart lib day buf keys) env)))"
    using emulated_start [OF assms(2)] by (simp add: server_initial_def ecm_world_initial_def)
  then have e: "emulated smart lib day buf (ew_engines (sv_ecm w))" if "run_ops (server_step emu ossl) xs start = Some (ts, w)" for xs ts w
    by (rule emulated_server [OF that [unfolded assms(3,4)]])
  note run = server_run_total [OF assms(1), of ops emu cfg ips users files "emulator_engines smart lib day buf keys" env, folded assms(4)]
  show ?thesis
  proof (cases "run_ops (server_step emu ossl) ops start")
    case None
    from run [unfolded None option.case] obtain pre x post ts w where r: "ops = pre @ x # post"
      "run_ops (server_step emu ossl) pre start = Some (ts, w)" "threads_sound ts w" "server_step emu ossl x (ts, w) = None"
      "server_unanswered emu ossl x (ts, w)" by blast
    from r e [OF r(2)] show ?thesis unfolding None option.case by (intro exI conjI)
  next
    case (Some s)
    with run e show ?thesis by (cases s) simp
  qed
qed

lemma system_run_total_witness:
  "\<exists>ts w. run_ops (server_step (emulator_emm (\<lambda>_ _ _ _. None) emu_example_lib (\<lambda>_. 20260101) (replicate 16 0) (\<lambda>_. True) True) toy_ossl)
      [SAccept True 7 True 5 4 1, SEnd 7] ({}, server_initial (sv_config demo_server) \<lparr>il_allow = [], il_deny = []\<rparr> users_initial (\<lambda>_. None)
        (emulator_engines (\<lambda>_ _ _ _. None) emu_example_lib (\<lambda>_. 20260101) (replicate 16 0) (emu_example_store, emu_example_files)) demo_env)
      = Some (ts, w) \<and> cccam_client_get_count (sv_pool w) = int (card ts)"
proof -
  let ?emu = "emulator_emm (\<lambda>_ _ _ _. None) emu_example_lib (\<lambda>_. 20260101) (replicate 16 0) (\<lambda>_. True) True"
    and ?ops = "[SAccept True 7 True 5 4 1, SEnd 7]"
    and ?s = "({}, server_initial (sv_config demo_server) \<lparr>il_allow = [], il_deny = []\<rparr> users_initial (\<lambda>_. None)
        (emulator_engines (\<lambda>_ _ _ _. None) emu_example_lib (\<lambda>_. 20260101) (replicate 16 0) (emu_example_store, emu_example_files)) demo_env)"
  have inv: "emu_inv (fst (emu_example_store, emu_example_files))" using emu_example_store_inv by simp
  note t = system_run_total [OF toy_ossl_ok(3) inv refl refl, where smart = "\<lambda>_ _ _ _. None" and lib = emu_example_lib
      and day = "\<lambda>_. 20260101" and buf = "replicate 16 0" and mem = "\<lambda>_. True" and writable = True and ops = ?ops
      and cfg = "sv_config demo_server" and ips = "\<lparr>il_allow = [], il_deny = []\<rparr>" and users = users_initial and files = "\<lambda>_. None"
      and env = demo_env]
  show ?thesis
  proof (cases "run_ops (server_step ?emu toy_ossl) ?ops ?s")
    case None
    from t [unfolded None option.case] obtain pre x post ts w where x: "?ops = pre @ x # post" "server_unanswered ?emu toy_ossl x (ts, w)"
      by blast
    from x(1) have "x \<in> set ?ops" by simp
    with x(2) show ?thesis by auto
  next
    case (Some y)
    from t [unfolded Some option.case] show ?thesis by (cases y) (simp add: Some threads_sound_def del: run_ops.simps)
  qed
qed

text \<open>
  C25: The handler of ECMs with the key emulator: any sequence of requests, EMMs and cache sweeps, interleaved with any steps of
  other threads on the client pool. Either it runs through, or a first part of it does and the next operation is a request
  or an EMM for which the emulator, with the keys it then has, loops for ever or is undefined. No other loop hangs and no freed
  client is touched: the cache stays within 1024 entries with one valid entry per channel, the pool keeps its reference
  discipline, and the emulator has one well-formed key store.
\<close>

theorem handler_run_total:
  assumes "emu_inv (fst keys)" and "emu = emulator_emm smart lib day buf mem writable"
    and "start = ({}, {#}, ecm_world_initial (emulator_engines smart lib day buf keys) env)"
  shows "case run_ops (ecm_step emu ossl al) ops start of
      Some (own, held, w) \<Rightarrow> cache_inv (ew_cache w) \<and> hop_inv (ew_hops w) \<and>
        pool_reachable \<lparr>pw_pool = ew_pool w, pw_owners = own, pw_held = held\<rparr> \<and> emulated smart lib day buf (ew_engines w)
    | None \<Rightarrow> \<exists>pre x post own held w. ops = pre @ x # post \<and> run_ops (ecm_step emu ossl al) pre start = Some (own, held, w) \<and>
        cache_inv (ew_cache w) \<and> hop_inv (ew_hops w) \<and>
        pool_reachable \<lparr>pw_pool = ew_pool w, pw_owners = own, pw_held = held\<rparr> \<and> emulated smart lib day buf (ew_engines w) \<and>
        ecm_step emu ossl al x (own, held, w) = None \<and>
        (case x of
           EProcess ok now rq \<Rightarrow> cccam_emu_get_cw lib (day now) (fst (emu_keys (ew_engines w))) (rq_caid rq) (rq_sid rq)
             (take (unat (rq_len rq)) (rq_data rq)) buf \<in> {None, Some None}
         | EForward now c p emm \<Rightarrow> cccam_emu_process_emm (day now) mem writable c emm (emu_keys (ew_engines w)) \<in> {None, Some None}
         | _ \<Rightarrow> False)"
proof -
  have "emulated smart lib day buf (ew_engines (ecm_world_initial (emulator_engines smart lib day buf keys) env))"
    using emulated_start [OF assms(1)] by (simp add: ecm_world_initial_def)
  then have e: "emulated smart lib day buf (ew_engines w)" if "run_ops (ecm_step emu ossl al) xs start = Some (own, held, w)" for xs own held w
    by (rule emulated_handler [OF that [unfolded assms(2,3)]])
  note run = ecm_run_total [of ops emu ossl al "emulator_engines smart lib day buf keys" env, folded assms(3)]
  show ?thesis
  proof (cases "run_ops (ecm_step emu ossl al) ops start")
    case None
    from run [unfolded None option.case] obtain pre x post own held w where r: "ops = pre @ x # post"
      "run_ops (ecm_step emu ossl al) pre start = Some (own, held, w)" "cache_inv (ew_cache w)" "hop_inv (ew_hops w)"
      "pool_reachable \<lparr>pw_pool = ew_pool w, pw_owners = own, pw_held = held\<rparr>" "ecm_step emu ossl al x (own, held, w) = None"
      "ecm_unanswered emu x (own, held, w)" by blast
    have "case x of
           EProcess ok now rq \<Rightarrow> cccam_emu_get_cw lib (day now) (fst (emu_keys (ew_engines w))) (rq_caid rq) (rq_sid rq)
             (take (unat (rq_len rq)) (rq_data rq)) buf \<in> {None, Some None}
         | EForward now c p emm \<Rightarrow> cccam_emu_process_emm (day now) mem writable c emm (emu_keys (ew_engines w)) \<in> {None, Some None}
         | _ \<Rightarrow> False"
      using r(7) emulated_cw_None [OF e [OF r(2)]] emulator_emm_None by (cases x) (simp_all add: assms(2))
    from r(1-5) e [OF r(2)] r(6) this show ?thesis unfolding None option.case by (intro exI conjI)
  next
    case (Some s)
    with run e show ?thesis by (cases s) simp
  qed
qed

lemma handler_run_total_witness:
  "\<exists>own held w. run_ops (ecm_step (emulator_emm (\<lambda>_ _ _ _. None) emu_example_lib (\<lambda>_. 20260101) (replicate 16 0) (\<lambda>_. True) True) toy_ossl 0)
      [EForward 5 0x0D00 0 [1, 2, 3, 4, 5, 6, 7, 8, 9], EClean 5]
      ({}, {#}, ecm_world_initial (emulator_engines (\<lambda>_ _ _ _. None) emu_example_lib (\<lambda>_. 20260101) (replicate 16 0)
        (emu_example_store, emu_example_files)) demo_env) = Some (own, held, w) \<and> cache_inv (ew_cache w)"
proof -
  let ?emu = "emulator_emm (\<lambda>_ _ _ _. None) emu_example_lib (\<lambda>_. 20260101) (replicate 16 0) (\<lambda>_. True) True"
    and ?ops = "[EForward 5 0x0D00 0 [1, 2, 3, 4, 5, 6, 7, 8, 9], EClean 5]"
    and ?s = "({}, {#}, ecm_world_initial (emulator_engines (\<lambda>_ _ _ _. None) emu_example_lib (\<lambda>_. 20260101) (replicate 16 0)
        (emu_example_store, emu_example_files)) demo_env)"
  have inv: "emu_inv (fst (emu_example_store, emu_example_files))" using emu_example_store_inv by simp
  note t = handler_run_total [OF inv refl refl, where smart = "\<lambda>_ _ _ _. None" and lib = emu_example_lib
      and day = "\<lambda>_. 20260101" and buf = "replicate 16 0" and mem = "\<lambda>_. True" and writable = True and ops = ?ops
      and ossl = toy_ossl and al = 0 and env = demo_env]
  show ?thesis
  proof (cases "run_ops (ecm_step ?emu toy_ossl 0) ?ops ?s")
    case None
    from t [unfolded None option.case] obtain pre x post keys where x: "?ops = pre @ x # post" "case x of
           EProcess ok now rq \<Rightarrow> cccam_emu_get_cw emu_example_lib 20260101 (fst keys) (rq_caid rq) (rq_sid rq)
             (take (unat (rq_len rq)) (rq_data rq)) (replicate 16 0) \<in> {None, Some None}
         | EForward now c p emm \<Rightarrow> cccam_emu_process_emm 20260101 (\<lambda>_. True) True c emm keys \<in> {None, Some None}
         | _ \<Rightarrow> False" by blast
    from x(1) have "x \<in> set ?ops" by simp
    with x(2) show ?thesis by (auto simp: cccam_emu_process_emm_def)
  next
    case (Some y)
    from t [unfolded Some option.case] show ?thesis by (cases y) (simp add: Some del: run_ops.simps)
  qed
qed

end
