(* ===== verification/Channels.thy ===== *)
theory Channels
  imports User_Manager
begin

text \<open>
  Names of channels and providers, \<open>src/CCshare/cccam3_channels.c\<close>: two arrays of 4096 entries, their counters
  and the paths of the files. An array is the list of the entries that were written, the others are zero; \<open>mem\<close> is the
  outcome of the two \<open>calloc\<close>s. Shown here: the counters stay 0 after every load, so no name is ever found.
\<close>

subsection \<open>State\<close>

record ch_provider =
  chp_caid :: u16
  chp_provid :: u16
  chp_name :: string

record ch_channel =
  chc_caid :: u16
  chc_provid :: u16
  chc_sid :: u16
  chc_name :: string

record channels =
  chs_providers :: "ch_provider list option"
  chs_provider_count :: int
  chs_channels :: "ch_channel list option"
  chs_channel_count :: int
  chs_providers_file :: string
  chs_channelinfo_file :: string

definition channels_initial :: channels where
  "channels_initial = \<lparr>chs_providers = None, chs_provider_count = 0, chs_channels = None, chs_channel_count = 0,
     chs_providers_file = ''conf/CCcam.providers'', chs_channelinfo_file = ''conf/CCcam.channelinfo''\<rparr>"

definition CHANNELS_MAX_ENTRIES :: nat where "CHANNELS_MAX_ENTRIES = 4096"

definition cccam_channels_set_files :: "string option \<Rightarrow> string option \<Rightarrow> channels \<Rightarrow> channels" where
  "cccam_channels_set_files providers_file channelinfo_file st =
     (let put = (\<lambda>p old. case p of None \<Rightarrow> old | Some [] \<Rightarrow> old | Some (c # s) \<Rightarrow> c_strncpy 256 (c # s)) in
      st\<lparr>chs_providers_file := put providers_file (chs_providers_file st),
         chs_channelinfo_file := put channelinfo_file (chs_channelinfo_file st)\<rparr>)"

definition channels_free :: "channels \<Rightarrow> channels" where
  "channels_free st = st\<lparr>chs_providers := None, chs_channels := None, chs_provider_count := 0, chs_channel_count := 0\<rparr>"

subsection \<open>Parsing\<close>

definition ch_trim :: "string \<Rightarrow> string" where
  "ch_trim s = trim_end (skip_space s)"

text \<open>
  The conversions of \<open>sscanf\<close>: \<open>%x\<close> gives the value and what follows, a literal must be the next character,
  and \<open>%n[^\r\n]\<close> takes one to \<open>n\<close> characters.
\<close>

definition c_scan_x :: "string \<Rightarrow> (u32 \<times> string) option" where
  "c_scan_x s =
     (let t = skip_space s;
          (neg, u) = (case t of [] \<Rightarrow> (False, [])
            | c # r \<Rightarrow> if c = CHR ''-'' then (True, r) else if c = CHR ''+'' then (False, r) else (False, t));
          w = skip_0x u;
          d = takeWhile (\<lambda>c. hex_value c \<noteq> None) w;
          v = hex_digits_value 0 d in
      if d = [] then None
      else Some (word_of_int (if v \<ge> 2 ^ 64 then 2 ^ 64 - 1 else if neg then - v else v), drop (length d) w))"

definition c_scan_lit :: "char \<Rightarrow> string \<Rightarrow> string option" where
  "c_scan_lit c s = (case s of d # r \<Rightarrow> if d = c then Some r else None | [] \<Rightarrow> None)"

definition c_scan_line :: "nat \<Rightarrow> string \<Rightarrow> string option" where
  "c_scan_line n s = (let t = take n (takeWhile (\<lambda>c. c \<noteq> CR \<and> c \<noteq> NL) s) in if t = [] then None else Some t)"

text \<open>A number and the colon behind it.\<close>

definition scan_field :: "string \<Rightarrow> (u32 \<times> string) option" where
  "scan_field s = (case c_scan_x s of None \<Rightarrow> None | Some (v, r) \<Rightarrow> map_option (Pair v) (c_scan_lit (CHR '':'') r))"

definition ch_comment :: "string \<Rightarrow> bool" where
  "ch_comment p \<longleftrightarrow> p = [] \<or> hd p = CHR ''#'' \<or> hd p = CHR '';''"

definition ch_provider_line :: "string \<Rightarrow> ch_provider option" where
  "ch_provider_line line =
     (let p = ch_trim (c_line line) in
      if ch_comment p then None
      else (case scan_field p of
          None \<Rightarrow> None
        | Some (caid, r) \<Rightarrow> (case scan_field r of
            None \<Rightarrow> None
          | Some (provid, r) \<Rightarrow> (case c_scan_line 63 r of
              None \<Rightarrow> None
            | Some name \<Rightarrow>
                if ch_trim name = [] then None
                else Some \<lparr>chp_caid = ucast caid, chp_provid = ucast provid, chp_name = c_strncpy 64 (ch_trim name)\<rparr>))))"

definition ch_channel_line :: "string \<Rightarrow> ch_channel option" where
  "ch_channel_line line =
     (let p = ch_trim (c_line line) in
      if ch_comment p then None
      else (case scan_field p of
          None \<Rightarrow> None
        | Some (caid, r) \<Rightarrow> (case scan_field r of
            None \<Rightarrow> None
          | Some (provid, r) \<Rightarrow> (case scan_field r of
              None \<Rightarrow> None
            | Some (sid, r) \<Rightarrow> (case c_scan_line 95 r of
                None \<Rightarrow> None
              | Some name \<Rightarrow>
                  if ch_trim name = [] then None
                  else Some \<lparr>chc_caid = ucast caid, chc_provid = ucast provid, chc_sid = ucast sid,
                             chc_name = c_strncpy 96 (ch_trim name)\<rparr>)))))"

text \<open>The entries that are written, up to the size of the array, and the number that is returned; -1 when there is no file.\<close>

definition ch_load_providers :: "file_system \<Rightarrow> string \<Rightarrow> int \<times> ch_provider list" where
  "ch_load_providers fs path =
     (case fs path of
        None \<Rightarrow> (-1, [])
      | Some content \<Rightarrow>
          let es = take CHANNELS_MAX_ENTRIES (List.map_filter ch_provider_line (fgets_lines 254 content)) in (int (length es), es))"

definition ch_load_channelinfo :: "file_system \<Rightarrow> string \<Rightarrow> int \<times> ch_channel list" where
  "ch_load_channelinfo fs path =
     (case fs path of
        None \<Rightarrow> (-1, [])
      | Some content \<Rightarrow>
          let es = take CHANNELS_MAX_ENTRIES (List.map_filter ch_channel_line (fgets_lines 254 content)) in (int (length es), es))"

text \<open>The numbers that the two loaders return are not used.\<close>

definition cccam_channels_init :: "bool \<Rightarrow> file_system \<Rightarrow> channels \<Rightarrow> int \<times> channels" where
  "cccam_channels_init mem fs st =
     (let st = channels_free st in
      if \<not> mem then (-1, st)
      else (0, st\<lparr>chs_providers := Some (snd (ch_load_providers fs (chs_providers_file st))),
                  chs_channels := Some (snd (ch_load_channelinfo fs (chs_channelinfo_file st)))\<rparr>))"

definition cccam_channels_cleanup :: "channels \<Rightarrow> channels" where
  "cccam_channels_cleanup st = channels_free st"

subsection \<open>Lookup\<close>

definition ch_entries :: "int \<Rightarrow> 'a list option \<Rightarrow> 'a list" where
  "ch_entries n a = (case a of None \<Rightarrow> [] | Some es \<Rightarrow> take (nat n) es)"

definition cccam_channels_get_provider :: "u16 \<Rightarrow> u16 \<Rightarrow> channels \<Rightarrow> string option" where
  "cccam_channels_get_provider caid provid st =
     map_option chp_name
       (find (\<lambda>p. chp_caid p = caid \<and> (chp_provid p = provid \<or> chp_provid p = 0)) (ch_entries (chs_provider_count st) (chs_providers st)))"

definition cccam_channels_get_name :: "u16 \<Rightarrow> u16 \<Rightarrow> u16 \<Rightarrow> channels \<Rightarrow> string option" where
  "cccam_channels_get_name caid provid sid st =
     (let es = ch_entries (chs_channel_count st) (chs_channels st) in
      map_option chc_name
        (case find (\<lambda>c. chc_caid c = caid \<and> chc_sid c = sid \<and> chc_provid c = provid) es of
           Some c \<Rightarrow> Some c
         | None \<Rightarrow>
             (case find (\<lambda>c. chc_caid c = caid \<and> chc_sid c = sid \<and> chc_provid c = 0) es of
                Some c \<Rightarrow> Some c
              | None \<Rightarrow> find (\<lambda>c. chc_caid c = 0 \<and> chc_sid c = sid) es)))"

definition cccam_channels_get_count :: "channels \<Rightarrow> int" where
  "cccam_channels_get_count st = chs_channel_count st"

subsection \<open>Reachable states\<close>

datatype channels_op = ChSetFiles "string option" "string option" | ChInit bool file_system | ChCleanup

fun channels_exec :: "channels_op \<Rightarrow> channels \<Rightarrow> channels" where
  "channels_exec (ChSetFiles p c) st = cccam_channels_set_files p c st"
| "channels_exec (ChInit mem fs) st = snd (cccam_channels_init mem fs st)"
| "channels_exec ChCleanup st = cccam_channels_cleanup st"

interpretation channels_sys: total_system channels_initial channels_exec
  "\<lambda>st. chs_provider_count st = 0 \<and> chs_channel_count st = 0"
proof
  fix st :: channels and x assume "chs_provider_count st = 0 \<and> chs_channel_count st = 0"
  then show "chs_provider_count (channels_exec x st) = 0 \<and> chs_channel_count (channels_exec x st) = 0"
    by (cases x) (simp_all add: cccam_channels_set_files_def cccam_channels_init_def cccam_channels_cleanup_def channels_free_def Let_def)
qed (simp add: channels_initial_def)

lemma channels_unnamed:
  assumes "chs_provider_count st = 0 \<and> chs_channel_count st = 0"
  shows "cccam_channels_get_provider caid provid st = None" "cccam_channels_get_name caid provid sid st = None"
  using assms
  by (simp_all add: cccam_channels_get_provider_def cccam_channels_get_name_def ch_entries_def split: option.splits)

subsection \<open>Properties\<close>

text \<open>
  C39: No channel and no provider is ever named, whatever the files hold and however often they are loaded: the counters of
  the entries are not set from what the loaders return. For example, a line of the file for the service 2001 is parsed
  and stored, and looking the service up finds nothing.
\<close>

theorem channels_never_named:
  "\<exists>st. fold channels_exec ops channels_initial = st \<and> cccam_channels_get_count st = 0 \<and>
     cccam_channels_get_provider caid provid st = None \<and> cccam_channels_get_name caid provid sid st = None"
  using channels_sys.invar_fold [OF channels_sys.invar_start, of ops]
  by (simp add: channels_unnamed cccam_channels_get_count_def)

lemma example_channel_stored:
  "chs_channels (fold channels_exec [ChInit True (\<lambda>_. Some ''0500:0000:2001:TF1'')] channels_initial) =
     Some [\<lparr>chc_caid = 0x500, chc_provid = 0, chc_sid = 0x2001, chc_name = ''TF1''\<rparr>]"
  by code_simp

end
