(* ===== verification/Spec2Isabelle.thy ===== *)
theory Spec2Isabelle
  imports Prelude Text Cache Hop_Control Load_Balancer Crypto Protocol Handshake User_Manager Client_Pool Reader
    Card_Manager Ecm Access Server Server_Recovery Session Cc_Legacy Idea Newcamd Emu Irdeto Nagravision Cryptoworks Viaccess
    Powervu Emu_Dispatch System Channels
begin

text \<open>
  \<^bold>\<open>A model of the CCcam 3 card-sharing server.\<close>

  The server takes ECMs (encrypted control words of pay-TV channels) from clients and answers with control words. A word
  comes from the cache, from a local card, from the key emulator or from a remote server. All paths below are relative
  to the directory \<open>src\<close> of the repository that holds \<open>CCshare\<close>, \<open>core\<close> and \<open>network\<close>.

  \<^bold>\<open>How the parts interact.\<close> A connection is accepted (\<open>Server\<close>, \<open>Cc_Legacy\<close>, \<open>Newcamd\<close>) if the lists of addresses allow it
  (\<open>Access\<close>), and gets a client with counted references (\<open>Client_Pool\<close>). Its messages are read and sealed by the session
  ciphers (\<open>Protocol\<close> over \<open>Crypto\<close>, keys from \<open>Handshake\<close>); a login is checked against the users (\<open>User_Manager\<close>). An ECM goes to
  the handler (\<open>Ecm\<close>): count, \<open>Cache\<close>, \<open>Hop_Control\<close>, and on a miss the best reader (\<open>Card_Manager\<close>, \<open>Reader\<close>). A reader asks a
  card, the emulator or a remote server. The emulator (\<open>Emu_Dispatch\<close>) chooses an engine by the CAID, and each engine looks
  its keys up in the store (\<open>Emu\<close>). An EMM goes to the emulator, where it may change keys, and to the readers.

  \<^bold>\<open>Theories and sources.\<close>
  \<^item> \<open>Prelude\<close>, \<open>Text\<close>, \<open>Buffers\<close>, \<open>Block_Cipher\<close>: words, byte order, list loops, C strings, \<open>fgets\<close>, \<open>strtok\<close>, \<open>strtol\<close>, arrays of
    initialised bytes, ECB and CBC over a block function; and the interfaces as locales: \<open>op_system\<close>, \<open>total_system\<close>,
    \<open>guarded_system\<close> (runs that are undefined only where called code is), \<open>logged_store\<close>, \<open>lossy_store\<close>, \<open>keyed_store\<close>, \<open>sync_cipher\<close>, \<open>block_map\<close>, \<open>block_cipher\<close>. Each is interpreted on the definitions of the code.
  \<^item> \<open>Cache\<close>: \<open>CCshare/cccam3_cache.c\<close>; the linked list is a HOL list, head first. Bounded size, one entry per
    channel, a hit is the last store.
  \<^item> \<open>Hop_Control\<close>: \<open>CCshare/cccam3_hop_control.c\<close>; invariant, counting, when a request is blocked.
  \<^item> \<open>Load_Balancer\<close>: \<open>core/cccam3_optimizer.c\<close>; bounds of the connection counter, exactness of the leak counter.
  \<^item> \<open>Crypto\<close>, \<open>Protocol\<close>, \<open>Handshake\<close>: the files of these names in \<open>network\<close>; RC4 and its table, session encryption in all modes,
    building and parsing of messages, unique nonces, agreement of the session key.
  \<^item> \<open>User_Manager\<close>: \<open>CCshare/cccam3_user_manager.c\<close>; table invariant, login, users file, automatic registration.
  \<^item> \<open>Client_Pool\<close>: \<open>core/cccam3_client.c\<close>; an explicit heap of records with reference counts and a step relation of their
    holders: no use after free, no leak.
  \<^item> \<open>Reader\<close>, \<open>Card_Manager\<close>: \<open>CCshare/cccam3_card_manager.c\<close>; choice of the reader, backoff, accounting, readers file, remote login.
  \<^item> \<open>Ecm\<close>: \<open>CCshare/cccam3_ecm.c\<close>; where a run of the handler can be undefined, accounting of a request, service from the cache.
  \<^item> \<open>Access\<close>, \<open>Server\<close>, \<open>Server_Recovery\<close>, \<open>Session\<close>: \<open>core/cccam3_server.c\<close>; address lists, failed logins, rate limit, accepting and
    ending a session, its messages, the two ends of a login together, what is possible again from every state.
  \<^item> \<open>Cc_Legacy\<close>, \<open>Newcamd_Des\<close>, \<open>Newcamd\<close>: \<open>network/cccam3_cc_legacy.c\<close>, \<open>network/cccam3_newcamd.c\<close> and the Newcamd part of
    \<open>CCshare/cccam3_emu_des.c\<close>; life of the cipher, messages, logins.
  \<^item> \<open>Idea\<close>, \<open>Des_Tables\<close>, \<open>Des\<close>, \<open>Des_Words\<close>: \<open>CCshare/cccam3_emu_idea.c\<close> and \<open>CCshare/cccam3_emu_des.c\<close>; IDEA equals its reference
    over the integers modulo 65537, and decryption undoes encryption for it and both forms of DES.
  \<^item> \<open>Emu\<close>: \<open>CCshare/cccam3_emu.c\<close>; key file, store as a map, lookups, keys from EMMs, BISS.
  \<^item> \<open>Irdeto\<close>, \<open>Nagravision\<close>, \<open>Cryptoworks\<close>, \<open>Viaccess\<close> (with \<open>Viaccess_Tables\<close>), \<open>Powervu\<close> (with \<open>Powervu_Tables\<close> and \<open>Powervu_Hash\<close>):
    the file of the same name in lower case, \<open>CCshare/cccam3_emu_irdeto.c\<close> and so on; which sections are handled inside their buffers, and that the engine opens what a head
    end, defined here as the inverse construction, makes.
  \<^item> \<open>Emu_Dispatch\<close>: the entry points of \<open>CCshare/cccam3_emu.c\<close> over all engines; a word needs a valid key, an EMM leaves the other
    keys and files alone; the emulator as the readers and the EMM path use it (\<open>emulator_engines\<close>, \<open>emulator_emm\<close>).
  \<^item> \<open>System\<close>: the server and the ECM handler with this emulator; a run is undefined only where the emulator is.
  \<^item> \<open>Channels\<close>: \<open>CCshare/cccam3_channels.c\<close>; the names of channels that are loaded and never found.

  \<^bold>\<open>Conventions.\<close> A struct is a record, the globals of a file are one record that its operations pass on, and a machine
  integer is a word of its width where wrapping matters. Mutexes are the atomicity of an operation; interleaving is a sequence of
  operations or a step relation. A file system is a map from paths to contents; an opened file is read as a whole. The outcome of
  \<open>malloc\<close>, of \<open>connect\<close>, of a write and of opening a file for writing, the time, the day and random bytes are arguments.
  \<open>None\<close> as the result of a stateful operation or of an engine is a run that the C standard does not define (an access outside a
  buffer or to freed memory) or that never returns; where an engine has both, as PowerVU has, the outer \<open>None\<close> is the endless loop.
  Operations that the code can fail in return the code's own error values.

  \<^bold>\<open>Bounds and fuel.\<close> Loops over lists and buffers are recursive functions with termination proofs, so no bound is chosen.
  The exceptions are four loops that need not end, which are \<open>partial_function\<close>s: the eviction of the cache (it ends in every
  reachable state), the password hash of Newcamd (it ends exactly for lengths that are multiples of 16), the key loop of the
  PowerVU ECM handler (it ends exactly with a key that opens the element) and that of its EMM handler (it ends in every
  well-formed store). The sizes of tables (1024 cache entries, 100 clients, 256 users,
  4096 keys and channels, and so on) are those of the source.

  \<^bold>\<open>Parameters.\<close> Code outside the repository is an argument: the ciphers and digests of OpenSSL (the record \<open>ossl\<close>, with the
  documented laws that decryption undoes encryption as hypotheses, and a concrete instance that satisfies them), AES and
  modular exponentiation for the engines (\<open>emu_lib\<close>), MD5, and what the sockets deliver. In the theories from \<open>Reader\<close> to
  \<open>Server\<close> the smartcard and the emulator are an argument (\<open>engines\<close>) that may fail to return: \<open>None\<close> is then a run of the
  caller that is undefined or does not return. \<open>System\<close> puts the emulator of the source in its place.

  \<^bold>\<open>Not modelled.\<close>
  \<^item> \<open>api/cccam3_rest_api.c\<close>, \<open>api/cccam3_web_interface.c\<close>: an HTTP front end that formats the state of the other components as text and
    calls their operations, and a static page.
  \<^item> \<open>hardware\<close>: ioctl, PC/SC and socket handling of receivers, with the parsers of the DVB tables and of the decoder protocol.
  \<^item> \<open>core/cccam3_config.c\<close>, \<open>core/cccam3_utils.c\<close>, \<open>core/cccam3_logger.c\<close>: reading of key and value pairs into one struct, text output.
  \<^item> The start, the signals and the main loop of \<open>core/cccam3_server.c\<close>: sockets, threads and process set-up.
  \<^item> The RSA wrappers of \<open>network/cccam3_crypto_advanced.c\<close> and the AES wrapper of \<open>CCshare/cccam3_emu_des.c\<close>, which only call OpenSSL.
\<close>

end
